(* ===== verification/Prelude.thy ===== *)
theory Prelude
  imports Main "HOL-Library.Sublist"
begin

text \<open>
  Shared vocabulary of the development: JavaScript strings, arrays and objects as the
  TypeScript sources use them, with the lemmas every component relies on.

  A JavaScript string is a sequence of UTF-16 code units. The model's \<open>string\<close> is a list
  of \<open>char\<close>, read as code units U+0000..U+00FF: on that range every operation below is the
  JavaScript one (white space contains U+00A0, upper-casing U+00DF gives two letters).
  Code units above U+00FF are outside the model.

  A JavaScript number that the sources use as an index, an identifier, a count or a time
  stamp is an \<open>int\<close> or a \<open>nat\<close>; the values are integers below 2^53, where
  JavaScript's arithmetic is exact.
\<close>

section \<open>Collections of facts\<close>

named_theorems js_simps \<open>evaluation rules of the JavaScript string and object operations\<close>

section \<open>Characters and strings\<close>

abbreviation code :: "char \<Rightarrow> nat" where
  "code c \<equiv> of_char c"

text \<open>The white space of \<open>\s\<close> and of \<open>trim\<close>.\<close>

definition is_space :: "char \<Rightarrow> bool" where
  "is_space c \<longleftrightarrow> (9 \<le> code c \<and> code c \<le> 13) \<or> code c = 32 \<or> code c = 160"

definition is_digit :: "char \<Rightarrow> bool" where
  "is_digit c \<longleftrightarrow> 48 \<le> code c \<and> code c \<le> 57"

definition is_upper_az :: "char \<Rightarrow> bool" where
  "is_upper_az c \<longleftrightarrow> 65 \<le> code c \<and> code c \<le> 90"

definition is_lower_az :: "char \<Rightarrow> bool" where
  "is_lower_az c \<longleftrightarrow> 97 \<le> code c \<and> code c \<le> 122"

definition is_alpha :: "char \<Rightarrow> bool" where
  "is_alpha c \<longleftrightarrow> is_upper_az c \<or> is_lower_az c"

text \<open>The characters of \<open>\w\<close>.\<close>

definition is_word :: "char \<Rightarrow> bool" where
  "is_word c \<longleftrightarrow> is_alpha c \<or> is_digit c \<or> c = CHR ''_''"

definition is_newline :: "char \<Rightarrow> bool" where
  "is_newline c \<longleftrightarrow> code c = 10"

lemmas char_class_defs = is_space_def is_digit_def is_upper_az_def is_lower_az_def
  is_alpha_def is_word_def is_newline_def

text \<open>\<open>toLowerCase\<close> and \<open>toUpperCase\<close>.\<close>

definition lower_char :: "char \<Rightarrow> char" where
  "lower_char c =
     (if is_upper_az c \<or> (192 \<le> code c \<and> code c \<le> 222 \<and> code c \<noteq> 215)
      then char_of (code c + 32) else c)"

definition upper_char :: "char \<Rightarrow> string" where
  "upper_char c =
     (if code c = 223 then ''SS''
      else if is_lower_az c \<or> (224 \<le> code c \<and> code c \<le> 254 \<and> code c \<noteq> 247)
      then [char_of (code c - 32)] else [c])"

definition to_lower :: "string \<Rightarrow> string" where
  "to_lower s = map lower_char s"

definition to_upper :: "string \<Rightarrow> string" where
  "to_upper s = concat (map upper_char s)"

lemma to_lower_Nil [simp]: "to_lower [] = []"
  by (simp add: to_lower_def)

lemma length_to_lower [simp]: "length (to_lower s) = length s"
  by (simp add: to_lower_def)

definition trim_start :: "string \<Rightarrow> string" where
  "trim_start s = dropWhile is_space s"

definition trim_end :: "string \<Rightarrow> string" where
  "trim_end s = rev (dropWhile is_space (rev s))"

definition trim :: "string \<Rightarrow> string" where
  "trim s = trim_end (trim_start s)"

definition blank :: "string \<Rightarrow> bool" where
  "blank s \<longleftrightarrow> list_all is_space s"

lemma blank_iff: "blank s \<longleftrightarrow> (\<forall>c \<in> set s. is_space c)"
  by (simp add: blank_def list_all_iff)

lemma blank_Nil [simp]: "blank []"
  by (simp add: blank_def)

lemma blank_Cons [simp]: "blank (c # s) \<longleftrightarrow> is_space c \<and> blank s"
  by (simp add: blank_def)

lemma dropWhile_all_Nil: "dropWhile P xs = [] \<longleftrightarrow> list_all P xs"
  by (induction xs) auto

lemma trim_Nil [simp]: "trim [] = []"
  by (simp add: trim_def trim_end_def trim_start_def)

lemma trim_end_empty: "trim_end s = [] \<longleftrightarrow> blank s"
proof -
  have "trim_end s = [] \<longleftrightarrow> dropWhile is_space (rev s) = []"
    by (simp add: trim_end_def)
  also have "\<dots> \<longleftrightarrow> list_all is_space (rev s)"
    by (rule dropWhile_all_Nil)
  finally show ?thesis
    by (simp add: blank_def list_all_iff)
qed

lemma trim_empty: "trim s = [] \<longleftrightarrow> blank s"
proof
  assume "trim s = []"
  then have "blank (dropWhile is_space s)"
    by (simp add: trim_def trim_end_empty trim_start_def)
  then have "\<forall>c \<in> set (takeWhile is_space s @ dropWhile is_space s). is_space c"
    unfolding set_append by (auto simp: blank_iff dest: set_takeWhileD)
  then show "blank s" by (simp only: takeWhile_dropWhile_id blank_iff)
next
  assume "blank s"
  then have "trim_start s = []"
    by (simp only: trim_start_def dropWhile_all_Nil blank_def)
  then show "trim s = []"
    by (simp add: trim_def trim_end_def)
qed

lemma trim_idem_char:
  assumes "s \<noteq> []" and "\<not> is_space (hd s)" and "\<not> is_space (last s)"
  shows "trim s = s"
proof -
  have "dropWhile is_space s = s"
    using assms by (cases s) auto
  moreover have "dropWhile is_space (rev s) = rev s"
    using assms by (cases "rev s") (auto simp: last_rev hd_rev[symmetric] dest: arg_cong[of _ _ rev])
  ultimately show ?thesis
    by (simp add: trim_def trim_start_def trim_end_def)
qed

lemma trim_end_decomp: "\<exists>w. s = trim_end s @ w \<and> blank w"
proof (intro exI conjI)
  have "rev s = takeWhile is_space (rev s) @ dropWhile is_space (rev s)" by simp
  then have "rev (rev s) = rev (takeWhile is_space (rev s) @ dropWhile is_space (rev s))"
    by (rule arg_cong)
  then show "s = trim_end s @ rev (takeWhile is_space (rev s))"
    by (metis rev_append rev_rev_ident trim_end_def)
  show "blank (rev (takeWhile is_space (rev s)))"
    by (auto simp: blank_def list_all_iff dest: set_takeWhileD)
qed

lemma trim_start_decomp: "\<exists>w. s = w @ trim_start s \<and> blank w"
  by (rule exI [of _ "takeWhile is_space s"])
     (auto simp: trim_start_def blank_def list_all_iff dest: set_takeWhileD)

lemma trim_decomp: "\<exists>u w. s = u @ trim s @ w \<and> blank u \<and> blank w"
proof -
  obtain u where u: "s = u @ trim_start s" "blank u"
    using trim_start_decomp by blast
  obtain w where w: "trim_start s = trim_end (trim_start s) @ w" "blank w"
    using trim_end_decomp by blast
  have "s = u @ trim s @ w"
    using u(1) w(1) by (simp add: trim_def)
  with u(2) w(2) show ?thesis by blast
qed

lemma trim_split:
  "s = take (length s - length (trim_start s)) s @ trim_start s"
proof -
  obtain w where w: "s = w @ trim_start s" using trim_start_decomp by blast
  have "length w = length s - length (trim_start s)"
    by (subst w) simp
  with w show ?thesis by (metis append_eq_conv_conj)
qed

lemma trim_end_prefix: "take (length (trim_end s)) s = trim_end s"
  by (metis append_eq_conv_conj trim_end_decomp)

lemma trim_start_end: "\<not> blank s \<Longrightarrow> trim_start (trim_end s) = trim s"
proof -
  assume nb: "\<not> blank s"
  obtain w where w: "s = trim_end s @ w" "blank w" using trim_end_decomp by blast
  have ne: "\<not> blank (trim_end s)"
    using nb w by (metis blank_iff Un_iff set_append)
  then have d: "dropWhile is_space s = dropWhile is_space (trim_end s) @ w"
    by (metis blank_iff dropWhile_append1 w(1))
  have n0: "dropWhile is_space (trim_end s) \<noteq> []"
    using ne by (simp add: blank_def dropWhile_all_Nil list_all_iff)
  have "\<not> is_space (last (trim_end s))"
  proof -
    have "dropWhile is_space (rev s) \<noteq> []"
      using nb by (simp add: dropWhile_all_Nil blank_def list_all_iff)
    then have "\<not> is_space (hd (dropWhile is_space (rev s)))" by (rule hd_dropWhile)
    then show ?thesis
      using \<open>dropWhile is_space (rev s) \<noteq> []\<close> by (simp add: trim_end_def last_rev)
  qed
  moreover have "last (dropWhile is_space (trim_end s)) = last (trim_end s)"
    using n0 by (metis append_is_Nil_conv last_append takeWhile_dropWhile_id)
  ultimately have lst: "\<not> is_space (last (dropWhile is_space (trim_end s)))" by simp
  have "rev (dropWhile is_space s) = rev w @ rev (dropWhile is_space (trim_end s))"
    by (simp add: d)
  moreover have "dropWhile is_space (rev w @ rev (dropWhile is_space (trim_end s)))
      = rev (dropWhile is_space (trim_end s))"
  proof -
    have "dropWhile is_space (rev (dropWhile is_space (trim_end s)))
        = rev (dropWhile is_space (trim_end s))"
      using lst n0 by (cases "rev (dropWhile is_space (trim_end s))") (auto simp: last_rev hd_rev [symmetric])
    moreover have "\<And>c. c \<in> set (rev w) \<Longrightarrow> is_space c" using w(2) by (simp add: blank_iff)
    ultimately show ?thesis by (metis dropWhile_append2)
  qed
  moreover have "trim s = rev (dropWhile is_space (rev (dropWhile is_space s)))"
    by (simp only: trim_def trim_end_def trim_start_def)
  ultimately show ?thesis
    by (simp add: trim_start_def)
qed

lemma length_trim_start: "length (trim_start s) \<le> length s"
  by (simp add: trim_start_def length_dropWhile_le)

lemma length_trim_end: "length (trim_end s) \<le> length s"
  using length_dropWhile_le [of is_space "rev s"] by (simp add: trim_end_def)

lemma trim_trim: "trim (trim s) = trim s"
proof (cases "blank s")
  case False
  then have ne: "trim s \<noteq> []" by (simp add: trim_empty)
  have "\<not> is_space (hd (trim s))"
    using ne hd_dropWhile [of is_space "trim_end s"] trim_start_end [OF False]
    unfolding trim_start_def by metis
  moreover have "\<not> is_space (last (trim s))"
    using ne hd_dropWhile [of is_space "rev (trim_start s)"]
    unfolding trim_def trim_end_def by (metis last_rev rev_is_Nil_conv)
  ultimately show ?thesis by (rule trim_idem_char [OF ne])
qed (simp add: trim_empty [THEN iffD2])

text \<open>\<open>startsWith\<close>, \<open>contains\<close>, \<open>indexOf\<close> and \<open>slice\<close> with in-range bounds.\<close>

definition starts_with :: "'a list \<Rightarrow> 'a list \<Rightarrow> bool" where
  "starts_with p s \<longleftrightarrow> take (length p) s = p"

lemma starts_with_iff: "starts_with p s \<longleftrightarrow> (\<exists>t. s = p @ t)"
proof
  assume "starts_with p s"
  then have "s = p @ drop (length p) s"
    by (metis append_take_drop_id starts_with_def)
  then show "\<exists>t. s = p @ t" by blast
qed (auto simp: starts_with_def)

fun index_from :: "nat \<Rightarrow> 'a list \<Rightarrow> 'a list \<Rightarrow> nat option" where
  "index_from i p [] = (if p = [] then Some i else None)"
| "index_from i p (c # s) = (if starts_with p (c # s) then Some i else index_from (Suc i) p s)"

definition index_of :: "'a list \<Rightarrow> 'a list \<Rightarrow> nat option" where
  "index_of s p = index_from 0 p s"

definition contains :: "'a list \<Rightarrow> 'a list \<Rightarrow> bool" where
  "contains s p \<longleftrightarrow> index_of s p \<noteq> None"

lemma index_from_Some:
  "index_from i p s = Some k \<Longrightarrow> \<exists>a b. s = a @ p @ b \<and> k = i + length a"
proof (induction i p s rule: index_from.induct)
  case (1 i p)
  then show ?case by (auto split: if_splits)
next
  case (2 i p c s)
  show ?case
  proof (cases "starts_with p (c # s)")
    case True
    then obtain t where "c # s = [] @ p @ t" by (auto simp: starts_with_iff)
    moreover from True 2(2) have "k = i + length []" by simp
    ultimately show ?thesis by blast
  next
    case False
    with 2 obtain a b where "s = a @ p @ b" "k = Suc i + length a" by auto
    then have "c # s = (c # a) @ p @ b \<and> k = i + length (c # a)" by simp
    then show ?thesis by blast
  qed
qed

lemma index_from_None: "index_from i p s = None \<longleftrightarrow> (\<nexists>a b. s = a @ p @ b)"
proof (induction i p s rule: index_from.induct)
  case (1 i p)
  then show ?case by auto
next
  case (2 i p c s)
  show ?case
  proof (cases "starts_with p (c # s)")
    case True
    then obtain t where "c # s = [] @ p @ t" by (auto simp: starts_with_iff)
    then have "\<exists>a b. c # s = a @ p @ b" by blast
    with True show ?thesis by simp
  next
    case False
    then have "(\<exists>a b. c # s = a @ p @ b) \<longleftrightarrow> (\<exists>a b. s = a @ p @ b)"
      by (auto simp: starts_with_iff) (metis append_Cons append_Nil list.sel(3) neq_Nil_conv)+
    with False 2 show ?thesis by simp
  qed
qed

lemma contains_iff: "contains s p \<longleftrightarrow> (\<exists>a b. s = a @ p @ b)"
  using index_from_None [of 0 p s] by (auto simp: contains_def index_of_def)

lemma index_of_Some: "index_of s p = Some k \<Longrightarrow> \<exists>a b. s = a @ p @ b \<and> k = length a"
  using index_from_Some [of 0 p s k] by (simp add: index_of_def)

lemma contains_char: "contains s [c] \<longleftrightarrow> c \<in> set s"
  by (auto simp: contains_iff in_set_conv_decomp)

definition slice :: "'a list \<Rightarrow> nat \<Rightarrow> nat \<Rightarrow> 'a list" where
  "slice s i j = take (j - i) (drop i s)"

lemma slice_append_mid [simp]: "slice (a @ m @ b) (length a) (length a + length m) = m"
  by (simp add: slice_def)

lemma length_slice: "j \<le> length s \<Longrightarrow> length (slice s i j) = j - i"
  by (simp add: slice_def)

lemma slice_Suc: "i < j \<Longrightarrow> j \<le> length s \<Longrightarrow> slice s i j = s ! i # slice s (Suc i) j"
  by (simp add: slice_def Cons_nth_drop_Suc [symmetric, of i s])
     (metis Suc_diff_Suc take_Suc_Cons)

lemma slice_append: "i \<le> j \<Longrightarrow> j \<le> k \<Longrightarrow> slice s i j @ slice s j k = slice s i k"
proof -
  assume ij: "i \<le> j" and jk: "j \<le> k"
  have "drop j s = drop (j - i) (drop i s)" using ij by simp
  moreover have "k - i = (j - i) + (k - j)" using ij jk by simp
  ultimately show ?thesis
    by (simp add: slice_def take_add)
qed

text \<open>\<open>split\<close> on one character and \<open>join\<close>.\<close>

fun split_on :: "'a \<Rightarrow> 'a list \<Rightarrow> 'a list list" where
  "split_on d [] = [[]]"
| "split_on d (c # s) =
     (if c = d then [] # split_on d s
      else (case split_on d s of [] \<Rightarrow> [[c]] | x # xs \<Rightarrow> (c # x) # xs))"

fun join :: "'a list \<Rightarrow> 'a list list \<Rightarrow> 'a list" where
  "join sep [] = []"
| "join sep [x] = x"
| "join sep (x # y # ys) = x @ sep @ join sep (y # ys)"

lemma split_on_not_Nil [simp]: "split_on d s \<noteq> []"
  by (cases s) (auto split: list.splits)

lemma join_Cons: "xs \<noteq> [] \<Longrightarrow> join sep (x # xs) = x @ sep @ join sep xs"
  by (cases xs) auto

lemma join_split_on [simp]: "join [d] (split_on d s) = s"
proof (induction s)
  case (Cons c s)
  obtain x xs where x: "split_on d s = x # xs" by (cases "split_on d s") auto
  with Cons have "join [d] (x # xs) = s" by simp
  then have "join [d] ((c # x) # xs) = c # s" by (cases xs) auto
  with x Cons show ?case by (auto simp: join_Cons)
qed simp

lemma split_on_no_sep: "x \<in> set (split_on d s) \<Longrightarrow> d \<notin> set x"
proof (induction s arbitrary: x)
  case (Cons c s)
  then show ?case
    by (cases "split_on d s") (auto split: if_splits)
qed simp

lemma split_on_id: "d \<notin> set s \<Longrightarrow> split_on d s = [s]"
  by (induction s) auto

lemma split_on_append:
  "split_on d (s @ d # t) = split_on d s @ split_on d t"
proof (induction s)
  case (Cons c s)
  then show ?case by (cases "split_on d s") auto
qed simp

lemma split_on_join:
  "xs \<noteq> [] \<Longrightarrow> \<forall>x \<in> set xs. d \<notin> set x \<Longrightarrow> split_on d (join [d] xs) = xs"
proof (induction "[d]" xs rule: join.induct)
  case (2 x)
  then show ?case by (simp add: split_on_id)
next
  case (3 x y ys)
  then show ?case by (simp add: split_on_append split_on_id)
qed simp

lemma join_map_append: "join [] xs = concat xs"
  by (induction "[] :: 'a list" xs rule: join.induct) auto

section \<open>Decimal numerals\<close>

fun digits_of :: "nat \<Rightarrow> string" where
  "digits_of n =
     (if n < 10 then [char_of (48 + n)] else digits_of (n div 10) @ [char_of (48 + n mod 10)])"

declare digits_of.simps [simp del]

text \<open>\<open>String(n)\<close> of an integer.\<close>

definition show_int :: "int \<Rightarrow> string" where
  "show_int n = (if n < 0 then ''-'' @ digits_of (nat (- n)) else digits_of (nat n))"

definition show_nat :: "nat \<Rightarrow> string" where
  "show_nat n = digits_of n"

fun digits_val :: "nat \<Rightarrow> string \<Rightarrow> nat" where
  "digits_val acc [] = acc"
| "digits_val acc (c # cs) = digits_val (10 * acc + (code c - 48)) cs"

lemma digits_val_append: "digits_val a (s @ t) = digits_val (digits_val a s) t"
  by (induction s arbitrary: a) auto

lemma code_digit: "n < 10 \<Longrightarrow> code (char_of (48 + n) :: char) = 48 + n"
  by simp

lemma digits_val_digits_of: "digits_val 0 (digits_of n) = n"
proof (induction n rule: digits_of.induct)
  case (1 n)
  show ?case
  proof (cases "n < 10")
    case True
    then show ?thesis by (subst digits_of.simps) simp
  next
    case False
    with 1 have "digits_val 0 (digits_of (n div 10)) = n div 10" by simp
    with False show ?thesis
      by (subst digits_of.simps) (simp add: digits_val_append)
  qed
qed

lemma digits_of_not_Nil [simp]: "digits_of n \<noteq> []"
  by (subst digits_of.simps) simp

lemma digits_of_digits: "c \<in> set (digits_of n) \<Longrightarrow> is_digit c"
proof (induction n rule: digits_of.induct)
  case (1 n)
  then show ?case
    by (cases "n < 10") (auto simp: digits_of.simps [of n] is_digit_def)
qed

lemma digits_of_inj: "digits_of m = digits_of n \<Longrightarrow> m = n"
  by (metis digits_val_digits_of)

section \<open>Objects: records keyed by strings\<close>

text \<open>
  A plain object used as a dictionary is an association list in the order in which
  \<open>Object.entries\<close> lists it: integer-like keys first, ascending, then the others in the
  order they were first set. Setting an existing key keeps its place.
\<close>

type_synonym 'v obj = "(string \<times> 'v) list"

text \<open>A canonical array index: what makes a key integer-like.\<close>

definition array_index :: "string \<Rightarrow> nat option" where
  "array_index k =
     (if k \<noteq> [] \<and> list_all is_digit k \<and> digits_of (digits_val 0 k) = k
         \<and> digits_val 0 k < 4294967295
      then Some (digits_val 0 k) else None)"

text \<open>Whether a new key \<open>k\<close> is listed before an existing key \<open>k'\<close>.\<close>

definition key_before :: "string \<Rightarrow> string \<Rightarrow> bool" where
  "key_before k k' =
     (case array_index k of None \<Rightarrow> False
      | Some i \<Rightarrow> (case array_index k' of None \<Rightarrow> True | Some j \<Rightarrow> i < j))"

fun obj_insert :: "string \<Rightarrow> 'v \<Rightarrow> 'v obj \<Rightarrow> 'v obj" where
  "obj_insert k v [] = [(k, v)]"
| "obj_insert k v ((k', v') # ob) =
     (if key_before k k' then (k, v) # (k', v') # ob else (k', v') # obj_insert k v ob)"

fun assoc_update :: "'k \<Rightarrow> 'v \<Rightarrow> ('k \<times> 'v) list \<Rightarrow> ('k \<times> 'v) list" where
  "assoc_update k v [] = []"
| "assoc_update k v ((k', v') # ob) =
     (if k' = k then (k, v) # ob else (k', v') # assoc_update k v ob)"

definition has_key :: "('k \<times> 'v) list \<Rightarrow> 'k \<Rightarrow> bool" where
  "has_key ob k \<longleftrightarrow> k \<in> fst ` set ob"

text \<open>\<open>ob[k] = v\<close>, \<open>delete ob[k]\<close>.\<close>

definition obj_set :: "string \<Rightarrow> 'v \<Rightarrow> 'v obj \<Rightarrow> 'v obj" where
  "obj_set k v ob = (if has_key ob k then assoc_update k v ob else obj_insert k v ob)"

definition obj_del :: "'k \<Rightarrow> ('k \<times> 'v) list \<Rightarrow> ('k \<times> 'v) list" where
  "obj_del k ob = filter (\<lambda>(k', v). k' \<noteq> k) ob"

definition obj_keys :: "('k \<times> 'v) list \<Rightarrow> 'k list" where
  "obj_keys ob = map fst ob"

text \<open>A \<open>Map\<close>: entries in the order their keys were first set, whatever the keys.\<close>

definition map_set :: "'k \<Rightarrow> 'v \<Rightarrow> ('k \<times> 'v) list \<Rightarrow> ('k \<times> 'v) list" where
  "map_set k v m = (if has_key m k then assoc_update k v m else m @ [(k, v)])"

definition wf_obj :: "('k \<times> 'v) list \<Rightarrow> bool" where
  "wf_obj ob \<longleftrightarrow> distinct (map fst ob)"

lemma has_key_map_of: "has_key ob k \<longleftrightarrow> map_of ob k \<noteq> None"
  by (simp add: has_key_def map_of_eq_None_iff)

lemma map_of_assoc_update:
  "has_key ob k \<Longrightarrow> map_of (assoc_update k v ob) = (map_of ob)(k \<mapsto> v)"
proof (induction k v ob rule: assoc_update.induct)
  case (2 k v k' v' ob)
  show ?case
  proof (cases "k' = k")
    case False
    with 2 have "map_of (assoc_update k v ob) = (map_of ob)(k \<mapsto> v)"
      by (auto simp: has_key_def)
    with False show ?thesis by (auto simp: fun_eq_iff)
  qed (auto simp: fun_eq_iff)
qed (simp add: has_key_def)

lemma map_of_obj_insert:
  "\<not> has_key ob k \<Longrightarrow> map_of (obj_insert k v ob) = (map_of ob)(k \<mapsto> v)"
  by (induction k v ob rule: obj_insert.induct) (auto simp: has_key_def fun_upd_twist)

lemma map_of_obj_set [simp]: "map_of (obj_set k v ob) = (map_of ob)(k \<mapsto> v)"
  by (simp add: obj_set_def map_of_assoc_update map_of_obj_insert)

lemma map_of_map_set [simp]: "map_of (map_set k v m) = (map_of m)(k \<mapsto> v)"
proof (cases "has_key m k")
  case True
  then show ?thesis by (simp add: map_set_def map_of_assoc_update)
next
  case False
  then have "map_of m k = None" by (simp add: has_key_map_of)
  with False show ?thesis
    by (auto simp: map_set_def fun_eq_iff map_add_def split: option.splits)
qed

lemma map_of_obj_del [simp]: "map_of (obj_del k ob) = (map_of ob)(k := None)"
  by (induction ob) (auto simp: obj_del_def)

lemma keys_assoc_update [simp]: "map fst (assoc_update k v ob) = map fst ob"
  by (induction k v ob rule: assoc_update.induct) auto

lemma set_keys_obj_insert [simp]: "fst ` set (obj_insert k v ob) = insert k (fst ` set ob)"
  by (induction k v ob rule: obj_insert.induct) auto

lemma distinct_obj_insert:
  "distinct (map fst ob) \<Longrightarrow> k \<notin> fst ` set ob \<Longrightarrow> distinct (map fst (obj_insert k v ob))"
proof (induction k v ob rule: obj_insert.induct)
  case (2 k v k' v' ob)
  then have "k' \<notin> fst ` set ob" and "k \<noteq> k'" by auto
  then have "k' \<notin> fst ` set (obj_insert k v ob)"
    by (subst set_keys_obj_insert) auto
  then have "k' \<notin> set (map fst (obj_insert k v ob))"
    unfolding list.set_map .
  moreover have "k \<notin> fst ` set ob" and "k' \<notin> fst ` set ob" and "k \<noteq> k'" and "distinct (map fst ob)"
    using 2(2,3) by auto
  ultimately show ?case using 2(1) by simp
qed simp

lemma set_keys_obj_set [simp]: "fst ` set (obj_set k v ob) = insert k (fst ` set ob)"
proof (cases "has_key ob k")
  case True
  then have "fst ` set (assoc_update k v ob) = fst ` set ob"
    by (metis keys_assoc_update list.set_map)
  with True show ?thesis by (auto simp: obj_set_def has_key_def)
qed (simp add: obj_set_def)

lemma set_keys_map_set [simp]: "fst ` set (map_set k v ob) = insert k (fst ` set ob)"
proof (cases "has_key ob k")
  case True
  then have "fst ` set (assoc_update k v ob) = fst ` set ob"
    by (metis keys_assoc_update list.set_map)
  with True show ?thesis by (auto simp: map_set_def has_key_def)
qed (simp add: map_set_def)

lemma wf_obj_Nil [simp]: "wf_obj []"
  by (simp add: wf_obj_def)

lemma wf_obj_set [simp, intro]: "wf_obj ob \<Longrightarrow> wf_obj (obj_set k v ob)"
  by (auto simp: wf_obj_def obj_set_def has_key_def distinct_obj_insert)

lemma wf_map_set [simp, intro]: "wf_obj m \<Longrightarrow> wf_obj (map_set k v m)"
  by (auto simp: wf_obj_def map_set_def has_key_def)

lemma wf_obj_del [simp, intro]: "wf_obj ob \<Longrightarrow> wf_obj (obj_del k ob)"
  by (induction ob) (auto simp: wf_obj_def obj_del_def)

lemma set_keys_obj_del [simp]: "fst ` set (obj_del k ob) = fst ` set ob - {k}"
  by (auto simp: obj_del_def)

text \<open>An object built by setting keys one after another.\<close>

definition obj_of :: "(string \<times> 'v) list \<Rightarrow> 'v obj" where
  "obj_of kvs = fold (\<lambda>(k, v) ob. obj_set k v ob) kvs []"

lemma wf_obj_fold: "wf_obj ob \<Longrightarrow> wf_obj (fold (\<lambda>(k, v) ob. obj_set k v ob) kvs ob)"
  by (induction kvs arbitrary: ob) auto

lemma wf_obj_of [simp]: "wf_obj (obj_of kvs)"
  by (simp add: obj_of_def wf_obj_fold)

lemma map_of_fold_obj_set:
  "map_of (fold (\<lambda>(k, v) ob. obj_set k v ob) kvs ob) = map_of ob ++ map_of (rev kvs)"
  by (induction kvs arbitrary: ob) (auto simp: fun_eq_iff map_add_def split: option.splits)

lemma map_of_obj_of: "map_of (obj_of kvs) = map_of (rev kvs)"
  by (simp add: obj_of_def map_of_fold_obj_set)

text \<open>An object whose entries stand in the order in which JavaScript lists them.\<close>

definition listed :: "'v obj \<Rightarrow> bool" where
  "listed ob \<longleftrightarrow> obj_of ob = ob"

lemma obj_insert_map:
  "obj_insert k (f v) (map (map_prod (\<lambda>x. x) f) ob) = map (map_prod (\<lambda>x. x) f) (obj_insert k v ob)"
  by (induction k v ob rule: obj_insert.induct) auto

lemma assoc_update_map:
  "assoc_update k (f v) (map (map_prod (\<lambda>x. x) f) ob) = map (map_prod (\<lambda>x. x) f) (assoc_update k v ob)"
  by (induction k v ob rule: assoc_update.induct) auto

lemma obj_set_map:
  "obj_set k (f v) (map (map_prod (\<lambda>x. x) f) ob) = map (map_prod (\<lambda>x. x) f) (obj_set k v ob)"
  by (simp add: obj_set_def obj_insert_map assoc_update_map has_key_def image_image)

lemma fold_obj_set_map:
  "fold (\<lambda>(k, v) ob. obj_set k v ob) (map (map_prod (\<lambda>x. x) f) kvs) (map (map_prod (\<lambda>x. x) f) ob) =
     map (map_prod (\<lambda>x. x) f) (fold (\<lambda>(k, v) ob. obj_set k v ob) kvs ob)"
  by (induction kvs arbitrary: ob) (auto simp: obj_set_map)

lemma obj_of_map: "obj_of (map (map_prod (\<lambda>x. x) f) kvs) = map (map_prod (\<lambda>x. x) f) (obj_of kvs)"
  using fold_obj_set_map [of f kvs "[]"] by (simp add: obj_of_def)

section \<open>Arrays\<close>

text \<open>\<open>xs[i] ?? null\<close> for a non-negative index, and \<open>findIndex\<close>.\<close>

definition nth_opt :: "'a list \<Rightarrow> nat \<Rightarrow> 'a option" where
  "nth_opt xs i = (if i < length xs then Some (xs ! i) else None)"

lemma nth_opt_Nil [simp]: "nth_opt [] i = None"
  by (simp add: nth_opt_def)

lemma nth_opt_0 [simp]: "nth_opt (x # xs) 0 = Some x"
  by (simp add: nth_opt_def)

lemma nth_opt_Suc [simp]: "nth_opt (x # xs) (Suc i) = nth_opt xs i"
  by (simp add: nth_opt_def)

fun find_index :: "('a \<Rightarrow> bool) \<Rightarrow> 'a list \<Rightarrow> nat option" where
  "find_index P [] = None"
| "find_index P (x # xs) = (if P x then Some 0 else map_option Suc (find_index P xs))"

lemma find_index_Some:
  "find_index P xs = Some i \<Longrightarrow> i < length xs \<and> P (xs ! i) \<and> (\<forall>j < i. \<not> P (xs ! j))"
proof (induction xs arbitrary: i)
  case (Cons x xs)
  show ?case
  proof (cases "P x")
    case False
    with Cons.prems obtain k where k: "find_index P xs = Some k" and i: "i = Suc k"
      by auto
    from Cons.IH [OF k] have "k < length xs" "P (xs ! k)" "\<forall>j < k. \<not> P (xs ! j)" by auto
    with False i show ?thesis by (auto simp: nth_Cons split: nat.splits)
  qed (use Cons.prems in auto)
qed simp

lemma find_index_None: "find_index P xs = None \<longleftrightarrow> (\<forall>x \<in> set xs. \<not> P x)"
  by (induction xs) auto

definition index_list :: "'a list \<Rightarrow> (nat \<times> 'a) list" where
  "index_list xs = zip [0..<length xs] xs"

lemma index_list_Nil [simp]: "index_list [] = []"
  by (simp add: index_list_def)

lemma set_index_list: "(i, x) \<in> set (index_list xs) \<longleftrightarrow> i < length xs \<and> x = xs ! i"
  by (force simp: index_list_def set_zip)

lemma map_snd_index_list [simp]: "map snd (index_list xs) = xs"
  by (simp add: index_list_def)

lemma find_Some_mem: "List.find P xs = Some x \<Longrightarrow> x \<in> set xs \<and> P x"
  by (induction xs) (auto split: if_splits)

lemma find_None_iff_all: "List.find P xs = None \<longleftrightarrow> (\<forall>x \<in> set xs. \<not> P x)"
  by (induction xs) auto

section \<open>Absent and empty values\<close>

text \<open>\<open>x ?? d\<close>, the truth of an optional string, \<open>[...new Set(xs)]\<close>.\<close>

definition default :: "'a \<Rightarrow> 'a option \<Rightarrow> 'a" where
  "default d x = (case x of None \<Rightarrow> d | Some v \<Rightarrow> v)"

definition truthy :: "string option \<Rightarrow> string option" where
  "truthy x = (if x = Some [] then None else x)"

definition uniq :: "'a list \<Rightarrow> 'a list" where
  "uniq xs = fold (\<lambda>x acc. if x \<in> set acc then acc else acc @ [x]) xs []"

lemma default_simps [simp]: "default d None = d" "default d (Some v) = v"
  by (simp_all add: default_def)

lemma fold_uniq:
  "set (fold (\<lambda>x acc. if x \<in> set acc then acc else acc @ [x]) xs ys) = set ys \<union> set xs \<and>
   (distinct ys \<longrightarrow> distinct (fold (\<lambda>x acc. if x \<in> set acc then acc else acc @ [x]) xs ys))"
  by (induction xs arbitrary: ys) auto

lemma set_uniq [simp]: "set (uniq xs) = set xs" and distinct_uniq [simp]: "distinct (uniq xs)"
  using fold_uniq [of xs "[]"] by (simp_all add: uniq_def)

section \<open>Results of calls that can fail\<close>

type_synonym ('e, 'a) result = "'e + 'a"

definition is_ok :: "('e, 'a) result \<Rightarrow> bool" where
  "is_ok r = (case r of Inl _ \<Rightarrow> False | Inr _ \<Rightarrow> True)"

lemma is_ok_simps [simp]: "is_ok (Inl e) = False" "is_ok (Inr a) = True"
  by (simp_all add: is_ok_def)


section \<open>Objects keyed by numbers\<close>

text \<open>An object whose keys are array indices lists them in ascending order.\<close>

type_synonym 'v num_obj = "(nat \<times> 'v) list"

fun num_set :: "nat \<Rightarrow> 'v \<Rightarrow> 'v num_obj \<Rightarrow> 'v num_obj" where
  "num_set k v [] = [(k, v)]"
| "num_set k v ((k', v') # ob) =
     (if k < k' then (k, v) # (k', v') # ob
      else if k = k' then (k, v) # ob
      else (k', v') # num_set k v ob)"

definition wf_num :: "'v num_obj \<Rightarrow> bool" where
  "wf_num ob \<longleftrightarrow> sorted_wrt (<) (map fst ob)"

lemma wf_num_Nil [simp]: "wf_num []"
  by (simp add: wf_num_def)

lemma set_keys_num_set [simp]: "fst ` set (num_set k v ob) = insert k (fst ` set ob)"
  by (induction k v ob rule: num_set.induct) auto

lemma wf_num_set [simp, intro]: "wf_num ob \<Longrightarrow> wf_num (num_set k v ob)"
proof (induction k v ob rule: num_set.induct)
  case (2 k v k' v' ob)
  then have IH: "k > k' \<Longrightarrow> wf_num (num_set k v ob)"
    and lt: "\<forall>x \<in> fst ` set ob. k' < x"
    by (auto simp: wf_num_def)
  show ?case
  proof (cases "k' < k")
    case True
    have "\<forall>x \<in> fst ` set (num_set k v ob). k' < x" using True lt by simp
    with True IH show ?thesis by (auto simp: wf_num_def)
  next
    case False
    with 2 lt show ?thesis by (fastforce simp: wf_num_def)
  qed
qed (simp add: wf_num_def)

lemma map_of_num_set [simp]: "map_of (num_set k v ob) = (map_of ob)(k \<mapsto> v)"
proof
  show "map_of (num_set k v ob) x = ((map_of ob)(k \<mapsto> v)) x" for x
    by (induction k v ob rule: num_set.induct) auto
qed

lemma wf_num_wf: "wf_num ob \<Longrightarrow> wf_obj ob"
  by (simp add: wf_num_def wf_obj_def strict_sorted_iff)

lemma wf_num_del [simp, intro]: "wf_num ob \<Longrightarrow> wf_num (obj_del k ob)"
  by (induction ob) (auto simp: wf_num_def obj_del_def)

lemma wf_num_map: "map fst ob' = map fst ob \<Longrightarrow> wf_num ob' = wf_num ob"
  by (simp add: wf_num_def)

lemma successively_take: "successively P xs \<Longrightarrow> successively P (take n xs)"
  by (metis append_take_drop_id successively_append_iff)

section \<open>JSON values\<close>

text \<open>What crosses the channel to the core and what is stored. Numbers are integers.\<close>

datatype json =
    JNull
  | JBool bool
  | JNum int
  | JStr string
  | JArr "json list"
  | JObj "(string \<times> json) list"

definition json_field :: "json \<Rightarrow> string \<Rightarrow> json option" where
  "json_field j k = (case j of JObj ob \<Rightarrow> map_of ob k | _ \<Rightarrow> None)"

definition json_str :: "json option \<Rightarrow> string option" where
  "json_str j = (case j of Some (JStr s) \<Rightarrow> Some s | _ \<Rightarrow> None)"

definition json_num :: "json option \<Rightarrow> int option" where
  "json_num j = (case j of Some (JNum n) \<Rightarrow> Some n | _ \<Rightarrow> None)"

definition json_true :: "json option \<Rightarrow> bool" where
  "json_true j \<longleftrightarrow> j = Some (JBool True)"

text \<open>A member that is left out when the value is undefined.\<close>

definition opt_member :: "string \<Rightarrow> ('a \<Rightarrow> json) \<Rightarrow> 'a option \<Rightarrow> (string \<times> json) list" where
  "opt_member k f x = (case x of None \<Rightarrow> [] | Some v \<Rightarrow> [(k, f v)])"

end
