(* ===== verification/JsRegex.thy ===== *)
theory JsRegex
  imports Prelude
begin

text \<open>
  JavaScript regular expressions. The sources decide most of what they decide about SQL
  text with \<open>RegExp\<close> literals, so the literals are data here (\<open>re\<close>) and one matcher
  gives them the backtracking semantics of the language standard: alternatives from left
  to right, greedy and lazy quantifiers, word boundaries, anchors, numbered groups. An
  iteration of a quantifier that has reached its minimum and consumes nothing is dropped,
  as the standard's RepeatMatcher does, which also makes the matcher terminate.

  A match state is the text before the position (reversed), the text after it, and the
  groups closed so far, newest first. \<open>m_re\<close> lists the end states in the order in which
  backtracking visits them; the first one is the match. The inductive relation \<open>mat\<close>
  says what is matched without saying in which order, and \<open>mat_iff\<close> relates the two.
\<close>

datatype re =
    Cls "char \<Rightarrow> bool"                    \<comment> \<open>one character of a class\<close>
  | Eps
  | Seq re re
  | Alt re re
  | Rep nat "nat option" bool re          \<comment> \<open>minimum, maximum, greedy\<close>
  | Grp nat re
  | Bol                                   \<comment> \<open>\<open>^\<close> without the m flag\<close>
  | Eol                                   \<comment> \<open>\<open>$\<close> without the m flag\<close>
  | WordB                                 \<comment> \<open>\<open>\b\<close>\<close>

type_synonym caps = "(nat \<times> string) list"
type_synonym mst = "string \<times> string \<times> caps"

definition hd_word :: "string \<Rightarrow> bool" where
  "hd_word s = (case s of [] \<Rightarrow> False | c # _ \<Rightarrow> is_word c)"

definition dec_opt :: "nat option \<Rightarrow> nat option" where
  "dec_opt h = map_option (\<lambda>n. n - 1) h"

definition rest_len :: "mst \<Rightarrow> nat" where
  "rest_len s = length (fst (snd s))"

text \<open>One quantifier over the matcher \<open>f\<close> of its body. The first argument bounds the
  iterations; \<open>rep_fuel_enough\<close> below shows that the minimum plus the length of the text
  left is enough.\<close>

fun rep_m :: "nat \<Rightarrow> (mst \<Rightarrow> mst list) \<Rightarrow> nat \<Rightarrow> nat option \<Rightarrow> bool \<Rightarrow> mst \<Rightarrow> mst list" where
  "rep_m 0 f lo hi g s = []"
| "rep_m (Suc n) f lo hi g s =
     (if hi = Some 0 then [s]
      else if lo > 0 then concat (map (rep_m n f (lo - 1) (dec_opt hi) g) (f s))
      else let more = concat (map (rep_m n f 0 (dec_opt hi) g)
                               (filter (\<lambda>t. rest_len t < rest_len s) (f s)))
           in if g then more @ [s] else s # more)"

primrec m_re :: "re \<Rightarrow> mst \<Rightarrow> mst list" where
  "m_re (Cls P) s =
     (case s of (b, r, cs) \<Rightarrow>
        (case r of [] \<Rightarrow> [] | c # r' \<Rightarrow> if P c then [(c # b, r', cs)] else []))"
| "m_re Eps s = [s]"
| "m_re (Seq p q) s = concat (map (m_re q) (m_re p s))"
| "m_re (Alt p q) s = m_re p s @ m_re q s"
| "m_re (Rep lo hi g p) s = rep_m (Suc (lo + rest_len s)) (m_re p) lo hi g s"
| "m_re (Grp k p) s =
     map (\<lambda>t. (fst t, fst (snd t),
              (k, take (rest_len s - rest_len t) (fst (snd s))) # snd (snd t))) (m_re p s)"
| "m_re Bol s = (if fst s = [] then [s] else [])"
| "m_re Eol s = (if fst (snd s) = [] then [s] else [])"
| "m_re WordB s = (if hd_word (fst s) \<noteq> hd_word (fst (snd s)) then [s] else [])"

section \<open>Using an expression: exec, test, replace\<close>

text \<open>The leftmost match: the text before it, its end state. \<open>exec_from b r\<close> tries every
  position of \<open>r\<close>, with \<open>b\<close> the reversed text before it.\<close>

fun exec_from :: "re \<Rightarrow> string \<Rightarrow> string \<Rightarrow> (string \<times> mst) option" where
  "exec_from p b r =
     (case m_re p (b, r, []) of
        t # _ \<Rightarrow> Some (b, t)
      | [] \<Rightarrow> (case r of [] \<Rightarrow> None | c # r' \<Rightarrow> exec_from p (c # b) r'))"

declare exec_from.simps [simp del]

definition re_test :: "re \<Rightarrow> string \<Rightarrow> bool" where
  "re_test p s \<longleftrightarrow> exec_from p [] s \<noteq> None"

text \<open>\<open>exec\<close>: where the match starts, the matched text, the text after it, the groups.\<close>

definition re_exec :: "re \<Rightarrow> string \<Rightarrow> (nat \<times> string \<times> string \<times> caps) option" where
  "re_exec p s =
     (case exec_from p [] s of None \<Rightarrow> None
      | Some (b, b', r', cs) \<Rightarrow>
          Some (length b, drop (length b) (rev b'), r', cs))"

definition re_group :: "re \<Rightarrow> string \<Rightarrow> nat \<Rightarrow> string option" where
  "re_group p s k =
     (case re_exec p s of None \<Rightarrow> None | Some (_, _, _, cs) \<Rightarrow> map_of cs k)"

text \<open>\<open>replace\<close> without the g flag, by a constant.\<close>

definition re_replace :: "re \<Rightarrow> string \<Rightarrow> string \<Rightarrow> string" where
  "re_replace p to s =
     (case exec_from p [] s of None \<Rightarrow> s
      | Some (b, _, r', _) \<Rightarrow> rev b @ to @ r')"

text \<open>\<open>replace\<close> with the g flag: after a match that consumed nothing the search moves one
  character on. \<open>b\<close> is the reversed source text before the position.\<close>

function replace_from :: "re \<Rightarrow> string \<Rightarrow> string \<Rightarrow> string \<Rightarrow> string" where
  "replace_from p to b r =
     (case m_re p (b, r, []) of
        (b', r', _) # _ \<Rightarrow>
          (if length r' < length r then to @ replace_from p to b' r'
           else (case r of [] \<Rightarrow> to | c # r1 \<Rightarrow> to @ c # replace_from p to (c # b) r1))
      | [] \<Rightarrow> (case r of [] \<Rightarrow> [] | c # r1 \<Rightarrow> c # replace_from p to (c # b) r1))"
  by pat_completeness auto
termination
  by (relation "measure (\<lambda>(p, to, b, r). length r)") auto

declare replace_from.simps [simp del]

definition re_replace_all :: "re \<Rightarrow> string \<Rightarrow> string \<Rightarrow> string" where
  "re_replace_all p to s = replace_from p to [] s"

section \<open>Building expressions\<close>

definition one :: "char \<Rightarrow> re" where
  "one c = Cls (\<lambda>x. x = c)"

definition any :: re where  \<comment> \<open>\<open>[\s\S]\<close>\<close>
  "any = Cls (\<lambda>_. True)"

definition dot :: re where
  "dot = Cls (\<lambda>c. code c \<noteq> 10 \<and> code c \<noteq> 13)"

definition spc :: re where
  "spc = Cls is_space"

fun lit :: "string \<Rightarrow> re" where
  "lit [] = Eps"
| "lit (c # s) = Seq (one c) (lit s)"

text \<open>The same with the i flag, for ASCII text.\<close>

fun liti :: "string \<Rightarrow> re" where
  "liti [] = Eps"
| "liti (c # s) = Seq (Cls (\<lambda>x. lower_char x = lower_char c)) (liti s)"

fun seqs :: "re list \<Rightarrow> re" where
  "seqs [] = Eps"
| "seqs [p] = p"
| "seqs (p # q # ps) = Seq p (seqs (q # ps))"

fun alts :: "re list \<Rightarrow> re" where
  "alts [] = Cls (\<lambda>_. False)"
| "alts [p] = p"
| "alts (p # q # ps) = Alt p (alts (q # ps))"

abbreviation star :: "re \<Rightarrow> re" where
  "star p \<equiv> Rep 0 None True p"

abbreviation lazy_star :: "re \<Rightarrow> re" where
  "lazy_star p \<equiv> Rep 0 None False p"

abbreviation plus :: "re \<Rightarrow> re" where
  "plus p \<equiv> Rep 1 None True p"

abbreviation opt :: "re \<Rightarrow> re" where
  "opt p \<equiv> Rep 0 (Some 1) True p"

definition words_alt :: "string list \<Rightarrow> re" where
  "words_alt ws = alts (map lit ws)"

definition words_alti :: "string list \<Rightarrow> re" where
  "words_alti ws = alts (map liti ws)"

section \<open>What a match consumes\<close>

text \<open>\<open>reach s t\<close>: state \<open>t\<close> is further along the same text than \<open>s\<close>.\<close>

definition reach :: "mst \<Rightarrow> mst \<Rightarrow> bool" where
  "reach s t \<longleftrightarrow> (\<exists>w. fst (snd s) = w @ fst (snd t) \<and> fst t = rev w @ fst s)"

lemma reach_refl [simp]: "reach s s"
  by (simp add: reach_def)

lemma reach_trans: "reach s t \<Longrightarrow> reach t u \<Longrightarrow> reach s u"
  by (auto simp: reach_def)

lemma reach_len: "reach s t \<Longrightarrow> rest_len t \<le> rest_len s"
  by (auto simp: reach_def rest_len_def)

section \<open>The matching relation\<close>

text \<open>\<open>mat p b w a\<close>: between \<open>b\<close> (reversed) and \<open>a\<close>, \<open>p\<close> can match \<open>w\<close>.\<close>

inductive mat :: "re \<Rightarrow> string \<Rightarrow> string \<Rightarrow> string \<Rightarrow> bool" where
  m_cls: "P c \<Longrightarrow> mat (Cls P) b [c] a"
| m_eps: "mat Eps b [] a"
| m_seq: "mat p b v (w @ a) \<Longrightarrow> mat q (rev v @ b) w a \<Longrightarrow> mat (Seq p q) b (v @ w) a"
| m_alt1: "mat p b w a \<Longrightarrow> mat (Alt p q) b w a"
| m_alt2: "mat q b w a \<Longrightarrow> mat (Alt p q) b w a"
| m_rep0: "mat (Rep 0 hi g p) b [] a"
| m_rep_max: "mat (Rep lo (Some 0) g p) b [] a"
| m_rep_min: "lo > 0 \<Longrightarrow> hi \<noteq> Some 0 \<Longrightarrow> mat p b v (w @ a) \<Longrightarrow>
     mat (Rep (lo - 1) (dec_opt hi) g p) (rev v @ b) w a \<Longrightarrow> mat (Rep lo hi g p) b (v @ w) a"
| m_rep_more: "hi \<noteq> Some 0 \<Longrightarrow> v \<noteq> [] \<Longrightarrow> mat p b v (w @ a) \<Longrightarrow>
     mat (Rep 0 (dec_opt hi) g p) (rev v @ b) w a \<Longrightarrow> mat (Rep 0 hi g p) b (v @ w) a"
| m_grp: "mat p b w a \<Longrightarrow> mat (Grp k p) b w a"
| m_bol: "mat Bol [] [] a"
| m_eol: "mat Eol b [] []"
| m_wordb: "hd_word b \<noteq> hd_word a \<Longrightarrow> mat WordB b [] a"

inductive_simps mat_simps [simp]:
  "mat (Cls P) b w a" "mat Eps b w a" "mat (Seq p q) b w a" "mat (Alt p q) b w a"
  "mat (Grp k p) b w a" "mat Bol b w a" "mat Eol b w a" "mat WordB b w a"

inductive_cases mat_RepE: "mat (Rep lo hi g p) b w a"

text \<open>What the state \<open>t\<close> reached from \<open>s\<close> has consumed.\<close>

definition consumed :: "mst \<Rightarrow> mst \<Rightarrow> string" where
  "consumed s t = take (rest_len s - rest_len t) (fst (snd s))"

lemma reach_consumed:
  "reach s t \<Longrightarrow> fst (snd s) = consumed s t @ fst (snd t) \<and> fst t = rev (consumed s t) @ fst s"
  by (auto simp: reach_def consumed_def rest_len_def)

definition sound_m :: "re \<Rightarrow> (mst \<Rightarrow> mst list) \<Rightarrow> bool" where
  "sound_m p f \<longleftrightarrow>
     (\<forall>s t. t \<in> set (f s) \<longrightarrow> reach s t \<and> mat p (fst s) (consumed s t) (fst (snd t)))"

lemma sound_mE:
  assumes "sound_m p f" and "t \<in> set (f s)"
  obtains w where "fst (snd s) = w @ fst (snd t)" and "fst t = rev w @ fst s"
    and "mat p (fst s) w (fst (snd t))"
  using assms reach_consumed [of s t] unfolding sound_m_def by metis

lemma sound_mI:
  assumes "\<And>s t. t \<in> set (f s) \<Longrightarrow>
    \<exists>w. fst (snd s) = w @ fst (snd t) \<and> fst t = rev w @ fst s \<and> mat p (fst s) w (fst (snd t))"
  shows "sound_m p f"
  unfolding sound_m_def
proof (intro allI impI)
  fix s t assume "t \<in> set (f s)"
  then obtain w where w: "fst (snd s) = w @ fst (snd t)" "fst t = rev w @ fst s"
    "mat p (fst s) w (fst (snd t))" using assms by blast
  then have "consumed s t = w" by (simp add: consumed_def rest_len_def)
  with w show "reach s t \<and> mat p (fst s) (consumed s t) (fst (snd t))"
    by (auto simp: reach_def)
qed

lemma rep_m_sound:
  assumes f: "sound_m p f"
  shows "t \<in> set (rep_m n f lo hi g s) \<Longrightarrow>
    \<exists>w. fst (snd s) = w @ fst (snd t) \<and> fst t = rev w @ fst s
      \<and> mat (Rep lo hi g p) (fst s) w (fst (snd t))"
proof (induction n arbitrary: lo hi s t)
  case (Suc n)
  consider (max) "hi = Some 0" "t = s"
    | (min) u where "hi \<noteq> Some 0" "lo > 0" "u \<in> set (f s)"
        "t \<in> set (rep_m n f (lo - 1) (dec_opt hi) g u)"
    | (more) u where "hi \<noteq> Some 0" "lo = 0" "u \<in> set (f s)" "rest_len u < rest_len s"
        "t \<in> set (rep_m n f 0 (dec_opt hi) g u)"
    | (stop) "lo = 0" "t = s"
    using Suc.prems by (auto simp: Let_def split: if_splits)
  then show ?case
  proof cases
    case max
    then show ?thesis by (auto intro: m_rep_max)
  next
    case min
    obtain v where v: "fst (snd s) = v @ fst (snd u)" "fst u = rev v @ fst s"
      "mat p (fst s) v (fst (snd u))" using sound_mE [OF f min(3)] by metis
    obtain w where w: "fst (snd u) = w @ fst (snd t)" "fst t = rev w @ fst u"
      "mat (Rep (lo - 1) (dec_opt hi) g p) (fst u) w (fst (snd t))"
      using Suc.IH [OF min(4)] by blast
    have "mat (Rep lo hi g p) (fst s) (v @ w) (fst (snd t))"
      using v w by (intro m_rep_min min(1,2)) simp_all
    with v w show ?thesis by (intro exI [of _ "v @ w"]) simp
  next
    case more
    obtain v where v: "fst (snd s) = v @ fst (snd u)" "fst u = rev v @ fst s"
      "mat p (fst s) v (fst (snd u))" using sound_mE [OF f more(3)] by metis
    obtain w where w: "fst (snd u) = w @ fst (snd t)" "fst t = rev w @ fst u"
      "mat (Rep 0 (dec_opt hi) g p) (fst u) w (fst (snd t))"
      using Suc.IH [OF more(5)] by blast
    have "v \<noteq> []" using more(4) v(1) by (auto simp: rest_len_def)
    then have "mat (Rep 0 hi g p) (fst s) (v @ w) (fst (snd t))"
      using v w by (intro m_rep_more more(1)) simp_all
    with v w more(2) show ?thesis by (intro exI [of _ "v @ w"]) simp
  next
    case stop
    then show ?thesis by (auto intro: m_rep0)
  qed
qed simp

lemma m_re_sound: "sound_m p (m_re p)"
proof (induction p)
  case (Cls P)
  show ?case
    by (rule sound_mI) (auto split: prod.splits list.splits if_splits)
next
  case (Seq p q)
  show ?case
  proof (rule sound_mI)
    fix s t assume "t \<in> set (m_re (Seq p q) s)"
    then obtain u where u: "u \<in> set (m_re p s)" and t: "t \<in> set (m_re q u)" by auto
    obtain v where v: "fst (snd s) = v @ fst (snd u)" "fst u = rev v @ fst s"
      "mat p (fst s) v (fst (snd u))" using sound_mE [OF Seq.IH(1) u] by metis
    obtain w where w: "fst (snd u) = w @ fst (snd t)" "fst t = rev w @ fst u"
      "mat q (fst u) w (fst (snd t))" using sound_mE [OF Seq.IH(2) t] by metis
    have "mat (Seq p q) (fst s) (v @ w) (fst (snd t))"
      using v w by (intro m_seq) simp_all
    with v w show "\<exists>w. fst (snd s) = w @ fst (snd t) \<and> fst t = rev w @ fst s \<and>
        mat (Seq p q) (fst s) w (fst (snd t))"
      by (intro exI [of _ "v @ w"]) simp
  qed
next
  case (Alt p q)
  then show ?case
    by (intro sound_mI) (auto elim!: sound_mE)
next
  case (Rep lo hi g p)
  show ?case
    by (rule sound_mI) (simp only: m_re.simps, rule rep_m_sound [OF Rep.IH])
next
  case (Grp k p)
  show ?case
  proof (rule sound_mI)
    fix s t assume "t \<in> set (m_re (Grp k p) s)"
    then obtain u where u: "u \<in> set (m_re p s)" "fst t = fst u" "fst (snd t) = fst (snd u)"
      by auto
    obtain w where "fst (snd s) = w @ fst (snd u)" "fst u = rev w @ fst s"
      "mat p (fst s) w (fst (snd u))" using sound_mE [OF Grp.IH u(1)] by metis
    with u show "\<exists>w. fst (snd s) = w @ fst (snd t) \<and> fst t = rev w @ fst s \<and>
        mat (Grp k p) (fst s) w (fst (snd t))" by auto
  qed
qed (auto intro!: sound_mI split: if_splits)

lemma m_re_reach: "t \<in> set (m_re p s) \<Longrightarrow> reach s t"
  using m_re_sound [of p] unfolding sound_m_def by blast

text \<open>Enough fuel: more never changes the result.\<close>

lemma rep_fuel_enough:
  assumes "\<And>s t. t \<in> set (f s) \<Longrightarrow> reach s t"
  shows "lo + rest_len s < n \<Longrightarrow> rep_m (n + k) f lo hi g s = rep_m n f lo hi g s"
proof (induction n arbitrary: lo hi s)
  case (Suc n)
  show ?case
  proof (cases "lo > 0")
    case True
    have "rep_m (n + k) f (lo - 1) (dec_opt hi) g t = rep_m n f (lo - 1) (dec_opt hi) g t"
      if "t \<in> set (f s)" for t
      using Suc.IH [of "lo - 1" t "dec_opt hi"] Suc.prems True reach_len [OF assms [OF that]] by simp
    then have "map (rep_m (n + k) f (lo - 1) (dec_opt hi) g) (f s)
        = map (rep_m n f (lo - 1) (dec_opt hi) g) (f s)" by (intro map_cong refl)
    with True show ?thesis by (simp only: add_Suc rep_m.simps if_True)
  next
    case False
    have "rep_m (n + k) f 0 (dec_opt hi) g t = rep_m n f 0 (dec_opt hi) g t"
      if "t \<in> set (filter (\<lambda>t. rest_len t < rest_len s) (f s))" for t
      using Suc.IH [of 0 t "dec_opt hi"] Suc.prems that by simp
    then have "map (rep_m (n + k) f 0 (dec_opt hi) g) (filter (\<lambda>t. rest_len t < rest_len s) (f s))
        = map (rep_m n f 0 (dec_opt hi) g) (filter (\<lambda>t. rest_len t < rest_len s) (f s))"
      by (intro map_cong refl)
    with False show ?thesis by (simp only: add_Suc rep_m.simps Let_def if_False)
  qed
qed simp

section \<open>Completeness\<close>

lemma m_re_Rep_unfold:
  "m_re (Rep lo hi g p) s =
     (if hi = Some 0 then [s]
      else if lo > 0 then concat (map (m_re (Rep (lo - 1) (dec_opt hi) g p)) (m_re p s))
      else let more = concat (map (m_re (Rep 0 (dec_opt hi) g p))
                               (filter (\<lambda>t. rest_len t < rest_len s) (m_re p s)))
           in if g then more @ [s] else s # more)"
proof -
  have fuel: "rep_m (lo' + rest_len s) (m_re p) l (dec_opt hi) g t
      = m_re (Rep l (dec_opt hi) g p) t"
    if "l + rest_len t < lo' + rest_len s" for l lo' t
  proof -
    have "Suc (l + rest_len t) \<le> lo' + rest_len s" using that by (rule Suc_leI)
    then obtain k where k: "lo' + rest_len s = Suc (l + rest_len t) + k"
      unfolding le_iff_add by blast
    show ?thesis
      unfolding k m_re.simps(5) by (rule rep_fuel_enough) (auto intro: m_re_reach)
  qed
  have step: "m_re (Rep lo hi g p) s =
     (if hi = Some 0 then [s]
      else if lo > 0 then concat (map (rep_m (lo + rest_len s) (m_re p) (lo - 1) (dec_opt hi) g) (m_re p s))
      else let more = concat (map (rep_m (lo + rest_len s) (m_re p) 0 (dec_opt hi) g)
                               (filter (\<lambda>t. rest_len t < rest_len s) (m_re p s)))
           in if g then more @ [s] else s # more)"
    by (subst m_re.simps(5), subst rep_m.simps(2)) (rule refl)
  have min: "map (rep_m (lo + rest_len s) (m_re p) (lo - 1) (dec_opt hi) g) (m_re p s)
      = map (m_re (Rep (lo - 1) (dec_opt hi) g p)) (m_re p s)" if "lo > 0"
  proof (intro map_cong refl fuel)
    fix t assume "t \<in> set (m_re p s)"
    then have "rest_len t \<le> rest_len s" by (intro reach_len m_re_reach)
    with that show "lo - 1 + rest_len t < lo + rest_len s" by linarith
  qed
  have more: "map (rep_m (lo + rest_len s) (m_re p) 0 (dec_opt hi) g)
        (filter (\<lambda>t. rest_len t < rest_len s) (m_re p s))
      = map (m_re (Rep 0 (dec_opt hi) g p)) (filter (\<lambda>t. rest_len t < rest_len s) (m_re p s))"
    by (intro map_cong refl fuel) auto
  show ?thesis
    unfolding step more using min by (cases "lo > 0") (simp_all only: if_True if_False)
qed

lemma m_re_complete:
  "mat p b w a \<Longrightarrow> \<exists>cs'. (rev w @ b, a, cs') \<in> set (m_re p (b, w @ a, cs))"
proof (induction arbitrary: cs rule: mat.induct)
  case (m_seq p b v w a q)
  obtain c1 where c1: "(rev v @ b, w @ a, c1) \<in> set (m_re p (b, v @ w @ a, cs))"
    using m_seq.IH(1) by blast
  obtain c2 where "(rev w @ rev v @ b, a, c2) \<in> set (m_re q (rev v @ b, w @ a, c1))"
    using m_seq.IH(2) by blast
  with c1 show ?case by force
next
  case (m_alt1 p b w a q)
  then show ?case by simp metis
next
  case (m_alt2 q b w a p)
  then show ?case by simp metis
next
  case (m_rep0 hi g p b a)
  have "(b, a, cs) \<in> set (m_re (Rep 0 hi g p) (b, a, cs))"
    by (subst m_re_Rep_unfold) (simp add: Let_def del: m_re.simps(5))
  then show ?case by auto
next
  case (m_rep_max lo g p b a)
  show ?case by (subst m_re_Rep_unfold) (simp del: m_re.simps(5))
next
  case (m_rep_min lo hi p b v w a g)
  obtain c1 where c1: "(rev v @ b, w @ a, c1) \<in> set (m_re p (b, v @ w @ a, cs))"
    using m_rep_min.IH(1) by blast
  obtain c2 where "(rev w @ rev v @ b, a, c2)
      \<in> set (m_re (Rep (lo - 1) (dec_opt hi) g p) (rev v @ b, w @ a, c1))"
    using m_rep_min.IH(2) by blast
  with c1 m_rep_min.hyps(1,2) show ?case
    by (subst m_re_Rep_unfold) (force simp del: m_re.simps(5))
next
  case (m_rep_more hi v p b w a g)
  obtain c1 where c1: "(rev v @ b, w @ a, c1) \<in> set (m_re p (b, v @ w @ a, cs))"
    using m_rep_more.IH(1) by blast
  obtain c2 where "(rev w @ rev v @ b, a, c2)
      \<in> set (m_re (Rep 0 (dec_opt hi) g p) (rev v @ b, w @ a, c1))"
    using m_rep_more.IH(2) by blast
  moreover have "rest_len (rev v @ b, w @ a, c1) < rest_len (b, v @ w @ a, cs)"
    using m_rep_more.hyps(2) by (simp add: rest_len_def)
  ultimately show ?case using c1 m_rep_more.hyps(1)
    by (subst m_re_Rep_unfold) (force simp: Let_def simp del: m_re.simps(5))
next
  case (m_grp p b w a k)
  then obtain c1 where "(rev w @ b, a, c1) \<in> set (m_re p (b, w @ a, cs))" by blast
  then show ?case by force
qed auto

text \<open>The matcher finds an end state exactly where the relation allows one.\<close>

theorem mat_iff:
  "mat p b w a \<longleftrightarrow> (\<exists>cs'. (rev w @ b, a, cs') \<in> set (m_re p (b, w @ a, cs)))"
proof
  assume "\<exists>cs'. (rev w @ b, a, cs') \<in> set (m_re p (b, w @ a, cs))"
  then obtain cs' where "(rev w @ b, a, cs') \<in> set (m_re p (b, w @ a, cs))" ..
  with m_re_sound [of p] show "mat p b w a"
    by (fastforce elim: sound_mE)
qed (rule m_re_complete)

lemma exec_from_iff:
  "exec_from p b r \<noteq> None \<longleftrightarrow> (\<exists>u w a. r = u @ w @ a \<and> mat p (rev u @ b) w a)"
proof (induction p b r rule: exec_from.induct)
  case (1 p b r)
  have here: "m_re p (b, r, []) \<noteq> [] \<longleftrightarrow> (\<exists>w a. r = w @ a \<and> mat p b w a)"
  proof
    assume "m_re p (b, r, []) \<noteq> []"
    then obtain t where "t \<in> set (m_re p (b, r, []))" by (cases "m_re p (b, r, [])") auto
    then show "\<exists>w a. r = w @ a \<and> mat p b w a"
      using sound_mE [OF m_re_sound, of t p "(b, r, [])"] by (metis fst_conv snd_conv)
  next
    assume "\<exists>w a. r = w @ a \<and> mat p b w a"
    then obtain w a where "r = w @ a" "mat p b w a" by blast
    with m_re_complete [of p b w a "[]"] show "m_re p (b, r, []) \<noteq> []" by auto
  qed
  show ?case
  proof (cases "m_re p (b, r, [])")
    case (Cons t ts)
    with here obtain w a where "r = [] @ w @ a" "mat p (rev [] @ b) w a" by auto
    then have "\<exists>u w a. r = u @ w @ a \<and> mat p (rev u @ b) w a" by blast
    with Cons show ?thesis by (subst exec_from.simps) simp
  next
    case Nil
    show ?thesis
    proof (cases r)
      case r: Nil
      with Nil here show ?thesis by (subst exec_from.simps) simp
    next
      case (Cons c r')
      have "exec_from p b r \<noteq> None \<longleftrightarrow> exec_from p (c # b) r' \<noteq> None"
        using Nil Cons by (subst exec_from.simps) simp
      also have "\<dots> \<longleftrightarrow> (\<exists>u w a. r' = u @ w @ a \<and> mat p (rev u @ c # b) w a)"
        using 1 [OF Nil Cons] .
      also have "\<dots> \<longleftrightarrow> (\<exists>u w a. r = u @ w @ a \<and> mat p (rev u @ b) w a)"
        (is "?L = ?R")
      proof
        assume ?L
        then obtain u w a where "r' = u @ w @ a" "mat p (rev u @ c # b) w a" by blast
        then have "r = (c # u) @ w @ a \<and> mat p (rev (c # u) @ b) w a" using Cons by simp
        then show ?R by blast
      next
        assume ?R
        then obtain u w a where u: "r = u @ w @ a" "mat p (rev u @ b) w a" by blast
        then show ?L using Nil here Cons by (cases u) auto
      qed
      finally show ?thesis .
    qed
  qed
qed

lemma re_test_iff: "re_test p s \<longleftrightarrow> (\<exists>u w a. s = u @ w @ a \<and> mat p (rev u) w a)"
  using exec_from_iff [of p "[]" s] by (simp add: re_test_def)

text \<open>Facts about literals and about expressions anchored at the start.\<close>

lemma mat_Seq_Cls:
  "mat (Seq (Cls P) p) b w a \<longleftrightarrow> (\<exists>c v. w = c # v \<and> P c \<and> mat p (c # b) v a)"
proof
  assume "\<exists>c v. w = c # v \<and> P c \<and> mat p (c # b) v a"
  then obtain c v where c: "w = [c] @ v" "P c" "mat p (rev [c] @ b) v a" by auto
  from c(2) have "mat (Cls P) b [c] (v @ a)" by (rule m_cls)
  from m_seq [OF this c(3)] c(1) show "mat (Seq (Cls P) p) b w a" by simp
qed auto

lemma mat_one [simp]: "mat (one c) b w a \<longleftrightarrow> w = [c]"
  by (auto simp: one_def)

lemma mat_lit [simp]: "mat (lit s) b w a \<longleftrightarrow> w = s"
proof (induction s arbitrary: b w)
  case (Cons c s)
  then show ?case by (auto simp: one_def mat_Seq_Cls simp del: mat_simps)
qed simp

lemma mat_liti [simp]: "mat (liti s) b w a \<longleftrightarrow> to_lower w = to_lower s"
proof (induction s arbitrary: b w)
  case (Cons c s)
  then show ?case
    by (cases w) (simp_all only: liti.simps mat_Seq_Cls to_lower_def list.map list.inject, auto)
qed (auto simp: to_lower_def)

lemma mat_alts: "mat (alts ps) b w a \<longleftrightarrow> (\<exists>p \<in> set ps. mat p b w a)"
  by (induction ps rule: alts.induct) auto

lemma mat_words_alt [simp]: "mat (words_alt ws) b w a \<longleftrightarrow> w \<in> set ws"
  by (auto simp: words_alt_def mat_alts)

lemma mat_words_alti [simp]:
  "mat (words_alti ws) b w a \<longleftrightarrow> (\<exists>x \<in> set ws. to_lower w = to_lower x)"
  by (auto simp: words_alti_def mat_alts)

lemma mat_seqs_Cons [simp]:
  "mat (seqs (p # q # ps)) b w a = mat (Seq p (seqs (q # ps))) b w a"
  by simp

lemma re_test_Bol:
  "re_test (Seq Bol p) s \<longleftrightarrow> (\<exists>w a. s = w @ a \<and> mat p [] w a)"
  by (auto simp: re_test_iff)

lemma re_test_exact:
  "re_test (Seq Bol (Seq p Eol)) s \<longleftrightarrow> mat p [] s []"
  by (auto simp: re_test_Bol)

text \<open>A matched optional part, and a run of one class.\<close>

lemma mat_opt: "mat (opt p) b w a \<longleftrightarrow> w = [] \<or> (w \<noteq> [] \<and> mat p b w a)"
proof
  assume "mat (opt p) b w a"
  then show "w = [] \<or> (w \<noteq> [] \<and> mat p b w a)"
    by (rule mat_RepE)
       (auto simp: dec_opt_def, erule mat_RepE, auto simp: dec_opt_def)
next
  assume "w = [] \<or> (w \<noteq> [] \<and> mat p b w a)"
  then show "mat (opt p) b w a"
  proof
    assume w: "w \<noteq> [] \<and> mat p b w a"
    then have "mat (Rep 0 (Some 1) True p) b (w @ []) a"
      by (intro m_rep_more) (auto simp: dec_opt_def intro: m_rep_max)
    then show ?thesis by simp
  qed (auto intro: m_rep0)
qed

lemma mat_star_cls: "mat (star (Cls P)) b w a \<longleftrightarrow> list_all P w"
proof
  assume "mat (star (Cls P)) b w a"
  then show "list_all P w"
    by (induction "star (Cls P)" b w a rule: mat.induct) (auto simp: dec_opt_def)
next
  show "list_all P w \<Longrightarrow> mat (star (Cls P)) b w a"
  proof (induction w arbitrary: b)
    case Nil
    show ?case by (rule m_rep0)
  next
    case (Cons c w)
    then have "mat (star (Cls P)) b ([c] @ w) a"
      by (intro m_rep_more) (auto simp: dec_opt_def)
    then show ?case by simp
  qed
qed

lemma mat_plus_cls: "mat (plus (Cls P)) b w a \<longleftrightarrow> w \<noteq> [] \<and> list_all P w"
proof
  assume "mat (plus (Cls P)) b w a"
  then show "w \<noteq> [] \<and> list_all P w"
    by (rule mat_RepE) (auto simp: dec_opt_def mat_star_cls)
next
  assume w: "w \<noteq> [] \<and> list_all P w"
  then obtain c v where "w = [c] @ v" by (cases w) auto
  with w show "mat (plus (Cls P)) b w a"
    by (auto simp: dec_opt_def mat_star_cls intro!: m_rep_min [of 1 None _ _ "[c]", simplified])
qed

end
