(* ===== verification/SafeMode.thy ===== *)
theory SafeMode
  imports JsRegex
begin

text \<open>
  Safe mode (\<open>frontend/src/utils/safeMode.ts\<close>): the fail-closed classifier that decides
  whether a statement may reach a protected connection. The lemmas show that blanking
  keeps positions, that the contents of quoted text cannot change a verdict, that a
  script is as dangerous as its most dangerous statement, and what a verdict of reading
  rests on.
\<close>

section \<open>Data\<close>

datatype safe_mode = ReadOnly | Confirm

datatype stmt_class = Empty | Read | Write

record safe_mode_guard =
  g_mode :: safe_mode
  g_engine :: string
  g_name :: string

definition guard_for :: "safe_mode option \<Rightarrow> string \<Rightarrow> string \<Rightarrow> safe_mode_guard option" where
  "guard_for sm driver name =
     (case sm of None \<Rightarrow> None
      | Some m \<Rightarrow> Some \<lparr>g_mode = m, g_engine = driver, g_name = name\<rparr>)"

definition parse_safe_mode :: "string option \<Rightarrow> safe_mode option" where
  "parse_safe_mode v =
     (if v = Some ''readOnly'' then Some ReadOnly
      else if v = Some ''confirm'' then Some Confirm else None)"

definition READ_LEADERS :: "string list" where
  "READ_LEADERS = [''SHOW'', ''DESCRIBE'', ''DESC'', ''VALUES'', ''TABLE'', ''USE'']"

definition WRITE_TOKENS :: "string list" where
  "WRITE_TOKENS = [
     ''INSERT'', ''UPDATE'', ''DELETE'', ''MERGE'', ''CREATE'', ''DROP'', ''ALTER'', ''TRUNCATE'',
     ''REPLACE'', ''GRANT'', ''REVOKE'', ''CALL'', ''EXEC'', ''EXECUTE'', ''SET'', ''LOCK'', ''UNLOCK'',
     ''RENAME'', ''COMMENT'', ''ATTACH'', ''DETACH'', ''VACUUM'', ''REINDEX'', ''COPY'', ''LOAD'',
     ''PRAGMA'', ''UPSERT'', ''IMPORT'', ''INTO'']"

section \<open>Blanking comments and quoted contents\<close>

text \<open>Where the scan of \<open>normalize_sql\<close> stands: in code, or in one of its inner loops.\<close>

datatype scan = Code | Line | Block | Quote char

definition quote_char :: "char \<Rightarrow> bool" where
  "quote_char c \<longleftrightarrow> c = CHR 0x27 \<or> c = CHR 0x22 \<or> c = CHR 0x60"

text \<open>One turn of the loops: the text to emit, the next scan, the text left.\<close>

fun norm_step :: "bool \<Rightarrow> scan \<Rightarrow> char \<Rightarrow> string \<Rightarrow> string \<times> scan \<times> string" where
  "norm_step bs Code c s =
     (if c = CHR ''-'' \<and> starts_with ''-'' s then ('' '', Line, s)
      else if c = CHR ''/'' \<and> starts_with ''*'' s then (''  '', Block, tl s)
      else if quote_char c then ([c], Quote c, s)
      else ([c], Code, s))"
| "norm_step bs Line c s = (if c = CHR 0x0A then ([c], Code, s) else ('' '', Line, s))"
| "norm_step bs Block c s =
     (if c = CHR ''*'' \<and> starts_with ''/'' s then (''  '', Code, tl s) else ('' '', Block, s))"
| "norm_step bs (Quote q) c s =
     (if bs \<and> c = CHR 0x5C \<and> s \<noteq> [] then (''  '', Quote q, tl s)
      else if c = q then
        (if starts_with [q] s then (''  '', Quote q, tl s) else ([c], Code, s))
      else ('' '', Quote q, s))"

lemma norm_step_left: "norm_step bs m c s = (out, m', s') \<Longrightarrow> s' = s \<or> (s \<noteq> [] \<and> s' = tl s)"
  by (cases m) (auto split: if_splits simp: starts_with_def)

function norm_scan :: "bool \<Rightarrow> scan \<Rightarrow> string \<Rightarrow> string" where
  "norm_scan bs m [] = []"
| "norm_scan bs m (c # s) =
     (case norm_step bs m c s of (out, m', s') \<Rightarrow> out @ norm_scan bs m' s')"
  by pat_completeness auto
termination
  by (relation "measure (\<lambda>(bs, m, s). length s)")
     (auto dest!: norm_step_left [OF sym])

definition normalize_sql :: "string \<Rightarrow> bool \<Rightarrow> string" where
  "normalize_sql sql bs = norm_scan bs Code sql"

section \<open>The classifier\<close>

text \<open>The maximal runs of a class: \<open>match\<close> of \<open>[\<dots>]+\<close> with the g flag.\<close>

function runs :: "('a \<Rightarrow> bool) \<Rightarrow> 'a list \<Rightarrow> 'a list list" where
  "runs P [] = []"
| "runs P (c # s) =
     (if P c then (c # takeWhile P s) # runs P (dropWhile P s) else runs P s)"
  by pat_completeness auto
termination
  by (relation "measure (\<lambda>(P, s). length s)") (auto simp: le_imp_less_Suc length_dropWhile_le)

definition caps_word :: "char \<Rightarrow> bool" where
  "caps_word c \<longleftrightarrow> is_upper_az c \<or> c = CHR ''_''"

definition name_char :: "char \<Rightarrow> bool" where
  "name_char c \<longleftrightarrow> is_alpha c \<or> c = CHR ''_''"

definition words :: "string \<Rightarrow> string list" where
  "words s = runs caps_word (to_upper s)"

definition classify_statement :: "string \<Rightarrow> stmt_class" where
  "classify_statement s =
     (let body = dropWhile (\<lambda>c. is_space c \<or> c = CHR ''('') s in
      if body = [] then Empty
      else let lead = to_upper (takeWhile name_char body) in
      if lead = [] then Write
      else if lead = ''WITH'' \<or> lead = ''EXPLAIN'' then
        (if \<exists>w \<in> set (words body). w \<in> set WRITE_TOKENS then Write else Read)
      else if lead = ''SELECT'' then (if ''INTO'' \<in> set (words body) then Write else Read)
      else if lead \<in> set READ_LEADERS then Read else Write)"

fun combine_parts :: "stmt_class \<Rightarrow> stmt_class list \<Rightarrow> stmt_class" where
  "combine_parts overall [] = overall"
| "combine_parts overall (c # cs) =
     (if c = Write then Write else combine_parts (if c = Read then Read else overall) cs)"

definition classify_normalized :: "string \<Rightarrow> stmt_class" where
  "classify_normalized norm =
     combine_parts Empty (map classify_statement (split_on (CHR '';'') norm))"

text \<open>The mongosh surface.\<close>

definition MONGO_CALL :: re where  \<comment> \<open>\<open>/^db\.(.+?)\.([A-Za-z]+)\s*\(/\<close>\<close>
  "MONGO_CALL = seqs [Bol, lit ''db.'', Grp 1 (Rep 1 None False dot), one (CHR ''.''),
     Grp 2 (plus (Cls is_alpha)), star spc, one (CHR ''('')]"

definition MONGO_METHOD :: re where  \<comment> \<open>\<open>/([A-Za-z]+)\s*$/\<close>\<close>
  "MONGO_METHOD = seqs [Grp 1 (plus (Cls is_alpha)), star spc, Eol]"

definition MONGO_OUT :: re where  \<comment> \<open>\<open>/\$(out|merge)\b/\<close>\<close>
  "MONGO_OUT = seqs [one (CHR ''$''), Grp 1 (words_alt [''out'', ''merge'']), WordB]"

definition mongo_method :: "string \<Rightarrow> string option" where
  "mongo_method part =
     re_group MONGO_METHOD
       (case index_of part ''('' of None \<Rightarrow> take (length part - 1) part | Some i \<Rightarrow> take i part) 1"

text \<open>\<open>None\<close>: a part that may write; else whether the part reads.\<close>

definition classify_mongo_part :: "string \<Rightarrow> stmt_class" where
  "classify_mongo_part raw =
     (let part = trim raw in
      if part = [] then Empty
      else if \<not> re_test MONGO_CALL part then Write
      else let method = mongo_method part in
      if method = Some ''find'' then Read
      else if method = Some ''aggregate'' \<and> \<not> re_test MONGO_OUT part then Read
      else Write)"

definition classify_mongo :: "string \<Rightarrow> stmt_class" where
  "classify_mongo text =
     combine_parts Empty (map classify_mongo_part (split_on (CHR '';'') text))"

definition classify_sql :: "string \<Rightarrow> string option \<Rightarrow> stmt_class" where
  "classify_sql sql engine =
     (if sql = [] then Empty
      else if to_lower (case engine of None \<Rightarrow> [] | Some e \<Rightarrow> e) = ''mongodb'' then classify_mongo sql
      else combine_parts Empty
        [classify_normalized (normalize_sql sql False), classify_normalized (normalize_sql sql True)])"

definition write_statements :: "string list \<Rightarrow> string option \<Rightarrow> string list" where
  "write_statements stmts engine = filter (\<lambda>s. classify_sql s engine = Write) stmts"

definition TRAILING_SEMIS :: re where  \<comment> \<open>\<open>/;+\s*$/\<close>\<close>
  "TRAILING_SEMIS = seqs [plus (one (CHR '';'')), star spc, Eol]"

text \<open>\<open>dots\<close> is the character U+2026, outside the model's code units.\<close>

definition confirm_listing :: "string \<Rightarrow> string list \<Rightarrow> nat \<Rightarrow> string" where
  "confirm_listing dots writes mx =
     join [CHR 0x0A, CHR 0x0A]
       (map (\<lambda>w. re_replace TRAILING_SEMIS [] (trim w) @ '';'') (take mx writes)
        @ (if length writes > mx then [dots @ '' (+'' @ show_nat (length writes - mx) @ '')''] else []))"

section \<open>The verdicts as a chain\<close>

instantiation stmt_class :: linorder
begin
fun class_rank :: "stmt_class \<Rightarrow> nat" where
  "class_rank Empty = 0"
| "class_rank Read = 1"
| "class_rank Write = 2"
definition less_eq_stmt_class :: "stmt_class \<Rightarrow> stmt_class \<Rightarrow> bool" where
  "less_eq_stmt_class a b \<longleftrightarrow> class_rank a \<le> class_rank b"
definition less_stmt_class :: "stmt_class \<Rightarrow> stmt_class \<Rightarrow> bool" where
  "less_stmt_class a b \<longleftrightarrow> class_rank a < class_rank b"
instance
proof
  fix a b :: stmt_class
  show "a \<le> b \<Longrightarrow> b \<le> a \<Longrightarrow> a = b"
    by (cases a; cases b) (simp_all add: less_eq_stmt_class_def)
qed (auto simp: less_eq_stmt_class_def less_stmt_class_def)
end

lemma class_max_simps [simp]:
  "max Empty (c :: stmt_class) = c" "max c Empty = c" "max Write c = Write" "max c Write = Write"
  "max c c = c"
  by (cases c; simp add: max_def less_eq_stmt_class_def)+

lemma max_Write_iff: "max a b = Write \<longleftrightarrow> a = Write \<or> b = Write"
  by (cases a; cases b) (simp_all add: max_def less_eq_stmt_class_def)

lemma max_Empty_iff: "max a b = Empty \<longleftrightarrow> a = Empty \<and> b = Empty"
  by (cases a; cases b) (simp_all add: max_def less_eq_stmt_class_def)

lemma fold_max_top [simp]: "fold max cs Write = Write"
  by (induction cs) simp_all

lemma combine_parts_eq: "a \<noteq> Write \<Longrightarrow> combine_parts a cs = fold max cs a"
proof (induction cs arbitrary: a)
  case (Cons c cs)
  then show ?case
    by (cases c; cases a) simp_all
qed simp

lemma combine_parts_max: "combine_parts Empty cs = fold max cs Empty"
  by (simp add: combine_parts_eq)

lemma fold_max_append: "fold max (cs @ ds) (a :: stmt_class) = max (fold max cs a) (fold max ds Empty)"
proof -
  have shift: "fold max xs (b :: stmt_class) = max b (fold max xs Empty)" for xs b
    by (induction xs arbitrary: b)
       (simp, metis (no_types, lifting) class_max_simps(2) fold_simps(2) max.assoc max.commute)
  show ?thesis by (simp add: shift [of ds "fold max cs a"])
qed

lemma fold_max_Write: "fold max cs a = Write \<longleftrightarrow> a = Write \<or> Write \<in> set cs"
  by (induction cs arbitrary: a) (auto simp: max_Write_iff)

lemma fold_max_Empty: "fold max cs a = Empty \<longleftrightarrow> a = Empty \<and> set cs \<subseteq> {Empty}"
  by (induction cs arbitrary: a) (auto simp: max_Empty_iff)

lemma combine_parts_Write: "combine_parts Empty cs = Write \<longleftrightarrow> Write \<in> set cs"
  by (simp add: combine_parts_max fold_max_Write)

lemma combine_two: "combine_parts Empty [c, d] = max c d"
  by (cases c; cases d) simp_all

lemma combine_parts_append:
  "combine_parts Empty (cs @ ds) = max (combine_parts Empty cs) (combine_parts Empty ds)"
  by (simp add: combine_parts_max fold_max_append del: fold_append)

section \<open>The scan, position by position\<close>

text \<open>Where the scan stands after the whole text.\<close>

function scan_end :: "bool \<Rightarrow> scan \<Rightarrow> string \<Rightarrow> scan" where
  "scan_end bs m [] = m"
| "scan_end bs m (c # s) = (case norm_step bs m c s of (out, m', s') \<Rightarrow> scan_end bs m' s')"
  by pat_completeness auto
termination
  by (relation "measure (\<lambda>(bs, m, s). length s)")
     (auto dest!: norm_step_left [OF sym])

text \<open>Text after which the scan is back in code under both escape conventions.\<close>

definition closed_text :: "string \<Rightarrow> bool" where
  "closed_text s \<longleftrightarrow> scan_end False Code s = Code \<and> scan_end True Code s = Code"

lemma norm_step_append:
  "s \<noteq> [] \<Longrightarrow> norm_step bs m c s = (out, m', s') \<Longrightarrow> norm_step bs m c (s @ t) = (out, m', s' @ t)"
  by (cases m; cases s) (auto simp: starts_with_def split: if_splits)

text \<open>A next character that does not join the last one of closed text into a comment
  opener or a doubled quote.\<close>

definition joins_not :: "string \<Rightarrow> string \<Rightarrow> bool" where
  "joins_not a b \<longleftrightarrow> b \<noteq> [] \<and> hd b \<noteq> CHR ''-'' \<and> hd b \<noteq> CHR ''*'' \<and> (a \<noteq> [] \<longrightarrow> last a \<noteq> hd b \<or> \<not> quote_char (hd b))"

definition wf_scan :: "scan \<Rightarrow> bool" where
  "wf_scan m \<longleftrightarrow> (case m of Quote q \<Rightarrow> quote_char q | _ \<Rightarrow> True)"

lemma wf_scan_Code [simp]: "wf_scan Code"
  by (simp add: wf_scan_def)

lemma norm_step_wf: "norm_step bs m c s = (out, m', s') \<Longrightarrow> wf_scan m \<Longrightarrow> wf_scan m'"
  by (cases m) (auto simp: wf_scan_def split: if_splits)

lemma norm_step_last:
  assumes st: "norm_step bs m c [] = (out, m', s')" and m': "m' = Code"
    and b: "joins_not [c] b" and wf: "wf_scan m"
  shows "norm_step bs m c b = (out, Code, b)"
proof -
  obtain d t where d: "b = d # t" "d \<noteq> CHR ''-''" "d \<noteq> CHR ''*''" "c \<noteq> d \<or> \<not> quote_char d"
    using b by (cases b) (auto simp: joins_not_def)
  show ?thesis
  proof (cases m)
    case (Quote q)
    with wf have "quote_char q" by (simp add: wf_scan_def)
    then have "q \<noteq> CHR 0x5C" by (auto simp: quote_char_def)
    then show ?thesis
      using st m' d Quote \<open>quote_char q\<close> by (auto simp: starts_with_def split: if_splits)
  qed (use st m' d in \<open>auto simp: starts_with_def split: if_splits\<close>)
qed

lemma norm_step_nil: "norm_step bs m c [] = (out, m', s') \<Longrightarrow> s' = []"
  by (cases m) (auto split: if_splits)

lemma norm_scan_append:
  "scan_end bs m a = Code \<Longrightarrow> wf_scan m \<Longrightarrow> joins_not a b \<Longrightarrow>
     norm_scan bs m (a @ b) = norm_scan bs m a @ norm_scan bs Code b
     \<and> scan_end bs m (a @ b) = scan_end bs Code b"
proof (induction bs m a rule: scan_end.induct)
  case (2 bs m c s)
  obtain out m' s' where st: "norm_step bs m c s = (out, m', s')" by (cases "norm_step bs m c s")
  show ?case
  proof (cases "s = []")
    case True
    have "s' = []" using norm_step_nil st True by blast
    with 2 st have m': "m' = Code" by simp
    have "joins_not [c] b" using 2(4) True by simp
    from norm_step_last [OF _ m' this 2(3)] st True have "norm_step bs m c b = (out, Code, b)" by simp
    with st True \<open>s' = []\<close> show ?thesis by simp
  next
    case False
    have ap: "norm_step bs m c (s @ b) = (out, m', s' @ b)"
      using norm_step_append [OF False st] .
    show ?thesis
    proof (cases "s' = []")
      case True
      then have s: "s = [last s]" and "s' = tl s"
        using norm_step_left [OF st] False by (cases s; auto)+
      have "m' = Code" using 2(2) st True by simp
      with ap st True show ?thesis by simp
    next
      case s': False
      then have "last s' = last s" using norm_step_left [OF st] by (auto simp: last_tl)
      then have "joins_not s' b" using 2(4) False s' by (auto simp: joins_not_def)
      moreover have "scan_end bs m' s' = Code" using 2(2) st by simp
      moreover have "wf_scan m'" using norm_step_wf [OF st 2(3)] .
      ultimately show ?thesis using 2(1) [OF st [symmetric] refl] ap st by simp
    qed
  qed
qed simp

lemma joins_not_semi [simp]: "joins_not a (CHR '';'' # b)"
  by (simp add: joins_not_def quote_char_def)

lemma normalize_semi:
  assumes "scan_end bs Code a = Code"
  shows "normalize_sql (a @ CHR '';'' # b) bs = normalize_sql a bs @ CHR '';'' # normalize_sql b bs"
  using norm_scan_append [OF assms wf_scan_Code joins_not_semi]
  by (simp add: normalize_sql_def quote_char_def)

lemma closed_text_semi:
  "closed_text a \<Longrightarrow> closed_text (a @ CHR '';'' # b) = closed_text b"
  using norm_scan_append [OF _ wf_scan_Code joins_not_semi, of False a b]
    norm_scan_append [OF _ wf_scan_Code joins_not_semi, of True a b]
  by (auto simp: closed_text_def quote_char_def)

lemma classify_normalized_semi:
  "classify_normalized (x @ CHR '';'' # y) = max (classify_normalized x) (classify_normalized y)"
  by (simp add: classify_normalized_def split_on_append combine_parts_append)

lemma classify_sql_sql:
  "sql \<noteq> [] \<Longrightarrow> engine = None \<Longrightarrow>
     classify_sql sql engine = max (classify_normalized (normalize_sql sql False)) (classify_normalized (normalize_sql sql True))"
  by (simp add: classify_sql_def combine_two del: combine_parts.simps)

lemma classify_normalized_Nil [simp]: "classify_normalized [] = Empty"
  by (simp add: classify_normalized_def classify_statement_def)

lemma normalize_Nil [simp]: "normalize_sql [] bs = []"
  by (simp add: normalize_sql_def)

lemma classify_sql_None:
  "classify_sql sql None = max (classify_normalized (normalize_sql sql False)) (classify_normalized (normalize_sql sql True))"
  by (cases "sql = []") (simp_all add: classify_sql_sql, simp add: classify_sql_def)

lemma classify_sql_semi:
  assumes "closed_text a"
  shows "classify_sql (a @ CHR '';'' # b) None = max (classify_sql a None) (classify_sql b None)"
  using assms
  by (simp add: classify_sql_None closed_text_def normalize_semi classify_normalized_semi
      max.assoc max.left_commute)

section \<open>Blanking keeps positions and hides quoted contents\<close>

lemma norm_step_length:
  "norm_step bs m c s = (out, m', s') \<Longrightarrow> length out + length s' = Suc (length s)"
  by (cases m; cases s) (auto simp: starts_with_def split: if_splits)

lemma length_norm_scan: "length (norm_scan bs m s) = length s"
proof (induction bs m s rule: norm_scan.induct)
  case (2 bs m c s)
  then show ?case
    by (cases "norm_step bs m c s") (auto dest: norm_step_length)
qed simp

lemma length_normalize: "length (normalize_sql sql bs) = length sql"
  by (simp add: normalize_sql_def length_norm_scan)

lemma norm_scan_quote_body:
  "\<forall>c \<in> set w. c \<noteq> q \<and> c \<noteq> CHR 0x5C \<Longrightarrow>
     norm_scan bs (Quote q) (w @ r) = replicate (length w) (CHR '' '') @ norm_scan bs (Quote q) r"
  by (induction w) auto

lemma norm_scan_quote_close:
  "r = [] \<or> hd r \<noteq> q \<Longrightarrow> q \<noteq> CHR 0x5C \<Longrightarrow>
     norm_scan bs (Quote q) (q # r) = q # norm_scan bs Code r"
  by (cases r) (auto simp: starts_with_def)

lemma normalize_quoted:
  assumes q: "quote_char q" and a: "scan_end bs Code a = Code" "a = [] \<or> last a \<noteq> q"
    and w: "\<forall>c \<in> set w. c \<noteq> q \<and> c \<noteq> CHR 0x5C" and r: "r = [] \<or> hd r \<noteq> q"
  shows "normalize_sql (a @ q # w @ q # r) bs =
     normalize_sql a bs @ q # replicate (length w) (CHR '' '') @ q # norm_scan bs Code r"
proof -
  have q': "q \<noteq> CHR ''-''" "q \<noteq> CHR ''*''" "q \<noteq> CHR ''/''" "q \<noteq> CHR 0x5C"
    using q by (auto simp: quote_char_def)
  then have "joins_not a (q # w @ q # r)"
    using a(2) by (auto simp: joins_not_def)
  from norm_scan_append [OF a(1) wf_scan_Code this]
  have "norm_scan bs Code (a @ q # w @ q # r)
      = norm_scan bs Code a @ norm_scan bs Code (q # w @ q # r)" by simp
  moreover have "norm_scan bs Code (q # w @ q # r) = q # norm_scan bs (Quote q) (w @ q # r)"
    using q q' by simp
  ultimately show ?thesis
    unfolding normalize_sql_def
    by (simp only: norm_scan_quote_body [OF w] norm_scan_quote_close [OF r q'(4)] append_Cons append_Nil)
qed

section \<open>Which statements are never let through\<close>

text \<open>What may stand before the first word of a statement: blanks, opening brackets and comments.\<close>

inductive lead_noise :: "string \<Rightarrow> bool" where
  noise_none: "lead_noise []"
| noise_char: "is_space c \<or> c = CHR ''('' \<Longrightarrow> lead_noise p \<Longrightarrow> lead_noise (c # p)"
| noise_line: "CHR 0x0A \<notin> set b \<Longrightarrow> lead_noise p \<Longrightarrow> lead_noise (''--'' @ b @ CHR 0x0A # p)"
| noise_block: "\<not> contains b ''*/'' \<Longrightarrow> lead_noise p \<Longrightarrow> lead_noise (''/*'' @ b @ ''*/'' @ p)"

text \<open>The words a reading statement may begin with, and the words that write wherever they stand in
  code. \<open>code_word ws r\<close>: behind text that ends outside quotes and comments, and before the next
  semicolon, \<open>r\<close> has one of the words \<open>ws\<close>, in any letter case.\<close>

definition reading_words :: "string list" where
  "reading_words = [''SELECT'', ''WITH'', ''EXPLAIN'', ''SHOW'', ''DESCRIBE'', ''DESC'', ''VALUES'', ''TABLE'', ''USE'']"

definition writing_words :: "string list" where
  "writing_words = [''INSERT'', ''UPDATE'', ''DELETE'', ''MERGE'', ''UPSERT'', ''REPLACE'', ''INTO'', ''CREATE'', ''DROP'',
     ''ALTER'', ''TRUNCATE'', ''RENAME'', ''COMMENT'', ''GRANT'', ''REVOKE'', ''CALL'', ''EXEC'', ''EXECUTE'', ''SET'', ''LOCK'',
     ''UNLOCK'', ''ATTACH'', ''DETACH'', ''VACUUM'', ''REINDEX'', ''PRAGMA'', ''COPY'', ''LOAD'', ''IMPORT'']"

definition word_gap :: "char \<Rightarrow> bool" where
  "word_gap c \<longleftrightarrow> \<not> name_char c \<and> code c < 128"

definition code_word :: "string list \<Rightarrow> string \<Rightarrow> bool" where
  "code_word ws r \<longleftrightarrow> (\<exists>u t v. r = u @ t @ v \<and> list_all is_alpha t \<and> to_upper t \<in> set ws \<and>
     u \<noteq> [] \<and> word_gap (last u) \<and> (v = [] \<or> word_gap (hd v)) \<and>
     (\<exists>bs. scan_end bs Code u = Code) \<and> CHR '';'' \<notin> set u)"

lemma name_char_plain:
  assumes "name_char c"
  shows "\<not> is_space c" and "c \<notin> {CHR ''('', CHR '';'', CHR ''-'', CHR ''*'', CHR ''/''}" and "\<not> quote_char c"
  using assms by (auto simp: name_char_def quote_char_def char_class_defs)

lemma norm_line: "CHR 0x0A \<notin> set b \<Longrightarrow> norm_scan bs Line (b @ CHR 0x0A # r) = replicate (length b) (CHR '' '') @ CHR 0x0A # norm_scan bs Code r"
  by (induction b) auto

lemma norm_block: "\<not> contains b ''*/'' \<Longrightarrow>
    norm_scan bs Block (b @ ''*/'' @ r) = replicate (length b + 2) (CHR '' '') @ norm_scan bs Code r"
proof (induction b)
  case (Cons c b)
  have "\<not> contains b ''*/''" using Cons.prems by (auto simp: contains_iff) (metis append_Cons)
  moreover have "\<not> (c = CHR ''*'' \<and> starts_with ''/'' (b @ ''*/'' @ r))"
  proof
    assume a: "c = CHR ''*'' \<and> starts_with ''/'' (b @ ''*/'' @ r)"
    then obtain b' where "b = CHR ''/'' # b'" by (cases b) (auto simp: starts_with_def)
    with a have "c # b = [] @ ''*/'' @ b'" by simp
    with Cons.prems show False unfolding contains_iff by blast
  qed
  ultimately show ?case using Cons.IH by auto
qed (simp add: starts_with_def)

lemma noise_blank:
  assumes "lead_noise p"
  obtains p' where "\<And>r. norm_scan bs Code (p @ r) = p' @ norm_scan bs Code r" and "list_all (\<lambda>c. is_space c \<or> c = CHR ''('') p'"
  using assms
proof (induction p arbitrary: thesis rule: lead_noise.induct)
  case noise_none
  show ?case by (rule noise_none [of "[]"]) simp_all
next
  case (noise_char c p)
  obtain p' where p': "\<And>r. norm_scan bs Code (p @ r) = p' @ norm_scan bs Code r" "list_all (\<lambda>c. is_space c \<or> c = CHR ''('') p'"
    using noise_char.IH by blast
  have "\<not> quote_char c" "c \<noteq> CHR ''-''" "c \<noteq> CHR ''/''"
    using noise_char.hyps by (auto simp: quote_char_def char_class_defs)
  then show ?case using p' noise_char.hyps(1) by (intro noise_char.prems [of "c # p'"]) simp_all
next
  case (noise_line b p)
  obtain p' where p': "\<And>r. norm_scan bs Code (p @ r) = p' @ norm_scan bs Code r" "list_all (\<lambda>c. is_space c \<or> c = CHR ''('') p'"
    using noise_line.IH by blast
  have "is_space (CHR '' '')" "is_space (CHR 0x0A)" by (simp_all add: is_space_def)
  then show ?case using p' norm_line [OF noise_line.hyps(1)]
    by (intro noise_line.prems [of "''  '' @ replicate (length b) (CHR '' '') @ CHR 0x0A # p'"])
       (auto simp: starts_with_def list_all_iff)
next
  case (noise_block b p)
  obtain p' where p': "\<And>r. norm_scan bs Code (p @ r) = p' @ norm_scan bs Code r" "list_all (\<lambda>c. is_space c \<or> c = CHR ''('') p'"
    using noise_block.IH by blast
  have "is_space (CHR '' '')" by (simp add: is_space_def)
  then show ?case using p' norm_block [OF noise_block.hyps(1)]
    by (intro noise_block.prems [of "''  '' @ replicate (length b + 2) (CHR '' '') @ p'"])
       (auto simp: starts_with_def list_all_iff)
qed

lemma norm_name: "list_all name_char w \<Longrightarrow> norm_scan bs Code (w @ r) = w @ norm_scan bs Code r"
  by (induction w) (auto dest: name_char_plain)

lemma norm_pointwise: "list_all2 (\<lambda>x y. y = x \<or> y = CHR '' '') s (norm_scan bs m s)"
proof (induction bs m s rule: norm_scan.induct)
  case (2 bs m c s)
  obtain out m' s' where st: "norm_step bs m c s = (out, m', s')" by (cases "norm_step bs m c s")
  from 2 [OF st [symmetric] refl] have IH: "list_all2 (\<lambda>x y. y = x \<or> y = CHR '' '') s' (norm_scan bs m' s')" .
  have "(s' = s \<and> (out = [c] \<or> out = '' '')) \<or> (s \<noteq> [] \<and> s' = tl s \<and> out = ''  '')"
    using st by (cases m; cases s) (auto simp: starts_with_def split: if_splits)
  with IH st show ?case by (cases s) auto
qed simp

lemma norm_hd:
  assumes "r = [] \<or> \<not> name_char (hd r)"
  shows "norm_scan bs m r = [] \<or> \<not> name_char (hd (norm_scan bs m r))"
  using norm_pointwise [of r bs m] assms
  by (cases r; cases "norm_scan bs m r") (auto simp: name_char_def char_class_defs)

lemma first_part_write:
  assumes "CHR '';'' \<notin> set x" and "classify_statement x = Write" and "y = [] \<or> hd y = CHR '';''"
  shows "classify_normalized (x @ y) = Write"
proof -
  have x: "classify_normalized x = Write" using assms(1,2) by (simp add: classify_normalized_def split_on_id)
  show ?thesis
  proof (cases y)
    case (Cons c z)
    with assms(3) x show ?thesis by (simp add: classify_normalized_semi)
  qed (simp add: x)
qed

text \<open>The first part of a statement that begins with the word \<open>w\<close>.\<close>

lemma lead_write:
  assumes p: "list_all (\<lambda>c. is_space c \<or> c = CHR ''('') p" and w: "w \<noteq> []" "list_all name_char w"
    and r: "r = [] \<or> \<not> name_char (hd r)"
    and wr: "to_upper w \<notin> set (''SELECT'' # ''WITH'' # ''EXPLAIN'' # READ_LEADERS) \<or>
      (to_upper w \<in> {''WITH'', ''EXPLAIN''} \<and> (\<exists>x \<in> set (words (w @ takeWhile (\<lambda>c. c \<noteq> CHR '';'') r)). x \<in> set WRITE_TOKENS)) \<or>
      (to_upper w = ''SELECT'' \<and> ''INTO'' \<in> set (words (w @ takeWhile (\<lambda>c. c \<noteq> CHR '';'') r)))"
  shows "classify_normalized (p @ w @ r) = Write"
proof -
  define r1 where "r1 = takeWhile (\<lambda>c. c \<noteq> CHR '';'') r"
  define r2 where "r2 = dropWhile (\<lambda>c. c \<noteq> CHR '';'') r"
  have rr: "r = r1 @ r2" by (simp add: r1_def r2_def)
  have semi: "CHR '';'' \<notin> set (p @ w @ r1)"
    using p w(2) by (auto simp: r1_def list_all_iff name_char_def char_class_defs dest: set_takeWhileD)
  have r2: "r2 = [] \<or> hd r2 = CHR '';''"
    using hd_dropWhile [of "\<lambda>c. c \<noteq> CHR '';''" r] by (auto simp: r2_def)
  have r1: "r1 = [] \<or> \<not> name_char (hd r1)" using r by (cases r) (auto simp: r1_def)
  obtain c u where c: "w = c # u" "name_char c" using w by (cases w) auto
  have body: "dropWhile (\<lambda>c. is_space c \<or> c = CHR ''('') (p @ w @ r1) = w @ r1"
    using p c name_char_plain [OF c(2)] by (simp add: dropWhile_append list_all_iff)
  have tk: "takeWhile name_char (w @ r1) = w"
    using w(2) r1 by (cases r1) (simp_all add: takeWhile_append list_all_iff)
  have lead: "to_upper w \<noteq> []" using c by (simp add: to_upper_def upper_char_def)
  have "classify_statement (p @ w @ r1) = Write"
    using wr lead w(1) unfolding classify_statement_def body tk Let_def r1_def [symmetric]
    by (auto simp: READ_LEADERS_def)
  from first_part_write [OF semi this r2] show ?thesis by (simp add: rr)
qed

lemma runs_word:
  assumes t: "t \<noteq> []" "list_all P t" and b: "b = [] \<or> \<not> P (hd b)"
  shows "a = [] \<or> \<not> P (last a) \<Longrightarrow> t \<in> set (runs P (a @ t @ b))"
proof (induction "length a" arbitrary: a rule: less_induct)
  case less
  show ?case
  proof (cases a)
    case Nil
    obtain c u where u: "t = c # u" using t(1) by (cases t) auto
    have "takeWhile P (u @ b) = u" using t(2) b u by (cases b) (auto simp: takeWhile_append2 list_all_iff)
    with t(2) u Nil show ?thesis by simp
  next
    case (Cons c s)
    show ?thesis
    proof (cases "P c")
      case True
      with less(2) Cons have s: "s \<noteq> []" "\<not> P (last s)" by (auto split: if_splits)
      then have e: "\<exists>x \<in> set s. \<not> P x" using last_in_set by blast
      then have d: "dropWhile P (s @ t @ b) = dropWhile P s @ t @ b" by (auto simp: dropWhile_append)
      have "dropWhile P s \<noteq> []" using e by (simp add: dropWhile_eq_Nil_conv)
      then have "last (dropWhile P s) = last s" by (metis last_appendR takeWhile_dropWhile_id)
      moreover have "length (dropWhile P s) < length a" using Cons by (simp add: le_imp_less_Suc length_dropWhile_le)
      ultimately have "t \<in> set (runs P (dropWhile P s @ t @ b))" using less(1) s(2) by simp
      with True d Cons show ?thesis by simp
    next
      case False
      have "s = [] \<or> \<not> P (last s)" using less(2) Cons by (auto split: if_splits)
      with less(1) [of s] False Cons show ?thesis by simp
    qed
  qed
qed

lemma to_upper_append: "to_upper (a @ b) = to_upper a @ to_upper b"
  by (simp add: to_upper_def)

lemma gap_upper: "word_gap c \<Longrightarrow> upper_char c = [c] \<and> \<not> caps_word c"
  by (auto simp: word_gap_def upper_char_def name_char_def caps_word_def is_alpha_def)

lemma gap_blank: "word_gap (CHR '' '')"
  by (simp add: word_gap_def name_char_def char_class_defs)

lemma gap_words:
  assumes "list_all is_alpha t" and "t \<noteq> []" and "u \<noteq> []" "word_gap (last u)" and "v = [] \<or> word_gap (hd v)"
  shows "to_upper t \<in> set (words (u @ t @ v))"
  unfolding words_def to_upper_append
proof (rule runs_word)
  show "to_upper t \<noteq> []" using assms(1,2) by (cases t) (auto simp: to_upper_def upper_char_def is_alpha_def is_lower_az_def)
  have "list_all caps_word (upper_char c)" if "is_alpha c" for c
    using that by (auto simp: upper_char_def caps_word_def is_alpha_def is_lower_az_def is_upper_az_def)
  then show "list_all caps_word (to_upper t)" using assms(1) by (auto simp: to_upper_def list_all_iff)
  show "to_upper v = [] \<or> \<not> caps_word (hd (to_upper v))"
    using assms(5) gap_upper by (cases v) (auto simp: to_upper_def)
  have "to_upper u = to_upper (butlast u) @ [last u]"
    using gap_upper [OF assms(4)] assms(3) by (metis append_butlast_last_id append_Nil2 concat.simps list.simps(8,9) to_upper_append to_upper_def)
  then show "to_upper u = [] \<or> \<not> caps_word (last (to_upper u))" using gap_upper [OF assms(4)] by simp
qed

text \<open>A word of the code is a word of the first part, under the reading of backslashes for which it
  is code.\<close>

lemma code_word_seen:
  assumes "code_word ws r" and ne: "\<And>x. x \<in> set ws \<Longrightarrow> x \<noteq> []"
  shows "\<exists>bs. \<exists>x \<in> set (words (w @ takeWhile (\<lambda>c. c \<noteq> CHR '';'') (norm_scan bs Code r))). x \<in> set ws"
proof -
  obtain u t v bs where c: "r = u @ t @ v" "list_all is_alpha t" "to_upper t \<in> set ws" "u \<noteq> []" "word_gap (last u)"
    "v = [] \<or> word_gap (hd v)" "scan_end bs Code u = Code" "CHR '';'' \<notin> set u"
    using assms(1) unfolding code_word_def by blast
  have t: "t \<noteq> []" "list_all name_char t" using c(2) ne [OF c(3)] by (auto simp: to_upper_def name_char_def list_all_iff)
  have "joins_not u (t @ v)"
    using t name_char_plain [of "hd t"] by (cases t) (auto simp: joins_not_def)
  from norm_scan_append [OF c(7) wf_scan_Code this]
  have n: "norm_scan bs Code r = norm_scan bs Code u @ t @ norm_scan bs Code v"
    by (simp add: c(1) norm_name [OF t(2)])
  let ?u = "norm_scan bs Code u" and ?v = "takeWhile (\<lambda>c. c \<noteq> CHR '';'') (norm_scan bs Code v)"
  have pu: "list_all2 (\<lambda>x y. y = x \<or> y = CHR '' '') u ?u" by (rule norm_pointwise)
  have un: "?u \<noteq> []" "length ?u = length u" using pu c(4) by (auto simp: list_all2_iff)
  then have "last ?u = last u \<or> last ?u = CHR '' ''"
    using pu c(4) by (simp add: last_conv_nth list_all2_conv_all_nth)
  then have lu: "word_gap (last ?u)" using c(5) gap_blank by auto
  have su: "CHR '';'' \<notin> set ?u"
    using pu c(8) by (fastforce simp: list_all2_conv_all_nth in_set_conv_nth)
  have st: "CHR '';'' \<notin> set t" using t(2) name_char_plain(2) by (force simp: list_all_iff)
  have pv: "list_all2 (\<lambda>x y. y = x \<or> y = CHR '' '') v (norm_scan bs Code v)" by (rule norm_pointwise)
  have lv: "?v = [] \<or> word_gap (hd ?v)"
    using pv c(6) gap_blank by (cases v; cases "norm_scan bs Code v") auto
  have "takeWhile (\<lambda>c. c \<noteq> CHR '';'') (norm_scan bs Code r) = ?u @ t @ ?v"
    unfolding n using su st by (auto simp: takeWhile_append)
  moreover have "to_upper t \<in> set (words ((w @ ?u) @ t @ ?v))"
    using c(2) t(1) un(1) lu lv by (intro gap_words) simp_all
  ultimately show ?thesis using c(3) by (intro exI [of _ bs]) force
qed

lemma never_let_through:
  assumes "lead_noise p" and "w \<noteq> []" and "list_all name_char w" and "r = [] \<or> \<not> name_char (hd r)"
    and wr: "to_upper w \<notin> set reading_words \<or>
      (to_upper w \<in> {''WITH'', ''EXPLAIN''} \<and> code_word writing_words r) \<or>
      (to_upper w = ''SELECT'' \<and> code_word [''INTO''] r)"
  shows "classify_sql (p @ w @ r) None = Write"
proof -
  have rw: "set (''SELECT'' # ''WITH'' # ''EXPLAIN'' # READ_LEADERS) = set reading_words"
    "set WRITE_TOKENS = set writing_words"
    by (auto simp: reading_words_def READ_LEADERS_def WRITE_TOKENS_def writing_words_def)
  have ne: "x \<noteq> []" if "x \<in> set writing_words" for x using that by (auto simp: writing_words_def)
  have ex: "\<exists>bs. to_upper w \<notin> set (''SELECT'' # ''WITH'' # ''EXPLAIN'' # READ_LEADERS) \<or>
      (to_upper w \<in> {''WITH'', ''EXPLAIN''} \<and>
        (\<exists>x \<in> set (words (w @ takeWhile (\<lambda>c. c \<noteq> CHR '';'') (norm_scan bs Code r))). x \<in> set WRITE_TOKENS)) \<or>
      (to_upper w = ''SELECT'' \<and> ''INTO'' \<in> set (words (w @ takeWhile (\<lambda>c. c \<noteq> CHR '';'') (norm_scan bs Code r))))"
    using wr
  proof (elim disjE conjE)
    assume "to_upper w \<in> {''WITH'', ''EXPLAIN''}" "code_word writing_words r"
    with code_word_seen [OF this(2) ne, of w] show ?thesis unfolding rw by blast
  next
    assume "to_upper w = ''SELECT''" "code_word [''INTO''] r"
    with code_word_seen [OF this(2), of w] show ?thesis by auto
  next
    assume "to_upper w \<notin> set reading_words"
    then show ?thesis unfolding rw by blast
  qed
  then obtain bs where bs: "to_upper w \<notin> set (''SELECT'' # ''WITH'' # ''EXPLAIN'' # READ_LEADERS) \<or>
      (to_upper w \<in> {''WITH'', ''EXPLAIN''} \<and>
        (\<exists>x \<in> set (words (w @ takeWhile (\<lambda>c. c \<noteq> CHR '';'') (norm_scan bs Code r))). x \<in> set WRITE_TOKENS)) \<or>
      (to_upper w = ''SELECT'' \<and> ''INTO'' \<in> set (words (w @ takeWhile (\<lambda>c. c \<noteq> CHR '';'') (norm_scan bs Code r))))"
    by blast
  obtain p' where p': "\<And>x. norm_scan bs Code (p @ x) = p' @ norm_scan bs Code x"
    "list_all (\<lambda>c. is_space c \<or> c = CHR ''('') p'"
    using noise_blank [OF assms(1), of bs] by blast
  have "normalize_sql (p @ w @ r) bs = p' @ w @ norm_scan bs Code r"
    by (simp add: normalize_sql_def p'(1) norm_name [OF assms(3)])
  then have "classify_normalized (normalize_sql (p @ w @ r) bs) = Write"
    using lead_write [OF p'(2) assms(2,3) norm_hd [OF assms(4)] bs] by simp
  then show ?thesis by (cases bs) (simp_all add: classify_sql_None)
qed

section \<open>Properties\<close>

text \<open>C9. Cutting a script at a semicolon that is outside quotes and comments, its verdict
  is the worse of the two parts' verdicts: a write cannot hide behind a read, and joining
  reads is a read.\<close>

theorem classify_script:
  assumes "closed_text a"
  shows "classify_sql (a @ CHR '';'' # b) None = max (classify_sql a None) (classify_sql b None)"
  using assms by (rule classify_sql_semi)

theorem classify_script_witness:
  "classify_sql (''select 1'' @ CHR '';'' # ''delete from t'') None
     = max (classify_sql ''select 1'' None) (classify_sql ''delete from t'' None)"
  by (rule classify_script [of "''select 1''" "''delete from t''"]) code_simp



text \<open>The contents of a quoted piece of a statement do not change its verdict: two texts of
  the same length between the same quotes are classified alike.\<close>

theorem quoted_contents_hidden:
  assumes "quote_char q" and "\<forall>bs. scan_end bs Code a = Code" and "a = [] \<or> last a \<noteq> q"
    and "\<forall>c \<in> set v. c \<noteq> q \<and> c \<noteq> CHR 0x5C" and "\<forall>c \<in> set w. c \<noteq> q \<and> c \<noteq> CHR 0x5C"
    and "length v = length w" and "r = [] \<or> hd r \<noteq> q"
  shows "classify_sql (a @ q # v @ q # r) None = classify_sql (a @ q # w @ q # r) None"
  using assms by (simp add: classify_sql_None normalize_quoted)

theorem quoted_contents_hidden_witness:
  "classify_sql (''select '' @ CHR 0x27 # ''; drop'' @ CHR 0x27 # []) None
     = classify_sql (''select '' @ CHR 0x27 # ''abcdef'' @ CHR 0x27 # []) None"
proof (rule quoted_contents_hidden)
  show "quote_char (CHR 0x27)" by (simp add: quote_char_def)
  show "\<forall>bs. scan_end bs Code ''select '' = Code" unfolding all_bool_eq by code_simp
qed simp_all

end
