(* ===== verification/CoreStmtClass.thy ===== *)
theory CoreStmtClass
  imports SafeMode
begin

text \<open>
  The core's own classifier, \<open>core/src/query/stmt_class.c\<close>: a NUL-terminated byte string,
  scanned with \<open>isspace\<close>, \<open>isalpha\<close> and \<open>toupper\<close> of the C locale. A C string is
  the list of its bytes before the NUL; reading the byte at the end reads the NUL, which
  is what \<open>peek\<close> does.
\<close>

definition peek :: "string \<Rightarrow> char" where
  "peek s = (case s of [] \<Rightarrow> CHR 0x00 | c # _ \<Rightarrow> c)"

definition c_isspace :: "char \<Rightarrow> bool" where
  "c_isspace c \<longleftrightarrow> (9 \<le> code c \<and> code c \<le> 13) \<or> code c = 32"

definition c_toupper :: "char \<Rightarrow> char" where
  "c_toupper c = (if is_lower_az c then char_of (code c - 32) else c)"

definition c_tokchar :: "char \<Rightarrow> bool" where
  "c_tokchar c \<longleftrightarrow> is_alpha c \<or> c = CHR ''_''"

definition word_is :: "string \<Rightarrow> string \<Rightarrow> bool" where
  "word_is tok word \<longleftrightarrow> length tok = length word \<and> map c_toupper tok = map c_toupper word"

text \<open>\<open>normalize\<close>: the loops of the C code, one turn at a time.\<close>

fun c_norm_step :: "bool \<Rightarrow> scan \<Rightarrow> char \<Rightarrow> string \<Rightarrow> string \<times> scan \<times> string" where
  "c_norm_step bs Code c s =
     (if c = CHR ''-'' \<and> peek s = CHR ''-'' then ('' '', Line, s)
      else if c = CHR ''/'' \<and> peek s = CHR ''*'' then (''  '', Block, tl s)
      else if c = CHR 0x27 \<or> c = CHR 0x22 \<or> c = CHR 0x60 then ([c], Quote c, s)
      else ([c], Code, s))"
| "c_norm_step bs Line c s = (if c = CHR 0x0A then ([c], Code, s) else ('' '', Line, s))"
| "c_norm_step bs Block c s =
     (if c = CHR ''*'' \<and> peek s = CHR ''/'' then (''  '', Code, tl s) else ('' '', Block, s))"
| "c_norm_step bs (Quote q) c s =
     (if bs \<and> c = CHR 0x5C \<and> peek s \<noteq> CHR 0x00 then (''  '', Quote q, tl s)
      else if c = q then
        (if peek s = q then (''  '', Quote q, tl s) else ([q], Code, s))
      else ('' '', Quote q, s))"

lemma c_norm_step_left:
  "c_norm_step bs m c s = (out, m', s') \<Longrightarrow> s' = s \<or> s' = tl s"
  by (cases m) (auto split: if_splits)

function c_norm :: "bool \<Rightarrow> scan \<Rightarrow> string \<Rightarrow> string" where
  "c_norm bs m [] = []"
| "c_norm bs m (c # s) =
     (case c_norm_step bs m c s of (out, m', s') \<Rightarrow> out @ c_norm bs m' s')"
  by pat_completeness auto
termination
  by (relation "measure (\<lambda>(bs, m, s). length s)")
     (auto dest!: c_norm_step_left [OF sym] simp: le_imp_less_Suc)

definition c_normalize :: "string \<Rightarrow> bool \<Rightarrow> string" where
  "c_normalize sql bs = c_norm bs Code sql"

function c_has_word :: "string \<Rightarrow> string list \<Rightarrow> bool" where
  "c_has_word [] ws = False"
| "c_has_word (c # s) ws =
     (if c_tokchar c then
        (if \<exists>w \<in> set ws. word_is (c # takeWhile c_tokchar s) w then True
         else c_has_word (dropWhile c_tokchar s) ws)
      else c_has_word s ws)"
  by pat_completeness auto
termination
  by (relation "measure (\<lambda>(s, ws). length s)") (auto simp: le_imp_less_Suc length_dropWhile_le)

text \<open>The two arrays of \<open>stmt_class.c\<close>.\<close>

definition C_READ_LEADERS :: "string list" where
  "C_READ_LEADERS = [''SHOW'', ''DESCRIBE'', ''DESC'', ''VALUES'', ''TABLE'', ''USE'']"

definition C_WRITE_TOKENS :: "string list" where
  "C_WRITE_TOKENS = [
     ''INSERT'', ''UPDATE'', ''DELETE'', ''MERGE'', ''CREATE'', ''DROP'',
     ''ALTER'', ''TRUNCATE'', ''REPLACE'', ''GRANT'', ''REVOKE'', ''CALL'',
     ''EXEC'', ''EXECUTE'', ''SET'', ''LOCK'', ''UNLOCK'', ''RENAME'',
     ''COMMENT'', ''ATTACH'', ''DETACH'', ''VACUUM'', ''REINDEX'', ''COPY'',
     ''LOAD'', ''PRAGMA'', ''UPSERT'', ''IMPORT'', ''INTO'']"

lemma c_lists: "C_READ_LEADERS = READ_LEADERS" "C_WRITE_TOKENS = WRITE_TOKENS"
  by (simp_all add: C_READ_LEADERS_def READ_LEADERS_def C_WRITE_TOKENS_def WRITE_TOKENS_def)

definition c_classify_statement :: "string \<Rightarrow> stmt_class" where
  "c_classify_statement s =
     (let r = dropWhile (\<lambda>c. c_isspace c \<or> c = CHR ''('') s in
      if r = [] then Empty
      else let tok = takeWhile c_tokchar r in
      if tok = [] then Write
      else if word_is tok ''WITH'' \<or> word_is tok ''EXPLAIN'' then
        (if c_has_word s C_WRITE_TOKENS then Write else Read)
      else if word_is tok ''SELECT'' then (if c_has_word s [''INTO''] then Write else Read)
      else if \<exists>w \<in> set C_READ_LEADERS. word_is tok w then Read else Write)"

text \<open>The splitting loop of \<open>classify_normalized\<close>: \<open>cur\<close> is the piece scanned so far,
  reversed.\<close>

fun c_classify_loop :: "stmt_class \<Rightarrow> string \<Rightarrow> string \<Rightarrow> stmt_class" where
  "c_classify_loop overall cur [] =
     (case c_classify_statement (rev cur) of Write \<Rightarrow> Write | Read \<Rightarrow> Read | Empty \<Rightarrow> overall)"
| "c_classify_loop overall cur (c # s) =
     (if c = CHR '';'' then
        (case c_classify_statement (rev cur) of
           Write \<Rightarrow> Write
         | Read \<Rightarrow> c_classify_loop Read [] s
         | Empty \<Rightarrow> c_classify_loop overall [] s)
      else c_classify_loop overall (c # cur) s)"

definition c_classify_normalized :: "string \<Rightarrow> stmt_class" where
  "c_classify_normalized norm = c_classify_loop Empty [] norm"

text \<open>\<open>stmt_classify\<close>: \<open>None\<close> is a NULL pointer. Running out of memory is not modelled.\<close>

definition stmt_classify :: "string option \<Rightarrow> stmt_class" where
  "stmt_classify sql =
     (case sql of None \<Rightarrow> Empty
      | Some s \<Rightarrow>
        (if s = [] then Empty
         else let c0 = c_classify_normalized (c_normalize s False) in
           if c0 = Write then Write
           else let c1 = c_classify_normalized (c_normalize s True) in
             if c1 = Write then Write else if c1 = Read then Read else c0))"

section \<open>The two classifiers agree\<close>

text \<open>Bytes 1..127: what both languages read as the same characters.\<close>

definition ascii_text :: "string \<Rightarrow> bool" where
  "ascii_text s \<longleftrightarrow> (\<forall>c \<in> set s. 0 < code c \<and> code c < 128)"

lemma ascii_text_simps [simp]:
  "ascii_text []" "ascii_text (c # s) \<longleftrightarrow> 0 < code c \<and> code c < 128 \<and> ascii_text s"
  "ascii_text (s @ t) \<longleftrightarrow> ascii_text s \<and> ascii_text t"
  by (auto simp: ascii_text_def)

lemma peek_starts_with: "ascii_text s \<Longrightarrow> q \<noteq> CHR 0x00 \<Longrightarrow> peek s = q \<longleftrightarrow> starts_with [q] s"
  by (cases s) (auto simp: peek_def starts_with_def)

lemma peek_NUL: "ascii_text s \<Longrightarrow> peek s = CHR 0x00 \<longleftrightarrow> s = []"
  by (cases s) (auto simp: peek_def)

lemma c_norm_step_eq:
  assumes "ascii_text s" and "wf_scan m"
  shows "c_norm_step bs m c s = norm_step bs m c s"
proof (cases m)
  case (Quote q)
  then have "q \<noteq> CHR 0x00" using assms(2) by (auto simp: wf_scan_def quote_char_def)
  with assms(1) Quote show ?thesis by (simp add: peek_starts_with peek_NUL)
qed (use assms(1) in \<open>simp_all add: peek_starts_with quote_char_def\<close>)

lemma norm_step_ascii:
  assumes "norm_step bs m c s = (out, m', s')" and "ascii_text (c # s)"
  shows "ascii_text out" and "ascii_text s'"
  using assms by (cases m; cases s; auto split: if_splits)+

lemma c_norm_eq: "ascii_text s \<Longrightarrow> wf_scan m \<Longrightarrow> c_norm bs m s = norm_scan bs m s"
proof (induction bs m s rule: norm_scan.induct)
  case (2 bs m c s)
  obtain out m' s' where st: "norm_step bs m c s = (out, m', s')" by (cases "norm_step bs m c s")
  have "c_norm_step bs m c s = (out, m', s')"
    using c_norm_step_eq [of s m] 2(2,3) st by simp
  moreover have "c_norm bs m' s' = norm_scan bs m' s'"
    using 2(1) [OF st [symmetric] refl] norm_step_ascii [OF st 2(2)] norm_step_wf [OF st 2(3)] by simp
  ultimately show ?case using st by simp
qed simp

lemma norm_scan_ascii: "ascii_text s \<Longrightarrow> ascii_text (norm_scan bs m s)"
proof (induction bs m s rule: norm_scan.induct)
  case (2 bs m c s)
  obtain out m' s' where st: "norm_step bs m c s = (out, m', s')" by (cases "norm_step bs m c s")
  from 2(1) [OF st [symmetric] refl] norm_step_ascii [OF st 2(2)] st show ?case by simp
qed simp

lemma is_space_ascii: "code c < 128 \<Longrightarrow> c_isspace c = is_space c"
  by (auto simp: c_isspace_def is_space_def)

lemma c_tokchar_name: "c_tokchar = name_char"
  by (auto simp: fun_eq_iff c_tokchar_def name_char_def)

lemma upper_char_ascii: "code c < 128 \<Longrightarrow> upper_char c = [c_toupper c]"
  by (auto simp: upper_char_def c_toupper_def)

lemma to_upper_ascii: "ascii_text s \<Longrightarrow> to_upper s = map c_toupper s"
  by (induction s) (auto simp: to_upper_def upper_char_ascii)

lemma code_toupper: "code (c_toupper c) = (if is_lower_az c then code c - 32 else code c)"
  by (auto simp: c_toupper_def is_lower_az_def)

lemma char_by_code: "c = d \<longleftrightarrow> code c = code d"
  by simp

lemma caps_word_toupper: "caps_word (c_toupper c) = name_char c"
  unfolding caps_word_def name_char_def char_by_code [of _ "CHR ''_''"] is_upper_az_def is_alpha_def
    code_toupper
  by (auto simp: is_lower_az_def)

lemma c_toupper_idem [simp]: "c_toupper (c_toupper c) = c_toupper c"
  unfolding char_by_code code_toupper by (auto simp: is_lower_az_def code_toupper)

lemma runs_map: "runs P (map f s) = map (map f) (runs (P \<circ> f) s)"
  by (induction "P \<circ> f" s rule: runs.induct)
     (simp_all add: takeWhile_map dropWhile_map)

lemma words_ascii: "ascii_text s \<Longrightarrow> words s = map (map c_toupper) (runs name_char s)"
proof -
  assume "ascii_text s"
  then have "words s = map (map c_toupper) (runs (caps_word \<circ> c_toupper) s)"
    by (simp add: words_def to_upper_ascii runs_map)
  moreover have "caps_word \<circ> c_toupper = name_char"
    by (simp add: fun_eq_iff caps_word_toupper)
  ultimately show ?thesis by simp
qed

text \<open>Keywords are written in capitals, so comparing without case is comparing the
  upper-cased token.\<close>

definition capital :: "string \<Rightarrow> bool" where
  "capital w \<longleftrightarrow> map c_toupper w = w"

lemma word_is_upper: "capital w \<Longrightarrow> word_is tok w \<longleftrightarrow> map c_toupper tok = w"
  by (auto simp: word_is_def capital_def dest: arg_cong [of _ _ length])

lemma capital_keywords:
  "\<forall>w \<in> set WRITE_TOKENS. capital w" "\<forall>w \<in> set READ_LEADERS. capital w"
  "capital ''WITH''" "capital ''EXPLAIN''" "capital ''SELECT''" "capital ''INTO''"
  by (simp_all add: capital_def WRITE_TOKENS_def READ_LEADERS_def c_toupper_def is_lower_az_def)

lemma c_has_word_runs:
  "\<forall>w \<in> set ws. capital w \<Longrightarrow>
     c_has_word s ws \<longleftrightarrow> (\<exists>x \<in> set (runs name_char s). map c_toupper x \<in> set ws)"
proof (induction s ws rule: c_has_word.induct)
  case (2 c s ws)
  then show ?case
    by (auto simp: c_tokchar_name word_is_upper)
qed simp

lemma ascii_dropWhile: "ascii_text s \<Longrightarrow> ascii_text (dropWhile P s)"
  by (auto simp: ascii_text_def dest: set_dropWhileD)

lemma ascii_takeWhile: "ascii_text s \<Longrightarrow> ascii_text (takeWhile P s)"
  by (auto simp: ascii_text_def dest: set_takeWhileD)

lemma skip_eq:
  "ascii_text s \<Longrightarrow>
     dropWhile (\<lambda>c. c_isspace c \<or> c = CHR ''('') s = dropWhile (\<lambda>c. is_space c \<or> c = CHR ''('') s"
  by (induction s) (auto simp: is_space_ascii)

lemma runs_skip:
  "(\<And>c. Q c \<Longrightarrow> \<not> P c) \<Longrightarrow> runs P (dropWhile Q s) = runs P s"
  by (induction s) auto

lemma not_name_skip: "is_space c \<or> c = CHR ''('' \<Longrightarrow> \<not> name_char c"
  by (auto simp: name_char_def char_class_defs)

lemma c_classify_statement_eq:
  assumes s: "ascii_text s"
  shows "c_classify_statement s = classify_statement s"
proof -
  let ?body = "dropWhile (\<lambda>c. is_space c \<or> c = CHR ''('') s"
  have body: "ascii_text ?body" using s by (rule ascii_dropWhile)
  have lead: "to_upper (takeWhile name_char ?body) = map c_toupper (takeWhile name_char ?body)"
    by (intro to_upper_ascii ascii_takeWhile body)
  have has: "c_has_word s ws \<longleftrightarrow> (\<exists>w \<in> set (words ?body). w \<in> set ws)" if "\<forall>w \<in> set ws. capital w" for ws
    using runs_skip [of _ name_char s, OF not_name_skip] that
    by (simp add: c_has_word_runs words_ascii [OF body])
  have leaders: "(\<exists>w \<in> set READ_LEADERS. word_is t w) \<longleftrightarrow> map c_toupper t \<in> set READ_LEADERS" for t
    using capital_keywords(2) by (auto simp: word_is_upper)
  show ?thesis
    using has [OF capital_keywords(1)] has [of "[''INTO'']"] capital_keywords(3-6)
    by (simp add: c_lists c_classify_statement_def classify_statement_def Let_def skip_eq [OF s]
        c_tokchar_name lead word_is_upper leaders)
qed

lemma split_on_ascii: "ascii_text s \<Longrightarrow> x \<in> set (split_on d s) \<Longrightarrow> ascii_text x"
proof (induction s arbitrary: x)
  case (Cons c s)
  then show ?case by (cases "split_on d s") (auto split: if_splits)
qed simp

lemma c_classify_loop_eq:
  "ascii_text s \<Longrightarrow> ascii_text cur \<Longrightarrow> overall \<noteq> Write \<Longrightarrow>
     c_classify_loop overall cur s =
     combine_parts overall (map classify_statement
       (case split_on (CHR '';'') s of [] \<Rightarrow> [rev cur] | x # xs \<Rightarrow> (rev cur @ x) # xs))"
proof (induction overall cur s rule: c_classify_loop.induct)
  case (1 overall cur)
  have "ascii_text (rev cur)" using 1(2) by (simp add: ascii_text_def)
  with 1 show ?case
    by (cases "classify_statement (rev cur)") (auto simp: c_classify_statement_eq)
next
  case (2 overall cur c s)
  have cur: "c_classify_statement (rev cur) = classify_statement (rev cur)"
    using 2(5) by (intro c_classify_statement_eq) (simp add: ascii_text_def)
  show ?case
  proof (cases "c = CHR '';''")
    case True
    with 2 cur show ?thesis
      by (cases "classify_statement (rev cur)"; cases "split_on (CHR '';'') s") auto
  next
    case False
    with 2 show ?thesis by (cases "split_on (CHR '';'') s") auto
  qed
qed

lemma c_classify_normalized_eq:
  "ascii_text s \<Longrightarrow> c_classify_normalized s = classify_normalized s"
  using c_classify_loop_eq [of s "[]" Empty]
  by (cases "split_on (CHR '';'') s") (auto simp: c_classify_normalized_def classify_normalized_def)

lemma stmt_classify_eq:
  assumes "ascii_text s"
  shows "stmt_classify (Some s) = classify_sql s None"
proof -
  have "c_classify_normalized (c_normalize s bs) = classify_normalized (normalize_sql s bs)" for bs
    using assms
    by (simp add: c_normalize_def normalize_sql_def c_norm_eq norm_scan_ascii c_classify_normalized_eq)
  then show ?thesis
    by (cases "classify_normalized (normalize_sql s False)"; cases "classify_normalized (normalize_sql s True)")
       (auto simp: stmt_classify_def classify_sql_None Let_def max_def less_eq_stmt_class_def)
qed

section \<open>Properties\<close>

text \<open>C10. The core's classifier and the frontend's give the same verdict on every NUL-free ASCII
  statement, so a statement the core reports as safe to re-send is a read for safe mode.\<close>

theorem core_and_frontend_agree:
  assumes "ascii_text s"
  shows "stmt_classify (Some s) = classify_sql s None"
  using assms by (rule stmt_classify_eq)

theorem core_and_frontend_agree_witness:
  "stmt_classify (Some ''with x as (delete from t) select 1'')
     = classify_sql ''with x as (delete from t) select 1'' None"
  by (rule core_and_frontend_agree) code_simp

end
