(* ===== verification/QueryTarget.thy ===== *)
theory QueryTarget
  imports JsRegex
begin

text \<open>
  Engine families (\<open>engineFamily.ts\<close>), the identifier quoting of \<open>schema.ts\<close>, and the
  reader of hand-written queries (\<open>queryTarget.ts\<close>): which single table a statement reads
  whole rows from, or why its result cannot be edited. The lemmas relate the reader to the
  writer: a name quoted by \<open>quoteIdentifier\<close> is read back by \<open>ident\<close>.
\<close>

section \<open>Engine families\<close>

definition engine_family :: "string \<Rightarrow> string" where
  "engine_family engine =
     (let e = to_lower engine in
      if e = ''mysql'' \<or> e = ''mariadb'' then ''mysql''
      else if e = ''postgres'' \<or> e = ''postgresql'' then ''postgres''
      else e)"

lemma engine_family_idem: "engine_family (engine_family e) = engine_family e"
proof -
  have "lower_char (lower_char c) = lower_char c" for c
    by (simp add: lower_char_def is_upper_az_def)
  then have "to_lower (to_lower e) = to_lower e" by (simp add: to_lower_def)
  moreover have "to_lower ''mysql'' = ''mysql''" "to_lower ''postgres'' = ''postgres''"
    by (simp_all add: to_lower_def lower_char_def is_upper_az_def)
  ultimately show ?thesis by (auto simp: engine_family_def Let_def)
qed

section \<open>Scrubbing\<close>

definition RE_BLOCK :: re where  \<comment> \<open>\<open>/\/\*[\s\S]*?\*\//\<close>\<close>
  "RE_BLOCK = seqs [lit ''/*'', lazy_star any, lit ''*/'']"

definition RE_LINE :: re where  \<comment> \<open>\<open>/--[^\n]*/\<close>\<close>
  "RE_LINE = seqs [lit ''--'', star (Cls (\<lambda>c. c \<noteq> CHR 0x0A))]"

definition RE_STRING :: re where  \<comment> \<open>\<open>/'(?:''|[^'])*'/\<close>\<close>
  "RE_STRING = seqs [one (CHR 0x27),
     star (Alt (lit [CHR 0x27, CHR 0x27]) (Cls (\<lambda>c. c \<noteq> CHR 0x27))), one (CHR 0x27)]"

definition RE_SPACES :: re where  \<comment> \<open>\<open>/\s+/\<close>\<close>
  "RE_SPACES = plus spc"

definition scrub :: "string \<Rightarrow> string" where
  "scrub sql =
     trim (re_replace_all RE_SPACES '' ''
       (re_replace_all RE_STRING [CHR 0x27, CHR 0x27]
         (re_replace_all RE_LINE '' '' (re_replace_all RE_BLOCK '' '' sql))))"

section \<open>Identifiers\<close>

text \<open>\<open>s.replace(/q/g, qq)\<close> and its inverse on text made by it.\<close>

definition double_char :: "char \<Rightarrow> string \<Rightarrow> string" where
  "double_char q s = concat (map (\<lambda>c. if c = q then [q, q] else [c]) s)"

fun undouble :: "char \<Rightarrow> string \<Rightarrow> string" where
  "undouble q [] = []"
| "undouble q [c] = [c]"
| "undouble q (c # d # s) =
     (if c = q \<and> d = q then q # undouble q s else c # undouble q (d # s))"

definition DQ :: char where "DQ = CHR 0x22"
definition BT :: char where "BT = CHR 0x60"
definition LB :: char where "LB = CHR 0x5B"
definition RB :: char where "RB = CHR 0x5D"

lemmas quote_defs = DQ_def BT_def LB_def RB_def

definition quote_identifier :: "string \<Rightarrow> string \<Rightarrow> string" where
  "quote_identifier idn engine =
     (let e = to_lower engine in
      if e = ''mysql'' \<or> e = ''mariadb'' then BT # double_char BT idn @ [BT]
      else if e = ''mssql'' then LB # double_char RB idn @ [RB]
      else if e = ''informix'' then idn
      else DQ # double_char DQ idn @ [DQ])"

record name_parts =
  np_db :: "string option"
  np_schema :: "string option"
  np_name :: string

text \<open>The parts that are present: an absent part and an empty one are both dropped.\<close>

definition present :: "string option \<Rightarrow> string list" where
  "present p = (case p of None \<Rightarrow> [] | Some s \<Rightarrow> if s = [] then [] else [s])"

definition qualified_name :: "name_parts \<Rightarrow> string \<Rightarrow> string" where
  "qualified_name parts engine =
     (let q = (\<lambda>s. quote_identifier s engine) in
      if engine_family engine = ''informix'' then
        (case present (np_db parts) of
           d # _ \<Rightarrow> q d @ '':'' @ q (np_name parts)
         | [] \<Rightarrow> q (np_name parts))
      else join ''.''
        (map q (present (np_db parts) @ present (np_schema parts) @ present (Some (np_name parts)))))"

text \<open>\<open>splitParts\<close>: the loop over the characters; \<open>quote\<close> is the open delimiter.\<close>

fun split_parts_loop :: "string \<Rightarrow> char option \<Rightarrow> string \<Rightarrow> string list" where
  "split_parts_loop cur quote [] = [cur]"
| "split_parts_loop cur (Some q) (ch # s) =
     split_parts_loop (cur @ [ch])
       (if ch = q \<or> (q = LB \<and> ch = RB) then None else Some q) s"
| "split_parts_loop cur None (ch # s) =
     (if ch = DQ \<or> ch = BT \<or> ch = LB then split_parts_loop (cur @ [ch]) (Some ch) s
      else if ch = CHR ''.'' then cur # split_parts_loop [] None s
      else split_parts_loop (cur @ [ch]) None s)"

definition split_parts :: "string \<Rightarrow> string list" where
  "split_parts ref = filter (\<lambda>p. p \<noteq> []) (map trim (split_parts_loop [] None ref))"

definition ident :: "string \<Rightarrow> bool \<Rightarrow> string" where
  "ident idn fld =
     (let s = trim idn in
      if length s \<ge> 2 \<and> hd s = DQ \<and> last s = DQ then undouble DQ (butlast (tl s))
      else if length s \<ge> 2 \<and> hd s = BT \<and> last s = BT then undouble BT (butlast (tl s))
      else if length s \<ge> 2 \<and> hd s = LB \<and> last s = RB then butlast (tl s)
      else if fld then to_lower s else s)"

record query_target =
  qt_table :: string
  qt_db :: "string option"
  qt_schema :: "string option"

definition nonempty_opt :: "string \<Rightarrow> string option" where
  "nonempty_opt s = (if s = [] then None else Some s)"

definition ref_parts :: "string \<Rightarrow> string \<Rightarrow> query_target option" where
  "ref_parts ref engine =
     (let fam = engine_family engine;
          fld = (fam = ''postgres'' \<or> fam = ''informix'');
          (db, rest) = (case index_of ref '':'' of
             Some colon \<Rightarrow> (nonempty_opt (ident (take colon ref) fld), drop (Suc colon) ref)
           | None \<Rightarrow> (None, ref));
          parts = map (\<lambda>p. ident p fld) (split_parts rest) in
      if parts = [] \<or> length parts > 3 then None
      else let table = last parts in
      if table = [] then None
      else let out = \<lparr>qt_table = table, qt_db = db, qt_schema = None\<rparr> in
      if fam = ''informix'' then Some out
      else if length parts = 3 then
        Some (out\<lparr>qt_db := Some (parts ! 0), qt_schema := Some (parts ! 1)\<rparr>)
      else if length parts = 2 then
        Some (if fam = ''mysql'' then out\<lparr>qt_db := Some (parts ! 0)\<rparr>
              else out\<lparr>qt_schema := Some (parts ! 0)\<rparr>)
      else Some out)"

section \<open>The one table of a statement\<close>

datatype edit_block = BStatement | BMultiTable | BEngine | BNoTable | BNoPk | BPkNotProjected

definition DML_ENGINES :: "string list" where
  "DML_ENGINES = [''sqlite'', ''postgres'', ''mysql'', ''informix'']"

definition engine_edits :: "string \<Rightarrow> bool option \<Rightarrow> bool" where
  "engine_edits engine dml =
     (case dml of Some b \<Rightarrow> b | None \<Rightarrow> engine_family engine \<in> set DML_ENGINES)"

definition FROM_END :: re where
  "FROM_END = seqs [WordB, Grp 1 (words_alti [''where'', ''group'', ''having'', ''order'', ''limit'',
     ''offset'', ''union'', ''intersect'', ''except'', ''minus'', ''fetch'', ''for'', ''window'', ''into'',
     ''with'']), WordB]"

definition RESHAPING :: re where
  "RESHAPING = seqs [WordB,
     Grp 1 (alts [liti ''join'', liti ''distinct'', liti ''union'', liti ''intersect'', liti ''except'',
       liti ''minus'', seqs [liti ''group'', plus spc, liti ''by''], liti ''into'']), WordB]"

definition LAST_SEMI :: re where  \<comment> \<open>\<open>/;\s*$/\<close>\<close>
  "LAST_SEMI = seqs [one (CHR '';''), star spc, Eol]"

definition SELECT_HEAD :: re where  \<comment> \<open>\<open>/^select\b/i\<close>\<close>
  "SELECT_HEAD = seqs [Bol, liti ''select'', WordB]"

definition FROM_WORD :: re where
  "FROM_WORD = seqs [WordB, liti ''from'', WordB]"

definition parse_target :: "string \<Rightarrow> string \<Rightarrow> (edit_block, query_target) result" where
  "parse_target sql engine =
     (let s = re_replace LAST_SEMI [] (scrub sql) in
      if contains s '';'' then Inl BStatement
      else if \<not> re_test SELECT_HEAD s then Inl BStatement
      else if re_test RESHAPING s then Inl BMultiTable
      else (case re_exec FROM_WORD s of
          None \<Rightarrow> Inl BMultiTable
        | Some (_, _, after, _) \<Rightarrow>
          (let body = trim (case re_exec FROM_END after of
                 Some (i, _) \<Rightarrow> take i after | None \<Rightarrow> after) in
           if body = [] \<or> contains body '','' \<or> contains body ''('' then Inl BMultiTable
           else let tokens = filter (\<lambda>t. t \<noteq> []) (split_on (CHR '' '') body) in
           if length tokens > 3 then Inl BMultiTable
           else if length tokens = 3 \<and> to_lower (tokens ! 1) \<noteq> ''as'' then Inl BMultiTable
           else (case tokens of [] \<Rightarrow> Inl BMultiTable
             | t # _ \<Rightarrow> (case ref_parts t engine of Some x \<Rightarrow> Inr x | None \<Rightarrow> Inl BMultiTable)))))"

definition query_edit_check ::
    "string \<Rightarrow> string \<Rightarrow> bool option \<Rightarrow> (edit_block, query_target) result" where
  "query_edit_check sql engine dml =
     (if engine_edits engine dml then parse_target sql engine else Inl BEngine)"

definition query_edit_target :: "string \<Rightarrow> string \<Rightarrow> query_target option" where
  "query_edit_target sql engine =
     (if engine_family engine = ''mongodb'' then None
      else (case parse_target sql engine of Inr t \<Rightarrow> Some t | Inl _ \<Rightarrow> None))"

text \<open>\<open>sqlEffects.ts\<close>: whether the object tree may be stale.\<close>

definition CATALOG_VERB :: re where
  "CATALOG_VERB = seqs [Alt Bol (one (CHR '';'')), star spc,
     Grp 1 (words_alti [''create'', ''drop'', ''alter'', ''rename'', ''truncate'']), WordB]"

definition changes_catalog :: "string \<Rightarrow> bool" where
  "changes_catalog sql = re_test CATALOG_VERB (scrub sql)"

section \<open>Reading back what was quoted\<close>

lemma double_char_Nil [simp]: "double_char q [] = []"
  by (simp add: double_char_def)

lemma double_char_Cons:
  "double_char q (c # s) = (if c = q then [q, q] else [c]) @ double_char q s"
  by (simp add: double_char_def)

lemma undouble_step: "c \<noteq> q \<Longrightarrow> undouble q (c # s) = c # undouble q s"
  by (cases s) auto

lemma undouble_double: "undouble q (double_char q s) = s"
  by (induction s) (auto simp: double_char_Cons undouble_step)

text \<open>Inside a doubled quote the splitter is always back inside the quote.\<close>

lemma split_parts_quoted:
  assumes "q = DQ \<or> q = BT"
  shows "split_parts_loop cur (Some q) (double_char q s @ q # r) =
     split_parts_loop (cur @ double_char q s @ [q]) None r"
proof (induction s arbitrary: cur)
  case Nil
  show ?case by simp
next
  case (Cons c s)
  have q: "q \<noteq> LB" using assms by (auto simp: quote_defs)
  show ?case
  proof (cases "c = q")
    case True
    with Cons assms show ?thesis by (auto simp: double_char_Cons)
  next
    case False
    with Cons q show ?thesis by (simp add: double_char_Cons)
  qed
qed

text \<open>The reader of an engine's quoted reference.\<close>

definition sql_quote :: "string \<Rightarrow> char" where
  "sql_quote engine = (if engine_family engine = ''mysql'' then BT else DQ)"

definition quoting_engine :: "string \<Rightarrow> bool" where
  "quoting_engine engine \<longleftrightarrow> engine_family engine \<notin> {''mssql'', ''informix''}"

lemma quote_identifier_quoting:
  assumes "quoting_engine engine"
  shows "quote_identifier s engine
    = sql_quote engine # double_char (sql_quote engine) s @ [sql_quote engine]"
  using assms
  by (auto simp: quoting_engine_def quote_identifier_def sql_quote_def engine_family_def Let_def)

lemma ident_quoted:
  assumes q: "q = DQ \<or> q = BT"
  shows "ident (q # double_char q s @ [q]) fld = s"
proof -
  have "\<not> is_space q" using q by (auto simp: quote_defs is_space_def)
  then have "trim (q # double_char q s @ [q]) = q # double_char q s @ [q]"
    by (intro trim_idem_char) auto
  with q show ?thesis
    by (auto simp: ident_def Let_def undouble_double butlast_append quote_defs)
qed

lemma split_parts_loop_ref:
  assumes q: "q = DQ \<or> q = BT" and "ps \<noteq> []"
  shows "split_parts_loop [] None (join ''.'' (map (\<lambda>s. q # double_char q s @ [q]) ps))
     = map (\<lambda>s. q # double_char q s @ [q]) ps"
  using \<open>ps \<noteq> []\<close>
proof (induction ps rule: induct_list012)
  case (2 p)
  show ?case using q split_parts_quoted [OF q, of "[q]" p "[]"] by auto
next
  case (3 p p' ps)
  have "split_parts_loop [] None (q # double_char q p @ q # CHR ''.'' # r) =
      (q # double_char q p @ [q]) # split_parts_loop [] None r" for r
    using q split_parts_quoted [OF q, of "[q]" p "CHR ''.'' # r"] by (auto simp: quote_defs)
  with 3 show ?case by simp
qed simp

lemma split_parts_ref:
  assumes q: "q = DQ \<or> q = BT" and "ps \<noteq> []"
  shows "map (\<lambda>p. ident p fld) (split_parts (join ''.'' (map (\<lambda>s. q # double_char q s @ [q]) ps))) = ps"
proof -
  have "\<not> is_space q" using q by (auto simp: quote_defs is_space_def)
  then have "trim (q # double_char q s @ [q]) = q # double_char q s @ [q]" for s
    by (intro trim_idem_char) auto
  then show ?thesis
    by (simp add: split_parts_def split_parts_loop_ref [OF assms] filter_id_conv comp_def
        ident_quoted [OF q])
qed

section \<open>A qualified name is read back\<close>

definition wf_name :: "name_parts \<Rightarrow> bool" where
  "wf_name p \<longleftrightarrow> np_name p \<noteq> []"

text \<open>What \<open>refParts\<close> makes of the parts of a qualified name.\<close>

definition read_back :: "name_parts \<Rightarrow> string \<Rightarrow> query_target" where
  "read_back p engine =
     (let t = \<lparr>qt_table = np_name p, qt_db = None, qt_schema = None\<rparr>
      in case (present (np_db p), present (np_schema p)) of
        (d # _, s # _) \<Rightarrow> t\<lparr>qt_db := Some d, qt_schema := Some s\<rparr>
      | (d # _, []) \<Rightarrow> if engine_family engine = ''mysql'' then t\<lparr>qt_db := Some d\<rparr>
                      else t\<lparr>qt_schema := Some d\<rparr>
      | ([], s # _) \<Rightarrow> if engine_family engine = ''mysql'' then t\<lparr>qt_db := Some s\<rparr>
                      else t\<lparr>qt_schema := Some s\<rparr>
      | ([], []) \<Rightarrow> t)"

lemma sql_quote_cases: "sql_quote engine = DQ \<or> sql_quote engine = BT"
  by (simp add: sql_quote_def)

lemma qualified_quoting:
  assumes "quoting_engine engine"
  shows "qualified_name p engine = join ''.'' (map (\<lambda>s. sql_quote engine # double_char (sql_quote engine) s @
      [sql_quote engine]) (present (np_db p) @ present (np_schema p) @ present (Some (np_name p))))"
proof -
  have "engine_family engine \<noteq> ''informix''" using assms by (auto simp: quoting_engine_def)
  moreover have "(\<lambda>s. quote_identifier s engine) = (\<lambda>s. sql_quote engine # double_char (sql_quote engine) s @
      [sql_quote engine])"
    using quote_identifier_quoting [OF assms] by (simp add: fun_eq_iff)
  ultimately show ?thesis by (simp add: qualified_name_def Let_def)
qed

lemma present_cases: "present x = [] \<or> (\<exists>s. present x = [s] \<and> s \<noteq> [])"
  by (auto simp: present_def split: option.splits)

lemma index_of_absent: "c \<notin> set s \<Longrightarrow> index_of s [c] = None"
  using contains_char [of s c] by (simp add: contains_def)

lemma ref_parts_quoted:
  assumes e: "quoting_engine engine" and n: "wf_name p"
    and c: "CHR '':'' \<notin> set (qualified_name p engine)"
  shows "ref_parts (qualified_name p engine) engine = Some (read_back p engine)"
proof -
  let ?q = "sql_quote engine"
  let ?ps = "present (np_db p) @ present (np_schema p) @ present (Some (np_name p))"
  have ps: "?ps \<noteq> []" using n by (simp add: wf_name_def present_def)
  have parts: "map (\<lambda>x. ident x fld) (split_parts (qualified_name p engine)) = ?ps" for fld
    unfolding qualified_quoting [OF e] by (rule split_parts_ref [OF sql_quote_cases ps])
  have "engine_family engine \<noteq> ''informix''" using e by (auto simp: quoting_engine_def)
  moreover have "present (Some (np_name p)) = [np_name p]"
    using n by (simp add: wf_name_def present_def)
  moreover note present_cases [of "np_db p"] present_cases [of "np_schema p"]
  moreover have "np_name p \<noteq> []" using n by (simp add: wf_name_def)
  ultimately show ?thesis
    unfolding ref_parts_def read_back_def index_of_absent [OF c] option.case Let_def prod.case parts
    by (elim disjE exE conjE) simp_all
qed

section \<open>Properties\<close>



text \<open>A blank inside a quoted name: the reference is cut there, and the result is taken for one of a
  table that does not exist.\<close>

theorem blank_in_name_misread:
  "parse_target ''select * from \"a b\"'' ''postgres'' =
     Inr \<lparr>qt_table = [CHR 0x22, CHR ''a''], qt_db = None, qt_schema = None\<rparr>"
  by code_simp

end
