(* ===== verification/RunScope.thy ===== *)
theory RunScope
  imports SafeMode QueryTarget
begin

text \<open>
  What a run executes (\<open>runScope.ts\<close>): the splitter of a script into statements, the
  statement under the cursor, the run target, the place of an error and the first write of
  a script. Offsets are into the document; the splitter's loop is an index recursion over
  the fixed text, as in the source.
\<close>

section \<open>Splitting a script\<close>

datatype scan_st = SNormal | SSingle | SDouble | SBack | SLine | SBlock

record statement =
  st_from :: nat
  st_to :: nat
  st_text :: string

text \<open>Routine-body tracking of the statement being scanned. \<open>rt_kind\<close> is resolved
  lazily: \<open>None\<close> is \<open>undefined\<close>, \<open>Some None\<close> is \<open>null\<close>.\<close>

record routine =
  rt_kind :: "string option option"
  rt_depth :: nat
  rt_saw_begin :: bool
  rt_body_done :: bool

definition routine0 :: routine where
  "routine0 = \<lparr>rt_kind = None, rt_depth = 0, rt_saw_begin = False, rt_body_done = False\<rparr>"

definition ROUTINE_HEAD :: re where
  "ROUTINE_HEAD = seqs [WordB, liti ''create'', WordB, Rep 0 (Some 300) False any, WordB,
     Grp 1 (words_alti [''procedure'', ''function'', ''trigger'', ''event'']), WordB]"

definition END_INNER :: re where
  "END_INNER = seqs [Bol, words_alti [''if'', ''loop'', ''while'', ''foreach'', ''for'', ''case'',
     ''repeat'', ''exception''], WordB]"

definition END_BODY :: re where
  "END_BODY = seqs [Bol, words_alti [''procedure'', ''function'', ''trigger''], WordB]"

definition word_char :: "char \<Rightarrow> bool" where
  "word_char c \<longleftrightarrow> is_word c \<or> c = CHR ''$''"

text \<open>\<open>isWordChar(sql[i - 1])\<close>.\<close>

definition word_before :: "string \<Rightarrow> nat \<Rightarrow> bool" where
  "word_before sql i \<longleftrightarrow> i > 0 \<and> word_char (sql ! (i - 1))"

definition DOLLAR_TAG :: re where  \<comment> \<open>\<open>/^\$[A-Za-z_][A-Za-z0-9_]*\$|^\$\$/\<close>\<close>
  "DOLLAR_TAG = Alt
     (seqs [Bol, one (CHR ''$''), Cls (\<lambda>c. is_alpha c \<or> c = CHR ''_''), star (Cls is_word),
            one (CHR ''$'')])
     (seqs [Bol, lit ''$$''])"

text \<open>\<open>routineKind(to)\<close>: the kind, and the tracking with the kind remembered.\<close>

definition resolve_kind :: "string \<Rightarrow> nat \<Rightarrow> nat \<Rightarrow> routine \<Rightarrow> routine" where
  "resolve_kind sql start to r =
     (case rt_kind r of Some _ \<Rightarrow> r
      | None \<Rightarrow> r\<lparr>rt_kind := Some (re_group ROUTINE_HEAD (slice sql start to) 1)\<rparr>)"

definition kind_of :: "routine \<Rightarrow> string option" where
  "kind_of r = (case rt_kind r of Some (Some k) \<Rightarrow> Some (to_lower k) | _ \<Rightarrow> None)"

text \<open>What BEGIN and END do to the tracking; \<open>after\<close> is the text after the word.\<close>

definition block_word :: "bool \<Rightarrow> string \<Rightarrow> string \<Rightarrow> routine \<Rightarrow> routine" where
  "block_word informix lower after r =
     (if kind_of r = None then r
      else if lower = ''begin'' then r\<lparr>rt_depth := Suc (rt_depth r), rt_saw_begin := True\<rparr>
      else if re_test END_INNER after then r
      else if re_test END_BODY after then r\<lparr>rt_depth := 0, rt_body_done := True\<rparr>
      else let d = rt_depth r - 1; informix_body = (informix \<and> kind_of r \<noteq> Some ''trigger'')
           in r\<lparr>rt_depth := d, rt_body_done := rt_body_done r \<or> (d = 0 \<and> \<not> informix_body)\<rparr>)"

definition in_routine_body :: "bool \<Rightarrow> routine \<Rightarrow> bool" where
  "in_routine_body informix r \<longleftrightarrow>
     kind_of r \<noteq> None \<and> \<not> rt_body_done r \<and>
     (rt_saw_begin r \<or> (informix \<and> kind_of r \<noteq> Some ''trigger''))"

text \<open>One turn of the loop at \<open>i\<close>: the state after it, how many characters after \<open>i\<close> it
  also consumed, the tracking, and whether the statement ends here.\<close>

fun scan_step ::
    "string \<Rightarrow> bool \<Rightarrow> nat \<Rightarrow> nat \<Rightarrow> scan_st \<Rightarrow> routine \<Rightarrow> scan_st \<times> nat \<times> routine \<times> bool" where
  "scan_step sql informix start i SNormal r =
     (let c = sql ! i; next = nth_opt sql (Suc i) in
      if c = CHR 0x27 then (SSingle, 0, r, False)
      else if c = DQ then (SDouble, 0, r, False)
      else if c = BT then (SBack, 0, r, False)
      else if c = CHR ''-'' \<and> next = Some (CHR ''-'') then (SLine, 1, r, False)
      else if c = CHR ''/'' \<and> next = Some (CHR ''*'') then (SBlock, 1, r, False)
      else if c = CHR ''$'' \<and> \<not> word_before sql i then
        (case re_exec DOLLAR_TAG (drop i sql) of None \<Rightarrow> (SNormal, 0, r, False)
         | Some (_, tag, _, _) \<Rightarrow>
            (case index_from (i + length tag) tag (drop (i + length tag) sql) of
               None \<Rightarrow> (SNormal, 0, r, False)
             | Some close \<Rightarrow> (SNormal, close + length tag - 1 - i, r, False)))
      else if is_alpha c \<and> \<not> word_before sql i then
        (let word = takeWhile is_word (drop i sql); lower = to_lower word;
             r' = (if lower = ''begin'' \<or> lower = ''end''
                   then block_word informix lower (trim_start (drop (i + length word) sql))
                          (resolve_kind sql start i r)
                   else r)
         in (SNormal, length word - 1, r', False))
      else if c = CHR '';'' then
        (let r' = resolve_kind sql start i r in
         (SNormal, 0, r', \<not> in_routine_body informix r'))
      else (SNormal, 0, r, False))"
| "scan_step sql informix start i SSingle r =
     (let c = sql ! i; next = nth_opt sql (Suc i) in
      if c = CHR 0x5C then (SSingle, 1, r, False)
      else if c = CHR 0x27 then
        (if next = Some (CHR 0x27) then (SSingle, 1, r, False) else (SNormal, 0, r, False))
      else (SSingle, 0, r, False))"
| "scan_step sql informix start i SDouble r =
     (let c = sql ! i; next = nth_opt sql (Suc i) in
      if c = CHR 0x5C then (SDouble, 1, r, False)
      else if c = DQ then
        (if next = Some DQ then (SDouble, 1, r, False) else (SNormal, 0, r, False))
      else (SDouble, 0, r, False))"
| "scan_step sql informix start i SBack r =
     (let c = sql ! i; next = nth_opt sql (Suc i) in
      if c = BT then
        (if next = Some BT then (SBack, 1, r, False) else (SNormal, 0, r, False))
      else (SBack, 0, r, False))"
| "scan_step sql informix start i SLine r =
     ((if sql ! i = CHR 0x0A then SNormal else SLine), 0, r, False)"
| "scan_step sql informix start i SBlock r =
     (if sql ! i = CHR ''*'' \<and> nth_opt sql (Suc i) = Some (CHR ''/'')
      then (SNormal, 1, r, False) else (SBlock, 0, r, False))"

definition mk_statement :: "string \<Rightarrow> nat \<Rightarrow> nat \<Rightarrow> statement" where
  "mk_statement sql from to = \<lparr>st_from = from, st_to = to, st_text = slice sql from to\<rparr>"

function split_loop ::
    "string \<Rightarrow> bool \<Rightarrow> nat \<Rightarrow> nat \<Rightarrow> scan_st \<Rightarrow> routine \<Rightarrow> statement list" where
  "split_loop sql informix start i st r =
     (if i \<ge> length sql then [mk_statement sql start (length sql)]
      else (case scan_step sql informix start i st r of (st', n, r', ends) \<Rightarrow>
        if ends then mk_statement sql start i # split_loop sql informix (Suc i) (Suc i) SNormal routine0
        else split_loop sql informix start (Suc i + n) st' r'))"
  by pat_completeness auto
termination
  by (relation "measure (\<lambda>(sql, _, _, i, _). length sql - i)") auto

declare split_loop.simps [simp del]

definition split_statements :: "string \<Rightarrow> string option \<Rightarrow> statement list" where
  "split_statements sql engine =
     split_loop sql (engine_family (case engine of None \<Rightarrow> [] | Some e \<Rightarrow> e) = ''informix'')
       0 0 SNormal routine0"

section \<open>Runnable statements\<close>

definition comment_re :: "string \<Rightarrow> re" where
  "comment_re family =
     (let dashes = seqs [lit ''--'', star (Cls (\<lambda>c. c \<noteq> CHR 0x0A))];
          block = seqs [lit ''/*'', lazy_star any, lit ''*/''] in
      if family = ''mysql'' then
        alts [dashes, seqs [one (CHR ''#''), star (Cls (\<lambda>c. c \<noteq> CHR 0x0A))], block]
      else if family = ''informix'' then
        alts [dashes, seqs [one (CHR 0x7B), star (Cls (\<lambda>c. c \<noteq> CHR 0x7D)), one (CHR 0x7D)], block]
      else alts [dashes, block])"

definition is_comment_only :: "string \<Rightarrow> string option \<Rightarrow> bool" where
  "is_comment_only sql engine \<longleftrightarrow>
     trim (re_replace_all
       (comment_re (engine_family (case engine of None \<Rightarrow> [] | Some e \<Rightarrow> e))) [] sql) = []"

definition runnable_statements :: "string \<Rightarrow> string option \<Rightarrow> string list" where
  "runnable_statements sql engine =
     filter (\<lambda>s. \<not> is_comment_only s engine)
       (map (\<lambda>s. trim (st_text s)) (split_statements sql engine))"

definition trimmed_range :: "statement \<Rightarrow> nat \<times> nat" where
  "trimmed_range s =
     (let lead = length (st_text s) - length (trim_start (st_text s))
      in (st_from s + lead, st_from s + length (trim_end (st_text s))))"

definition runnable_ranges :: "string \<Rightarrow> string option \<Rightarrow> (nat \<times> nat) list" where
  "runnable_ranges doc engine =
     map trimmed_range
       (filter (\<lambda>s. \<not> is_comment_only (st_text s) engine) (split_statements doc engine))"

definition statement_at :: "string \<Rightarrow> nat \<Rightarrow> string option \<Rightarrow> (nat \<times> nat) option" where
  "statement_at doc pos engine =
     (let ranges = runnable_ranges doc engine in
      if ranges = [] then None
      else (case List.find (\<lambda>(f, t). pos \<ge> f \<and> pos \<le> t + 1) ranges of
          Some r \<Rightarrow> Some r
        | None \<Rightarrow> (let earlier = filter (\<lambda>(f, t). t < pos) ranges in
            Some (if earlier \<noteq> [] then last earlier else hd ranges))))"

section \<open>The run target\<close>

datatype run_scope = Selection | Stmt | Document

record run_target =
  tg_text :: string
  tg_scope :: run_scope
  tg_from :: nat
  tg_to :: nat

definition pick_run_target ::
    "string \<Rightarrow> nat \<Rightarrow> nat \<Rightarrow> run_scope option \<Rightarrow> string option \<Rightarrow> run_target" where
  "pick_run_target doc sel_from sel_to want engine =
     (let f = min sel_from sel_to; t = max sel_from sel_to;
          whole = \<lparr>tg_text = doc, tg_scope = Document, tg_from = 0, tg_to = length doc\<rparr> in
      if want = Some Document then whole
      else if f \<noteq> t \<and> want \<noteq> Some Stmt then
        \<lparr>tg_text = slice doc f t, tg_scope = Selection, tg_from = f, tg_to = t\<rparr>
      else (case statement_at doc f engine of None \<Rightarrow> whole
        | Some (a, b) \<Rightarrow> \<lparr>tg_text = slice doc a b, tg_scope = Stmt, tg_from = a, tg_to = b\<rparr>))"

text \<open>\<open>doc.indexOf(x, pos)\<close>.\<close>

definition index_of_from :: "string \<Rightarrow> string \<Rightarrow> nat \<Rightarrow> nat option" where
  "index_of_from s p pos =
     index_from (min pos (length s)) p (drop pos s)"

text \<open>The loop over the lines before the blamed one: \<open>n\<close> line breaks still to find.\<close>

fun error_line_pos :: "string \<Rightarrow> nat \<Rightarrow> nat \<Rightarrow> nat \<Rightarrow> nat \<Rightarrow> nat" where
  "error_line_pos doc start len 0 pos = pos"
| "error_line_pos doc start len (Suc n) pos =
     (case index_of_from doc [CHR 0x0A] pos of
        None \<Rightarrow> start
      | Some nl \<Rightarrow> if nl \<ge> start + len then start else error_line_pos doc start len n (Suc nl))"

definition error_offset :: "string \<Rightarrow> string \<Rightarrow> int option \<Rightarrow> nat option" where
  "error_offset doc sql line =
     (let text = trim sql in
      if text = [] then None
      else (case index_of doc text of None \<Rightarrow> None
        | Some start \<Rightarrow> (case line of None \<Rightarrow> Some start
            | Some n \<Rightarrow> if n \<le> 1 then Some start
                else Some (error_line_pos doc start (length text) (nat (n - 1)) start))))"

section \<open>The first write of a script\<close>

definition TX_VERB :: re where
  "TX_VERB = seqs [Bol, alts [liti ''begin'', seqs [liti ''start'', plus spc, liti ''transaction''],
     liti ''commit'', liti ''end'', liti ''rollback'', liti ''abort''], WordB]"

definition LEADING_NOISE :: re where  \<comment> \<open>\<open>/^(?:\s|--[^\n]*|\/\*[\s\S]*?\*\/)+/\<close>\<close>
  "LEADING_NOISE = seqs [Bol, plus (alts [spc, seqs [lit ''--'', star (Cls (\<lambda>c. c \<noteq> CHR 0x0A))],
     seqs [lit ''/*'', lazy_star any, lit ''*/'']])]"

definition alpha_us :: "char \<Rightarrow> bool" where
  "alpha_us c \<longleftrightarrow> is_alpha c \<or> c = CHR ''_''"

definition write_verb :: "string \<Rightarrow> string" where
  "write_verb body =
     (let w = takeWhile alpha_us body in if w \<noteq> [] then to_upper w else take 12 body)"

fun first_write_in :: "string option \<Rightarrow> statement list \<Rightarrow> (string \<times> nat) option" where
  "first_write_in engine [] = None"
| "first_write_in engine (s # ss) =
     (if is_comment_only (st_text s) engine then first_write_in engine ss
      else if classify_sql (st_text s) engine \<noteq> Write then first_write_in engine ss
      else let body = re_replace LEADING_NOISE [] (st_text s) in
        if re_test TX_VERB body then first_write_in engine ss
        else Some (write_verb body, st_from s + length (st_text s) - length body))"

definition first_write :: "string \<Rightarrow> string option \<Rightarrow> (string \<times> nat) option" where
  "first_write doc engine = first_write_in engine (split_statements doc engine)"

section \<open>The run button\<close>

record run_info =
  ri_has_selection :: bool
  ri_statement :: "(nat \<times> nat) option"
  ri_statements :: nat
  ri_first_write :: "(string \<times> nat) option"

record run_choice =
  rc_scope :: run_scope
  rc_label :: string
  rc_hint :: "string \<times> (string \<times> nat) list"
  rc_keys :: string
  rc_disabled :: bool
  rc_current :: bool

definition key_run_scope :: "bool \<Rightarrow> bool \<Rightarrow> run_scope" where
  "key_run_scope has_selection key_script =
     (if has_selection then Selection else if key_script then Document else Stmt)"

definition run_button_label :: "run_info \<Rightarrow> bool \<Rightarrow> string" where
  "run_button_label info key_script =
     (case key_run_scope (ri_has_selection info) key_script of
        Selection \<Rightarrow> ''editor.runSelection''
      | Document \<Rightarrow> ''editor.runScript''
      | Stmt \<Rightarrow> ''editor.runStatement'')"

definition run_choices :: "run_info \<Rightarrow> bool \<Rightarrow> run_choice list" where
  "run_choices info key_script =
     (let current = key_run_scope (ri_has_selection info) key_script in
      [\<lparr>rc_scope = Stmt, rc_label = ''editor.scope.statement'',
        rc_hint = (case ri_statement info of None \<Rightarrow> (''editor.scope.nothing'', [])
          | Some (a, b) \<Rightarrow> if a = b then (''editor.scope.line'', [(''n'', a)])
              else (''editor.scope.lines'', [(''from'', a), (''to'', b)])),
        rc_keys = (if current = Stmt then ''Mod+Enter'' else []),
        rc_disabled = (ri_statement info = None), rc_current = (current = Stmt)\<rparr>,
       \<lparr>rc_scope = Selection, rc_label = ''editor.scope.selection'',
        rc_hint = ((if ri_has_selection info then ''editor.scope.selected''
                    else ''editor.scope.noSelection''), []),
        rc_keys = (if ri_has_selection info then ''Mod+Enter'' else []),
        rc_disabled = (\<not> ri_has_selection info), rc_current = ri_has_selection info\<rparr>,
       \<lparr>rc_scope = Document, rc_label = ''editor.scope.script'',
        rc_hint = (if ri_statements info = 1 then (''editor.scope.statementsOne'', [])
                   else (''editor.scope.statements'', [(''n'', ri_statements info)])),
        rc_keys = (if current = Document then ''Mod+Enter'' else ''Mod+Shift+Enter''),
        rc_disabled = (ri_statements info = 0), rc_current = (current = Document)\<rparr>])"


section \<open>Segments cover the document\<close>

text \<open>\<open>covers sql k segs\<close>: the segments start at \<open>k\<close>, are separated by exactly one
  semicolon and end with the text.\<close>

fun covers :: "string \<Rightarrow> nat \<Rightarrow> statement list \<Rightarrow> bool" where
  "covers sql k [] \<longleftrightarrow> False"
| "covers sql k [s] \<longleftrightarrow> k \<le> length sql \<and> s = mk_statement sql k (length sql)"
| "covers sql k (s # t # ss) \<longleftrightarrow>
     k \<le> st_to s \<and> st_to s < length sql \<and> sql ! st_to s = CHR '';'' \<and>
     s = mk_statement sql k (st_to s) \<and> covers sql (Suc (st_to s)) (t # ss)"

lemma scan_step_ends:
  "scan_step sql informix start i st r = (st', n, r', e) \<Longrightarrow> e \<Longrightarrow> st = SNormal \<and> sql ! i = CHR '';''"
  by (cases st) (auto simp: Let_def split: if_splits option.splits)

lemma split_loop_not_Nil [simp]: "split_loop sql informix start i st r \<noteq> []"
proof (induction sql informix start i st r rule: split_loop.induct)
  case (1 sql informix start i st r)
  then show ?case
    by (subst split_loop.simps) (auto split: prod.splits)
qed

lemma covers_Cons:
  "ss \<noteq> [] \<Longrightarrow> covers sql k (s # ss) \<longleftrightarrow>
     k \<le> st_to s \<and> st_to s < length sql \<and> sql ! st_to s = CHR '';'' \<and>
     s = mk_statement sql k (st_to s) \<and> covers sql (Suc (st_to s)) ss"
  by (cases ss) auto

lemma split_loop_covers:
  "start \<le> i \<Longrightarrow> start \<le> length sql \<Longrightarrow> covers sql start (split_loop sql informix start i st r)"
proof (induction sql informix start i st r rule: split_loop.induct)
  case (1 sql informix start i st r)
  show ?case
  proof (cases "i \<ge> length sql")
    case True
    with 1 show ?thesis by (subst split_loop.simps) simp
  next
    case False
    obtain st' n r' e where s: "scan_step sql informix start i st r = (st', n, r', e)"
      by (cases "scan_step sql informix start i st r") auto
    show ?thesis
    proof (cases e)
      case True
      with s have "sql ! i = CHR '';''" using scan_step_ends by blast
      moreover have "covers sql (Suc i) (split_loop sql informix (Suc i) (Suc i) SNormal routine0)"
        using 1(1) [OF False s [symmetric] refl refl] True False by simp
      ultimately show ?thesis
        using False s True 1(3) by (subst split_loop.simps) (simp add: covers_Cons mk_statement_def)
    next
      case e: False
      have "covers sql start (split_loop sql informix start (Suc i + n) st' r')"
        using 1(2) [OF False s [symmetric] refl refl e] 1(3,4) by simp
      with False s e show ?thesis by (subst split_loop.simps) simp
    qed
  qed
qed

lemma split_covers: "covers sql 0 (split_statements sql engine)"
  by (simp add: split_statements_def split_loop_covers)

lemma covers_not_Nil: "covers sql k segs \<Longrightarrow> segs \<noteq> []"
  by auto

lemma covers_join:
  "covers sql k segs \<Longrightarrow> join '';'' (map st_text segs) = drop k sql"
proof (induction sql k segs rule: covers.induct)
  case (2 sql k s)
  then show ?case by (auto simp: mk_statement_def slice_def)
next
  case (3 sql k s t ss)
  then have IH: "join '';'' (map st_text (t # ss)) = drop (Suc (st_to s)) sql" by simp
  have c: "k \<le> st_to s" "st_to s < length sql" "sql ! st_to s = CHR '';''"
    "st_text s = slice sql k (st_to s)"
    using 3(2) by (auto simp: mk_statement_def) (metis statement.select_convs(3))
  have "drop k sql = slice sql k (st_to s) @ drop (st_to s) sql"
    using c(1) by (simp add: slice_def) (metis append_take_drop_id drop_drop le_add_diff_inverse2)
  also have "drop (st_to s) sql = '';'' @ drop (Suc (st_to s)) sql"
    using c(2,3) Cons_nth_drop_Suc by fastforce
  finally show ?case using IH c(4) by simp
qed simp

lemma covers_mem:
  assumes "covers sql k segs" and "s \<in> set segs"
  shows "k \<le> st_from s \<and> st_from s \<le> st_to s \<and> st_to s \<le> length sql \<and>
    st_text s = slice sql (st_from s) (st_to s)"
  using assms
proof (induction sql k segs rule: covers.induct)
  case (2 sql k s')
  then show ?case by (auto simp: mk_statement_def)
next
  case (3 sql k s' t ss)
  have c: "k \<le> st_to s'" "st_to s' < length sql" "s' = mk_statement sql k (st_to s')"
    using 3(2) by auto
  show ?case
  proof (cases "s = s'")
    case True
    have "st_from s' = k" "st_text s' = slice sql k (st_to s')"
      by (subst c(3), simp add: mk_statement_def)+
    with c(1,2) True show ?thesis by simp
  next
    case False
    with 3 c(1) show ?thesis by auto
  qed
qed simp

section \<open>Quoted text does not split\<close>

lemma scan_single_body:
  assumes "\<forall>c \<in> set w. c \<noteq> CHR 0x27 \<and> c \<noteq> CHR 0x5C"
  shows "split_loop (a @ w @ b) informix start (length a) SSingle r =
    split_loop (a @ w @ b) informix start (length a + length w) SSingle r"
  using assms
proof (induction w arbitrary: a)
  case (Cons c w)
  have "split_loop (a @ (c # w) @ b) informix start (length a) SSingle r =
    split_loop (a @ (c # w) @ b) informix start (Suc (length a)) SSingle r"
    using Cons.prems by (subst split_loop.simps) (simp add: nth_append Let_def)
  also have "\<dots> = split_loop ((a @ [c]) @ w @ b) informix start (length (a @ [c])) SSingle r"
    by simp
  also have "\<dots> = split_loop ((a @ [c]) @ w @ b) informix start (length (a @ [c]) + length w) SSingle r"
    using Cons.prems by (intro Cons.IH) auto
  finally show ?case by simp
qed simp

lemma split_single_quoted:
  assumes w: "\<forall>c \<in> set w. c \<noteq> CHR 0x27 \<and> c \<noteq> CHR 0x5C"
    and b: "b = [] \<or> hd b \<noteq> CHR 0x27"
    and sql: "sql = a @ CHR 0x27 # w @ CHR 0x27 # b"
  shows "split_loop sql informix start (length a) SNormal r =
    split_loop sql informix start (length a + length w + 2) SNormal r"
proof -
  let ?a = "a @ [CHR 0x27]"
  have "split_loop sql informix start (length a) SNormal r =
      split_loop sql informix start (length ?a) SSingle r"
    by (subst split_loop.simps) (simp add: sql nth_append Let_def)
  also have "\<dots> = split_loop sql informix start (length ?a + length w) SSingle r"
    using scan_single_body [OF w, of ?a "CHR 0x27 # b"] by (simp add: sql)
  also have "\<dots> = split_loop sql informix start (length a + length w + 2) SNormal r"
  proof -
    have n: "sql ! (length ?a + length w) = CHR 0x27"
      by (simp add: sql nth_append)
    have m: "nth_opt sql (Suc (length ?a + length w)) \<noteq> Some (CHR 0x27)"
      using b by (cases b) (auto simp: sql nth_opt_def nth_append)
    have l: "\<not> length ?a + length w \<ge> length sql" by (simp add: sql)
    show ?thesis
      by (subst split_loop.simps) (use n m l in \<open>simp add: Let_def\<close>)
  qed
  finally show ?thesis .
qed

section \<open>Targets are slices of the document\<close>

lemma set_replace_from: "set (replace_from p [] b r) \<subseteq> set r"
proof (induction p "[] :: string" b r rule: replace_from.induct)
  case (1 p b r)
  show ?case
  proof (cases "m_re p (b, r, [])")
    case Nil
    show ?thesis
    proof (cases r)
      case (Cons c r1)
      then have "set (replace_from p [] (c # b) r1) \<subseteq> set r1"
        using 1(1) [OF Nil Cons] by simp
      with Nil Cons show ?thesis by (subst replace_from.simps) auto
    qed (use Nil in \<open>simp add: replace_from.simps\<close>)
  next
    case (Cons t ts)
    obtain b' r' cs where t: "t = (b', r', cs)" by (cases t) auto
    with Cons have "(b', r', cs) \<in> set (m_re p (b, r, []))" by simp
    then have "reach (b, r, []) (b', r', cs)" using m_re_sound by (auto simp: sound_m_def)
    then have sub: "set r' \<subseteq> set r" by (auto simp: reach_def)
    show ?thesis
    proof (cases "length r' < length r")
      case True
      then have "set (replace_from p [] b' r') \<subseteq> set r'"
        using 1(2) Cons t by auto
      with sub True Cons t show ?thesis by (subst replace_from.simps) auto
    next
      case False
      show ?thesis
      proof (cases r)
        case r: (Cons c r1)
        then have "set (replace_from p [] (c # b) r1) \<subseteq> set r1"
          using 1(3) [OF Cons] t False by auto
        with False Cons t r show ?thesis by (subst replace_from.simps) auto
      qed (use Cons t in \<open>simp add: replace_from.simps\<close>)
    qed
  qed
qed

lemma blank_comment_only: "blank s \<Longrightarrow> is_comment_only s engine"
  using set_replace_from by (fastforce simp: is_comment_only_def trim_empty blank_iff re_replace_all_def)


text \<open>The trimmed range of a segment holds the trimmed text of the segment.\<close>

lemma trimmed_range_slice:
  assumes s: "s = mk_statement doc a b" and ab: "a \<le> b" "b \<le> length doc"
    and nb: "\<not> blank (st_text s)" and r: "trimmed_range s = (f, t)"
  shows "slice doc f t = trim (st_text s) \<and> a \<le> f \<and> f < t \<and> t \<le> b"
proof -
  let ?x = "st_text s"
  have x: "?x = take (b - a) (drop a doc)" and sf: "st_from s = a"
    using s by (simp_all add: mk_statement_def slice_def)
  have len: "length ?x = b - a" using x ab by simp
  have f: "f = a + (length ?x - length (trim_start ?x))" and t: "t = a + length (trim_end ?x)"
    using r sf by (auto simp: trimmed_range_def Let_def)
  let ?lead = "length ?x - length (trim_start ?x)"
  have "slice doc f t = drop ?lead (take (length (trim_end ?x)) (drop a doc))"
    by (simp add: f t slice_def drop_take add.commute)
  also have "take (length (trim_end ?x)) (drop a doc) = take (length (trim_end ?x)) ?x"
    using length_trim_end [of ?x] len x by (simp add: min_absorb1)
  also have "\<dots> = trim_end ?x" by (rule trim_end_prefix)
  finally have sl: "slice doc f t = drop ?lead (trim_end ?x)" .
  obtain u where u: "?x = u @ trim_start ?x" "blank u" using trim_start_decomp by blast
  then have lu: "length u = ?lead" by (metis add_diff_cancel_right' length_append)
  obtain w where w: "?x = trim_end ?x @ w" "blank w" using trim_end_decomp by blast
  have st: "trim_start (trim_end ?x) = trim ?x" by (rule trim_start_end [OF nb])
  obtain v where v: "trim_end ?x = v @ trim ?x" "blank v"
    using trim_start_decomp [of "trim_end ?x"] st by auto
  have "trim ?x \<noteq> []" using nb by (simp add: trim_empty)
  have hdn: "\<not> is_space (hd (trim ?x))"
    using st \<open>trim ?x \<noteq> []\<close> by (metis hd_dropWhile trim_start_def)
  have "takeWhile is_space ?x = v"
  proof -
    have "?x = v @ (trim ?x @ w)" using v(1) w(1) by simp
    moreover have "takeWhile is_space (v @ (trim ?x @ w)) = v"
      using v(2) hdn \<open>trim ?x \<noteq> []\<close> by (cases "trim ?x") (auto simp: blank_iff takeWhile_append2)
    ultimately show ?thesis by metis
  qed
  moreover have "length (takeWhile is_space ?x) = ?lead"
    by (metis add_diff_cancel_right' length_append takeWhile_dropWhile_id trim_start_def)
  ultimately have lv: "length v = ?lead" by simp
  then have "drop ?lead (trim_end ?x) = trim ?x" using v(1) by (metis append_eq_conv_conj)
  moreover have "?lead < length (trim_end ?x)"
    using v(1) lv \<open>trim ?x \<noteq> []\<close> by (metis length_append length_greater_0_conv less_add_same_cancel1)
  moreover have "length (trim_end ?x) \<le> b - a" using length_trim_end [of ?x] len by simp
  ultimately show ?thesis using sl f t ab by simp
qed

lemma covers_mk:
  "covers sql k segs \<Longrightarrow> s \<in> set segs \<Longrightarrow>
     \<exists>a b. s = mk_statement sql a b \<and> a \<le> b \<and> b \<le> length sql"
proof (induction sql k segs rule: covers.induct)
  case (2 sql k s')
  then show ?case by auto
next
  case (3 sql k s' t ss)
  show ?case
  proof (cases "s = s'")
    case True
    then have "s = mk_statement sql k (st_to s')" "k \<le> st_to s'" "st_to s' \<le> length sql"
      using 3(2) by auto
    then show ?thesis by blast
  next
    case False
    with 3 show ?thesis by auto
  qed
qed simp

lemma runnable_ranges_mem:
  assumes "(f, t) \<in> set (runnable_ranges doc engine)"
  shows "\<exists>s \<in> set (split_statements doc engine). slice doc f t = trim (st_text s) \<and>
     \<not> is_comment_only (st_text s) engine \<and> f < t \<and> t \<le> length doc"
proof -
  obtain s where s: "s \<in> set (split_statements doc engine)"
    "\<not> is_comment_only (st_text s) engine" "trimmed_range s = (f, t)"
    using assms by (auto simp: runnable_ranges_def)
  obtain a b where "s = mk_statement doc a b" "a \<le> b" "b \<le> length doc"
    using covers_mk [OF split_covers s(1)] by blast
  moreover have "\<not> blank (st_text s)" using s(2) blank_comment_only by blast
  ultimately have "slice doc f t = trim (st_text s) \<and> a \<le> f \<and> f < t \<and> t \<le> b"
    using s(3) by (metis trimmed_range_slice)
  with \<open>b \<le> length doc\<close> s show ?thesis by auto
qed

lemma last_filter_mem: "filter P xs \<noteq> [] \<Longrightarrow> last (filter P xs) \<in> set xs"
  using last_in_set [of "filter P xs"] by simp

lemma statement_at_mem:
  "statement_at doc pos engine = Some r \<Longrightarrow> r \<in> set (runnable_ranges doc engine)"
  unfolding statement_at_def Let_def
  by (simp split: if_splits option.splits)
     (metis find_Some_mem hd_in_set last_filter_mem option.inject)+

lemma statement_at_None:
  "statement_at doc pos engine = None \<longleftrightarrow>
     (\<forall>s \<in> set (split_statements doc engine). is_comment_only (st_text s) engine)"
  by (auto simp: statement_at_def Let_def runnable_ranges_def filter_empty_conv
      split: if_splits option.splits)

section \<open>The place of an error\<close>

lemma index_of_from_Some:
  assumes "index_of_from s [c] pos = Some k" and "pos \<le> length s"
  shows "pos \<le> k \<and> k < length s \<and> s ! k = c \<and> c \<notin> set (slice s pos k)"
proof -
  have "index_from pos [c] (drop pos s) = Some k"
    using assms by (simp add: index_of_from_def)
  moreover have "index_from i [c] t = Some k \<Longrightarrow>
      i \<le> k \<and> k - i < length t \<and> t ! (k - i) = c \<and> c \<notin> set (take (k - i) t)" for i t
  proof (induction i "[c]" t rule: index_from.induct)
    case (2 i d t)
    show ?case
    proof (cases "starts_with [c] (d # t)")
      case True
      with 2 show ?thesis by (auto simp: starts_with_def)
    next
      case False
      with 2 have "Suc i \<le> k \<and> k - Suc i < length t \<and> t ! (k - Suc i) = c \<and>
          c \<notin> set (take (k - Suc i) t)" by auto
      moreover have "d \<noteq> c" using False by (auto simp: starts_with_def)
      moreover obtain m where "k - i = Suc m" "k - Suc i = m"
        using calculation(1) by (metis Suc_diff_Suc Suc_le_eq)
      ultimately show ?thesis by simp
    qed
  qed simp
  ultimately have "pos \<le> k" "k - pos < length (drop pos s)" "drop pos s ! (k - pos) = c"
      "c \<notin> set (take (k - pos) (drop pos s))"
    by blast+
  then show ?thesis using assms(2) by (simp add: slice_def)
qed

definition newlines :: "string \<Rightarrow> nat" where
  "newlines s = length (filter (\<lambda>c. c = CHR 0x0A) s)"

lemma error_line_pos_spec:
  assumes "start \<le> pos" and "start + len \<le> length doc" and "pos \<le> start + len"
  shows "error_line_pos doc start len n pos = start \<or>
     (pos \<le> error_line_pos doc start len n pos \<and> error_line_pos doc start len n pos \<le> start + len \<and>
      newlines (slice doc start (error_line_pos doc start len n pos)) = newlines (slice doc start pos) + n \<and>
      (n > 0 \<longrightarrow> doc ! (error_line_pos doc start len n pos - 1) = CHR 0x0A))"
  using assms
proof (induction n arbitrary: pos)
  case (Suc n)
  show ?case
  proof (cases "index_of_from doc [CHR 0x0A] pos")
    case (Some nl)
    have nl: "pos \<le> nl" "nl < length doc" "doc ! nl = CHR 0x0A"
        "CHR 0x0A \<notin> set (slice doc pos nl)"
      using index_of_from_Some [OF Some] Suc.prems by auto
    show ?thesis
    proof (cases "nl \<ge> start + len")
      case False
      have "slice doc start (Suc nl) = slice doc start pos @ slice doc pos nl @ slice doc nl (Suc nl)"
        using nl Suc.prems by (simp add: slice_append)
      moreover have "slice doc nl (Suc nl) = [CHR 0x0A]"
        using nl by (simp add: slice_def take_Suc hd_drop_conv_nth)
      moreover have "newlines (slice doc pos nl) = 0"
        using nl(4) by (auto simp: newlines_def filter_empty_conv)
      ultimately have "newlines (slice doc start (Suc nl)) = Suc (newlines (slice doc start pos))"
        by (simp add: newlines_def)
      moreover have "error_line_pos doc start len n (Suc nl) = start \<or>
        (Suc nl \<le> error_line_pos doc start len n (Suc nl) \<and>
         error_line_pos doc start len n (Suc nl) \<le> start + len \<and>
         newlines (slice doc start (error_line_pos doc start len n (Suc nl)))
           = newlines (slice doc start (Suc nl)) + n \<and>
         (n > 0 \<longrightarrow> doc ! (error_line_pos doc start len n (Suc nl) - 1) = CHR 0x0A))"
        using Suc.IH [of "Suc nl"] Suc.prems nl False by simp
      ultimately show ?thesis using Some False nl by (cases n) auto
    qed (simp add: Some)
  qed simp
qed simp

section \<open>The first write\<close>

lemma first_write_in_None:
  "first_write_in engine ss = None \<longleftrightarrow>
     (\<forall>s \<in> set ss. is_comment_only (st_text s) engine \<or> classify_sql (st_text s) engine \<noteq> Write \<or>
        re_test TX_VERB (re_replace LEADING_NOISE [] (st_text s)))"
  by (induction ss) (auto simp: Let_def)

section \<open>Properties\<close>

text \<open>C16. Splitting a script loses nothing: the statements are contiguous slices of the document
  separated by exactly one semicolon each, and joining their texts with semicolons gives
  the document back.\<close>

theorem split_partitions_script:
  "covers sql 0 (split_statements sql engine) \<and>
   join '';'' (map st_text (split_statements sql engine)) = sql"
  using covers_join [OF split_covers, of sql engine] by (simp add: split_covers)

theorem split_partitions_script_witness:
  "covers ''a;b'' 0 (split_statements ''a;b'' None) \<and> length (split_statements ''a;b'' None) = 2"
proof -
  have "length (split_statements ''a;b'' None) = 2" by code_simp
  with split_partitions_script [of "''a;b''" None] show ?thesis by simp
qed

text \<open>A semicolon inside a single-quoted string does not split: from the opening quote the
  scan goes on after the closing quote, with the statement and its tracking unchanged.\<close>

theorem quoted_semicolon_does_not_split:
  assumes "\<forall>c \<in> set w. c \<noteq> CHR 0x27 \<and> c \<noteq> CHR 0x5C" and "b = [] \<or> hd b \<noteq> CHR 0x27"
  shows "split_loop (a @ CHR 0x27 # w @ CHR 0x27 # b) informix start (length a) SNormal r =
    split_loop (a @ CHR 0x27 # w @ CHR 0x27 # b) informix start (length a + length w + 2) SNormal r"
  using assms by (rule split_single_quoted) (rule refl)

theorem quoted_semicolon_does_not_split_witness:
  "split_loop (''x'' @ CHR 0x27 # '';'' @ CHR 0x27 # []) False 0 1 SNormal routine0 =
   split_loop (''x'' @ CHR 0x27 # '';'' @ CHR 0x27 # []) False 0 4 SNormal routine0"
  using quoted_semicolon_does_not_split [of "'';''" "[]" "''x''" False 0 routine0]
  by (simp add: numeral_eq_Suc)

text \<open>C25. The run target is a slice of the document: its text sits exactly between its offsets.
  When the scope is the statement under the cursor, the text is the trimmed, non-empty text
  of one of the document's statements that is more than comments.\<close>

theorem run_target_is_slice:
  assumes "tg = pick_run_target doc a b want engine" and "a \<le> length doc" and "b \<le> length doc"
  shows "tg_from tg \<le> tg_to tg \<and> tg_to tg \<le> length doc \<and> slice doc (tg_from tg) (tg_to tg) = tg_text tg \<and>
    (tg_scope tg = Stmt \<longrightarrow> tg_text tg \<noteq> [] \<and>
      (\<exists>s \<in> set (split_statements doc engine). tg_text tg = trim (st_text s) \<and>
         \<not> is_comment_only (st_text s) engine))"
proof (cases "tg_scope tg = Stmt")
  case True
  then obtain f t where r: "statement_at doc (min a b) engine = Some (f, t)"
    and tg: "tg_text tg = slice doc f t" "tg_from tg = f" "tg_to tg = t"
    using assms(1) by (auto simp: pick_run_target_def Let_def split: if_splits option.splits)
  obtain s where s: "s \<in> set (split_statements doc engine)" "slice doc f t = trim (st_text s)"
    "\<not> is_comment_only (st_text s) engine" and ft: "f < t" "t \<le> length doc"
    using runnable_ranges_mem [OF statement_at_mem [OF r]] by blast
  have "length (slice doc f t) = t - f" using ft(2) by (rule length_slice)
  then have "slice doc f t \<noteq> []" using ft(1) by (metis length_0_conv less_irrefl zero_less_diff)
  with s ft tg show ?thesis by (metis less_imp_le_nat)
next
  case False
  with assms show ?thesis
    by (auto simp: pick_run_target_def Let_def slice_def split: if_splits option.splits)
qed

theorem run_target_is_slice_witness:
  "let tg = pick_run_target ''select 1; select 2'' 12 12 None None in
     tg_scope tg = Stmt \<and> tg_text tg = ''select 2'' \<and>
     slice ''select 1; select 2'' (tg_from tg) (tg_to tg) = tg_text tg"
proof -
  let ?tg = "pick_run_target ''select 1; select 2'' 12 12 None None"
  have "tg_scope ?tg = Stmt" "tg_text ?tg = ''select 2''" by code_simp+
  moreover have "slice ''select 1; select 2'' (tg_from ?tg) (tg_to ?tg) = tg_text ?tg"
    using run_target_is_slice [of ?tg "''select 1; select 2''" 12 12 None None] by simp
  ultimately show ?thesis by simp
qed

text \<open>An error is placed inside the statement that failed: at its start, or at the start of
  the line the engine blamed, which is that many line breaks into the statement.\<close>

theorem error_offset_in_statement:
  assumes "error_offset doc sql line = Some p"
  shows "\<exists>pre post. doc = pre @ trim sql @ post \<and>
    (p = length pre \<or>
     (\<exists>n. line = Some n \<and> n > 1 \<and> length pre \<le> p \<and> p \<le> length pre + length (trim sql) \<and>
        newlines (slice doc (length pre) p) = nat (n - 1) \<and> doc ! (p - 1) = CHR 0x0A))"
proof -
  obtain start where st: "index_of doc (trim sql) = Some start"
    and p: "p = (case line of None \<Rightarrow> start | Some n \<Rightarrow> if n \<le> 1 then start
      else error_line_pos doc start (length (trim sql)) (nat (n - 1)) start)"
    using assms by (auto simp: error_offset_def Let_def split: if_splits option.splits)
  obtain pre post where d: "doc = pre @ trim sql @ post" and l: "start = length pre"
    using index_of_Some [OF st] by blast
  have "start + length (trim sql) \<le> length doc" using d l by simp
  note spec = error_line_pos_spec [OF order_refl this]
  have nl: "newlines (slice doc start start) = 0" by (simp add: slice_def newlines_def)
  show ?thesis
  proof (cases "p = start")
    case True
    with d l show ?thesis by blast
  next
    case False
    then obtain n where n: "line = Some n" "n > 1"
      "p = error_line_pos doc start (length (trim sql)) (nat (n - 1)) start"
      using p by (auto split: option.splits if_splits)
    from spec [of "nat (n - 1)"] False n nl
    have "start \<le> p \<and> p \<le> start + length (trim sql) \<and> newlines (slice doc start p) = nat (n - 1) \<and>
        doc ! (p - 1) = CHR 0x0A" by simp
    with n d l show ?thesis by blast
  qed
qed

theorem error_offset_in_statement_witness:
  "error_offset [CHR ''a'', CHR '';'', CHR ''b'', CHR 0x0A, CHR ''c''] [CHR ''b'', CHR 0x0A, CHR ''c''] (Some 2) = Some 4 \<and>
   (\<exists>pre post. [CHR ''a'', CHR '';'', CHR ''b'', CHR 0x0A, CHR ''c''] = pre @ trim [CHR ''b'', CHR 0x0A, CHR ''c''] @ post)"
proof -
  have "error_offset [CHR ''a'', CHR '';'', CHR ''b'', CHR 0x0A, CHR ''c''] [CHR ''b'', CHR 0x0A, CHR ''c''] (Some 2) = Some 4"
    by code_simp
  from this error_offset_in_statement [OF this] show ?thesis by blast
qed

text \<open>A script said to hold no write really holds none: when \<open>firstWrite\<close> finds nothing,
  every statement is only comments, or the classifier does not call it a write, or it is a
  transaction verb; and what it finds is a statement the classifier calls a write.\<close>

theorem first_write_complete:
  "first_write doc engine = None \<longleftrightarrow>
     (\<forall>s \<in> set (split_statements doc engine).
        is_comment_only (st_text s) engine \<or> classify_sql (st_text s) engine \<noteq> Write \<or>
        re_test TX_VERB (re_replace LEADING_NOISE [] (st_text s)))"
  by (simp add: first_write_def first_write_in_None)

theorem first_write_complete_witness: "first_write ''begin;select 1'' None = None"
proof -
  have "\<forall>s \<in> set (split_statements ''begin;select 1'' None).
        is_comment_only (st_text s) None \<or> classify_sql (st_text s) None \<noteq> Write \<or>
        re_test TX_VERB (re_replace LEADING_NOISE [] (st_text s))" by code_simp
  with first_write_complete [of "''begin;select 1''" None] show ?thesis by simp
qed

end
