(* ===== verification/Results.thy ===== *)
theory Results
  imports JsRegex
begin

text \<open>
  Result sets (\<open>query.ts\<close>) and what the editor reads from a table description
  (\<open>edit.ts\<close>): the primary key, the column names and types, and the WHERE map that
  identifies one row. A cell is \<open>None\<close> for a SQL NULL.
\<close>

type_synonym cell = "string option"
type_synonym cells = "(string \<times> cell) list"

record column =
  col_name :: string
  col_type :: string

record result_set =
  rs_columns :: "column list"
  rs_rows :: "cell list list"
  rs_truncated :: bool
  rs_cursor :: bool
  rs_affected :: int

text \<open>The error a core response carries, and a response.\<close>

record rpc_error =
  er_code :: int
  er_message :: string
  er_data :: "json option"

type_synonym response = "(rpc_error, json) result"

text \<open>What an asynchronous call can throw: a \<open>QueryError\<close> or another exception. A channel
  to the core sends a method with its parameters in a state \<open>'w\<close> of the world; a response
  that carries an error is a value, not an exception.\<close>

datatype js_error = QueryError rpc_error | OtherError string

type_synonym ('a, 'w) effect = "'w \<Rightarrow> (js_error, 'a) result \<times> 'w"
type_synonym 'w channel = "string \<Rightarrow> json option \<Rightarrow> (response, 'w) effect"

definition IPC_ERR_CONN :: int where "IPC_ERR_CONN = - 32000"
definition IPC_ERR_UNSUPPORTED :: int where "IPC_ERR_UNSUPPORTED = - 32001"

text \<open>\<open>row[i]\<close> for a cell: absent and NULL are both \<open>null\<close> after \<open>?? null\<close>.\<close>

definition cell_at :: "cell list \<Rightarrow> nat \<Rightarrow> cell" where
  "cell_at row i = (if i < length row then row ! i else None)"

definition col_index :: "column list \<Rightarrow> string \<Rightarrow> nat option" where
  "col_index cols n = find_index (\<lambda>c. col_name c = n) cols"

definition describe_pk_columns :: "result_set \<Rightarrow> string list" where
  "describe_pk_columns d =
     (case (col_index (rs_columns d) ''name'', col_index (rs_columns d) ''pk'') of
        (Some ni, Some pi) \<Rightarrow>
          concat (map (\<lambda>row. case (cell_at row ni, cell_at row pi) of
             (Some name, Some cell) \<Rightarrow> if cell \<noteq> [] \<and> cell \<noteq> ''0'' then [name] else []
           | _ \<Rightarrow> []) (rs_rows d))
      | _ \<Rightarrow> [])"

definition is_editable :: "result_set \<Rightarrow> bool" where
  "is_editable d \<longleftrightarrow> length (describe_pk_columns d) > 0"

definition describe_column_names :: "result_set \<Rightarrow> string list" where
  "describe_column_names d =
     (case col_index (rs_columns d) ''name'' of None \<Rightarrow> []
      | Some ni \<Rightarrow> concat (map (\<lambda>row. case cell_at row ni of
           Some v \<Rightarrow> if v \<noteq> [] then [v] else [] | None \<Rightarrow> []) (rs_rows d)))"

definition describe_column_types :: "result_set \<Rightarrow> string obj" where
  "describe_column_types d =
     (case (col_index (rs_columns d) ''name'', col_index (rs_columns d) ''type'') of
        (Some ni, Some ti) \<Rightarrow>
          obj_of (concat (map (\<lambda>row. case (cell_at row ni, cell_at row ti) of
             (Some name, Some ty) \<Rightarrow> if name \<noteq> [] \<and> ty \<noteq> [] then [(name, ty)] else []
           | _ \<Rightarrow> []) (rs_rows d)))
      | _ \<Rightarrow> [])"

fun where_loop :: "column list \<Rightarrow> cell list \<Rightarrow> string list \<Rightarrow> cells \<Rightarrow> cells option" where
  "where_loop cols row [] w = Some w"
| "where_loop cols row (c # cs) w =
     (case col_index cols c of None \<Rightarrow> None
      | Some i \<Rightarrow> where_loop cols row cs (obj_set c (cell_at row i) w))"

definition where_for_row :: "column list \<Rightarrow> cell list \<Rightarrow> string list \<Rightarrow> cells option" where
  "where_for_row cols row pk = (if pk = [] then None else where_loop cols row pk [])"

text \<open>The WHERE map names every key column and only those, with the row's own values.\<close>

lemma where_loop_Some:
  "where_loop cols row pk w = Some w' \<Longrightarrow>
     fst ` set w' = fst ` set w \<union> set pk \<and> (wf_obj w \<longrightarrow> wf_obj w') \<and>
     (\<forall>c. map_of w' c = (if c \<in> set pk
        then map_option (cell_at row) (col_index cols c) else map_of w c)) \<and>
     (\<forall>c \<in> set pk. col_index cols c \<noteq> None)"
proof (induction cols row pk w rule: where_loop.induct)
  case (2 cols row c cs w)
  then obtain i where i: "col_index cols c = Some i"
    and r: "where_loop cols row cs (obj_set c (cell_at row i) w) = Some w'"
    by (auto split: option.splits)
  from 2(1) [OF i r]
  have IH: "fst ` set w' = insert c (fst ` set w) \<union> set cs"
    "wf_obj w \<longrightarrow> wf_obj w'"
    "\<forall>d. map_of w' d = (if d \<in> set cs then map_option (cell_at row) (col_index cols d)
         else ((map_of w)(c \<mapsto> cell_at row i)) d)"
    "\<forall>d \<in> set cs. col_index cols d \<noteq> None"
    by simp_all
  then show ?case using i by auto
qed auto

lemma where_for_row_Some:
  assumes "where_for_row cols row pk = Some w"
  shows "pk \<noteq> [] \<and> fst ` set w = set pk \<and> wf_obj w \<and>
    (\<forall>c \<in> set pk. map_of w c = map_option (cell_at row) (col_index cols c) \<and>
       col_index cols c \<noteq> None)"
proof -
  have "pk \<noteq> []" and l: "where_loop cols row pk [] = Some w"
    using assms by (auto simp: where_for_row_def split: if_splits)
  with where_loop_Some [OF l] show ?thesis by simp
qed

lemma where_loop_total:
  "\<forall>c \<in> set pk. col_index cols c \<noteq> None \<Longrightarrow> \<exists>w'. where_loop cols row pk w = Some w'"
  by (induction cols row pk w rule: where_loop.induct) auto

lemma where_for_row_total:
  "pk \<noteq> [] \<Longrightarrow> \<forall>c \<in> set pk. col_index cols c \<noteq> None \<Longrightarrow> \<exists>w. where_for_row cols row pk = Some w"
  by (simp add: where_for_row_def where_loop_total)

lemma col_index_Some:
  "col_index cols c = Some i \<Longrightarrow> i < length cols \<and> col_name (cols ! i) = c"
  using find_index_Some [of "\<lambda>x. col_name x = c" cols i] by (simp add: col_index_def)

lemma col_index_None: "col_index cols c = None \<longleftrightarrow> c \<notin> col_name ` set cols"
  by (auto simp: col_index_def find_index_None)

end
