(* ===== verification/EditSession.thy ===== *)
theory EditSession
  imports Results QueryTarget
begin

text \<open>
  The in-grid edit session (\<open>editSession.ts\<close>): the pending changes of a result set, the
  operations that record and drop them, and the plan of row operations they become. The
  reachable states of a session are an inductive set whose invariant every operation keeps;
  the recorded cell edits refine a partial map from cells to values.
\<close>

section \<open>State\<close>

datatype pk_mode = Generate | Keep

record edit_source =
  es_table :: string
  es_db :: "string option"
  es_schema :: "string option"
  es_pk :: "string list"

record pending =
  edits :: "cells num_obj"
  deletes :: "nat list"
  inserts :: "cells list"
  insert_batch :: "nat option list option"
  pk_modes :: "pk_mode num_obj option"
  empty_as_null :: "bool num_obj option"

datatype plan_item =
    Update cells cells "string obj option"      \<comment> \<open>set, where, setTypes\<close>
  | Delete cells                                \<comment> \<open>where\<close>
  | Insert cells "string obj option" "nat option"  \<comment> \<open>values, setTypes, insertIndex\<close>

datatype row_mark = Removed | Changed

definition row_change :: "pending \<Rightarrow> nat \<Rightarrow> row_mark option" where
  "row_change s r =
     (if r \<in> set (deletes s) then Some Removed
      else case map_of (edits s) r of
        None \<Rightarrow> None | Some e \<Rightarrow> if length (obj_keys e) > 0 then Some Changed else None)"

definition empty_pending :: pending where
  "empty_pending = \<lparr>edits = [], deletes = [], inserts = [], insert_batch = None,
     pk_modes = None, empty_as_null = None\<rparr>"

section \<open>Cell edits and deletions\<close>

definition set_cell :: "pending \<Rightarrow> nat \<Rightarrow> string \<Rightarrow> cell \<Rightarrow> pending" where
  "set_cell s r c v =
     (let row_edits = obj_set c v (case map_of (edits s) r of None \<Rightarrow> [] | Some e \<Rightarrow> e)
      in s\<lparr>edits := num_set r row_edits (edits s)\<rparr>)"

definition revert_cell :: "pending \<Rightarrow> nat \<Rightarrow> string \<Rightarrow> pending" where
  "revert_cell s r c =
     (case map_of (edits s) r of None \<Rightarrow> s
      | Some e \<Rightarrow> if \<not> has_key e c then s
          else let rest = obj_del c e in
            s\<lparr>edits := (if length (obj_keys rest) > 0 then num_set r rest (edits s)
                       else obj_del r (edits s))\<rparr>)"

definition revert_row :: "pending \<Rightarrow> nat \<Rightarrow> pending" where
  "revert_row s r =
     (if \<not> has_key (edits s) r \<and> r \<notin> set (deletes s) then s
      else s\<lparr>edits := obj_del r (edits s), deletes := filter (\<lambda>x. x \<noteq> r) (deletes s)\<rparr>)"

definition toggle_delete :: "pending \<Rightarrow> nat \<Rightarrow> pending" where
  "toggle_delete s r =
     s\<lparr>deletes := (if r \<in> set (deletes s) then filter (\<lambda>i. i \<noteq> r) (deletes s)
                   else deletes s @ [r])\<rparr>"

definition toggle_delete_rows :: "pending \<Rightarrow> nat list \<Rightarrow> pending" where
  "toggle_delete_rows s rows =
     (if rows = [] then s
      else s\<lparr>deletes :=
        (if list_all (\<lambda>r. r \<in> set (deletes s)) rows
         then filter (\<lambda>i. i \<notin> set rows) (deletes s)
         else deletes s @ filter (\<lambda>r. r \<notin> set (deletes s)) rows)\<rparr>)"

section \<open>Inserted rows and pasted batches\<close>

definition insert_batch_of :: "pending \<Rightarrow> nat \<Rightarrow> nat option" where
  "insert_batch_of s i =
     (case insert_batch s of None \<Rightarrow> None
      | Some bs \<Rightarrow> if i < length bs then bs ! i else None)"

definition batches_of :: "pending \<Rightarrow> nat option list" where
  "batches_of s = map (insert_batch_of s) [0..<length (inserts s)]"

definition add_insert :: "pending \<Rightarrow> pending" where
  "add_insert s =
     s\<lparr>inserts := inserts s @ [[]],
       insert_batch := (case insert_batch s of None \<Rightarrow> None
         | Some _ \<Rightarrow> Some (batches_of s @ [None]))\<rparr>"

definition next_batch :: "pk_mode num_obj \<Rightarrow> nat" where
  "next_batch modes = fold (\<lambda>k m. max m (k + 1)) (obj_keys modes) 0"

definition add_inserts ::
    "pending \<Rightarrow> cells list \<Rightarrow> pk_mode \<Rightarrow> bool option \<Rightarrow> pending" where
  "add_inserts s rows mode ean =
     (let modes = (case pk_modes s of None \<Rightarrow> [] | Some m \<Rightarrow> m);
          batch = next_batch modes
      in s\<lparr>inserts := inserts s @ rows,
           insert_batch := Some (batches_of s @ map (\<lambda>_. Some batch) rows),
           pk_modes := Some (num_set batch mode modes),
           empty_as_null := (case ean of None \<Rightarrow> empty_as_null s
             | Some b \<Rightarrow> Some (num_set batch b
                 (case empty_as_null s of None \<Rightarrow> [] | Some m \<Rightarrow> m)))\<rparr>)"

definition batch_flag :: "pending \<Rightarrow> nat \<Rightarrow> bool option" where
  "batch_flag s b = (case empty_as_null s of None \<Rightarrow> None | Some m \<Rightarrow> map_of m b)"

definition flip_cell :: "bool \<Rightarrow> cell \<Rightarrow> cell" where
  "flip_cell on v =
     (if on then (if v = Some [] then None else v)
      else (case v of None \<Rightarrow> Some [] | Some x \<Rightarrow> Some x))"

definition set_batch_empty_as_null :: "pending \<Rightarrow> nat \<Rightarrow> bool \<Rightarrow> pending" where
  "set_batch_empty_as_null s batch on =
     (case batch_flag s batch of None \<Rightarrow> s
      | Some cur \<Rightarrow> if cur = on then s
          else s\<lparr>inserts := map (\<lambda>(i, row). if insert_batch_of s i \<noteq> Some batch then row
                     else map (\<lambda>(k, v). (k, flip_cell on v)) row) (index_list (inserts s)),
                 empty_as_null := Some (num_set batch on
                   (case empty_as_null s of None \<Rightarrow> [] | Some m \<Rightarrow> m))\<rparr>)"

definition filter_index :: "(nat \<Rightarrow> bool) \<Rightarrow> 'a list \<Rightarrow> 'a list" where
  "filter_index P xs = map snd (filter (\<lambda>(i, x). P i) (index_list xs))"

definition remove_batch :: "pending \<Rightarrow> nat \<Rightarrow> pending" where
  "remove_batch s batch =
     s\<lparr>inserts := filter_index (\<lambda>i. insert_batch_of s i \<noteq> Some batch) (inserts s),
       insert_batch := Some (filter_index (\<lambda>i. insert_batch_of s i \<noteq> Some batch) (batches_of s))\<rparr>"

fun last_batch_from :: "pending \<Rightarrow> nat \<Rightarrow> nat option" where
  "last_batch_from s 0 = None"
| "last_batch_from s (Suc i) =
     (case insert_batch_of s i of Some b \<Rightarrow> Some b | None \<Rightarrow> last_batch_from s i)"

definition last_batch :: "pending \<Rightarrow> nat option" where
  "last_batch s = last_batch_from s (length (inserts s))"

definition pk_mode_of :: "pending \<Rightarrow> nat \<Rightarrow> pk_mode" where
  "pk_mode_of s i =
     (case insert_batch_of s i of None \<Rightarrow> Keep
      | Some b \<Rightarrow> (case pk_modes s of None \<Rightarrow> Keep
          | Some m \<Rightarrow> (case map_of m b of None \<Rightarrow> Keep | Some x \<Rightarrow> x)))"

definition set_pk_mode :: "pending \<Rightarrow> nat \<Rightarrow> pk_mode \<Rightarrow> pending" where
  "set_pk_mode s batch mode =
     s\<lparr>pk_modes := Some (num_set batch mode (case pk_modes s of None \<Rightarrow> [] | Some m \<Rightarrow> m))\<rparr>"

definition set_insert_cell :: "pending \<Rightarrow> nat \<Rightarrow> string \<Rightarrow> cell \<Rightarrow> pending" where
  "set_insert_cell s n c v =
     s\<lparr>inserts := map (\<lambda>(i, row). if i = n then obj_set c v row else row) (index_list (inserts s))\<rparr>"

definition remove_insert :: "pending \<Rightarrow> nat \<Rightarrow> pending" where
  "remove_insert s n =
     s\<lparr>inserts := filter_index (\<lambda>i. i \<noteq> n) (inserts s),
       insert_batch := (case insert_batch s of None \<Rightarrow> None
         | Some _ \<Rightarrow> Some (filter_index (\<lambda>i. i \<noteq> n) (batches_of s)))\<rparr>"

section \<open>Counting\<close>

definition has_changes :: "pending \<Rightarrow> bool" where
  "has_changes s \<longleftrightarrow> length (deletes s) > 0 \<or> length (inserts s) > 0 \<or>
     list_ex (\<lambda>(r, e). length (obj_keys e) > 0) (edits s)"

definition edited_rows :: "pending \<Rightarrow> nat" where
  "edited_rows s =
     length (filter (\<lambda>(r, e). length (obj_keys e) > 0 \<and> r \<notin> set (deletes s)) (edits s))"

record kind_counts =
  ck_changed :: nat
  ck_added :: nat
  ck_removed :: nat

definition change_kinds :: "pending \<Rightarrow> kind_counts" where
  "change_kinds s = \<lparr>ck_changed = edited_rows s, ck_added = length (inserts s),
     ck_removed = length (deletes s)\<rparr>"

definition change_count :: "pending \<Rightarrow> nat" where
  "change_count s = edited_rows s + length (deletes s) + length (inserts s)"

section \<open>The plan\<close>

definition types_for :: "column list \<Rightarrow> string list \<Rightarrow> string obj" where
  "types_for cols keys =
     (let col_type = obj_of (map (\<lambda>c. (col_name c, col_type c)) cols)
      in obj_of (concat (map (\<lambda>k. case map_of col_type k of None \<Rightarrow> [] | Some ty \<Rightarrow> [(k, ty)]) keys)))"

definition row_where :: "edit_source \<Rightarrow> column list \<Rightarrow> cell list list \<Rightarrow> nat \<Rightarrow> cells option" where
  "row_where src cols rows idx =
     (if idx < length rows then where_for_row cols (rows ! idx) (es_pk src) else None)"

definition plan_updates ::
    "edit_source \<Rightarrow> column list \<Rightarrow> cell list list \<Rightarrow> pending \<Rightarrow> plan_item list" where
  "plan_updates src cols rows s =
     concat (map (\<lambda>(idx, sets). if idx \<in> set (deletes s) \<or> length (obj_keys sets) = 0 then []
        else case row_where src cols rows idx of None \<Rightarrow> []
          | Some w \<Rightarrow> [Update sets w (Some (types_for cols (obj_keys sets)))]) (edits s))"

definition plan_deletes ::
    "edit_source \<Rightarrow> column list \<Rightarrow> cell list list \<Rightarrow> pending \<Rightarrow> plan_item list" where
  "plan_deletes src cols rows s =
     concat (map (\<lambda>idx. case row_where src cols rows idx of None \<Rightarrow> [] | Some w \<Rightarrow> [Delete w])
       (deletes s))"

definition insert_values :: "edit_source \<Rightarrow> pending \<Rightarrow> nat \<Rightarrow> cells \<Rightarrow> cells" where
  "insert_values src s i row =
     (if pk_mode_of s i = Generate
      then filter (\<lambda>(k, v). to_lower k \<notin> set (map to_lower (es_pk src))) row
      else row)"

definition plan_inserts :: "edit_source \<Rightarrow> column list \<Rightarrow> pending \<Rightarrow> plan_item list" where
  "plan_inserts src cols s =
     concat (map (\<lambda>(i, row). let values = insert_values src s i row in
        if length (obj_keys values) > 0
        then [Insert values (Some (types_for cols (obj_keys values))) (Some i)] else [])
       (index_list (inserts s)))"

definition build_plan ::
    "edit_source \<Rightarrow> column list \<Rightarrow> cell list list \<Rightarrow> pending \<Rightarrow> plan_item list" where
  "build_plan src cols rows s =
     plan_updates src cols rows s @ plan_deletes src cols rows s @ plan_inserts src cols s"

section \<open>Whether a result can be edited by its key\<close>

text \<open>\<open>editablePk\<close> of \<open>queryTarget.ts\<close>: each key column as the result spells it.\<close>

fun pk_columns :: "column list \<Rightarrow> string list \<Rightarrow> (edit_block, string list) result" where
  "pk_columns cols [] = Inr []"
| "pk_columns cols (k # ks) =
     (case (case List.find (\<lambda>c. col_name c = k) cols of Some c \<Rightarrow> Some c
            | None \<Rightarrow> List.find (\<lambda>c. to_lower (col_name c) = to_lower k) cols) of
        None \<Rightarrow> Inl BPkNotProjected
      | Some c \<Rightarrow> (case pk_columns cols ks of Inl e \<Rightarrow> Inl e | Inr ns \<Rightarrow> Inr (col_name c # ns)))"

definition editable_pk :: "result_set \<Rightarrow> column list \<Rightarrow> (edit_block, string list) result" where
  "editable_pk d cols =
     (if rs_rows d = [] then Inl BNoTable
      else if describe_pk_columns d = [] then Inl BNoPk
      else pk_columns cols (describe_pk_columns d))"


section \<open>The session as a state machine\<close>

inductive pending_step :: "pending \<Rightarrow> pending \<Rightarrow> bool" where
  st_set_cell: "pending_step s (set_cell s r c v)"
| st_revert_cell: "pending_step s (revert_cell s r c)"
| st_revert_row: "pending_step s (revert_row s r)"
| st_toggle: "pending_step s (toggle_delete s r)"
| st_toggle_rows: "distinct rows \<Longrightarrow> pending_step s (toggle_delete_rows s rows)"
| st_add: "pending_step s (add_insert s)"
| st_adds: "\<forall>r \<in> set rows. wf_obj r \<Longrightarrow> pending_step s (add_inserts s rows mode ean)"
| st_ean: "pending_step s (set_batch_empty_as_null s b on)"
| st_remove_batch: "pending_step s (remove_batch s b)"
| st_pk_mode: "pending_step s (set_pk_mode s b mode)"
| st_insert_cell: "pending_step s (set_insert_cell s n c v)"
| st_remove: "pending_step s (remove_insert s n)"

inductive reachable_pending :: "pending \<Rightarrow> bool" where
  reach_empty: "reachable_pending empty_pending"
| reach_step: "reachable_pending s \<Longrightarrow> pending_step s t \<Longrightarrow> reachable_pending t"

definition wf_edits :: "pending \<Rightarrow> bool" where
  "wf_edits s \<longleftrightarrow> wf_num (edits s) \<and> (\<forall>(r, e) \<in> set (edits s). e \<noteq> [] \<and> wf_obj e) \<and>
     distinct (deletes s)"

definition modes_of :: "pending \<Rightarrow> pk_mode num_obj" where
  "modes_of s = (case pk_modes s of None \<Rightarrow> [] | Some m \<Rightarrow> m)"

definition has_mode :: "pending \<Rightarrow> nat \<Rightarrow> bool" where
  "has_mode s b \<longleftrightarrow> has_key (modes_of s) b"

definition wf_batches :: "pending \<Rightarrow> bool" where
  "wf_batches s \<longleftrightarrow> (\<forall>bs. insert_batch s = Some bs \<longrightarrow>
     length bs = length (inserts s) \<and> (\<forall>b. Some b \<in> set bs \<longrightarrow> has_mode s b))"

lemmas batch_defs = wf_batches_def has_mode_def modes_of_def

definition wf_inserts :: "pending \<Rightarrow> bool" where
  "wf_inserts s \<longleftrightarrow> (\<forall>r \<in> set (inserts s). wf_obj r) \<and> wf_batches s"

definition wf_pending :: "pending \<Rightarrow> bool" where
  "wf_pending s \<longleftrightarrow> wf_edits s \<and> wf_inserts s"

lemma obj_set_not_Nil [simp]: "obj_set k v ob \<noteq> []"
  using set_keys_obj_set [of k v ob] by (metis empty_iff image_empty insertI1 list.set(1))

lemma obj_set_not_Nil' [simp]: "[] \<noteq> obj_set k v ob"
  by (metis obj_set_not_Nil)

lemma num_set_mem: "(r, e) \<in> set (num_set k v ob) \<Longrightarrow> (r, e) = (k, v) \<or> (r, e) \<in> set ob"
  by (induction k v ob rule: num_set.induct) (auto split: if_splits)

lemma obj_del_mem: "x \<in> set (obj_del k ob) \<Longrightarrow> x \<in> set ob"
  by (auto simp: obj_del_def)

lemma wf_edits_num_set:
  assumes "wf_edits s" and "e \<noteq> []" and "wf_obj e"
  shows "wf_edits (s\<lparr>edits := num_set r e (edits s)\<rparr>)"
  using assms by (fastforce simp: wf_edits_def dest: num_set_mem)

lemma wf_edits_obj_del: "wf_edits s \<Longrightarrow> wf_edits (s\<lparr>edits := obj_del r (edits s)\<rparr>)"
  by (fastforce simp: wf_edits_def dest: obj_del_mem)

lemma wf_edits_row: "wf_edits s \<Longrightarrow> map_of (edits s) r = Some e \<Longrightarrow> wf_obj e \<and> e \<noteq> []"
  by (auto simp: wf_edits_def dest!: map_of_SomeD)

lemma wf_edits_set_cell: "wf_edits s \<Longrightarrow> wf_edits (set_cell s r c v)"
  unfolding set_cell_def Let_def
  by (rule wf_edits_num_set) (auto split: option.splits dest: wf_edits_row)

lemma wf_edits_revert_cell: "wf_edits s \<Longrightarrow> wf_edits (revert_cell s r c)"
  unfolding revert_cell_def Let_def
  by (auto split: option.splits simp: obj_keys_def wf_edits_obj_del
      intro!: wf_edits_num_set dest: wf_edits_row)

lemma wf_edits_revert_row: "wf_edits s \<Longrightarrow> wf_edits (revert_row s r)"
  by (fastforce simp: wf_edits_def revert_row_def dest: obj_del_mem)

lemma wf_edits_toggle: "wf_edits s \<Longrightarrow> wf_edits (toggle_delete s r)"
  by (auto simp: wf_edits_def toggle_delete_def)

lemma wf_edits_toggle_rows: "wf_edits s \<Longrightarrow> distinct rows \<Longrightarrow> wf_edits (toggle_delete_rows s rows)"
  by (auto simp: wf_edits_def toggle_delete_rows_def)

lemma length_batches_of [simp]: "length (batches_of s) = length (inserts s)"
  by (simp add: batches_of_def)

lemma batches_of_mem: "Some b \<in> set (batches_of s) \<Longrightarrow> \<exists>bs. insert_batch s = Some bs \<and> Some b \<in> set bs"
  by (auto simp: batches_of_def insert_batch_of_def split: option.splits if_splits)

lemma filter_index_sub: "set (filter_index P xs) \<subseteq> set xs"
proof
  fix x assume "x \<in> set (filter_index P xs)"
  then obtain i where "(i, x) \<in> set (index_list xs)" by (auto simp: filter_index_def)
  then show "x \<in> set xs" by (auto simp: set_index_list)
qed

lemma filter_index_mem: "x \<in> set (filter_index P xs) \<Longrightarrow> x \<in> set xs"
  using filter_index_sub by (rule subsetD)

lemma map_fst_index_list [simp]: "map fst (index_list xs) = [0..<length xs]"
  by (simp add: index_list_def)

lemma length_filter_index:
  "length (filter_index P xs) = length (filter P [0..<length xs])"
proof -
  have "map fst (filter (\<lambda>(i, x). P i) ys) = filter P (map fst ys)" for ys :: "(nat \<times> 'a) list"
    by (induction ys) auto
  from this [of "index_list xs"] show ?thesis
    by (metis filter_index_def length_map map_fst_index_list)
qed

lemma length_filter_index_eq:
  "length xs = length ys \<Longrightarrow> length (filter_index P xs) = length (filter_index P ys)"
  by (simp add: length_filter_index)

lemma has_key_num_set [simp]: "has_key (num_set k v m) b \<longleftrightarrow> b = k \<or> has_key m b"
  by (simp add: has_key_def)

lemma wf_inserts_batch:
  "wf_inserts s \<Longrightarrow> Some b \<in> set (batches_of s) \<Longrightarrow> has_mode s b"
  using batches_of_mem by (fastforce simp: wf_inserts_def wf_batches_def)

lemma wf_batchesI:
  "length bs = length (inserts s) \<Longrightarrow> insert_batch s = Some bs \<Longrightarrow>
     (\<And>b. Some b \<in> set bs \<Longrightarrow> has_mode s b) \<Longrightarrow> wf_batches s"
  by (simp add: wf_batches_def)

lemma wf_inserts_add: "wf_inserts s \<Longrightarrow> wf_inserts (add_insert s)"
  using wf_inserts_batch [of s]
  by (auto simp: wf_inserts_def batch_defs add_insert_def split: option.splits)

lemma wf_inserts_adds:
  assumes w: "wf_inserts s" and r: "\<forall>r \<in> set rows. wf_obj r"
  shows "wf_inserts (add_inserts s rows mode ean)"
proof -
  have "Some b \<in> set (batches_of s) \<Longrightarrow> has_mode s b" for b
    using wf_inserts_batch [OF w] by blast
  then have "Some b \<in> set (batches_of s) \<Longrightarrow> has_mode (add_inserts s rows mode ean) b" for b
    by (auto simp: has_mode_def modes_of_def add_inserts_def Let_def)
  moreover have "has_mode (add_inserts s rows mode ean) (next_batch (modes_of s))"
    by (simp add: has_mode_def modes_of_def add_inserts_def Let_def)
  ultimately show ?thesis
    using w r by (auto simp: wf_inserts_def wf_batches_def add_inserts_def modes_of_def Let_def)
qed

lemma wf_inserts_ean: "wf_inserts s \<Longrightarrow> wf_inserts (set_batch_empty_as_null s b on)"
proof -
  have "map (\<lambda>(k, v). fst (k, flip_cell on v)) row = map fst row" for row :: cells
    by (simp add: case_prod_beta)
  then have "wf_obj row \<Longrightarrow> wf_obj (map (\<lambda>(k, v). (k, flip_cell on v)) row)" for row :: cells
    by (simp add: wf_obj_def case_prod_beta comp_def)
  moreover assume "wf_inserts s"
  ultimately show ?thesis
    by (auto simp: wf_inserts_def batch_defs set_batch_empty_as_null_def index_list_def
        split: option.splits dest!: set_zip_rightD)
qed

lemma wf_inserts_remove_batch: "wf_inserts s \<Longrightarrow> wf_inserts (remove_batch s b)"
proof -
  assume w: "wf_inserts s"
  let ?P = "\<lambda>i. insert_batch_of s i \<noteq> Some b"
  have "length (filter_index ?P (batches_of s)) = length (filter_index ?P (inserts s))"
    by (rule length_filter_index_eq) simp
  moreover have "Some c \<in> set (filter_index ?P (batches_of s)) \<Longrightarrow>
      has_mode s c" for c
    by (rule wf_inserts_batch [OF w]) (rule filter_index_mem)
  moreover have "\<forall>r \<in> set (filter_index ?P (inserts s)). wf_obj r"
    using w by (auto simp: wf_inserts_def dest!: filter_index_mem)
  ultimately show ?thesis by (simp add: wf_inserts_def batch_defs remove_batch_def)
qed

lemma wf_inserts_pk_mode: "wf_inserts s \<Longrightarrow> wf_inserts (set_pk_mode s b mode)"
  by (auto simp: wf_inserts_def batch_defs set_pk_mode_def split: option.splits)

lemma wf_inserts_cell: "wf_inserts s \<Longrightarrow> wf_inserts (set_insert_cell s n c v)"
  by (auto simp: wf_inserts_def batch_defs set_insert_cell_def index_list_def
      dest!: set_zip_rightD)

lemma wf_inserts_remove: "wf_inserts s \<Longrightarrow> wf_inserts (remove_insert s n)"
proof -
  assume w: "wf_inserts s"
  let ?P = "\<lambda>i. i \<noteq> n"
  have "length (filter_index ?P (batches_of s)) = length (filter_index ?P (inserts s))"
    by (rule length_filter_index_eq) simp
  moreover have "Some c \<in> set (filter_index ?P (batches_of s)) \<Longrightarrow>
      has_mode s c" for c
    by (rule wf_inserts_batch [OF w]) (rule filter_index_mem)
  moreover have "\<forall>r \<in> set (filter_index ?P (inserts s)). wf_obj r"
    using w by (auto simp: wf_inserts_def dest!: filter_index_mem)
  ultimately show ?thesis
    by (simp add: wf_inserts_def batch_defs remove_insert_def split: option.splits)
qed

lemmas wf_edits_ops = wf_edits_set_cell wf_edits_revert_cell wf_edits_revert_row
  wf_edits_toggle wf_edits_toggle_rows
lemmas wf_inserts_ops = wf_inserts_add wf_inserts_adds wf_inserts_ean wf_inserts_remove_batch
  wf_inserts_pk_mode wf_inserts_cell wf_inserts_remove

text \<open>An operation on one half of the state leaves the other as it is.\<close>

lemma edits_unchanged:
  "edits (add_insert s) = edits s" "edits (add_inserts s rows mode ean) = edits s"
  "edits (set_batch_empty_as_null s b on) = edits s" "edits (remove_batch s b) = edits s"
  "edits (set_pk_mode s b mode) = edits s" "edits (set_insert_cell s n c v) = edits s"
  "edits (remove_insert s n) = edits s"
  "deletes (add_insert s) = deletes s" "deletes (add_inserts s rows mode ean) = deletes s"
  "deletes (set_batch_empty_as_null s b on) = deletes s" "deletes (remove_batch s b) = deletes s"
  "deletes (set_pk_mode s b mode) = deletes s" "deletes (set_insert_cell s n c v) = deletes s"
  "deletes (remove_insert s n) = deletes s"
  by (simp_all add: add_insert_def add_inserts_def set_batch_empty_as_null_def remove_batch_def
      set_pk_mode_def set_insert_cell_def remove_insert_def Let_def split: option.splits)

lemma inserts_unchanged:
  "inserts (set_cell s r c v) = inserts s" "inserts (revert_cell s r c) = inserts s"
  "inserts (revert_row s r) = inserts s" "inserts (toggle_delete s r) = inserts s"
  "inserts (toggle_delete_rows s rows) = inserts s"
  "insert_batch (set_cell s r c v) = insert_batch s" "insert_batch (revert_cell s r c) = insert_batch s"
  "insert_batch (revert_row s r) = insert_batch s" "insert_batch (toggle_delete s r) = insert_batch s"
  "insert_batch (toggle_delete_rows s rows) = insert_batch s"
  "pk_modes (set_cell s r c v) = pk_modes s" "pk_modes (revert_cell s r c) = pk_modes s"
  "pk_modes (revert_row s r) = pk_modes s" "pk_modes (toggle_delete s r) = pk_modes s"
  "pk_modes (toggle_delete_rows s rows) = pk_modes s"
  by (simp_all add: set_cell_def revert_cell_def revert_row_def toggle_delete_def
      toggle_delete_rows_def Let_def split: option.splits)

lemma wf_edits_cong: "edits t = edits s \<Longrightarrow> deletes t = deletes s \<Longrightarrow> wf_edits t = wf_edits s"
  by (simp add: wf_edits_def)

lemma wf_inserts_cong:
  "inserts t = inserts s \<Longrightarrow> insert_batch t = insert_batch s \<Longrightarrow> pk_modes t = pk_modes s \<Longrightarrow>
     wf_inserts t = wf_inserts s"
  by (simp add: wf_inserts_def batch_defs)

lemma pending_step_wf: "pending_step s t \<Longrightarrow> wf_pending s \<Longrightarrow> wf_pending t"
  unfolding wf_pending_def
  by (induction rule: pending_step.induct)
     (auto intro: wf_edits_ops wf_inserts_ops
        simp: wf_edits_cong [OF edits_unchanged(1) edits_unchanged(8)]
          wf_edits_cong [OF edits_unchanged(2) edits_unchanged(9)]
          wf_edits_cong [OF edits_unchanged(3) edits_unchanged(10)]
          wf_edits_cong [OF edits_unchanged(4) edits_unchanged(11)]
          wf_edits_cong [OF edits_unchanged(5) edits_unchanged(12)]
          wf_edits_cong [OF edits_unchanged(6) edits_unchanged(13)]
          wf_edits_cong [OF edits_unchanged(7) edits_unchanged(14)]
          wf_inserts_cong [OF inserts_unchanged(1) inserts_unchanged(6) inserts_unchanged(11)]
          wf_inserts_cong [OF inserts_unchanged(2) inserts_unchanged(7) inserts_unchanged(12)]
          wf_inserts_cong [OF inserts_unchanged(3) inserts_unchanged(8) inserts_unchanged(13)]
          wf_inserts_cong [OF inserts_unchanged(4) inserts_unchanged(9) inserts_unchanged(14)]
          wf_inserts_cong [OF inserts_unchanged(5) inserts_unchanged(10) inserts_unchanged(15)])

lemma reachable_wf: "reachable_pending s \<Longrightarrow> wf_pending s"
proof (induction rule: reachable_pending.induct)
  case reach_empty
  show ?case by (simp add: wf_pending_def wf_edits_def wf_inserts_def wf_batches_def empty_pending_def)
qed (rule pending_step_wf)


section \<open>The edits refine a partial map\<close>

definition cell_view :: "pending \<Rightarrow> nat \<times> string \<Rightarrow> cell option" where
  "cell_view s p = (case map_of (edits s) (fst p) of None \<Rightarrow> None | Some e \<Rightarrow> map_of e (snd p))"

lemma map_of_num_or_del:
  "map_of (if P then num_set r e m else obj_del r m) =
     (map_of m)(r := if P then Some e else None)"
  by (simp add: fun_upd_def)

lemma cell_view_set_cell: "cell_view (set_cell s r c v) = (cell_view s)((r, c) \<mapsto> v)"
  by (auto simp: cell_view_def set_cell_def Let_def fun_eq_iff split: option.splits)

lemma has_key_None: "\<not> has_key e c \<longleftrightarrow> map_of e c = None"
  by (simp add: has_key_map_of)

lemma cell_view_revert_cell: "cell_view (revert_cell s r c) = (cell_view s)((r, c) := None)"
proof (cases "map_of (edits s) r")
  case None
  then show ?thesis by (auto simp: cell_view_def revert_cell_def fun_eq_iff)
next
  case (Some e)
  show ?thesis
  proof (cases "has_key e c")
    case False
    with Some show ?thesis
      by (auto simp: cell_view_def revert_cell_def fun_eq_iff has_key_None)
  next
    case True
    have "obj_del c e = [] \<Longrightarrow> d \<noteq> c \<Longrightarrow> map_of e d = None" for d
      using map_of_obj_del [of c e] by (metis fun_upd_apply map_of.simps(1))
    with Some True show ?thesis
      by (auto simp: cell_view_def revert_cell_def fun_eq_iff Let_def obj_keys_def)
  qed
qed

lemma cell_view_revert_row:
  "cell_view (revert_row s r) = (\<lambda>p. if fst p = r then None else cell_view s p)"
  by (auto simp: cell_view_def revert_row_def fun_eq_iff has_key_None)

lemma row_change_Changed:
  assumes "wf_edits s"
  shows "row_change s r = Some Changed \<longleftrightarrow>
    r \<notin> set (deletes s) \<and> (\<exists>c v. cell_view s (r, c) = Some v)"
proof (cases "map_of (edits s) r")
  case None
  then show ?thesis by (simp add: row_change_def cell_view_def)
next
  case (Some e)
  then have "e \<noteq> []" using assms wf_edits_row by blast
  then obtain c v e' where "e = (c, v) # e'" by (metis list.exhaust prod.exhaust)
  then have "map_of e c = Some v" by simp
  with Some \<open>e \<noteq> []\<close> show ?thesis
    by (auto simp: row_change_def cell_view_def obj_keys_def split: if_splits)
qed

section \<open>What a plan does\<close>

text \<open>\<open>addresses src cols row w\<close>: the WHERE map \<open>w\<close> is the whole primary key of \<open>row\<close>.\<close>

definition addresses :: "edit_source \<Rightarrow> column list \<Rightarrow> cell list \<Rightarrow> cells \<Rightarrow> bool" where
  "addresses src cols row w \<longleftrightarrow>
     es_pk src \<noteq> [] \<and> fst ` set w = set (es_pk src) \<and>
     (\<forall>c \<in> set (es_pk src). \<exists>i < length cols. col_name (cols ! i) = c \<and>
        map_of w c = Some (cell_at row i))"

lemma row_where_Some:
  assumes "row_where src cols rows r = Some w"
  shows "r < length rows \<and> addresses src cols (rows ! r) w"
proof -
  have r: "r < length rows" and w: "where_for_row cols (rows ! r) (es_pk src) = Some w"
    using assms by (auto simp: row_where_def split: if_splits)
  have k: "es_pk src \<noteq> []" "fst ` set w = set (es_pk src)"
    "\<forall>c \<in> set (es_pk src). map_of w c = map_option (cell_at (rows ! r)) (col_index cols c) \<and>
       col_index cols c \<noteq> None"
    using where_for_row_Some [OF w] by auto
  have "\<exists>i < length cols. col_name (cols ! i) = c \<and> map_of w c = Some (cell_at (rows ! r) i)"
    if c: "c \<in> set (es_pk src)" for c
  proof -
    obtain i where "col_index cols c = Some i" using k(3) c by auto
    with k(3) c col_index_Some [OF this] show ?thesis by auto
  qed
  with k r show ?thesis by (simp add: addresses_def)
qed

lemma plan_updates_mem:
  "it \<in> set (plan_updates src cols rows s) \<longleftrightarrow>
     (\<exists>r e w. it = Update e w (Some (types_for cols (obj_keys e))) \<and> (r, e) \<in> set (edits s) \<and>
        e \<noteq> [] \<and> r \<notin> set (deletes s) \<and> row_where src cols rows r = Some w)"
  by (force simp: plan_updates_def obj_keys_def split: option.splits if_splits)

lemma plan_deletes_mem:
  "it \<in> set (plan_deletes src cols rows s) \<longleftrightarrow>
     (\<exists>r w. it = Delete w \<and> r \<in> set (deletes s) \<and> row_where src cols rows r = Some w)"
  by (force simp: plan_deletes_def split: option.splits)

lemma plan_inserts_mem:
  "it \<in> set (plan_inserts src cols s) \<longleftrightarrow>
     (\<exists>i < length (inserts s). let v = insert_values src s i (inserts s ! i) in v \<noteq> [] \<and>
        it = Insert v (Some (types_for cols (obj_keys v))) (Some i))"
  by (fastforce simp: plan_inserts_def Let_def obj_keys_def set_index_list split: if_splits)

lemma length_concat_le:
  "(\<And>x. x \<in> set xs \<Longrightarrow> length (f x) \<le> 1) \<Longrightarrow> length (concat (map f xs)) \<le> length xs"
proof (induction xs)
  case (Cons x xs)
  then have "length (f x) \<le> 1" "length (concat (map f xs)) \<le> length xs" by simp_all
  then show ?case by simp
qed simp

lemma concat_map_filter:
  "(\<And>x. x \<in> set xs \<Longrightarrow> g x = (if P x then f x else [])) \<Longrightarrow>
     concat (map g xs) = concat (map f (filter P xs))"
  by (induction xs) auto

lemma sorted_map_const: "\<forall>x \<in> set xs. f x = (k :: nat) \<Longrightarrow> sorted (map f xs)"
  by (induction xs) auto

lemma length_plan_updates: "length (plan_updates src cols rows s) \<le> edited_rows s"
proof -
  let ?P = "\<lambda>(r, e). length (obj_keys e) > 0 \<and> r \<notin> set (deletes s)"
  let ?f = "\<lambda>(r, e). case row_where src cols rows r of None \<Rightarrow> []
    | Some w \<Rightarrow> [Update e w (Some (types_for cols (obj_keys e)))]"
  have "plan_updates src cols rows s = concat (map ?f (filter ?P (edits s)))"
    unfolding plan_updates_def by (rule concat_map_filter) (auto split: prod.splits)
  also have "length \<dots> \<le> length (filter ?P (edits s))"
    by (rule length_concat_le) (auto split: option.splits)
  finally show ?thesis by (simp add: edited_rows_def)
qed

lemma length_plan: "length (build_plan src cols rows s) \<le> change_count s"
proof -
  have "length (plan_deletes src cols rows s) \<le> length (deletes s)"
    unfolding plan_deletes_def by (rule length_concat_le) (auto split: option.splits)
  moreover have "length (plan_inserts src cols s) \<le> length (index_list (inserts s))"
    unfolding plan_inserts_def by (rule length_concat_le) (auto simp: Let_def)
  ultimately show ?thesis
    using length_plan_updates [of src cols rows s]
    by (simp add: build_plan_def change_count_def index_list_def)
qed

text \<open>The kinds of a plan in order: updates, then deletes, then inserts.\<close>

fun plan_rank :: "plan_item \<Rightarrow> nat" where
  "plan_rank (Update _ _ _) = 0"
| "plan_rank (Delete _) = 1"
| "plan_rank (Insert _ _ _) = 2"

lemma plan_order: "sorted (map plan_rank (build_plan src cols rows s))"
proof -
  have "\<forall>it \<in> set (plan_updates src cols rows s). plan_rank it = 0"
    "\<forall>it \<in> set (plan_deletes src cols rows s). plan_rank it = 1"
    "\<forall>it \<in> set (plan_inserts src cols s). plan_rank it = 2"
    by (auto simp: plan_updates_mem plan_deletes_mem plan_inserts_mem Let_def)
  then show ?thesis
    by (auto simp: build_plan_def sorted_append intro: sorted_map_const)
qed

section \<open>Flipping a pasted batch\<close>

definition batch_cells :: "pending \<Rightarrow> nat \<Rightarrow> cell set" where
  "batch_cells s b = {v. \<exists>i k. i < length (inserts s) \<and> insert_batch_of s i = Some b \<and>
     (k, v) \<in> set (inserts s ! i)}"

lemma insert_batch_of_ean [simp]:
  "insert_batch_of (set_batch_empty_as_null s b on) i = insert_batch_of s i"
  by (simp add: insert_batch_of_def set_batch_empty_as_null_def split: option.splits)

lemma length_inserts_ean [simp]:
  "length (inserts (set_batch_empty_as_null s b on)) = length (inserts s)"
  by (simp add: set_batch_empty_as_null_def index_list_def split: option.splits)

lemma nth_index_list: "i < length xs \<Longrightarrow> index_list xs ! i = (i, xs ! i)"
  by (simp add: index_list_def)

lemma length_index_list [simp]: "length (index_list xs) = length xs"
  by (simp add: index_list_def)

lemma inserts_ean_nth:
  assumes "batch_flag s b = Some (\<not> on)" and "i < length (inserts s)"
  shows "inserts (set_batch_empty_as_null s b on) ! i =
     (if insert_batch_of s i = Some b then map (\<lambda>(k, v). (k, flip_cell on v)) (inserts s ! i)
      else inserts s ! i)"
  using assms by (simp add: set_batch_empty_as_null_def nth_index_list)

lemma batch_flag_ean:
  "batch_flag s b = Some x \<Longrightarrow> batch_flag (set_batch_empty_as_null s b on) b = Some on"
  by (auto simp: batch_flag_def set_batch_empty_as_null_def split: option.splits)

lemma flip_flip:
  "v \<noteq> (if on then Some [] else None) \<Longrightarrow> flip_cell on (flip_cell (\<not> on) v) = v"
  by (cases on) (auto simp: flip_cell_def split: option.splits)

lemma ean_flip_back:
  assumes "batch_flag s b = Some on"
    and "(if on then Some [] else None) \<notin> batch_cells s b"
  shows "inserts (set_batch_empty_as_null (set_batch_empty_as_null s b (\<not> on)) b on) = inserts s"
proof (rule nth_equalityI)
  fix i assume "i < length (inserts (set_batch_empty_as_null (set_batch_empty_as_null s b (\<not> on)) b on))"
  then have i: "i < length (inserts s)" by simp
  have "insert_batch_of s i = Some b \<Longrightarrow> (k, v) \<in> set (inserts s ! i) \<Longrightarrow>
      flip_cell on (flip_cell (\<not> on) v) = v" for k v
  proof (rule flip_flip)
    assume "insert_batch_of s i = Some b" "(k, v) \<in> set (inserts s ! i)"
    then have "v \<in> batch_cells s b" using i by (auto simp: batch_cells_def)
    then show "v \<noteq> (if on then Some [] else None)" using assms(2) by metis
  qed
  then have "insert_batch_of s i = Some b \<Longrightarrow>
      map (\<lambda>x. (fst x, flip_cell on (flip_cell (\<not> on) (snd x)))) (inserts s ! i) = inserts s ! i"
    by (intro map_idI) auto
  moreover have f1: "batch_flag s b = Some (\<not> \<not> on)" using assms(1) by simp
  moreover have f2: "batch_flag (set_batch_empty_as_null s b (\<not> on)) b = Some (\<not> on)"
    by (rule batch_flag_ean [OF assms(1)])
  ultimately show "inserts (set_batch_empty_as_null (set_batch_empty_as_null s b (\<not> on)) b on) ! i
      = inserts s ! i"
    using i by (simp add: inserts_ean_nth [OF f2] inserts_ean_nth [OF f1] comp_def case_prod_beta)
qed simp

section \<open>Properties\<close>

text \<open>C26. Every state an edit session can reach is well formed: row keys are unique and
  ascending, no recorded row is without edits, no row is marked for deletion twice, the
  batch numbers run parallel to the inserted rows, and every batch has a key mode.\<close>

theorem pending_invariant: "reachable_pending s \<Longrightarrow> wf_pending s"
  by (rule reachable_wf)

theorem pending_invariant_witness:
  "wf_pending (remove_batch (add_inserts (set_cell empty_pending 2 ''a'' None) [[(''b'', None)]] Keep None) 0)"
proof (rule pending_invariant)
  have "reachable_pending (set_cell empty_pending 2 ''a'' None)"
    by (rule reach_step [OF reach_empty st_set_cell])
  then have "reachable_pending (add_inserts (set_cell empty_pending 2 ''a'' None) [[(''b'', None)]] Keep None)"
    by (rule reach_step [OF _ st_adds]) (simp add: wf_obj_def)
  then show "reachable_pending (remove_batch
      (add_inserts (set_cell empty_pending 2 ''a'' None) [[(''b'', None)]] Keep None) 0)"
    by (rule reach_step [OF _ st_remove_batch])
qed

text \<open>C4. The plan never touches a row it cannot name: every update and every delete carries the
  row's complete primary key with the row's original values, an update is for an existing,
  edited row that is not marked for deletion, a delete for a row that is, and an insert of
  a batch that generates its key carries no key column.\<close>

theorem plan_addresses_rows:
  "(\<forall>e w ty. Update e w ty \<in> set (build_plan src cols rows s) \<longrightarrow>
      (\<exists>r. r < length rows \<and> r \<notin> set (deletes s) \<and> (r, e) \<in> set (edits s) \<and> e \<noteq> [] \<and>
         addresses src cols (rows ! r) w)) \<and>
   (\<forall>w. Delete w \<in> set (build_plan src cols rows s) \<longrightarrow>
      (\<exists>r. r < length rows \<and> r \<in> set (deletes s) \<and> addresses src cols (rows ! r) w)) \<and>
   (\<forall>v ty i. Insert v ty (Some i) \<in> set (build_plan src cols rows s) \<longrightarrow>
      i < length (inserts s) \<and> v \<noteq> [] \<and>
      (pk_mode_of s i = Generate \<longrightarrow> (\<forall>(k, x) \<in> set v. to_lower k \<notin> to_lower ` set (es_pk src))))"
proof (intro conjI allI impI)
  fix e w ty assume "Update e w ty \<in> set (build_plan src cols rows s)"
  then have "Update e w ty \<in> set (plan_updates src cols rows s)"
    by (auto simp: build_plan_def plan_deletes_mem plan_inserts_mem Let_def)
  then obtain r where r: "(r, e) \<in> set (edits s)" "e \<noteq> []" "r \<notin> set (deletes s)"
    "row_where src cols rows r = Some w" by (auto simp: plan_updates_mem)
  with row_where_Some [OF r(4)] show "\<exists>r. r < length rows \<and> r \<notin> set (deletes s) \<and>
      (r, e) \<in> set (edits s) \<and> e \<noteq> [] \<and> addresses src cols (rows ! r) w" by blast
next
  fix w assume "Delete w \<in> set (build_plan src cols rows s)"
  then obtain r where r: "r \<in> set (deletes s)" "row_where src cols rows r = Some w"
    by (auto simp: build_plan_def plan_updates_mem plan_deletes_mem plan_inserts_mem Let_def)
  with row_where_Some [OF r(2)] show "\<exists>r. r < length rows \<and> r \<in> set (deletes s) \<and>
      addresses src cols (rows ! r) w" by blast
next
  fix v ty i assume "Insert v ty (Some i) \<in> set (build_plan src cols rows s)"
  then have "Insert v ty (Some i) \<in> set (plan_inserts src cols s)"
    by (auto simp: build_plan_def plan_updates_mem plan_deletes_mem)
  then have i: "i < length (inserts s)" and v: "v = insert_values src s i (inserts s ! i)" "v \<noteq> []"
    by (auto simp: plan_inserts_mem Let_def)
  show "i < length (inserts s)" "v \<noteq> []" by (rule i, rule v(2))
  show "\<forall>(k, x) \<in> set v. to_lower k \<notin> to_lower ` set (es_pk src)" if "pk_mode_of s i = Generate"
    using that v(1) by (auto simp: insert_values_def)
qed

theorem plan_addresses_rows_witness:
  "let src = \<lparr>es_table = ''t'', es_db = None, es_schema = None, es_pk = [''id'']\<rparr>;
       cols = [\<lparr>col_name = ''id'', col_type = ''int''\<rparr>, \<lparr>col_name = ''a'', col_type = ''text''\<rparr>];
       rows = [[Some ''7'', Some ''x'']];
       s = set_cell empty_pending 0 ''id'' (Some ''8'')
   in build_plan src cols rows s = [Update [(''id'', Some ''8'')] [(''id'', Some ''7'')] (Some [(''id'', ''int'')])] \<and>
      addresses src cols (rows ! 0) [(''id'', Some ''7'')]"
proof -
  let ?src = "\<lparr>es_table = ''t'', es_db = None, es_schema = None, es_pk = [''id'']\<rparr>"
  let ?cols = "[\<lparr>col_name = ''id'', col_type = ''int''\<rparr>, \<lparr>col_name = ''a'', col_type = ''text''\<rparr>]"
  let ?rows = "[[Some ''7'', Some ''x'']]"
  let ?s = "set_cell empty_pending 0 ''id'' (Some ''8'')"
  have p: "build_plan ?src ?cols ?rows ?s =
      [Update [(''id'', Some ''8'')] [(''id'', Some ''7'')] (Some [(''id'', ''int'')])]" by code_simp
  then have "Update [(''id'', Some ''8'')] [(''id'', Some ''7'')] (Some [(''id'', ''int'')])
      \<in> set (build_plan ?src ?cols ?rows ?s)" by simp
  then have "\<exists>r. r < length ?rows \<and> addresses ?src ?cols (?rows ! r) [(''id'', Some ''7'')]"
    using plan_addresses_rows [of ?src ?cols ?rows ?s] by blast
  with p show ?thesis by simp
qed

text \<open>The plan runs updates first, then deletes, then inserts, and never has more operations
  than the number of changes shown to the user, which is the sum of the three kinds.\<close>

theorem plan_order_and_size:
  "sorted (map plan_rank (build_plan src cols rows s)) \<and>
   length (build_plan src cols rows s) \<le> change_count s \<and>
   change_count s = ck_changed (change_kinds s) + ck_removed (change_kinds s) + ck_added (change_kinds s)"
  using plan_order length_plan by (simp add: change_kinds_def change_count_def)

text \<open>C29. The recorded cell edits are a partial map from cells to values: setting a cell updates
  it there, reverting a cell or a row forgets it there, and nothing else moves.\<close>

theorem cell_edits_refine_map:
  "cell_view (set_cell s r c v) = (cell_view s)((r, c) \<mapsto> v) \<and>
   cell_view (revert_cell s r c) = (cell_view s)((r, c) := None) \<and>
   cell_view (revert_row s r) = (\<lambda>p. if fst p = r then None else cell_view s p)"
  by (simp add: cell_view_set_cell cell_view_revert_cell cell_view_revert_row)

text \<open>Switching a pasted batch between empty-as-NULL and empty-as-text and back restores its
  rows, provided no cell already has the value the first switch maps others to.\<close>

theorem batch_flip_restores:
  assumes "batch_flag s b = Some on" and "(if on then Some [] else None) \<notin> batch_cells s b"
  shows "inserts (set_batch_empty_as_null (set_batch_empty_as_null s b (\<not> on)) b on) = inserts s"
  using assms by (rule ean_flip_back)

theorem batch_flip_restores_witness:
  "let s = add_inserts empty_pending [[(''a'', None), (''b'', Some ''x'')]] Keep (Some True) in
     inserts (set_batch_empty_as_null (set_batch_empty_as_null s 0 False) 0 True) = inserts s"
proof -
  let ?s = "add_inserts empty_pending [[(''a'', None), (''b'', Some ''x'')]] Keep (Some True)"
  have f: "batch_flag ?s 0 = Some True" by code_simp
  have i: "inserts ?s = [[(''a'', None), (''b'', Some ''x'')]]" by code_simp
  have "Some [] \<notin> batch_cells ?s 0" by (auto simp: batch_cells_def i)
  with batch_flip_restores [OF f] show ?thesis by simp
qed

text \<open>Without that proviso the switch loses information: a NULL typed into a row of a batch
  that reads empty cells as text comes back as empty text after switching there and back.\<close>

theorem batch_flip_loses_null:
  "\<exists>s. reachable_pending s \<and> batch_flag s 0 = Some False \<and>
     inserts (set_batch_empty_as_null (set_batch_empty_as_null s 0 True) 0 False) \<noteq> inserts s"
proof -
  let ?base = "add_inserts empty_pending [[(''a'', Some ''x'')]] Keep (Some False)"
  let ?s = "set_insert_cell ?base 0 ''a'' None"
  have "reachable_pending ?base"
    by (rule reach_step [OF reach_empty st_adds]) (simp add: wf_obj_def)
  then have "reachable_pending ?s" by (rule reach_step) (rule pending_step.st_insert_cell)
  moreover have "batch_flag ?s 0 = Some False" by code_simp
  moreover have "inserts (set_batch_empty_as_null (set_batch_empty_as_null ?s 0 True) 0 False) \<noteq> inserts ?s"
    by code_simp
  ultimately show ?thesis by blast
qed

end
