(* ===== verification/CoreTx.thy ===== *)
theory CoreTx
  imports CoreStmtClass Results
begin

text \<open>
  The core's side of transactions and of lost connections: \<open>core/src/query/tx.c\<close>,
  \<open>core/src/ipc/tx_methods.c\<close>, \<open>core/src/ipc/conn_lost.c\<close> and the slots of
  \<open>core/src/conn/manager.c\<close> they use. A driver is a plugin: its begin, commit and rollback
  are parameters. The locale \<open>tx_session\<close> states what a client of \<open>tx.*\<close> may rely on, and
  the dispatcher is shown to provide it for every driver.
\<close>

section \<open>Drivers and the connection manager\<close>

datatype db_status = DbOk | DbConn | DbQuery | DbUnsupported | DbParam | DbNomem

definition status_to_code :: "db_status \<Rightarrow> int" where
  "status_to_code st =
     (case st of DbOk \<Rightarrow> 0 | DbConn \<Rightarrow> - 32000 | DbQuery \<Rightarrow> - 32003 | DbUnsupported \<Rightarrow> - 32001
      | DbParam \<Rightarrow> - 32602 | _ \<Rightarrow> - 32603)"

record 'e driver =
  dr_transactions :: bool
  dr_begin :: "('e \<Rightarrow> db_status \<times> 'e) option"
  dr_commit :: "('e \<Rightarrow> db_status \<times> 'e) option"
  dr_rollback :: "('e \<Rightarrow> db_status \<times> 'e) option"
  dr_last_error :: "'e \<Rightarrow> string"

record 'e slot =
  sl_driver :: "'e driver"
  sl_handle :: 'e
  sl_in_tx :: bool

type_synonym 'e manager = "(int \<times> 'e slot) list"

definition INT_MAX :: int where "INT_MAX = 2147483647"

fun parse_digits :: "int \<Rightarrow> string \<Rightarrow> int option" where
  "parse_digits v [] = Some v"
| "parse_digits v (c # s) =
     (if \<not> is_digit c then None
      else let d = int (code c) - 48 in
        if v > (INT_MAX - d) div 10 then None else parse_digits (v * 10 + d) s)"

definition conn_id_parse :: "string \<Rightarrow> int option" where
  "conn_id_parse s =
     (case s of c # d # r \<Rightarrow>
        if c \<noteq> CHR ''c'' then None
        else (case parse_digits 0 (d # r) of None \<Rightarrow> None
          | Some v \<Rightarrow> if v < 1 then None else Some v)
      | _ \<Rightarrow> None)"

definition manager_in_tx :: "'e manager \<Rightarrow> int \<Rightarrow> bool" where
  "manager_in_tx mgr cid = (case map_of mgr cid of None \<Rightarrow> False | Some sl \<Rightarrow> sl_in_tx sl)"

definition set_slot :: "int \<Rightarrow> 'e slot \<Rightarrow> 'e manager \<Rightarrow> 'e manager" where
  "set_slot cid sl mgr = assoc_update cid sl mgr"

section \<open>tx.begin, tx.commit, tx.rollback\<close>

datatype tx_verb = TxBegin | TxCommit | TxRollback

definition member_of :: "tx_verb \<Rightarrow> 'e driver \<Rightarrow> ('e \<Rightarrow> db_status \<times> 'e) option" where
  "member_of v dr = (case v of TxBegin \<Rightarrow> dr_begin dr | TxCommit \<Rightarrow> dr_commit dr
     | TxRollback \<Rightarrow> dr_rollback dr)"

text \<open>\<open>run_tx\<close>: the status, the error text, the driver's handle afterwards.\<close>

definition run_tx :: "tx_verb \<Rightarrow> 'e slot \<Rightarrow> db_status \<times> string \<times> 'e" where
  "run_tx v sl =
     (let dr = sl_driver sl in
      case member_of v dr of
        None \<Rightarrow> (DbUnsupported, ''this engine does not support transactions'', sl_handle sl)
      | Some f \<Rightarrow>
          if \<not> dr_transactions dr
          then (DbUnsupported, ''this engine does not support transactions'', sl_handle sl)
          else (case f (sl_handle sl) of (st, h) \<Rightarrow>
            (st, if st = DbOk then [] else dr_last_error dr h, h)))"

definition rpc_fail :: "int \<Rightarrow> string \<Rightarrow> response" where
  "rpc_fail n msg = Inl \<lparr>er_code = n, er_message = msg, er_data = None\<rparr>"

text \<open>The part of \<open>tx_dispatch\<close> after the connection is resolved.\<close>

definition tx_on_slot :: "tx_verb \<Rightarrow> int \<Rightarrow> 'e slot \<Rightarrow> 'e manager \<Rightarrow> response \<times> 'e manager" where
  "tx_on_slot v cid sl mgr =
     (if v = TxBegin \<and> sl_in_tx sl
      then (rpc_fail (- 32003)
        ''a transaction is already open on this connection; commit or roll it back first'', mgr)
      else (case run_tx v sl of (st, msg, h) \<Rightarrow>
        (let sl' = sl\<lparr>sl_handle := h,
               sl_in_tx := (if v = TxRollback \<or> st = DbOk then v = TxBegin else sl_in_tx sl)\<rparr>;
             mgr' = set_slot cid sl' mgr
         in if st \<noteq> DbOk
            then (rpc_fail (status_to_code st) (if msg \<noteq> [] then msg else ''transaction failed''), mgr')
            else (Inr (JObj [(''ok'', JBool True)]), mgr'))))"

definition tx_dispatch :: "tx_verb \<Rightarrow> json option \<Rightarrow> 'e manager \<Rightarrow> response \<times> 'e manager" where
  "tx_dispatch v params mgr =
     (case json_str (case params of None \<Rightarrow> None | Some p \<Rightarrow> json_field p ''connId'') of
        None \<Rightarrow> (rpc_fail (- 32602) ''params.connId (string) is required'', mgr)
      | Some s \<Rightarrow> (case conn_id_parse s of
          None \<Rightarrow> (rpc_fail (- 32602) ''malformed connId'', mgr)
        | Some cid \<Rightarrow> (case map_of mgr cid of
            None \<Rightarrow> (rpc_fail (- 32002) ''unknown connection id'', mgr)
          | Some sl \<Rightarrow> tx_on_slot v cid sl mgr)))"

section \<open>A connection that died\<close>

definition retry_safe :: "string \<Rightarrow> json option \<Rightarrow> bool \<Rightarrow> bool" where
  "retry_safe method params in_tx \<longleftrightarrow>
     \<not> in_tx \<and> method = ''query.run'' \<and>
     (case json_str (case params of None \<Rightarrow> None | Some p \<Rightarrow> json_field p ''sql'') of
        None \<Rightarrow> False | Some sql \<Rightarrow> stmt_classify (Some sql) = Read)"

definition conn_lost_data :: "string \<Rightarrow> json option \<Rightarrow> bool \<Rightarrow> json" where
  "conn_lost_data method params in_tx =
     JObj [(''connLost'', JBool True), (''inTx'', JBool in_tx),
           (''retrySafe'', JBool (retry_safe method params in_tx))]"

section \<open>The interface of tx.*\<close>

text \<open>What a client may rely on: \<open>run\<close> performs one of the three methods on a connection,
  \<open>open_tx\<close> is the core's flag.\<close>

locale tx_session =
  fixes run :: "tx_verb \<Rightarrow> 'c \<Rightarrow> response \<times> 'c"
    and open_tx :: "'c \<Rightarrow> bool"
  assumes begin_ok: "run TxBegin c = (Inr j, c') \<Longrightarrow> \<not> open_tx c \<and> open_tx c'"
    and begin_fails: "run TxBegin c = (Inl e, c') \<Longrightarrow> open_tx c' = open_tx c"
    and commit_ok: "run TxCommit c = (Inr j, c') \<Longrightarrow> \<not> open_tx c'"
    and commit_fails: "run TxCommit c = (Inl e, c') \<Longrightarrow> open_tx c' = open_tx c"
    and rollback_ends: "run TxRollback c = (r, c') \<Longrightarrow> \<not> open_tx c'"
begin

text \<open>The flag after any sequence of calls is the one the last successful call set.\<close>

fun flag_after :: "bool \<Rightarrow> tx_verb \<Rightarrow> response \<Rightarrow> bool" where
  "flag_after b v (Inl e) = (if v = TxRollback then False else b)"
| "flag_after b v (Inr j) = (v = TxBegin)"

lemma flag: "run v c = (r, c') \<Longrightarrow> open_tx c' = flag_after (open_tx c) v r"
  by (cases v; cases r) (auto dest: begin_ok begin_fails commit_ok commit_fails rollback_ends)

lemma no_nested_begin: "open_tx c \<Longrightarrow> \<exists>e c'. run TxBegin c = (Inl e, c')"
  by (cases "run TxBegin c"; cases "fst (run TxBegin c)") (auto dest: begin_ok)

end

definition core_tx :: "string \<Rightarrow> tx_verb \<Rightarrow> 'e manager \<Rightarrow> response \<times> 'e manager" where
  "core_tx conn v mgr = tx_dispatch v (Some (JObj [(''connId'', JStr conn)])) mgr"

definition core_in_tx :: "string \<Rightarrow> 'e manager \<Rightarrow> bool" where
  "core_in_tx conn mgr =
     (case conn_id_parse conn of None \<Rightarrow> False | Some cid \<Rightarrow> manager_in_tx mgr cid)"

lemma map_of_set_slot:
  "map_of mgr cid = Some sl \<Longrightarrow> map_of (set_slot cid sl' mgr) = (map_of mgr)(cid \<mapsto> sl')"
  by (simp add: set_slot_def map_of_assoc_update has_key_map_of)

lemma core_tx_params: "json_str (json_field (JObj [(''connId'', JStr conn)]) ''connId'') = Some conn"
  by (simp add: json_str_def json_field_def)

lemma tx_on_slot_flag:
  assumes m: "map_of mgr cid = Some sl" and t: "tx_on_slot v cid sl mgr = (r, mgr')"
  shows "manager_in_tx mgr' cid =
      (case r of Inl _ \<Rightarrow> v \<noteq> TxRollback \<and> sl_in_tx sl | Inr _ \<Rightarrow> v = TxBegin)"
    and "is_ok r \<Longrightarrow> v = TxBegin \<Longrightarrow> \<not> sl_in_tx sl"
    and "c \<noteq> cid \<Longrightarrow> map_of mgr' c = map_of mgr c"
proof -
  obtain st msg h where r: "run_tx v sl = (st, msg, h)" by (cases "run_tx v sl") auto
  show "manager_in_tx mgr' cid =
      (case r of Inl _ \<Rightarrow> v \<noteq> TxRollback \<and> sl_in_tx sl | Inr _ \<Rightarrow> v = TxBegin)"
    using t r m
    by (auto simp: tx_on_slot_def rpc_fail_def manager_in_tx_def map_of_set_slot [OF m] Let_def
        split: if_splits)
  show "is_ok r \<Longrightarrow> v = TxBegin \<Longrightarrow> \<not> sl_in_tx sl"
    using t r by (auto simp: tx_on_slot_def rpc_fail_def)
  show "c \<noteq> cid \<Longrightarrow> map_of mgr' c = map_of mgr c"
    using t r by (auto simp: tx_on_slot_def rpc_fail_def map_of_set_slot [OF m] Let_def split: if_splits)
qed

lemma core_tx_cases:
  assumes "core_tx conn v mgr = (r, mgr')"
  obtains (bad) e where "r = Inl e" and "mgr' = mgr" and "\<not> core_in_tx conn mgr"
  | (slot) cid sl where "conn_id_parse conn = Some cid" and "map_of mgr cid = Some sl"
      and "tx_on_slot v cid sl mgr = (r, mgr')"
proof (cases "conn_id_parse conn")
  case None
  with assms show ?thesis
    by (intro bad) (auto simp: core_tx_def tx_dispatch_def core_tx_params rpc_fail_def core_in_tx_def)
next
  case (Some cid)
  show ?thesis
  proof (cases "map_of mgr cid")
    case None
    with assms Some show ?thesis
      by (intro bad) (auto simp: core_tx_def tx_dispatch_def core_tx_params rpc_fail_def
          core_in_tx_def manager_in_tx_def)
  next
    case sl: (Some sl)
    with assms Some show ?thesis
      by (intro slot) (auto simp: core_tx_def tx_dispatch_def core_tx_params)
  qed
qed

lemma core_tx_flag:
  assumes "core_tx conn v mgr = (r, mgr')"
  shows "core_in_tx conn mgr' =
    (case r of Inl _ \<Rightarrow> v \<noteq> TxRollback \<and> core_in_tx conn mgr | Inr _ \<Rightarrow> v = TxBegin)"
    and "is_ok r \<Longrightarrow> v = TxBegin \<Longrightarrow> \<not> core_in_tx conn mgr"
proof -
  show "core_in_tx conn mgr' =
    (case r of Inl _ \<Rightarrow> v \<noteq> TxRollback \<and> core_in_tx conn mgr | Inr _ \<Rightarrow> v = TxBegin)"
    using assms
  proof (cases rule: core_tx_cases)
    case (slot cid sl)
    then have "core_in_tx conn mgr = sl_in_tx sl"
      by (simp add: core_in_tx_def manager_in_tx_def)
    with slot tx_on_slot_flag(1) [OF slot(2,3)] show ?thesis
      by (cases r) (simp_all add: core_in_tx_def)
  qed simp
  show "is_ok r \<Longrightarrow> v = TxBegin \<Longrightarrow> \<not> core_in_tx conn mgr"
    using assms
    by (cases rule: core_tx_cases)
       (auto simp: core_in_tx_def manager_in_tx_def dest: tx_on_slot_flag(2))
qed

interpretation core: tx_session "core_tx conn" "core_in_tx conn" for conn
proof
  fix c :: "'e manager" and c' j e r
  show "core_tx conn TxBegin c = (Inr j, c') \<Longrightarrow> \<not> core_in_tx conn c \<and> core_in_tx conn c'"
    using core_tx_flag(1) [of conn TxBegin c "Inr j" c'] core_tx_flag(2) [of conn TxBegin c "Inr j" c']
    by simp
  show "core_tx conn TxBegin c = (Inl e, c') \<Longrightarrow> core_in_tx conn c' = core_in_tx conn c"
    using core_tx_flag(1) [of conn TxBegin c "Inl e" c'] by simp
  show "core_tx conn TxCommit c = (Inr j, c') \<Longrightarrow> \<not> core_in_tx conn c'"
    using core_tx_flag(1) [of conn TxCommit c "Inr j" c'] by simp
  show "core_tx conn TxCommit c = (Inl e, c') \<Longrightarrow> core_in_tx conn c' = core_in_tx conn c"
    using core_tx_flag(1) [of conn TxCommit c "Inl e" c'] by simp
  show "core_tx conn TxRollback c = (r, c') \<Longrightarrow> \<not> core_in_tx conn c'"
    using core_tx_flag(1) [of conn TxRollback c r c'] by (cases r) simp_all
qed

text \<open>Other connections are not touched.\<close>

lemma core_tx_other:
  assumes "core_tx conn v mgr = (r, mgr')" and "conn_id_parse conn \<noteq> Some cid"
  shows "map_of mgr' cid = map_of mgr cid"
  using assms(1)
proof (cases rule: core_tx_cases)
  case (slot c sl)
  then show ?thesis using tx_on_slot_flag(3) [OF slot(2,3)] assms(2) by simp
qed simp

lemma conn_lost_read:
  assumes "json_true (json_field (conn_lost_data method params in_tx) ''retrySafe'')"
  shows "\<not> in_tx \<and> method = ''query.run'' \<and>
    (\<exists>p sql. params = Some p \<and> json_field p ''sql'' = Some (JStr sql) \<and>
       stmt_classify (Some sql) = Read)"
  using assms
  by (auto simp: conn_lost_data_def json_field_def json_true_def retry_safe_def json_str_def
      split: option.splits json.splits)

end
