(* ===== verification/TxMode.thy ===== *)
theory TxMode
  imports CoreTx QueryTarget
begin

text \<open>
  Manual transactions (\<open>txMode.ts\<close>): how a typed statement is classified, what running it
  takes, and the runner that keeps the connection's transaction state. The runner is
  parameterised by its effects, as in the source; the lemmas of \<open>tx_session\<close> relate its
  state to the core's own flag. The wrappers \<open>txBegin\<close>, \<open>txCommit\<close> and \<open>txRollback\<close> of
  \<open>edit.ts\<close> are at the end.
\<close>

section \<open>Classification\<close>

record tx_statement =
  ts_verb :: tx_verb
  ts_bare :: bool

definition NOISE :: re where
  "NOISE = opt (seqs [plus spc, words_alt [''work'', ''transaction'', ''tran'']])"

definition BARE_BEGIN :: re where
  "BARE_BEGIN = seqs [Bol, Alt (seqs [lit ''begin'', NOISE]) (lit ''start transaction''), Eol]"

definition BARE_COMMIT :: re where
  "BARE_COMMIT = seqs [Bol, words_alt [''commit'', ''end''], NOISE, Eol]"

definition BARE_ROLLBACK :: re where
  "BARE_ROLLBACK = seqs [Bol, words_alt [''rollback'', ''abort''], NOISE, Eol]"

definition BEGIN_WITH_OPTIONS :: re where
  "BEGIN_WITH_OPTIONS = seqs [Bol, Alt (seqs [lit ''start transaction'', WordB])
     (seqs [lit ''begin '', words_alt [''work'', ''transaction'', ''tran'', ''deferred'', ''immediate'',
        ''exclusive'', ''isolation'', ''read'', ''not'', ''deferrable''], WordB])]"

definition TRAILING_NOISE :: re where  \<comment> \<open>\<open>/[;\s]+$/\<close>\<close>
  "TRAILING_NOISE = seqs [plus (Cls (\<lambda>c. c = CHR '';'' \<or> is_space c)), Eol]"

definition normalized :: "string \<Rightarrow> string" where
  "normalized sql = to_lower (re_replace TRAILING_NOISE [] (scrub sql))"

definition classify_tx_statement :: "string \<Rightarrow> tx_statement option" where
  "classify_tx_statement sql =
     (let s = normalized sql in
      if re_test BARE_BEGIN s then Some \<lparr>ts_verb = TxBegin, ts_bare = True\<rparr>
      else if re_test BARE_COMMIT s then Some \<lparr>ts_verb = TxCommit, ts_bare = True\<rparr>
      else if re_test BARE_ROLLBACK s then Some \<lparr>ts_verb = TxRollback, ts_bare = True\<rparr>
      else if re_test BEGIN_WITH_OPTIONS s then Some \<lparr>ts_verb = TxBegin, ts_bare = False\<rparr>
      else None)"

definition IMPLICIT_COMMIT :: re where
  "IMPLICIT_COMMIT = seqs [Bol, words_alt [''create'', ''drop'', ''alter'', ''rename'', ''truncate'',
     ''grant'', ''revoke'', ''lock'', ''unlock''], WordB]"

definition TEMPORARY :: re where
  "TEMPORARY = seqs [Bol, words_alt [''create'', ''drop''], lit '' temporary'', WordB]"

definition commits_implicitly :: "string \<Rightarrow> string \<Rightarrow> bool" where
  "commits_implicitly sql engine =
     (if engine_family engine \<noteq> ''mysql'' then False
      else let s = normalized sql in re_test IMPLICIT_COMMIT s \<and> \<not> re_test TEMPORARY s)"

definition READS :: re where
  "READS = seqs [Bol, words_alt [''select'', ''show'', ''describe'', ''desc'', ''explain'', ''values'',
     ''table''], WordB]"

definition WRITING_SELECT :: re where
  "WRITING_SELECT = alts
     [seqs [WordB, lit ''for '', words_alt [''update'', ''share'', ''no key update'', ''key share''], WordB],
      seqs [WordB, lit ''into'', WordB], seqs [WordB, lit ''lock in'', WordB]]"

definition WITH_READ :: re where
  "WITH_READ = seqs [Bol, lit ''with'', WordB]"

definition DML_WORD :: re where
  "DML_WORD = seqs [WordB, words_alt [''insert'', ''update'', ''delete'', ''merge''], WordB]"

definition reads_only :: "string \<Rightarrow> bool" where
  "reads_only sql =
     (let s = normalized sql in
      if re_test WITH_READ s then \<not> re_test DML_WORD s \<and> \<not> re_test WRITING_SELECT s
      else re_test READS s \<and> \<not> re_test WRITING_SELECT s)"

section \<open>The session and its steps\<close>

record tx_state =
  tx_manual :: bool
  tx_open :: bool
  tx_statements :: nat
  tx_log :: "(string \<times> int option) list option"

definition idle_tx :: "bool \<Rightarrow> tx_state" where
  "idle_tx manual = \<lparr>tx_manual = manual, tx_open = False, tx_statements = 0, tx_log = Some []\<rparr>"

datatype tx_step =
    StTx tx_verb
  | StRefuse
  | StRun bool bool bool   \<comment> \<open>beginFirst, opens, implicitCommit\<close>

definition plan_statement :: "tx_state \<Rightarrow> string \<Rightarrow> string \<Rightarrow> tx_step" where
  "plan_statement s sql engine =
     (let run = (if commits_implicitly sql engine then StRun False False (tx_open s)
                 else StRun (tx_manual s \<and> \<not> tx_open s \<and> \<not> reads_only sql) False False) in
      case classify_tx_statement sql of
        Some c \<Rightarrow>
          (if ts_verb c = TxBegin then
             (if tx_open s then StRefuse
              else if ts_bare c then StTx TxBegin else StRun False True False)
           else StTx (ts_verb c))
      | None \<Rightarrow> run)"

record ('r, 'w) tx_effects =
  fx_query :: "('r, 'w) effect"
  fx_tx :: "tx_verb \<Rightarrow> (unit, 'w) effect"
  fx_empty :: 'r
  fx_implicit :: "'w \<Rightarrow> 'w"
  fx_rows :: "'r \<Rightarrow> int option"

definition closed_tx :: "tx_state \<Rightarrow> tx_state" where
  "closed_tx s = s\<lparr>tx_open := False, tx_statements := 0, tx_log := Some []\<rparr>"

definition opened_tx :: "tx_state \<Rightarrow> tx_state" where
  "opened_tx s = s\<lparr>tx_open := True, tx_statements := 0, tx_log := Some []\<rparr>"

definition log_of :: "tx_state \<Rightarrow> (string \<times> int option) list" where
  "log_of s = (case tx_log s of None \<Rightarrow> [] | Some l \<Rightarrow> l)"

text \<open>The branch that runs \<open>query\<close>: what the \<open>finally\<close> block does with the state \<open>cur\<close>.\<close>

definition run_query ::
    "string \<Rightarrow> bool \<Rightarrow> bool \<Rightarrow> ('r, 'w) tx_effects \<Rightarrow> tx_state \<Rightarrow> 'w \<Rightarrow>
     (js_error, 'r) result \<times> tx_state \<times> 'w" where
  "run_query sql opens implicit fx cur w =
     (case fx_query fx w of (r, w1) \<Rightarrow>
       (let rows = (case r of Inr x \<Rightarrow> fx_rows fx x | Inl _ \<Rightarrow> None) in
        if implicit then
          (case fx_tx fx TxCommit w1 of (_, w2) \<Rightarrow> (r, closed_tx cur, fx_implicit fx w2))
        else if opens then (r, if is_ok r then opened_tx cur else cur, w1)
        else if tx_open cur then
          (r, cur\<lparr>tx_statements := tx_statements cur + 1,
                 tx_log := Some (log_of cur @ [(trim sql, rows)])\<rparr>, w1)
        else (r, cur, w1)))"

definition already_open :: js_error where
  "already_open = OtherError ''tx.alreadyOpen''"

definition run_in_tx ::
    "string \<Rightarrow> string \<Rightarrow> ('r, 'w) tx_effects \<Rightarrow> tx_state \<Rightarrow> 'w \<Rightarrow>
     (js_error, 'r) result \<times> tx_state \<times> 'w" where
  "run_in_tx sql engine fx s w =
     (case plan_statement s sql engine of
        StRefuse \<Rightarrow> (Inl already_open, s, w)
      | StTx v \<Rightarrow> (case fx_tx fx v w of
            (Inl e, w1) \<Rightarrow> (Inl e, if v = TxRollback then closed_tx s else s, w1)
          | (Inr _, w1) \<Rightarrow> (Inr (fx_empty fx), if v = TxBegin then opened_tx s else closed_tx s, w1))
      | StRun begin_first opens implicit \<Rightarrow>
          if begin_first then
            (case fx_tx fx TxBegin w of
               (Inl e, w1) \<Rightarrow> (Inl e, s, w1)
             | (Inr _, w1) \<Rightarrow> run_query sql opens implicit fx (opened_tx s) w1)
          else run_query sql opens implicit fx s w)"

section \<open>Classification lemmas\<close>

lemma plan_refuse: "plan_statement s sql engine = StRefuse \<longleftrightarrow>
    tx_open s \<and> (\<exists>c. classify_tx_statement sql = Some c \<and> ts_verb c = TxBegin)"
  by (auto simp: plan_statement_def Let_def split: option.splits if_splits)

lemma plan_begin_first:
  "plan_statement s sql engine = StRun True opens implicit \<longleftrightarrow>
     \<not> opens \<and> \<not> implicit \<and> classify_tx_statement sql = None \<and> \<not> commits_implicitly sql engine \<and>
     tx_manual s \<and> \<not> tx_open s \<and> \<not> reads_only sql"
  by (auto simp: plan_statement_def Let_def split: option.splits if_splits)

lemma plan_implicit:
  "plan_statement s sql engine = StRun b opens True \<longleftrightarrow>
     \<not> b \<and> \<not> opens \<and> tx_open s \<and> classify_tx_statement sql = None \<and> commits_implicitly sql engine"
  by (auto simp: plan_statement_def Let_def split: option.splits if_splits)

lemma plan_opens:
  "plan_statement s sql engine = StRun b True implicit \<longleftrightarrow> \<not> b \<and> \<not> implicit \<and> \<not> tx_open s \<and>
     (\<exists>c. classify_tx_statement sql = Some c \<and> ts_verb c = TxBegin \<and> \<not> ts_bare c)"
  by (auto simp: plan_statement_def Let_def split: option.splits if_splits)

section \<open>The state's own invariant\<close>

definition wf_tx :: "tx_state \<Rightarrow> bool" where
  "wf_tx s \<longleftrightarrow> tx_statements s = length (log_of s) \<and> (\<not> tx_open s \<longrightarrow> tx_statements s = 0)"

lemma wf_closed [simp]: "wf_tx (closed_tx s)"
  by (simp add: wf_tx_def closed_tx_def log_of_def)

lemma wf_opened [simp]: "wf_tx (opened_tx s)"
  by (simp add: wf_tx_def opened_tx_def log_of_def)

lemma wf_idle [simp]: "wf_tx (idle_tx m)"
  by (simp add: wf_tx_def idle_tx_def log_of_def)

lemma open_simps [simp]:
  "tx_open (closed_tx s) = False" "tx_open (opened_tx s) = True" "tx_open (idle_tx m) = False"
  "tx_manual (closed_tx s) = tx_manual s" "tx_manual (opened_tx s) = tx_manual s"
  by (simp_all add: closed_tx_def opened_tx_def idle_tx_def)

lemma run_query_wf:
  "run_query sql opens implicit fx s w = (r, s', w') \<Longrightarrow> wf_tx s \<Longrightarrow> wf_tx s'"
  by (auto simp: run_query_def Let_def wf_tx_def log_of_def closed_tx_def opened_tx_def
      split: prod.splits if_splits)

lemma run_in_tx_wf: "run_in_tx sql engine fx s w = (r, s', w') \<Longrightarrow> wf_tx s \<Longrightarrow> wf_tx s'"
  by (auto simp: run_in_tx_def split: tx_step.splits prod.splits sum.splits if_splits
      dest: run_query_wf)

lemma run_query_manual:
  "run_query sql opens implicit fx s w = (r, s', w') \<Longrightarrow> tx_manual s' = tx_manual s"
  by (auto simp: run_query_def Let_def split: prod.splits if_splits)

lemma run_in_tx_manual: "run_in_tx sql engine fx s w = (r, s', w') \<Longrightarrow> tx_manual s' = tx_manual s"
  by (auto simp: run_in_tx_def split: tx_step.splits prod.splits sum.splits if_splits
      dest: run_query_manual)


section \<open>In step with the core\<close>

text \<open>The contract of \<open>TxEffects.tx\<close> as \<open>txMode.ts\<close> states it: it rejects when the core answers with an error.
  The application's wrappers do not (see the properties).\<close>

definition rejecting :: "(tx_verb \<Rightarrow> 'c \<Rightarrow> response \<times> 'c) \<Rightarrow> tx_verb \<Rightarrow> (unit, 'c) effect" where
  "rejecting run v c =
     (case run v c of (Inl e, c') \<Rightarrow> (Inl (QueryError e), c') | (Inr _, c') \<Rightarrow> (Inr (), c'))"

text \<open>Statements leave the core's flag alone; only \<open>tx.*\<close> moves it.\<close>

definition keeps :: "('w \<Rightarrow> bool) \<Rightarrow> ('r, 'w) tx_effects \<Rightarrow> bool" where
  "keeps P fx \<longleftrightarrow> (\<forall>c. P (snd (fx_query fx c)) = P c) \<and> (\<forall>c. P (fx_implicit fx c) = P c)"

text \<open>Running statements one after another, whatever each one's outcome.\<close>

fun run_all ::
    "string \<Rightarrow> (string \<Rightarrow> ('r, 'w) tx_effects) \<Rightarrow> string list \<Rightarrow> tx_state \<Rightarrow> 'w \<Rightarrow> tx_state \<times> 'w" where
  "run_all engine fx [] s w = (s, w)"
| "run_all engine fx (sql # sqls) s w =
     (case run_in_tx sql engine (fx sql) s w of (_, s', w') \<Rightarrow> run_all engine fx sqls s' w')"

context tx_session begin

lemma rejecting_flag:
  "rejecting run v c = (r, c') \<Longrightarrow>
     open_tx c' = (case r of Inl _ \<Rightarrow> v \<noteq> TxRollback \<and> open_tx c | Inr _ \<Rightarrow> v = TxBegin)"
proof -
  assume r: "rejecting run v c = (r, c')"
  obtain res c1 where c1: "run v c = (res, c1)" by (cases "run v c") auto
  from r c1 flag [OF c1] show ?thesis
    by (cases res; cases v) (auto simp: rejecting_def)
qed

lemma rejecting_begin: "rejecting run TxBegin c = (Inr u, c') \<Longrightarrow> \<not> open_tx c \<and> open_tx c'"
  by (auto simp: rejecting_def split: prod.splits sum.splits dest: begin_ok)

text \<open>In manual mode a statement that is not a plain read runs with a transaction open.\<close>

lemma run_in_tx_begins:
  assumes fx: "fx_tx fx = rejecting run"
    and p: "tx_manual s" "\<not> tx_open s" "\<not> reads_only sql" "classify_tx_statement sql = None"
      "\<not> commits_implicitly sql engine"
    and r: "run_in_tx sql engine fx s c = (r, s', c')"
  shows "(\<exists>e. run TxBegin c = (Inl e, c') \<and> r = Inl (QueryError e) \<and> s' = s) \<or>
     (\<exists>j c1. run TxBegin c = (Inr j, c1) \<and> open_tx c1 \<and> fx_query fx c1 = (r, c') \<and>
        tx_open s' \<and> log_of s' = [(trim sql, (case r of Inr x \<Rightarrow> fx_rows fx x | Inl _ \<Rightarrow> None))])"
proof -
  have "plan_statement s sql engine = StRun True False False" using p plan_begin_first by blast
  then show ?thesis
    using r fx
    by (auto simp: run_in_tx_def rejecting_def run_query_def Let_def opened_tx_def log_of_def
        split: prod.splits sum.splits dest: begin_ok)
qed

end

section \<open>The wrappers of edit.ts\<close>

definition conn_params :: "string \<Rightarrow> json option" where
  "conn_params conn = Some (JObj [(''connId'', JStr conn)])"

definition tx_method :: "tx_verb \<Rightarrow> string" where
  "tx_method v = (case v of TxBegin \<Rightarrow> ''tx.begin'' | TxCommit \<Rightarrow> ''tx.commit''
     | TxRollback \<Rightarrow> ''tx.rollback'')"

text \<open>\<open>txBegin\<close>, \<open>txCommit\<close>, \<open>txRollback\<close>: the response is awaited and dropped.\<close>

definition tx_call :: "'w channel \<Rightarrow> string \<Rightarrow> tx_verb \<Rightarrow> (unit, 'w) effect" where
  "tx_call chan conn v w =
     (case chan (tx_method v) (conn_params conn) w of
        (Inl e, w') \<Rightarrow> (Inl e, w')
      | (Inr res, w') \<Rightarrow> (Inr (), w'))"

text \<open>The core as a channel: \<open>tx.*\<close> is dispatched, every other method is \<open>exec\<close>.\<close>

definition core_channel ::
    "(string \<Rightarrow> json option \<Rightarrow> 'e manager \<Rightarrow> response \<times> 'e manager) \<Rightarrow> 'e manager channel" where
  "core_channel exec method params mgr =
     (case (if method = ''tx.begin'' then tx_dispatch TxBegin params mgr
            else if method = ''tx.commit'' then tx_dispatch TxCommit params mgr
            else if method = ''tx.rollback'' then tx_dispatch TxRollback params mgr
            else exec method params mgr) of (res, mgr') \<Rightarrow> (Inr res, mgr'))"

lemma core_channel_tx:
  "core_channel exec (tx_method v) (conn_params conn) mgr =
     (case core_tx conn v mgr of (res, mgr') \<Rightarrow> (Inr res, mgr'))"
  by (cases v) (simp_all add: core_channel_def tx_method_def conn_params_def core_tx_def)

lemma tx_call_core:
  "tx_call (core_channel exec) conn v mgr = (Inr (), snd (core_tx conn v mgr))"
  by (simp add: tx_call_def core_channel_tx split: prod.splits)

lemma run_in_tx_ignores_error:
  assumes "classify_tx_statement sql = Some c" and "ts_verb c \<noteq> TxBegin"
    and "fx_tx fx = tx_call chan conn"
    and "chan (tx_method (ts_verb c)) (conn_params conn) w = (Inr res, w')"
  shows "run_in_tx sql engine fx s w = (Inr (fx_empty fx), closed_tx s, w')"
  using assms by (auto simp: run_in_tx_def plan_statement_def tx_call_def)

section \<open>Properties\<close>

text \<open>The effects \<open>App.tsx\<close> plugs in: \<open>tx\<close> is \<open>txCall\<close>, which drops the answers; \<open>query\<close> runs the statement on
  the connection, which leaves the core's flag and the driver alone.\<close>

definition accepts_commits :: "string \<Rightarrow> 'e manager \<Rightarrow> bool" where
  "accepts_commits conn mgr \<longleftrightarrow>
     (case conn_id_parse conn of None \<Rightarrow> True | Some cid \<Rightarrow> (case map_of mgr cid of None \<Rightarrow> True
      | Some sl \<Rightarrow> dr_transactions (sl_driver sl) \<and>
          (case dr_commit (sl_driver sl) of None \<Rightarrow> False | Some f \<Rightarrow> \<forall>h. fst (f h) = DbOk)))"

definition app_tx :: "(string \<Rightarrow> json option \<Rightarrow> 'e manager \<Rightarrow> response \<times> 'e manager) \<Rightarrow> string \<Rightarrow> ('r, 'e manager) tx_effects \<Rightarrow> bool" where
  "app_tx exec conn fx \<longleftrightarrow> fx_tx fx = tx_call (core_channel exec) conn \<and>
     keeps (core_in_tx conn) fx \<and> keeps (accepts_commits conn) fx"

lemma tx_on_slot_driver:
  assumes "map_of mgr cid = Some sl" and "tx_on_slot v cid sl mgr = (r, mgr')"
  shows "\<exists>sl'. map_of mgr' cid = Some sl' \<and> sl_driver sl' = sl_driver sl"
proof -
  obtain st msg h where "run_tx v sl = (st, msg, h)" by (cases "run_tx v sl") auto
  with assms show ?thesis
    by (auto simp: tx_on_slot_def rpc_fail_def map_of_set_slot [OF assms(1)] Let_def split: if_splits)
qed

lemma core_tx_accepts:
  assumes "core_tx conn v mgr = (r, mgr')" and "accepts_commits conn mgr"
  shows "accepts_commits conn mgr' \<and> (v = TxCommit \<longrightarrow> \<not> core_in_tx conn mgr')"
  using assms(1)
proof (cases rule: core_tx_cases)
  case (bad e)
  then show ?thesis using assms(2) by simp
next
  case (slot cid sl)
  obtain sl' where sl': "map_of mgr' cid = Some sl'" "sl_driver sl' = sl_driver sl"
    using tx_on_slot_driver [OF slot(2,3)] by blast
  have acc: "dr_transactions (sl_driver sl)" "\<exists>f. dr_commit (sl_driver sl) = Some f \<and> (\<forall>h. fst (f h) = DbOk)"
    using assms(2) slot by (auto simp: accepts_commits_def split: option.splits)
  have "accepts_commits conn mgr'" using slot(1) sl' acc by (auto simp: accepts_commits_def)
  moreover have "\<not> core_in_tx conn mgr'" if v: "v = TxCommit"
  proof -
    obtain f where f: "dr_commit (sl_driver sl) = Some f" "\<forall>h. fst (f h) = DbOk" using acc(2) by blast
    obtain h where h: "f (sl_handle sl) = (DbOk, h)" using f(2) by (metis prod.collapse)
    have "is_ok r"
      using slot(3) v f(1) acc(1) h by (auto simp: tx_on_slot_def run_tx_def member_of_def Let_def)
    with core_tx_flag(1) [OF assms(1)] v show ?thesis by (cases r) auto
  qed
  ultimately show ?thesis by blast
qed

lemma core_tx_open: "core_in_tx conn (snd (core_tx conn v mgr)) \<Longrightarrow> v = TxBegin \<or> v = TxCommit \<and> core_in_tx conn mgr"
  using core_tx_flag(1) [of conn v mgr "fst (core_tx conn v mgr)" "snd (core_tx conn v mgr)"]
  by (cases v; cases "fst (core_tx conn v mgr)") auto

lemma app_tx_call:
  assumes "app_tx exec conn fx" and "accepts_commits conn c"
  shows "\<exists>c'. fx_tx fx v c = (Inr (), c') \<and> accepts_commits conn c' \<and> (core_in_tx conn c' \<longrightarrow> v = TxBegin)"
proof -
  have c: "fx_tx fx v c = (Inr (), snd (core_tx conn v c))" using assms(1) by (simp add: app_tx_def tx_call_core)
  have "accepts_commits conn (snd (core_tx conn v c)) \<and> (v = TxCommit \<longrightarrow> \<not> core_in_tx conn (snd (core_tx conn v c)))"
    using core_tx_accepts [OF prod.collapse [symmetric] assms(2)] .
  with c core_tx_open [of conn v c] show ?thesis by auto
qed

lemma run_query_in_step:
  assumes fx: "app_tx exec conn fx" and acc: "accepts_commits conn c"
    and pre: "core_in_tx conn c \<longrightarrow> tx_open s"
    and rq: "run_query sql opens implicit fx s c = (r, s', c')"
  shows "accepts_commits conn c' \<and> (core_in_tx conn c' \<longrightarrow> tx_open s')"
proof -
  obtain r1 c1 where q: "fx_query fx c = (r1, c1)" by (cases "fx_query fx c") auto
  have "core_in_tx conn (snd (fx_query fx c)) = core_in_tx conn c" "accepts_commits conn (snd (fx_query fx c)) = accepts_commits conn c"
    using fx by (simp_all add: app_tx_def keeps_def)
  then have c1: "core_in_tx conn c1 = core_in_tx conn c" "accepts_commits conn c1" using q acc by simp_all
  show ?thesis
  proof (cases implicit)
    case False
    with rq q pre c1 show ?thesis by (auto simp: run_query_def Let_def split: if_splits)
  next
    case True
    obtain c2 where t: "fx_tx fx TxCommit c1 = (Inr (), c2)" "accepts_commits conn c2" "\<not> core_in_tx conn c2"
      using app_tx_call [OF fx c1(2), of TxCommit] by auto
    have "c' = fx_implicit fx c2" using rq q t True by (auto simp: run_query_def Let_def)
    with t fx show ?thesis by (simp add: app_tx_def keeps_def)
  qed
qed

lemma run_in_tx_in_step:
  assumes fx: "app_tx exec conn fx" and acc: "accepts_commits conn c"
    and pre: "core_in_tx conn c \<longrightarrow> tx_open s"
    and r: "run_in_tx sql engine fx s c = (r, s', c')"
  shows "accepts_commits conn c' \<and> (core_in_tx conn c' \<longrightarrow> tx_open s')"
proof (cases "plan_statement s sql engine")
  case (StTx v)
  obtain c1 where "fx_tx fx v c = (Inr (), c1)" "accepts_commits conn c1" "core_in_tx conn c1 \<longrightarrow> v = TxBegin"
    using app_tx_call [OF fx acc] by blast
  with r StTx show ?thesis by (auto simp: run_in_tx_def)
next
  case StRefuse
  with r pre acc show ?thesis by (simp add: run_in_tx_def)
next
  case (StRun b opens implicit)
  show ?thesis
  proof (cases b)
    case True
    obtain c1 where t: "fx_tx fx TxBegin c = (Inr (), c1)" "accepts_commits conn c1"
      using app_tx_call [OF fx acc, of TxBegin] by blast
    with r StRun True have "run_query sql opens implicit fx (opened_tx s) c1 = (r, s', c')" by (simp add: run_in_tx_def)
    from run_query_in_step [OF fx t(2) _ this] show ?thesis by simp
  next
    case False
    with r StRun have "run_query sql opens implicit fx s c = (r, s', c')" by (simp add: run_in_tx_def)
    from run_query_in_step [OF fx acc pre this] show ?thesis .
  qed
qed


definition demo_driver :: "nat driver" where
  "demo_driver = \<lparr>dr_transactions = True, dr_begin = Some (\<lambda>h. (DbOk, h + 1)),
     dr_commit = Some (\<lambda>h. (DbOk, h)), dr_rollback = Some (\<lambda>h. (DbOk, h)), dr_last_error = (\<lambda>h. [])\<rparr>"

definition demo_manager :: "nat manager" where
  "demo_manager = [(1, \<lparr>sl_driver = demo_driver, sl_handle = 0, sl_in_tx = False\<rparr>)]"

definition demo_effects :: "string \<Rightarrow> (unit, nat manager) tx_effects" where
  "demo_effects sql = \<lparr>fx_query = (\<lambda>c. (Inr (), c)), fx_tx = rejecting (core_tx ''c1''),
     fx_empty = (), fx_implicit = (\<lambda>c. c), fx_rows = (\<lambda>_. None)\<rparr>"

definition app_demo :: "string \<Rightarrow> (unit, nat manager) tx_effects" where
  "app_demo sql = \<lparr>fx_query = (\<lambda>c. (Inr (), c)), fx_tx = tx_call (core_channel (\<lambda>m p c. (Inr JNull, c))) ''c1'',
     fx_empty = (), fx_implicit = (\<lambda>c. c), fx_rows = (\<lambda>_. None)\<rparr>"


text \<open>In manual mode a statement that is neither a plain read, a transaction verb nor an
  implicit commit never runs outside a transaction: either opening one fails and nothing is
  sent, or the statement runs with the core's transaction open and is the first entry of
  the log.\<close>

theorem manual_mode_opens_first:
  assumes "fx_tx fx = rejecting (core_tx conn)" and "tx_manual s" and "\<not> tx_open s"
    and "\<not> reads_only sql" and "classify_tx_statement sql = None" and "\<not> commits_implicitly sql engine"
    and "run_in_tx sql engine fx s c = (r, s', c')"
  shows "(\<exists>e. core_tx conn TxBegin c = (Inl e, c') \<and> r = Inl (QueryError e) \<and> s' = s) \<or>
     (\<exists>j c1. core_tx conn TxBegin c = (Inr j, c1) \<and> core_in_tx conn c1 \<and> fx_query fx c1 = (r, c') \<and>
        tx_open s' \<and> log_of s' = [(trim sql, (case r of Inr x \<Rightarrow> fx_rows fx x | Inl _ \<Rightarrow> None))])"
  using assms by (rule core.run_in_tx_begins)

theorem manual_mode_opens_first_witness:
  "let (r, s', c') = run_in_tx ''x'' ''sqlite'' (demo_effects []) (idle_tx True) demo_manager
   in tx_open s' \<and> log_of s' = [(''x'', None)]"
proof -
  obtain r s' c' where r: "run_in_tx ''x'' ''sqlite'' (demo_effects []) (idle_tx True)
      demo_manager = (r, s', c')" by (rule prod_cases3)
  have "is_ok (fst (core_tx ''c1'' TxBegin demo_manager))" by code_simp
  then have b: "core_tx ''c1'' TxBegin demo_manager \<noteq> (Inl e, c)" for e c by auto
  have "\<not> reads_only ''x''" "classify_tx_statement ''x'' = None" "\<not> commits_implicitly ''x'' ''sqlite''"
    by code_simp+
  moreover have "tx_manual (idle_tx True)" "\<not> tx_open (idle_tx True)" by code_simp+
  moreover have "trim ''x'' = ''x''" by code_simp
  ultimately show ?thesis
    using manual_mode_opens_first [of "demo_effects []" "''c1''" "idle_tx True" "''x''"
        "''sqlite''" demo_manager r s' c'] r b
    by (auto simp: demo_effects_def split: sum.splits)
qed

text \<open>The state a statement leaves behind is consistent whatever happened: the counter is the
  length of the log, a closed transaction has none, and the mode never changes.\<close>

theorem tx_state_invariant:
  assumes "run_in_tx sql engine fx s w = (r, s', w')" and "wf_tx s"
  shows "wf_tx s' \<and> tx_manual s' = tx_manual s"
  using run_in_tx_wf [OF assms] run_in_tx_manual [OF assms(1)] by simp

theorem tx_state_invariant_witness:
  "wf_tx (fst (snd (run_in_tx ''insert into t values (1)'' ''sqlite'' (demo_effects []) (idle_tx True) demo_manager)))"
proof -
  obtain r s' c' where r: "run_in_tx ''insert into t values (1)'' ''sqlite'' (demo_effects []) (idle_tx True)
      demo_manager = (r, s', c')" by (rule prod_cases3)
  from tx_state_invariant [OF r wf_idle] r show ?thesis by simp
qed

text \<open>The application's own wrappers drop the response: with \<open>txCommit\<close> and \<open>txRollback\<close> as
  they are in \<open>edit.ts\<close>, a typed COMMIT that the core answers with an error is reported as
  done and the transaction shown as closed.\<close>

theorem app_commit_error_unseen:
  assumes "classify_tx_statement sql = Some c" and "ts_verb c = TxCommit"
    and "fx_tx fx = tx_call chan conn" and "chan ''tx.commit'' (conn_params conn) w = (Inr (Inl e), w')"
  shows "run_in_tx sql engine fx s w = (Inr (fx_empty fx), closed_tx s, w')"
  using assms(2,4) by (intro run_in_tx_ignores_error [OF assms(1) _ assms(3)]) (simp_all add: tx_method_def)

definition busy_driver :: "nat driver" where
  "busy_driver = demo_driver\<lparr>dr_commit := Some (\<lambda>h. (DbQuery, h)), dr_last_error := (\<lambda>h. ''busy'')\<rparr>"

definition busy_manager :: "nat manager" where
  "busy_manager = [(1, \<lparr>sl_driver = busy_driver, sl_handle = 0, sl_in_tx = True\<rparr>)]"

definition busy_effects :: "(unit, nat manager) tx_effects" where
  "busy_effects = (demo_effects [])\<lparr>fx_tx :=
     tx_call (core_channel (\<lambda>m p c. (Inr JNull, c))) ''c1''\<rparr>"

theorem app_commit_error_unseen_witness:
  "let (r, s', c') = run_in_tx ''COMMIT;'' ''sqlite'' busy_effects (opened_tx (idle_tx True)) busy_manager
   in is_ok r \<and> \<not> tx_open s' \<and> core_in_tx ''c1'' c'"
proof -
  let ?chan = "core_channel (\<lambda>m p c. (Inr JNull, c)) :: nat manager channel"
  have c: "classify_tx_statement ''COMMIT;'' = Some \<lparr>ts_verb = TxCommit, ts_bare = True\<rparr>" by code_simp
  have f: "fx_tx busy_effects = tx_call ?chan ''c1''" by (simp add: busy_effects_def)
  obtain e w' where t: "core_tx ''c1'' TxCommit busy_manager = (Inl e, w')" "core_in_tx ''c1'' w'"
  proof -
    have "case core_tx ''c1'' TxCommit busy_manager of (r, w') \<Rightarrow> \<not> is_ok r \<and> core_in_tx ''c1'' w'" by code_simp
    then show ?thesis using that by (auto simp: is_ok_def split: prod.splits sum.splits)
  qed
  then have "?chan ''tx.commit'' (conn_params ''c1'') busy_manager = (Inr (Inl e), w')"
    using core_channel_tx [of "\<lambda>m p c. (Inr JNull, c)" TxCommit "''c1''" busy_manager]
    by (simp add: tx_method_def)
  from app_commit_error_unseen [OF c _ f this, of "''sqlite''" "opened_tx (idle_tx True)"] t(2)
  show ?thesis by simp
qed

end
