(* ===== verification/EditApply.thy ===== *)
theory EditApply
  imports EditSession TxMode
begin

text \<open>
  Sending an edit plan (the request half of \<open>edit.ts\<close>) and applying it
  (\<open>editApply.ts\<close>). The locale \<open>tx_store\<close> is what \<open>applyPlan\<close> relies on: rows go into the
  open transaction, a commit that is taken makes it durable, a refused one leaves the core's
  transaction open, a rollback drops it. It is interpreted on the wrappers of \<open>edit.ts\<close> over the
  core's dispatcher with any driver that keeps the contract of a transactional engine
  (\<open>tx_engine\<close>): its begin and its commit may be refused, and its statements are arbitrary.
\<close>

section \<open>Requests\<close>

record edit_target =
  et_table :: string
  et_db :: "string option"
  et_schema :: "string option"

record row_result =
  rr_sql :: string
  rr_rows :: "int option"

definition row_count_ok :: "string \<Rightarrow> bool \<Rightarrow> int option \<Rightarrow> bool" where
  "row_count_ok engine is_update affected =
     (case affected of None \<Rightarrow> True
      | Some n \<Rightarrow> if n = 1 then True
          else n = 0 \<and> is_update \<and> engine_family engine = ''mysql'')"

definition cells_json :: "cells \<Rightarrow> json" where
  "cells_json cs = JObj (map (\<lambda>(k, v). (k, case v of None \<Rightarrow> JNull | Some s \<Rightarrow> JStr s)) cs)"

definition types_json :: "string obj \<Rightarrow> json" where
  "types_json ts = JObj (map (\<lambda>(k, v). (k, JStr v)) ts)"

definition opt_field :: "string \<Rightarrow> json option \<Rightarrow> json obj \<Rightarrow> json obj" where
  "opt_field k v ob = (case v of None \<Rightarrow> ob | Some j \<Rightarrow> obj_set k j ob)"

definition base_params :: "string \<Rightarrow> edit_target \<Rightarrow> bool \<Rightarrow> json obj" where
  "base_params conn t preview =
     (let p0 = [(''connId'', JStr conn), (''table'', JStr (et_table t))];
          p1 = opt_field ''db'' (map_option JStr (et_db t)) p0;
          schema = (case et_schema t of Some s \<Rightarrow> Some s | None \<Rightarrow> et_db t);
          p2 = opt_field ''schema'' (map_option JStr schema) p1
      in if preview then obj_set ''preview'' (JBool True) p2 else p2)"

definition insert_params ::
    "string \<Rightarrow> edit_target \<Rightarrow> cells \<Rightarrow> bool \<Rightarrow> string obj option \<Rightarrow> json obj" where
  "insert_params conn t values preview types =
     opt_field ''setTypes'' (map_option types_json types)
       (obj_set ''values'' (cells_json values) (base_params conn t preview))"

definition update_params ::
    "string \<Rightarrow> edit_target \<Rightarrow> cells \<Rightarrow> cells \<Rightarrow> bool \<Rightarrow> string obj option \<Rightarrow> json obj" where
  "update_params conn t sets wh preview types =
     opt_field ''setTypes'' (map_option types_json types)
       (obj_set ''where'' (cells_json wh)
         (obj_set ''set'' (cells_json sets) (base_params conn t preview)))"

definition delete_params :: "string \<Rightarrow> edit_target \<Rightarrow> cells \<Rightarrow> bool \<Rightarrow> json obj" where
  "delete_params conn t wh preview =
     obj_set ''where'' (cells_json wh) (base_params conn t preview)"

definition parse_row_result :: "response \<Rightarrow> (js_error, row_result) result" where
  "parse_row_result res =
     (case res of Inl e \<Rightarrow> Inl (QueryError e)
      | Inr r \<Rightarrow> Inr \<lparr>rr_sql = (case json_str (json_field r ''sql'') of None \<Rightarrow> [] | Some s \<Rightarrow> s),
                      rr_rows = json_num (json_field r ''rowsAffected'')\<rparr>)"

definition row_call :: "'w channel \<Rightarrow> string \<Rightarrow> json obj \<Rightarrow> (row_result, 'w) effect" where
  "row_call chan method params w =
     (case chan method (Some (JObj params)) w of
        (Inl e, w') \<Rightarrow> (Inl e, w') | (Inr res, w') \<Rightarrow> (parse_row_result res, w'))"

text \<open>The method and the parameters of one plan item (\<open>runPlanItem\<close>, \<open>rowInsert\<close>,
  \<open>rowUpdate\<close>, \<open>rowDelete\<close>).\<close>

definition item_request :: "string \<Rightarrow> edit_target \<Rightarrow> plan_item \<Rightarrow> bool \<Rightarrow> string \<times> json obj" where
  "item_request conn t it preview =
     (case it of
        Update sets wh types \<Rightarrow> (''row.update'', update_params conn t sets wh preview types)
      | Delete wh \<Rightarrow> (''row.delete'', delete_params conn t wh preview)
      | Insert values types _ \<Rightarrow> (''row.insert'', insert_params conn t values preview types))"

definition run_plan_item ::
    "'w channel \<Rightarrow> string \<Rightarrow> edit_target \<Rightarrow> plan_item \<Rightarrow> bool \<Rightarrow> (row_result, 'w) effect" where
  "run_plan_item chan conn t it preview =
     (case item_request conn t it preview of (m, p) \<Rightarrow> row_call chan m p)"

section \<open>Sessions on engines without transactions\<close>

text \<open>The module's set of connections whose engine said it has none, beside the world.\<close>

type_synonym 'w edit_world = "string list \<times> 'w"

definition has_transactions :: "string \<Rightarrow> 'w edit_world \<Rightarrow> bool" where
  "has_transactions conn ew \<longleftrightarrow> conn \<notin> set (fst ew)"

definition lift_effect :: "('a, 'w) effect \<Rightarrow> ('a, 'w edit_world) effect" where
  "lift_effect f ew = (case f (snd ew) of (r, w') \<Rightarrow> (r, (fst ew, w')))"

definition tx_begin_if_supported :: "'w channel \<Rightarrow> string \<Rightarrow> (bool, 'w edit_world) effect" where
  "tx_begin_if_supported chan conn ew =
     (case chan ''tx.begin'' (conn_params conn) (snd ew) of
        (Inl e, w') \<Rightarrow> (Inl e, (fst ew, w'))
      | (Inr res, w') \<Rightarrow>
          (case res of
             Inl e \<Rightarrow> if er_code e = IPC_ERR_UNSUPPORTED
               then (Inr False, (List.insert conn (fst ew), w'))
               else (Inr True, (removeAll conn (fst ew), w'))
           | Inr _ \<Rightarrow> (Inr True, (removeAll conn (fst ew), w'))))"

definition tx_commit_if_open :: "'w channel \<Rightarrow> string \<Rightarrow> (unit, 'w edit_world) effect" where
  "tx_commit_if_open chan conn ew =
     (if has_transactions conn ew then lift_effect (tx_call chan conn TxCommit) ew else (Inr (), ew))"

definition tx_rollback_if_open :: "'w channel \<Rightarrow> string \<Rightarrow> (unit, 'w edit_world) effect" where
  "tx_rollback_if_open chan conn ew =
     (if has_transactions conn ew then lift_effect (tx_call chan conn TxRollback) ew else (Inr (), ew))"

section \<open>Applying a plan\<close>

record ('a, 'w) apply_effects =
  ae_run :: "plan_item \<Rightarrow> ('a, 'w) effect"
  ae_commit :: "(unit, 'w) effect"
  ae_rollback :: "(unit, 'w) effect"
  ae_begin :: "(unit, 'w) effect"

datatype apply_outcome = ApplyOk | ApplyFailed js_error "nat option" bool

fun run_items :: "(plan_item \<Rightarrow> ('a, 'w) effect) \<Rightarrow> nat \<Rightarrow> plan_item list \<Rightarrow> 'w \<Rightarrow>
    (js_error \<times> nat) option \<times> 'w" where
  "run_items f i [] w = (None, w)"
| "run_items f i (it # its) w =
     (case f it w of (Inl e, w') \<Rightarrow> (Some (e, i), w') | (Inr _, w') \<Rightarrow> run_items f (Suc i) its w')"

definition reopen ::
    "('a, 'w) apply_effects \<Rightarrow> js_error \<Rightarrow> nat option \<Rightarrow> 'w \<Rightarrow> apply_outcome \<times> 'w" where
  "reopen fx e i w =
     (case ae_rollback fx w of (_, w1) \<Rightarrow>
       (case ae_begin fx w1 of (r, w2) \<Rightarrow> (ApplyFailed e i (is_ok r), w2)))"

definition apply_plan ::
    "plan_item list \<Rightarrow> ('a, 'w) apply_effects \<Rightarrow> 'w \<Rightarrow> apply_outcome \<times> 'w" where
  "apply_plan plan fx w =
     (case run_items (ae_run fx) 0 plan w of
        (Some (e, i), w1) \<Rightarrow> reopen fx e (Some i) w1
      | (None, w1) \<Rightarrow> (case ae_commit fx w1 of
            (Inl e, w2) \<Rightarrow> reopen fx e None w2
          | (Inr _, w2) \<Rightarrow> (ApplyOk, w2)))"

text \<open>The effects the application plugs in.\<close>

definition app_effects ::
    "'w channel \<Rightarrow> string \<Rightarrow> edit_target \<Rightarrow> (row_result, 'w edit_world) apply_effects" where
  "app_effects chan conn t =
     \<lparr>ae_run = (\<lambda>it. lift_effect (run_plan_item chan conn t it False)),
      ae_commit = tx_commit_if_open chan conn,
      ae_rollback = tx_rollback_if_open chan conn,
      ae_begin = (\<lambda>ew. case tx_begin_if_supported chan conn ew of
         (Inl e, ew') \<Rightarrow> (Inl e, ew') | (Inr _, ew') \<Rightarrow> (Inr (), ew'))\<rparr>"

section \<open>What applying a plan relies on\<close>

locale tx_store =
  fixes fx :: "('a, 'w) apply_effects"
    and good :: "'w \<Rightarrow> bool"
    and durable :: "'w \<Rightarrow> 'd"
    and in_flight :: "'w \<Rightarrow> 'd option"
    and still_open :: "'w \<Rightarrow> bool"
    and effect_of :: "plan_item \<Rightarrow> 'd \<Rightarrow> 'd"
  assumes run_law: "good w \<Longrightarrow> in_flight w = Some d \<Longrightarrow> ae_run fx it w = (r, w') \<Longrightarrow>
      good w' \<and> durable w' = durable w \<and>
      (\<exists>d'. in_flight w' = Some d' \<and> (is_ok r \<longrightarrow> d' = effect_of it d))"
    and commit_law: "good w \<Longrightarrow> in_flight w = Some d \<Longrightarrow> ae_commit fx w = (r', w') \<Longrightarrow>
      good w' \<and> durable w' = (if is_ok r' \<and> \<not> still_open w' then d else durable w)"
    and rollback_law: "good w \<Longrightarrow> ae_rollback fx w = (r', w') \<Longrightarrow>
      good w' \<and> durable w' = durable w \<and> in_flight w' = None"
    and begin_law: "good w \<Longrightarrow> in_flight w = None \<Longrightarrow> ae_begin fx w = (r', w') \<Longrightarrow>
      durable w' = durable w \<and> (in_flight w' = None \<or> in_flight w' = Some (durable w))"
begin

lemma run_items_law:
  "good w \<Longrightarrow> in_flight w = Some d \<Longrightarrow> run_items (ae_run fx) i plan w = (res, w') \<Longrightarrow>
     good w' \<and> durable w' = durable w \<and>
     (case res of None \<Rightarrow> in_flight w' = Some (fold effect_of plan d)
      | Some (e, n) \<Rightarrow> i \<le> n \<and> n < i + length plan)"
proof (induction plan arbitrary: i w d)
  case (Cons it plan)
  obtain r w1 where r: "ae_run fx it w = (r, w1)" by (cases "ae_run fx it w") auto
  from run_law [OF Cons.prems(1,2) r] obtain d1 where l: "good w1" "durable w1 = durable w"
    "in_flight w1 = Some d1" "is_ok r \<longrightarrow> d1 = effect_of it d" by blast
  show ?case
  proof (cases r)
    case (Inl e)
    with Cons.prems r l show ?thesis by auto
  next
    case (Inr a)
    with Cons.prems r have "run_items (ae_run fx) (Suc i) plan w1 = (res, w')" by simp
    from Cons.IH [OF l(1,3) this] l Inr show ?thesis by (auto split: option.splits)
  qed
qed auto

lemma reopen_law:
  assumes "good w" and "reopen fx e i w = (out, w')"
  shows "\<exists>b. out = ApplyFailed e i b \<and> durable w' = durable w \<and>
    (in_flight w' = None \<or> in_flight w' = Some (durable w))"
proof -
  obtain r1 w1 where r1: "ae_rollback fx w = (r1, w1)" by (cases "ae_rollback fx w") auto
  obtain r2 w2 where r2: "ae_begin fx w1 = (r2, w2)" by (cases "ae_begin fx w1") auto
  have 1: "good w1" "durable w1 = durable w" "in_flight w1 = None"
    using rollback_law [OF assms(1) r1] by auto
  from begin_law [OF 1(1,3) r2] 1 r1 r2 assms(2) show ?thesis by (auto simp: reopen_def)
qed

text \<open>All or nothing; after a failure nothing of the plan is left in a transaction.\<close>

lemma apply_plan_law:
  assumes g: "good w" and d: "in_flight w = Some (durable w)"
    and a: "apply_plan plan fx w = (out, w')"
  shows "(out = ApplyOk \<longrightarrow> durable w' = (if still_open w' then durable w else fold effect_of plan (durable w))) \<and>
    (\<forall>e i b. out = ApplyFailed e i b \<longrightarrow> durable w' = durable w \<and>
       (in_flight w' = None \<or> in_flight w' = Some (durable w)) \<and> (\<forall>n. i = Some n \<longrightarrow> n < length plan))"
proof -
  obtain res w1 where r: "run_items (ae_run fx) 0 plan w = (res, w1)"
    by (cases "run_items (ae_run fx) 0 plan w") auto
  note l = run_items_law [OF g d r]
  show ?thesis
  proof (cases res)
    case None
    with l have l1: "good w1" "durable w1 = durable w"
      "in_flight w1 = Some (fold effect_of plan (durable w))" by auto
    obtain r2 w2 where c: "ae_commit fx w1 = (r2, w2)" by (cases "ae_commit fx w1") auto
    note cl = commit_law [OF l1(1,3) c]
    show ?thesis
    proof (cases r2)
      case (Inl e)
      with a r None c have "reopen fx e None w2 = (out, w')" by (simp add: apply_plan_def)
      from reopen_law [OF _ this] cl l1 Inl show ?thesis by auto
    next
      case (Inr u)
      with a r None c cl l1 show ?thesis by (auto simp: apply_plan_def)
    qed
  next
    case (Some p)
    obtain e n where p: "p = (e, n)" by (cases p) auto
    with a r Some have "reopen fx e (Some n) w1 = (out, w')" by (simp add: apply_plan_def)
    from reopen_law [OF _ this] l Some p show ?thesis by auto
  qed
qed

end


section \<open>Engines with transactions\<close>

text \<open>An engine, seen through its driver's handle: what is durable, what the open transaction would make
  of it, what a method of the core does on the handle, and what one that succeeds means.\<close>

record ('e, 'd) engine =
  en_durable :: "'e \<Rightarrow> 'd"
  en_work :: "'e \<Rightarrow> 'd option"
  en_row :: "string \<Rightarrow> json option \<Rightarrow> 'e \<Rightarrow> response \<times> 'e"
  en_effect :: "string \<Rightarrow> json option \<Rightarrow> 'd \<Rightarrow> 'd"

text \<open>What is asked of it (\<open>docs/IPC.md\<close>, \<open>tx.*\<close>): begin opens a transaction or is refused; a commit that
  is taken makes the transaction's work durable, a refused one nothing; a rollback ends the
  transaction whatever it answers; and within a transaction a method touches its work only: what it does
  when it succeeds is known, what it does when it fails is not.\<close>

definition tx_begins :: "('e, 'd) engine \<Rightarrow> ('e \<Rightarrow> db_status \<times> 'e) \<Rightarrow> bool" where
  "tx_begins E f \<longleftrightarrow> (\<forall>h st h'. f h = (st, h') \<longrightarrow> en_durable E h' = en_durable E h \<and>
     en_work E h' = (if st = DbOk then Some (en_durable E h) else en_work E h))"

definition tx_commits :: "('e, 'd) engine \<Rightarrow> ('e \<Rightarrow> db_status \<times> 'e) \<Rightarrow> bool" where
  "tx_commits E f \<longleftrightarrow> (\<forall>h st h'. f h = (st, h') \<longrightarrow>
     (if st = DbOk then en_durable E h' = default (en_durable E h) (en_work E h) \<and> en_work E h' = None
      else en_durable E h' = en_durable E h \<and> (en_work E h = None \<longrightarrow> en_work E h' = None)))"

definition tx_rolls_back :: "('e, 'd) engine \<Rightarrow> ('e \<Rightarrow> db_status \<times> 'e) \<Rightarrow> bool" where
  "tx_rolls_back E f \<longleftrightarrow> (\<forall>h st h'. f h = (st, h') \<longrightarrow> en_durable E h' = en_durable E h \<and> en_work E h' = None)"

definition rows_in_tx :: "('e, 'd) engine \<Rightarrow> bool" where
  "rows_in_tx E \<longleftrightarrow> (\<forall>m p h d r h'. en_work E h = Some d \<longrightarrow> en_row E m p h = (r, h') \<longrightarrow>
     en_durable E h' = en_durable E h \<and>
     (\<exists>d'. en_work E h' = Some d' \<and> (is_ok r \<longrightarrow> d' = en_effect E m p d)))"

definition tx_engine :: "('e, 'd) engine \<Rightarrow> 'e driver \<Rightarrow> bool" where
  "tx_engine E dr \<longleftrightarrow> dr_transactions dr \<and> rows_in_tx E \<and>
     (\<exists>b c r. dr_begin dr = Some b \<and> dr_commit dr = Some c \<and> dr_rollback dr = Some r \<and>
        tx_begins E b \<and> tx_commits E c \<and> tx_rolls_back E r)"

text \<open>A method on the connection it names; \<open>row\<close> is the engine's own work.\<close>

definition core_row ::
    "(string \<Rightarrow> json option \<Rightarrow> 'e \<Rightarrow> response \<times> 'e) \<Rightarrow> string \<Rightarrow> json option \<Rightarrow> 'e manager \<Rightarrow> response \<times> 'e manager" where
  "core_row row method params mgr =
     (case json_str (case params of None \<Rightarrow> None | Some p \<Rightarrow> json_field p ''connId'') of
        None \<Rightarrow> (rpc_fail (- 32602) ''params.connId (string) is required'', mgr)
      | Some s \<Rightarrow> (case conn_id_parse s of
          None \<Rightarrow> (rpc_fail (- 32602) ''malformed connId'', mgr)
        | Some cid \<Rightarrow> (case map_of mgr cid of
            None \<Rightarrow> (rpc_fail (- 32002) ''unknown connection id'', mgr)
          | Some sl \<Rightarrow> (case row method params (sl_handle sl) of
              (res, h) \<Rightarrow> (res, set_slot cid (sl\<lparr>sl_handle := h\<rparr>) mgr)))))"

definition conn_slot :: "string \<Rightarrow> 'e manager \<Rightarrow> 'e slot option" where
  "conn_slot conn mgr = (case conn_id_parse conn of None \<Rightarrow> None | Some cid \<Rightarrow> map_of mgr cid)"

text \<open>A connection to such an engine; when the core knows of no transaction there is none.\<close>

definition eng_good :: "('e, 'd) engine \<Rightarrow> string \<Rightarrow> 'e manager edit_world \<Rightarrow> bool" where
  "eng_good E conn ew \<longleftrightarrow> has_transactions conn ew \<and>
     (\<exists>sl. conn_slot conn (snd ew) = Some sl \<and> tx_engine E (sl_driver sl) \<and>
        (sl_in_tx sl \<or> en_work E (sl_handle sl) = None))"

definition eng_durable :: "('e, 'd) engine \<Rightarrow> string \<Rightarrow> 'e manager edit_world \<Rightarrow> 'd option" where
  "eng_durable E conn ew = map_option (\<lambda>sl. en_durable E (sl_handle sl)) (conn_slot conn (snd ew))"

definition eng_work :: "('e, 'd) engine \<Rightarrow> string \<Rightarrow> 'e manager edit_world \<Rightarrow> 'd option option" where
  "eng_work E conn ew =
     (case conn_slot conn (snd ew) of None \<Rightarrow> None
      | Some sl \<Rightarrow> map_option Some (en_work E (sl_handle sl)))"

definition eng_open :: "string \<Rightarrow> 'e manager edit_world \<Rightarrow> bool" where
  "eng_open conn ew = core_in_tx conn (snd ew)"

text \<open>What the engine does for one plan item.\<close>

definition item_effect :: "('e, 'd) engine \<Rightarrow> string \<Rightarrow> edit_target \<Rightarrow> plan_item \<Rightarrow> 'd option \<Rightarrow> 'd option" where
  "item_effect E conn t it =
     (case item_request conn t it False of (m, p) \<Rightarrow> map_option (en_effect E m (Some (JObj p))))"

lemmas eng_defs = eng_good_def eng_durable_def eng_work_def has_transactions_def

lemma conn_slot_Some:
  "conn_slot conn mgr = Some sl \<Longrightarrow>
     \<exists>cid. conn_id_parse conn = Some cid \<and> map_of mgr cid = Some sl"
  by (auto simp: conn_slot_def split: option.splits)

lemma map_of_opt_field: "k \<noteq> k' \<Longrightarrow> map_of (opt_field k v ob) k' = map_of ob k'"
  by (simp add: opt_field_def split: option.splits)

lemma base_params_conn: "map_of (base_params conn t preview) ''connId'' = Some (JStr conn)"
  by (simp add: base_params_def Let_def map_of_opt_field)

lemma item_request_conn:
  "item_request conn t it preview = (m, p) \<Longrightarrow>
     map_of p ''connId'' = Some (JStr conn) \<and> m \<in> {''row.update'', ''row.delete'', ''row.insert''}"
  by (cases it) (auto simp: item_request_def insert_params_def update_params_def delete_params_def
      map_of_opt_field base_params_conn)

lemma core_tx_slot:
  "conn_id_parse conn = Some cid \<Longrightarrow> map_of mgr cid = Some sl \<Longrightarrow>
     core_tx conn v mgr = tx_on_slot v cid sl mgr"
  by (simp add: core_tx_def tx_dispatch_def core_tx_params)

lemma conn_slot_set:
  "conn_id_parse conn = Some cid \<Longrightarrow> map_of mgr cid = Some sl \<Longrightarrow>
     conn_slot conn (set_slot cid sl' mgr) = Some sl'"
  by (simp add: conn_slot_def map_of_set_slot)

text \<open>A transaction verb on a slot, as the core dispatches it.\<close>

lemma eng_tx_slot:
  assumes E: "tx_engine E (sl_driver sl)" and o: "sl_in_tx sl \<or> en_work E (sl_handle sl) = None"
    and t: "tx_on_slot v cid sl mgr = (res, mgr')" and m: "map_of mgr cid = Some sl"
  shows "\<exists>sl'. map_of mgr' cid = Some sl' \<and> sl_driver sl' = sl_driver sl \<and>
    (sl_in_tx sl' \<or> en_work E (sl_handle sl') = None) \<and>
    en_durable E (sl_handle sl') = (if v = TxCommit \<and> \<not> sl_in_tx sl'
       then default (en_durable E (sl_handle sl)) (en_work E (sl_handle sl)) else en_durable E (sl_handle sl)) \<and>
    (v = TxRollback \<longrightarrow> en_work E (sl_handle sl') = None) \<and>
    (v = TxBegin \<longrightarrow> en_work E (sl_handle sl') =
       (if is_ok res then Some (en_durable E (sl_handle sl)) else en_work E (sl_handle sl)))"
proof -
  obtain b c r where dr: "dr_transactions (sl_driver sl)" "dr_begin (sl_driver sl) = Some b" "dr_commit (sl_driver sl) = Some c"
    "dr_rollback (sl_driver sl) = Some r" "tx_begins E b" "tx_commits E c" "tx_rolls_back E r"
    using E by (auto simp: tx_engine_def)
  show ?thesis
  proof (cases "v = TxBegin \<and> sl_in_tx sl")
    case True
    with t m show ?thesis by (auto simp: tx_on_slot_def rpc_fail_def)
  next
    case False
    obtain f where f: "member_of v (sl_driver sl) = Some f" "f = (case v of TxBegin \<Rightarrow> b | TxCommit \<Rightarrow> c | TxRollback \<Rightarrow> r)"
      using dr by (cases v) (auto simp: member_of_def)
    obtain st h where h: "f (sl_handle sl) = (st, h)" by (cases "f (sl_handle sl)") auto
    define flag where "flag = (if v = TxRollback \<or> st = DbOk then v = TxBegin else sl_in_tx sl)"
    have res: "is_ok res \<longleftrightarrow> st = DbOk" and new: "map_of mgr' cid = Some (sl\<lparr>sl_handle := h, sl_in_tx := flag\<rparr>)"
      using t False f h dr(1) m
      by (auto simp: tx_on_slot_def run_tx_def rpc_fail_def Let_def flag_def map_of_set_slot [OF m] split: if_splits)
    have law: "v = TxBegin \<Longrightarrow> en_durable E h = en_durable E (sl_handle sl) \<and>
        en_work E h = (if st = DbOk then Some (en_durable E (sl_handle sl)) else en_work E (sl_handle sl))"
      "v = TxCommit \<Longrightarrow> (if st = DbOk then en_durable E h = default (en_durable E (sl_handle sl)) (en_work E (sl_handle sl)) \<and> en_work E h = None
        else en_durable E h = en_durable E (sl_handle sl) \<and> (en_work E (sl_handle sl) = None \<longrightarrow> en_work E h = None))"
      "v = TxRollback \<Longrightarrow> en_durable E h = en_durable E (sl_handle sl) \<and> en_work E h = None"
      using dr(5-7) h f(2) by (simp_all add: tx_begins_def tx_commits_def tx_rolls_back_def)
    show ?thesis
    proof (intro exI [of _ "sl\<lparr>sl_handle := h, sl_in_tx := flag\<rparr>"] conjI new)
      show "sl_in_tx (sl\<lparr>sl_handle := h, sl_in_tx := flag\<rparr>) \<or> en_work E (sl_handle (sl\<lparr>sl_handle := h, sl_in_tx := flag\<rparr>)) = None"
        using law o False by (cases v) (auto simp: flag_def split: if_splits)
      show "en_durable E (sl_handle (sl\<lparr>sl_handle := h, sl_in_tx := flag\<rparr>)) =
          (if v = TxCommit \<and> \<not> sl_in_tx (sl\<lparr>sl_handle := h, sl_in_tx := flag\<rparr>)
           then default (en_durable E (sl_handle sl)) (en_work E (sl_handle sl)) else en_durable E (sl_handle sl))"
        using law o by (cases v) (auto simp: flag_def split: if_splits)
    qed (use law res in auto)
  qed
qed

lemma core_in_tx_slot: "conn_slot conn mgr = Some sl \<Longrightarrow> core_in_tx conn mgr = sl_in_tx sl"
  using conn_slot_Some [of conn mgr sl] by (auto simp: core_in_tx_def manager_in_tx_def)

lemma eng_tx:
  assumes g: "eng_good E conn (n, mgr)" and t: "core_tx conn v mgr = (res, mgr')"
  shows "eng_good E conn (n, mgr')"
    and "eng_durable E conn (n, mgr') = (if v = TxCommit \<and> \<not> eng_open conn (n, mgr')
       then (case eng_work E conn (n, mgr) of None \<Rightarrow> eng_durable E conn (n, mgr) | Some d \<Rightarrow> d)
       else eng_durable E conn (n, mgr))"
    and "v = TxRollback \<Longrightarrow> eng_work E conn (n, mgr') = None"
    and "v = TxBegin \<Longrightarrow> eng_work E conn (n, mgr') =
       (if is_ok res then Some (eng_durable E conn (n, mgr)) else eng_work E conn (n, mgr))"
proof -
  obtain sl where sl: "conn_slot conn mgr = Some sl" "tx_engine E (sl_driver sl)"
    "sl_in_tx sl \<or> en_work E (sl_handle sl) = None" and n: "conn \<notin> set n"
    using g by (auto simp: eng_defs)
  obtain cid where c: "conn_id_parse conn = Some cid" "map_of mgr cid = Some sl"
    using conn_slot_Some [OF sl(1)] by blast
  have t': "tx_on_slot v cid sl mgr = (res, mgr')" using t core_tx_slot [OF c] by metis
  obtain sl' where sl': "map_of mgr' cid = Some sl'" "sl_driver sl' = sl_driver sl"
    "sl_in_tx sl' \<or> en_work E (sl_handle sl') = None"
    "en_durable E (sl_handle sl') = (if v = TxCommit \<and> \<not> sl_in_tx sl'
       then default (en_durable E (sl_handle sl)) (en_work E (sl_handle sl)) else en_durable E (sl_handle sl))"
    "v = TxRollback \<longrightarrow> en_work E (sl_handle sl') = None"
    "v = TxBegin \<longrightarrow> en_work E (sl_handle sl') =
       (if is_ok res then Some (en_durable E (sl_handle sl)) else en_work E (sl_handle sl))"
    using eng_tx_slot [OF sl(2,3) t' c(2)] by blast
  have s': "conn_slot conn mgr' = Some sl'" using c(1) sl'(1) by (simp add: conn_slot_def)
  show "eng_good E conn (n, mgr')" using n s' sl sl' by (simp add: eng_defs)
  show "eng_durable E conn (n, mgr') = (if v = TxCommit \<and> \<not> eng_open conn (n, mgr')
       then (case eng_work E conn (n, mgr) of None \<Rightarrow> eng_durable E conn (n, mgr) | Some d \<Rightarrow> d)
       else eng_durable E conn (n, mgr))"
    using sl(1) s' sl'(4) core_in_tx_slot [OF s'] by (simp add: eng_defs eng_open_def split: option.split)
  show "v = TxRollback \<Longrightarrow> eng_work E conn (n, mgr') = None" using s' sl'(5) by (simp add: eng_work_def)
  show "v = TxBegin \<Longrightarrow> eng_work E conn (n, mgr') =
       (if is_ok res then Some (eng_durable E conn (n, mgr)) else eng_work E conn (n, mgr))"
    using sl(1) s' sl'(6) by (simp add: eng_defs)
qed

lemma eng_row:
  assumes g: "eng_good E conn (n, mgr)" and w: "eng_work E conn (n, mgr) = Some d"
    and p: "map_of p ''connId'' = Some (JStr conn)"
    and r: "core_row (en_row E) m (Some (JObj p)) mgr = (res, mgr')"
  shows "eng_good E conn (n, mgr') \<and> eng_durable E conn (n, mgr') = eng_durable E conn (n, mgr) \<and>
    (\<exists>d'. eng_work E conn (n, mgr') = Some d' \<and> (is_ok res \<longrightarrow> d' = map_option (en_effect E m (Some (JObj p))) d))"
proof -
  obtain sl where sl: "conn_slot conn mgr = Some sl" "tx_engine E (sl_driver sl)"
    "sl_in_tx sl \<or> en_work E (sl_handle sl) = None" and n: "conn \<notin> set n"
    using g by (auto simp: eng_defs)
  obtain cid where c: "conn_id_parse conn = Some cid" "map_of mgr cid = Some sl"
    using conn_slot_Some [OF sl(1)] by blast
  obtain d0 where d0: "en_work E (sl_handle sl) = Some d0" "d = Some d0"
    using w sl(1) by (auto simp: eng_work_def)
  obtain r1 h where h: "en_row E m (Some (JObj p)) (sl_handle sl) = (r1, h)"
    by (cases "en_row E m (Some (JObj p)) (sl_handle sl)") auto
  have "rows_in_tx E" using sl(2) by (simp add: tx_engine_def)
  from this [unfolded rows_in_tx_def, rule_format, OF d0(1) h] obtain d1 where
    law: "en_durable E h = en_durable E (sl_handle sl)" "en_work E h = Some d1" "is_ok r1 \<longrightarrow> d1 = en_effect E m (Some (JObj p)) d0"
    by blast
  have "json_str (json_field (JObj p) ''connId'') = Some conn"
    using p by (simp add: json_str_def json_field_def)
  then have "res = r1" "mgr' = set_slot cid (sl\<lparr>sl_handle := h\<rparr>) mgr"
    using r c h by (auto simp: core_row_def)
  with sl n c d0 law show ?thesis by (auto simp: eng_defs conn_slot_set [OF c])
qed

definition eng_effects :: "('e, 'd) engine \<Rightarrow> string \<Rightarrow> edit_target \<Rightarrow> (row_result, 'e manager edit_world) apply_effects" where
  "eng_effects E conn t = app_effects (core_channel (core_row (en_row E))) conn t"

lemma eng_effects_run:
  assumes "item_request conn t it False = (m, p)"
  shows "ae_run (eng_effects E conn t) it (n, mgr) =
    (case core_row (en_row E) m (Some (JObj p)) mgr of (res, mgr') \<Rightarrow> (parse_row_result res, (n, mgr')))"
proof -
  have "m \<noteq> ''tx.begin''" "m \<noteq> ''tx.commit''" "m \<noteq> ''tx.rollback''"
    using item_request_conn [OF assms] by auto
  then show ?thesis
    using assms
    by (simp add: eng_effects_def app_effects_def lift_effect_def run_plan_item_def row_call_def
        core_channel_def split: prod.splits)
qed

lemma eng_effects_tx:
  "conn \<notin> set n \<Longrightarrow> ae_commit (eng_effects E conn t) (n, mgr) =
     (Inr (), (n, snd (core_tx conn TxCommit mgr)))"
  "conn \<notin> set n \<Longrightarrow> ae_rollback (eng_effects E conn t) (n, mgr) =
     (Inr (), (n, snd (core_tx conn TxRollback mgr)))"
  by (simp_all add: eng_effects_def app_effects_def tx_commit_if_open_def tx_rollback_if_open_def
      has_transactions_def lift_effect_def tx_call_core)

lemma eng_effects_begin:
  "snd (snd (ae_begin (eng_effects E conn t) (n, mgr))) = snd (core_tx conn TxBegin mgr)"
  using core_channel_tx [of "core_row (en_row E)" TxBegin conn mgr]
  by (simp add: eng_effects_def app_effects_def tx_begin_if_supported_def tx_method_def split: prod.splits sum.splits)

lemma parse_row_ok: "is_ok (parse_row_result res) = is_ok res"
  by (simp add: parse_row_result_def is_ok_def split: sum.splits)

lemma eng_durable_snd: "eng_durable E conn ew = eng_durable E conn (n, snd ew)"
  and eng_work_snd: "eng_work E conn ew = eng_work E conn (n, snd ew)"
  by (simp_all add: eng_durable_def eng_work_def)

interpretation eng: tx_store "eng_effects E conn t" "eng_good E conn" "eng_durable E conn"
  "eng_work E conn" "eng_open conn" "item_effect E conn t" for E :: "('e, 'd) engine" and conn t
proof
  fix w w' :: "'e manager edit_world" and d it r
  obtain n mgr where w: "w = (n, mgr)" by (cases w) auto
  assume g: "eng_good E conn w" and d: "eng_work E conn w = Some d"
    and r: "ae_run (eng_effects E conn t) it w = (r, w')"
  obtain m p where mp: "item_request conn t it False = (m, p)" by (cases "item_request conn t it False") auto
  obtain res mgr' where c: "core_row (en_row E) m (Some (JObj p)) mgr = (res, mgr')"
    by (cases "core_row (en_row E) m (Some (JObj p)) mgr") auto
  have "w' = (n, mgr')" "is_ok r = is_ok res"
    using r w c eng_effects_run [OF mp, of E n mgr] parse_row_ok by auto
  moreover note eng_row [OF g [unfolded w] d [unfolded w] _ c] item_request_conn [OF mp]
  ultimately show "eng_good E conn w' \<and> eng_durable E conn w' = eng_durable E conn w \<and>
      (\<exists>d'. eng_work E conn w' = Some d' \<and> (is_ok r \<longrightarrow> d' = item_effect E conn t it d))"
    using w mp by (simp add: item_effect_def)
next
  fix w w' :: "'e manager edit_world" and d r
  obtain n mgr where w: "w = (n, mgr)" by (cases w) auto
  assume g: "eng_good E conn w" and d: "eng_work E conn w = Some d"
    and r: "ae_commit (eng_effects E conn t) w = (r, w')"
  have "conn \<notin> set n" using g w by (simp add: eng_defs)
  then have "r = Inr ()" "w' = (n, snd (core_tx conn TxCommit mgr))"
    using r w by (auto simp: eng_effects_tx)
  with eng_tx(1,2) [OF g [unfolded w] prod.collapse [symmetric], of TxCommit] d w
  show "eng_good E conn w' \<and> eng_durable E conn w' = (if is_ok r \<and> \<not> eng_open conn w' then d else eng_durable E conn w)"
    by simp
next
  fix w w' :: "'e manager edit_world" and r
  obtain n mgr where w: "w = (n, mgr)" by (cases w) auto
  assume g: "eng_good E conn w" and r: "ae_rollback (eng_effects E conn t) w = (r, w')"
  have "conn \<notin> set n" using g w by (simp add: eng_defs)
  then have "w' = (n, snd (core_tx conn TxRollback mgr))"
    using r w by (auto simp: eng_effects_tx)
  with eng_tx(1,2,3) [OF g [unfolded w] prod.collapse [symmetric], of TxRollback] w
  show "eng_good E conn w' \<and> eng_durable E conn w' = eng_durable E conn w \<and> eng_work E conn w' = None"
    by simp
next
  fix w w' :: "'e manager edit_world" and r
  obtain n mgr where w: "w = (n, mgr)" by (cases w) auto
  assume g: "eng_good E conn w" and d: "eng_work E conn w = None"
    and r: "ae_begin (eng_effects E conn t) w = (r, w')"
  have "snd w' = snd (core_tx conn TxBegin mgr)" using eng_effects_begin [of E conn t n mgr] r w by simp
  then have "eng_durable E conn w' = eng_durable E conn (n, snd (core_tx conn TxBegin mgr))"
    "eng_work E conn w' = eng_work E conn (n, snd (core_tx conn TxBegin mgr))"
    using eng_durable_snd [of E conn w' n] eng_work_snd [of E conn w' n] by simp_all
  with eng_tx(2,4) [OF g [unfolded w] prod.collapse [symmetric], of TxBegin] d w
  show "eng_durable E conn w' = eng_durable E conn w \<and> (eng_work E conn w' = None \<or> eng_work E conn w' = Some (eng_durable E conn w))"
    by simp
qed

section \<open>A response that carries an error is not seen\<close>

lemma app_commit_ignores_error:
  assumes "chan ''tx.commit'' (conn_params conn) w = (Inr res, w')" and "conn \<notin> set n"
  shows "ae_commit (app_effects chan conn t) (n, w) = (Inr (), (n, w'))"
  using assms
  by (simp add: app_effects_def tx_commit_if_open_def has_transactions_def lift_effect_def tx_call_def
      tx_method_def)

lemma apply_plan_commit_error:
  assumes "run_items (ae_run (app_effects chan conn t)) 0 plan ew = (None, (n, w))"
    and "conn \<notin> set n" and "chan ''tx.commit'' (conn_params conn) w = (Inr (Inl e), w')"
  shows "apply_plan plan (app_effects chan conn t) ew = (ApplyOk, (n, w'))"
  using assms by (simp add: apply_plan_def app_commit_ignores_error)

section \<open>Properties\<close>


text \<open>An engine that works on a copy of its data, counts its rows, and refuses deletes and the commits of more
  than \<open>most\<close> rows.\<close>

record 'd snapshot =
  sn_durable :: 'd
  sn_work :: "'d option"

definition snapshot_driver :: "nat \<Rightarrow> nat snapshot driver" where
  "snapshot_driver most =
     \<lparr>dr_transactions = True,
      dr_begin = Some (\<lambda>h. (DbOk, h\<lparr>sn_work := Some (sn_durable h)\<rparr>)),
      dr_commit = Some (\<lambda>h. case sn_work h of None \<Rightarrow> (DbOk, h)
        | Some d \<Rightarrow> if d > most then (DbQuery, h) else (DbOk, \<lparr>sn_durable = d, sn_work = None\<rparr>)),
      dr_rollback = Some (\<lambda>h. (DbOk, h\<lparr>sn_work := None\<rparr>)),
      dr_last_error = (\<lambda>h. ''error'')\<rparr>"

definition count_row :: "string \<Rightarrow> json option \<Rightarrow> nat snapshot \<Rightarrow> response \<times> nat snapshot" where
  "count_row m p h =
     (if m = ''row.delete'' then (rpc_fail (- 32003) ''refused'', h)
      else (Inr (JObj []), case sn_work h of None \<Rightarrow> h\<lparr>sn_durable := sn_durable h + 1\<rparr> | Some d \<Rightarrow> h\<lparr>sn_work := Some (d + 1)\<rparr>))"

definition snapshot_engine :: "(string \<Rightarrow> json option \<Rightarrow> nat snapshot \<Rightarrow> response \<times> nat snapshot) \<Rightarrow> (nat snapshot, nat) engine" where
  "snapshot_engine row = \<lparr>en_durable = sn_durable, en_work = sn_work, en_row = row, en_effect = (\<lambda>m p d. d + 1)\<rparr>"

lemma snapshot_tx_engine:
  assumes "rows_in_tx (snapshot_engine row)"
  shows "tx_engine (snapshot_engine row) (snapshot_driver most)"
  using assms
  by (auto simp: tx_engine_def snapshot_driver_def snapshot_engine_def tx_begins_def tx_commits_def tx_rolls_back_def
      split: option.splits if_splits)

lemma count_rows_in_tx: "rows_in_tx (snapshot_engine count_row)"
  by (auto simp: rows_in_tx_def snapshot_engine_def count_row_def rpc_fail_def split: if_splits)

definition demo_target :: edit_target where
  "demo_target = \<lparr>et_table = ''t'', et_db = None, et_schema = None\<rparr>"

definition demo_world :: "nat snapshot manager edit_world" where
  "demo_world = ([], [(1, \<lparr>sl_driver = snapshot_driver 6,
     sl_handle = \<lparr>sn_durable = 5, sn_work = Some 5\<rparr>, sl_in_tx = True\<rparr>)])"

definition demo_run :: "plan_item list \<Rightarrow> apply_outcome \<times> nat snapshot manager edit_world" where
  "demo_run plan = apply_plan plan (eng_effects (snapshot_engine count_row) ''c1'' demo_target) demo_world"

definition demo_insert :: plan_item where
  "demo_insert = Insert [(''a'', None)] None None"


text \<open>C39. The application's commit drops the response: when every item ran and the core answers
  \<open>tx.commit\<close> with an error, the plan is still reported as applied, so the pending changes
  are discarded although nothing was made durable.\<close>

theorem failed_commit_reported_applied:
  assumes "run_items (ae_run (app_effects chan conn t)) 0 plan ew = (None, (n, w))"
    and "conn \<notin> set n" and "chan ''tx.commit'' (conn_params conn) w = (Inr (Inl e), w')"
  shows "apply_plan plan (app_effects chan conn t) ew = (ApplyOk, (n, w'))"
  using assms by (rule apply_plan_commit_error)

definition busy_channel :: "nat channel" where
  "busy_channel m p w =
     (if m = ''tx.commit'' then (Inr (rpc_fail (- 32003) ''database is locked''), w)
      else (Inr (Inr (JObj [])), w + 1))"

theorem failed_commit_reported_applied_witness:
  "apply_plan [Delete [(''id'', Some ''1'')]] (app_effects busy_channel ''c1'' demo_target) ([], 0) = (ApplyOk, ([], 1))"
proof (rule failed_commit_reported_applied)
  show "run_items (ae_run (app_effects busy_channel ''c1'' demo_target)) 0 [Delete [(''id'', Some ''1'')]] ([], 0)
      = (None, ([], 1))"
    by (simp add: app_effects_def lift_effect_def run_plan_item_def item_request_def row_call_def
        busy_channel_def parse_row_result_def)
  show "busy_channel ''tx.commit'' (conn_params ''c1'') 1
      = (Inr (Inl \<lparr>er_code = - 32003, er_message = ''database is locked'', er_data = None\<rparr>), 1)"
    by (simp add: busy_channel_def rpc_fail_def)
qed simp

end
