(* ===== verification/Transport.thy ===== *)
theory Transport
  imports CoreTx SafeMode
begin

text \<open>
  The one function every call to the core goes through (\<open>transport.ts\<close>), with the request
  helpers of \<open>ipc.ts\<close> and the reconnection policy of \<open>reconnect.ts\<close>: the protection of
  each session, the consent of a confirmed action, the traffic of each connection, and the
  single re-send after a reconnection. The bridge, the user's dialog and the reconnecting
  listener are parameters acting on the world.
\<close>

section \<open>Requests\<close>

record request =
  rq_id :: nat
  rq_method :: string
  rq_params :: "json option"

definition build_request :: "nat \<Rightarrow> string \<Rightarrow> json option \<Rightarrow> request" where
  "build_request n method params = \<lparr>rq_id = n, rq_method = method, rq_params = params\<rparr>"

definition conn_id_of_params :: "json option \<Rightarrow> string option" where
  "conn_id_of_params params =
     (case params of Some (JObj ob) \<Rightarrow>
        (case map_of ob ''connId'' of Some (JStr s) \<Rightarrow> if s \<noteq> [] then Some s else None | _ \<Rightarrow> None)
      | _ \<Rightarrow> None)"

section \<open>Reconnection policy\<close>

record lost_state =
  li_in_tx :: bool
  li_retry_safe :: bool

definition lost_info :: "json option \<Rightarrow> lost_state option" where
  "lost_info data =
     (case data of Some (JObj ob) \<Rightarrow>
        if \<not> json_true (map_of ob ''connLost'') then None
        else Some \<lparr>li_in_tx = json_true (map_of ob ''inTx''),
                   li_retry_safe = json_true (map_of ob ''retrySafe'')\<rparr>
      | _ \<Rightarrow> None)"

definition may_reconnect :: "lost_state option \<Rightarrow> bool \<Rightarrow> bool" where
  "may_reconnect info ui_tx_open \<longleftrightarrow>
     (case info of None \<Rightarrow> False | Some i \<Rightarrow> \<not> li_in_tx i \<and> \<not> ui_tx_open)"

definition may_retry :: "lost_state option \<Rightarrow> bool \<Rightarrow> bool \<Rightarrow> bool" where
  "may_retry info reconnected retried \<longleftrightarrow> reconnected \<and> \<not> retried \<and>
     (case info of None \<Rightarrow> False | Some i \<Rightarrow> li_retry_safe i)"

datatype retry_reason = NrTx | NrUnsafe | NrDown

definition not_retried :: "bool \<Rightarrow> bool \<Rightarrow> retry_reason" where
  "not_retried tx_lost reconnected =
     (if tx_lost then NrTx else if reconnected then NrUnsafe else NrDown)"

definition not_retried_str :: "retry_reason \<Rightarrow> string" where
  "not_retried_str r = (case r of NrTx \<Rightarrow> ''tx'' | NrUnsafe \<Rightarrow> ''unsafe'' | NrDown \<Rightarrow> ''down'')"

definition MAX_BACKOFF_SEC :: int where "MAX_BACKOFF_SEC = 600"

definition keep_alive_delay_sec :: "int \<Rightarrow> int \<Rightarrow> int" where
  "keep_alive_delay_sec interval failures =
     (let backoff = interval * 2 ^ nat (min (max failures 0) 10)
      in min backoff (max interval MAX_BACKOFF_SEC))"

record conn_activity =
  ac_in_flight :: int
  ac_last :: int

definition keep_alive_due :: "int \<Rightarrow> int \<Rightarrow> conn_activity \<Rightarrow> int \<Rightarrow> bool" where
  "keep_alive_due now interval act failures \<longleftrightarrow>
     (if \<not> interval > 0 \<or> ac_in_flight act > 0 then False
      else now - ac_last act \<ge> keep_alive_delay_sec interval failures * 1000)"

definition retry_delay_sec :: "int \<Rightarrow> int" where
  "retry_delay_sec attempt = min 60 (5 * 2 ^ nat (max 0 (min attempt 4)))"

text \<open>\<open>Math.ceil(n / 1000)\<close> of an integer.\<close>

definition seconds_left :: "int \<Rightarrow> int \<Rightarrow> int" where
  "seconds_left at_ms now = max 0 (- ((- (at_ms - now)) div 1000))"

section \<open>State\<close>

record 'w net =
  nt_guards :: "(string \<times> safe_mode_guard) list"
  nt_consent :: "(string \<times> nat) list"
  nt_activity :: "(string \<times> conn_activity) list"
  nt_counter :: nat
  nt_world :: 'w

text \<open>The dialog of the application and its texts.\<close>

record 'w safe_ui =
  ui_confirm :: "safe_mode_guard \<Rightarrow> string list \<Rightarrow> 'w \<Rightarrow> bool \<times> 'w"
  ui_blocked :: "string \<Rightarrow> string"
  ui_declined :: string

record lost_outcome =
  lo_to :: "string option"
  lo_tx_lost :: bool

text \<open>What surrounds the transport: the clock, the bridge (absent in a plain browser), the
  dialog, the connection-lost listener.\<close>

record 'w env =
  ev_now :: "'w \<Rightarrow> int"
  ev_bridge :: "(request \<Rightarrow> (response, 'w) effect) option"
  ev_ui :: "'w safe_ui option"
  ev_listener :: "(string \<Rightarrow> json option \<Rightarrow> 'w net \<Rightarrow> lost_outcome option \<times> 'w net) option"

section \<open>Guards and consent\<close>

definition set_conn_guard :: "string \<Rightarrow> safe_mode_guard option \<Rightarrow> 'w net \<Rightarrow> 'w net" where
  "set_conn_guard conn g st =
     st\<lparr>nt_guards := (case g of Some x \<Rightarrow> map_set conn x (nt_guards st)
                      | None \<Rightarrow> obj_del conn (nt_guards st))\<rparr>"

definition conn_guard :: "'w net \<Rightarrow> string \<Rightarrow> safe_mode_guard option" where
  "conn_guard st conn = map_of (nt_guards st) conn"

definition consent_of :: "'w net \<Rightarrow> string \<Rightarrow> nat" where
  "consent_of st conn = (case map_of (nt_consent st) conn of None \<Rightarrow> 0 | Some n \<Rightarrow> n)"

definition SAFE_MODE_BLOCKED :: int where "SAFE_MODE_BLOCKED = - 32010"

definition request_writes :: "string \<Rightarrow> json option \<Rightarrow> string \<Rightarrow> string list option" where
  "request_writes method params engine =
     (let f = (\<lambda>k. case params of None \<Rightarrow> None | Some p \<Rightarrow> json_field p k) in
      if method = ''query.run'' then
        (let sql = (case json_str (f ''sql'') of None \<Rightarrow> [] | Some s \<Rightarrow> s)
         in if classify_sql sql (Some engine) = Write then Some [sql] else None)
      else if method = ''row.insert'' \<or> method = ''row.update'' \<or> method = ''row.delete'' then
        (if json_true (f ''preview'') then None
         else Some [method @ '' '' @ (case json_str (f ''table'') of None \<Rightarrow> [] | Some s \<Rightarrow> s)])
      else None)"

definition blocked_error :: "string \<Rightarrow> rpc_error" where
  "blocked_error msg = \<lparr>er_code = SAFE_MODE_BLOCKED, er_message = msg, er_data = None\<rparr>"

definition refusal :: "'w env \<Rightarrow> safe_mode_guard \<Rightarrow> rpc_error" where
  "refusal ev g = blocked_error (case ev_ui ev of Some u \<Rightarrow> ui_blocked u (g_name g)
     | None \<Rightarrow> CHR 0x22 # g_name g @ CHR 0x22 # '' is read-only: the write was not sent.'')"

definition declined :: "'w env \<Rightarrow> rpc_error" where
  "declined ev = blocked_error (case ev_ui ev of Some u \<Rightarrow> ui_declined u
     | None \<Rightarrow> ''Cancelled: the write was not confirmed.'')"

text \<open>Asking the user, when there is someone to ask.\<close>

definition ask :: "'w env \<Rightarrow> safe_mode_guard \<Rightarrow> string list \<Rightarrow> 'w net \<Rightarrow> bool \<times> 'w net" where
  "ask ev g writes st =
     (case ev_ui ev of None \<Rightarrow> (False, st)
      | Some u \<Rightarrow> (case ui_confirm u g writes (nt_world st) of (b, w) \<Rightarrow> (b, st\<lparr>nt_world := w\<rparr>)))"

definition safe_mode_block ::
    "'w env \<Rightarrow> string \<Rightarrow> json option \<Rightarrow> 'w net \<Rightarrow> rpc_error option \<times> 'w net" where
  "safe_mode_block ev method params st =
     (case conn_id_of_params params of None \<Rightarrow> (None, st)
      | Some conn \<Rightarrow> (case conn_guard st conn of None \<Rightarrow> (None, st)
        | Some g \<Rightarrow> (case request_writes method params (g_engine g) of None \<Rightarrow> (None, st)
          | Some writes \<Rightarrow>
              if g_mode g = ReadOnly then (Some (refusal ev g), st)
              else if consent_of st conn > 0 then (None, st)
              else (case ask ev g writes st of
                  (True, st') \<Rightarrow> (None, st') | (False, st') \<Rightarrow> (Some (declined ev), st')))))"

text \<open>\<open>withConfirmedWrites\<close> and \<open>withWriteConsent\<close> around an action \<open>f\<close>.\<close>

definition consent_up :: "string \<Rightarrow> 'w net \<Rightarrow> 'w net" where
  "consent_up conn st = st\<lparr>nt_consent := map_set conn (consent_of st conn + 1) (nt_consent st)\<rparr>"

definition consent_down :: "string \<Rightarrow> 'w net \<Rightarrow> 'w net" where
  "consent_down conn st =
     (let left = (case map_of (nt_consent st) conn of None \<Rightarrow> 1 | Some n \<Rightarrow> n) - 1
      in st\<lparr>nt_consent := (if left > 0 then map_set conn left (nt_consent st)
                           else obj_del conn (nt_consent st))\<rparr>)"

definition with_confirmed_writes :: "string \<Rightarrow> ('a, 'w net) effect \<Rightarrow> ('a, 'w net) effect" where
  "with_confirmed_writes conn f st =
     (case f (consent_up conn st) of (r, st') \<Rightarrow> (r, consent_down conn st'))"

definition with_write_consent ::
    "'w env \<Rightarrow> string \<Rightarrow> string list \<Rightarrow> ('a, 'w net) effect \<Rightarrow> ('a, 'w net) effect" where
  "with_write_consent ev conn stmts f st =
     (case conn_guard st conn of
        None \<Rightarrow> f st
      | Some g \<Rightarrow> (let writes = write_statements stmts (Some (g_engine g)) in
          if writes = [] \<or> consent_of st conn > 0 then f st
          else if g_mode g = ReadOnly then (Inl (QueryError (refusal ev g)), st)
          else (case ask ev g writes st of
              (False, st') \<Rightarrow> (Inl (QueryError (declined ev)), st')
            | (True, st') \<Rightarrow> with_confirmed_writes conn f st')))"

section \<open>Calls\<close>

definition activity_of :: "'w net \<Rightarrow> string \<Rightarrow> conn_activity" where
  "activity_of st conn =
     (case map_of (nt_activity st) conn of None \<Rightarrow> \<lparr>ac_in_flight = 0, ac_last = 0\<rparr> | Some a \<Rightarrow> a)"

text \<open>\<open>act.inFlight += d; act.last = Date.now()\<close> when the call names a connection.\<close>

definition traffic :: "'w env \<Rightarrow> int \<Rightarrow> string option \<Rightarrow> 'w net \<Rightarrow> 'w net" where
  "traffic ev d conn st =
     (case conn of None \<Rightarrow> st
      | Some c \<Rightarrow> st\<lparr>nt_activity := map_set c
          \<lparr>ac_in_flight = ac_in_flight (activity_of st c) + d, ac_last = ev_now ev (nt_world st)\<rparr>
          (nt_activity st)\<rparr>)"

text \<open>The part of \<open>call\<close> up to the response: refused by the guard, or sent.\<close>

definition send :: "'w env \<Rightarrow> string \<Rightarrow> json option \<Rightarrow> (bool \<times> response, 'w net) effect" where
  "send ev method params st =
     (case ev_bridge ev of
        None \<Rightarrow> (Inl (OtherError ''Squaero bridge unavailable (not running inside the webview shell)''), st)
      | Some rpc \<Rightarrow>
          (let conn = conn_id_of_params params;
               st1 = traffic ev 1 conn st;
               st2 = st1\<lparr>nt_counter := nt_counter st1 + 1\<rparr>;
               req = build_request (nt_counter st2) method params
           in case safe_mode_block ev method params st2 of
               (Some e, st3) \<Rightarrow> (Inr (False, Inl e), traffic ev (- 1) conn st3)
             | (None, st3) \<Rightarrow> (case rpc req (nt_world st3) of (r, w) \<Rightarrow>
                 (let st4 = traffic ev (- 1) conn (st3\<lparr>nt_world := w\<rparr>) in
                  case r of Inl e \<Rightarrow> (Inl e, st4) | Inr res \<Rightarrow> (Inr (True, res), st4)))))"

definition says_connection_lost :: "string \<Rightarrow> response \<Rightarrow> bool" where
  "says_connection_lost method res \<longleftrightarrow> method \<noteq> ''conn.open'' \<and>
     (case res of Inl e \<Rightarrow> er_code e = IPC_ERR_CONN | Inr _ \<Rightarrow> False)"

definition object_fields :: "json option \<Rightarrow> json obj" where
  "object_fields d = (case d of Some (JObj ob) \<Rightarrow> ob | _ \<Rightarrow> [])"

definition mark_not_retried :: "retry_reason \<Rightarrow> response \<Rightarrow> response" where
  "mark_not_retried why res =
     (case res of Inr j \<Rightarrow> Inr j
      | Inl e \<Rightarrow> Inl (e\<lparr>er_data := Some (JObj (obj_set ''notRetried'' (JStr (not_retried_str why))
          (object_fields (er_data e))))\<rparr>))"

definition listen ::
    "'w env \<Rightarrow> string \<Rightarrow> json option \<Rightarrow> 'w net \<Rightarrow> lost_outcome option \<times> 'w net" where
  "listen ev conn data st =
     (case ev_listener ev of None \<Rightarrow> (None, st) | Some f \<Rightarrow> f conn data st)"

definition drop_activity :: "string \<Rightarrow> string option \<Rightarrow> 'w net \<Rightarrow> 'w net" where
  "drop_activity method conn st =
     (case conn of Some c \<Rightarrow> if method = ''conn.close''
        then st\<lparr>nt_activity := obj_del c (nt_activity st)\<rparr> else st | None \<Rightarrow> st)"

function call_loop ::
    "'w env \<Rightarrow> string \<Rightarrow> json option \<Rightarrow> bool \<Rightarrow> (response, 'w net) effect" where
  "call_loop ev method params retried st =
     (case send ev method params st of
        (Inl e, st1) \<Rightarrow> (Inl e, st1)
      | (Inr (sent, res), st1) \<Rightarrow>
          if \<not> sent then (Inr res, st1)
          else (let conn = conn_id_of_params params; st2 = drop_activity method conn st1 in
            case (conn, res) of
              (Some c, Inl e) \<Rightarrow>
                if \<not> says_connection_lost method res then (Inr res, st2)
                else (case listen ev c (er_data e) st2 of (out, st3) \<Rightarrow>
                  (let dest = (case out of None \<Rightarrow> None | Some x \<Rightarrow> lo_to x);
                       tx_lost = (case out of None \<Rightarrow> False | Some x \<Rightarrow> lo_tx_lost x) in
                   case dest of
                     Some d \<Rightarrow>
                       if may_retry (lost_info (er_data e)) True retried
                       then call_loop ev method
                         (Some (JObj (obj_set ''connId'' (JStr d) (object_fields params)))) True st3
                       else (Inr (mark_not_retried (not_retried tx_lost True) res), st3)
                   | None \<Rightarrow> (Inr (mark_not_retried (not_retried tx_lost False) res), st3)))
            | _ \<Rightarrow> (Inr res, st2)))"
  by pat_completeness auto
termination
  by (relation "measure (\<lambda>(_, _, _, retried, _). if retried then 0 else 1)")
     (auto simp: may_retry_def)

declare call_loop.simps [simp del]

definition call :: "'w env \<Rightarrow> string \<Rightarrow> json option \<Rightarrow> (response, 'w net) effect" where
  "call ev method params = call_loop ev method params False"

definition cancel_query :: "'w env \<Rightarrow> string \<Rightarrow> (bool, 'w net) effect" where
  "cancel_query ev conn st =
     (case call ev ''op.cancel'' (Some (JObj [(''connId'', JStr conn)])) st of
        (Inl e, st') \<Rightarrow> (Inl e, st')
      | (Inr (Inl _), st') \<Rightarrow> (Inr False, st')
      | (Inr (Inr j), st') \<Rightarrow> (Inr (json_true (json_field j ''canceled'')), st'))"


section \<open>The guard\<close>

lemma consent_map_set [simp]: "map_of (nt_consent (consent_up conn st)) c =
    (if c = conn then Some (consent_of st conn + 1) else map_of (nt_consent st) c)"
  by (simp add: consent_up_def)

lemma consent_of_up: "consent_of (consent_up conn st) c =
    (if c = conn then consent_of st c + 1 else consent_of st c)"
  by (simp add: consent_of_def)

lemma consent_of_down: "consent_of (consent_down conn st) c =
    (if c = conn then consent_of st c - 1 else consent_of st c)"
  by (auto simp: consent_down_def consent_of_def Let_def split: option.splits)

lemma guard_unchanged [simp]:
  "conn_guard (traffic ev d c st) = conn_guard st"
  "conn_guard (st\<lparr>nt_counter := n\<rparr>) = conn_guard st"
  "conn_guard (st\<lparr>nt_world := w\<rparr>) = conn_guard st"
  "conn_guard (consent_up conn st) = conn_guard st"
  "conn_guard (consent_down conn st) = conn_guard st"
  by (auto simp: conn_guard_def traffic_def consent_up_def consent_down_def Let_def fun_eq_iff
      split: option.splits)

lemma consent_unchanged [simp]:
  "consent_of (traffic ev d c st) = consent_of st"
  "consent_of (st\<lparr>nt_counter := n\<rparr>) = consent_of st"
  "consent_of (st\<lparr>nt_world := w\<rparr>) = consent_of st"
  by (auto simp: consent_of_def traffic_def fun_eq_iff split: option.splits)

lemma world_unchanged [simp]:
  "nt_world (traffic ev d c st) = nt_world st"
  "nt_world (consent_up conn st) = nt_world st"
  "nt_world (consent_down conn st) = nt_world st"
  by (auto simp: traffic_def consent_up_def consent_down_def Let_def split: option.splits)

definition guarded :: "'w net \<Rightarrow> string \<Rightarrow> json option \<Rightarrow> safe_mode_guard \<Rightarrow> string list \<Rightarrow> bool" where
  "guarded st method params g writes \<longleftrightarrow>
     (\<exists>conn. conn_id_of_params params = Some conn \<and> conn_guard st conn = Some g \<and>
        request_writes method params (g_engine g) = Some writes)"

lemma block_read_only:
  assumes "guarded st method params g writes" and "g_mode g = ReadOnly"
  shows "safe_mode_block ev method params st = (Some (refusal ev g), st)"
  using assms by (auto simp: guarded_def safe_mode_block_def)

lemma guarded_send_state:
  "guarded st method params g writes \<Longrightarrow>
     guarded (st'\<lparr>nt_counter := n\<rparr>) method params g writes \<longleftrightarrow> guarded st' method params g writes"
  by (simp add: guarded_def)

lemma send_read_only:
  assumes "guarded st method params g writes" and "g_mode g = ReadOnly" and "ev_bridge ev \<noteq> None"
  shows "\<exists>st'. send ev method params st = (Inr (False, Inl (refusal ev g)), st') \<and>
    nt_world st' = nt_world st"
proof -
  let ?st2 = "\<lambda>n. traffic ev 1 (conn_id_of_params params) st\<lparr>nt_counter := n\<rparr>"
  have "guarded (?st2 n) method params g writes" for n
    using assms(1) by (simp add: guarded_def)
  then have "safe_mode_block ev method params (?st2 n) = (Some (refusal ev g), ?st2 n)" for n
    using assms(2) by (rule block_read_only)
  with assms(3) show ?thesis by (auto simp: send_def Let_def)
qed

lemma ask_False:
  "\<not> fst (ask ev g writes st) \<Longrightarrow> ask ev g writes st = (False, st\<lparr>nt_world :=
     (case ev_ui ev of None \<Rightarrow> nt_world st | Some u \<Rightarrow> snd (ui_confirm u g writes (nt_world st)))\<rparr>)"
  by (auto simp: ask_def split: option.splits prod.splits)

lemma send_unconfirmed:
  assumes "guarded st method params g writes" and "g_mode g = Confirm"
    and "\<forall>conn. conn_id_of_params params = Some conn \<longrightarrow> consent_of st conn = 0"
    and "ev_bridge ev \<noteq> None"
    and "\<forall>st. \<not> fst (ask ev g writes st)"
  shows "\<exists>st'. send ev method params st = (Inr (False, Inl (declined ev)), st') \<and>
    nt_world st' = (case ev_ui ev of None \<Rightarrow> nt_world st
      | Some u \<Rightarrow> snd (ui_confirm u g writes (nt_world st)))"
proof -
  obtain conn where c: "conn_id_of_params params = Some conn" "conn_guard st conn = Some g"
    "request_writes method params (g_engine g) = Some writes"
    using assms(1) by (auto simp: guarded_def)
  let ?st2 = "traffic ev 1 (Some conn) st\<lparr>nt_counter := Suc (nt_counter (traffic ev 1 (Some conn) st))\<rparr>"
  let ?w = "case ev_ui ev of None \<Rightarrow> nt_world st | Some u \<Rightarrow> snd (ui_confirm u g writes (nt_world st))"
  have "ask ev g writes ?st2 = (False, ?st2\<lparr>nt_world := ?w\<rparr>)"
    using ask_False [of ev g writes ?st2] assms(5) by (cases "ev_ui ev") simp_all
  then have "safe_mode_block ev method params ?st2 = (Some (declined ev), ?st2\<lparr>nt_world := ?w\<rparr>)"
    using assms(2,3) c by (simp add: safe_mode_block_def)
  with assms(4) c(1) show ?thesis by (auto simp: send_def Let_def)
qed

text \<open>A blocked request ends the call: nothing is re-sent.\<close>

lemma call_loop_blocked:
  "send ev method params st = (Inr (False, res), st') \<Longrightarrow>
     call_loop ev method params retried st = (Inr res, st')"
  by (subst call_loop.simps) simp

section \<open>Consent is balanced\<close>

lemma with_confirmed_consent:
  assumes "\<And>st r st'. f st = (r, st') \<Longrightarrow> consent_of st' conn = consent_of st conn"
    and "with_confirmed_writes conn f st = (r, st')"
  shows "consent_of st' conn = consent_of st conn"
  using assms
  by (auto simp: with_confirmed_writes_def consent_of_down consent_of_up split: prod.splits)

lemma with_confirmed_other:
  assumes "\<And>st r st'. f st = (r, st') \<Longrightarrow> consent_of st' c = consent_of st c" and "c \<noteq> conn"
    and "with_confirmed_writes conn f st = (r, st')"
  shows "consent_of st' c = consent_of st c"
  using assms
  by (auto simp: with_confirmed_writes_def consent_of_down consent_of_up split: prod.splits)

section \<open>Re-sending\<close>

text \<open>What the transport asks of the bridge, counted: \<open>logged\<close> makes the bridge keep the
  requests it was given, newest last, in the world.\<close>

definition logged :: "(request \<Rightarrow> (response, 'w) effect) \<Rightarrow>
    request \<Rightarrow> (response, request list \<times> 'w) effect" where
  "logged rpc rq w = (case rpc rq (snd w) of (r, v) \<Rightarrow> (r, (fst w @ [rq], v)))"

definition log_of_net :: "(request list \<times> 'w) net \<Rightarrow> request list" where
  "log_of_net st = fst (nt_world st)"

text \<open>The dialog and the listener do not use the bridge themselves.\<close>

definition quiet_env :: "(request list \<times> 'w) env \<Rightarrow> (request \<Rightarrow> (response, 'w) effect) \<Rightarrow> bool" where
  "quiet_env ev rpc \<longleftrightarrow> ev_bridge ev = Some (logged rpc) \<and>
     (\<forall>g ws st. log_of_net (snd (ask ev g ws st)) = log_of_net st) \<and>
     (\<forall>c d st. log_of_net (snd (listen ev c d st)) = log_of_net st)"

lemma log_simps [simp]:
  "log_of_net (traffic ev d c st) = log_of_net st"
  "log_of_net (st\<lparr>nt_counter := n\<rparr>) = log_of_net st"
  "log_of_net (drop_activity method conn st) = log_of_net st"
  by (auto simp: log_of_net_def drop_activity_def split: option.splits)

lemma safe_mode_block_log:
  "quiet_env ev rpc \<Longrightarrow> safe_mode_block ev method params st = (r, st') \<Longrightarrow>
     log_of_net st' = log_of_net st"
  by (auto simp: safe_mode_block_def quiet_env_def split: option.splits if_splits prod.splits bool.splits)
     (metis snd_conv)+

lemma send_log:
  assumes q: "quiet_env ev rpc" and s: "send ev method params st = (r, st')"
  shows "(case r of Inr (False, _) \<Rightarrow> log_of_net st' = log_of_net st
    | _ \<Rightarrow> \<exists>n. log_of_net st' = log_of_net st @ [build_request n method params])"
proof -
  have b: "ev_bridge ev = Some (logged rpc)" using q by (simp add: quiet_env_def)
  let ?st2 = "traffic ev 1 (conn_id_of_params params) st\<lparr>nt_counter := Suc (nt_counter
      (traffic ev 1 (conn_id_of_params params) st))\<rparr>"
  obtain e st3 where e: "safe_mode_block ev method params ?st2 = (e, st3)"
    by (cases "safe_mode_block ev method params ?st2") auto
  have "log_of_net st3 = log_of_net st" using safe_mode_block_log [OF q e] by simp
  with s b e show ?thesis
    by (cases e) (auto simp: send_def Let_def logged_def log_of_net_def split: prod.splits sum.splits)
qed

lemma call_loop_retried:
  assumes q: "quiet_env ev rpc" and c: "call_loop ev method params True st = (r, st')"
  shows "\<exists>rqs. log_of_net st' = log_of_net st @ rqs \<and> length rqs \<le> 1 \<and>
    (\<forall>rq \<in> set rqs. rq_method rq = method \<and> rq_params rq = params)"
proof -
  obtain r1 st1 where s: "send ev method params st = (r1, st1)" by (cases "send ev method params st") auto
  note l = send_log [OF q s]
  have "log_of_net st' = log_of_net st1"
  proof (cases r1)
    case (Inl e)
    with c s show ?thesis by (subst (asm) call_loop.simps) simp
  next
    case (Inr p)
    obtain sent res where p: "p = (sent, res)" by (cases p) auto
    have ls: "listen ev a d x = (out, y) \<Longrightarrow> log_of_net y = log_of_net x" for a d x out y
      using q unfolding quiet_env_def by (metis snd_conv)
    from c s Inr p show ?thesis
      by (subst (asm) call_loop.simps)
         (auto simp: Let_def may_retry_def split: if_splits option.splits sum.splits prod.splits
            dest!: ls)
  qed
  with l show ?thesis
    by (auto simp: build_request_def split: sum.splits prod.splits bool.splits)
qed


text \<open>One request, or the request and one re-send of it on the connection the listener
  opened, after a response whose data said that re-sending is safe.\<close>

definition resend_params :: "string \<Rightarrow> json option \<Rightarrow> json option" where
  "resend_params d params = Some (JObj (obj_set ''connId'' (JStr d) (object_fields params)))"

lemma call_loop_first:
  assumes q: "quiet_env ev rpc" and c: "call_loop ev method params False st = (r, st')"
  shows "\<exists>first rest. log_of_net st' = log_of_net st @ first @ rest \<and> length first \<le> 1 \<and>
    (\<forall>rq \<in> set first. rq_method rq = method \<and> rq_params rq = params) \<and>
    (rest = [] \<or> length rest = 1 \<and>
      (\<exists>e st1 d. send ev method params st = (Inr (True, Inl e), st1) \<and>
         may_retry (lost_info (er_data e)) True False \<and>
         (\<forall>rq \<in> set rest. rq_method rq = method \<and> rq_params rq = resend_params d params)))"
proof -
  obtain r1 st1 where s: "send ev method params st = (r1, st1)" by (cases "send ev method params st") auto
  note l = send_log [OF q s]
  have f: "\<exists>first. log_of_net st1 = log_of_net st @ first \<and> length first \<le> 1 \<and>
      (\<forall>rq \<in> set first. rq_method rq = method \<and> rq_params rq = params)"
    using l by (auto simp: build_request_def split: sum.splits prod.splits bool.splits)
  have ls: "listen ev a d x = (out, y) \<Longrightarrow> log_of_net y = log_of_net x" for a d x out y
    using q unfolding quiet_env_def by (metis snd_conv)
  have ret: "call_loop ev method p True x = (o1, y) \<Longrightarrow>
      \<exists>rqs. log_of_net y = log_of_net x @ rqs \<and> length rqs \<le> 1 \<and>
        (\<forall>rq \<in> set rqs. rq_method rq = method \<and> rq_params rq = p)" for p x o1 y
    by (rule call_loop_retried [OF q])
  have "log_of_net st' = log_of_net st1 \<or>
      (\<exists>e d rest. r1 = Inr (True, Inl e) \<and> may_retry (lost_info (er_data e)) True False \<and>
        log_of_net st' = log_of_net st1 @ rest \<and> length rest \<le> 1 \<and>
        (\<forall>rq \<in> set rest. rq_method rq = method \<and> rq_params rq = resend_params d params))"
  proof (cases r1)
    case (Inl e)
    with c s show ?thesis by (subst (asm) call_loop.simps) simp
  next
    case (Inr p)
    obtain sent res where p: "p = (sent, res)" by (cases p) auto
    show ?thesis
    proof (cases "sent \<and> (\<exists>e. res = Inl e \<and> may_retry (lost_info (er_data e)) True False)")
      case False
      with c s Inr p show ?thesis
        by (subst (asm) call_loop.simps)
           (auto simp: Let_def split: if_splits option.splits sum.splits prod.splits dest!: ls)
    next
      case True
      then obtain e where e: "sent" "res = Inl e" "may_retry (lost_info (er_data e)) True False" by auto
      have "log_of_net st' = log_of_net st1 \<or> (\<exists>d x.
          call_loop ev method (resend_params d params) True x = (r, st') \<and>
          log_of_net x = log_of_net st1)"
        using c s Inr p e
        by (subst (asm) call_loop.simps)
           (auto simp: Let_def resend_params_def split: if_splits option.splits prod.splits
             dest!: ls intro!: exI)
      with e Inr p ret show ?thesis by metis
    qed
  qed
  with f s show ?thesis
  proof (elim disjE exE conjE)
    fix first assume "log_of_net st1 = log_of_net st @ first" "length first \<le> 1"
      "\<forall>rq \<in> set first. rq_method rq = method \<and> rq_params rq = params" "log_of_net st' = log_of_net st1"
    then show ?thesis by (intro exI [of _ first] exI [of _ "[]"]) simp
  next
    fix first e d rest
    assume a: "log_of_net st1 = log_of_net st @ first" "length first \<le> 1"
      "\<forall>rq \<in> set first. rq_method rq = method \<and> rq_params rq = params"
      "r1 = Inr (True, Inl e)" "may_retry (lost_info (er_data e)) True False"
      "log_of_net st' = log_of_net st1 @ rest" "length rest \<le> 1"
      "\<forall>rq \<in> set rest. rq_method rq = method \<and> rq_params rq = resend_params d params"
    then have "rest = [] \<or> length rest = 1" by (cases rest) auto
    with a s show ?thesis by (intro exI [of _ first] exI [of _ rest]) auto
  qed
qed

text \<open>What the core calls safe to re-send is a read for the transport too.\<close>

lemma lost_info_core:
  "lost_info (Some (conn_lost_data method params in_tx)) =
     Some \<lparr>li_in_tx = in_tx, li_retry_safe = retry_safe method params in_tx\<rparr>"
  by (simp add: lost_info_def conn_lost_data_def json_true_def)

lemma retry_safe_reads:
  assumes "retry_safe method (Some p) in_tx"
    and "\<And>sql. json_field p ''sql'' = Some (JStr sql) \<Longrightarrow> ascii_text sql"
    and "to_lower engine \<noteq> ''mongodb''"
  shows "method = ''query.run'' \<and> request_writes method (Some p) engine = None"
proof -
  obtain sql where m: "method = ''query.run''" and j: "json_field p ''sql'' = Some (JStr sql)"
    and c: "stmt_classify (Some sql) = Read"
    using assms(1) by (auto simp: retry_safe_def json_str_def split: option.splits json.splits)
  have "classify_sql sql None = Read" using c stmt_classify_eq [OF assms(2) [OF j]] by simp
  moreover have "classify_sql sql (Some engine) = classify_sql sql None"
    using assms(3) by (simp add: classify_sql_def)
  ultimately show ?thesis using m j by (simp add: request_writes_def Let_def json_str_def)
qed

section \<open>Delays\<close>

lemma keep_alive_delay_bounds:
  assumes "interval > 0"
  shows "interval \<le> keep_alive_delay_sec interval failures \<and>
    keep_alive_delay_sec interval failures \<le> max interval 600"
proof -
  have "interval * 1 \<le> interval * 2 ^ nat (min (max failures 0) 10)"
    using assms by (intro mult_left_mono) auto
  then show ?thesis by (auto simp: keep_alive_delay_sec_def Let_def MAX_BACKOFF_SEC_def)
qed

lemma keep_alive_delay_mono:
  assumes "interval > 0" and "f \<le> g"
  shows "keep_alive_delay_sec interval f \<le> keep_alive_delay_sec interval g"
proof -
  have "(2::int) ^ nat (min (max f 0) 10) \<le> 2 ^ nat (min (max g 0) 10)"
    using assms(2) by (intro power_increasing nat_mono) auto
  then have "interval * 2 ^ nat (min (max f 0) 10) \<le> interval * 2 ^ nat (min (max g 0) 10)"
    using assms(1) by (intro mult_left_mono) auto
  then show ?thesis unfolding keep_alive_delay_sec_def Let_def by (rule min.mono) simp
qed

lemma keep_alive_idle:
  "keep_alive_due now interval act failures \<Longrightarrow> interval > 0 \<and> ac_in_flight act \<le> 0 \<and>
     ac_last act + interval * 1000 \<le> now"
  using keep_alive_delay_bounds [of interval failures]
  by (auto simp: keep_alive_due_def split: if_splits)

lemma retry_delay_values: "retry_delay_sec attempt \<in> {5, 10, 20, 40, 60}"
proof -
  define k where "k = nat (max 0 (min attempt 4))"
  have "k \<le> 4" unfolding k_def by simp
  then have "k \<in> {0, 1, 2, 3, 4}" by auto
  moreover have "retry_delay_sec attempt = min 60 (5 * 2 ^ k)"
    by (simp only: retry_delay_sec_def k_def)
  ultimately show ?thesis by auto
qed

section \<open>Properties\<close>

text \<open>C1. No call that would write reaches the core over a read-only connection, whatever consent
  is open: the call answers with the refusal and the world outside is as it was.\<close>

theorem read_only_never_sends:
  assumes "guarded st method params g writes" and "g_mode g = ReadOnly" and "ev_bridge ev \<noteq> None"
  shows "\<exists>st'. call ev method params st = (Inr (Inl (refusal ev g)), st') \<and> nt_world st' = nt_world st"
proof -
  obtain st' where "send ev method params st = (Inr (False, Inl (refusal ev g)), st')"
    "nt_world st' = nt_world st" using send_read_only [OF assms] by blast
  with call_loop_blocked show ?thesis by (fastforce simp: call_def)
qed

definition demo_env :: "nat env" where
  "demo_env = \<lparr>ev_now = (\<lambda>w. 0), ev_bridge = Some (\<lambda>rq w. (Inr (Inr JNull), w + 1)), ev_ui = None,
     ev_listener = None\<rparr>"

definition demo_net :: "safe_mode \<Rightarrow> nat net" where
  "demo_net m = \<lparr>nt_guards = [(''c1'', \<lparr>g_mode = m, g_engine = ''sqlite'', g_name = ''prod''\<rparr>)],
     nt_consent = [(''c1'', 1)], nt_activity = [], nt_counter = 0, nt_world = 7\<rparr>"

definition demo_params :: "json option" where
  "demo_params = Some (JObj [(''connId'', JStr ''c1''), (''sql'', JStr ''delete from t'')])"

theorem read_only_never_sends_witness:
  "nt_world (snd (call demo_env ''query.run'' demo_params (demo_net ReadOnly))) = 7"
proof -
  let ?g = "\<lparr>g_mode = ReadOnly, g_engine = ''sqlite'', g_name = ''prod''\<rparr>"
  have "request_writes ''query.run'' demo_params ''sqlite'' = Some [''delete from t'']" by code_simp
  then have "guarded (demo_net ReadOnly) ''query.run'' demo_params ?g [''delete from t'']"
    by (simp add: guarded_def demo_net_def conn_guard_def conn_id_of_params_def demo_params_def)
  from read_only_never_sends [OF this, of demo_env] show ?thesis
    by (auto simp: demo_env_def demo_net_def)
qed

text \<open>On a connection that asks before writing, a writing call outside a confirmed action is
  not sent unless the user agrees; with no dialog to ask through the answer is no.\<close>

theorem unconfirmed_write_not_sent:
  assumes "guarded st method params g writes" and "g_mode g = Confirm"
    and "\<forall>conn. conn_id_of_params params = Some conn \<longrightarrow> consent_of st conn = 0"
    and "ev_bridge ev \<noteq> None" and "\<forall>st. \<not> fst (ask ev g writes st)"
  shows "\<exists>st'. call ev method params st = (Inr (Inl (declined ev)), st') \<and>
    nt_world st' = (case ev_ui ev of None \<Rightarrow> nt_world st
      | Some u \<Rightarrow> snd (ui_confirm u g writes (nt_world st)))"
proof -
  obtain st' where s: "send ev method params st = (Inr (False, Inl (declined ev)), st')"
    "nt_world st' = (case ev_ui ev of None \<Rightarrow> nt_world st
      | Some u \<Rightarrow> snd (ui_confirm u g writes (nt_world st)))"
    using send_unconfirmed [OF assms] by blast
  then have "call ev method params st = (Inr (Inl (declined ev)), st')"
    unfolding call_def using call_loop_blocked by blast
  with s(2) show ?thesis by blast
qed

theorem unconfirmed_write_not_sent_witness:
  "nt_world (snd (call demo_env ''query.run'' demo_params ((demo_net Confirm)\<lparr>nt_consent := []\<rparr>))) = 7"
proof -
  let ?g = "\<lparr>g_mode = Confirm, g_engine = ''sqlite'', g_name = ''prod''\<rparr>"
  let ?st = "(demo_net Confirm)\<lparr>nt_consent := []\<rparr>"
  have "request_writes ''query.run'' demo_params ''sqlite'' = Some [''delete from t'']" by code_simp
  then have g: "guarded ?st ''query.run'' demo_params ?g [''delete from t'']"
    by (simp add: guarded_def demo_net_def conn_guard_def conn_id_of_params_def demo_params_def)
  have "\<forall>conn. conn_id_of_params demo_params = Some conn \<longrightarrow> consent_of ?st conn = 0"
    by (simp add: consent_of_def)
  moreover have "\<forall>st. \<not> fst (ask demo_env ?g [''delete from t''] st)"
    by (simp add: ask_def demo_env_def)
  ultimately show ?thesis
    using unconfirmed_write_not_sent [OF g, of demo_env] by (auto simp: demo_env_def demo_net_def)
qed

text \<open>C14. A call reaches the core at most twice: once as asked, and once more on the connection the
  listener opened, with the same method and only the connection changed, and only after a
  response that said the session was lost and re-sending is safe.\<close>

theorem at_most_one_resend:
  assumes "quiet_env ev rpc" and "call ev method params st = (r, st')"
  shows "\<exists>first rest. log_of_net st' = log_of_net st @ first @ rest \<and> length first \<le> 1 \<and>
    (\<forall>rq \<in> set first. rq_method rq = method \<and> rq_params rq = params) \<and>
    (rest = [] \<or> length rest = 1 \<and>
      (\<exists>e st1 d. send ev method params st = (Inr (True, Inl e), st1) \<and>
         may_retry (lost_info (er_data e)) True False \<and>
         (\<forall>rq \<in> set rest. rq_method rq = method \<and> rq_params rq = resend_params d params)))"
  using assms unfolding call_def by (rule call_loop_first)

definition resend_rpc :: "request \<Rightarrow> (response, nat) effect" where
  "resend_rpc rq w =
     (if w = 0 then (Inr (Inl \<lparr>er_code = IPC_ERR_CONN, er_message = ''gone'',
          er_data = Some (conn_lost_data ''query.run'' (rq_params rq) False)\<rparr>), 1)
      else (Inr (Inr JNull), w + 1))"

definition resend_env :: "(request list \<times> nat) env" where
  "resend_env = \<lparr>ev_now = (\<lambda>w. 0), ev_bridge = Some (logged resend_rpc), ev_ui = None,
     ev_listener = Some (\<lambda>c d st. (Some \<lparr>lo_to = Some ''c2'', lo_tx_lost = False\<rparr>, st))\<rparr>"

definition resend_net :: "(request list \<times> nat) net" where
  "resend_net = \<lparr>nt_guards = [], nt_consent = [], nt_activity = [], nt_counter = 0, nt_world = ([], 0)\<rparr>"

definition read_params :: "string \<Rightarrow> json option" where
  "read_params conn = Some (JObj [(''connId'', JStr conn), (''sql'', JStr ''select 1'')])"

theorem at_most_one_resend_witness:
  "map rq_params (log_of_net (snd (call resend_env ''query.run'' (read_params ''c1'') resend_net)))
     = [read_params ''c1'', read_params ''c2''] \<and>
   length (log_of_net (snd (call resend_env ''query.run'' (read_params ''c1'') resend_net))) \<le> 2"
proof -
  obtain r st' where c: "call resend_env ''query.run'' (read_params ''c1'') resend_net = (r, st')"
    by (cases "call resend_env ''query.run'' (read_params ''c1'') resend_net") auto
  have q: "quiet_env resend_env resend_rpc"
    by (auto simp: quiet_env_def resend_env_def ask_def listen_def)
  have "log_of_net resend_net = []" by (simp add: resend_net_def log_of_net_def)
  with at_most_one_resend [OF q c] obtain first rest where "log_of_net st' = first @ rest"
    "length first \<le> 1" "rest = [] \<or> length rest = 1" by auto
  then have "length (log_of_net st') \<le> 2" by auto
  moreover have "map rq_params (log_of_net (snd (call resend_env ''query.run'' (read_params ''c1'') resend_net)))
     = [read_params ''c1'', read_params ''c2'']" by code_simp
  ultimately show ?thesis using c by simp
qed

text \<open>C15. What the core marks as safe to re-send is a read: a request the core's own data declares
  retry-safe is a \<open>query.run\<close> that safe mode does not count as writing, on any engine that
  speaks SQL, provided its text is ASCII. So the automatic re-send never repeats a write.\<close>

theorem resend_is_a_read:
  assumes "lost_info (Some (conn_lost_data method (Some p) in_tx)) = Some i" and "li_retry_safe i"
    and "\<forall>sql. json_field p ''sql'' = Some (JStr sql) \<longrightarrow> ascii_text sql"
    and "to_lower engine \<noteq> ''mongodb''"
  shows "\<not> in_tx \<and> method = ''query.run'' \<and> request_writes method (Some p) engine = None"
proof -
  have r: "retry_safe method (Some p) in_tx" using assms(1,2) by (auto simp: lost_info_core)
  from retry_safe_reads [OF r _ assms(4)] assms(3)
  have "method = ''query.run'' \<and> request_writes method (Some p) engine = None" by blast
  moreover have "\<not> in_tx" using r by (simp add: retry_safe_def)
  ultimately show ?thesis by blast
qed

theorem resend_is_a_read_witness:
  "request_writes ''query.run'' (read_params ''c1'') ''postgres'' = None"
proof -
  let ?p = "JObj [(''connId'', JStr ''c1''), (''sql'', JStr ''select 1'')]"
  have "retry_safe ''query.run'' (Some ?p) False" by code_simp
  then have i: "lost_info (Some (conn_lost_data ''query.run'' (Some ?p) False))
      = Some \<lparr>li_in_tx = False, li_retry_safe = True\<rparr>" by (simp add: lost_info_core)
  have "ascii_text ''select 1''" by code_simp
  then have "\<forall>sql. json_field ?p ''sql'' = Some (JStr sql) \<longrightarrow> ascii_text sql"
    by (simp add: json_field_def)
  moreover have "to_lower ''postgres'' \<noteq> ''mongodb''" by code_simp
  ultimately show ?thesis
    using resend_is_a_read [OF i] by (simp add: read_params_def)
qed

end
