(* ===== verification/JsNumber.thy ===== *)
theory JsNumber
  imports Prelude Complex_Main
begin

text \<open>
  JavaScript's \<open>Number(text)\<close>: the numeric literal grammar and the rounding to a double.
  A finite double is the rational it stands for (the sign of zero plays no role for
  \<open>===\<close> and \<open><\<close>, the only operations the sources use), rounded to the nearest with ties to
  even, with gradual underflow and overflow to infinity.
\<close>

datatype js_number = NaN | Inf bool | Num rat   \<comment> \<open>\<open>Inf True\<close> is \<open>-Infinity\<close>\<close>

section \<open>Rounding\<close>

function bit_len :: "int \<Rightarrow> int" where
  "bit_len n = (if n \<le> 0 then 0 else 1 + bit_len (n div 2))"
  by pat_completeness auto
termination by (relation "measure nat") auto

declare bit_len.simps [simp del]

text \<open>\<open>n / d\<close> divided by \<open>2^e\<close> and rounded to an integer, ties to even.\<close>

definition round_quotient :: "int \<Rightarrow> int \<Rightarrow> int \<Rightarrow> int" where
  "round_quotient n d e =
     (let num = (if e < 0 then n * 2 ^ nat (- e) else n);
          den = (if e < 0 then d else d * 2 ^ nat e);
          q = num div den; r = num mod den
      in if 2 * r > den \<or> (2 * r = den \<and> odd q) then q + 1 else q)"

text \<open>Whether \<open>n / d < 2^k\<close>.\<close>

definition below_pow2 :: "int \<Rightarrow> int \<Rightarrow> int \<Rightarrow> bool" where
  "below_pow2 n d k =
     (if k < 0 then n * 2 ^ nat (- k) < d else n < d * 2 ^ nat k)"

text \<open>The double nearest to \<open>n / d\<close>: 53 significant bits, exponent at least -1074.\<close>

definition round_double :: "int \<Rightarrow> int \<Rightarrow> js_number" where
  "round_double n d =
     (if n = 0 then Num 0
      else let k = bit_len n - bit_len d;
               top = (if below_pow2 n d k then k - 1 else k);
               e = max (top - 52) (- 1074);
               q = round_quotient n d e
           in if e \<ge> 0 \<and> \<not> below_pow2 (q * 2 ^ nat e) 1 1024 then Inf False
              else Num (if e < 0 then of_int q / of_int (2 ^ nat (- e)) else of_int (q * 2 ^ nat e)))"

definition js_negate :: "js_number \<Rightarrow> js_number" where
  "js_negate x = (case x of NaN \<Rightarrow> NaN | Inf b \<Rightarrow> Inf (\<not> b) | Num r \<Rightarrow> Num (- r))"

section \<open>The grammar\<close>

text \<open>\<open>int.frac\<close> times a power of ten, as a quotient of integers.\<close>

fun digits_int :: "int \<Rightarrow> string \<Rightarrow> int" where
  "digits_int acc [] = acc"
| "digits_int acc (c # cs) = digits_int (10 * acc + int (code c - 48)) cs"

definition decimal_value :: "string \<Rightarrow> string \<Rightarrow> int \<Rightarrow> js_number" where
  "decimal_value i f e =
     (let m = digits_int 0 (i @ f); k = e - int (length f)
      in if k < 0 then round_double m (10 ^ nat (- k)) else round_double (m * 10 ^ nat k) 1)"

definition exponent :: "string \<Rightarrow> int option" where
  "exponent s =
     (let (sg, ds) = (case s of c # t \<Rightarrow> if c = CHR ''-'' then (- 1, t)
            else if c = CHR ''+'' then (1, t) else (1, s) | [] \<Rightarrow> (1, []))
      in if ds \<noteq> [] \<and> list_all is_digit ds then Some (sg * digits_int 0 ds) else None)"

definition parse_unsigned :: "string \<Rightarrow> js_number" where
  "parse_unsigned s =
     (if s = ''Infinity'' then Inf False
      else let i = takeWhile is_digit s; r = dropWhile is_digit s;
               (f, r2) = (case r of c # t \<Rightarrow>
                   if c = CHR ''.'' then (takeWhile is_digit t, dropWhile is_digit t) else ([], r)
                 | [] \<Rightarrow> ([], []))
           in if i = [] \<and> f = [] then NaN
              else case r2 of [] \<Rightarrow> decimal_value i f 0
                | c # t \<Rightarrow> if c = CHR ''e'' \<or> c = CHR ''E''
                    then (case exponent t of None \<Rightarrow> NaN | Some e \<Rightarrow> decimal_value i f e) else NaN)"

definition digit_val :: "char \<Rightarrow> nat option" where
  "digit_val c =
     (if is_digit c then Some (code c - 48)
      else if is_lower_az c then Some (code c - 87)
      else if is_upper_az c then Some (code c - 55) else None)"

fun radix_val :: "nat \<Rightarrow> int \<Rightarrow> string \<Rightarrow> int option" where
  "radix_val b acc [] = Some acc"
| "radix_val b acc (c # cs) =
     (case digit_val c of None \<Rightarrow> None
      | Some k \<Rightarrow> if k < b then radix_val b (int b * acc + int k) cs else None)"

definition parse_radix :: "nat \<Rightarrow> string \<Rightarrow> js_number" where
  "parse_radix b ds =
     (if ds = [] then NaN
      else case radix_val b 0 ds of None \<Rightarrow> NaN | Some n \<Rightarrow> round_double n 1)"

definition js_Number :: "string \<Rightarrow> js_number" where
  "js_Number text =
     (case trim text of
        [] \<Rightarrow> Num 0
      | c # t \<Rightarrow>
          if c = CHR ''-'' then js_negate (parse_unsigned t)
          else if c = CHR ''+'' then parse_unsigned t
          else if c = CHR ''0'' \<and> t \<noteq> [] \<and> lower_char (hd t) = CHR ''x'' then parse_radix 16 (tl t)
          else if c = CHR ''0'' \<and> t \<noteq> [] \<and> lower_char (hd t) = CHR ''o'' then parse_radix 8 (tl t)
          else if c = CHR ''0'' \<and> t \<noteq> [] \<and> lower_char (hd t) = CHR ''b'' then parse_radix 2 (tl t)
          else parse_unsigned (c # t))"

text \<open>\<open>===\<close>, \<open><\<close> and the sign of a difference.\<close>

definition is_nan :: "js_number \<Rightarrow> bool" where
  "is_nan x = (x = NaN)"

definition js_eq :: "js_number \<Rightarrow> js_number \<Rightarrow> bool" where
  "js_eq x y \<longleftrightarrow> x = y \<and> \<not> is_nan x"

definition is_finite :: "js_number \<Rightarrow> bool" where
  "is_finite x = (case x of Num _ \<Rightarrow> True | _ \<Rightarrow> False)"

fun js_lt :: "js_number \<Rightarrow> js_number \<Rightarrow> bool" where
  "js_lt (Num a) (Num b) \<longleftrightarrow> a < b"
| "js_lt (Inf n) (Inf m) \<longleftrightarrow> n \<and> \<not> m"
| "js_lt (Inf n) (Num _) \<longleftrightarrow> n"
| "js_lt (Num _) (Inf n) \<longleftrightarrow> \<not> n"
| "js_lt _ _ \<longleftrightarrow> False"

lemma js_lt_nan [simp]: "\<not> js_lt NaN x" "\<not> js_lt x NaN"
  by (cases x; simp)+

lemma js_lt_irrefl [simp]: "\<not> js_lt x x"
  by (cases x) auto

lemma js_lt_trans: "js_lt x y \<Longrightarrow> js_lt y z \<Longrightarrow> js_lt x z"
  by (cases x; cases y; cases z) auto

lemma js_lt_total: "\<not> is_nan x \<Longrightarrow> \<not> is_nan y \<Longrightarrow> js_lt x y \<or> x = y \<or> js_lt y x"
  by (cases x; cases y) (auto simp: is_nan_def)

end
