(* ===== verification/LineDiff.thy ===== *)
theory LineDiff
  imports Prelude
begin

text \<open>
  The line diff of the editor's local history (\<open>lineDiff.ts\<close>): common head and tail, the
  longest-common-subsequence table of what is left, the walk that reads the edit script off
  it, the two-column layout and the summary. The table is a list of rows filled from the
  last one up, as the source fills its flat array. The lemmas give the two projections of a
  diff and its optimality against the library's subsequence relation.
\<close>

section \<open>Lines\<close>

definition CR :: char where "CR = CHR 0x0D"
definition NL :: char where "NL = CHR 0x0A"

text \<open>\<open>split(/\r?\n/)\<close>: a line loses one carriage return right before its line break.\<close>

definition drop_cr :: "string \<Rightarrow> string" where
  "drop_cr s = (if s \<noteq> [] \<and> last s = CR then butlast s else s)"

definition split_lines :: "string \<Rightarrow> string list" where
  "split_lines s = (let ls = split_on NL s in map drop_cr (butlast ls) @ [last ls])"

datatype diff_kind = Same | Add | Del

type_synonym diff_line = "diff_kind \<times> string"

definition MAX_DIFF_CELLS :: nat where "MAX_DIFF_CELLS = 4000000"

section \<open>The table\<close>

text \<open>Row \<open>i\<close> from row \<open>i + 1\<close>; the last entry of a row and the last row are zeros.\<close>

fun lcs_row :: "'a \<Rightarrow> 'a list \<Rightarrow> nat list \<Rightarrow> nat list" where
  "lcs_row x [] nxt = [0]"
| "lcs_row x (y # ys) nxt =
     (let r = lcs_row x ys (tl nxt)
      in (if x = y then nxt ! 1 + 1 else max (nxt ! 0) (r ! 0)) # r)"

fun lcs_table :: "'a list \<Rightarrow> 'a list \<Rightarrow> nat list list" where
  "lcs_table [] bm = [replicate (length bm + 1) 0]"
| "lcs_table (x # am) bm = (let t = lcs_table am bm in lcs_row x bm (t ! 0) # t)"

section \<open>The diff\<close>

fun common_head :: "'a list \<Rightarrow> 'a list \<Rightarrow> nat" where
  "common_head (x # xs) (y # ys) = (if x = y then Suc (common_head xs ys) else 0)"
| "common_head _ _ = 0"

text \<open>The tail loop, bounded by what the head leaves of each side.\<close>

definition common_tail :: "'a list \<Rightarrow> 'a list \<Rightarrow> nat \<Rightarrow> nat" where
  "common_tail a b h = common_head (rev (drop h a)) (rev (drop h b))"

text \<open>The walk over the middle; \<open>i\<close> and \<open>j\<close> index the table.\<close>

function walk :: "nat list list \<Rightarrow> string list \<Rightarrow> string list \<Rightarrow> nat \<Rightarrow> nat \<Rightarrow> diff_line list" where
  "walk t am bm i j =
     (if i < length am \<and> j < length bm then
        (if am ! i = bm ! j then (Same, am ! i) # walk t am bm (Suc i) (Suc j)
         else if t ! Suc i ! j \<ge> t ! i ! Suc j then (Del, am ! i) # walk t am bm (Suc i) j
         else (Add, bm ! j) # walk t am bm i (Suc j))
      else map (Pair Del) (drop i am) @ map (Pair Add) (drop j bm))"
  by pat_completeness auto
termination
  by (relation "measure (\<lambda>(t, am, bm, i, j). (length am - i) + (length bm - j))") auto

declare walk.simps [simp del]

definition diff_of_lines :: "string list \<Rightarrow> string list \<Rightarrow> diff_line list option" where
  "diff_of_lines a b =
     (let h = common_head a b; tlen = common_tail a b h;
          am = slice a h (length a - tlen); bm = slice b h (length b - tlen)
      in if length am * length bm > MAX_DIFF_CELLS then None
         else Some (map (Pair Same) (take h a) @ walk (lcs_table am bm) am bm 0 0
                    @ map (Pair Same) (drop (length a - tlen) a)))"

definition diff_lines :: "string \<Rightarrow> string \<Rightarrow> diff_line list option" where
  "diff_lines before after =
     diff_of_lines (if before = [] then [] else split_lines before)
                   (if after = [] then [] else split_lines after)"

section \<open>Two columns and summary\<close>

record side_cell =
  sc_no :: nat
  sc_text :: string
  sc_kind :: diff_kind

type_synonym side_row = "side_cell option \<times> side_cell option"

definition is_kind :: "diff_kind \<Rightarrow> diff_line \<Rightarrow> bool" where
  "is_kind k l \<longleftrightarrow> fst l = k"

text \<open>A run of removals facing a run of additions, from the line numbers \<open>ln\<close> and \<open>rn\<close>.\<close>

definition side_cell_at :: "diff_kind \<Rightarrow> nat \<Rightarrow> string list \<Rightarrow> nat \<Rightarrow> side_cell option" where
  "side_cell_at kind n xs k =
     (if k < length xs then Some \<lparr>sc_no = n + k + 1, sc_text = xs ! k, sc_kind = kind\<rparr> else None)"

definition pair_runs :: "nat \<Rightarrow> nat \<Rightarrow> string list \<Rightarrow> string list \<Rightarrow> side_row list" where
  "pair_runs ln rn dels adds =
     map (\<lambda>k. (side_cell_at Del ln dels k, side_cell_at Add rn adds k))
       [0..<max (length dels) (length adds)]"

function side_loop :: "nat \<Rightarrow> nat \<Rightarrow> diff_line list \<Rightarrow> side_row list" where
  "side_loop ln rn [] = []"
| "side_loop ln rn ((k, x) # ls) =
     (if k = Same then
        (Some \<lparr>sc_no = ln + 1, sc_text = x, sc_kind = Same\<rparr>,
         Some \<lparr>sc_no = rn + 1, sc_text = x, sc_kind = Same\<rparr>) # side_loop (ln + 1) (rn + 1) ls
      else
        (let dels = map snd (takeWhile (is_kind Del) ((k, x) # ls));
             rest = dropWhile (is_kind Del) ((k, x) # ls);
             adds = map snd (takeWhile (is_kind Add) rest)
         in pair_runs ln rn dels adds @
            side_loop (ln + length dels) (rn + length adds) (dropWhile (is_kind Add) rest)))"
  by pat_completeness auto
termination
proof (relation "measure (\<lambda>(ln, rn, ls). length ls)", goal_cases)
  case (3 ln rn k x ls dels rest adds)
  have "length (dropWhile P (dropWhile Q ls)) \<le> length ls" for P Q
    by (rule le_trans [OF length_dropWhile_le length_dropWhile_le])
  with 3 show ?case
    by (cases k) (auto simp: is_kind_def le_imp_less_Suc length_dropWhile_le)
qed auto

definition side_by_side :: "diff_line list \<Rightarrow> side_row list" where
  "side_by_side ls = side_loop 0 0 ls"

definition diff_summary :: "diff_line list \<Rightarrow> nat \<times> nat" where
  "diff_summary ls = (length (filter (is_kind Add) ls), length (filter (is_kind Del) ls))"

section \<open>The table holds the lengths of longest common subsequences\<close>

fun lcs_len :: "'a list \<Rightarrow> 'a list \<Rightarrow> nat" where
  "lcs_len [] ys = 0"
| "lcs_len (x # xs) [] = 0"
| "lcs_len (x # xs) (y # ys) =
     (if x = y then Suc (lcs_len xs ys) else max (lcs_len xs (y # ys)) (lcs_len (x # xs) ys))"

lemma lcs_len_Nil [simp]: "lcs_len xs [] = 0"
  by (cases xs) auto

lemma lcs_row_nth:
  assumes "\<And>j. j \<le> length ys \<Longrightarrow> nxt ! j = lcs_len xs (drop j ys)" and "length nxt = length ys + 1"
  shows "length (lcs_row x ys nxt) = length ys + 1 \<and>
    (\<forall>j \<le> length ys. lcs_row x ys nxt ! j = lcs_len (x # xs) (drop j ys))"
  using assms
proof (induction x ys nxt rule: lcs_row.induct)
  case (1 x nxt)
  then show ?case by simp
next
  case (2 x y ys nxt)
  have n: "\<And>j. j \<le> length ys \<Longrightarrow> tl nxt ! j = lcs_len xs (drop j ys)"
    using 2(2) [of "Suc j" for j] 2(3) by (simp add: nth_tl)
  have l: "length (tl nxt) = length ys + 1" using 2(3) by simp
  note IH = 2(1) [OF n l]
  have "nxt ! 0 = lcs_len xs (y # ys)" "nxt ! 1 = lcs_len xs ys"
    using 2(2) [of 0] 2(2) [of 1] by simp_all
  with IH show ?case
    by (auto simp: Let_def nth_Cons split: nat.splits)
qed

lemma lcs_table_nth:
  "length (lcs_table am bm) = length am + 1 \<and>
   (\<forall>i \<le> length am. length (lcs_table am bm ! i) = length bm + 1 \<and>
     (\<forall>j \<le> length bm. lcs_table am bm ! i ! j = lcs_len (drop i am) (drop j bm)))"
proof (induction am)
  case (Cons x am)
  let ?t = "lcs_table am bm"
  have "length (lcs_row x bm (?t ! 0)) = length bm + 1 \<and>
      (\<forall>j \<le> length bm. lcs_row x bm (?t ! 0) ! j = lcs_len (x # am) (drop j bm))"
    by (rule lcs_row_nth) (use Cons in auto)
  with Cons show ?case
    by (auto simp: Let_def nth_Cons split: nat.splits)
qed (simp add: nth_Cons split: nat.splits)

text \<open>\<open>lcs_len\<close> bounds every common subsequence.\<close>

lemma lcs_len_bound: "subseq zs xs \<Longrightarrow> subseq zs ys \<Longrightarrow> length zs \<le> lcs_len xs ys"
proof (induction xs ys arbitrary: zs rule: lcs_len.induct)
  case (3 x xs y ys)
  show ?case
  proof (cases zs)
    case (Cons z zs')
    show ?thesis
    proof (cases "x = y")
      case True
      have "subseq zs' xs" "subseq zs' ys"
        using 3(4,5) Cons by (auto dest: subseq_Cons' split: if_splits)
      with 3(1) [OF True] True Cons show ?thesis by simp
    next
      case False
      show ?thesis
      proof (cases "z = x")
        case True
        then have "subseq zs ys" using 3(5) Cons False by (auto split: if_splits)
        with 3(3) [OF False 3(4)] False show ?thesis by simp
      next
        case zx: False
        then have "subseq zs xs" using 3(4) Cons by (auto split: if_splits)
        with 3(2) [OF False _ 3(5)] False show ?thesis by simp
      qed
    qed
  qed simp
qed auto

text \<open>Common head and tail add to it.\<close>

lemma lcs_len_head: "lcs_len (h @ xs) (h @ ys) = length h + lcs_len xs ys"
  by (induction h) auto

lemma lcs_len_witness: "\<exists>zs. subseq zs xs \<and> subseq zs ys \<and> length zs = lcs_len xs ys"
proof (induction xs ys rule: lcs_len.induct)
  case (3 x xs y ys)
  show ?case
  proof (cases "x = y")
    case True
    with 3(1) obtain zs where "subseq zs xs" "subseq zs ys" "length zs = lcs_len xs ys" by blast
    with True show ?thesis by (intro exI [of _ "x # zs"]) auto
  next
    case False
    obtain us where "subseq us xs" "subseq us (y # ys)" "length us = lcs_len xs (y # ys)"
      using 3(2) [OF False] by blast
    moreover obtain vs where "subseq vs (x # xs)" "subseq vs ys" "length vs = lcs_len (x # xs) ys"
      using 3(3) [OF False] by blast
    ultimately show ?thesis
      using False by (cases "lcs_len xs (y # ys) \<ge> lcs_len (x # xs) ys") (auto simp: max_def)
  qed
qed auto

lemma subseq_rev_both: "subseq xs ys \<Longrightarrow> subseq (rev xs) (rev ys)"
proof (induction rule: list_emb.induct)
  case (list_emb_Cons xs ys y)
  then show ?case by (simp add: subseq_rev_drop_many)
next
  case (list_emb_Cons2 x y xs ys)
  then show ?case by (simp add: list_emb_append_mono)
qed simp

lemma lcs_len_rev_le: "lcs_len xs ys \<le> lcs_len (rev xs) (rev ys)"
proof -
  obtain zs where "subseq zs xs" "subseq zs ys" "length zs = lcs_len xs ys"
    using lcs_len_witness by blast
  then have "length (rev zs) \<le> lcs_len (rev xs) (rev ys)"
    by (intro lcs_len_bound subseq_rev_both)
  with \<open>length zs = _\<close> show ?thesis by simp
qed

lemma lcs_len_rev: "lcs_len (rev xs) (rev ys) = lcs_len xs ys"
  using lcs_len_rev_le [of xs ys] lcs_len_rev_le [of "rev xs" "rev ys"] by simp

lemma lcs_len_tail: "lcs_len (xs @ t) (ys @ t) = lcs_len xs ys + length t"
  using lcs_len_head [of "rev t" "rev xs" "rev ys"] lcs_len_rev [of "xs @ t" "ys @ t"]
    lcs_len_rev [of xs ys] by simp

section \<open>The walk\<close>

definition before_of :: "diff_line list \<Rightarrow> string list" where
  "before_of ls = map snd (filter (\<lambda>l. \<not> is_kind Add l) ls)"

definition after_of :: "diff_line list \<Rightarrow> string list" where
  "after_of ls = map snd (filter (\<lambda>l. \<not> is_kind Del l) ls)"

definition same_count :: "diff_line list \<Rightarrow> nat" where
  "same_count ls = length (filter (is_kind Same) ls)"

lemmas proj_defs = before_of_def after_of_def same_count_def is_kind_def

lemma proj_append [simp]:
  "before_of (u @ v) = before_of u @ before_of v" "after_of (u @ v) = after_of u @ after_of v"
  "same_count (u @ v) = same_count u + same_count v"
  by (simp_all add: proj_defs)

lemma proj_map [simp]:
  "before_of (map (Pair k) xs) = (if k = Add then [] else xs)"
  "after_of (map (Pair k) xs) = (if k = Del then [] else xs)"
  "same_count (map (Pair k) xs) = (if k = Same then length xs else 0)"
  by (induction xs) (auto simp: proj_defs)

lemma proj_Cons [simp]:
  "before_of ((k, x) # ls) = (if k = Add then before_of ls else x # before_of ls)"
  "after_of ((k, x) # ls) = (if k = Del then after_of ls else x # after_of ls)"
  "same_count ((k, x) # ls) = (if k = Same then Suc (same_count ls) else same_count ls)"
  by (simp_all add: proj_defs)

lemma proj_Nil [simp]: "before_of [] = []" "after_of [] = []" "same_count [] = 0"
  by (simp_all add: proj_defs)

lemma walk_before: "i \<le> length am \<Longrightarrow> j \<le> length bm \<Longrightarrow>
    before_of (walk t am bm i j) = drop i am \<and> after_of (walk t am bm i j) = drop j bm"
proof (induction t am bm i j rule: walk.induct)
  case (1 t am bm i j)
  show ?case
  proof (cases "i < length am \<and> j < length bm")
    case True
    then have d: "drop i am = am ! i # drop (Suc i) am" "drop j bm = bm ! j # drop (Suc j) bm"
      by (simp_all add: Cons_nth_drop_Suc)
    show ?thesis
    proof (cases "am ! i = bm ! j")
      case eq: True
      with 1(1) [OF True eq] True d show ?thesis by (subst (1 2) walk.simps) simp
    next
      case neq: False
      show ?thesis
      proof (cases "t ! Suc i ! j \<ge> t ! i ! Suc j")
        case c: True
        with 1(2) [OF True neq c] neq True d show ?thesis by (subst (1 2) walk.simps) simp
      next
        case c: False
        with 1(3) [OF True neq c] neq True d show ?thesis by (subst (1 2) walk.simps) simp
      qed
    qed
  next
    case False
    have e: "walk t am bm i j = map (Pair Del) (drop i am) @ map (Pair Add) (drop j bm)"
      by (simp only: walk.simps [of t am bm i j] False if_False)
    show ?thesis unfolding e by simp
  qed
qed

lemma walk_same: "i \<le> length am \<Longrightarrow> j \<le> length bm \<Longrightarrow>
    same_count (walk (lcs_table am bm) am bm i j) = lcs_len (drop i am) (drop j bm)"
proof (induction "lcs_table am bm" am bm i j rule: walk.induct)
  case (1 am bm i j)
  have t: "i \<le> length am \<Longrightarrow> j \<le> length bm \<Longrightarrow>
      lcs_table am bm ! i ! j = lcs_len (drop i am) (drop j bm)" for i j
    using lcs_table_nth [of am bm] by blast
  show ?case
  proof (cases "i < length am \<and> j < length bm")
    case True
    then have d: "drop i am = am ! i # drop (Suc i) am" "drop j bm = bm ! j # drop (Suc j) bm"
      by (simp_all add: Cons_nth_drop_Suc)
    have t1: "lcs_table am bm ! Suc i ! j = lcs_len (drop (Suc i) am) (drop j bm)"
      "lcs_table am bm ! i ! Suc j = lcs_len (drop i am) (drop (Suc j) bm)"
      using t True by simp_all
    show ?thesis
    proof (cases "am ! i = bm ! j")
      case eq: True
      with 1(1) [OF True eq] True d show ?thesis by (subst walk.simps) simp
    next
      case neq: False
      show ?thesis
      proof (cases "lcs_table am bm ! Suc i ! j \<ge> lcs_table am bm ! i ! Suc j")
        case c: True
        with 1(2) [OF True neq c] neq True d t1 show ?thesis by (subst walk.simps) simp
      next
        case c: False
        with 1(3) [OF True neq c] neq True d t1 show ?thesis by (subst walk.simps) simp
      qed
    qed
  next
    case False
    have "walk (lcs_table am bm) am bm i j = map (Pair Del) (drop i am) @ map (Pair Add) (drop j bm)"
      by (simp only: walk.simps [of "lcs_table am bm" am bm i j] False if_False)
    with False show ?thesis by auto
  qed
qed

section \<open>The whole diff\<close>

lemma common_head_take: "take (common_head a b) a = take (common_head a b) b \<and>
    common_head a b \<le> length a \<and> common_head a b \<le> length b"
  by (induction a b rule: common_head.induct) auto

lemma head_tail_split:
  assumes "h = common_head a b" and "tlen = common_tail a b h"
  shows "\<exists>p t. a = p @ slice a h (length a - tlen) @ t \<and> b = p @ slice b h (length b - tlen) @ t \<and>
    p = take h a \<and> t = drop (length a - tlen) a \<and> length p = h \<and> length t = tlen"
proof -
  have h: "take h a = take h b" "h \<le> length a" "h \<le> length b"
    using common_head_take [of a b] assms(1) by auto
  have tl: "take tlen (rev (drop h a)) = take tlen (rev (drop h b))"
    "tlen \<le> length a - h" "tlen \<le> length b - h"
    using common_head_take [of "rev (drop h a)" "rev (drop h b)"] assms(2) by (auto simp: common_tail_def)
  have "drop (length a - tlen) a = drop (length b - tlen) b"
  proof -
    have "drop (length x - tlen) x = rev (take tlen (rev (drop h x)))"
      if "h \<le> length x" "tlen \<le> length x - h" for x :: "'a list"
    proof -
      have "rev (take tlen (rev (drop h x))) = drop (length x - h - tlen) (drop h x)"
        by (simp add: rev_take)
      also have "\<dots> = drop (length x - tlen) x" using that by simp
      finally show ?thesis by simp
    qed
    with tl h show ?thesis by metis
  qed
  moreover have "x = take h x @ slice x h (length x - tlen) @ drop (length x - tlen) x"
    if "h \<le> length x" "tlen \<le> length x - h" for x :: "'a list"
  proof -
    have "slice x 0 h @ slice x h (length x - tlen) @ slice x (length x - tlen) (length x) = x"
      using that by (simp add: slice_append) (simp add: slice_def)
    then show ?thesis by (simp add: slice_def)
  qed
  ultimately have "a = take h a @ slice a h (length a - tlen) @ drop (length a - tlen) a"
    "b = take h a @ slice b h (length b - tlen) @ drop (length a - tlen) a"
    using h tl by metis+
  moreover have "length (take h a) = h" "length (drop (length a - tlen) a) = tlen"
    using h tl by simp_all
  ultimately show ?thesis by blast
qed

lemma diff_of_lines_spec:
  assumes "diff_of_lines a b = Some ls"
  shows "before_of ls = a \<and> after_of ls = b \<and> same_count ls = lcs_len a b"
proof -
  define h where "h = common_head a b"
  define tlen where "tlen = common_tail a b h"
  obtain p t where pt: "a = p @ slice a h (length a - tlen) @ t" "b = p @ slice b h (length b - tlen) @ t"
    "p = take h a" "t = drop (length a - tlen) a" "length p = h" "length t = tlen"
    using head_tail_split [OF h_def tlen_def] by blast
  let ?am = "slice a h (length a - tlen)" and ?bm = "slice b h (length b - tlen)"
  have ls: "ls = map (Pair Same) p @ walk (lcs_table ?am ?bm) ?am ?bm 0 0 @ map (Pair Same) t"
    using assms pt(3,4) by (simp add: diff_of_lines_def Let_def h_def [symmetric] tlen_def [symmetric]
        split: if_splits)
  have "lcs_len a b = length p + lcs_len ?am ?bm + length t"
    by (subst pt(1), subst pt(2)) (simp add: lcs_len_head lcs_len_tail)
  moreover have "before_of ls = a" unfolding ls using walk_before [of 0 ?am 0 ?bm] pt(1) by simp
  moreover have "after_of ls = b" unfolding ls using walk_before [of 0 ?am 0 ?bm] pt(2) by simp
  moreover have "same_count ls = length p + lcs_len ?am ?bm + length t"
    unfolding ls using walk_same [of 0 ?am 0 ?bm] by simp
  ultimately show ?thesis by simp
qed

section \<open>The two columns\<close>

definition texts_of :: "side_cell option list \<Rightarrow> string list" where
  "texts_of cs = concat (map (\<lambda>c. case c of None \<Rightarrow> [] | Some x \<Rightarrow> [sc_text x]) cs)"

definition numbers_of :: "side_cell option list \<Rightarrow> nat list" where
  "numbers_of cs = concat (map (\<lambda>c. case c of None \<Rightarrow> [] | Some x \<Rightarrow> [sc_no x]) cs)"

lemma side_append [simp]:
  "texts_of (u @ v) = texts_of u @ texts_of v" "numbers_of (u @ v) = numbers_of u @ numbers_of v"
  by (simp_all add: texts_of_def numbers_of_def)

lemma side_Some [simp]:
  "texts_of (Some c # cs) = sc_text c # texts_of cs" "numbers_of (Some c # cs) = sc_no c # numbers_of cs"
  "texts_of [] = []" "numbers_of [] = []"
  by (simp_all add: texts_of_def numbers_of_def)

lemma side_cells:
  assumes "length xs \<le> m"
  shows "texts_of (map (side_cell_at k n xs) [0..<m]) = xs \<and>
    numbers_of (map (side_cell_at k n xs) [0..<m]) = [Suc n..<Suc n + length xs]"
proof -
  have "map (side_cell_at k n xs) [0..<m] =
      map (\<lambda>i. Some \<lparr>sc_no = n + i + 1, sc_text = xs ! i, sc_kind = k\<rparr>) [0..<length xs] @
      replicate (m - length xs) None"
    using assms
    by (intro nth_equalityI) (auto simp: side_cell_at_def nth_append)
  moreover have "texts_of (replicate d None) = []" "numbers_of (replicate d None) = []" for d
    by (induction d) (simp_all add: texts_of_def numbers_of_def)
  moreover have "texts_of (map (\<lambda>i. Some \<lparr>sc_no = n + i + 1, sc_text = xs ! i, sc_kind = k\<rparr>) is) = map ((!) xs) is"
    "numbers_of (map (\<lambda>i. Some \<lparr>sc_no = n + i + 1, sc_text = xs ! i, sc_kind = k\<rparr>) is) = map (\<lambda>i. n + i + 1) is"
    for "is" by (induction "is") simp_all
  moreover have "map (\<lambda>i. n + i + 1) [0..<length xs] = [Suc n..<Suc n + length xs]"
    by (intro nth_equalityI) (simp_all del: upt_Suc)
  ultimately show ?thesis by (simp add: map_nth del: upt_Suc)
qed

lemma pair_runs_columns:
  "texts_of (map fst (pair_runs ln rn dels adds)) = dels"
  "texts_of (map snd (pair_runs ln rn dels adds)) = adds"
  "numbers_of (map fst (pair_runs ln rn dels adds)) = [Suc ln..<Suc ln + length dels]"
  "numbers_of (map snd (pair_runs ln rn dels adds)) = [Suc rn..<Suc rn + length adds]"
  using side_cells [of dels "max (length dels) (length adds)" Del ln]
    side_cells [of adds "max (length dels) (length adds)" Add rn]
  by (simp_all add: pair_runs_def comp_def)

text \<open>A diff in which no addition is directly followed by a removal inside one run is laid out
  without loss; \<open>walk\<close> may also produce additions first, which the loop handles as a run of
  no removals.\<close>

lemma before_Del: "\<forall>l \<in> set ls. is_kind Del l \<Longrightarrow> before_of ls = map snd ls \<and> after_of ls = []"
  by (induction ls) (auto simp: proj_defs)

lemma before_Add: "\<forall>l \<in> set ls. is_kind Add l \<Longrightarrow> after_of ls = map snd ls \<and> before_of ls = []"
  by (induction ls) (auto simp: proj_defs)

lemma side_loop_columns:
  "texts_of (map fst (side_loop ln rn ls)) = before_of ls \<and>
   texts_of (map snd (side_loop ln rn ls)) = after_of ls \<and>
   numbers_of (map fst (side_loop ln rn ls)) = [Suc ln..<Suc ln + length (before_of ls)] \<and>
   numbers_of (map snd (side_loop ln rn ls)) = [Suc rn..<Suc rn + length (after_of ls)]"
proof (induction ln rn ls rule: side_loop.induct)
  case (2 ln rn k x ls)
  show ?case
  proof (cases "k = Same")
    case True
    with 2(1) show ?thesis by (simp add: upt_conv_Cons del: upt_Suc)
  next
    case False
    define d where "d = takeWhile (is_kind Del) ((k, x) # ls)"
    define rest where "rest = dropWhile (is_kind Del) ((k, x) # ls)"
    define a where "a = takeWhile (is_kind Add) rest"
    define r where "r = dropWhile (is_kind Add) rest"
    have l: "(k, x) # ls = d @ a @ r"
      by (simp only: d_def rest_def a_def r_def takeWhile_dropWhile_id)
    have tw: "\<forall>y \<in> set (takeWhile P zs). P y" for P and zs :: "diff_line list"
      by (auto dest: set_takeWhileD)
    have d: "before_of d = map snd d" "after_of d = []"
      unfolding d_def using before_Del [OF tw] by blast+
    have a: "after_of a = map snd a" "before_of a = []"
      unfolding a_def using before_Add [OF tw] by blast+
    have b: "before_of ((k, x) # ls) = map snd d @ before_of r"
      "after_of ((k, x) # ls) = map snd a @ after_of r"
      unfolding l using d a by (simp_all only: proj_append append_Nil)
    have e: "side_loop ln rn ((k, x) # ls) = pair_runs ln rn (map snd d) (map snd a) @
        side_loop (ln + length d) (rn + length a) r"
      by (subst side_loop.simps(2))
         (simp only: False if_False Let_def d_def rest_def a_def r_def length_map)
    note IH = 2(2) [OF False refl refl refl, folded d_def rest_def, folded a_def r_def, unfolded length_map]
    have u: "[Suc n..<Suc (n + (i + j))] = [Suc n..<Suc (n + i)] @ [Suc (n + i)..<Suc (n + i + j)]" for n i j :: nat
      using upt_add_eq_append [of "Suc n" "Suc (n + i)" j] by (simp add: add.assoc del: upt_Suc)
    from IH show ?thesis
      unfolding e b by (simp add: pair_runs_columns u del: upt_Suc)
  qed
qed simp

section \<open>Properties\<close>

text \<open>C31. A diff that is shown is exact and as short as possible: leaving out its additions gives
  the old lines, leaving out its removals gives the new ones, and no common subsequence of
  the two texts has more lines than the diff keeps.\<close>

theorem diff_is_exact_and_minimal:
  assumes "diff_of_lines a b = Some ls"
  shows "before_of ls = a \<and> after_of ls = b \<and>
    (\<forall>zs. subseq zs a \<and> subseq zs b \<longrightarrow> length zs \<le> same_count ls)"
  using diff_of_lines_spec [OF assms] lcs_len_bound by metis

theorem diff_is_exact_and_minimal_witness:
  "\<exists>ls. diff_of_lines [''a'', ''b'', ''c''] [''a'', ''x'', ''c''] = Some ls \<and>
     before_of ls = [''a'', ''b'', ''c''] \<and> after_of ls = [''a'', ''x'', ''c'']"
proof -
  have "diff_of_lines [''a'', ''b'', ''c''] [''a'', ''x'', ''c''] \<noteq> None"
    by (simp add: diff_of_lines_def common_tail_def slice_def MAX_DIFF_CELLS_def)
  then obtain ls where "diff_of_lines [''a'', ''b'', ''c''] [''a'', ''x'', ''c''] = Some ls" by blast
  with diff_is_exact_and_minimal [OF this] show ?thesis by blast
qed

text \<open>The two-column layout shows every line once, in order and numbered from one: the left
  column reads as the old text and the right one as the new text.\<close>

theorem side_by_side_columns:
  "texts_of (map fst (side_by_side ls)) = before_of ls \<and>
   texts_of (map snd (side_by_side ls)) = after_of ls \<and>
   numbers_of (map fst (side_by_side ls)) = [1..<1 + length (before_of ls)] \<and>
   numbers_of (map snd (side_by_side ls)) = [1..<1 + length (after_of ls)]"
  using side_loop_columns [of 0 0 ls] by (simp add: side_by_side_def)

end
