(* ===== verification/GridView.thy ===== *)
theory GridView
  imports Results JsNumber "HOL-Library.Multiset"
begin

text \<open>
  What the grid shows of a loaded page: the cell formatter (\<open>format.ts\<close>) and the sort and
  filter of the page (\<open>gridView.ts\<close>). A view is the list of the original row indices in
  display order. The rows are as long as the column list, as the core sends them, and a filter
  names an existing column. \<open>localeCompare\<close>, whose order depends on the user's locale, is the
  parameter \<open>lc\<close>.
\<close>

section \<open>Cell formatting\<close>

datatype cell_kind = NullKind | NumberKind | BoolKind | TextKind | BlobKind | TemporalKind

record formatted_cell =
  fc_text :: string
  fc_kind :: cell_kind

definition classify_type :: "string \<Rightarrow> cell_kind" where
  "classify_type ty =
     (let t = to_lower ty in
      if t = ''int'' \<or> t = ''float'' then NumberKind
      else if t = ''bool'' then BoolKind
      else if t = ''blob'' then BlobKind
      else if t = ''date'' \<or> t = ''time'' \<or> t = ''timestamp'' then TemporalKind
      else TextKind)"

definition NULL_LABEL :: string where "NULL_LABEL = ''NULL''"

definition bool_to_01 :: "string \<Rightarrow> string" where
  "bool_to_01 v =
     (let s = to_lower (trim v) in
      if s \<in> set [''1'', ''true'', ''t'', ''yes'', ''y''] then ''1''
      else if s \<in> set [''0'', ''false'', ''f'', ''no'', ''n'', []] then ''0''
      else if length v = 1 \<and> code (hd v) < 32 then (if code (hd v) = 0 then ''0'' else ''1'')
      else let n = js_Number v in
        if \<not> is_nan n then (if n \<noteq> Num 0 then ''1'' else ''0'') else v)"

definition format_cell :: "cell \<Rightarrow> string \<Rightarrow> formatted_cell" where
  "format_cell v ty =
     (case v of None \<Rightarrow> \<lparr>fc_text = NULL_LABEL, fc_kind = NullKind\<rparr>
      | Some x \<Rightarrow> let k = classify_type ty in
          \<lparr>fc_text = (if k = BoolKind then bool_to_01 x else x), fc_kind = k\<rparr>)"

datatype align = AlignLeft | AlignRight

definition cell_align :: "cell_kind \<Rightarrow> align" where
  "cell_align k = (if k = NumberKind then AlignRight else AlignLeft)"

text \<open>The scale pattern, \<open>/^\s*(?:numeric|decimal|dec|number)\s*\(\s*\d+\s*,\s*(\d+)\s*\)/i\<close>.\<close>

definition SCALE_RE :: re where
  "SCALE_RE = seqs [Bol, star spc, words_alti [''numeric'', ''decimal'', ''dec'', ''number''],
     star spc, one CHR ''('', star spc, plus (Cls is_digit), star spc, one CHR '','', star spc,
     Grp 1 (plus (Cls is_digit)), star spc, one CHR '')'']"

definition decimal_scale :: "string \<Rightarrow> nat option" where
  "decimal_scale declared = map_option (digits_val 0) (re_group SCALE_RE declared 1)"

text \<open>\<open>/^([+-]?\d+)(?:\.(\d*))?$/\<close> read by hand: the integer part with its sign, and the
  digits after the point if there is one.\<close>

definition plain_decimal :: "string \<Rightarrow> (string \<times> string option) option" where
  "plain_decimal v =
     (let (sg, r) = (case v of c # t \<Rightarrow>
              if c = CHR ''+'' \<or> c = CHR ''-'' then ([c], t) else ([], v) | [] \<Rightarrow> ([], []));
          i = takeWhile is_digit r; r2 = dropWhile is_digit r
      in if i = [] then None
         else case r2 of [] \<Rightarrow> Some (sg @ i, None)
           | c # t \<Rightarrow> if c = CHR ''.'' \<and> list_all is_digit t then Some (sg @ i, Some t) else None)"

definition pad_end :: "string \<Rightarrow> nat \<Rightarrow> char \<Rightarrow> string" where
  "pad_end s n c = s @ replicate (n - length s) c"

definition with_scale :: "string \<Rightarrow> int \<Rightarrow> string" where
  "with_scale v scale =
     (case plain_decimal v of None \<Rightarrow> v
      | Some (m1, m2) \<Rightarrow>
          if scale \<le> 0 then v
          else let frac = (case m2 of None \<Rightarrow> [] | Some f \<Rightarrow> f) in
            if int (length frac) \<ge> scale then v
            else m1 @ ''.'' @ pad_end frac (nat scale) CHR ''0'')"

section \<open>Sorting and filtering the page\<close>

datatype sort_dir = Asc | Desc

record sort_state =
  ss_col :: nat
  ss_dir :: sort_dir

type_synonym column_filters = "string num_obj"

definition is_numeric_type :: "string \<Rightarrow> bool" where
  "is_numeric_type ty \<longleftrightarrow> classify_type ty = NumberKind"

definition cycle_sort :: "sort_state option \<Rightarrow> nat \<Rightarrow> sort_state option" where
  "cycle_sort cur col =
     (case cur of None \<Rightarrow> Some \<lparr>ss_col = col, ss_dir = Asc\<rparr>
      | Some s \<Rightarrow> if ss_col s \<noteq> col then Some \<lparr>ss_col = col, ss_dir = Asc\<rparr>
          else if ss_dir s = Asc then Some \<lparr>ss_col = col, ss_dir = Desc\<rparr> else None)"

text \<open>The sign of a comparison. The difference of two equal infinities is not a number, which
  \<open>sort\<close> takes as 0.\<close>

definition sign_of_difference :: "js_number \<Rightarrow> js_number \<Rightarrow> int" where
  "sign_of_difference x y = (if js_lt x y then - 1 else if js_lt y x then 1 else 0)"

definition compare_values :: "(string \<Rightarrow> string \<Rightarrow> int) \<Rightarrow> cell \<Rightarrow> cell \<Rightarrow> bool \<Rightarrow> int" where
  "compare_values lc a b numeric =
     (case (a, b) of
        (None, None) \<Rightarrow> 0
      | (None, Some _) \<Rightarrow> 1
      | (Some _, None) \<Rightarrow> - 1
      | (Some x, Some y) \<Rightarrow>
          (let na = js_Number x; nb = js_Number y;
               a_num = trim x \<noteq> [] \<and> \<not> is_nan na; b_num = trim y \<noteq> [] \<and> \<not> is_nan nb
           in if numeric \<and> a_num \<and> b_num then sign_of_difference na nb
              else if numeric \<and> a_num then - 1
              else if numeric \<and> b_num then 1
              else lc x y))"

definition active_filters :: "column_filters \<Rightarrow> (nat \<times> string) list" where
  "active_filters fs = filter (\<lambda>(c, q). q \<noteq> []) (map (\<lambda>(c, q). (c, to_lower (trim q))) fs)"

definition row_passes :: "(nat \<times> string) list \<Rightarrow> cell list \<Rightarrow> bool" where
  "row_passes active row \<longleftrightarrow>
     list_all (\<lambda>(c, q). case cell_at row c of None \<Rightarrow> False | Some v \<Rightarrow> contains (to_lower v) q) active"

text \<open>\<open>Array.prototype.sort\<close> with a comparison function; \<open>le x y\<close> says that the function
  returned at most 0.\<close>

fun insert_by :: "('a \<Rightarrow> 'a \<Rightarrow> bool) \<Rightarrow> 'a \<Rightarrow> 'a list \<Rightarrow> 'a list" where
  "insert_by le x [] = [x]"
| "insert_by le x (y # ys) = (if le x y then x # y # ys else y # insert_by le x ys)"

definition sort_by :: "('a \<Rightarrow> 'a \<Rightarrow> bool) \<Rightarrow> 'a list \<Rightarrow> 'a list" where
  "sort_by le xs = foldr (insert_by le) xs []"

definition sort_mul :: "sort_dir \<Rightarrow> int" where
  "sort_mul d = (case d of Asc \<Rightarrow> 1 | Desc \<Rightarrow> - 1)"

definition view_cmp ::
    "(string \<Rightarrow> string \<Rightarrow> int) \<Rightarrow> cell list list \<Rightarrow> sort_state \<Rightarrow> bool \<Rightarrow> nat \<Rightarrow> nat \<Rightarrow> int" where
  "view_cmp lc rows s numeric i j =
     compare_values lc (cell_at (rows ! i) (ss_col s)) (cell_at (rows ! j) (ss_col s)) numeric
       * sort_mul (ss_dir s)"

definition build_view_indices ::
    "(string \<Rightarrow> string \<Rightarrow> int) \<Rightarrow> cell list list \<Rightarrow> column list \<Rightarrow> sort_state option \<Rightarrow>
     column_filters \<Rightarrow> nat list" where
  "build_view_indices lc rows cols st fs =
     (let active = active_filters fs;
          idx = filter (\<lambda>i. row_passes active (rows ! i)) [0..<length rows]
      in case st of None \<Rightarrow> idx
         | Some s \<Rightarrow>
             if ss_col s < length cols
             then let numeric = is_numeric_type (col_type (cols ! ss_col s));
                      decorated = zip idx [0..<length idx];
                      le = (\<lambda>(i, k) (j, l). let c = view_cmp lc rows s numeric i j in
                              if c \<noteq> 0 then c \<le> 0 else k \<le> l)
                  in map fst (sort_by le decorated)
             else idx)"

datatype sort_icon = ArrowUp | ArrowDown

definition sort_icon_of :: "sort_state option \<Rightarrow> nat \<Rightarrow> sort_icon option" where
  "sort_icon_of st col =
     (case st of None \<Rightarrow> None
      | Some s \<Rightarrow> if ss_col s \<noteq> col then None
          else Some (if ss_dir s = Asc then ArrowUp else ArrowDown))"

text \<open>The filters list their columns in ascending order already, so the sort by column keeps
  them.\<close>

definition search_terms :: "column_filters \<Rightarrow> column list \<Rightarrow> (string \<times> string) list" where
  "search_terms fs cols =
     map (\<lambda>(ci, v). (col_name (cols ! ci), v))
       (sort_by (\<lambda>a b. fst a \<le> fst b)
         (filter (\<lambda>(ci, v). v \<noteq> [] \<and> ci < length cols) (map (\<lambda>(c, q). (c, trim q)) fs)))"

section \<open>Lemmas on sorting\<close>

lemma mset_insert_by [simp]: "mset (insert_by le x xs) = add_mset x (mset xs)"
  by (induction xs) auto

lemma mset_sort_by [simp]: "mset (sort_by le xs) = mset xs"
  by (induction xs) (auto simp: sort_by_def)

lemma set_sort_by [simp]: "set (sort_by le xs) = set xs"
  by (metis mset_sort_by set_mset_mset)

lemma set_insert_by [simp]: "set (insert_by le x xs) = insert x (set xs)"
  by (induction xs) auto

lemma distinct_map_sort_by [simp]: "distinct (map f (sort_by le xs)) = distinct (map f xs)"
  by (metis mset_sort_by mset_map mset_eq_imp_distinct_iff)

lemma sorted_insert_by:
  assumes tot: "\<And>x y. le x y \<or> le y x" and tr: "\<And>a b c. le a b \<Longrightarrow> le b c \<Longrightarrow> le a c"
  shows "sorted_wrt le xs \<Longrightarrow> sorted_wrt le (insert_by le x xs)"
proof (induction xs)
  case (Cons y ys)
  then have ys: "\<forall>z \<in> set ys. le y z" "sorted_wrt le (insert_by le x ys)" "sorted_wrt le ys"
    by simp_all
  show ?case
  proof (cases "le x y")
    case True
    with ys(1) tr have "\<forall>z \<in> set ys. le x z" by blast
    with True ys show ?thesis by simp
  next
    case False
    with tot have "le y x" by blast
    with False ys show ?thesis by simp
  qed
qed simp

lemma sorted_sort_by:
  assumes tot: "\<And>x y. le x y \<or> le y x" and tr: "\<And>a b c. le a b \<Longrightarrow> le b c \<Longrightarrow> le a c"
  shows "sorted_wrt le (sort_by le xs)"
proof (induction xs)
  case (Cons x xs)
  have "sorted_wrt le (insert_by le x (sort_by le xs))"
    using tot tr Cons.IH by (rule sorted_insert_by)
  then show ?case by (simp add: sort_by_def)
qed (simp add: sort_by_def)

section \<open>The order of cells\<close>

definition collation :: "(string \<Rightarrow> string \<Rightarrow> int) \<Rightarrow> bool" where
  "collation lc \<longleftrightarrow>
     (\<forall>a b. sgn (lc b a) = - sgn (lc a b)) \<and>
     (\<forall>a b c. lc a b \<le> 0 \<and> lc b c \<le> 0 \<longrightarrow> lc a c \<le> 0)"

lemma collation_sym:
  assumes "collation lc"
  shows "(lc b a \<le> 0) = (0 \<le> lc a b)"
proof -
  have "sgn (lc b a) = - sgn (lc a b)" using assms unfolding collation_def by blast
  then show ?thesis by (auto simp: sgn_if split: if_splits)
qed

lemma collation_trans: "collation lc \<Longrightarrow> lc a b \<le> 0 \<Longrightarrow> lc b c \<le> 0 \<Longrightarrow> lc a c \<le> 0"
  unfolding collation_def by blast

lemma sign_of_difference_sym: "(sign_of_difference y x \<le> 0) = (0 \<le> sign_of_difference x y)"
  using js_lt_trans [of x y x] by (auto simp: sign_of_difference_def)

lemma sign_of_difference_le:
  "\<not> is_nan x \<Longrightarrow> \<not> is_nan y \<Longrightarrow> (sign_of_difference x y \<le> 0) = (\<not> js_lt y x)"
  using js_lt_trans [of x y x] by (auto simp: sign_of_difference_def)

lemma js_le_trans:
  assumes "\<not> is_nan x" "\<not> is_nan y" "\<not> is_nan z" "\<not> js_lt y x" "\<not> js_lt z y"
  shows "\<not> js_lt z x"
  using assms js_lt_total [of x y] js_lt_total [of y z] js_lt_trans by metis

text \<open>Where a cell stands in a numeric column: numbers, then other text, then NULL.\<close>

definition is_number_text :: "string \<Rightarrow> bool" where
  "is_number_text x \<longleftrightarrow> trim x \<noteq> [] \<and> \<not> is_nan (js_Number x)"

lemma compare_values_simps:
  "compare_values lc None None n = 0"
  "compare_values lc None (Some y) n = 1"
  "compare_values lc (Some x) None n = - 1"
  "compare_values lc (Some x) (Some y) n =
     (if n \<and> is_number_text x \<and> is_number_text y then sign_of_difference (js_Number x) (js_Number y)
      else if n \<and> is_number_text x then - 1 else if n \<and> is_number_text y then 1 else lc x y)"
  by (auto simp: compare_values_def is_number_text_def Let_def)

lemma compare_values_sym:
  assumes "collation lc"
  shows "(compare_values lc b a n \<le> 0) = (0 \<le> compare_values lc a b n)"
  by (cases a; cases b)
     (use collation_sym [OF assms] sign_of_difference_sym in \<open>auto simp: compare_values_simps\<close>)

lemma compare_values_trans:
  assumes "collation lc" "compare_values lc a b n \<le> 0" "compare_values lc b c n \<le> 0"
  shows "compare_values lc a c n \<le> 0"
proof (cases "a = None \<or> b = None \<or> c = None")
  case True
  with assms(2,3) show ?thesis
    by (cases a; cases b; cases c) (auto simp: compare_values_simps split: if_splits)
next
  case False
  then obtain x y z where s: "a = Some x" "b = Some y" "c = Some z" by auto
  show ?thesis
  proof (cases "n \<and> (is_number_text x \<or> is_number_text y \<or> is_number_text z)")
    case True
    with assms(2,3) have xn: "is_number_text x" "is_number_text z \<Longrightarrow> is_number_text y"
      unfolding s compare_values_simps by (auto split: if_splits)
    show ?thesis
    proof (cases "is_number_text z")
      case zn: True
      with xn have yn: "is_number_text y" by simp
      have nn: "\<not> is_nan (js_Number x)" "\<not> is_nan (js_Number y)" "\<not> is_nan (js_Number z)"
        using xn(1) yn zn by (simp_all add: is_number_text_def)
      with assms(2,3) True xn(1) yn zn have "\<not> js_lt (js_Number z) (js_Number x)"
        unfolding s compare_values_simps using js_le_trans [OF nn]
        by (simp add: sign_of_difference_le)
      with True xn(1) yn zn nn show ?thesis unfolding s compare_values_simps
        by (simp add: sign_of_difference_le)
    qed (use True xn in \<open>simp add: s compare_values_simps\<close>)
  next
    case False
    with assms(2,3) collation_trans [OF assms(1), of x y z] show ?thesis
      unfolding s compare_values_simps by auto
  qed
qed

section \<open>Properties\<close>

definition view_order ::
    "(string \<Rightarrow> string \<Rightarrow> int) \<Rightarrow> cell list list \<Rightarrow> sort_state \<Rightarrow> bool \<Rightarrow> nat \<times> nat \<Rightarrow> nat \<times> nat \<Rightarrow> bool" where
  "view_order lc rows s n = (\<lambda>(i, k) (j, l). let c = view_cmp lc rows s n i j in
     if c \<noteq> 0 then c \<le> 0 else k \<le> l)"

lemma view_cmp_sym: "collation lc \<Longrightarrow> (view_cmp lc rows s n j i \<le> 0) = (0 \<le> view_cmp lc rows s n i j)"
  using compare_values_sym by (cases "ss_dir s") (auto simp: view_cmp_def sort_mul_def)

lemma view_cmp_trans:
  assumes "collation lc" "view_cmp lc rows s n i j \<le> 0" "view_cmp lc rows s n j k \<le> 0"
  shows "view_cmp lc rows s n i k \<le> 0"
proof (cases "ss_dir s")
  case Asc
  with assms compare_values_trans [OF assms(1)] show ?thesis by (simp add: view_cmp_def sort_mul_def)
next
  case Desc
  with assms compare_values_trans [OF assms(1)] compare_values_sym [OF assms(1)] show ?thesis
    by (simp add: view_cmp_def sort_mul_def)
qed

lemma view_order_total: "collation lc \<Longrightarrow> view_order lc rows s n x y \<or> view_order lc rows s n y x"
  using view_cmp_sym [of lc rows s n "fst y" "fst x"] view_cmp_sym [of lc rows s n "fst x" "fst y"]
  by (cases x; cases y) (auto simp: view_order_def Let_def)

lemma view_order_trans:
  assumes "collation lc" "view_order lc rows s n x y" "view_order lc rows s n y z"
  shows "view_order lc rows s n x z"
proof -
  obtain i k where x: "x = (i, k)" by (cases x)
  obtain j l where y: "y = (j, l)" by (cases y)
  obtain h m where z: "z = (h, m)" by (cases z)
  note sym = view_cmp_sym [OF assms(1), of rows s n]
  note tr = view_cmp_trans [OF assms(1), of rows s n]
  have 1: "view_cmp lc rows s n i j \<le> 0" "view_cmp lc rows s n j h \<le> 0"
    using assms(2,3) unfolding x y z by (auto simp: view_order_def Let_def split: if_splits)
  have 2: "view_cmp lc rows s n i h \<le> 0" using tr [OF 1] .
  have 3: "view_cmp lc rows s n i j = 0 \<and> view_cmp lc rows s n j h = 0"
    if "view_cmp lc rows s n i h = 0"
  proof -
    have "view_cmp lc rows s n h i \<le> 0" using sym [of h i] that by simp
    then have "view_cmp lc rows s n j i \<le> 0" "view_cmp lc rows s n h j \<le> 0"
      using tr 1 by blast+
    then show ?thesis using sym [of j i] sym [of h j] 1 by simp
  qed
  show ?thesis using assms(2,3) 2 3 unfolding x y z
    by (auto simp: view_order_def Let_def split: if_splits)
qed

lemma row_filter_sorted: "sorted_wrt (<) (filter P [0..<n])"
  by (simp add: sorted_wrt_filter)

lemma build_view_sorted:
  assumes "collation lc" "ss_col s < length cols"
  shows "sorted_wrt (\<lambda>i j. let c = view_cmp lc rows s (is_numeric_type (col_type (cols ! ss_col s))) i j
      in c < 0 \<or> (c = 0 \<and> i < j)) (build_view_indices lc rows cols (Some s) fs)"
proof -
  define n where "n = is_numeric_type (col_type (cols ! ss_col s))"
  define idx where "idx = filter (\<lambda>i. row_passes (active_filters fs) (rows ! i)) [0..<length rows]"
  define dec where "dec = zip idx [0..<length idx]"
  have v: "build_view_indices lc rows cols (Some s) fs = map fst (sort_by (view_order lc rows s n) dec)"
    using assms(2) by (simp add: build_view_indices_def Let_def view_order_def n_def idx_def dec_def)
  have srt: "sorted_wrt (view_order lc rows s n) (sort_by (view_order lc rows s n) dec)"
    by (rule sorted_sort_by [OF view_order_total [OF assms(1)] view_order_trans [OF assms(1)]])
  have asc: "i < j" if "(i, k) \<in> set dec" "(j, l) \<in> set dec" "k < l" for i j k l
  proof -
    have "i = idx ! k" "j = idx ! l" "l < length idx" using that by (auto simp: dec_def in_set_zip)
    moreover have "sorted_wrt (<) idx" by (simp add: idx_def row_filter_sorted)
    ultimately show ?thesis using \<open>k < l\<close> by (simp add: sorted_wrt_iff_nth_less)
  qed
  have dist: "distinct (map snd (sort_by (view_order lc rows s n) dec))" by (simp add: dec_def)
  have pick: "i < j" if "(i, k) \<in> set dec" "(j, l) \<in> set dec" "k \<le> l" "k \<noteq> l" for i j k l
    using asc [OF that(1,2)] that(3,4) by simp
  have "sorted_wrt (\<lambda>x y. snd x \<noteq> snd y \<and> view_order lc rows s n x y) (sort_by (view_order lc rows s n) dec)"
    using srt dist by (auto simp: sorted_wrt_iff_nth_less distinct_conv_nth)
  then have "sorted_wrt (\<lambda>x y. let c = view_cmp lc rows s n (fst x) (fst y)
      in c < 0 \<or> (c = 0 \<and> fst x < fst y)) (sort_by (view_order lc rows s n) dec)"
    by (rule sorted_wrt_mono_rel [rotated])
       (auto simp: view_order_def Let_def intro: pick split: if_splits)
  then show ?thesis by (simp add: v sorted_wrt_map n_def)
qed

lemma build_view_mset:
  "mset (build_view_indices lc rows cols st fs) =
     mset (filter (\<lambda>i. row_passes (active_filters fs) (rows ! i)) [0..<length rows])"
proof -
  define idx where "idx = filter (\<lambda>i. row_passes (active_filters fs) (rows ! i)) [0..<length rows]"
  have "mset (map fst (sort_by le (zip idx [0..<length idx]))) = mset idx" for le
    by (metis length_upt map_fst_zip minus_nat.diff_0 mset_map mset_sort_by)
  then show ?thesis
    unfolding build_view_indices_def Let_def idx_def [symmetric] by (simp split: option.split)
qed

lemma build_view_members:
  "distinct (build_view_indices lc rows cols st fs)"
  "set (build_view_indices lc rows cols st fs) =
     {i. i < length rows \<and> row_passes (active_filters fs) (rows ! i)}"
  using mset_eq_imp_distinct_iff [OF build_view_mset, of lc rows cols st fs]
    mset_eq_setD [OF build_view_mset, of lc rows cols st fs] by auto

section \<open>Properties\<close>

text \<open>The grid's view of a sorted and filtered page shows exactly the rows that match every
  search box, each once, in the column's order, and rows that compare equal keep the order
  they were loaded in, for any collation of the user's locale.\<close>

theorem view_is_stable_sort:
  assumes "collation lc" and "ss_col s < length cols"
  shows "distinct (build_view_indices lc rows cols (Some s) fs) \<and>
    set (build_view_indices lc rows cols (Some s) fs) =
      {i. i < length rows \<and> row_passes (active_filters fs) (rows ! i)} \<and>
    sorted_wrt (\<lambda>i j. let c = view_cmp lc rows s (is_numeric_type (col_type (cols ! ss_col s))) i j
      in c < 0 \<or> (c = 0 \<and> i < j)) (build_view_indices lc rows cols (Some s) fs)"
  using build_view_members build_view_sorted [OF assms] by blast

theorem view_is_stable_sort_witness:
  "sorted_wrt (\<lambda>i j. let c = view_cmp (\<lambda>a b. int (length a) - int (length b))
        [[Some ''10''], [None], [Some ''9'']] \<lparr>ss_col = 0, ss_dir = Asc\<rparr> True i j
      in c < 0 \<or> (c = 0 \<and> i < j))
    (build_view_indices (\<lambda>a b. int (length a) - int (length b)) [[Some ''10''], [None], [Some ''9'']]
      [\<lparr>col_name = ''n'', col_type = ''int''\<rparr>] (Some \<lparr>ss_col = 0, ss_dir = Asc\<rparr>) []) \<and>
   build_view_indices (\<lambda>a b. int (length a) - int (length b)) [[Some ''10''], [None], [Some ''9'']]
      [\<lparr>col_name = ''n'', col_type = ''int''\<rparr>] (Some \<lparr>ss_col = 0, ss_dir = Asc\<rparr>) [] = [2, 0, 1]"
proof
  have c: "collation (\<lambda>a b. int (length a) - int (length b))"
    by (simp add: collation_def sgn_if)
  have n: "is_numeric_type ''int''" by code_simp
  show "sorted_wrt (\<lambda>i j. let c = view_cmp (\<lambda>a b. int (length a) - int (length b))
        [[Some ''10''], [None], [Some ''9'']] \<lparr>ss_col = 0, ss_dir = Asc\<rparr> True i j
      in c < 0 \<or> (c = 0 \<and> i < j))
    (build_view_indices (\<lambda>a b. int (length a) - int (length b)) [[Some ''10''], [None], [Some ''9'']]
      [\<lparr>col_name = ''n'', col_type = ''int''\<rparr>] (Some \<lparr>ss_col = 0, ss_dir = Asc\<rparr>) [])"
    using view_is_stable_sort [OF c, of "\<lparr>ss_col = 0, ss_dir = Asc\<rparr>"
      "[\<lparr>col_name = ''n'', col_type = ''int''\<rparr>]" "[[Some ''10''], [None], [Some ''9'']]" "[]"] n
    by simp
qed code_simp

end
