(* ===== verification/DataDiff.thy ===== *)
theory DataDiff
  imports GridView EditSession
begin

text \<open>
  Data synchronisation (\<open>dataDiff.ts\<close>) and its review grid (\<open>dataDiffRows.ts\<close>): two fully
  read tables are compared by primary key and the difference becomes a plan of row
  operations on the target. The main theorem runs the plan on the target's rows and finds
  the source's.
\<close>

type_synonym row_map = cells

record data_diff =
  dd_inserts :: "row_map list"
  dd_updates :: "(row_map \<times> row_map) list"     \<comment> \<open>set, where\<close>
  dd_deletes :: "row_map list"

definition KEY_SEP :: string where "KEY_SEP = [CHR 0x00]"
definition NULL_KEY :: string where "NULL_KEY = CHR 0x00 # ''NULL''"

text \<open>\<open>toRecords\<close>.\<close>

definition record_of :: "column list \<Rightarrow> cell list \<Rightarrow> row_map" where
  "record_of cols row = obj_of (map (\<lambda>(i, c). (col_name c, cell_at row i)) (index_list cols))"

definition to_records :: "result_set \<Rightarrow> row_map list" where
  "to_records rs = map (record_of (rs_columns rs)) (rs_rows rs)"

text \<open>\<open>rec[k]\<close> of an absent column is \<open>undefined\<close>, which \<open>join\<close> writes as nothing.\<close>

definition key_of :: "row_map \<Rightarrow> string list \<Rightarrow> string" where
  "key_of rec pk = join KEY_SEP (map (\<lambda>k. case map_of rec k of
       None \<Rightarrow> [] | Some None \<Rightarrow> NULL_KEY | Some (Some v) \<Rightarrow> v) pk)"

text \<open>\<open>rec[k] ?? null\<close>.\<close>

definition field :: "row_map \<Rightarrow> string \<Rightarrow> cell" where
  "field rec k = (case map_of rec k of None \<Rightarrow> None | Some v \<Rightarrow> v)"

definition pk_of :: "row_map \<Rightarrow> string list \<Rightarrow> row_map" where
  "pk_of rec pk = obj_of (map (\<lambda>k. (k, field rec k)) pk)"

text \<open>\<open>canonDecimal\<close>: the pattern \<open>/^\s*([+-]?)(\d*)(?:\.(\d*))?\s*$/\<close> is read by hand.\<close>

definition drop_zeros :: "string \<Rightarrow> string" where
  "drop_zeros s = dropWhile (\<lambda>c. c = CHR ''0'') s"

definition canon_decimal :: "string \<Rightarrow> string option" where
  "canon_decimal s =
     (let t = trim_start s;
          (neg_sign, r) = (case t of c # u \<Rightarrow>
             if c = CHR ''-'' then (True, u) else if c = CHR ''+'' then (False, u) else (False, t)
           | [] \<Rightarrow> (False, []));
          i = takeWhile is_digit r; r2 = dropWhile is_digit r;
          (f, r3) = (case r2 of c # u \<Rightarrow>
             if c = CHR ''.'' then (takeWhile is_digit u, dropWhile is_digit u) else ([], r2)
           | [] \<Rightarrow> ([], []))
      in if \<not> blank r3 \<or> (i = [] \<and> f = []) then None
         else let int_part = (if drop_zeros i = [] then ''0'' else drop_zeros i);
                  frac = rev (drop_zeros (rev f));
                  neg = neg_sign \<and> (int_part \<noteq> ''0'' \<or> frac \<noteq> [])
              in Some ((if neg then ''-'' else []) @ int_part @ (if frac = [] then [] else ''.'' @ frac)))"

definition same_value :: "cell \<Rightarrow> cell \<Rightarrow> string \<Rightarrow> bool" where
  "same_value a b ty =
     (if a = b then True
      else case (a, b) of
        (Some x, Some y) \<Rightarrow>
          if \<not> is_numeric_type ty then False
          else (case (canon_decimal x, canon_decimal y) of
              (Some cx, Some cy) \<Rightarrow> cx = cy
            | _ \<Rightarrow> let na = js_Number x; nb = js_Number y in
                trim x \<noteq> [] \<and> trim y \<noteq> [] \<and> is_finite na \<and> js_eq na nb)
      | _ \<Rightarrow> False)"

record sync_ops =
  so_insert :: bool
  so_update :: bool
  so_delete :: bool

definition DEFAULT_SYNC_OPS :: sync_ops where
  "DEFAULT_SYNC_OPS = \<lparr>so_insert = True, so_update = True, so_delete = False\<rparr>"

definition pick_ops :: "data_diff \<Rightarrow> sync_ops \<Rightarrow> data_diff" where
  "pick_ops d ops =
     \<lparr>dd_inserts = (if so_insert ops then dd_inserts d else []),
      dd_updates = (if so_update ops then dd_updates d else []),
      dd_deletes = (if so_delete ops then dd_deletes d else [])\<rparr>"

text \<open>\<open>new Map(recs.map((r) => [keyOf(r, pk), r]))\<close>: a later row replaces an earlier one with
  the same key.\<close>

definition by_key :: "row_map list \<Rightarrow> string list \<Rightarrow> (string \<times> row_map) list" where
  "by_key recs pk = fold (\<lambda>r m. map_set (key_of r pk) r m) recs []"

definition type_of :: "column list \<Rightarrow> string \<Rightarrow> string" where
  "type_of cols c = (case map_of (fold (\<lambda>c m. map_set (col_name c) (col_type c) m) cols []) c of
     None \<Rightarrow> [] | Some ty \<Rightarrow> ty)"

definition non_key :: "string list \<Rightarrow> string list \<Rightarrow> string list" where
  "non_key cols pk = filter (\<lambda>c. c \<notin> set pk) cols"

definition all_values :: "string list \<Rightarrow> row_map \<Rightarrow> row_map" where
  "all_values cols rec = obj_of (map (\<lambda>c. (c, field rec c)) cols)"

definition changed_values ::
    "string list \<Rightarrow> (string \<Rightarrow> string) \<Rightarrow> row_map \<Rightarrow> row_map \<Rightarrow> row_map" where
  "changed_values nk ty rec t =
     obj_of (concat (map (\<lambda>c. if same_value (field rec c) (field t c) (ty c) then []
       else [(c, field rec c)]) nk))"

definition DIFF_PAGE :: string where
  "DIFF_PAGE = ''data diff needs every row of both tables, not a page''"

definition diff_data :: "result_set \<Rightarrow> result_set \<Rightarrow> string list \<Rightarrow> (string, data_diff) result" where
  "diff_data src tgt pk =
     (if rs_truncated src \<or> rs_truncated tgt then Inl DIFF_PAGE
      else let cols = map col_name (rs_columns src); ty = type_of (rs_columns src);
               nk = non_key cols pk;
               S = by_key (to_records src) pk; T = by_key (to_records tgt) pk
           in Inr \<lparr>
             dd_inserts = concat (map (\<lambda>(k, rec).
                if has_key T k then [] else [all_values cols rec]) S),
             dd_updates = concat (map (\<lambda>(k, rec). case map_of T k of None \<Rightarrow> []
                | Some t \<Rightarrow> let sets = changed_values nk ty rec t in
                    if length (obj_keys sets) > 0 then [(sets, pk_of rec pk)] else []) S),
             dd_deletes = concat (map (\<lambda>(k, rec).
                if has_key S k then [] else [pk_of rec pk]) T)\<rparr>)"

definition data_diff_empty :: "data_diff \<Rightarrow> bool" where
  "data_diff_empty d \<longleftrightarrow>
     length (dd_inserts d) = 0 \<and> length (dd_updates d) = 0 \<and> length (dd_deletes d) = 0"

definition data_diff_count :: "data_diff \<Rightarrow> nat" where
  "data_diff_count d = length (dd_inserts d) + length (dd_updates d) + length (dd_deletes d)"

definition data_diff_counts :: "data_diff \<Rightarrow> nat \<times> nat \<times> nat" where
  "data_diff_counts d = (length (dd_inserts d), length (dd_updates d), length (dd_deletes d))"

definition plan_types :: "string obj \<Rightarrow> string list \<Rightarrow> string obj" where
  "plan_types types cols = obj_of (concat (map (\<lambda>c. case map_of types c of
     None \<Rightarrow> [] | Some ty \<Rightarrow> if ty = [] then [] else [(c, ty)]) cols))"

definition diff_to_plan :: "data_diff \<Rightarrow> string obj \<Rightarrow> plan_item list" where
  "diff_to_plan d types =
     map (\<lambda>v. Insert v (Some (plan_types types (obj_keys v))) None) (dd_inserts d) @
     map (\<lambda>(s, w). Update s w (Some (plan_types types (obj_keys s)))) (dd_updates d) @
     map Delete (dd_deletes d)"

section \<open>The review grid\<close>

datatype diff_op = OpInsert | OpUpdate | OpDelete

record diff_row =
  dr_op :: diff_op
  dr_key :: "cell list"
  dr_column :: "string option"
  dr_from :: cell
  dr_to :: cell

text \<open>The separator is \<open>" \<cdot> "\<close>, with the middle dot U+00B7.\<close>

definition joined :: "row_map \<Rightarrow> string list \<Rightarrow> string" where
  "joined rec cols = join [CHR '' '', CHR 0xB7, CHR '' '']
     (map (\<lambda>c. case field rec c of None \<Rightarrow> ''NULL'' | Some v \<Rightarrow> v) cols)"

definition diff_rows :: "data_diff \<Rightarrow> result_set \<Rightarrow> string list \<Rightarrow> string list \<Rightarrow> diff_row list" where
  "diff_rows d tgt pk cols =
     (let nk = non_key cols pk;
          T = by_key (to_records tgt) pk;
          key_vals = (\<lambda>rec. map (field rec) pk);
          now = (\<lambda>w. case map_of T (key_of w pk) of None \<Rightarrow> [] | Some r \<Rightarrow> r)
      in map (\<lambda>v. \<lparr>dr_op = OpInsert, dr_key = key_vals v, dr_column = None, dr_from = None,
                    dr_to = Some (joined v nk)\<rparr>) (dd_inserts d) @
         concat (map (\<lambda>(s, w). map (\<lambda>(col, v). \<lparr>dr_op = OpUpdate, dr_key = key_vals w,
                    dr_column = Some col, dr_from = field (now w) col, dr_to = v\<rparr>) s) (dd_updates d)) @
         map (\<lambda>w. \<lparr>dr_op = OpDelete, dr_key = key_vals w, dr_column = None,
                    dr_from = Some (joined (now w) nk), dr_to = None\<rparr>) (dd_deletes d))"

definition equal_count :: "int \<Rightarrow> data_diff \<Rightarrow> int" where
  "equal_count n d = max 0 (n - int (length (dd_inserts d)) - int (length (dd_updates d)))"

section \<open>Keys\<close>

text \<open>A row whose key columns are present, not NULL and free of U+0000.\<close>

definition good_key :: "string list \<Rightarrow> row_map \<Rightarrow> bool" where
  "good_key pk r \<longleftrightarrow> (\<forall>k \<in> set pk. case map_of r k of Some (Some v) \<Rightarrow> CHR 0x00 \<notin> set v | _ \<Rightarrow> False)"

lemma good_keyD:
  "good_key pk r \<Longrightarrow> k \<in> set pk \<Longrightarrow> \<exists>v. map_of r k = Some (Some v) \<and> CHR 0x00 \<notin> set v"
  unfolding good_key_def by (drule (1) bspec) (simp split: option.splits)

lemma good_key_cong: "(\<And>k. k \<in> set pk \<Longrightarrow> map_of r k = map_of t k) \<Longrightarrow> good_key pk r = good_key pk t"
  by (simp add: good_key_def)

lemma key_of_cong: "(\<And>k. k \<in> set pk \<Longrightarrow> map_of r k = map_of t k) \<Longrightarrow> key_of r pk = key_of t pk"
  by (simp add: key_of_def cong: map_cong)

lemma key_of_inj:
  assumes "good_key pk r" "good_key pk t" "pk \<noteq> []" "key_of r pk = key_of t pk" "k \<in> set pk"
  shows "map_of r k = map_of t k"
proof -
  define f where "f = (\<lambda>(r :: row_map) k. case map_of r k of None \<Rightarrow> [] | Some None \<Rightarrow> NULL_KEY | Some (Some v) \<Rightarrow> v)"
  have nul: "\<forall>x \<in> set (map (f r) pk). CHR 0x00 \<notin> set x" if "good_key pk r" for r
    using good_keyD [OF that] by (fastforce simp: f_def)
  have "split_on (CHR 0x00) (join [CHR 0x00] (map (f r) pk)) = map (f r) pk" if "good_key pk r" for r
    using nul [OF that] assms(3) by (intro split_on_join) auto
  moreover have "key_of r pk = join [CHR 0x00] (map (f r) pk)" for r
    by (simp add: key_of_def KEY_SEP_def f_def)
  ultimately have "map (f r) pk = map (f t) pk" using assms(1,2,4) by metis
  with assms(5) have "f r k = f t k" by simp
  with good_keyD [OF assms(1,5)] good_keyD [OF assms(2,5)] show ?thesis by (auto simp: f_def)
qed

section \<open>What a plan does to a table\<close>

text \<open>The meaning of the row operations on a table read as records: a WHERE selects the rows
  that hold its values.\<close>

definition matches :: "row_map \<Rightarrow> row_map \<Rightarrow> bool" where
  "matches w r \<longleftrightarrow> list_all (\<lambda>(k, v). map_of r k = Some v) w"

definition overwrite :: "row_map \<Rightarrow> row_map \<Rightarrow> row_map" where
  "overwrite sets r = fold (\<lambda>(k, v). obj_set k v) sets r"

fun run_item :: "plan_item \<Rightarrow> row_map list \<Rightarrow> row_map list" where
  "run_item (Insert v _ _) rows = rows @ [v]"
| "run_item (Update s w _) rows = map (\<lambda>r. if matches w r then overwrite s r else r) rows"
| "run_item (Delete w) rows = filter (\<lambda>r. \<not> matches w r) rows"

definition run_plan :: "plan_item list \<Rightarrow> row_map list \<Rightarrow> row_map list" where
  "run_plan plan rows = fold run_item plan rows"

definition update_all :: "(row_map \<times> row_map) list \<Rightarrow> row_map \<Rightarrow> row_map" where
  "update_all us r = fold (\<lambda>(s, w) r. if matches w r then overwrite s r else r) us r"

lemma run_inserts: "fold run_item (map (\<lambda>v. Insert v (ty v) n) vs) rows = rows @ vs"
  by (induction vs arbitrary: rows) auto

lemma run_updates:
  "fold run_item (map (\<lambda>(s, w). Update s w (ty s)) us) rows = map (update_all us) rows"
  by (induction us arbitrary: rows) (auto simp: update_all_def [abs_def])

lemma run_deletes:
  "fold run_item (map Delete ws) rows = filter (\<lambda>r. \<forall>w \<in> set ws. \<not> matches w r) rows"
  by (induction ws arbitrary: rows) (auto simp: conj_commute intro: filter_cong)

lemma run_diff:
  "run_plan (diff_to_plan d types) rows =
     filter (\<lambda>r. \<forall>w \<in> set (dd_deletes d). \<not> matches w r)
       (map (update_all (dd_updates d)) (rows @ dd_inserts d))"
  using run_updates [of "\<lambda>s. Some (plan_types types (obj_keys s))"]
    run_inserts [of "\<lambda>v. Some (plan_types types (obj_keys v))"]
  by (simp add: run_plan_def diff_to_plan_def run_deletes)

section \<open>Records built from a list of columns\<close>

lemma map_of_rev_map: "map_of (rev (map (\<lambda>k. (k, f k)) ks)) k = (if k \<in> set ks then Some (f k) else None)"
  by (auto simp: rev_map map_of_map_restrict restrict_map_def)

lemma map_of_obj_of_map [simp]:
  "map_of (obj_of (map (\<lambda>k. (k, f k)) ks)) k = (if k \<in> set ks then Some (f k) else None)"
  by (simp add: map_of_obj_of map_of_rev_map)

lemma wf_obj_iff: "wf_obj ob \<Longrightarrow> (k, v) \<in> set ob \<longleftrightarrow> map_of ob k = Some v"
  by (simp add: wf_obj_def)

lemma matches_iff: "wf_obj w \<Longrightarrow> matches w r \<longleftrightarrow> (\<forall>k v. map_of w k = Some v \<longrightarrow> map_of r k = Some v)"
  by (auto simp: matches_def list_all_iff wf_obj_iff)

lemma matches_pk_of:
  assumes "good_key pk s"
  shows "matches (pk_of s pk) r \<longleftrightarrow> (\<forall>k \<in> set pk. map_of r k = map_of s k)"
proof -
  have f: "Some (field s k) = map_of s k" if "k \<in> set pk" for k
    using good_keyD [OF assms that] by (auto simp: field_def)
  have "matches (pk_of s pk) r \<longleftrightarrow> (\<forall>k \<in> set pk. map_of r k = Some (field s k))"
    unfolding matches_iff [OF wf_obj_of [of "map (\<lambda>k. (k, field s k)) pk", folded pk_of_def]]
    unfolding pk_of_def map_of_obj_of_map by auto
  also have "\<dots> \<longleftrightarrow> (\<forall>k \<in> set pk. map_of r k = map_of s k)"
    using f by simp
  finally show ?thesis .
qed

lemma matches_key:
  assumes "good_key pk s" "good_key pk r" "pk \<noteq> []"
  shows "matches (pk_of s pk) r \<longleftrightarrow> key_of r pk = key_of s pk"
  using matches_pk_of [OF assms(1)] key_of_inj [OF assms(2,1,3)] key_of_cong by metis

lemma map_of_rev_wf: "wf_obj s \<Longrightarrow> map_of (rev s) = map_of s"
proof
  fix k
  assume wf: "wf_obj s"
  then have d: "distinct (map fst (rev s))" "distinct (map fst s)"
    by (simp_all add: wf_obj_def rev_map [symmetric])
  show "map_of (rev s) k = map_of s k"
  proof (cases "map_of s k")
    case None
    then show ?thesis by (metis map_of_eq_None_iff set_rev)
  next
    case (Some v)
    then have "(k, v) \<in> set (rev s)" by (simp add: map_of_SomeD)
    with d(1) Some show ?thesis by (simp only: map_of_is_SomeI)
  qed
qed

lemma map_of_overwrite: "wf_obj s \<Longrightarrow> map_of (overwrite s r) = map_of r ++ map_of s"
  by (simp add: overwrite_def map_of_fold_obj_set map_of_rev_wf)

section \<open>The updates\<close>

lemma update_all_none: "\<forall>(s, w) \<in> set us. \<not> matches w r \<Longrightarrow> update_all us r = r"
  by (induction us) (auto simp: update_all_def)

lemma update_all_append: "update_all (us @ vs) r = update_all vs (update_all us r)"
  by (simp add: update_all_def)

lemma update_all_one:
  assumes "\<forall>(s, w) \<in> set us. \<not> matches w r" "matches w0 r" "\<forall>(s, w) \<in> set vs. \<not> matches w (overwrite s0 r)"
  shows "update_all (us @ (s0, w0) # vs) r = overwrite s0 r"
  using update_all_none [OF assms(1)] update_all_none [OF assms(3)] assms(2)
  by (simp add: update_all_append) (simp add: update_all_def)

section \<open>The comparison\<close>

lemma fold_map_set_distinct:
  "distinct (map f xs) \<Longrightarrow> \<forall>x \<in> set xs. f x \<notin> fst ` set m \<Longrightarrow>
     fold (\<lambda>r m. map_set (f r) r m) xs m = m @ map (\<lambda>r. (f r, r)) xs"
proof (induction xs arbitrary: m)
  case (Cons x xs)
  then have "map_set (f x) x m = m @ [(f x, x)]"
    by (simp add: map_set_def has_key_def)
  moreover have "fold (\<lambda>r m. map_set (f r) r m) xs (m @ [(f x, x)]) =
      (m @ [(f x, x)]) @ map (\<lambda>r. (f r, r)) xs"
  proof (rule Cons.IH)
    have "f y \<noteq> f x" if "y \<in> set xs" for y using Cons.prems(1) that by (force simp: image_iff)
    with Cons.prems(2) show "\<forall>y \<in> set xs. f y \<notin> fst ` set (m @ [(f x, x)])" by auto
  qed (use Cons.prems(1) in simp)
  ultimately show ?case by simp
qed simp

lemma by_key_distinct:
  "distinct (map (\<lambda>r. key_of r pk) rs) \<Longrightarrow> by_key rs pk = map (\<lambda>r. (key_of r pk, r)) rs"
  using fold_map_set_distinct [of "\<lambda>r. key_of r pk" rs "[]"] by (simp add: by_key_def)

lemma map_of_by_key:
  assumes "distinct (map (\<lambda>r. key_of r pk) rs)" "t \<in> set rs"
  shows "map_of (map (\<lambda>r. (key_of r pk, r)) rs) (key_of t pk) = Some t"
  using assms by (intro map_of_is_SomeI) (simp_all add: comp_def)

lemma has_key_by_key:
  "has_key (map (\<lambda>r. (key_of r pk, r)) rs) k \<longleftrightarrow> k \<in> (\<lambda>r. key_of r pk) ` set rs"
  by (force simp: has_key_def image_iff)

text \<open>The differences of two lists of records with distinct keys.\<close>

definition updates_of ::
    "string list \<Rightarrow> string list \<Rightarrow> (string \<Rightarrow> string) \<Rightarrow> row_map list \<Rightarrow> row_map list \<Rightarrow> (row_map \<times> row_map) list" where
  "updates_of pk nk ty S T =
     concat (map (\<lambda>s. case map_of (map (\<lambda>r. (key_of r pk, r)) T) (key_of s pk) of None \<Rightarrow> []
       | Some t \<Rightarrow> if length (obj_keys (changed_values nk ty s t)) > 0
           then [(changed_values nk ty s t, pk_of s pk)] else []) S)"

definition inserts_of :: "string list \<Rightarrow> string list \<Rightarrow> row_map list \<Rightarrow> row_map list \<Rightarrow> row_map list" where
  "inserts_of pk cols S T =
     map (all_values cols) (filter (\<lambda>s. key_of s pk \<notin> (\<lambda>r. key_of r pk) ` set T) S)"

definition deletes_of :: "string list \<Rightarrow> row_map list \<Rightarrow> row_map list \<Rightarrow> row_map list" where
  "deletes_of pk S T =
     map (\<lambda>t. pk_of t pk) (filter (\<lambda>t. key_of t pk \<notin> (\<lambda>r. key_of r pk) ` set S) T)"

lemma concat_map_unless:
  "concat (map (\<lambda>x. if P x then [] else [f x]) xs) = map f (filter (\<lambda>x. \<not> P x) xs)"
  by (induction xs) auto

lemma diff_data_distinct:
  assumes "diff_data src tgt pk = Inr d"
    and "distinct (map (\<lambda>r. key_of r pk) (to_records src))"
    and "distinct (map (\<lambda>r. key_of r pk) (to_records tgt))"
  shows "dd_inserts d = inserts_of pk (map col_name (rs_columns src)) (to_records src) (to_records tgt)"
    and "dd_updates d = updates_of pk (non_key (map col_name (rs_columns src)) pk)
      (type_of (rs_columns src)) (to_records src) (to_records tgt)"
    and "dd_deletes d = deletes_of pk (to_records src) (to_records tgt)"
proof -
  have "d = \<lparr>dd_inserts = inserts_of pk (map col_name (rs_columns src)) (to_records src) (to_records tgt),
      dd_updates = updates_of pk (non_key (map col_name (rs_columns src)) pk)
        (type_of (rs_columns src)) (to_records src) (to_records tgt),
      dd_deletes = deletes_of pk (to_records src) (to_records tgt)\<rparr>"
    using assms(1)
    unfolding diff_data_def Let_def by_key_distinct [OF assms(2)] by_key_distinct [OF assms(3)]
      has_key_by_key inserts_of_def updates_of_def deletes_of_def
    by (auto simp: concat_map_unless comp_def split: if_splits)
  then show "dd_inserts d = inserts_of pk (map col_name (rs_columns src)) (to_records src) (to_records tgt)"
    "dd_updates d = updates_of pk (non_key (map col_name (rs_columns src)) pk)
      (type_of (rs_columns src)) (to_records src) (to_records tgt)"
    "dd_deletes d = deletes_of pk (to_records src) (to_records tgt)" by simp_all
qed

lemma changed_values_map:
  "map_of (changed_values nk ty s t) c =
     (if c \<in> set nk \<and> \<not> same_value (field s c) (field t c) (ty c) then Some (field s c) else None)"
proof -
  have "concat (map (\<lambda>c. if same_value (field s c) (field t c) (ty c) then [] else [(c, field s c)]) nk)
      = map (\<lambda>c. (c, field s c)) (filter (\<lambda>c. \<not> same_value (field s c) (field t c) (ty c)) nk)"
    by (rule concat_map_unless)
  then show ?thesis by (simp add: changed_values_def)
qed

lemma wf_changed_values [simp]: "wf_obj (changed_values nk ty s t)"
  by (simp add: changed_values_def)

lemma same_value_refl [simp]: "same_value a a ty"
  by (simp add: same_value_def)

section \<open>Running the plan\<close>

lemma overwrite_key:
  assumes "set nk \<inter> set pk = {}" "k \<in> set pk"
  shows "map_of (overwrite (changed_values nk ty s t) r) k = map_of r k"
  using assms by (auto simp: map_of_overwrite changed_values_map map_add_def)

text \<open>An update of the list addresses a row only if the row has its source row's key.\<close>

lemma updates_of_match:
  assumes "(sets, w) \<in> set (updates_of pk nk ty S T)" "matches w r"
    and "\<forall>s \<in> set S. good_key pk s" "good_key pk r" "pk \<noteq> []"
  shows "\<exists>s \<in> set S. key_of s pk = key_of r pk \<and> key_of s pk \<in> (\<lambda>t. key_of t pk) ` set T"
proof -
  from assms(1) obtain s t where s: "s \<in> set S" "w = pk_of s pk"
    "map_of (map (\<lambda>r. (key_of r pk, r)) T) (key_of s pk) = Some t"
    by (auto simp: updates_of_def split: option.splits if_splits dest!: sym [of "Some _"])
  then have "key_of s pk \<in> (\<lambda>t. key_of t pk) ` set T"
    by (force dest: map_of_SomeD)
  moreover have "key_of r pk = key_of s pk"
    using matches_key [of pk s r] assms(2-5) s by simp
  ultimately show ?thesis using s(1) by force
qed

lemma updates_of_append: "updates_of pk nk ty (S1 @ S2) T = updates_of pk nk ty S1 T @ updates_of pk nk ty S2 T"
  by (simp add: updates_of_def)

lemma update_all_row:
  assumes S: "distinct (map (\<lambda>r. key_of r pk) S)" and T: "distinct (map (\<lambda>r. key_of r pk) T)"
    and gS: "\<forall>s \<in> set S. good_key pk s" and gt: "good_key pk t" and pk: "pk \<noteq> []"
    and nk: "set nk \<inter> set pk = {}"
    and st: "s \<in> set S" "t \<in> set T" "key_of s pk = key_of t pk"
  shows "update_all (updates_of pk nk ty S T) t = overwrite (changed_values nk ty s t) t"
proof -
  obtain S1 S2 where spl: "S = S1 @ s # S2" using split_list [OF st(1)] by blast
  let ?r = "overwrite (changed_values nk ty s t) t"
  have kr: "key_of ?r pk = key_of t pk" and gr: "good_key pk ?r"
    using key_of_cong [of pk ?r t] good_key_cong [of pk ?r t] overwrite_key [OF nk] gt by auto
  have none: "\<not> matches w r" if "(u, w) \<in> set (updates_of pk nk ty S' T)" "good_key pk r"
    "key_of r pk = key_of t pk" "S' = S1 \<or> S' = S2" for u w r S'
  proof
    assume "matches w r"
    from updates_of_match [OF that(1) this _ that(2) pk] that(3,4) gS
    obtain s' where "s' \<in> set S1 \<union> set S2" "key_of s' pk = key_of t pk"
      by (auto simp: spl)
    with S st(3) show False by (auto simp: spl image_iff)
  qed
  have m: "map_of (map (\<lambda>r. (key_of r pk, r)) T) (key_of s pk) = Some t"
    using map_of_by_key [OF T st(2)] st(3) by simp
  have us: "updates_of pk nk ty S T = updates_of pk nk ty S1 T @
      (if length (obj_keys (changed_values nk ty s t)) > 0 then [(changed_values nk ty s t, pk_of s pk)] else [])
      @ updates_of pk nk ty S2 T"
    using m by (simp add: spl updates_of_append) (simp add: updates_of_def)
  have mt: "matches (pk_of s pk) t" using matches_key [of pk s t] gS gt pk st by simp
  show ?thesis
  proof (cases "length (obj_keys (changed_values nk ty s t)) > 0")
    case True
    then show ?thesis unfolding us
      using none [OF _ gt refl] none [OF _ gr kr] mt by (auto intro!: update_all_one)
  next
    case False
    then have "changed_values nk ty s t = []" by (simp add: obj_keys_def)
    moreover have "update_all (updates_of pk nk ty S T) t = t" unfolding us
      using False none [OF _ gt refl] by (auto intro!: update_all_none)
    ultimately show ?thesis by (simp add: overwrite_def)
  qed
qed

lemma update_all_key:
  assumes "set nk \<inter> set pk = {}" "k \<in> set pk"
  shows "map_of (update_all (updates_of pk nk ty S T) r) k = map_of r k"
proof -
  have "map_of (update_all us r) k = map_of r k"
    if "\<forall>(u, w) \<in> set us. wf_obj u \<and> map_of u k = None" for us
    using that by (induction us arbitrary: r)
      (auto simp: update_all_def map_of_overwrite map_add_def)
  moreover have "\<forall>(u, w) \<in> set (updates_of pk nk ty S T). wf_obj u \<and> map_of u k = None"
    using assms by (auto simp: updates_of_def changed_values_map split: option.splits)
  ultimately show ?thesis by blast
qed

lemma update_all_keys:
  assumes "set nk \<inter> set pk = {}"
  shows "key_of (update_all (updates_of pk nk ty S T) r) pk = key_of r pk"
    and "good_key pk (update_all (updates_of pk nk ty S T) r) = good_key pk r"
  using key_of_cong [OF update_all_key [OF assms]] good_key_cong [OF update_all_key [OF assms]] by blast+

lemma all_values_key:
  assumes "good_key pk s" "set pk \<subseteq> set cols"
  shows "key_of (all_values cols s) pk = key_of s pk" "good_key pk (all_values cols s)"
proof -
  have "map_of (all_values cols s) k = map_of s k" if "k \<in> set pk" for k
    using good_keyD [OF assms(1) that] that assms(2) by (auto simp: all_values_def field_def)
  then show "key_of (all_values cols s) pk = key_of s pk" "good_key pk (all_values cols s)"
    using key_of_cong [of pk "all_values cols s" s] good_key_cong [of pk "all_values cols s" s] assms(1)
    by auto
qed

text \<open>The rows the plan leaves: target rows whose key the source has, updated, and the rows
  inserted.\<close>

lemma synced_rows:
  fixes U :: "row_map \<Rightarrow> row_map"
  assumes gS: "\<forall>s \<in> set S. good_key pk s" and gT: "\<forall>t \<in> set T. good_key pk t" and pk: "pk \<noteq> []"
    and nk: "set nk \<inter> set pk = {}" and cols: "set pk \<subseteq> set cols"
    and U: "U = update_all (updates_of pk nk ty S T)"
  shows "filter (\<lambda>r. \<forall>w \<in> set (deletes_of pk S T). \<not> matches w r) (map U (T @ inserts_of pk cols S T)) =
    map U (filter (\<lambda>t. key_of t pk \<in> (\<lambda>s. key_of s pk) ` set S) T) @ inserts_of pk cols S T"
proof -
  have del: "(\<forall>w \<in> set (deletes_of pk S T). \<not> matches w (U r)) \<longleftrightarrow>
      (\<forall>t \<in> set T. key_of t pk = key_of r pk \<longrightarrow> key_of r pk \<in> (\<lambda>s. key_of s pk) ` set S)"
    if "good_key pk r" for r
  proof -
    have "matches (pk_of t pk) (U r) \<longleftrightarrow> key_of r pk = key_of t pk" if "t \<in> set T" for t
      using matches_key [of pk t "U r"] update_all_keys [OF nk] gT that \<open>good_key pk r\<close> pk by (simp add: U)
    then show ?thesis unfolding deletes_of_def by (simp add: image_iff) metis
  qed
  have insU: "U i = i \<and> (\<forall>w \<in> set (deletes_of pk S T). \<not> matches w (U i))"
    if mem: "i \<in> set (inserts_of pk cols S T)" for i
  proof -
    obtain s where s: "s \<in> set S" "key_of s pk \<notin> (\<lambda>r. key_of r pk) ` set T" "i = all_values cols s"
      using mem by (auto simp: inserts_of_def)
    have i: "key_of i pk = key_of s pk" "good_key pk i"
      using all_values_key [OF bspec [OF gS s(1)] cols] s(3) by simp_all
    have "\<not> matches w i" if "(u, w) \<in> set (updates_of pk nk ty S T)" for u w
    proof
      assume "matches w i"
      from updates_of_match [OF that this gS i(2) pk] s(2) i(1) show False by metis
    qed
    then have "\<forall>(u, w) \<in> set (updates_of pk nk ty S T). \<not> matches w i" by blast
    then have "U i = i" unfolding U by (rule update_all_none)
    moreover have "\<forall>w \<in> set (deletes_of pk S T). \<not> matches w (U i)"
      using del [OF i(2)] i(1) s(1) by auto
    ultimately show ?thesis by blast
  qed
  have "filter (\<lambda>r. \<forall>w \<in> set (deletes_of pk S T). \<not> matches w r) (map U T) =
      map U (filter (\<lambda>t. key_of t pk \<in> (\<lambda>s. key_of s pk) ` set S) T)"
    unfolding filter_map comp_def
    by (rule arg_cong [where f = "map U"], rule filter_cong [OF refl]) (use del gT in auto)
  moreover have "map U (inserts_of pk cols S T) = inserts_of pk cols S T"
    using insU by (simp add: map_idI)
  moreover have "filter (\<lambda>r. \<forall>w \<in> set (deletes_of pk S T). \<not> matches w r) (inserts_of pk cols S T) =
      inserts_of pk cols S T"
    using insU by (intro filter_True) metis
  ultimately show ?thesis by simp
qed

lemma keys_of_synced:
  assumes gS: "\<forall>s \<in> set S. good_key pk s" and cols: "set pk \<subseteq> set cols"
    and nk: "set nk \<inter> set pk = {}" and U: "U = update_all (updates_of pk nk ty S T)"
  shows "map (\<lambda>r. key_of r pk) (map U (filter P T) @ inserts_of pk cols S T) =
    map (\<lambda>r. key_of r pk) (filter P T) @
    map (\<lambda>r. key_of r pk) (filter (\<lambda>s. key_of s pk \<notin> (\<lambda>r. key_of r pk) ` set T) S)"
  using update_all_keys(1) [OF nk] all_values_key(1) [OF bspec [OF gS] cols]
  by (simp add: U inserts_of_def comp_def)

lemma keys_union:
  "f ` {t \<in> A. f t \<in> f ` B} \<union> f ` {s \<in> B. f s \<notin> f ` A} = f ` B"
  by (auto simp: image_iff) (metis (mono_tags))

lemma synced_values:
  assumes S: "distinct (map (\<lambda>r. key_of r pk) S)" and T: "distinct (map (\<lambda>r. key_of r pk) T)"
    and gS: "\<forall>s \<in> set S. good_key pk s" and gT: "\<forall>t \<in> set T. good_key pk t" and pk: "pk \<noteq> []"
    and st: "s \<in> set S" "t \<in> set T" "key_of s pk = key_of t pk" and c: "c \<in> set cols"
    and cols: "set pk \<subseteq> set cols"
  shows "same_value (field s c)
    (field (update_all (updates_of pk (non_key cols pk) ty S T) t) c) (ty c)"
proof -
  have nk: "set (non_key cols pk) \<inter> set pk = {}" by (auto simp: non_key_def)
  have u: "update_all (updates_of pk (non_key cols pk) ty S T) t =
      overwrite (changed_values (non_key cols pk) ty s t) t"
    by (rule update_all_row [OF S T gS bspec [OF gT st(2)] pk nk st])
  show ?thesis
  proof (cases "c \<in> set pk")
    case True
    then have "map_of t c = map_of s c"
      using key_of_inj [of pk t s c] gS gT st pk by simp
    then have "field s c = field (overwrite (changed_values (non_key cols pk) ty s t) t) c"
      using overwrite_key [OF nk True] by (simp add: field_def)
    then show ?thesis by (simp add: u)
  next
    case False
    then have "c \<in> set (non_key cols pk)" using c by (simp add: non_key_def)
    then have "field (overwrite (changed_values (non_key cols pk) ty s t) t) c =
        (if same_value (field s c) (field t c) (ty c) then field t c else field s c)"
      by (auto simp: field_def map_of_overwrite changed_values_map map_add_def)
    then show ?thesis by (simp add: u)
  qed
qed

lemma synced_row_values:
  assumes dS: "distinct (map (\<lambda>r. key_of r pk) S)" and dT: "distinct (map (\<lambda>r. key_of r pk) T)"
    and gS: "\<forall>r \<in> set S. good_key pk r" and gT: "\<forall>r \<in> set T. good_key pk r"
    and pk: "pk \<noteq> []" and cols: "set pk \<subseteq> set cols"
    and s: "s \<in> set S" and k: "key_of s pk = key_of r pk" and c: "c \<in> set cols"
    and r: "r \<in> update_all (updates_of pk (non_key cols pk) ty S T) ` set T \<union> set (inserts_of pk cols S T)"
  shows "same_value (field s c) (field r c) (ty c)"
proof -
  have nk: "set (non_key cols pk) \<inter> set pk = {}" by (auto simp: non_key_def)
  from r consider t where "t \<in> set T" "r = update_all (updates_of pk (non_key cols pk) ty S T) t"
    | "r \<in> set (inserts_of pk cols S T)" by auto
  then show ?thesis
  proof cases
    case 1
    then have "key_of s pk = key_of t pk" using k update_all_keys(1) [OF nk] by simp
    from synced_values [OF dS dT gS gT pk s 1(1) this c cols] show ?thesis by (simp add: 1(2))
  next
    case 2
    then obtain s' where s': "s' \<in> set S" "r = all_values cols s'" by (auto simp: inserts_of_def)
    then have "key_of s' pk = key_of s pk" using k all_values_key(1) [OF bspec [OF gS s'(1)] cols] by simp
    then have "s' = s" using dS s s'(1) by (metis distinct_map inj_onD)
    then have "field r c = field s c" using s'(2) c by (simp add: all_values_def field_def)
    then show ?thesis by simp
  qed
qed

section \<open>Properties\<close>

text \<open>C5. Running the whole sync plan on the target's rows leaves the source's table: the same
  keys, each once, and under every key, in every source column, the source's value (as the
  comparison reads values of the column's type). The keys must be present, not NULL, free of
  U+0000 and distinct on either side, which a primary key is.\<close>

theorem sync_makes_target_equal:
  assumes "diff_data src tgt pk = Inr d" and "pk \<noteq> []"
    and "set pk \<subseteq> col_name ` set (rs_columns src)"
    and "\<forall>r \<in> set (to_records src). good_key pk r" and "\<forall>r \<in> set (to_records tgt). good_key pk r"
    and "distinct (map (\<lambda>r. key_of r pk) (to_records src))"
    and "distinct (map (\<lambda>r. key_of r pk) (to_records tgt))"
  shows "let rows = run_plan (diff_to_plan d types) (to_records tgt) in
    distinct (map (\<lambda>r. key_of r pk) rows) \<and>
    (\<lambda>r. key_of r pk) ` set rows = (\<lambda>r. key_of r pk) ` set (to_records src) \<and>
    (\<forall>s \<in> set (to_records src). \<forall>r \<in> set rows. key_of s pk = key_of r pk \<longrightarrow>
       (\<forall>c \<in> col_name ` set (rs_columns src).
          same_value (field s c) (field r c) (type_of (rs_columns src) c)))"
proof -
  define cols where "cols = map col_name (rs_columns src)"
  define ty where "ty = type_of (rs_columns src)"
  define S where "S = to_records src"
  define T where "T = to_records tgt"
  define U where "U = update_all (updates_of pk (non_key cols pk) ty S T)"
  define P where "P = (\<lambda>t. key_of t pk \<in> (\<lambda>s. key_of s pk) ` set S)"
  note d = diff_data_distinct [OF assms(1,6,7), folded cols_def ty_def S_def T_def]
  note dS = assms(6) [folded S_def] and dT = assms(7) [folded T_def]
  note gS = assms(4) [folded S_def] and gT = assms(5) [folded T_def]
  have cols: "set pk \<subseteq> set cols" using assms(3) by (simp add: cols_def)
  have nk: "set (non_key cols pk) \<inter> set pk = {}" by (auto simp: non_key_def)
  have rows: "run_plan (diff_to_plan d types) T = map U (filter P T) @ inserts_of pk cols S T"
    using synced_rows [OF gS gT assms(2) nk cols U_def] by (simp add: run_diff d U_def [symmetric] P_def)
  note keys = keys_of_synced [OF gS cols nk U_def, of P, folded rows]
  have "distinct (map (\<lambda>r. key_of r pk) (filter P T) @
      map (\<lambda>r. key_of r pk) (filter (\<lambda>s. key_of s pk \<notin> (\<lambda>r. key_of r pk) ` set T) S))"
    using dS dT by (auto simp: distinct_map_filter image_iff)
  then have 1: "distinct (map (\<lambda>r. key_of r pk) (run_plan (diff_to_plan d types) T))"
    by (simp only: keys)
  have "set (map (\<lambda>r. key_of r pk) (run_plan (diff_to_plan d types) T)) =
      (\<lambda>r. key_of r pk) ` {t \<in> set T. P t} \<union>
      (\<lambda>r. key_of r pk) ` {s \<in> set S. key_of s pk \<notin> (\<lambda>r. key_of r pk) ` set T}"
    unfolding keys by simp
  also have "\<dots> = (\<lambda>r. key_of r pk) ` set S" unfolding P_def by (rule keys_union)
  finally have 2: "(\<lambda>r. key_of r pk) ` set (run_plan (diff_to_plan d types) T) = (\<lambda>r. key_of r pk) ` set S"
    by simp
  have 3: "\<forall>s \<in> set S. \<forall>r \<in> set (run_plan (diff_to_plan d types) T). key_of s pk = key_of r pk \<longrightarrow>
      (\<forall>c \<in> set cols. same_value (field s c) (field r c) (ty c))"
    using synced_row_values [OF dS dT gS gT assms(2) cols] rows unfolding U_def by auto
  show ?thesis unfolding Let_def using 1 2 3 by (simp add: S_def T_def ty_def cols_def)
qed

theorem sync_makes_target_equal_witness:
  "\<exists>d. diff_data
      \<lparr>rs_columns = [\<lparr>col_name = ''id'', col_type = ''text''\<rparr>, \<lparr>col_name = ''v'', col_type = ''text''\<rparr>],
       rs_rows = [[Some ''1'', Some ''a''], [Some ''2'', None]], rs_truncated = False, rs_cursor = False, rs_affected = 0\<rparr>
      \<lparr>rs_columns = [\<lparr>col_name = ''id'', col_type = ''text''\<rparr>, \<lparr>col_name = ''v'', col_type = ''text''\<rparr>],
       rs_rows = [[Some ''2'', Some ''b''], [Some ''3'', None]], rs_truncated = False, rs_cursor = False, rs_affected = 0\<rparr>
      [''id''] = Inr d \<and> data_diff_counts d = (1, 1, 1) \<and>
    run_plan (diff_to_plan d []) [[(''id'', Some ''2''), (''v'', Some ''b'')], [(''id'', Some ''3''), (''v'', None)]] =
      [[(''id'', Some ''2''), (''v'', None)], [(''id'', Some ''1''), (''v'', Some ''a'')]] \<and>
    distinct (map (\<lambda>r. key_of r [''id''])
      (run_plan (diff_to_plan d []) [[(''id'', Some ''2''), (''v'', Some ''b'')], [(''id'', Some ''3''), (''v'', None)]]))"
  (is "\<exists>d. diff_data ?src ?tgt _ = _ \<and> _")
proof -
  let ?d = "\<lparr>dd_inserts = [[(''id'', Some ''1''), (''v'', Some ''a'')]],
    dd_updates = [([(''v'', None)], [(''id'', Some ''2'')])], dd_deletes = [[(''id'', Some ''3'')]]\<rparr>"
  have d: "diff_data ?src ?tgt [''id''] = Inr ?d" by code_simp
  have t: "to_records ?tgt = [[(''id'', Some ''2''), (''v'', Some ''b'')], [(''id'', Some ''3''), (''v'', None)]]"
    by code_simp
  have "distinct (map (\<lambda>r. key_of r [''id'']) (run_plan (diff_to_plan ?d []) (to_records ?tgt)))"
  proof (rule conjunct1 [OF sync_makes_target_equal [OF d, unfolded Let_def]])
    show "set [''id''] \<subseteq> col_name ` set (rs_columns ?src)" by simp
    show "\<forall>r \<in> set (to_records ?src). good_key [''id''] r" by code_simp
    show "\<forall>r \<in> set (to_records ?tgt). good_key [''id''] r" by code_simp
    show "distinct (map (\<lambda>r. key_of r [''id'']) (to_records ?src))" by code_simp
    show "distinct (map (\<lambda>r. key_of r [''id'']) (to_records ?tgt))" by code_simp
  qed simp
  moreover have "data_diff_counts ?d = (1, 1, 1)" by code_simp
  moreover have "run_plan (diff_to_plan ?d []) [[(''id'', Some ''2''), (''v'', Some ''b'')], [(''id'', Some ''3''), (''v'', None)]] =
      [[(''id'', Some ''2''), (''v'', None)], [(''id'', Some ''1''), (''v'', Some ''a'')]]" by code_simp
  ultimately show ?thesis using d t by metis
qed

text \<open>The key text does not separate rows by NULL as its comment says: two rows whose key
  columns hold NULL in different places have one key text, with no U+0000 in any cell, and a
  comparison keyed on those columns takes the rows for the same row.\<close>

theorem key_text_collides:
  "key_of [(''a'', None), (''b'', Some []), (''c'', Some ''NULL'')] [''a'', ''b'', ''c''] =
   key_of [(''a'', Some []), (''b'', Some ''NULL''), (''c'', None)] [''a'', ''b'', ''c''] \<and>
   diff_data
     \<lparr>rs_columns = map (\<lambda>n. \<lparr>col_name = n, col_type = ''text''\<rparr>) [''a'', ''b'', ''c''],
      rs_rows = [[None, Some [], Some ''NULL'']], rs_truncated = False, rs_cursor = False, rs_affected = 0\<rparr>
     \<lparr>rs_columns = map (\<lambda>n. \<lparr>col_name = n, col_type = ''text''\<rparr>) [''a'', ''b'', ''c''],
      rs_rows = [[Some [], Some ''NULL'', None]], rs_truncated = False, rs_cursor = False, rs_affected = 0\<rparr>
     [''a'', ''b'', ''c''] = Inr \<lparr>dd_inserts = [], dd_updates = [], dd_deletes = []\<rparr>"
  by code_simp

section \<open>Padded decimals\<close>

lemma dropWhile_replicate_rev: "drop_zeros (rev (f @ replicate n CHR ''0'')) = drop_zeros (rev f)"
proof -
  have "dropWhile (\<lambda>c. c = CHR ''0'') (replicate n CHR ''0'' @ g) = dropWhile (\<lambda>c. c = CHR ''0'') g" for g
    by (induction n) simp_all
  then show ?thesis by (simp add: drop_zeros_def)
qed

lemma digits_split:
  assumes "list_all is_digit i"
  shows "takeWhile is_digit (i @ CHR ''.'' # f) = i" "dropWhile is_digit (i @ CHR ''.'' # f) = CHR ''.'' # f"
    "takeWhile is_digit i = i" "dropWhile is_digit i = []"
proof -
  have "\<not> is_digit CHR ''.''" by (simp add: is_digit_def)
  with assms show "takeWhile is_digit (i @ CHR ''.'' # f) = i" "dropWhile is_digit (i @ CHR ''.'' # f) = CHR ''.'' # f"
    by (simp_all add: list_all_iff takeWhile_append2 dropWhile_append2)
  show "takeWhile is_digit i = i" "dropWhile is_digit i = []"
    using assms by (simp_all add: list_all_iff takeWhile_eq_all_conv)
qed

text \<open>The canonical form of an optional sign, digits and an optional fraction.\<close>

definition canon_of :: "bool \<Rightarrow> string \<Rightarrow> string \<Rightarrow> string" where
  "canon_of neg_sign i f =
     (let int_part = (if drop_zeros i = [] then ''0'' else drop_zeros i);
          frac = rev (drop_zeros (rev f));
          neg = neg_sign \<and> (int_part \<noteq> ''0'' \<or> frac \<noteq> [])
      in (if neg then ''-'' else []) @ int_part @ (if frac = [] then [] else ''.'' @ frac))"

lemma canon_of_pad: "canon_of n i (f @ replicate k CHR ''0'') = canon_of n i f"
  unfolding canon_of_def dropWhile_replicate_rev ..

lemma digit_not_space: "is_digit c \<Longrightarrow> \<not> is_space c \<and> c \<noteq> CHR ''-'' \<and> c \<noteq> CHR ''+'' \<and> c \<noteq> CHR ''.''"
  by (auto simp: is_digit_def is_space_def)

lemma sign_not_space: "\<not> is_space CHR ''-''" "\<not> is_space CHR ''+''"
  by (simp_all add: is_space_def)

lemma canon_decimal_plain:
  assumes "list_all is_digit i" "i \<noteq> []" "list_all is_digit f" "sg \<in> {[], ''-'', ''+''}"
  shows "canon_decimal (sg @ i @ CHR ''.'' # f) = Some (canon_of (sg = ''-'') i f)"
    and "canon_decimal (sg @ i) = Some (canon_of (sg = ''-'') i [])"
proof -
  obtain c u where i: "i = c # u" "is_digit c" using assms(1,2) by (cases i) auto
  have ts: "trim_start (sg @ i @ t) = sg @ i @ t" for t
    using assms(4) i digit_not_space [OF i(2)] sign_not_space by (auto simp: trim_start_def)
  have sgn: "(case sg @ i @ t of c # u \<Rightarrow>
             if c = CHR ''-'' then (True, u) else if c = CHR ''+'' then (False, u) else (False, sg @ i @ t)
           | [] \<Rightarrow> (False, [])) = (sg = ''-'', i @ t)" for t
    using assms(4) i digit_not_space [OF i(2)] by auto
  note d = digits_split [OF assms(1)] digits_split(3,4) [OF assms(3)]
  show "canon_decimal (sg @ i @ CHR ''.'' # f) = Some (canon_of (sg = ''-'') i f)"
    using assms(2) unfolding canon_decimal_def Let_def ts sgn
    by (simp add: d canon_of_def Let_def)
  show "canon_decimal (sg @ i) = Some (canon_of (sg = ''-'') i [])"
    using assms(2) unfolding canon_decimal_def Let_def
      ts [of "[]", unfolded append_Nil2] sgn [of "[]", unfolded append_Nil2]
    by (simp add: d canon_of_def Let_def drop_zeros_def)
qed

lemma plain_decimal_Some:
  assumes "plain_decimal v = Some (m1, m2)"
  shows "\<exists>sg i. sg \<in> {[], ''-'', ''+''} \<and> m1 = sg @ i \<and> i \<noteq> [] \<and> list_all is_digit i \<and>
    (case m2 of None \<Rightarrow> v = m1 | Some f \<Rightarrow> v = m1 @ CHR ''.'' # f \<and> list_all is_digit f)"
proof -
  define q where "q = (case v of c # t \<Rightarrow>
    if c = CHR ''+'' \<or> c = CHR ''-'' then ([c], t) else ([], v) | [] \<Rightarrow> ([], []))"
  obtain sg r where q: "q = (sg, r)" by (cases q)
  then have v: "v = sg @ r" "sg \<in> {[], ''-'', ''+''}"
    unfolding q_def by (auto split: list.splits if_splits)
  define i where "i = takeWhile is_digit r"
  define r2 where "r2 = dropWhile is_digit r"
  have r: "v = sg @ i @ r2" using v(1) by (simp add: i_def r2_def)
  from assms have ne: "i \<noteq> []" and m1: "m1 = sg @ i"
    and m2: "case r2 of [] \<Rightarrow> m2 = None | c # t \<Rightarrow> c = CHR ''.'' \<and> list_all is_digit t \<and> m2 = Some t"
    unfolding plain_decimal_def q_def [symmetric] q Let_def prod.case i_def [symmetric] r2_def [symmetric]
    by (auto split: list.splits if_splits)
  have "list_all is_digit i" unfolding i_def by (auto simp: list_all_iff dest: set_takeWhileD)
  moreover have "case m2 of None \<Rightarrow> v = m1 | Some f \<Rightarrow> v = m1 @ CHR ''.'' # f \<and> list_all is_digit f"
    using m2 r unfolding m1 by (cases r2) auto
  ultimately show ?thesis using v(2) ne m1 by blast
qed

text \<open>Padding a decimal to its column's scale for display changes no value: the padded text
  and the original are the same number for the data comparison.\<close>

theorem with_scale_same_value: "same_value (Some v) (Some (with_scale v scale)) ''float''"
proof (cases "with_scale v scale = v")
  case False
  then obtain m1 m2 where p: "plain_decimal v = Some (m1, m2)"
    by (cases "plain_decimal v") (auto simp: with_scale_def)
  define f where "f = (case m2 of None \<Rightarrow> [] | Some f \<Rightarrow> f)"
  have w: "with_scale v scale = m1 @ CHR ''.'' # (f @ replicate (nat scale - length f) CHR ''0'')"
    using False p by (auto simp: with_scale_def f_def [symmetric] Let_def pad_end_def split: if_splits)
  obtain sg i where i: "sg \<in> {[], ''-'', ''+''}" "m1 = sg @ i" "i \<noteq> []" "list_all is_digit i"
    and m2: "case m2 of None \<Rightarrow> v = m1 | Some f \<Rightarrow> v = m1 @ CHR ''.'' # f \<and> list_all is_digit f"
    using plain_decimal_Some [OF p] by blast
  have f: "list_all is_digit f" using m2 by (auto simp: f_def split: option.splits)
  have fz: "list_all is_digit (f @ replicate k CHR ''0'')" for k
    using f by (auto simp: list_all_iff is_digit_def)
  have "canon_decimal v = Some (canon_of (sg = ''-'') i f)"
    using canon_decimal_plain [OF i(4,3) f i(1)] m2 i(2) by (cases m2) (simp_all add: f_def)
  moreover have "canon_decimal (with_scale v scale) = Some (canon_of (sg = ''-'') i f)"
    using canon_decimal_plain(1) [OF i(4,3) fz i(1)] unfolding w i(2) by (simp add: canon_of_pad)
  moreover have "is_numeric_type ''float''" by code_simp
  ultimately show ?thesis by (simp add: same_value_def)
qed simp

end
