(* ===== verification/Tabs.thy ===== *)
theory Tabs
  imports Prelude "HOL-Library.Multiset"
begin

text \<open>
  The workspace's tabs (\<open>tabs.ts\<close>): the list of query and tool tabs, the operations on it,
  and the stored workspace. A step relation collects the operations; its reachable states
  keep the identifiers apart and the active tab in the list. Identifiers are integers;
  storage is modelled from the parsed JSON value on.
\<close>

section \<open>State\<close>

datatype tool_kind =
    Monitor | Users | Generator | ImportTool | TableDesigner | Indexes | StructureTool | HistoryTool
  | LocalHistory | Snippets | ConnectionForm | ConnectionsTool | SchemaSync | DataDiffTool | Transfer
  | ChartTool | ErDiagram | QueryBuilder | Routines | Triggers | SlowQueries | ExplainPlan
  | ObjectList | Notebook | Backup | DataSearch | Settings | Help

record var_value =
  vv_text :: string
  vv_null :: "bool option"

record query_tab =
  qt_id :: int
  qt_title :: string
  qt_sql :: string
  qt_conn :: "string option"
  qt_snippet :: "string option"
  qt_object :: "string option"
  qt_vars :: "var_value obj option"
  qt_pinned :: "bool option"

record tool_tab =
  tt_id :: int
  tt_title :: string
  tt_tool :: tool_kind
  tt_key :: "string option"
  tt_params :: "json option"
  tt_source :: "int option"
  tt_conn :: "string option"
  tt_rev :: "int option"
  tt_pinned :: "bool option"

datatype tab = Query query_tab | Tool tool_tab

record tab_state =
  ts_tabs :: "tab list"
  ts_active :: int
  ts_seq :: "int option"
  ts_num :: "int option"

text \<open>The fields both kinds of tab have.\<close>

definition tab_id :: "tab \<Rightarrow> int" where
  "tab_id t = (case t of Query q \<Rightarrow> qt_id q | Tool u \<Rightarrow> tt_id u)"

definition tab_conn :: "tab \<Rightarrow> string option" where
  "tab_conn t = (case t of Query q \<Rightarrow> qt_conn q | Tool u \<Rightarrow> tt_conn u)"

definition tab_pinned :: "tab \<Rightarrow> bool" where
  "tab_pinned t = ((case t of Query q \<Rightarrow> qt_pinned q | Tool u \<Rightarrow> tt_pinned u) = Some True)"

definition set_pinned :: "bool \<Rightarrow> tab \<Rightarrow> tab" where
  "set_pinned b t =
     (case t of Query q \<Rightarrow> Query (q\<lparr>qt_pinned := Some b\<rparr>) | Tool u \<Rightarrow> Tool (u\<lparr>tt_pinned := Some b\<rparr>))"

definition set_title :: "string \<Rightarrow> tab \<Rightarrow> tab" where
  "set_title s t = (case t of Query q \<Rightarrow> Query (q\<lparr>qt_title := s\<rparr>) | Tool u \<Rightarrow> Tool (u\<lparr>tt_title := s\<rparr>))"

definition ids :: "tab list \<Rightarrow> int list" where
  "ids ts = map tab_id ts"

definition id_in :: "int \<Rightarrow> tab list \<Rightarrow> bool" where
  "id_in i ts \<longleftrightarrow> list_ex (\<lambda>t. tab_id t = i) ts"

section \<open>Opening tabs\<close>

definition next_tab_id :: "tab list \<Rightarrow> int option \<Rightarrow> int" where
  "next_tab_id ts seq = fold (\<lambda>t m. max m (tab_id t)) ts (default 0 seq) + 1"

definition new_query :: "int \<Rightarrow> string \<Rightarrow> string \<Rightarrow> query_tab" where
  "new_query i title sql = \<lparr>qt_id = i, qt_title = title, qt_sql = sql, qt_conn = None,
     qt_snippet = None, qt_object = None, qt_vars = None, qt_pinned = None\<rparr>"

definition add_tab :: "tab_state \<Rightarrow> string \<Rightarrow> string option \<Rightarrow> bool \<Rightarrow> tab_state" where
  "add_tab s title conn numbered =
     (let i = next_tab_id (ts_tabs s) (ts_seq s);
          num = default (default 0 (ts_seq s)) (ts_num s) + 1;
          t = (new_query i (if numbered then title @ '' '' @ show_int num else title) [])\<lparr>qt_conn := conn\<rparr>
      in s\<lparr>ts_tabs := ts_tabs s @ [Query t], ts_active := i, ts_seq := Some i,
           ts_num := (if numbered then Some num else ts_num s)\<rparr>)"

definition empty_session :: "tab_state option \<Rightarrow> tab_state" where
  "empty_session stored =
     \<lparr>ts_tabs = [], ts_active = 0,
      ts_seq = Some (case stored of None \<Rightarrow> 0 | Some s \<Rightarrow> default 0 (ts_seq s)), ts_num = Some 0\<rparr>"

definition GLOBAL_TOOLS :: "tool_kind list" where
  "GLOBAL_TOOLS = [Help, Settings, ConnectionForm, ConnectionsTool, HistoryTool, LocalHistory,
     Snippets, Notebook]"

record tool_opts =
  to_key :: "string option"
  to_params :: "json option"
  to_source :: "int option"
  to_conn :: "string option"

definition same_tool :: "tool_kind \<Rightarrow> tool_opts \<Rightarrow> tab \<Rightarrow> bool" where
  "same_tool tool opts t =
     (case t of Query _ \<Rightarrow> False
      | Tool u \<Rightarrow> tt_tool u = tool \<and> tt_conn u = to_conn opts \<and>
          (to_key opts = None \<or> tt_key u = to_key opts))"

definition replace_id :: "int \<Rightarrow> (tab \<Rightarrow> tab) \<Rightarrow> tab list \<Rightarrow> tab list" where
  "replace_id i f ts = map (\<lambda>t. if tab_id t = i then f t else t) ts"

definition reopened :: "string \<Rightarrow> tool_opts \<Rightarrow> tool_tab \<Rightarrow> tool_tab" where
  "reopened title opts u =
     u\<lparr>tt_title := title, tt_rev := Some (default 0 (tt_rev u) + 1),
       tt_params := (if to_params opts \<noteq> None then to_params opts else tt_params u),
       tt_source := (if to_source opts \<noteq> None then to_source opts else tt_source u)\<rparr>"

definition open_tool :: "tab_state \<Rightarrow> tool_kind \<Rightarrow> string \<Rightarrow> tool_opts \<Rightarrow> tab_state" where
  "open_tool s tool title opts =
     (case List.find (same_tool tool opts) (ts_tabs s) of
        Some (Tool u) \<Rightarrow>
          s\<lparr>ts_active := tt_id u,
            ts_tabs := replace_id (tt_id u) (\<lambda>_. Tool (reopened title opts u)) (ts_tabs s)\<rparr>
      | _ \<Rightarrow> let i = next_tab_id (ts_tabs s) (ts_seq s);
               t = \<lparr>tt_id = i, tt_title = title, tt_tool = tool, tt_key = to_key opts,
                    tt_params = to_params opts, tt_source = to_source opts, tt_conn = to_conn opts,
                    tt_rev = None, tt_pinned = None\<rparr>
           in s\<lparr>ts_tabs := ts_tabs s @ [Tool t], ts_active := i, ts_seq := Some i\<rparr>)"

record snippet =
  sn_id :: string
  sn_name :: string
  sn_body :: string

definition has_snippet :: "string \<Rightarrow> tab \<Rightarrow> bool" where
  "has_snippet i t = (case t of Query q \<Rightarrow> qt_snippet q = Some i | Tool _ \<Rightarrow> False)"

definition open_snippet_tab :: "tab_state \<Rightarrow> snippet \<Rightarrow> string option \<Rightarrow> tab_state" where
  "open_snippet_tab s sn conn =
     (case List.find (has_snippet (sn_id sn)) (ts_tabs s) of
        Some t \<Rightarrow> s\<lparr>ts_active := tab_id t\<rparr>
      | None \<Rightarrow> let i = next_tab_id (ts_tabs s) (ts_seq s);
                 t = (new_query i (sn_name sn) (sn_body sn))\<lparr>qt_conn := conn, qt_snippet := Some (sn_id sn)\<rparr>
             in s\<lparr>ts_tabs := ts_tabs s @ [Query t], ts_active := i, ts_seq := Some i\<rparr>)"

text \<open>The parts are joined by U+0000.\<close>

definition object_tab_key ::
    "string option \<Rightarrow> string option \<Rightarrow> string option \<Rightarrow> string \<Rightarrow> string \<Rightarrow> string" where
  "object_tab_key conn db schema name kind =
     join [CHR 0x00] [kind, default [] conn, default [] db, default [] schema, name]"

definition find_object_tab :: "tab_state \<Rightarrow> string \<Rightarrow> query_tab option" where
  "find_object_tab s key =
     (case List.find (\<lambda>t. case t of Query q \<Rightarrow> qt_object q = Some key | Tool _ \<Rightarrow> False) (ts_tabs s) of
        Some (Query q) \<Rightarrow> Some q | _ \<Rightarrow> None)"

text \<open>An update of the query tab with an identifier; tool tabs are left alone.\<close>

definition on_query :: "(query_tab \<Rightarrow> query_tab) \<Rightarrow> tab \<Rightarrow> tab" where
  "on_query f t = (case t of Query q \<Rightarrow> Query (f q) | Tool u \<Rightarrow> Tool u)"

definition set_object_key :: "tab_state \<Rightarrow> int \<Rightarrow> string \<Rightarrow> tab_state" where
  "set_object_key s i key =
     s\<lparr>ts_tabs := replace_id i (on_query (\<lambda>q. q\<lparr>qt_object := Some key\<rparr>)) (ts_tabs s)\<rparr>"

section \<open>Closing tabs\<close>

definition without :: "int \<Rightarrow> tab list \<Rightarrow> tab list" where
  "without i ts = filter (\<lambda>t. tab_id t \<noteq> i) ts"

definition close_tab :: "tab_state \<Rightarrow> int \<Rightarrow> tab_state" where
  "close_tab s i =
     (case find_index (\<lambda>t. tab_id t = i) (ts_tabs s) of None \<Rightarrow> s
      | Some index \<Rightarrow>
          let ts = without i (ts_tabs s) in
          if length ts = 0 then s\<lparr>ts_tabs := ts, ts_active := 0\<rparr>
          else s\<lparr>ts_tabs := ts,
                 ts_active := (if ts_active s = i then tab_id (ts ! (index - 1)) else ts_active s)\<rparr>)"

definition close_tabs_for_conn :: "tab_state \<Rightarrow> string \<Rightarrow> tab_state" where
  "close_tabs_for_conn s def_id =
     fold (\<lambda>t st. close_tab st (tab_id t)) (filter (\<lambda>t. tab_conn t = Some def_id) (ts_tabs s)) s"

definition close_other_tabs :: "tab_state \<Rightarrow> int \<Rightarrow> tab_state" where
  "close_other_tabs s i =
     (if \<not> id_in i (ts_tabs s) then s
      else s\<lparr>ts_tabs := filter (\<lambda>t. tab_id t = i \<or> tab_pinned t) (ts_tabs s), ts_active := i\<rparr>)"

definition close_all_tabs :: "tab_state \<Rightarrow> tab_state" where
  "close_all_tabs s =
     (let ts = filter tab_pinned (ts_tabs s) in
      s\<lparr>ts_tabs := ts,
        ts_active := (if id_in (ts_active s) ts then ts_active s
                      else case ts of [] \<Rightarrow> 0 | t # _ \<Rightarrow> tab_id t)\<rparr>)"

definition toggle_pin :: "tab_state \<Rightarrow> int \<Rightarrow> tab_state" where
  "toggle_pin s i =
     (let ts = replace_id i (\<lambda>t. set_pinned (\<not> tab_pinned t) t) (ts_tabs s) in
      s\<lparr>ts_tabs := filter tab_pinned ts @ filter (\<lambda>t. \<not> tab_pinned t) ts\<rparr>)"

definition rename_tab :: "tab_state \<Rightarrow> int \<Rightarrow> string \<Rightarrow> tab_state" where
  "rename_tab s i title =
     (let name = trim title in
      if name = [] then s else s\<lparr>ts_tabs := replace_id i (set_title name) (ts_tabs s)\<rparr>)"

definition duplicate_tab :: "tab_state \<Rightarrow> int \<Rightarrow> (query_tab \<Rightarrow> string) \<Rightarrow> tab_state option" where
  "duplicate_tab s i title =
     (case find_index (\<lambda>t. tab_id t = i) (ts_tabs s) of None \<Rightarrow> None
      | Some index \<Rightarrow>
          (case ts_tabs s ! index of Tool _ \<Rightarrow> None
           | Query src \<Rightarrow>
               let j = next_tab_id (ts_tabs s) (ts_seq s);
                   cp = (new_query j (title src) (qt_sql src))\<lparr>qt_conn := truthy (qt_conn src),
                     qt_vars := qt_vars src\<rparr>
               in Some (s\<lparr>ts_tabs := take (index + 1) (ts_tabs s) @ [Query cp] @ drop (index + 1) (ts_tabs s),
                          ts_active := j, ts_seq := Some j\<rparr>)))"

definition close_tabs_to_right :: "tab_state \<Rightarrow> int \<Rightarrow> tab_state" where
  "close_tabs_to_right s i =
     (case find_index (\<lambda>t. tab_id t = i) (ts_tabs s) of None \<Rightarrow> s
      | Some index \<Rightarrow>
          if index + 1 = length (ts_tabs s) then s
          else let ts = map snd (filter (\<lambda>(k, t). k \<le> index \<or> tab_pinned t) (index_list (ts_tabs s))) in
            s\<lparr>ts_tabs := ts, ts_active := (if id_in (ts_active s) ts then ts_active s else i)\<rparr>)"

definition closed_query_tabs :: "tab_state \<Rightarrow> tab_state \<Rightarrow> query_tab list" where
  "closed_query_tabs prev nxt =
     concat (map (\<lambda>t. case t of Tool _ \<Rightarrow> []
       | Query q \<Rightarrow> if \<not> id_in (qt_id q) (ts_tabs nxt) \<and> truthy (qt_object q) = None \<and> trim (qt_sql q) \<noteq> []
           then [q] else []) (ts_tabs prev))"

section \<open>Editing a tab, moving between tabs\<close>

definition update_tab_vars :: "tab_state \<Rightarrow> int \<Rightarrow> var_value obj \<Rightarrow> tab_state" where
  "update_tab_vars s i vars =
     s\<lparr>ts_tabs := replace_id i (on_query (\<lambda>q. q\<lparr>qt_vars := Some vars\<rparr>)) (ts_tabs s)\<rparr>"

definition bind_tab_conn :: "tab_state \<Rightarrow> int \<Rightarrow> string \<Rightarrow> tab_state" where
  "bind_tab_conn s i conn =
     s\<lparr>ts_tabs := replace_id i (on_query (\<lambda>q. if truthy (qt_object q) = None
         then q\<lparr>qt_conn := Some conn\<rparr> else q)) (ts_tabs s)\<rparr>"

definition update_tab_sql :: "tab_state \<Rightarrow> int \<Rightarrow> string \<Rightarrow> tab_state" where
  "update_tab_sql s i sql =
     s\<lparr>ts_tabs := replace_id i (on_query (\<lambda>q. q\<lparr>qt_sql := sql\<rparr>)) (ts_tabs s)\<rparr>"

definition active_tab :: "tab_state \<Rightarrow> tab option" where
  "active_tab s = List.find (\<lambda>t. tab_id t = ts_active s) (ts_tabs s)"

datatype cycle_dir = NextTab | PrevTab

definition cycle_tab :: "tab_state \<Rightarrow> cycle_dir \<Rightarrow> tab_state" where
  "cycle_tab s dir =
     (let n = length (ts_tabs s) in
      if n < 2 then s
      else case find_index (\<lambda>t. tab_id t = ts_active s) (ts_tabs s) of None \<Rightarrow> s
        | Some index \<Rightarrow>
            s\<lparr>ts_active := tab_id (ts_tabs s !
               nat ((int index + (case dir of NextTab \<Rightarrow> 1 | PrevTab \<Rightarrow> - 1) + int n) mod int n))\<rparr>)"

section \<open>The stored workspace\<close>

text \<open>\<open>JSON.stringify\<close> leaves out undefined fields. Numbers are integers.\<close>

definition MAX_RESTORED_TABS :: nat where "MAX_RESTORED_TABS = 50"

definition last_n :: "nat \<Rightarrow> 'a list \<Rightarrow> 'a list" where
  "last_n n xs = drop (length xs - n) xs"

definition queries :: "tab list \<Rightarrow> query_tab list" where
  "queries ts = concat (map (\<lambda>t. case t of Query q \<Rightarrow> [q] | Tool _ \<Rightarrow> []) ts)"

definition var_json :: "var_value \<Rightarrow> json" where
  "var_json v = JObj ((''text'', JStr (vv_text v)) # opt_member ''isNull'' JBool (vv_null v))"

definition vars_json :: "var_value obj \<Rightarrow> json" where
  "vars_json vs = JObj (map (\<lambda>(k, v). (k, var_json v)) vs)"

definition query_tab_json :: "query_tab \<Rightarrow> json" where
  "query_tab_json q = JObj (
     [(''id'', JNum (qt_id q)), (''kind'', JStr ''query''), (''title'', JStr (qt_title q)), (''sql'', JStr (qt_sql q))]
     @ opt_member ''connDefId'' JStr (qt_conn q) @ opt_member ''snippetId'' JStr (qt_snippet q)
     @ opt_member ''objectKey'' JStr (qt_object q) @ opt_member ''vars'' vars_json (qt_vars q)
     @ opt_member ''pinned'' JBool (qt_pinned q))"

definition max_id :: "query_tab list \<Rightarrow> int \<Rightarrow> int" where
  "max_id qs n = fold (\<lambda>q m. max m (qt_id q)) qs n"

definition serialize_workspace :: "tab_state \<Rightarrow> json" where
  "serialize_workspace s =
     (let qs = last_n MAX_RESTORED_TABS (queries (ts_tabs s));
          active = (if list_ex (\<lambda>q. qt_id q = ts_active s) qs then ts_active s
                    else if qs = [] then 0 else qt_id (last qs))
      in JObj ([(''tabs'', JArr (map query_tab_json qs)), (''activeId'', JNum active),
                (''seq'', JNum (max_id qs (default 0 (ts_seq s))))] @ opt_member ''num'' JNum (ts_num s)))"

definition restore_vars :: "json option \<Rightarrow> var_value obj option" where
  "restore_vars raw =
     (case raw of Some (JObj ob) \<Rightarrow>
          let out = obj_of (concat (map (\<lambda>(token, v).
                case json_str (json_field v ''text'') of None \<Rightarrow> []
                | Some text \<Rightarrow> [(token, \<lparr>vv_text = text,
                    vv_null = (if json_true (json_field v ''isNull'') then Some True else None)\<rparr>)]) ob))
          in if length (obj_keys out) > 0 then Some out else None
      | _ \<Rightarrow> None)"

definition restore_tab :: "json \<Rightarrow> query_tab option" where
  "restore_tab t =
     (case (json_num (json_field t ''id''), json_field t ''kind'', json_str (json_field t ''title''),
            json_str (json_field t ''sql'')) of
        (Some i, Some (JStr kind), Some title, Some sql) \<Rightarrow>
          if kind = ''query''
          then Some \<lparr>qt_id = i, qt_title = title, qt_sql = sql,
            qt_conn = json_str (json_field t ''connDefId''), qt_snippet = json_str (json_field t ''snippetId''),
            qt_object = json_str (json_field t ''objectKey''), qt_vars = restore_vars (json_field t ''vars''),
            qt_pinned = (if json_true (json_field t ''pinned'') then Some True else None)\<rparr>
          else None
      | _ \<Rightarrow> None)"

fun restore_tabs :: "query_tab list \<Rightarrow> json list \<Rightarrow> query_tab list" where
  "restore_tabs acc [] = acc"
| "restore_tabs acc (item # items) =
     (case restore_tab item of None \<Rightarrow> restore_tabs acc items
      | Some q \<Rightarrow> if list_ex (\<lambda>k. qt_id k = qt_id q) acc then restore_tabs acc items
          else restore_tabs (acc @ [q]) items)"

text \<open>\<open>parseWorkspace\<close> of the parsed JSON text; \<open>None\<close> when there is none or it does not parse.\<close>

definition parse_workspace :: "json option \<Rightarrow> tab_state option" where
  "parse_workspace raw =
     (case raw of None \<Rightarrow> None
      | Some w \<Rightarrow> (case json_field w ''tabs'' of
          Some (JArr items) \<Rightarrow>
            let qs = restore_tabs [] (last_n MAX_RESTORED_TABS items) in
            if qs = [] then None
            else let active = (case json_num (json_field w ''activeId'') of
                       Some a \<Rightarrow> if list_ex (\<lambda>q. qt_id q = a) qs then a else qt_id (hd qs)
                     | None \<Rightarrow> qt_id (hd qs));
                     seq = max_id qs (default 0 (json_num (json_field w ''seq'')));
                     num = default seq (json_num (json_field w ''num''))
                 in Some \<lparr>ts_tabs = map Query qs, ts_active = active, ts_seq = Some seq, ts_num = Some num\<rparr>
        | _ \<Rightarrow> None))"

definition worth_restoring :: "tab_state \<Rightarrow> bool" where
  "worth_restoring s \<longleftrightarrow>
     (let qs = queries (ts_tabs s) in length qs > 1 \<or> list_ex (\<lambda>q. trim (qt_sql q) \<noteq> []) qs)"

definition restore_conn_ids :: "tab_state \<Rightarrow> string list" where
  "restore_conn_ids s =
     (let cs = uniq (concat (map (\<lambda>t. case truthy (tab_conn t) of None \<Rightarrow> [] | Some c \<Rightarrow> [c]) (ts_tabs s)))
      in case truthy (Option.bind (active_tab s) tab_conn) of None \<Rightarrow> cs
         | Some a \<Rightarrow> filter (\<lambda>c. c \<noteq> a) cs @ [a])"

section \<open>Library\<close>

lemma tab_id_simps [simp]: "tab_id (Query q) = qt_id q" "tab_id (Tool u) = tt_id u"
  by (simp_all add: tab_id_def)

lemma tab_id_on_query [simp]:
  "(\<And>q. qt_id (f q) = qt_id q) \<Longrightarrow> tab_id (on_query f t) = tab_id t"
  by (cases t) (simp_all add: on_query_def)

lemma tab_pinned_on_query [simp]:
  "(\<And>q. qt_pinned (f q) = qt_pinned q) \<Longrightarrow> tab_pinned (on_query f t) = tab_pinned t"
  by (cases t) (simp_all add: on_query_def tab_pinned_def)

lemma tab_id_set [simp]: "tab_id (set_pinned b t) = tab_id t" "tab_id (set_title n t) = tab_id t"
  by (cases t; simp add: set_pinned_def set_title_def)+

lemma tab_pinned_set [simp]: "tab_pinned (set_pinned b t) = b" "tab_pinned (set_title n t) = tab_pinned t"
  by (cases t; simp add: set_pinned_def set_title_def tab_pinned_def)+

lemma id_in_iff: "id_in i ts \<longleftrightarrow> i \<in> set (ids ts)"
  by (induction ts) (auto simp: id_in_def ids_def)

lemma ids_simps [simp]: "ids [] = []" "ids (t # ts) = tab_id t # ids ts" "ids (ts @ us) = ids ts @ ids us"
  by (simp_all add: ids_def)

lemma ids_replace [simp]:
  "(\<And>t. tab_id t = i \<Longrightarrow> tab_id (f t) = i) \<Longrightarrow> ids (replace_id i f ts) = ids ts"
  by (induction ts) (simp_all add: ids_def replace_id_def)

lemma ids_filter: "distinct (ids ts) \<Longrightarrow> distinct (ids (filter P ts))"
  by (simp add: ids_def distinct_map_filter)

lemma set_ids: "set (ids ts) = tab_id ` set ts"
  by (simp add: ids_def)

lemma fold_max_ge:
  fixes n :: "'a :: linorder"
  shows "n \<le> fold (\<lambda>t m. max m (f t)) ts n" "t \<in> set ts \<Longrightarrow> f t \<le> fold (\<lambda>t m. max m (f t)) ts n"
proof (induction ts arbitrary: n)
  case (Cons u ts)
  case 1
  show ?case using Cons(1) [where n = "max n (f u)"] by simp
  case 2
  show ?case using 2 Cons(1) [where n = "max n (f u)"] Cons(2) [where n = "max n (f u)"] by auto
qed simp_all

lemma next_tab_id_gt:
  "default 0 seq < next_tab_id ts seq" "i \<in> set (ids ts) \<Longrightarrow> i < next_tab_id ts seq"
  using fold_max_ge(1) [where n = "default 0 seq" and f = tab_id and ts = ts]
    fold_max_ge(2) [where n = "default 0 seq" and f = tab_id and ts = ts]
  by (force simp: next_tab_id_def set_ids)+

lemma next_tab_id_fresh: "next_tab_id ts seq \<notin> set (ids ts)"
  using next_tab_id_gt(2) [of "next_tab_id ts seq" ts seq] by blast

section \<open>The invariant\<close>

definition last_id :: "tab_state \<Rightarrow> int" where
  "last_id s = default 0 (ts_seq s)"

definition wf_tabs :: "tab_state \<Rightarrow> bool" where
  "wf_tabs s \<longleftrightarrow> distinct (ids (ts_tabs s)) \<and> ts_seq s \<noteq> None \<and>
     list_all (\<lambda>i. i \<le> last_id s) (ids (ts_tabs s)) \<and>
     (if ts_tabs s = [] then ts_active s = 0 else id_in (ts_active s) (ts_tabs s))"

text \<open>What every operation does to the identifiers: the invariant is kept, the counter does not
  move back and an identifier that was not in the list is above the counter.\<close>

definition keeps :: "tab_state \<Rightarrow> tab_state \<Rightarrow> bool" where
  "keeps s s' \<longleftrightarrow> wf_tabs s' \<and> last_id s \<le> last_id s' \<and>
     (\<forall>i \<in> set (ids (ts_tabs s')). i \<in> set (ids (ts_tabs s)) \<or> last_id s < i)"

lemma wf_tabs_iff:
  "wf_tabs s \<longleftrightarrow> distinct (ids (ts_tabs s)) \<and> ts_seq s \<noteq> None \<and>
     (\<forall>i \<in> set (ids (ts_tabs s)). i \<le> last_id s) \<and>
     (if ts_tabs s = [] then ts_active s = 0 else ts_active s \<in> set (ids (ts_tabs s)))"
  by (simp add: wf_tabs_def list_all_iff id_in_iff)

lemma keeps_refl: "wf_tabs s \<Longrightarrow> keeps s s"
  by (simp add: keeps_def)

lemma keeps_trans: "keeps s t \<Longrightarrow> keeps t u \<Longrightarrow> keeps s u"
  by (fastforce simp: keeps_def)

lemma ids_Nil_iff: "ids ts = [] \<longleftrightarrow> ts = []"
  by (simp add: ids_def)

text \<open>The three shapes of an operation: the same identifiers, fewer, or one more.\<close>

lemma keeps_same:
  assumes "wf_tabs s" "mset (ids (ts_tabs s')) = mset (ids (ts_tabs s))" "ts_seq s' = ts_seq s"
    and "ts_active s' = ts_active s \<or> ts_active s' \<in> set (ids (ts_tabs s))"
  shows "keeps s s'"
proof -
  have e: "set (ids (ts_tabs s')) = set (ids (ts_tabs s))" "distinct (ids (ts_tabs s')) = distinct (ids (ts_tabs s))"
    using mset_eq_setD [OF assms(2)] mset_eq_imp_distinct_iff [OF assms(2)] by blast+
  have "ids (ts_tabs s') = [] \<longleftrightarrow> ids (ts_tabs s) = []" using e(1) by (metis set_empty)
  then have "ts_tabs s' = [] \<longleftrightarrow> ts_tabs s = []" by (simp only: ids_Nil_iff)
  with e show ?thesis using assms(1,3,4)
    by (auto simp: keeps_def wf_tabs_iff last_id_def split: if_splits)
qed

lemma keeps_fewer:
  assumes "wf_tabs s" "ts_tabs s' = filter P (ts_tabs s)" "ts_seq s' = ts_seq s"
    and "if ts_tabs s' = [] then ts_active s' = 0 else ts_active s' \<in> set (ids (ts_tabs s'))"
  shows "keeps s s'"
  using assms ids_filter [of "ts_tabs s" P]
  by (auto simp: keeps_def wf_tabs_iff last_id_def set_ids)

lemma keeps_more:
  assumes "wf_tabs s" "ts_tabs s = a @ b" "ts_tabs s' = a @ [t] @ b"
    and "tab_id t = next_tab_id (ts_tabs s) (ts_seq s)" "ts_active s' = tab_id t" "ts_seq s' = Some (tab_id t)"
  shows "keeps s s'"
proof -
  define n where "n = tab_id t"
  have n: "n \<notin> set (ids (ts_tabs s))" "last_id s < n" "\<forall>i \<in> set (ids (ts_tabs s)). i < n"
    using next_tab_id_fresh [of "ts_tabs s" "ts_seq s"]
      next_tab_id_gt [where ts = "ts_tabs s" and seq = "ts_seq s"] assms(4)
    by (simp_all add: n_def last_id_def)
  have i: "ids (ts_tabs s) = ids a @ ids b" "ids (ts_tabs s') = ids a @ n # ids b"
    using assms(2,3) by (simp_all add: n_def)
  have l: "last_id s' = n" "ts_active s' = n" "ts_seq s' \<noteq> None"
    using assms(5,6) by (simp_all add: n_def last_id_def default_def)
  have "ts_tabs s' \<noteq> []" using assms(3) by simp
  then have "wf_tabs s'"
    using n assms(1) unfolding wf_tabs_iff i l(1,2) by (auto simp: l(3) less_imp_le)
  then show ?thesis using n(2) unfolding keeps_def i l(1) by auto
qed

lemma replace_same:
  assumes "wf_tabs s" "\<And>t. tab_id t = i \<Longrightarrow> tab_id (f t) = i"
  shows "keeps s (s\<lparr>ts_tabs := replace_id i f (ts_tabs s)\<rparr>)"
  using assms by (intro keeps_same) simp_all

section \<open>Every operation\<close>

lemma keeps_add_tab: "wf_tabs s \<Longrightarrow> keeps s (add_tab s title conn num)"
  by (rule keeps_more [where a = "ts_tabs s" and b = "[]"]) (auto simp: add_tab_def Let_def new_query_def)

lemma find_tool:
  assumes "List.find (same_tool tool opts) ts = Some t"
  shows "\<exists>u. t = Tool u \<and> t \<in> set ts"
  using find_Some_mem [OF assms] by (cases t) (auto simp: same_tool_def)

lemma keeps_open_tool: "wf_tabs s \<Longrightarrow> keeps s (open_tool s tool title opts)"
proof (cases "List.find (same_tool tool opts) (ts_tabs s)")
  case None
  assume "wf_tabs s"
  then show ?thesis using None
    by (intro keeps_more [where a = "ts_tabs s" and b = "[]" and
        t = "Tool \<lparr>tt_id = next_tab_id (ts_tabs s) (ts_seq s), tt_title = title, tt_tool = tool,
          tt_key = to_key opts, tt_params = to_params opts, tt_source = to_source opts,
          tt_conn = to_conn opts, tt_rev = None, tt_pinned = None\<rparr>"])
      (simp_all add: open_tool_def Let_def)
next
  case (Some t)
  assume wf: "wf_tabs s"
  obtain u where u: "t = Tool u" "Tool u \<in> set (ts_tabs s)" using find_tool [OF Some] by blast
  then have "tt_id u \<in> set (ids (ts_tabs s))" by (force simp: set_ids)
  with wf show ?thesis using Some u
    by (intro keeps_same) (simp_all add: open_tool_def reopened_def)
qed

lemma keeps_open_snippet: "wf_tabs s \<Longrightarrow> keeps s (open_snippet_tab s sn conn)"
proof (cases "List.find (has_snippet (sn_id sn)) (ts_tabs s)")
  case None
  assume "wf_tabs s"
  then show ?thesis using None
    by (intro keeps_more [where a = "ts_tabs s" and b = "[]" and t = "Query ((new_query
        (next_tab_id (ts_tabs s) (ts_seq s)) (sn_name sn) (sn_body sn))\<lparr>qt_conn := conn, qt_snippet := Some (sn_id sn)\<rparr>)"])
      (simp_all add: open_snippet_tab_def Let_def new_query_def)
next
  case (Some t)
  assume "wf_tabs s"
  moreover have "tab_id t \<in> set (ids (ts_tabs s))" using find_Some_mem [OF Some] by (simp add: set_ids)
  ultimately show ?thesis using Some by (intro keeps_same) (simp_all add: open_snippet_tab_def)
qed

lemma find_index_id:
  assumes "find_index (\<lambda>t. tab_id t = i) ts = Some k"
  shows "k < length ts" "tab_id (ts ! k) = i" "i \<in> set (ids ts)"
  using find_index_Some [OF assms] by (auto simp: set_ids)

lemma length_without:
  "distinct (ids ts) \<Longrightarrow> i \<in> set (ids ts) \<Longrightarrow> length ts = Suc (length (without i ts))"
proof (induction ts)
  case (Cons t ts)
  show ?case
  proof (cases "tab_id t = i")
    case True
    then have "filter (\<lambda>u. tab_id u \<noteq> i) ts = ts" using Cons.prems by (intro filter_True) (force simp: set_ids image_iff)
    with True show ?thesis by (simp add: without_def)
  qed (use Cons in \<open>simp add: without_def\<close>)
qed simp

lemma keeps_close_tab:
  assumes wf: "wf_tabs s"
  shows "keeps s (close_tab s i)"
proof (cases "find_index (\<lambda>t. tab_id t = i) (ts_tabs s)")
  case (Some k)
  note k = find_index_id [OF Some]
  have len: "length (ts_tabs s) = Suc (length (without i (ts_tabs s)))"
    using length_without k(3) wf by (simp add: wf_tabs_iff)
  have act: "ts_active s \<in> set (ids (ts_tabs s))" using wf k by (auto simp: wf_tabs_iff split: if_splits)
  show ?thesis
  proof (rule keeps_fewer [OF wf])
    show "ts_tabs (close_tab s i) = filter (\<lambda>t. tab_id t \<noteq> i) (ts_tabs s)"
      "ts_seq (close_tab s i) = ts_seq s"
      using Some by (auto simp: close_tab_def Let_def without_def)
    show "if ts_tabs (close_tab s i) = [] then ts_active (close_tab s i) = 0
      else ts_active (close_tab s i) \<in> set (ids (ts_tabs (close_tab s i)))"
    proof (cases "without i (ts_tabs s) = []")
      case False
      then have "k - 1 < length (without i (ts_tabs s))" using k(1) len by (cases k) auto
      then have "tab_id (without i (ts_tabs s) ! (k - 1)) \<in> set (ids (without i (ts_tabs s)))"
        by (simp add: set_ids)
      moreover have "ts_active s \<noteq> i \<Longrightarrow> ts_active s \<in> set (ids (without i (ts_tabs s)))"
        using act by (auto simp: set_ids without_def)
      ultimately show ?thesis using Some False by (simp add: close_tab_def Let_def)
    qed (use Some in \<open>simp add: close_tab_def Let_def\<close>)
  qed
qed (use wf in \<open>simp add: close_tab_def keeps_refl\<close>)

lemma keeps_wf: "keeps s t \<Longrightarrow> wf_tabs t"
  by (simp add: keeps_def)

lemma keeps_close_tabs: "wf_tabs s \<Longrightarrow> keeps s (fold (\<lambda>t st. close_tab st (tab_id t)) ts s)"
proof (induction ts arbitrary: s)
  case (Cons t ts)
  from keeps_close_tab [OF Cons.prems] Cons.IH [OF keeps_wf] show ?case
    by (auto intro: keeps_trans)
qed (simp add: keeps_refl)

lemma keeps_close_other: "wf_tabs s \<Longrightarrow> keeps s (close_other_tabs s i)"
proof (cases "id_in i (ts_tabs s)")
  case True
  assume "wf_tabs s"
  moreover have "i \<in> tab_id ` {t \<in> set (ts_tabs s). tab_id t = i \<or> tab_pinned t}"
    using True by (auto simp: id_in_iff set_ids)
  ultimately show ?thesis using True
    by (intro keeps_fewer) (auto simp: close_other_tabs_def set_ids filter_empty_conv)
qed (simp add: close_other_tabs_def keeps_refl)

lemma keeps_close_all: "wf_tabs s \<Longrightarrow> keeps s (close_all_tabs s)"
  by (rule keeps_fewer [where P = tab_pinned])
     (auto simp: close_all_tabs_def Let_def id_in_iff split: list.splits)

lemma mset_partition: "mset (filter P xs @ filter (\<lambda>x. \<not> P x) xs) = mset xs"
  by (induction xs) auto

lemma keeps_toggle_pin: "wf_tabs s \<Longrightarrow> keeps s (toggle_pin s i)"
proof (rule keeps_same)
  let ?ts = "replace_id i (\<lambda>t. set_pinned (\<not> tab_pinned t) t) (ts_tabs s)"
  have "mset (ids (ts_tabs (toggle_pin s i))) = image_mset tab_id (mset ?ts)"
    unfolding ids_def mset_map [symmetric] mset_partition [of tab_pinned ?ts, symmetric]
    by (simp add: toggle_pin_def Let_def ids_def)
  also have "\<dots> = mset (ids ?ts)" by (simp add: ids_def)
  finally show "mset (ids (ts_tabs (toggle_pin s i))) = mset (ids (ts_tabs s))" by simp
qed (simp_all add: toggle_pin_def Let_def)

lemma keeps_duplicate:
  assumes "wf_tabs s" "duplicate_tab s i title = Some s'"
  shows "keeps s s'"
proof -
  from assms(2) obtain k src where "s' = s\<lparr>ts_tabs := take (k + 1) (ts_tabs s) @
      [Query ((new_query (next_tab_id (ts_tabs s) (ts_seq s)) (title src) (qt_sql src))
        \<lparr>qt_conn := truthy (qt_conn src), qt_vars := qt_vars src\<rparr>)] @ drop (k + 1) (ts_tabs s),
      ts_active := next_tab_id (ts_tabs s) (ts_seq s), ts_seq := Some (next_tab_id (ts_tabs s) (ts_seq s))\<rparr>"
    by (auto simp: duplicate_tab_def Let_def split: option.splits tab.splits)
  then show ?thesis using assms(1)
    by (intro keeps_more [where a = "take (k + 1) (ts_tabs s)" and b = "drop (k + 1) (ts_tabs s)" and
        t = "Query ((new_query (next_tab_id (ts_tabs s) (ts_seq s)) (title src) (qt_sql src))
          \<lparr>qt_conn := truthy (qt_conn src), qt_vars := qt_vars src\<rparr>)"])
      (simp_all add: new_query_def)
qed

lemma filter_index_list:
  "distinct (map f ts) \<Longrightarrow> map snd (filter (\<lambda>(k, t). P k t) (index_list ts)) =
     filter (\<lambda>t. \<exists>k < length ts. ts ! k = t \<and> P k t) ts"
proof -
  assume "distinct (map f ts)"
  then have d: "distinct ts" by (simp add: distinct_map)
  have "map snd (filter (\<lambda>(k, t). P k t) (index_list ts)) =
      map snd (filter (\<lambda>p. \<exists>k < length ts. ts ! k = snd p \<and> P k (snd p)) (index_list ts))"
    using d by (intro arg_cong [where f = "map snd"] filter_cong refl)
      (auto simp: set_index_list nth_eq_iff_index_eq)
  also have "\<dots> = filter (\<lambda>t. \<exists>k < length ts. ts ! k = t \<and> P k t) (map snd (index_list ts))"
    by (simp only: filter_map comp_def)
  finally show ?thesis by simp
qed

lemma keeps_close_right:
  assumes wf: "wf_tabs s"
  shows "keeps s (close_tabs_to_right s i)"
proof (cases "find_index (\<lambda>t. tab_id t = i) (ts_tabs s)")
  case (Some k)
  note k = find_index_id [OF Some]
  show ?thesis
  proof (cases "k + 1 = length (ts_tabs s)")
    case False
    define ts where "ts = map snd (filter (\<lambda>(j, t). j \<le> k \<or> tab_pinned t) (index_list (ts_tabs s)))"
    have "distinct (map tab_id (ts_tabs s))" using wf by (simp add: wf_tabs_iff ids_def)
    from filter_index_list [OF this, of "\<lambda>j t. j \<le> k \<or> tab_pinned t"]
    have ts: "ts = filter (\<lambda>t. \<exists>j < length (ts_tabs s). ts_tabs s ! j = t \<and> (j \<le> k \<or> tab_pinned t)) (ts_tabs s)"
      by (simp add: ts_def)
    have "ts_tabs s ! k \<in> set ts" using k(1) by (auto simp: ts)
    then have i: "i \<in> set (ids ts)" using k(2) by (force simp: set_ids)
    have c: "close_tabs_to_right s i =
        s\<lparr>ts_tabs := ts, ts_active := (if id_in (ts_active s) ts then ts_active s else i)\<rparr>"
      using Some False by (simp add: close_tabs_to_right_def Let_def ts_def)
    show ?thesis unfolding c
      by (rule keeps_fewer [OF wf]) (use ts i in \<open>auto simp: id_in_iff\<close>)
  qed (use Some wf in \<open>simp add: close_tabs_to_right_def keeps_refl\<close>)
qed (use wf in \<open>simp add: close_tabs_to_right_def keeps_refl\<close>)

lemma keeps_cycle: "wf_tabs s \<Longrightarrow> keeps s (cycle_tab s dir)"
proof -
  assume wf: "wf_tabs s"
  have "tab_id (ts_tabs s ! nat (k mod int (length (ts_tabs s)))) \<in> set (ids (ts_tabs s))"
    if "\<not> length (ts_tabs s) < 2" for k
  proof -
    have "nat (k mod int (length (ts_tabs s))) < length (ts_tabs s)" 
      using that pos_mod_bound [of "int (length (ts_tabs s))" k] pos_mod_sign [of "int (length (ts_tabs s))" k]
      by linarith
    then show ?thesis by (simp add: set_ids)
  qed
  then show ?thesis using wf
    by (auto simp: cycle_tab_def Let_def keeps_refl intro!: keeps_same split: option.splits)
qed

section \<open>Runs of operations\<close>

inductive tab_step :: "tab_state \<Rightarrow> tab_state \<Rightarrow> bool" where
  add: "tab_step s (add_tab s title conn num)"
| tool: "tab_step s (open_tool s kind title opts)"
| snippet: "tab_step s (open_snippet_tab s sn conn)"
| object_key: "tab_step s (set_object_key s i key)"
| close: "tab_step s (close_tab s i)"
| close_conn: "tab_step s (close_tabs_for_conn s d)"
| close_others: "tab_step s (close_other_tabs s i)"
| close_all: "tab_step s (close_all_tabs s)"
| close_right: "tab_step s (close_tabs_to_right s i)"
| pin: "tab_step s (toggle_pin s i)"
| rename: "tab_step s (rename_tab s i title)"
| duplicate: "duplicate_tab s i f = Some s' \<Longrightarrow> tab_step s s'"
| vars: "tab_step s (update_tab_vars s i vs)"
| bind: "tab_step s (bind_tab_conn s i d)"
| sql: "tab_step s (update_tab_sql s i q)"
| cycle: "tab_step s (cycle_tab s dir)"
| focus: "id_in i (ts_tabs s) \<Longrightarrow> tab_step s (s\<lparr>ts_active := i\<rparr>)"

inductive_cases tab_stepE: "tab_step s s'"

inductive tab_reach :: "tab_state \<Rightarrow> bool" where
  start: "tab_reach (empty_session stored)"
| restored: "parse_workspace raw = Some s \<Longrightarrow> tab_reach s"
| step: "tab_reach s \<Longrightarrow> tab_step s s' \<Longrightarrow> tab_reach s'"

lemma keeps_step: "tab_step s s' \<Longrightarrow> wf_tabs s \<Longrightarrow> keeps s s'"
proof (induction rule: tab_step.induct)
  case (object_key s i key)
  then show ?case unfolding set_object_key_def by (intro replace_same) auto
next
  case (rename s i title)
  then show ?case unfolding rename_tab_def Let_def by (auto intro: replace_same keeps_refl)
next
  case (vars s i vs)
  then show ?case unfolding update_tab_vars_def by (intro replace_same) auto
next
  case (bind s i d)
  then show ?case unfolding bind_tab_conn_def by (intro replace_same) auto
next
  case (sql s i q)
  then show ?case unfolding update_tab_sql_def by (intro replace_same) auto
next
  case (focus i s)
  then show ?case by (intro keeps_same) (auto simp: id_in_iff)
qed (auto intro: keeps_add_tab keeps_open_tool keeps_open_snippet keeps_close_tab keeps_close_tabs
      keeps_close_other keeps_close_all keeps_close_right keeps_toggle_pin keeps_duplicate keeps_cycle
      simp: close_tabs_for_conn_def)

lemma restore_tabs_distinct:
  "distinct (map qt_id acc) \<Longrightarrow> distinct (map qt_id (restore_tabs acc items))"
proof (induction acc items rule: restore_tabs.induct)
  case (2 acc item items)
  show ?case
  proof (cases "restore_tab item")
    case None
    with 2 show ?thesis by simp
  next
    case (Some q)
    with 2 show ?thesis by (cases "\<exists>k \<in> set acc. qt_id k = qt_id q") (force simp: list_ex_iff)+
  qed
qed simp

lemma max_id_ge: "n \<le> max_id qs n" "q \<in> set qs \<Longrightarrow> qt_id q \<le> max_id qs n"
  using fold_max_ge [where f = qt_id] by (simp_all add: max_id_def)

lemma ids_Query [simp]: "ids (map Query qs) = map qt_id qs"
  by (simp add: ids_def)

lemma wf_restored: "parse_workspace raw = Some s \<Longrightarrow> wf_tabs s"
proof -
  assume "parse_workspace raw = Some s"
  then obtain items w where qs: "restore_tabs [] items \<noteq> []"
    and s: "ts_tabs s = map Query (restore_tabs [] items)" "ts_seq s = Some (max_id (restore_tabs [] items) w)"
      "ts_active s \<in> qt_id ` set (restore_tabs [] items)"
    by (force simp: parse_workspace_def Let_def list_ex_iff split: option.splits json.splits if_splits)
  have "distinct (map qt_id (restore_tabs [] items))" by (rule restore_tabs_distinct) simp
  with s qs show ?thesis using max_id_ge(2) by (auto simp: wf_tabs_iff last_id_def default_def)
qed

lemma wf_empty_session: "wf_tabs (empty_session stored)"
  by (simp add: wf_tabs_def empty_session_def)

lemma wf_reach: "tab_reach s \<Longrightarrow> wf_tabs s"
proof (induction rule: tab_reach.induct)
  case (step s s')
  then show ?case using keeps_step keeps_wf by blast
qed (auto intro: wf_restored wf_empty_session)

lemma keeps_steps: "tab_step\<^sup>*\<^sup>* s t \<Longrightarrow> wf_tabs s \<Longrightarrow> keeps s t"
proof (induction rule: rtranclp_induct)
  case (step t u)
  then show ?case using keeps_step keeps_wf keeps_trans by blast
qed (rule keeps_refl)

section \<open>Pinned tabs\<close>

definition pins_first :: "tab_state \<Rightarrow> bool" where
  "pins_first s \<longleftrightarrow> sorted_wrt (\<lambda>a b. tab_pinned b \<longrightarrow> tab_pinned a) (ts_tabs s)"

lemma pins_replace:
  assumes "pins_first s" "\<And>t. tab_id t = i \<Longrightarrow> t \<in> set (ts_tabs s) \<Longrightarrow> tab_pinned (f t) = tab_pinned t"
  shows "pins_first (s\<lparr>ts_tabs := replace_id i f (ts_tabs s), ts_active := a\<rparr>)"
    and "pins_first (s\<lparr>ts_tabs := replace_id i f (ts_tabs s)\<rparr>)"
  using assms(1) sorted_wrt_mono_rel [of "ts_tabs s" "\<lambda>a b. tab_pinned b \<longrightarrow> tab_pinned a"
    "\<lambda>a b. tab_pinned (if tab_id b = i then f b else b) \<longrightarrow> tab_pinned (if tab_id a = i then f a else a)"]
    assms(2)
  by (auto simp: pins_first_def replace_id_def sorted_wrt_map)

lemma pins_filter: "pins_first s \<Longrightarrow> ts_tabs s' = filter P (ts_tabs s) \<Longrightarrow> pins_first s'"
  by (simp add: pins_first_def sorted_wrt_filter)

lemma pins_append: "pins_first s \<Longrightarrow> ts_tabs s' = ts_tabs s @ [t] \<Longrightarrow> \<not> tab_pinned t \<Longrightarrow> pins_first s'"
  by (simp add: pins_first_def sorted_wrt_append)

lemma sorted_wrt_all: "\<forall>x \<in> set xs. \<forall>y \<in> set xs. R x y \<Longrightarrow> sorted_wrt R xs"
  by (induction xs) auto

lemma pins_toggle: "pins_first (toggle_pin s i)"
proof -
  have "sorted_wrt (\<lambda>a b. tab_pinned b \<longrightarrow> tab_pinned a) (filter tab_pinned ts @ filter (\<lambda>t. \<not> tab_pinned t) ts)" for ts
    unfolding sorted_wrt_append by (auto intro!: sorted_wrt_all)
  then show ?thesis by (simp add: pins_first_def toggle_pin_def Let_def)
qed

lemma pins_close: "pins_first s \<Longrightarrow> pins_first (close_tab s i)"
proof (cases "find_index (\<lambda>t. tab_id t = i) (ts_tabs s)")
  case (Some k)
  assume "pins_first s"
  then show ?thesis
    by (rule pins_filter [where P = "\<lambda>t. tab_id t \<noteq> i"]) (use Some in \<open>simp add: close_tab_def Let_def without_def\<close>)
qed (simp add: close_tab_def)

lemma pins_close_tabs: "pins_first s \<Longrightarrow> pins_first (fold (\<lambda>t st. close_tab st (tab_id t)) ts s)"
  by (induction ts arbitrary: s) (auto intro: pins_close)

lemma pins_close_right: "pins_first s \<Longrightarrow> pins_first (close_tabs_to_right s i)"
proof (cases "find_index (\<lambda>t. tab_id t = i) (ts_tabs s)")
  case (Some k)
  assume p: "pins_first s"
  have "sorted_wrt (\<lambda>x y. tab_pinned (snd y) \<longrightarrow> tab_pinned (snd x)) (index_list (ts_tabs s))"
    using p sorted_wrt_map [where f = snd and R = "\<lambda>a b. tab_pinned b \<longrightarrow> tab_pinned a" and xs = "index_list (ts_tabs s)"]
    by (simp add: pins_first_def)
  then have "sorted_wrt (\<lambda>a b. tab_pinned b \<longrightarrow> tab_pinned a)
      (map snd (filter Q (index_list (ts_tabs s))))" for Q
    by (simp add: sorted_wrt_map sorted_wrt_filter)
  with Some p show ?thesis by (simp add: close_tabs_to_right_def Let_def pins_first_def)
qed (simp add: close_tabs_to_right_def)

lemma pins_add: "pins_first s \<Longrightarrow> pins_first (add_tab s title conn num)"
  by (elim pins_append) (auto simp: add_tab_def Let_def tab_pinned_def new_query_def)

lemma pins_tool:
  assumes "wf_tabs s" and "pins_first s"
  shows "pins_first (open_tool s kind title opts)"
proof (cases "List.find (same_tool kind opts) (ts_tabs s)")
  case None
  with assms(2) show ?thesis by (elim pins_append) (auto simp: open_tool_def Let_def tab_pinned_def)
next
  case (Some t)
  then obtain u where u: "t = Tool u" "Tool u \<in> set (ts_tabs s)" using find_tool by blast
  have "t' = Tool u" if "tab_id t' = tt_id u" "t' \<in> set (ts_tabs s)" for t'
    using assms(1) u(2) that by (auto simp: wf_tabs_iff ids_def distinct_map inj_on_def)
  then have "tab_pinned (Tool (reopened title opts u)) = tab_pinned t'"
    if "tab_id t' = tt_id u" "t' \<in> set (ts_tabs s)" for t'
    using that by (force simp: tab_pinned_def reopened_def)
  then have "pins_first (s\<lparr>ts_tabs := replace_id (tt_id u) (\<lambda>_. Tool (reopened title opts u)) (ts_tabs s),
    ts_active := tt_id u\<rparr>)"
    by (intro pins_replace(1) assms(2))
  with Some u show ?thesis by (simp add: open_tool_def pins_first_def)
qed

lemma pins_snippet: "pins_first s \<Longrightarrow> pins_first (open_snippet_tab s sn conn)"
  by (cases "List.find (has_snippet (sn_id sn)) (ts_tabs s)")
     (auto simp: open_snippet_tab_def Let_def tab_pinned_def new_query_def pins_first_def sorted_wrt_append)

text \<open>What changes a tab in place.\<close>

lemma pins_edits:
  assumes "pins_first s"
  shows "pins_first (set_object_key s i key)" and "pins_first (rename_tab s i title)"
    and "pins_first (update_tab_vars s i vs)" and "pins_first (bind_tab_conn s i d)" and "pins_first (update_tab_sql s i q)"
  using assms unfolding set_object_key_def rename_tab_def Let_def update_tab_vars_def bind_tab_conn_def update_tab_sql_def
  by (auto intro: pins_replace(2))

lemma pins_kept:
  assumes "pins_first s"
  shows "pins_first (close_other_tabs s i)" and "pins_first (close_all_tabs s)"
proof -
  show "pins_first (close_other_tabs s i)"
  proof (cases "id_in i (ts_tabs s)")
    case True
    with assms show ?thesis
      by (elim pins_filter [where P = "\<lambda>t. tab_id t = i \<or> tab_pinned t"]) (simp add: close_other_tabs_def)
  qed (use assms in \<open>simp add: close_other_tabs_def\<close>)
  from assms show "pins_first (close_all_tabs s)"
    by (elim pins_filter [where P = tab_pinned]) (simp add: close_all_tabs_def Let_def)
qed

lemma pins_focus: "pins_first (s\<lparr>ts_active := i\<rparr>) \<longleftrightarrow> pins_first s"
  by (simp add: pins_first_def)

lemma pins_cycle: "pins_first s \<Longrightarrow> pins_first (cycle_tab s dir)"
  by (auto simp: cycle_tab_def Let_def pins_first_def split: option.splits)

lemma pins_duplicate:
  assumes "pins_first s" "duplicate_tab s i f = Some s'" "\<forall>t \<in> set (ts_tabs s). tab_id t = i \<longrightarrow> \<not> tab_pinned t"
  shows "pins_first s'"
proof -
  from assms(2) obtain k src cp where k: "find_index (\<lambda>t. tab_id t = i) (ts_tabs s) = Some k"
    and s': "ts_tabs s' = take (k + 1) (ts_tabs s) @ [Query cp] @ drop (k + 1) (ts_tabs s)"
    and cp: "qt_pinned cp = None"
    by (auto simp: duplicate_tab_def Let_def new_query_def split: option.splits tab.splits)
  let ?k = "ts_tabs s ! k"
  have "\<not> tab_pinned ?k" using find_index_id [OF k] assms(3) by simp
  moreover have "ts_tabs s = take k (ts_tabs s) @ ?k # drop (k + 1) (ts_tabs s)"
    using find_index_id(1) [OF k] by (simp add: id_take_nth_drop)
  ultimately have "\<forall>t \<in> set (drop (k + 1) (ts_tabs s)). \<not> tab_pinned t"
    using assms(1) unfolding pins_first_def by (metis sorted_wrt.simps(2) sorted_wrt_append)
  moreover have "sorted_wrt (\<lambda>a b. tab_pinned b \<longrightarrow> tab_pinned a)
      (take (k + 1) (ts_tabs s) @ drop (k + 1) (ts_tabs s))"
    using assms(1) by (simp only: pins_first_def append_take_drop_id)
  ultimately show ?thesis using cp unfolding pins_first_def s' sorted_wrt_append
    by (auto simp: tab_pinned_def)
qed

lemma duplicate_length:
  "duplicate_tab s i f = Some s' \<Longrightarrow> length (ts_tabs s') = Suc (length (ts_tabs s))"
  by (auto simp: duplicate_tab_def Let_def min_def not_less split: option.splits tab.splits dest: find_index_id(1))

section \<open>Storing and restoring\<close>

text \<open>What storage keeps of a tab: a flag only when it is true, values only when there are some.\<close>

definition keep_true :: "bool option \<Rightarrow> bool option" where
  "keep_true b = (if b = Some True then Some True else None)"

definition stored_form :: "query_tab \<Rightarrow> query_tab" where
  "stored_form q = q\<lparr>qt_pinned := keep_true (qt_pinned q),
     qt_vars := (case qt_vars q of None \<Rightarrow> None | Some vs \<Rightarrow> if vs = [] then None
       else Some (map (\<lambda>(k, v). (k, v\<lparr>vv_null := keep_true (vv_null v)\<rparr>)) vs))\<rparr>"

lemma restore_var_json:
  "(case json_str (json_field (var_json v) ''text'') of None \<Rightarrow> []
     | Some text \<Rightarrow> [(token, \<lparr>vv_text = text,
         vv_null = (if json_true (json_field (var_json v) ''isNull'') then Some True else None)\<rparr>)]) =
   [(token, v\<lparr>vv_null := keep_true (vv_null v)\<rparr>)]"
  by (cases v) (auto simp: var_json_def json_field_def json_str_def json_true_def opt_member_def keep_true_def
      split: option.split)

lemma restore_vars_json:
  assumes "listed vs"
  shows "restore_vars (Some (vars_json vs)) = (if vs = [] then None
    else Some (map (\<lambda>(k, v). (k, v\<lparr>vv_null := keep_true (vv_null v)\<rparr>)) vs))"
proof -
  define f where "f = (\<lambda>v :: var_value. v\<lparr>vv_null := keep_true (vv_null v)\<rparr>)"
  have c: "concat (map (\<lambda>(token, v).
        case json_str (json_field v ''text'') of None \<Rightarrow> []
        | Some text \<Rightarrow> [(token, \<lparr>vv_text = text,
            vv_null = (if json_true (json_field v ''isNull'') then Some True else None)\<rparr>)])
      (map (\<lambda>(k, v). (k, var_json v)) ws)) = map (map_prod (\<lambda>x. x) f) ws" for ws
    by (induction ws) (auto simp: restore_var_json f_def)
  have l: "obj_of (map (map_prod (\<lambda>x. x) f) vs) = map (map_prod (\<lambda>x. x) f) vs"
    using assms by (simp add: obj_of_map listed_def)
  have m: "map (map_prod (\<lambda>x. x) f) vs = map (\<lambda>(k, v). (k, f v)) vs"
    by (simp add: map_prod_def)
  show ?thesis
    unfolding restore_vars_def vars_json_def Let_def option.case json.case c l obj_keys_def
    unfolding m f_def by auto
qed

lemma restore_tab_json:
  assumes "\<forall>vs. qt_vars q = Some vs \<longrightarrow> listed vs"
  shows "restore_tab (query_tab_json q) = Some (stored_form q)"
proof -
  have "json_field (query_tab_json q) ''vars'' = map_option vars_json (qt_vars q)"
    by (auto simp: query_tab_json_def json_field_def opt_member_def split: option.split)
  moreover have "json_true (json_field (query_tab_json q) ''pinned'') = (qt_pinned q = Some True)"
    by (auto simp: query_tab_json_def json_field_def opt_member_def json_true_def split: option.split)
  moreover have "json_str (json_field (query_tab_json q) ''connDefId'') = qt_conn q"
    "json_str (json_field (query_tab_json q) ''snippetId'') = qt_snippet q"
    "json_str (json_field (query_tab_json q) ''objectKey'') = qt_object q"
    by (auto simp: query_tab_json_def json_field_def opt_member_def json_str_def split: option.split)
  moreover have "json_num (json_field (query_tab_json q) ''id'') = Some (qt_id q)"
    "json_field (query_tab_json q) ''kind'' = Some (JStr ''query'')"
    "json_str (json_field (query_tab_json q) ''title'') = Some (qt_title q)"
    "json_str (json_field (query_tab_json q) ''sql'') = Some (qt_sql q)"
    by (simp_all add: query_tab_json_def json_field_def json_num_def json_str_def)
  moreover have "restore_vars (map_option vars_json (qt_vars q)) = qt_vars (stored_form q)"
    using assms by (cases "qt_vars q") (auto simp: restore_vars_json stored_form_def restore_vars_def [of None])
  ultimately show ?thesis
    by (simp add: restore_tab_def) (simp add: stored_form_def keep_true_def)
qed

lemma restore_tabs_json:
  assumes "\<forall>q \<in> set qs. \<forall>vs. qt_vars q = Some vs \<longrightarrow> listed vs" "distinct (map qt_id acc @ map qt_id qs)"
  shows "restore_tabs acc (map query_tab_json qs) = acc @ map stored_form qs"
  using assms
proof (induction qs arbitrary: acc)
  case (Cons q qs)
  have id: "qt_id (stored_form q) = qt_id q" by (simp add: stored_form_def)
  have "restore_tab (query_tab_json q) = Some (stored_form q)"
    using Cons.prems(1) by (intro restore_tab_json) simp
  moreover have "\<not> list_ex (\<lambda>k. qt_id k = qt_id (stored_form q)) acc"
    using Cons.prems(2) by (force simp: list_ex_iff id image_iff)
  moreover have "restore_tabs (acc @ [stored_form q]) (map query_tab_json qs) =
      (acc @ [stored_form q]) @ map stored_form qs"
    by (rule Cons.IH) (use Cons.prems in \<open>auto simp: id\<close>)
  ultimately show ?case by simp
qed simp

lemma set_queries: "q \<in> set (queries ts) \<longleftrightarrow> Query q \<in> set ts"
  by (force simp: queries_def split: tab.splits)

lemma queries_distinct: "distinct (ids ts) \<Longrightarrow> distinct (map qt_id (queries ts))"
proof (induction ts)
  case (Cons t ts)
  have "qt_id ` set (queries ts) \<subseteq> set (ids ts)" by (force simp: set_queries set_ids)
  with Cons show ?case by (cases t) (auto simp: queries_def)
qed (simp add: queries_def)

lemma distinct_last_n: "distinct (map f xs) \<Longrightarrow> distinct (map f (last_n n xs))"
  by (simp add: last_n_def flip: drop_map)

lemma last_n_idem: "last_n n (map f (last_n n xs)) = map f (last_n n xs)"
  by (simp add: last_n_def)

lemma last_n_Nil: "0 < n \<Longrightarrow> last_n n xs = [] \<longleftrightarrow> xs = []"
  by (cases xs) (auto simp: last_n_def)

lemma max_id_bound: "\<forall>q \<in> set qs. qt_id q \<le> n \<Longrightarrow> max_id qs n = n"
  by (induction qs) (auto simp: max_id_def max_def)

section \<open>Properties\<close>


text \<open>C17. Every workspace that the operations can produce, from a blank start or from a stored
  workspace, has distinct tab identifiers none of which is above the counter, and an active
  tab that is in the list (none exactly when the list is empty).\<close>

theorem tabs_invariant:
  assumes "tab_reach s"
  shows "wf_tabs s"
  using assms by (rule wf_reach)

theorem tabs_invariant_witness:
  "wf_tabs (close_tab (add_tab (add_tab (empty_session None) ''Q'' None True) ''Q'' None True) 2) \<and>
   ts_active (close_tab (add_tab (add_tab (empty_session None) ''Q'' None True) ''Q'' None True) 2) = 1"
proof
  show "wf_tabs (close_tab (add_tab (add_tab (empty_session None) ''Q'' None True) ''Q'' None True) 2)"
    by (intro tabs_invariant tab_reach.step [OF _ tab_step.close] tab_reach.step [OF _ tab_step.add] tab_reach.start)
qed code_simp

text \<open>The identifier of a closed tab is never handed out again, whatever is opened, copied or
  closed afterwards: state kept by tab identifier cannot reach another tab.\<close>

theorem closed_id_not_reused:
  assumes "tab_reach s" and "id_in i (ts_tabs s)"
    and "tab_step\<^sup>*\<^sup>* s t" and "\<not> id_in i (ts_tabs t)" and "tab_step\<^sup>*\<^sup>* t u"
  shows "\<not> id_in i (ts_tabs u)"
proof -
  have s: "wf_tabs s" using assms(1) by (rule wf_reach)
  have st: "keeps s t" using keeps_steps [OF assms(3) s] .
  have tu: "keeps t u" using keeps_steps [OF assms(5) keeps_wf [OF st]] .
  have "i \<le> last_id s" using s assms(2) by (simp add: wf_tabs_iff id_in_iff)
  then have "i \<le> last_id t" using st by (simp add: keeps_def)
  then show ?thesis using tu assms(4) by (auto simp: keeps_def id_in_iff)
qed

theorem closed_id_not_reused_witness:
  "\<not> id_in 1 (ts_tabs (add_tab (close_tab (add_tab (empty_session None) ''Q'' None True) 1) ''Q'' None True)) \<and>
   ids (ts_tabs (add_tab (close_tab (add_tab (empty_session None) ''Q'' None True) 1) ''Q'' None True)) = [2]"
proof
  let ?s = "add_tab (empty_session None) ''Q'' None True"
  have "id_in 1 (ts_tabs ?s)" "\<not> id_in 1 (ts_tabs (close_tab ?s 1))" by code_simp+
  moreover have "tab_reach ?s" by (intro tab_reach.step [OF _ tab_step.add] tab_reach.start)
  moreover have "tab_step\<^sup>*\<^sup>* ?s (close_tab ?s 1)" by (intro r_into_rtranclp tab_step.close)
  moreover have "tab_step\<^sup>*\<^sup>* (close_tab ?s 1) (add_tab (close_tab ?s 1) ''Q'' None True)"
    by (intro r_into_rtranclp tab_step.add)
  ultimately show "\<not> id_in 1 (ts_tabs (add_tab (close_tab ?s 1) ''Q'' None True))"
    using closed_id_not_reused [of ?s 1 "close_tab ?s 1"] by blast
qed code_simp

text \<open>Pinned tabs stay at the start of the strip through every operation but one: copying a
  pinned tab. Pinning or unpinning a tab puts them there from any order.\<close>

theorem pins_stay_first:
  assumes "tab_step s s'" and "wf_tabs s" and "pins_first s"
    and "\<And>i f t. duplicate_tab s i f = Some s' \<Longrightarrow> t \<in> set (ts_tabs s) \<Longrightarrow> tab_id t = i \<Longrightarrow> \<not> tab_pinned t"
  shows "pins_first s' \<and> pins_first (toggle_pin s' i)"
proof
  show "pins_first s'"
    using assms by (induction rule: tab_step.induct)
      (auto intro: pins_add pins_tool pins_snippet pins_edits pins_close pins_close_tabs pins_close_right
        pins_toggle pins_kept pins_cycle pins_duplicate
        simp: close_tabs_for_conn_def pins_focus)
  show "pins_first (toggle_pin s' i)" by (rule pins_toggle)
qed

theorem pins_stay_first_witness:
  "pins_first (close_tab (toggle_pin (add_tab (add_tab (empty_session None) ''Q'' None True) ''Q'' None True) 2) 1)"
proof (rule conjunct1 [OF pins_stay_first])
  let ?s = "toggle_pin (add_tab (add_tab (empty_session None) ''Q'' None True) ''Q'' None True) 2"
  have s: "ts_tabs ?s = [Query ((new_query 2 ''Q 2'' [])\<lparr>qt_pinned := Some True\<rparr>), Query (new_query 1 ''Q 1'' [])]"
    by code_simp
  have c: "close_tab ?s 1 = \<lparr>ts_tabs = [Query ((new_query 2 ''Q 2'' [])\<lparr>qt_pinned := Some True\<rparr>)],
    ts_active = 2, ts_seq = Some 2, ts_num = Some 2\<rparr>" by code_simp
  show "tab_step ?s (close_tab ?s 1)" by (rule tab_step.close)
  show "wf_tabs ?s" by code_simp
  show "pins_first ?s" by code_simp
  fix i f t
  assume "duplicate_tab ?s i f = Some (close_tab ?s 1)"
  from duplicate_length [OF this] show "\<not> tab_pinned t" by (simp add: c s)
qed

text \<open>Copying a pinned tab can leave the strip with an unpinned tab between pinned ones: the
  copy is not pinned and is put right after its original, although pinned tabs are to be kept
  at the start of the strip.\<close>

theorem duplicate_breaks_pins:
  "\<exists>s s'. tab_reach s \<and> pins_first s \<and> duplicate_tab s 1 (\<lambda>q. qt_title q) = Some s' \<and> \<not> pins_first s'"
proof (intro exI conjI)
  let ?s = "toggle_pin (toggle_pin (add_tab (add_tab (empty_session None) ''Q'' None True) ''Q'' None True) 1) 2"
  show "tab_reach ?s"
    by (intro tab_reach.step [OF _ tab_step.pin] tab_reach.step [OF _ tab_step.add] tab_reach.start)
  show "pins_first ?s" by (rule pins_toggle)
  show "duplicate_tab ?s 1 (\<lambda>q. qt_title q) = Some (the (duplicate_tab ?s 1 (\<lambda>q. qt_title q)))"
    by code_simp
  show "\<not> pins_first (the (duplicate_tab ?s 1 (\<lambda>q. qt_title q)))" by code_simp
qed

text \<open>The state that comes back: the last fifty query tabs as they are stored.\<close>

definition kept_queries :: "tab_state \<Rightarrow> query_tab list" where
  "kept_queries s = last_n MAX_RESTORED_TABS (queries (ts_tabs s))"

definition restored_form :: "tab_state \<Rightarrow> tab_state" where
  "restored_form s =
     (let qs = kept_queries s in
      \<lparr>ts_tabs = map Query (map stored_form qs),
       ts_active = (if list_ex (\<lambda>q. qt_id q = ts_active s) qs then ts_active s
                    else if qs = [] then 0 else qt_id (last qs)),
       ts_seq = Some (last_id s), ts_num = Some (default (last_id s) (ts_num s))\<rparr>)"

definition storable_workspace :: "tab_state \<Rightarrow> bool" where
  "storable_workspace s \<longleftrightarrow> wf_tabs s \<and> queries (ts_tabs s) \<noteq> [] \<and>
     (\<forall>q \<in> set (queries (ts_tabs s)). \<forall>vs. qt_vars q = Some vs \<longrightarrow> listed vs)"

lemma stored_form_id [simp]: "qt_id (stored_form q) = qt_id q"
  by (simp add: stored_form_def)

lemma kept_not_Nil: "storable_workspace s \<Longrightarrow> kept_queries s \<noteq> []"
  by (simp add: storable_workspace_def kept_queries_def last_n_Nil MAX_RESTORED_TABS_def)

lemma kept_subset: "set (kept_queries s) \<subseteq> set (queries (ts_tabs s))"
  by (auto simp: kept_queries_def last_n_def dest: in_set_dropD)

lemma kept_tabs_restored:
  assumes "storable_workspace s"
  shows "restore_tabs [] (last_n MAX_RESTORED_TABS (map query_tab_json (kept_queries s)))
    = map stored_form (kept_queries s)"
proof -
  have "distinct (map qt_id (kept_queries s))"
    using assms unfolding kept_queries_def
    by (intro distinct_last_n queries_distinct) (simp add: wf_tabs_iff storable_workspace_def)
  then have "restore_tabs [] (map query_tab_json (kept_queries s)) = [] @ map stored_form (kept_queries s)"
    by (intro restore_tabs_json) (use kept_subset assms in \<open>auto simp: storable_workspace_def\<close>)
  then show ?thesis unfolding kept_queries_def last_n_idem by simp
qed

lemma kept_ids_bound:
  assumes "storable_workspace s"
  shows "max_id (kept_queries s) (last_id s) = last_id s"
    and "max_id (map stored_form (kept_queries s)) (last_id s) = last_id s"
  using assms kept_subset [of s]
  by (force intro!: max_id_bound simp: storable_workspace_def wf_tabs_iff set_queries set_ids)+

lemma parse_serialize_workspace:
  assumes s: "storable_workspace s"
  shows "parse_workspace (Some (serialize_workspace s)) = Some (restored_form s)"
proof -
  define qs where "qs = kept_queries s"
  define a where "a = (if list_ex (\<lambda>q. qt_id q = ts_active s) qs then ts_active s
    else if qs = [] then 0 else qt_id (last qs))"
  have ne: "qs \<noteq> []" using kept_not_Nil [OF s] by (simp add: qs_def)
  have a: "list_ex (\<lambda>q. qt_id q = a) (map stored_form qs)"
    using ne by (auto simp: a_def list_ex_iff)
  note m = kept_ids_bound [OF s, folded qs_def]
  define j where "j = serialize_workspace s"
  have j: "json_field j ''tabs'' = Some (JArr (map query_tab_json qs))"
    "json_num (json_field j ''activeId'') = Some a" "json_num (json_field j ''seq'') = Some (last_id s)"
    "json_num (json_field j ''num'') = ts_num s"
    using m by (simp_all add: j_def serialize_workspace_def Let_def json_field_def json_num_def a_def qs_def
        last_id_def kept_queries_def opt_member_def split: option.split)
  have "parse_workspace (Some j) = Some \<lparr>ts_tabs = map Query (map stored_form qs), ts_active = a,
      ts_seq = Some (last_id s), ts_num = Some (default (last_id s) (ts_num s))\<rparr>"
    unfolding parse_workspace_def option.case j json.case Let_def kept_tabs_restored [OF s, folded qs_def]
    using a ne m(2) by (simp add: default_def)
  then show ?thesis unfolding j_def restored_form_def Let_def a_def qs_def .
qed

text \<open>C32. A stored workspace comes back: the last fifty query tabs with all they hold, in order,
  the same active tab when it is one of them, and the same identifier counter, so that no
  identifier moves backwards across a restart. Variable values are objects whose entries
  stand in listing order, as every object's do.\<close>

theorem workspace_restored:
  assumes "tab_reach s" and "queries (ts_tabs s) \<noteq> []"
    and "\<And>q vs. q \<in> set (queries (ts_tabs s)) \<Longrightarrow> qt_vars q = Some vs \<Longrightarrow> listed vs"
  shows "\<exists>r. parse_workspace (Some (serialize_workspace s)) = Some r \<and>
    ts_tabs r = map Query (map stored_form (last_n MAX_RESTORED_TABS (queries (ts_tabs s)))) \<and>
    (id_in (ts_active s) (ts_tabs r) \<longrightarrow> ts_active r = ts_active s) \<and> last_id r = last_id s"
proof -
  have "storable_workspace s"
    using assms wf_reach [OF assms(1)] by (simp add: storable_workspace_def)
  then have "parse_workspace (Some (serialize_workspace s)) = Some (restored_form s)"
    by (rule parse_serialize_workspace)
  then show ?thesis
    by (auto simp: restored_form_def kept_queries_def Let_def last_id_def id_in_def list_ex_iff)
qed

theorem workspace_restored_witness:
  "\<exists>r. parse_workspace (Some (serialize_workspace (update_tab_sql (add_tab (empty_session None) ''Q'' None True) 1 ''x''))) = Some r \<and>
     ts_tabs r = [Query (new_query 1 ''Q 1'' ''x'')] \<and> last_id r = 1"
proof -
  let ?s = "update_tab_sql (add_tab (empty_session None) ''Q'' None True) 1 ''x''"
  have "tab_reach ?s"
    by (intro tab_reach.step [OF _ tab_step.sql] tab_reach.step [OF _ tab_step.add] tab_reach.start)
  moreover have q: "queries (ts_tabs ?s) = [new_query 1 ''Q 1'' ''x'']" by code_simp
  moreover have "last_id ?s = 1" by code_simp
  moreover have "map Query (map stored_form (last_n MAX_RESTORED_TABS [new_query 1 ''Q 1'' ''x''])) =
      [Query (new_query 1 ''Q 1'' ''x'')]" by code_simp
  ultimately show ?thesis
    using workspace_restored [of ?s] by (auto simp: new_query_def)
qed

end
