(* ===== verification/DriverSchemas.thy ===== *)
theory DriverSchemas
  imports Prelude
begin

text \<open>
  The connection forms' data (\<open>connections.ts\<close>): the fields of every engine's DSN, with
  the optional tunnel and TLS groups. Labels are i18n keys.
\<close>

datatype field_type = TextField | NumberField | PasswordField | FileField | SelectField

record field_option =
  fo_value :: string
  fo_label :: string

record driver_field =
  df_key :: string
  df_label :: string
  df_type :: field_type
  df_required :: bool
  df_placeholder :: "string option"
  df_default :: "string option"
  df_options :: "field_option list option"
  df_group :: "string option"
  df_fetch :: bool

record driver_schema =
  ds_driver :: string
  ds_label :: string
  ds_fields :: "driver_field list"

text \<open>A field with only the required members, a choice of a \<open>select\<close>.\<close>

definition field_of :: "string \<Rightarrow> string \<Rightarrow> field_type \<Rightarrow> bool \<Rightarrow> driver_field" where
  "field_of key label ty req =
     \<lparr>df_key = key, df_label = label, df_type = ty, df_required = req, df_placeholder = None,
      df_default = None, df_options = None, df_group = None, df_fetch = False\<rparr>"

definition opt_of :: "string \<Rightarrow> string \<Rightarrow> field_option" where
  "opt_of v l = \<lparr>fo_value = v, fo_label = l\<rparr>"

definition SSH_GROUP :: string where "SSH_GROUP = ''group.ssh''"
definition SSL_GROUP :: string where "SSL_GROUP = ''group.ssl''"
definition INFORMIX_DRDA_PORT :: string where "INFORMIX_DRDA_PORT = ''9089''"
definition INFORMIX_SQLI_PORT :: string where "INFORMIX_SQLI_PORT = ''9088''"
definition INFORMIX_SQLI_SERVER :: string where "INFORMIX_SQLI_SERVER = ''sqli_server''"
definition INFORMIX_PORT_REVIEW :: string where "INFORMIX_PORT_REVIEW = ''port_review''"

definition SSH_TUNNEL_FIELDS :: "driver_field list" where
  "SSH_TUNNEL_FIELDS = [
     (field_of ''ssh_host'' ''field.sshHost'' TextField False)\<lparr>df_placeholder := Some ''bastion.example.com'', df_group := Some SSH_GROUP\<rparr>,
     (field_of ''ssh_port'' ''field.sshPort'' NumberField False)\<lparr>df_default := Some ''22'', df_group := Some SSH_GROUP\<rparr>,
     (field_of ''ssh_user'' ''field.sshUser'' TextField False)\<lparr>df_group := Some SSH_GROUP\<rparr>,
     (field_of ''ssh_auth'' ''field.sshAuth'' SelectField False)\<lparr>df_options := Some [opt_of [] ''field.sshAuthDefault'', opt_of ''agent'' ''field.sshAgent'', opt_of ''password'' ''field.password'', opt_of ''key'' ''field.privateKey''], df_group := Some SSH_GROUP\<rparr>,
     (field_of ''ssh_password'' ''field.sshPassword'' PasswordField False)\<lparr>df_group := Some SSH_GROUP\<rparr>,
     (field_of ''ssh_key'' ''field.sshKey'' FileField False)\<lparr>df_placeholder := Some ''~/.ssh/id_ed25519'', df_group := Some SSH_GROUP\<rparr>,
     (field_of ''ssh_key_passphrase'' ''field.keyPassphrase'' PasswordField False)\<lparr>df_group := Some SSH_GROUP\<rparr>,
     (field_of ''ssh_target_host'' ''field.targetHost'' TextField False)\<lparr>df_group := Some SSH_GROUP\<rparr>,
     (field_of ''ssh_target_port'' ''field.targetPort'' NumberField False)\<lparr>df_group := Some SSH_GROUP\<rparr>,
     (field_of ''ssh_host_key_policy'' ''field.hostKey'' SelectField False)\<lparr>df_options := Some [opt_of [] ''field.hostKeyDefault'', opt_of ''accept-new'' ''field.hostKeyTofu'', opt_of ''strict'' ''field.hostKeyStrict'', opt_of ''off'' ''field.hostKeyOff''], df_group := Some SSH_GROUP\<rparr>,
     (field_of ''ssh_known_hosts'' ''field.knownHosts'' FileField False)\<lparr>df_placeholder := Some ''~/.ssh/known_hosts'', df_group := Some SSH_GROUP\<rparr>]"

definition with_ssh_tunnel :: "driver_field list \<Rightarrow> driver_field list" where
  "with_ssh_tunnel base = base @ SSH_TUNNEL_FIELDS"

definition MYSQL_SSL_FIELDS :: "driver_field list" where
  "MYSQL_SSL_FIELDS = [
     (field_of ''ssl_mode'' ''field.sslMode'' SelectField False)\<lparr>df_options := Some [opt_of [] ''field.clientDefault'', opt_of ''disabled'' ''field.disabled'', opt_of ''required'' ''field.sslRequired'', opt_of ''verify_ca'' ''field.sslVerifyCa'', opt_of ''verify_identity'' ''field.sslVerifyIdentity''], df_group := Some SSL_GROUP\<rparr>,
     (field_of ''ssl_ca'' ''field.caCert'' FileField False)\<lparr>df_group := Some SSL_GROUP\<rparr>,
     (field_of ''ssl_cert'' ''field.clientCert'' FileField False)\<lparr>df_group := Some SSL_GROUP\<rparr>,
     (field_of ''ssl_key'' ''field.clientKey'' FileField False)\<lparr>df_group := Some SSL_GROUP\<rparr>]"

definition POSTGRES_SSL_FIELDS :: "driver_field list" where
  "POSTGRES_SSL_FIELDS = [
     (field_of ''sslmode'' ''field.sslMode'' SelectField False)\<lparr>df_options := Some [opt_of [] ''field.clientDefaultPrefer'', opt_of ''disable'' ''field.disabled'', opt_of ''allow'' ''field.sslAllow'', opt_of ''prefer'' ''field.sslPrefer'', opt_of ''require'' ''field.sslRequired'', opt_of ''verify-ca'' ''field.sslVerifyCa'', opt_of ''verify-full'' ''field.sslVerifyIdentity''], df_group := Some SSL_GROUP\<rparr>,
     (field_of ''sslrootcert'' ''field.caCert'' FileField False)\<lparr>df_group := Some SSL_GROUP\<rparr>,
     (field_of ''sslcert'' ''field.clientCert'' FileField False)\<lparr>df_group := Some SSL_GROUP\<rparr>,
     (field_of ''sslkey'' ''field.clientKey'' FileField False)\<lparr>df_group := Some SSL_GROUP\<rparr>]"

definition sqlite_schema :: "driver_schema" where
  "sqlite_schema = \<lparr>ds_driver = ''sqlite'', ds_label = ''SQLite'', ds_fields = [
     (field_of ''path'' ''field.dbFile'' FileField True)\<lparr>df_placeholder := Some ''field.dbFilePlaceholder''\<rparr>]\<rparr>"

definition postgres_schema :: "driver_schema" where
  "postgres_schema = \<lparr>ds_driver = ''postgres'', ds_label = ''PostgreSQL'', ds_fields = with_ssh_tunnel ([
     (field_of ''host'' ''field.host'' TextField True)\<lparr>df_default := Some ''localhost''\<rparr>,
     (field_of ''port'' ''field.port'' NumberField False)\<lparr>df_default := Some ''5432''\<rparr>,
     (field_of ''database'' ''field.database'' TextField True)\<lparr>df_fetch := True\<rparr>,
     field_of ''user'' ''field.user'' TextField True,
     field_of ''password'' ''field.password'' PasswordField False] @ POSTGRES_SSL_FIELDS)\<rparr>"

definition mysql_schema :: "driver_schema" where
  "mysql_schema = \<lparr>ds_driver = ''mysql'', ds_label = ''MySQL / MariaDB'', ds_fields = with_ssh_tunnel ([
     (field_of ''host'' ''field.host'' TextField True)\<lparr>df_default := Some ''127.0.0.1''\<rparr>,
     (field_of ''port'' ''field.port'' NumberField False)\<lparr>df_default := Some ''3306''\<rparr>,
     (field_of ''database'' ''field.database'' TextField False)\<lparr>df_fetch := True\<rparr>,
     (field_of ''user'' ''field.user'' TextField True)\<lparr>df_placeholder := Some ''root''\<rparr>,
     field_of ''password'' ''field.password'' PasswordField False] @ MYSQL_SSL_FIELDS)\<rparr>"

definition informix_schema :: "driver_schema" where
  "informix_schema = \<lparr>ds_driver = ''informix'', ds_label = ''IBM Informix'', ds_fields = with_ssh_tunnel ([
     (field_of ''host'' ''field.host'' TextField True)\<lparr>df_default := Some ''127.0.0.1''\<rparr>,
     (field_of ''port'' ''field.portDrda'' NumberField False)\<lparr>df_default := Some INFORMIX_DRDA_PORT\<rparr>,
     (field_of INFORMIX_SQLI_SERVER ''field.sqliServer'' TextField False)\<lparr>df_placeholder := Some ''ol_informix''\<rparr>,
     (field_of ''database'' ''field.database'' TextField False)\<lparr>df_fetch := True\<rparr>,
     (field_of ''user'' ''field.user'' TextField True)\<lparr>df_placeholder := Some ''informix''\<rparr>,
     field_of ''password'' ''field.password'' PasswordField False,
     (field_of ''tls'' ''field.tls'' SelectField False)\<lparr>df_options := Some [opt_of [] ''field.optDisabled'', opt_of ''require'' ''field.sslRequired'', opt_of ''verify-ca'' ''field.sslVerifyCa'', opt_of ''verify-full'' ''field.sslVerifyIdentity''], df_group := Some SSL_GROUP\<rparr>,
     (field_of ''tls_ca'' ''field.caCert'' FileField False)\<lparr>df_group := Some SSL_GROUP\<rparr>])\<rparr>"

definition mongodb_schema :: "driver_schema" where
  "mongodb_schema = \<lparr>ds_driver = ''mongodb'', ds_label = ''MongoDB'', ds_fields = with_ssh_tunnel ([
     (field_of ''host'' ''field.host'' TextField True)\<lparr>df_default := Some ''127.0.0.1''\<rparr>,
     (field_of ''port'' ''field.port'' NumberField False)\<lparr>df_default := Some ''27017''\<rparr>,
     (field_of ''database'' ''field.database'' TextField True)\<lparr>df_fetch := True\<rparr>,
     field_of ''user'' ''field.user'' TextField False,
     field_of ''password'' ''field.password'' PasswordField False,
     (field_of ''auth_source'' ''field.authSource'' TextField False)\<lparr>df_placeholder := Some ''admin''\<rparr>,
     (field_of ''tls'' ''field.tls'' SelectField False)\<lparr>df_options := Some [opt_of [] ''field.optDisabled'', opt_of ''true'' ''field.enabled'']\<rparr>,
     field_of ''tls_ca'' ''field.caCert'' FileField False])\<rparr>"

definition mssql_schema :: "driver_schema" where
  "mssql_schema = \<lparr>ds_driver = ''mssql'', ds_label = ''SQL Server'', ds_fields = with_ssh_tunnel ([
     (field_of ''host'' ''field.host'' TextField True)\<lparr>df_default := Some ''127.0.0.1''\<rparr>,
     (field_of ''port'' ''field.port'' NumberField False)\<lparr>df_default := Some ''1433''\<rparr>,
     (field_of ''instance'' ''field.instance'' TextField False)\<lparr>df_placeholder := Some ''SQLEXPRESS''\<rparr>,
     (field_of ''database'' ''field.database'' TextField False)\<lparr>df_fetch := True\<rparr>,
     (field_of ''user'' ''field.user'' TextField True)\<lparr>df_placeholder := Some ''sa''\<rparr>,
     field_of ''password'' ''field.password'' PasswordField False,
     (field_of ''encryption'' ''field.encryption'' SelectField False)\<lparr>df_options := Some [opt_of [] ''field.encRequireDefault'', opt_of ''request'' ''field.encRequest'', opt_of ''off'' ''field.encOff'', opt_of ''strict'' ''field.encStrict'']\<rparr>])\<rparr>"

definition DRIVER_SCHEMAS :: "(string \<times> driver_schema) list" where
  "DRIVER_SCHEMAS = [
     (''sqlite'', sqlite_schema),
     (''postgres'', postgres_schema),
     (''mysql'', mysql_schema),
     (''informix'', informix_schema),
     (''mongodb'', mongodb_schema),
     (''mssql'', mssql_schema)]"

definition AVAILABLE_DRIVERS :: "string list" where
  "AVAILABLE_DRIVERS = [''sqlite'', ''postgres'', ''mysql'', ''informix'', ''mongodb'', ''mssql'']"

definition driver_schema_for :: "string \<Rightarrow> driver_schema option" where
  "driver_schema_for driver = map_of DRIVER_SCHEMAS driver"

definition secret_field_keys :: "driver_schema \<Rightarrow> string list" where
  "secret_field_keys schema =
     map df_key (filter (\<lambda>f. df_type f = PasswordField) (ds_fields schema))"

end
