(* ===== verification/SeqIds.thy ===== *)
theory SeqIds
  imports Prelude
begin

text \<open>
  Identifiers "prefix-N". Saved connections, notebook cells, notebooks and snippets number
  their items the same way: one more than the largest number in use. Lists whose items carry
  such an identifier share the locale \<open>keyed_items\<close>.
\<close>

section \<open>The next identifier\<close>

text \<open>\<open>/^prefix(\d+)$/\<close>: the number of an identifier.\<close>

definition seq_number :: "string \<Rightarrow> string \<Rightarrow> int option" where
  "seq_number pre i =
     (let d = drop (length pre) i in
      if starts_with pre i \<and> d \<noteq> [] \<and> list_all is_digit d then Some (int (digits_val 0 d)) else None)"

definition max_seq :: "string \<Rightarrow> string list \<Rightarrow> int" where
  "max_seq pre ids = fold (\<lambda>i acc. case seq_number pre i of None \<Rightarrow> acc | Some n \<Rightarrow> max acc n) ids 0"

definition next_seq_id :: "string \<Rightarrow> string list \<Rightarrow> string" where
  "next_seq_id pre ids = pre @ show_int (max_seq pre ids + 1)"

lemma show_int_digits: "0 \<le> n \<Longrightarrow> list_all is_digit (show_int n) \<and> show_int n \<noteq> [] \<and> digits_val 0 (show_int n) = nat n"
  by (auto simp: show_int_def list_all_iff digits_val_digits_of dest: digits_of_digits)

lemma seq_number_show: "0 \<le> n \<Longrightarrow> seq_number pre (pre @ show_int n) = Some n"
  using show_int_digits [of n] by (simp add: seq_number_def starts_with_def)

lemma max_seq_ge:
  fixes n :: int
  shows "n \<le> fold (\<lambda>i acc. case seq_number pre i of None \<Rightarrow> acc | Some k \<Rightarrow> max acc k) ids n \<and>
    (\<forall>i \<in> set ids. \<forall>k. seq_number pre i = Some k \<longrightarrow>
       k \<le> fold (\<lambda>i acc. case seq_number pre i of None \<Rightarrow> acc | Some k \<Rightarrow> max acc k) ids n)"
proof (induction ids arbitrary: n)
  case (Cons i ids)
  show ?case
  proof (cases "seq_number pre i")
    case (Some k)
    with Cons [of "max n k"] show ?thesis by auto
  qed (use Cons [of n] in auto)
qed simp

lemma next_seq_id_fresh: "next_seq_id pre ids \<notin> set ids"
proof
  assume mem: "next_seq_id pre ids \<in> set ids"
  have "seq_number pre (next_seq_id pre ids) = Some (max_seq pre ids + 1)"
    using max_seq_ge [of 0 pre ids] by (simp add: next_seq_id_def seq_number_show max_seq_def)
  with mem max_seq_ge [of 0 pre ids] show False by (force simp: max_seq_def)
qed

section \<open>Lists of items with identifiers\<close>

definition upsert_by :: "('a \<Rightarrow> string) \<Rightarrow> 'a list \<Rightarrow> 'a \<Rightarrow> 'a list" where
  "upsert_by key xs x = (case find_index (\<lambda>y. key y = key x) xs of None \<Rightarrow> xs @ [x] | Some i \<Rightarrow> xs[i := x])"

text \<open>\<open>make\<close> creates an item with a given identifier, \<open>key\<close> reads it.\<close>

locale keyed_items =
  fixes key :: "'a \<Rightarrow> string" and pre :: string and make :: "string \<Rightarrow> 'b \<Rightarrow> 'a"
  assumes key_make: "key (make i x) = i"
begin

definition unique_ids :: "'a list \<Rightarrow> bool" where
  "unique_ids xs \<longleftrightarrow> distinct (map key xs)"

lemma unique_new: "unique_ids xs \<Longrightarrow> unique_ids (xs @ [make (next_seq_id pre (map key xs)) x])"
  using next_seq_id_fresh [of pre "map key xs"] by (auto simp: unique_ids_def key_make)

lemma unique_filter: "unique_ids xs \<Longrightarrow> unique_ids (filter P xs)"
  by (simp add: unique_ids_def distinct_map_filter)

lemma unique_map: "(\<And>x. x \<in> set xs \<Longrightarrow> key (f x) = key x) \<Longrightarrow> unique_ids xs \<Longrightarrow> unique_ids (map f xs)"
  by (simp add: unique_ids_def comp_def cong: map_cong)

lemma unique_upsert: "unique_ids xs \<Longrightarrow> unique_ids (upsert_by key xs x)"
proof (cases "find_index (\<lambda>y. key y = key x) xs")
  case None
  then have "key x \<notin> set (map key xs)" by (force simp: find_index_None)
  with None show "unique_ids xs \<Longrightarrow> unique_ids (upsert_by key xs x)"
    by (simp add: upsert_by_def unique_ids_def)
next
  case (Some i)
  then have "map key (xs[i := x]) = map key xs"
    using find_index_Some [OF Some] by (simp add: map_update list_update_same_conv)
  with Some show "unique_ids xs \<Longrightarrow> unique_ids (upsert_by key xs x)"
    by (simp add: upsert_by_def unique_ids_def)
qed

lemma find_upsert: "List.find (\<lambda>y. key y = key x) (upsert_by key xs x) = Some x"
proof (cases "find_index (\<lambda>y. key y = key x) xs")
  case None
  then have "List.find (\<lambda>y. key y = key x) (xs @ ys) = List.find (\<lambda>y. key y = key x) ys" for ys
    by (induction xs) (auto split: if_splits)
  with None show ?thesis by (simp add: upsert_by_def)
next
  case (Some i)
  then have "List.find (\<lambda>y. key y = key x) (xs[i := x]) = Some x"
    by (induction xs arbitrary: i) (auto split: if_splits)
  with Some show ?thesis by (simp add: upsert_by_def)
qed

end

end
