(* ===== verification/Connections.thy ===== *)
theory Connections
  imports DriverSchemas SafeMode GridView SeqIds
begin

text \<open>
  Saved connections (\<open>connections.ts\<close>, \<open>connectionEnv.ts\<close>): the stored shape and its
  validation, the DSN handed to the core, identifiers, removal with undo, the migration of old
  Informix connections and the merge of imported lists. \<open>localeCompare\<close> is the parameter
  \<open>lc\<close>; the emoji tables are not modelled.
\<close>

section \<open>Data\<close>

datatype conn_env = Dev | Test | Prod

record connection =
  cn_id :: string
  cn_name :: string
  cn_driver :: string
  cn_params :: "string obj"
  cn_color :: "string option"
  cn_group :: "string option"
  cn_icon :: "string option"
  cn_keep_alive :: "int option"
  cn_safe :: "safe_mode option"
  cn_env :: "conn_env option"

definition CONNECTION_COLORS :: "string list" where
  "CONNECTION_COLORS = [''#e5484d'', ''#e5843b'', ''#e0b341'', ''#4bb45e'', ''#3ea6b8'', ''#4f7cf0'', ''#9a6ae0'']"

definition CONN_ENVS :: "conn_env list" where
  "CONN_ENVS = [Dev, Test, Prod]"

definition env_color :: "conn_env \<Rightarrow> string" where
  "env_color e = (case e of Dev \<Rightarrow> ''#4f7cf0'' | Test \<Rightarrow> ''#4bb45e'' | Prod \<Rightarrow> ''#e5484d'')"

definition env_safe :: "conn_env \<Rightarrow> safe_mode option" where
  "env_safe e = (if e = Prod then Some Confirm else None)"

definition parse_env :: "string option \<Rightarrow> conn_env option" where
  "parse_env v = (if v = Some ''dev'' then Some Dev else if v = Some ''test'' then Some Test
     else if v = Some ''prod'' then Some Prod else None)"

definition with_env :: "connection \<Rightarrow> conn_env option \<Rightarrow> connection" where
  "with_env c e =
     (case e of None \<Rightarrow> c\<lparr>cn_env := None\<rparr>
      | Some e \<Rightarrow> c\<lparr>cn_env := Some e, cn_color := Some (env_color e), cn_safe := env_safe e\<rparr>)"

definition stripe_color :: "string option \<Rightarrow> safe_mode option \<Rightarrow> string option" where
  "stripe_color color sm =
     (case truthy color of Some c \<Rightarrow> Some c
      | None \<Rightarrow> if sm = Some Confirm then Some ''var(--warn)''
          else if sm = Some ReadOnly then Some ''var(--text-dim)'' else None)"

text \<open>\<open>params[key] ?? ""\<close>, trimmed.\<close>

definition param :: "string obj \<Rightarrow> string \<Rightarrow> string" where
  "param ps k = default [] (map_of ps k)"

definition param_trim :: "string obj \<Rightarrow> string \<Rightarrow> string" where
  "param_trim ps k = trim (param ps k)"

section \<open>Forms and DSNs\<close>

definition with_field_defaults :: "driver_schema option \<Rightarrow> string obj \<Rightarrow> string obj" where
  "with_field_defaults schema params =
     fold (\<lambda>f out. case df_default f of None \<Rightarrow> out
         | Some d \<Rightarrow> if param out (df_key f) = [] then obj_set (df_key f) d out else out)
       (case schema of None \<Rightarrow> [] | Some s \<Rightarrow> ds_fields s) params"

definition strip_secrets :: "connection \<Rightarrow> driver_schema \<Rightarrow> connection" where
  "strip_secrets c schema =
     c\<lparr>cn_params := obj_of (filter (\<lambda>(k, v). k \<notin> set (secret_field_keys schema)) (cn_params c))\<rparr>"

text \<open>The translator \<open>t\<close> is given a key and its parameters.\<close>

definition validate_connection ::
    "(string \<Rightarrow> (string \<times> string) list \<Rightarrow> string) \<Rightarrow> connection \<Rightarrow> string list" where
  "validate_connection t c =
     (let name_errors = (if trim (cn_name c) = [] then [t ''valid.nameRequired'' []] else [])
      in case driver_schema_for (cn_driver c) of
           None \<Rightarrow> name_errors @ [t ''valid.unknownDriver'' [(''driver'', cn_driver c)]]
         | Some schema \<Rightarrow> name_errors @
             map (\<lambda>f. t ''valid.fieldRequired'' [(''field'', t (df_label f) [])])
               (filter (\<lambda>f. df_required f \<and> param_trim (cn_params c) (df_key f) = []) (ds_fields schema)))"

definition field_errors :: "connection \<Rightarrow> bool \<Rightarrow> string obj" where
  "field_errors c ssh_required =
     (case driver_schema_for (cn_driver c) of None \<Rightarrow> []
      | Some schema \<Rightarrow>
          let errs = obj_of (concat (map (\<lambda>f.
                let value = param_trim (cn_params c) (df_key f) in
                if df_required f \<and> value = [] then [(df_key f, ''valid.required'')]
                else if df_type f = NumberField \<and> value \<noteq> [] \<and> \<not> list_all is_digit value
                  then [(df_key f, ''valid.number'')]
                else []) (ds_fields schema)))
          in if ssh_required \<and> param_trim (cn_params c) ''ssh_host'' = []
             then obj_set ''ssh_host'' ''valid.required'' errs else errs)"

definition is_valid :: "string obj \<Rightarrow> bool" where
  "is_valid errs \<longleftrightarrow> length (obj_keys errs) = 0"

definition build_dsn :: "connection \<Rightarrow> string obj" where
  "build_dsn c =
     (case driver_schema_for (cn_driver c) of None \<Rightarrow> cn_params c
      | Some schema \<Rightarrow> obj_of (concat (map (\<lambda>f. case truthy (map_of (cn_params c) (df_key f)) of
            None \<Rightarrow> [] | Some v \<Rightarrow> [(df_key f, v)]) (ds_fields schema))))"

definition dsn_for_database_list :: "connection \<Rightarrow> string obj" where
  "dsn_for_database_list c =
     build_dsn (if param_trim (cn_params c) ''database'' = []
       then c\<lparr>cn_params := (if cn_driver c = ''informix'' then obj_set ''database'' ''sysmaster'' (cn_params c)
              else obj_del ''database'' (cn_params c))\<rparr>
       else c)"

section \<open>Old Informix connections\<close>

definition LEGACY_KEYS :: "string list" where
  "LEGACY_KEYS = [''server'', ''protocol'', ''client_locale'', ''db_locale'']"

definition migrate_informix_connection :: "connection \<Rightarrow> bool \<Rightarrow> connection" where
  "migrate_informix_connection c force =
     (if cn_driver c \<noteq> ''informix'' then c
      else if \<not> (force \<or> list_ex (has_key (cn_params c)) LEGACY_KEYS) then c
      else let p0 = cn_params c;
               tls = (map_of p0 ''protocol'' = Some ''onsocssl'');
               p1 = (case truthy (map_of p0 ''server'') of None \<Rightarrow> p0
                     | Some sv \<Rightarrow> if truthy (map_of p0 INFORMIX_SQLI_SERVER) = None
                         then obj_set INFORMIX_SQLI_SERVER sv p0 else p0);
               p2 = fold obj_del LEGACY_KEYS p1;
               port = param_trim p2 ''port'';
               p3 = (if tls then
                       obj_set INFORMIX_PORT_REVIEW ''1''
                         (if truthy (map_of p2 ''tls'') = None then obj_set ''tls'' ''verify-ca'' p2 else p2)
                     else if port = [] \<or> port = INFORMIX_SQLI_PORT then obj_set ''port'' INFORMIX_DRDA_PORT p2
                     else if port \<noteq> INFORMIX_DRDA_PORT then obj_set INFORMIX_PORT_REVIEW ''1'' p2
                     else p2)
           in c\<lparr>cn_params := p3\<rparr>)"

section \<open>What the lists show\<close>

definition ENGINE_MONOGRAM :: "(string \<times> string) list" where
  "ENGINE_MONOGRAM = [(''sqlite'', ''SQ''), (''mysql'', ''MY''), (''mariadb'', ''MY''), (''postgres'', ''PG''),
     (''postgresql'', ''PG''), (''informix'', ''IFX''), (''mongodb'', ''MG''), (''mssql'', ''MS''), (''sqlserver'', ''MS'')]"

definition engine_monogram :: "string \<Rightarrow> string" where
  "engine_monogram driver = default ''DB'' (map_of ENGINE_MONOGRAM (to_lower driver))"

definition default_connection_name :: "connection \<Rightarrow> string" where
  "default_connection_name c =
     (let val = param_trim (cn_params c); path = val ''path'' in
      if path \<noteq> [] then
        (let parts = filter (\<lambda>s. s \<noteq> [])
               (split_on CHR ''/'' (map (\<lambda>ch. if ch = CHR 0x5C then CHR ''/'' else ch) path))
         in if parts = [] then path else last parts)
      else let db = val ''database''; host = val ''host'' in
        if db \<noteq> [] \<and> host \<noteq> [] then db @ '' @ '' @ host
        else if db \<noteq> [] then db else host)"

definition connection_target :: "string \<Rightarrow> string obj \<Rightarrow> string" where
  "connection_target driver params =
     (let val = param_trim params; d = to_lower driver in
      if d = ''sqlite'' then val ''path''
      else let host = val ''host''; port = val ''port'';
               where1 = (if port \<noteq> [] then join '':'' (filter (\<lambda>s. s \<noteq> []) [host, port]) else host);
               extra = (if d = ''mssql'' then val ''instance'' else []);
               where2 = (if extra \<noteq> [] then (if where1 \<noteq> [] then where1 @ ''/'' @ extra else extra) else where1);
               db = val ''database''
           in if db \<noteq> [] \<and> where2 \<noteq> [] then db @ '' @ '' @ where2
              else if db \<noteq> [] then db else where2)"

text \<open>\<open>prod\<close>, \<open>production\<close> or its Spanish form (with or without the accented o, U+00F3) at the
  start of the group, as a whole word.\<close>

definition PRODUCTION_GROUP :: re where
  "PRODUCTION_GROUP = seqs [Bol, alts [liti ''prod'',
     seqs [liti ''producci'', Cls (\<lambda>c. lower_char c = CHR ''o'' \<or> lower_char c = CHR 0xF3), liti ''n''],
     liti ''production''], WordB]"

definition has_production_color :: "string option \<Rightarrow> bool" where
  "has_production_color color \<longleftrightarrow> to_lower (default [] color) = hd CONNECTION_COLORS"

definition is_production_connection :: "string option \<Rightarrow> string option \<Rightarrow> bool" where
  "is_production_connection color grp \<longleftrightarrow>
     has_production_color color \<or> re_test PRODUCTION_GROUP (trim (default [] grp))"

definition mark_production :: "connection \<Rightarrow> bool \<Rightarrow> connection" where
  "mark_production c on =
     (if on then c\<lparr>cn_color := Some (hd CONNECTION_COLORS)\<rparr>
      else if has_production_color (cn_color c) then c\<lparr>cn_color := None\<rparr> else c)"

text \<open>\<open>replace(/^\[|\]$/g, "")\<close>.\<close>

definition strip_brackets :: "string \<Rightarrow> string" where
  "strip_brackets s =
     (let t = (case s of c # u \<Rightarrow> if c = CHR ''['' then u else s | [] \<Rightarrow> [])
      in if t \<noteq> [] \<and> last t = CHR '']'' then butlast t else t)"

definition ends_with :: "string \<Rightarrow> string \<Rightarrow> bool" where
  "ends_with p s \<longleftrightarrow> starts_with (rev p) (rev s)"

definition IPV4_RE :: re where
  "IPV4_RE = (let d = Rep 1 (Some 3) True (Cls is_digit); dt = one CHR ''.'' in
     seqs [Bol, Grp 1 d, dt, Grp 2 d, dt, d, dt, d, Eol])"

definition LOCAL_V6_RE :: re where
  "LOCAL_V6_RE = seqs [Bol, alts [lit ''fc'', lit ''fd'',
       seqs [lit ''fe'', Cls (\<lambda>c. c \<in> set ''89ab'')]],
     Rep 0 (Some 2) True (Cls (\<lambda>c. is_digit c \<or> c \<in> set ''abcdef'')), one CHR '':'']"

definition uses_local_network :: "string obj \<Rightarrow> bool" where
  "uses_local_network params \<longleftrightarrow>
     (let raw = (case truthy (map_of params ''ssh_host'') of Some h \<Rightarrow> h | None \<Rightarrow> param params ''host'');
          host = strip_brackets (to_lower (trim raw))
      in if ends_with ''.local'' host then True
         else case (re_group IPV4_RE host 1, re_group IPV4_RE host 2) of
           (Some ga, Some gb) \<Rightarrow>
             let a = digits_val 0 ga; b = digits_val 0 gb in
             a = 10 \<or> (a = 172 \<and> b \<ge> 16 \<and> b \<le> 31) \<or> (a = 192 \<and> b = 168) \<or> (a = 169 \<and> b = 254)
         | _ \<Rightarrow> re_test LOCAL_V6_RE host)"

section \<open>Groups\<close>

definition group_of :: "connection \<Rightarrow> string" where
  "group_of c = trim (default [] (cn_group c))"

definition connection_groups :: "(string \<Rightarrow> string \<Rightarrow> int) \<Rightarrow> connection list \<Rightarrow> string list" where
  "connection_groups lc cs =
     sort_by (\<lambda>a b. lc a b \<le> 0) (uniq (filter (\<lambda>g. g \<noteq> []) (map group_of cs)))"

definition group_connections ::
    "(string \<Rightarrow> string \<Rightarrow> int) \<Rightarrow> connection list \<Rightarrow> (string option \<times> connection list) list" where
  "group_connections lc cs =
     (let loose = filter (\<lambda>c. group_of c = []) cs in
      (if length loose > 0 then [(None, loose)] else []) @
      map (\<lambda>n. (Some n, filter (\<lambda>c. group_of c = n) cs)) (connection_groups lc cs))"

definition set_connection_group :: "connection list \<Rightarrow> string \<Rightarrow> string \<Rightarrow> connection list" where
  "set_connection_group cs i grp =
     map (\<lambda>c. if cn_id c = i then c\<lparr>cn_group := Some (trim grp)\<rparr> else c) cs"

section \<open>The saved list\<close>

definition next_connection_id :: "connection list \<Rightarrow> string" where
  "next_connection_id cs = next_seq_id ''conn-'' (map cn_id cs)"

definition upsert_connection :: "connection list \<Rightarrow> connection \<Rightarrow> connection list" where
  "upsert_connection cs c =
     (case find_index (\<lambda>x. cn_id x = cn_id c) cs of None \<Rightarrow> cs @ [c] | Some k \<Rightarrow> cs[k := c])"

definition remove_connection :: "connection list \<Rightarrow> string \<Rightarrow> connection list" where
  "remove_connection cs i = filter (\<lambda>c. cn_id c \<noteq> i) cs"

definition restore_connection :: "connection list \<Rightarrow> connection \<Rightarrow> int \<Rightarrow> connection list" where
  "restore_connection cs c index =
     (if list_ex (\<lambda>x. cn_id x = cn_id c) cs then cs
      else let k = nat (max 0 (min index (int (length cs)))) in take k cs @ [c] @ drop k cs)"

section \<open>Storage and import\<close>

text \<open>A whole number of at least one, from a number or from its text.\<close>

definition normalize_keep_alive :: "json option \<Rightarrow> int option" where
  "normalize_keep_alive v =
     (case v of
        Some (JNum n) \<Rightarrow> if n \<ge> 1 then Some n else None
      | Some (JStr s) \<Rightarrow> (case js_Number s of Num r \<Rightarrow> if r \<ge> 1 then Some \<lfloor>r\<rfloor> else None | _ \<Rightarrow> None)
      | _ \<Rightarrow> None)"

text \<open>\<open>Object.entries\<close> of an object or an array; anything else is not an object.\<close>

definition json_entries :: "json \<Rightarrow> (string \<times> json) list option" where
  "json_entries j =
     (case j of JObj ob \<Rightarrow> Some ob
      | JArr xs \<Rightarrow> Some (map (\<lambda>(i, x). (show_nat i, x)) (index_list xs))
      | _ \<Rightarrow> None)"

definition string_params :: "(string \<times> json) list \<Rightarrow> string obj" where
  "string_params es =
     obj_of (concat (map (\<lambda>(k, v). case v of JStr s \<Rightarrow> [(k, s)] | _ \<Rightarrow> []) es))"

definition coerce_connection :: "json \<Rightarrow> connection option" where
  "coerce_connection item =
     (case (json_str (json_field item ''id''), json_str (json_field item ''name''),
            json_str (json_field item ''driver''), Option.bind (json_field item ''params'') json_entries) of
        (Some i, Some name, Some driver, Some es) \<Rightarrow>
          Some (migrate_informix_connection
            \<lparr>cn_id = i, cn_name = name, cn_driver = driver, cn_params = string_params es,
             cn_color = truthy (json_str (json_field item ''color'')),
             cn_group = truthy (map_option trim (json_str (json_field item ''group''))),
             cn_icon = truthy (json_str (json_field item ''icon'')),
             cn_keep_alive = normalize_keep_alive (json_field item ''keepAlive''),
             cn_safe = parse_safe_mode (json_str (json_field item ''safeMode'')),
             cn_env = parse_env (json_str (json_field item ''env''))\<rparr> False)
      | _ \<Rightarrow> None)"

definition params_json :: "string obj \<Rightarrow> json" where
  "params_json ps = JObj (map (\<lambda>(k, v). (k, JStr v)) ps)"

definition safe_mode_text :: "safe_mode \<Rightarrow> string" where
  "safe_mode_text m = (case m of ReadOnly \<Rightarrow> ''readOnly'' | Confirm \<Rightarrow> ''confirm'')"

definition env_text :: "conn_env \<Rightarrow> string" where
  "env_text e = (case e of Dev \<Rightarrow> ''dev'' | Test \<Rightarrow> ''test'' | Prod \<Rightarrow> ''prod'')"

definition json_opt :: "string \<Rightarrow> ('a \<Rightarrow> json) \<Rightarrow> 'a option \<Rightarrow> (string \<times> json) list" where
  "json_opt k f x = (case x of None \<Rightarrow> [] | Some v \<Rightarrow> [(k, f v)])"

text \<open>\<open>JSON.stringify\<close> of a list; undefined fields are left out.\<close>

definition connection_json :: "connection \<Rightarrow> json" where
  "connection_json c = JObj (
     [(''id'', JStr (cn_id c)), (''name'', JStr (cn_name c)), (''driver'', JStr (cn_driver c)),
      (''params'', params_json (cn_params c))]
     @ json_opt ''color'' JStr (cn_color c) @ json_opt ''group'' JStr (cn_group c)
     @ json_opt ''icon'' JStr (cn_icon c) @ json_opt ''keepAlive'' JNum (cn_keep_alive c)
     @ json_opt ''safeMode'' (\<lambda>m. JStr (safe_mode_text m)) (cn_safe c)
     @ json_opt ''env'' (\<lambda>e. JStr (env_text e)) (cn_env c))"

definition serialize_connections :: "connection list \<Rightarrow> json" where
  "serialize_connections cs = JArr (map connection_json cs)"

text \<open>\<open>parseConnections\<close> of the parsed text; \<open>None\<close> when there is none or it does not parse.\<close>

definition parse_connections :: "json option \<Rightarrow> connection list" where
  "parse_connections raw =
     (case raw of Some (JArr items) \<Rightarrow>
          concat (map (\<lambda>item. case coerce_connection item of None \<Rightarrow> [] | Some c \<Rightarrow> [c]) items)
      | _ \<Rightarrow> [])"

definition CONNECTIONS_FILE_VERSION :: int where "CONNECTIONS_FILE_VERSION = 1"

text \<open>\<open>String(v)\<close> of a JSON value.\<close>

fun json_text :: "json \<Rightarrow> string" where
  "json_text JNull = ''null''"
| "json_text (JBool b) = (if b then ''true'' else ''false'')"
| "json_text (JNum n) = show_int n"
| "json_text (JStr s) = s"
| "json_text (JArr xs) = join '','' (map (\<lambda>x. if x = JNull then [] else json_text x) xs)"
| "json_text (JObj ob) = ''[object Object]''"

definition parse_connections_file :: "json option \<Rightarrow> (string, json list) result" where
  "parse_connections_file raw =
     (case raw of None \<Rightarrow> Inl (''El archivo no es JSON v'' @ CHR 0xE1 # ''lido.'')
      | Some (JObj ob) \<Rightarrow>
          (if map_of ob ''version'' \<noteq> Some (JNum CONNECTIONS_FILE_VERSION)
           then Inl (''Versi'' @ CHR 0xF3 # ''n de archivo no soportada ('' @
             (case map_of ob ''version'' of None \<Rightarrow> ''desconocida'' | Some JNull \<Rightarrow> ''desconocida''
              | Some v \<Rightarrow> json_text v) @ '').'')
           else case map_of ob ''connections'' of Some (JArr xs) \<Rightarrow> Inr xs
             | _ \<Rightarrow> Inl ''El archivo no contiene una lista de conexiones.'')
      | Some _ \<Rightarrow> Inl ''Formato de archivo no reconocido.'')"

record merge_summary =
  ms_added :: nat
  ms_updated :: nat
  ms_skipped :: nat

definition norm_name :: "string \<Rightarrow> string" where
  "norm_name s = to_lower (trim s)"

definition merge_match :: "connection list \<Rightarrow> connection \<Rightarrow> connection option" where
  "merge_match cs c =
     (let by_id = (if trim (cn_id c) \<noteq> [] then List.find (\<lambda>e. cn_id e = cn_id c) cs else None);
          by_name = List.find (\<lambda>e. norm_name (cn_name e) = norm_name (cn_name c)) cs
      in case by_id of
           Some e \<Rightarrow> if norm_name (cn_name e) = norm_name (cn_name c) then Some e else by_name
         | None \<Rightarrow> by_name)"

type_synonym merge_state = "connection list \<times> merge_summary \<times> string list"

definition merge_step :: "bool \<Rightarrow> json \<Rightarrow> merge_state \<Rightarrow> merge_state" where
  "merge_step lenient item st =
     (case st of (cs, sm, tids) \<Rightarrow>
        (case coerce_connection item of
           None \<Rightarrow> (cs, sm\<lparr>ms_skipped := ms_skipped sm + 1\<rparr>, tids)
         | Some c \<Rightarrow>
             if (if lenient then trim (cn_name c) = [] else length (validate_connection (\<lambda>k _. k) c) > 0)
             then (cs, sm\<lparr>ms_skipped := ms_skipped sm + 1\<rparr>, tids)
             else (case merge_match cs c of
               Some m \<Rightarrow> (map (\<lambda>e. if cn_id e = cn_id m then c\<lparr>cn_id := cn_id m\<rparr> else e) cs,
                          sm\<lparr>ms_updated := ms_updated sm + 1\<rparr>, tids @ [cn_id m])
             | None \<Rightarrow>
                 let i = (if trim (cn_id c) = [] \<or> list_ex (\<lambda>e. cn_id e = cn_id c) cs
                          then next_connection_id cs else cn_id c)
                 in (cs @ [c\<lparr>cn_id := i\<rparr>], sm\<lparr>ms_added := ms_added sm + 1\<rparr>, tids @ [i]))))"

definition merge_connections :: "connection list \<Rightarrow> json list \<Rightarrow> bool \<Rightarrow> merge_state" where
  "merge_connections existing incoming lenient =
     fold (merge_step lenient) incoming
       (existing, \<lparr>ms_added = 0, ms_updated = 0, ms_skipped = 0\<rparr>, [])"

definition import_connections_file ::
    "connection list \<Rightarrow> json option \<Rightarrow> (string, merge_state) result" where
  "import_connections_file existing raw =
     (case parse_connections_file raw of Inl e \<Rightarrow> Inl e
      | Inr incoming \<Rightarrow> Inr (merge_connections existing incoming False))"

section \<open>Identifiers\<close>

lemma next_connection_id_fresh: "next_connection_id cs \<notin> cn_id ` set cs"
  using next_seq_id_fresh [of "''conn-''" "map cn_id cs"] by (simp add: next_connection_id_def)

section \<open>Merging\<close>

definition merge_ok :: "connection list \<Rightarrow> nat \<Rightarrow> merge_state \<Rightarrow> bool" where
  "merge_ok existing n st \<longleftrightarrow>
     (case st of (cs, sm, tids) \<Rightarrow>
        distinct (map cn_id cs) \<and>
        take (length existing) (map cn_id cs) = map cn_id existing \<and>
        length cs = length existing + ms_added sm \<and>
        ms_added sm + ms_updated sm + ms_skipped sm = n \<and>
        length tids = ms_added sm + ms_updated sm \<and>
        list_all (\<lambda>i. i \<in> cn_id ` set cs) tids)"

lemma merge_match_mem: "merge_match cs c = Some m \<Longrightarrow> m \<in> set cs"
  by (auto simp: merge_match_def Let_def split: option.splits if_splits dest!: find_Some_mem)

lemma map_id_replace: "map cn_id (map (\<lambda>e. if cn_id e = i then c\<lparr>cn_id := i\<rparr> else e) cs) = map cn_id cs"
  by simp

lemma merge_step_ok:
  assumes "merge_ok existing n st"
  shows "merge_ok existing (Suc n) (merge_step lenient item st)"
proof -
  obtain cs sm tids where st: "st = (cs, sm, tids)" by (cases st)
  show ?thesis
  proof (cases "coerce_connection item")
    case None
    with assms show ?thesis by (simp add: st merge_step_def merge_ok_def)
  next
    case (Some c)
    show ?thesis
    proof (cases "if lenient then trim (cn_name c) = [] else length (validate_connection (\<lambda>k _. k) c) > 0")
      case True
      with assms Some show ?thesis by (auto simp: st merge_step_def merge_ok_def)
    next
      case invalid: False
      show ?thesis
      proof (cases "merge_match cs c")
        case (Some m)
        define cs' where "cs' = map (\<lambda>e. if cn_id e = cn_id m then c\<lparr>cn_id := cn_id m\<rparr> else e) cs"
        have ids: "map cn_id cs' = map cn_id cs" unfolding cs'_def by (rule map_id_replace)
        then have len: "length cs' = length cs" and img: "cn_id ` set cs' = cn_id ` set cs"
          by (auto dest: map_eq_imp_length_eq simp flip: set_map)
        have e: "merge_step lenient item st =
            (cs', sm\<lparr>ms_updated := ms_updated sm + 1\<rparr>, tids @ [cn_id m])"
          using \<open>coerce_connection item = Some c\<close> invalid Some
          by (auto simp: st merge_step_def cs'_def)
        have "cn_id m \<in> cn_id ` set cs" using merge_match_mem [OF Some] by simp
        with assms show ?thesis unfolding e by (simp add: merge_ok_def st ids len img)
      next
        case None
        define i where "i = (if trim (cn_id c) = [] \<or> list_ex (\<lambda>e. cn_id e = cn_id c) cs
          then next_connection_id cs else cn_id c)"
        have i: "i \<notin> cn_id ` set cs"
          using next_connection_id_fresh [of cs] by (auto simp: i_def list_ex_iff)
        have e: "merge_step lenient item st =
            (cs @ [c\<lparr>cn_id := i\<rparr>], sm\<lparr>ms_added := ms_added sm + 1\<rparr>, tids @ [i])"
          using \<open>coerce_connection item = Some c\<close> invalid None
          by (auto simp: st merge_step_def i_def Let_def)
        have "take (length existing) (map cn_id (cs @ [x])) = take (length existing) (map cn_id cs)" for x
          using assms by (simp add: st merge_ok_def)
        with assms i show ?thesis unfolding e by (auto simp: merge_ok_def st list_all_iff)
      qed
    qed
  qed
qed

lemma merge_fold_ok:
  "merge_ok existing n st \<Longrightarrow> merge_ok existing (n + length items) (fold (merge_step lenient) items st)"
proof (induction items arbitrary: n st)
  case (Cons item items)
  from Cons.IH [OF merge_step_ok [OF Cons.prems]] show ?case by simp
qed simp

section \<open>Migration\<close>

lemma has_key_fold_del: "has_key (fold obj_del ks ob) k \<longleftrightarrow> has_key ob k \<and> k \<notin> set ks"
  by (induction ks arbitrary: ob) (auto simp: has_key_def)

lemma map_of_fold_del: "map_of (fold obj_del ks ob) k = (if k \<in> set ks then None else map_of ob k)"
  by (induction ks arbitrary: ob) auto

lemma has_key_set: "has_key (obj_set k v ob) k' \<longleftrightarrow> k' = k \<or> has_key ob k'"
  by (simp add: has_key_def)

lemma migrated_no_legacy:
  assumes "cn_driver c = ''informix''" "force \<or> list_ex (has_key (cn_params c)) LEGACY_KEYS" "k \<in> set LEGACY_KEYS"
  shows "\<not> has_key (cn_params (migrate_informix_connection c force)) k"
proof -
  have ne: "k \<noteq> INFORMIX_PORT_REVIEW" "k \<noteq> ''tls''" "k \<noteq> ''port''"
    using assms(3) by (auto simp: LEGACY_KEYS_def INFORMIX_PORT_REVIEW_def)
  have "\<not> has_key (fold obj_del LEGACY_KEYS p) k" for p :: "string obj"
    using assms(3) by (simp add: has_key_fold_del)
  then show ?thesis
    using assms(1,2) ne by (simp add: migrate_informix_connection_def Let_def has_key_set)
qed

lemma migrate_cases:
  "migrate_informix_connection c force = c \<or>
   (\<forall>k \<in> set LEGACY_KEYS. \<not> has_key (cn_params (migrate_informix_connection c force)) k)"
  using migrated_no_legacy [of c force]
  by (cases "cn_driver c = ''informix'' \<and> (force \<or> list_ex (has_key (cn_params c)) LEGACY_KEYS)")
     (auto simp: migrate_informix_connection_def)

section \<open>Storage\<close>

text \<open>A connection in the form the application stores: no blank optional text, a trimmed group,
  a whole keep-alive, parameters in listing order, nothing left to migrate.\<close>

definition stored_connection :: "connection \<Rightarrow> bool" where
  "stored_connection c \<longleftrightarrow> listed (cn_params c) \<and> cn_color c \<noteq> Some [] \<and> cn_icon c \<noteq> Some [] \<and>
     (case cn_group c of None \<Rightarrow> True | Some g \<Rightarrow> g \<noteq> [] \<and> trim g = g) \<and>
     (case cn_keep_alive c of None \<Rightarrow> True | Some n \<Rightarrow> n \<ge> 1) \<and>
     migrate_informix_connection c False = c"

lemma map_of_json_opt: "map_of (json_opt k f x) k' = (if k' = k then map_option f x else None)"
  by (cases x) (auto simp: json_opt_def)

lemma connection_json_fields:
  "json_field (connection_json c) ''id'' = Some (JStr (cn_id c))"
  "json_field (connection_json c) ''name'' = Some (JStr (cn_name c))"
  "json_field (connection_json c) ''driver'' = Some (JStr (cn_driver c))"
  "json_field (connection_json c) ''params'' = Some (params_json (cn_params c))"
  "json_field (connection_json c) ''color'' = map_option JStr (cn_color c)"
  "json_field (connection_json c) ''group'' = map_option JStr (cn_group c)"
  "json_field (connection_json c) ''icon'' = map_option JStr (cn_icon c)"
  "json_field (connection_json c) ''keepAlive'' = map_option JNum (cn_keep_alive c)"
  "json_field (connection_json c) ''safeMode'' = map_option (\<lambda>m. JStr (safe_mode_text m)) (cn_safe c)"
  "json_field (connection_json c) ''env'' = map_option (\<lambda>e. JStr (env_text e)) (cn_env c)"
  by (simp_all add: connection_json_def json_field_def map_of_json_opt map_add_def split: option.split)

lemma json_str_map [simp]: "json_str (map_option JStr x) = x"
  by (cases x) (simp_all add: json_str_def)

lemma string_params_json: "listed ps \<Longrightarrow> string_params (map (\<lambda>(k, v). (k, JStr v)) ps) = ps"
proof -
  assume "listed ps"
  moreover have "concat (map (\<lambda>(k, v). case v of JStr s \<Rightarrow> [(k, s)] | _ \<Rightarrow> []) (map (\<lambda>(k, v). (k, JStr v)) ps)) = ps"
    by (induction ps) auto
  ultimately show ?thesis by (simp add: string_params_def listed_def)
qed

lemma parse_safe_text: "parse_safe_mode (json_str (map_option (\<lambda>m. JStr (safe_mode_text m)) x)) = x"
  by (cases x) (auto simp: parse_safe_mode_def json_str_def safe_mode_text_def split: safe_mode.split)

lemma parse_env_text: "parse_env (json_str (map_option (\<lambda>e. JStr (env_text e)) x)) = x"
  by (cases x) (auto simp: parse_env_def json_str_def env_text_def split: conn_env.split)

lemma coerce_connection_json:
  assumes "stored_connection c"
  shows "coerce_connection (connection_json c) = Some c"
proof -
  have 1: "truthy (cn_color c) = cn_color c" "truthy (cn_icon c) = cn_icon c"
    "truthy (map_option trim (cn_group c)) = cn_group c"
    using assms by (auto simp: stored_connection_def truthy_def split: option.splits)
  have 2: "normalize_keep_alive (map_option JNum (cn_keep_alive c)) = cn_keep_alive c"
    using assms by (auto simp: stored_connection_def normalize_keep_alive_def split: option.splits)
  have 3: "Option.bind (Some (params_json (cn_params c))) json_entries =
      Some (map (\<lambda>(k, v). (k, JStr v)) (cn_params c))"
    by (simp add: params_json_def json_entries_def)
  have 4: "string_params (map (\<lambda>(k, v). (k, JStr v)) (cn_params c)) = cn_params c"
    using assms by (intro string_params_json) (simp add: stored_connection_def)
  have 5: "json_str (Some (JStr s)) = Some s" for s by (simp add: json_str_def)
  have 6: "\<lparr>cn_id = cn_id c, cn_name = cn_name c, cn_driver = cn_driver c, cn_params = cn_params c,
      cn_color = cn_color c, cn_group = cn_group c, cn_icon = cn_icon c, cn_keep_alive = cn_keep_alive c,
      cn_safe = cn_safe c, cn_env = cn_env c\<rparr> = c" by simp
  have "migrate_informix_connection c False = c" using assms by (simp add: stored_connection_def)
  then show ?thesis
    unfolding coerce_connection_def connection_json_fields 3 5 json_str_map 1 2 4 parse_safe_text
      parse_env_text prod.case option.case 6 by simp
qed

lemma build_dsn_schema:
  assumes "driver_schema_for (cn_driver c) = Some sch"
  shows "map_of (build_dsn c) k =
    (if k \<in> df_key ` set (ds_fields sch) then truthy (map_of (cn_params c) k) else None)"
proof -
  have "map_of (rev (concat (map (\<lambda>f. case truthy (map_of (cn_params c) (df_key f)) of
      None \<Rightarrow> [] | Some v \<Rightarrow> [(df_key f, v)]) fs))) k =
    (if k \<in> df_key ` set fs then truthy (map_of (cn_params c) k) else None)" for fs
    by (induction fs) (auto simp: map_add_def split: option.split)
  then show ?thesis unfolding build_dsn_def assms option.case map_of_obj_of .
qed

section \<open>Properties\<close>

text \<open>Importing a list of connections never drops or reorders a saved one and never makes two
  connections share an identifier: the saved identifiers stay, in order, the new ones follow,
  the summary accounts for every imported entry and every identifier it reports is in the
  result.\<close>

theorem merge_keeps_saved:
  assumes "distinct (map cn_id existing)"
    and "merge_connections existing incoming lenient = (cs, sm, tids)"
  shows "distinct (map cn_id cs) \<and> (\<exists>new. map cn_id cs = map cn_id existing @ new \<and> length new = ms_added sm) \<and>
    ms_added sm + ms_updated sm + ms_skipped sm = length incoming \<and>
    length tids = ms_added sm + ms_updated sm \<and> set tids \<subseteq> cn_id ` set cs"
proof -
  have "merge_ok existing 0 (existing, \<lparr>ms_added = 0, ms_updated = 0, ms_skipped = 0\<rparr>, [])"
    using assms(1) by (simp add: merge_ok_def)
  from merge_fold_ok [OF this, of incoming lenient] assms(2)
  have ok: "merge_ok existing (length incoming) (cs, sm, tids)" by (simp add: merge_connections_def)
  have "map cn_id cs = map cn_id existing @ drop (length existing) (map cn_id cs)"
  proof -
    have "take (length existing) (map cn_id cs) = map cn_id existing" using ok by (simp add: merge_ok_def)
    then show ?thesis by (metis append_take_drop_id)
  qed
  moreover have "length (drop (length existing) (map cn_id cs)) = ms_added sm"
    using ok by (simp add: merge_ok_def)
  ultimately show ?thesis using ok by (auto simp: merge_ok_def list_all_iff)
qed

theorem merge_keeps_saved_witness:
  "distinct (map cn_id (fst (merge_connections
      [\<lparr>cn_id = ''conn-1'', cn_name = ''a'', cn_driver = ''sqlite'', cn_params = [(''path'', ''x'')], cn_color = None,
        cn_group = None, cn_icon = None, cn_keep_alive = None, cn_safe = None, cn_env = None\<rparr>]
      [JObj [(''id'', JStr ''conn-1''), (''name'', JStr ''b''), (''driver'', JStr ''sqlite''),
        (''params'', JObj [(''path'', JStr ''y'')])], JNull] False)))"
  (is "distinct (map cn_id (fst (merge_connections ?e ?i False)))")
proof -
  obtain cs sm tids where m: "merge_connections ?e ?i False = (cs, sm, tids)" by (rule prod_cases3)
  have "distinct (map cn_id ?e)" by simp
  from merge_keeps_saved [OF this m] m show ?thesis by simp
qed

text \<open>Undoing the removal of a connection puts the list back exactly: the same connection with
  every field, at the same place.\<close>

theorem undo_removal:
  assumes "distinct (map cn_id cs)" and "k < length cs"
  shows "restore_connection (remove_connection cs (cn_id (cs ! k))) (cs ! k) (int k) = cs"
proof -
  have spl: "cs = take k cs @ cs ! k # drop (Suc k) cs" using assms(2) by (rule id_take_nth_drop)
  have d: "distinct (map cn_id (take k cs @ cs ! k # drop (Suc k) cs))" using assms(1) spl by simp
  have "remove_connection (take k cs @ cs ! k # drop (Suc k) cs) (cn_id (cs ! k)) = take k cs @ drop (Suc k) cs"
  proof -
    have "filter (\<lambda>c. cn_id c \<noteq> cn_id (cs ! k)) (take k cs) = take k cs"
      "filter (\<lambda>c. cn_id c \<noteq> cn_id (cs ! k)) (drop (Suc k) cs) = drop (Suc k) cs"
      using d by (auto intro!: filter_True simp: image_iff)
    then show ?thesis by (simp add: remove_connection_def)
  qed
  then have r: "remove_connection cs (cn_id (cs ! k)) = take k cs @ drop (Suc k) cs" using spl by simp
  moreover have "\<not> list_ex (\<lambda>x. cn_id x = cn_id (cs ! k)) (take k cs @ drop (Suc k) cs)"
    using d by (auto simp: list_ex_iff image_iff)
  moreover have "length (take k cs) = k" using assms(2) by simp
  ultimately show ?thesis using spl assms(2)
    by (simp add: restore_connection_def Let_def)
qed

theorem undo_removal_witness:
  "\<exists>c d. restore_connection (remove_connection [c, d] ''conn-1'') c 0 = [c, d]"
proof (intro exI)
  let ?c = "\<lparr>cn_id = ''conn-1'', cn_name = ''a'', cn_driver = ''sqlite'', cn_params = [], cn_color = None,
        cn_group = None, cn_icon = None, cn_keep_alive = None, cn_safe = None, cn_env = None\<rparr>"
  let ?d = "?c\<lparr>cn_id := ''conn-2''\<rparr>"
  show "restore_connection (remove_connection [?c, ?d] ''conn-1'') ?c 0 = [?c, ?d]"
    using undo_removal [of "[?c, ?d]" 0] by simp
qed

lemma parse_serialize_connections:
  assumes "\<forall>c \<in> set cs. stored_connection c"
  shows "parse_connections (Some (serialize_connections cs)) = cs"
proof -
  have "concat (map (\<lambda>item. case coerce_connection item of None \<Rightarrow> [] | Some c \<Rightarrow> [c]) (map connection_json cs)) = cs"
    using assms by (induction cs) (auto simp: coerce_connection_json)
  then show ?thesis by (simp add: parse_connections_def serialize_connections_def)
qed

text \<open>A saved list of connections read back from storage is the list that was saved, every
  field included.\<close>

theorem connections_restored:
  assumes "\<And>c. c \<in> set cs \<Longrightarrow> stored_connection c"
  shows "parse_connections (Some (serialize_connections cs)) = cs"
  using assms by (intro parse_serialize_connections) simp

theorem connections_restored_witness:
  "\<exists>c. cn_params c = [(''host'', ''h'')] \<and> cn_safe c = Some ReadOnly \<and>
     parse_connections (Some (serialize_connections [c])) = [c]"
proof (intro exI conjI)
  let ?c = "\<lparr>cn_id = ''conn-1'', cn_name = ''a'', cn_driver = ''mysql'', cn_params = [(''host'', ''h'')], cn_color = None,
        cn_group = Some ''g'', cn_icon = None, cn_keep_alive = Some 30, cn_safe = Some ReadOnly, cn_env = Some Prod\<rparr>"
  have "stored_connection ?c" by code_simp
  then show "parse_connections (Some (serialize_connections [?c])) = [?c]"
    by (intro connections_restored) simp
qed simp_all

text \<open>Migrating an old Informix connection happens once: none of the old keys is left, the
  server name the fallback needs is kept, and migrating again changes nothing.\<close>

theorem migration_runs_once:
  "migrate_informix_connection (migrate_informix_connection c force) False = migrate_informix_connection c force \<and>
   (cn_driver c = ''informix'' \<and> truthy (map_of (cn_params c) ''server'') = Some sv \<and>
      truthy (map_of (cn_params c) INFORMIX_SQLI_SERVER) = None \<longrightarrow>
    map_of (cn_params (migrate_informix_connection c force)) INFORMIX_SQLI_SERVER = Some sv)"
proof (intro conjI impI)
  let ?m = "migrate_informix_connection c force"
  show "migrate_informix_connection ?m False = ?m"
  proof (cases "\<forall>k \<in> set LEGACY_KEYS. \<not> has_key (cn_params ?m) k")
    case True
    then have "\<not> list_ex (has_key (cn_params ?m)) LEGACY_KEYS" by (simp add: list_ex_iff)
    then show ?thesis by (simp add: migrate_informix_connection_def [of ?m])
  next
    case False
    then have m: "?m = c" using migrate_cases [of c force] by blast
    show ?thesis
    proof (cases "cn_driver c = ''informix'' \<and> list_ex (has_key (cn_params c)) LEGACY_KEYS")
      case True
      with False migrated_no_legacy [of c force] show ?thesis by auto
    qed (use m in \<open>auto simp: migrate_informix_connection_def [of c False]\<close>)
  qed
next
  assume a: "cn_driver c = ''informix'' \<and> truthy (map_of (cn_params c) ''server'') = Some sv \<and>
    truthy (map_of (cn_params c) INFORMIX_SQLI_SERVER) = None"
  then have sv: "map_of (cn_params c) ''server'' = Some sv"
    by (simp add: truthy_def split: if_splits)
  then have "list_ex (has_key (cn_params c)) LEGACY_KEYS"
    by (simp add: LEGACY_KEYS_def has_key_map_of)
  moreover have "INFORMIX_SQLI_SERVER \<notin> set LEGACY_KEYS" "INFORMIX_SQLI_SERVER \<noteq> INFORMIX_PORT_REVIEW"
    "INFORMIX_SQLI_SERVER \<noteq> ''tls''" "INFORMIX_SQLI_SERVER \<noteq> ''port''"
    by (simp_all add: LEGACY_KEYS_def INFORMIX_SQLI_SERVER_def INFORMIX_PORT_REVIEW_def)
  ultimately show "map_of (cn_params (migrate_informix_connection c force)) INFORMIX_SQLI_SERVER = Some sv"
    using a by (simp add: migrate_informix_connection_def Let_def map_of_fold_del)
qed

theorem migration_runs_once_witness:
  "\<exists>c. cn_params (migrate_informix_connection c False) = [(''port'', ''9089''), (''sqli_server'', ''ol'')] \<and>
     map_of (cn_params (migrate_informix_connection c False)) INFORMIX_SQLI_SERVER = Some ''ol''"
proof (intro exI conjI)
  let ?c = "\<lparr>cn_id = ''conn-1'', cn_name = ''a'', cn_driver = ''informix'', cn_params = [(''server'', ''ol''), (''port'', ''9088'')],
        cn_color = None, cn_group = None, cn_icon = None, cn_keep_alive = None, cn_safe = None, cn_env = None\<rparr>"
  show "cn_params (migrate_informix_connection ?c False) = [(''port'', ''9089''), (''sqli_server'', ''ol'')]"
    by code_simp
  have "cn_driver ?c = ''informix'' \<and> truthy (map_of (cn_params ?c) ''server'') = Some ''ol'' \<and>
      truthy (map_of (cn_params ?c) INFORMIX_SQLI_SERVER) = None" by code_simp
  with migration_runs_once [of ?c False "''ol''"]
  show "map_of (cn_params (migrate_informix_connection ?c False)) INFORMIX_SQLI_SERVER = Some ''ol''" by blast
qed

text \<open>What is sent to open a connection of a known engine is exactly the engine's own fields
  that have a value: nothing else of what is stored leaves, and an empty field is not sent.\<close>

theorem dsn_is_schema_fields:
  assumes "driver_schema_for (cn_driver c) = Some sch"
  shows "map_of (build_dsn c) k =
    (if k \<in> df_key ` set (ds_fields sch) then truthy (map_of (cn_params c) k) else None)"
  using assms by (rule build_dsn_schema)

theorem dsn_is_schema_fields_witness:
  "\<exists>c. cn_params c = [(''host'', ''h''), (''port_review'', ''1''), (''user'', [])] \<and>
     map_of (build_dsn c) ''host'' = Some ''h'' \<and> map_of (build_dsn c) ''port_review'' = None \<and>
     map_of (build_dsn c) ''user'' = None"
proof (intro exI conjI)
  let ?c = "\<lparr>cn_id = ''conn-1'', cn_name = ''a'', cn_driver = ''informix'',
        cn_params = [(''host'', ''h''), (''port_review'', ''1''), (''user'', [])],
        cn_color = None, cn_group = None, cn_icon = None, cn_keep_alive = None, cn_safe = None, cn_env = None\<rparr>"
  have s: "driver_schema_for (cn_driver ?c) = Some informix_schema"
    by (simp add: driver_schema_for_def DRIVER_SCHEMAS_def)
  have k1: "''host'' \<in> df_key ` set (ds_fields informix_schema)" by code_simp
  have k2: "''port_review'' \<notin> df_key ` set (ds_fields informix_schema)" by code_simp
  show "map_of (build_dsn ?c) ''host'' = Some ''h''" "map_of (build_dsn ?c) ''port_review'' = None"
    "map_of (build_dsn ?c) ''user'' = None"
    using dsn_is_schema_fields [OF s] k1 k2 by (simp_all add: truthy_def)
qed simp

end
