(* ===== verification/Json.thy ===== *)
theory Json
  imports Prelude
begin

text \<open>\<open>JSON.stringify\<close> of the model's JSON values, with the escapes of its string quoting.\<close>

definition hex_digit :: "nat \<Rightarrow> char" where
  "hex_digit n = (if n < 10 then char_of (48 + n) else char_of (87 + n))"

definition json_escape :: "char \<Rightarrow> string" where
  "json_escape c =
     (let k = code c in
      if k = 34 then [CHR 0x5C, CHR 0x22]
      else if k = 92 then [CHR 0x5C, CHR 0x5C]
      else if k = 8 then CHR 0x5C # ''b''
      else if k = 9 then CHR 0x5C # ''t''
      else if k = 10 then CHR 0x5C # ''n''
      else if k = 12 then CHR 0x5C # ''f''
      else if k = 13 then CHR 0x5C # ''r''
      else if k < 32 then CHR 0x5C # ''u00'' @ [hex_digit (k div 16), hex_digit (k mod 16)]
      else [c])"

definition json_quote :: "string \<Rightarrow> string" where
  "json_quote s = [CHR 0x22] @ concat (map json_escape s) @ [CHR 0x22]"

fun stringify :: "json \<Rightarrow> string" where
  "stringify JNull = ''null''"
| "stringify (JBool b) = (if b then ''true'' else ''false'')"
| "stringify (JNum n) = show_int n"
| "stringify (JStr s) = json_quote s"
| "stringify (JArr xs) = ''['' @ join '','' (map stringify xs) @ '']''"
| "stringify (JObj ob) = ''{'' @ join '','' (map (\<lambda>(k, v). json_quote k @ '':'' @ stringify v) ob) @ ''}''"

end
