(* ===== verification/KvStore.thy ===== *)
theory KvStore
  imports Prelude
begin

text \<open>
  The shared key-value storage (\<open>kvStore.ts\<close>) and what its clients rely on. The browser's
  \<open>localStorage\<close> is outside the sources: it is a parameter, a state with operations that may
  throw (\<open>None\<close>), and the laws of its contract are the assumptions of the locale
  \<open>kv_interface\<close>. The in-memory fallback of the sources satisfies them, and so does the store
  that \<open>resolveStore\<close> picks.
\<close>

section \<open>The store's operations\<close>

record ('k, 'v) kv_ops =
  kv_get :: "'k \<Rightarrow> string \<Rightarrow> 'v option option"
  kv_set :: "string \<Rightarrow> 'v \<Rightarrow> 'k \<Rightarrow> 'k option"
  kv_remove :: "string \<Rightarrow> 'k \<Rightarrow> 'k option"

text \<open>\<open>memoryStore\<close>: a \<open>Map\<close>; nothing throws.\<close>

type_synonym 'v memory = "(string \<times> 'v) list"

definition memory_ops :: "('v memory, 'v) kv_ops" where
  "memory_ops = \<lparr>kv_get = \<lambda>m k. Some (map_of m k),
     kv_set = \<lambda>k v m. Some (map_set k v m),
     kv_remove = \<lambda>k m. Some (obj_del k m)\<rparr>"

text \<open>A store that is either the browser's or the fallback.\<close>

datatype ('k, 'v) resolved = Browser 'k | Fallback "'v memory"

definition resolved_ops :: "('k, 'v) kv_ops \<Rightarrow> (('k, 'v) resolved, 'v) kv_ops" where
  "resolved_ops ls =
     \<lparr>kv_get = \<lambda>s k. (case s of Browser b \<Rightarrow> kv_get ls b k | Fallback m \<Rightarrow> kv_get memory_ops m k),
      kv_set = \<lambda>k v s. (case s of Browser b \<Rightarrow> map_option Browser (kv_set ls k v b)
                           | Fallback m \<Rightarrow> map_option Fallback (kv_set memory_ops k v m)),
      kv_remove = \<lambda>k s. (case s of Browser b \<Rightarrow> map_option Browser (kv_remove ls k b)
                           | Fallback m \<Rightarrow> map_option Fallback (kv_remove memory_ops k m))\<rparr>"

definition PROBE :: string where "PROBE = ''__quaero_probe__''"

text \<open>\<open>resolveStore\<close>: \<open>cached\<close> is the module's variable, \<open>local\<close> the browser's storage
  (\<open>None\<close> when it is missing or reading the property throws) and \<open>one\<close> the text \<open>"1"\<close>.\<close>

definition resolve_store ::
    "('k, 'v) kv_ops \<Rightarrow> 'v \<Rightarrow> 'k option \<Rightarrow> ('k, 'v) resolved option \<Rightarrow> ('k, 'v) resolved" where
  "resolve_store ls one local cached =
     (case cached of Some s \<Rightarrow> s
      | None \<Rightarrow>
          (case Option.bind local (\<lambda>b. Option.bind (kv_set ls PROBE one b) (kv_remove ls PROBE)) of
             Some b \<Rightarrow> Browser b
           | None \<Rightarrow> Fallback []))"

section \<open>The contract\<close>

locale kv_interface =
  fixes kv :: "('k, 'v) kv_ops"
  assumes get_set: "kv_set kv k v s = Some s' \<Longrightarrow> kv_get kv s' k = Some (Some v)"
    and get_other: "kv_set kv k v s = Some s' \<Longrightarrow> k' \<noteq> k \<Longrightarrow> kv_get kv s' k' = kv_get kv s k'"
    and get_removed: "kv_remove kv k s = Some s' \<Longrightarrow> kv_get kv s' k = Some None"
    and get_kept: "kv_remove kv k s = Some s' \<Longrightarrow> k' \<noteq> k \<Longrightarrow> kv_get kv s' k' = kv_get kv s k'"
begin

lemma probe_unseen:
  assumes "kv_set kv k v s = Some s1" and "kv_remove kv k s1 = Some s2" and "k' \<noteq> k"
  shows "kv_get kv s2 k' = kv_get kv s k'"
  using get_other [OF assms(1,3)] get_kept [OF assms(2,3)] by simp

end

interpretation memory: kv_interface memory_ops
  by unfold_locales (auto simp: memory_ops_def)

lemma resolved_interface:
  assumes "kv_interface ls"
  shows "kv_interface (resolved_ops ls)"
proof
  note ls = kv_interface.get_set [OF assms] kv_interface.get_other [OF assms]
    kv_interface.get_removed [OF assms] kv_interface.get_kept [OF assms]
  note mem = memory.get_set memory.get_other memory.get_removed memory.get_kept
  fix k k' v and s s' :: "('a, 'b) resolved"
  show "kv_get (resolved_ops ls) s' k = Some (Some v)" if "kv_set (resolved_ops ls) k v s = Some s'"
    using that ls(1) mem(1) by (cases s) (auto simp: resolved_ops_def)
  show "kv_get (resolved_ops ls) s' k' = kv_get (resolved_ops ls) s k'"
    if "kv_set (resolved_ops ls) k v s = Some s'" "k' \<noteq> k"
    using that ls(2) mem(2) by (cases s) (auto simp: resolved_ops_def)
  show "kv_get (resolved_ops ls) s' k = Some None" if "kv_remove (resolved_ops ls) k s = Some s'"
    using that ls(3) mem(3) by (cases s) (auto simp: resolved_ops_def)
  show "kv_get (resolved_ops ls) s' k' = kv_get (resolved_ops ls) s k'"
    if "kv_remove (resolved_ops ls) k s = Some s'" "k' \<noteq> k"
    using that ls(4) mem(4) by (cases s) (auto simp: resolved_ops_def)
qed

text \<open>The store the application ends up with, over a browser storage that is itself a map.\<close>

interpretation app: kv_interface "resolved_ops memory_ops"
  by (rule resolved_interface) (rule memory.kv_interface_axioms)

section \<open>Documents in the store\<close>

text \<open>
  Every persistence adapter of the sources loads and saves one document: \<open>load_doc\<close> is
  \<open>try { return parse(store.getItem(KEY)) } catch { return parse(null) }\<close>, \<open>save_doc\<close> is
  \<open>try { store.setItem(KEY, serialize(x)) } catch {}\<close>.
\<close>

definition load_doc :: "('k, 'v) kv_ops \<Rightarrow> string \<Rightarrow> ('v option \<Rightarrow> 'a) \<Rightarrow> 'k \<Rightarrow> 'a" where
  "load_doc kv key par s = (case kv_get kv s key of None \<Rightarrow> par None | Some raw \<Rightarrow> par raw)"

definition save_doc :: "('k, 'v) kv_ops \<Rightarrow> string \<Rightarrow> ('a \<Rightarrow> 'v) \<Rightarrow> 'a \<Rightarrow> 'k \<Rightarrow> 'k" where
  "save_doc kv key ser x s = default s (kv_set kv key (ser x) s)"

text \<open>Whether the store takes the document.\<close>

definition accepts :: "('k, 'v) kv_ops \<Rightarrow> string \<Rightarrow> ('a \<Rightarrow> 'v) \<Rightarrow> 'a \<Rightarrow> 'k \<Rightarrow> bool" where
  "accepts kv key ser x s \<longleftrightarrow> kv_set kv key (ser x) s \<noteq> None"

context kv_interface begin

lemma load_save_other:
  assumes "key' \<noteq> key"
  shows "load_doc kv key' par (save_doc kv key ser x s) = load_doc kv key' par s"
  using get_other assms by (cases "kv_set kv key (ser x) s") (auto simp: load_doc_def save_doc_def default_def)

lemma load_save:
  assumes "accepts kv key ser x s"
  shows "load_doc kv key par (save_doc kv key ser x s) = par (Some (ser x))"
  using get_set assms by (auto simp: load_doc_def save_doc_def accepts_def)

end

text \<open>A document with its reader and writer: reading back gives \<open>norm x\<close> for the documents the
  program keeps (\<open>good\<close>).\<close>

locale stored_doc = kv_interface kv
  for kv :: "('k, 'v) kv_ops" +
  fixes key :: string and ser :: "'a \<Rightarrow> 'v" and par :: "'v option \<Rightarrow> 'a"
    and good :: "'a \<Rightarrow> bool" and norm :: "'a \<Rightarrow> 'a"
  assumes par_ser: "good x \<Longrightarrow> par (Some (ser x)) = norm x"
begin

lemma load_after_save:
  assumes "good x" and "accepts kv key ser x s"
  shows "load_doc kv key par (save_doc kv key ser x s) = norm x"
  by (simp add: load_save [OF assms(2)] par_ser [OF assms(1)])

lemma refused_keeps:
  assumes "\<not> accepts kv key ser x s"
  shows "save_doc kv key ser x s = s"
  using assms by (simp add: accepts_def save_doc_def)

end

end
