(* ===== verification/Objects.thy ===== *)
theory Objects
  imports Prelude
begin

text \<open>
  Objects in the order in which JavaScript lists them: \<open>listed\<close> is characterised by an order
  on the keys, kept by setting, deleting and mapping; and sums over the entries of an object.
\<close>

section \<open>Listing order\<close>

lemma key_before_chain: "\<not> key_before c a \<Longrightarrow> key_before b a \<Longrightarrow> \<not> key_before c b"
  by (auto simp: key_before_def split: option.splits)

lemma key_before_asym: "key_before a b \<Longrightarrow> \<not> key_before b a"
  by (auto simp: key_before_def split: option.splits)

definition in_listing_order :: "string list \<Rightarrow> bool" where
  "in_listing_order ks \<longleftrightarrow> sorted_wrt (\<lambda>a b. \<not> key_before b a) ks"

lemma in_listing_order_insert:
  "in_listing_order (map fst ob) \<Longrightarrow> in_listing_order (map fst (obj_insert k v ob))"
proof (induction k v ob rule: obj_insert.induct)
  case (2 k v k' v' ob)
  have tail: "in_listing_order (map fst ob)" and hd: "\<forall>x \<in> fst ` set ob. \<not> key_before x k'"
    using 2(2) by (auto simp: in_listing_order_def)
  show ?case
  proof (cases "key_before k k'")
    case True
    then have "\<forall>x \<in> fst ` set ob. \<not> key_before x k" "\<not> key_before k' k"
      using hd key_before_chain key_before_asym by blast+
    with 2(2) True show ?thesis by (auto simp: in_listing_order_def)
  next
    case False
    have "\<forall>x \<in> fst ` set (obj_insert k v ob). \<not> key_before x k'"
      using False hd by (subst set_keys_obj_insert) auto
    with 2(1) [OF False tail] False show ?thesis by (auto simp: in_listing_order_def)
  qed
qed (simp add: in_listing_order_def)

lemma in_listing_order_set:
  "in_listing_order (map fst ob) \<Longrightarrow> in_listing_order (map fst (obj_set k v ob))"
  by (simp add: obj_set_def in_listing_order_insert)

lemma obj_insert_last:
  "\<forall>x \<in> fst ` set ob. \<not> key_before k x \<Longrightarrow> obj_insert k v ob = ob @ [(k, v)]"
  by (induction k v ob rule: obj_insert.induct) auto

lemma fold_obj_set_listed:
  assumes "wf_obj (ob @ kvs)" and "in_listing_order (map fst (ob @ kvs))"
  shows "fold (\<lambda>(k, v) ob. obj_set k v ob) kvs ob = ob @ kvs"
  using assms
proof (induction kvs arbitrary: ob)
  case (Cons kv kvs)
  obtain k v where kv: "kv = (k, v)" by (cases kv)
  have "\<not> has_key ob k" using Cons.prems(1) by (auto simp: kv wf_obj_def has_key_def)
  moreover have "\<forall>x \<in> fst ` set ob. \<not> key_before k x"
    using Cons.prems(2) by (auto simp: kv in_listing_order_def sorted_wrt_append)
  ultimately have "obj_set k v ob = ob @ [(k, v)]" by (simp add: obj_set_def obj_insert_last)
  with Cons.IH [of "ob @ [kv]"] Cons.prems show ?case by (simp add: kv)
qed simp

lemma order_fold_obj_set:
  "in_listing_order (map fst ob) \<Longrightarrow> in_listing_order (map fst (fold (\<lambda>(k, v) ob. obj_set k v ob) kvs ob))"
  by (induction kvs arbitrary: ob) (auto intro: in_listing_order_set)

lemma listed_iff: "listed ob \<longleftrightarrow> wf_obj ob \<and> in_listing_order (map fst ob)"
proof
  assume l: "listed ob"
  have "in_listing_order (map fst (obj_of ob))"
    unfolding obj_of_def by (rule order_fold_obj_set) (simp add: in_listing_order_def)
  with l wf_obj_of [of ob] show "wf_obj ob \<and> in_listing_order (map fst ob)"
    by (simp add: listed_def)
qed (use fold_obj_set_listed [of "[]" ob] in \<open>simp add: listed_def obj_of_def\<close>)

lemma listed_Nil [simp]: "listed []"
  by (simp add: listed_def obj_of_def)

lemma listed_wf: "listed ob \<Longrightarrow> wf_obj ob"
  by (simp add: listed_iff)

lemma listed_obj_set [intro]: "listed ob \<Longrightarrow> listed (obj_set k v ob)"
  by (simp add: listed_iff in_listing_order_set wf_obj_set)

lemma listed_obj_of [simp]: "listed (obj_of kvs)"
proof -
  have "listed ob \<Longrightarrow> listed (fold (\<lambda>(k, v) ob. obj_set k v ob) kvs ob)" for ob :: "'a obj"
    by (induction kvs arbitrary: ob) (auto intro: listed_obj_set)
  then show ?thesis by (simp add: obj_of_def)
qed

lemma listed_filter:
  assumes "listed ob"
  shows "listed (filter P ob)"
proof -
  have "wf_obj (filter P ob)" using assms by (auto simp: listed_iff wf_obj_def intro: distinct_map_filter)
  moreover have "in_listing_order (map fst (filter P ob))"
    using assms by (induction ob) (auto simp: listed_iff in_listing_order_def wf_obj_def)
  ultimately show ?thesis by (simp add: listed_iff)
qed

lemma listed_obj_del [intro]: "listed ob \<Longrightarrow> listed (obj_del k ob)"
  unfolding obj_del_def by (rule listed_filter)

lemma listed_same_keys: "map fst ob' = map fst ob \<Longrightarrow> listed ob' \<longleftrightarrow> listed ob"
  by (simp add: listed_iff wf_obj_def)

section \<open>Sums over the entries\<close>

lemma sum_assoc_update:
  fixes f :: "'k \<Rightarrow> 'v \<Rightarrow> int"
  assumes "map_of ob k = Some v0"
  shows "sum_list (map (\<lambda>(k, v). f k v) (assoc_update k v ob)) =
    sum_list (map (\<lambda>(k, v). f k v) ob) + f k v - f k v0"
  using assms by (induction k v ob rule: assoc_update.induct) (auto split: if_splits)

lemma sum_obj_insert:
  fixes f :: "string \<Rightarrow> 'v \<Rightarrow> int"
  shows "sum_list (map (\<lambda>(k, v). f k v) (obj_insert k v ob)) = sum_list (map (\<lambda>(k, v). f k v) ob) + f k v"
  by (induction k v ob rule: obj_insert.induct) auto

lemma sum_obj_set:
  fixes f :: "string \<Rightarrow> 'v \<Rightarrow> int"
  shows "sum_list (map (\<lambda>(k, v). f k v) (obj_set k v ob)) =
    sum_list (map (\<lambda>(k, v). f k v) ob) + f k v - (case map_of ob k of None \<Rightarrow> 0 | Some v0 \<Rightarrow> f k v0)"
  by (cases "map_of ob k") (auto simp: obj_set_def has_key_map_of sum_assoc_update sum_obj_insert)

lemma obj_del_absent: "map_of ob k = None \<Longrightarrow> obj_del k ob = ob"
  by (induction ob) (auto simp: obj_del_def split: if_splits)

lemma sum_obj_del:
  fixes f :: "'k \<Rightarrow> 'v \<Rightarrow> int"
  assumes "wf_obj ob" and "map_of ob k = Some v0"
  shows "sum_list (map (\<lambda>(k, v). f k v) (obj_del k ob)) = sum_list (map (\<lambda>(k, v). f k v) ob) - f k v0"
  using assms
proof (induction ob)
  case (Cons kv ob)
  show ?case
  proof (cases "fst kv = k")
    case True
    with Cons.prems have "map_of ob k = None" by (auto simp: wf_obj_def map_of_eq_None_iff)
    with True Cons.prems show ?thesis
      using obj_del_absent [of ob k] by (auto simp: obj_del_def)
  next
    case False
    with Cons show ?thesis by (cases kv) (auto simp: obj_del_def wf_obj_def)
  qed
qed simp

lemma filter_keys_obj_set: "\<not> P k \<Longrightarrow> filter P (map fst (obj_set k v ob)) = filter P (map fst ob)"
proof -
  assume k: "\<not> P k"
  then have "filter P (map fst (obj_insert k v ob)) = filter P (map fst ob)"
    by (induction k v ob rule: obj_insert.induct) auto
  then show ?thesis by (simp add: obj_set_def)
qed

section \<open>JSON values as truth values\<close>

definition json_truthy :: "json option \<Rightarrow> bool" where
  "json_truthy j = (case j of None \<Rightarrow> False | Some JNull \<Rightarrow> False | Some (JBool b) \<Rightarrow> b
     | Some (JNum n) \<Rightarrow> n \<noteq> 0 | Some (JStr s) \<Rightarrow> s \<noteq> [] | _ \<Rightarrow> True)"

end
