(* ===== verification/MetaCache.thy ===== *)
theory MetaCache
  imports Connections QueryTarget Json Objects "HOL-Library.Word"
begin

text \<open>
  The catalog cache (\<open>metaCache.ts\<close>): entries per saved connection, dropped when the
  connection's fingerprint changes, bounded in size with least-recently-used eviction, marked
  stale by age and by the catalog statements the user runs. Times and sizes are integers. The
  store around it is in \<open>MetaCacheStore\<close>.
\<close>

unbundle bit_operations_syntax

section \<open>Data\<close>

record cache_entry =
  ce_v :: json
  ce_at :: int
  ce_used :: int
  ce_size :: int
  ce_stale :: bool

record conn_cache =
  cc_fp :: string
  cc_entries :: "cache_entry obj"

type_synonym meta_cache = "conn_cache obj"

record cached =
  cd_value :: json
  cd_fetched :: int
  cd_stale :: bool

definition CACHE_CAP :: int where "CACHE_CAP = 1000000"
definition STALE_AFTER_MS :: int where "STALE_AFTER_MS = 24 * 60 * 60 * 1000"

definition tree_key :: "string \<Rightarrow> string" where "tree_key k = ''tree:'' @ k"
definition cols_key :: "string \<Rightarrow> string" where "cols_key t = ''cols:'' @ t"

section \<open>The fingerprint\<close>

definition SECRET_LIKE :: re where
  "SECRET_LIKE = alts [liti ''pass'', liti ''secret'', liti ''token'',
     seqs [liti ''key'', opt (one CHR ''_''), liti ''phrase'']]"

text \<open>The default order of \<open>sort()\<close>: by code units.\<close>

fun code_le :: "string \<Rightarrow> string \<Rightarrow> bool" where
  "code_le [] t = True"
| "code_le (c # s) [] = False"
| "code_le (c # s) (d # t) = (if code c < code d then True else if code c = code d then code_le s t else False)"

definition fingerprint_keys :: "string \<Rightarrow> string obj \<Rightarrow> string list" where
  "fingerprint_keys driver params =
     (let secrets = (case driver_schema_for driver of None \<Rightarrow> [] | Some sch \<Rightarrow> secret_field_keys sch)
      in sort_by code_le
           (filter (\<lambda>k. k \<notin> set secrets \<and> \<not> re_test SECRET_LIKE k) (obj_keys params)))"

definition fnv_step :: "char \<Rightarrow> 32 word \<Rightarrow> 32 word" where
  "fnv_step c h = (h XOR of_nat (code c)) * 0x01000193"

definition fnv1a :: "string \<Rightarrow> 32 word" where
  "fnv1a text = fold fnv_step text 0x811c9dc5"

text \<open>\<open>(h >>> 0).toString(16)\<close>.\<close>

function hex_text :: "int \<Rightarrow> string" where
  "hex_text n = (if n < 16 then [hex_digit (nat n)] else hex_text (n div 16) @ [hex_digit (nat (n mod 16))])"
  by pat_completeness auto
termination by (relation "measure nat") auto

declare hex_text.simps [simp del]

definition fingerprint_text :: "string \<Rightarrow> string obj \<Rightarrow> string" where
  "fingerprint_text driver params =
     join [CHR 0x0A] (driver # map (\<lambda>k. k @ ''='' @ param params k) (fingerprint_keys driver params))"

definition conn_fingerprint :: "string \<Rightarrow> string obj \<Rightarrow> string" where
  "conn_fingerprint driver params = hex_text (uint (fnv1a (fingerprint_text driver params)))"

section \<open>Reading\<close>

definition open_conn :: "meta_cache \<Rightarrow> string \<Rightarrow> string \<Rightarrow> meta_cache" where
  "open_conn cache i fp =
     (if map_option cc_fp (map_of cache i) = Some fp then cache
      else obj_set i \<lparr>cc_fp = fp, cc_entries = []\<rparr> cache)"

definition clear_conn :: "meta_cache \<Rightarrow> string \<Rightarrow> meta_cache" where
  "clear_conn cache i = (if has_key cache i then obj_del i cache else cache)"

definition is_stale :: "int \<Rightarrow> bool \<Rightarrow> int \<Rightarrow> int \<Rightarrow> bool" where
  "is_stale fetched stale now max_age \<longleftrightarrow> stale \<or> now - fetched > max_age"

definition entry_of :: "meta_cache \<Rightarrow> string \<Rightarrow> string \<Rightarrow> cache_entry option" where
  "entry_of cache i key = (case map_of cache i of None \<Rightarrow> None | Some c \<Rightarrow> map_of (cc_entries c) key)"

definition get_entry :: "meta_cache \<Rightarrow> string \<Rightarrow> string \<Rightarrow> int \<Rightarrow> cached option" where
  "get_entry cache i key now =
     map_option (\<lambda>e. \<lparr>cd_value = ce_v e, cd_fetched = ce_at e,
       cd_stale = is_stale (ce_at e) (ce_stale e) now STALE_AFTER_MS\<rparr>) (entry_of cache i key)"

definition entries_of :: "meta_cache \<Rightarrow> string \<Rightarrow> cache_entry obj" where
  "entries_of cache i = (case map_of cache i of None \<Rightarrow> [] | Some c \<Rightarrow> cc_entries c)"

definition list_entries :: "meta_cache \<Rightarrow> string \<Rightarrow> string \<Rightarrow> int \<Rightarrow> (string \<times> cached) list" where
  "list_entries cache i pre now =
     concat (map (\<lambda>k. case get_entry cache i k now of None \<Rightarrow> [] | Some e \<Rightarrow> [(k, e)])
       (filter (starts_with pre) (obj_keys (entries_of cache i))))"

section \<open>Writing\<close>

definition set_entries :: "meta_cache \<Rightarrow> string \<Rightarrow> conn_cache \<Rightarrow> cache_entry obj \<Rightarrow> meta_cache" where
  "set_entries cache i c es = obj_set i (c\<lparr>cc_entries := es\<rparr>) cache"

definition touch :: "meta_cache \<Rightarrow> string \<Rightarrow> string \<Rightarrow> int \<Rightarrow> meta_cache" where
  "touch cache i key now =
     (case map_of cache i of None \<Rightarrow> cache
      | Some c \<Rightarrow> (case map_of (cc_entries c) key of None \<Rightarrow> cache
          | Some e \<Rightarrow> set_entries cache i c (obj_set key (e\<lparr>ce_used := now\<rparr>) (cc_entries c))))"

definition entries_size :: "cache_entry obj \<Rightarrow> int" where
  "entries_size es = sum_list (map (\<lambda>(k, e). ce_size e) es)"

definition total_size :: "meta_cache \<Rightarrow> int" where
  "total_size cache = sum_list (map (\<lambda>(i, c). entries_size (cc_entries c)) cache)"

type_synonym victim = "string \<times> string \<times> cache_entry"

definition victims :: "meta_cache \<Rightarrow> string \<Rightarrow> string \<Rightarrow> victim list" where
  "victims cache i key =
     sort_by (\<lambda>(_, _, a) (_, _, b). ce_used a \<le> ce_used b)
       (filter (\<lambda>(cid, k, e). \<not> (cid = i \<and> k = key))
         (concat (map (\<lambda>(cid, c). map (\<lambda>(k, e). (cid, k, e)) (cc_entries c)) cache)))"

fun evict :: "int \<Rightarrow> victim list \<Rightarrow> int \<Rightarrow> meta_cache \<Rightarrow> meta_cache" where
  "evict cap [] tot cache = cache"
| "evict cap ((cid, k, e) # vs) tot cache =
     (if tot \<le> cap then cache
      else case map_of cache cid of None \<Rightarrow> cache
        | Some c \<Rightarrow> evict cap vs (tot - ce_size e) (set_entries cache cid c (obj_del k (cc_entries c))))"

definition put_entry ::
    "meta_cache \<Rightarrow> string \<Rightarrow> string \<Rightarrow> json \<Rightarrow> int \<Rightarrow> int \<Rightarrow> meta_cache \<times> bool" where
  "put_entry cache i key value now cap =
     (let s = int (length key) + int (length (stringify value)) in
      case map_of cache i of None \<Rightarrow> (cache, False)
      | Some c \<Rightarrow>
          if s > cap then (cache, False)
          else let e = \<lparr>ce_v = value, ce_at = now, ce_used = now, ce_size = s, ce_stale = False\<rparr>;
                   next_cache = set_entries cache i c (obj_set key e (cc_entries c));
                   tot = total_size next_cache
               in if tot \<le> cap then (next_cache, True)
                  else (evict cap (victims next_cache i key) tot next_cache, True))"

definition mark_stale :: "meta_cache \<Rightarrow> string \<Rightarrow> (string \<Rightarrow> bool) \<Rightarrow> meta_cache" where
  "mark_stale cache i pred =
     (case map_of cache i of None \<Rightarrow> cache
      | Some c \<Rightarrow> set_entries cache i c
          (map (\<lambda>(k, e). (k, if pred k then e\<lparr>ce_stale := True\<rparr> else e)) (cc_entries c)))"

section \<open>What a statement changes\<close>

datatype ddl_targets = NoTargets | AllTargets | Tables "string list"

definition strip_quotes :: "string \<Rightarrow> string" where
  "strip_quotes s =
     (let t = (case s of c # u \<Rightarrow> if c \<in> {CHR 0x22, CHR 0x60, CHR ''[''} then u else s | [] \<Rightarrow> [])
      in if t \<noteq> [] \<and> last t \<in> {CHR 0x22, CHR 0x60, CHR '']''} then butlast t else t)"

definition bare_name :: "string \<Rightarrow> string" where
  "bare_name ref = strip_quotes (last (split_on CHR ''.''
     (map (\<lambda>c. if c = CHR '':'' then CHR ''.'' else c) ref)))"

definition TABLE_DDL :: re where
  "TABLE_DDL = seqs [Bol, Grp 1 (words_alti [''create'', ''drop'', ''alter'']), plus spc,
     opt (seqs [liti ''or'', plus spc, liti ''replace'', plus spc]),
     opt (seqs [words_alti [''global'', ''local''], plus spc]),
     opt (seqs [liti ''temp'', opt (liti ''orary''), plus spc]),
     opt (seqs [liti ''materialized'', plus spc]),
     words_alti [''table'', ''view''], plus spc,
     opt (seqs [liti ''if'', plus spc, opt (seqs [liti ''not'', plus spc]), liti ''exists'', plus spc]),
     Grp 2 (plus dot), Eol]"

definition OTHER_DDL :: re where
  "OTHER_DDL = seqs [Bol, words_alti [''create'', ''drop'', ''alter''], plus spc,
     opt (seqs [liti ''or'', plus spc, liti ''replace'', plus spc]),
     opt (seqs [liti ''unique'', plus spc]),
     words_alti [''index'', ''procedure'', ''function'', ''trigger'', ''event'', ''sequence'', ''synonym''], WordB]"

definition DDL_VERB :: re where
  "DDL_VERB = seqs [Bol, Grp 1 (words_alti [''create'', ''drop'', ''alter'', ''rename'', ''truncate'']), WordB]"

definition RENAME_TABLE :: re where
  "RENAME_TABLE = seqs [Bol, liti ''rename'', plus spc, liti ''table'', plus spc, Grp 1 (plus dot), Eol]"

definition RENAME_SEP :: re where
  "RENAME_SEP = Alt (seqs [star spc, one CHR '','', star spc]) (seqs [plus spc, liti ''to'', plus spc])"

definition RENAME_WORD :: re where
  "RENAME_WORD = seqs [WordB, liti ''rename'', WordB]"

text \<open>\<open>split\<close> at the matches of an expression that matches no empty text; \<open>b\<close> is the
  reversed text before the position, \<open>cur\<close> the reversed piece read so far.\<close>

function re_split_from :: "re \<Rightarrow> string \<Rightarrow> string \<Rightarrow> string \<Rightarrow> string list" where
  "re_split_from p cur b r =
     (case m_re p (b, r, []) of
        (b', r', _) # _ \<Rightarrow>
          (if length r' < length r then rev cur # re_split_from p [] b' r'
           else (case r of [] \<Rightarrow> [rev cur] | c # r1 \<Rightarrow> re_split_from p (c # cur) (c # b) r1))
      | [] \<Rightarrow> (case r of [] \<Rightarrow> [rev cur] | c # r1 \<Rightarrow> re_split_from p (c # cur) (c # b) r1))"
  by pat_completeness auto
termination
  by (relation "measure (\<lambda>(p, cur, b, r). length r)") auto

declare re_split_from.simps [simp del]

definition first_word :: "string \<Rightarrow> string" where
  "first_word s = takeWhile (\<lambda>c. \<not> is_space c \<and> c \<noteq> CHR ''('') s"

text \<open>One statement: \<open>None\<close> when the answer is already \<open>"all"\<close>, else whether it is a catalog
  statement and the tables it names.\<close>

definition stmt_targets :: "string \<Rightarrow> (bool \<times> string list) option" where
  "stmt_targets raw =
     (let stmt = trim raw in
      case map_option to_lower (re_group DDL_VERB stmt 1) of
        None \<Rightarrow> Some (False, [])
      | Some verb \<Rightarrow>
          if verb = ''truncate'' then Some (False, [])
          else if re_test OTHER_DDL stmt then Some (True, [])
          else case re_group RENAME_TABLE stmt 1 of
            Some names \<Rightarrow> Some (True, map (\<lambda>s. bare_name (trim s)) (re_split_from RENAME_SEP [] [] names))
          | None \<Rightarrow>
              (case (re_group TABLE_DDL stmt 1, re_group TABLE_DDL stmt 2) of
                 (Some v, Some rest) \<Rightarrow>
                   if re_test RENAME_WORD stmt then None
                   else let refs = (if to_lower v = ''drop'' then split_on CHR '','' rest else [rest])
                        in Some (True, map (\<lambda>r. bare_name (first_word (trim r))) refs)
               | _ \<Rightarrow> None))"

fun script_targets :: "string list \<Rightarrow> bool \<Rightarrow> string list \<Rightarrow> ddl_targets" where
  "script_targets [] found tables =
     (if \<not> found then NoTargets else if [] \<in> set tables then AllTargets else Tables tables)"
| "script_targets (raw # rest) found tables =
     (case stmt_targets raw of None \<Rightarrow> AllTargets
      | Some (ddl, ts) \<Rightarrow> script_targets rest (found \<or> ddl) (tables @ ts))"

definition ddl_targets_of :: "string \<Rightarrow> ddl_targets" where
  "ddl_targets_of sql = script_targets (split_on CHR '';'' (scrub sql)) False []"

definition invalidate_for_sql :: "meta_cache \<Rightarrow> string \<Rightarrow> string \<Rightarrow> meta_cache" where
  "invalidate_for_sql cache i sql =
     (case ddl_targets_of sql of
        NoTargets \<Rightarrow> cache
      | AllTargets \<Rightarrow> mark_stale cache i (\<lambda>_. True)
      | Tables ts \<Rightarrow>
          let names = map (\<lambda>t. to_lower (cols_key t)) ts
          in mark_stale cache i (\<lambda>k. starts_with ''tree:'' k \<or> to_lower k \<in> set names))"

section \<open>Storage\<close>

definition entry_json :: "cache_entry \<Rightarrow> json" where
  "entry_json e = JObj ([(''v'', ce_v e), (''at'', JNum (ce_at e)), (''used'', JNum (ce_used e)),
     (''s'', JNum (ce_size e))] @ (if ce_stale e then [(''stale'', JBool True)] else []))"

definition serialize_cache :: "meta_cache \<Rightarrow> json" where
  "serialize_cache cache = JObj [(''v'', JNum 1), (''c'', JObj (map (\<lambda>(i, c).
     (i, JObj [(''fp'', JStr (cc_fp c)), (''e'', JObj (map (\<lambda>(k, e). (k, entry_json e)) (cc_entries c)))]))
       cache))]"

text \<open>\<open>isEntry\<close>; a \<open>stale\<close> field counts when it is true-like.\<close>

definition parse_entry :: "json \<Rightarrow> cache_entry option" where
  "parse_entry j =
     (case (json_field j ''v'', json_num (json_field j ''at''), json_num (json_field j ''used''),
            json_num (json_field j ''s'')) of
        (Some v, Some a, Some u, Some s) \<Rightarrow>
          Some \<lparr>ce_v = v, ce_at = a, ce_used = u, ce_size = s, ce_stale = json_truthy (json_field j ''stale'')\<rparr>
      | _ \<Rightarrow> None)"

definition parse_conn_cache :: "json \<Rightarrow> conn_cache option" where
  "parse_conn_cache j =
     (case (json_str (json_field j ''fp''), Option.bind (json_field j ''e'') json_entries) of
        (Some fp, Some es) \<Rightarrow> Some \<lparr>cc_fp = fp, cc_entries =
          obj_of (concat (map (\<lambda>(k, v). case parse_entry v of None \<Rightarrow> [] | Some e \<Rightarrow> [(k, e)]) es))\<rparr>
      | _ \<Rightarrow> None)"

definition parse_cache :: "json option \<Rightarrow> meta_cache" where
  "parse_cache raw =
     (case raw of None \<Rightarrow> []
      | Some doc \<Rightarrow>
          if json_field doc ''v'' \<noteq> Some (JNum 1) then []
          else case Option.bind (json_field doc ''c'') json_entries of None \<Rightarrow> []
            | Some cs \<Rightarrow> obj_of (concat (map (\<lambda>(i, c). case parse_conn_cache c of None \<Rightarrow> []
                | Some cc \<Rightarrow> [(i, cc)]) cs)))"

section \<open>Entries\<close>

definition wf_cache :: "meta_cache \<Rightarrow> bool" where
  "wf_cache cache \<longleftrightarrow> wf_obj cache \<and> (\<forall>(i, c) \<in> set cache. wf_obj (cc_entries c))"

lemma entry_of_set_entries:
  "entry_of (set_entries cache i c es) j k = (if j = i then map_of es k else entry_of cache j k)"
  by (simp add: entry_of_def set_entries_def)

lemma wf_cache_conn: "wf_cache cache \<Longrightarrow> map_of cache i = Some c \<Longrightarrow> wf_obj (cc_entries c)"
  by (auto simp: wf_cache_def dest: map_of_SomeD)

lemma set_assoc_update: "set (assoc_update k v ob) \<subseteq> insert (k, v) (set ob)"
  by (induction k v ob rule: assoc_update.induct) auto

lemma set_obj_insert: "set (obj_insert k v ob) = insert (k, v) (set ob)"
  by (induction k v ob rule: obj_insert.induct) auto

lemma set_obj_set: "set (obj_set k v ob) \<subseteq> insert (k, v) (set ob)"
  using set_assoc_update [of k v ob] by (auto simp: obj_set_def set_obj_insert)

lemma wf_cache_set_entries:
  "wf_cache cache \<Longrightarrow> wf_obj es \<Longrightarrow> wf_cache (set_entries cache i c es)"
  using set_obj_set [of i "c\<lparr>cc_entries := es\<rparr>" cache]
  by (fastforce simp: wf_cache_def set_entries_def intro: wf_obj_set)

lemma total_set_entries:
  assumes "map_of cache i = Some c"
  shows "total_size (set_entries cache i c es) = total_size cache + entries_size es - entries_size (cc_entries c)"
  using assms sum_obj_set [of "\<lambda>i c. entries_size (cc_entries c)" i "c\<lparr>cc_entries := es\<rparr>" cache]
  by (simp add: total_size_def set_entries_def)

lemma total_drop_entry:
  assumes "wf_cache cache" and "map_of cache i = Some c" and "map_of (cc_entries c) k = Some e"
  shows "total_size (set_entries cache i c (obj_del k (cc_entries c))) = total_size cache - ce_size e"
  using total_set_entries [OF assms(2)] assms(3) wf_cache_conn [OF assms(1,2)]
    sum_obj_del [of "cc_entries c" k e "\<lambda>k e. ce_size e"]
  by (simp add: entries_size_def)

section \<open>Eviction\<close>

definition victim_key :: "victim \<Rightarrow> string \<times> string" where
  "victim_key v = (fst v, fst (snd v))"

definition victim_entry :: "victim \<Rightarrow> cache_entry" where
  "victim_entry v = snd (snd v)"

definition victims_size :: "victim list \<Rightarrow> int" where
  "victims_size vs = sum_list (map (\<lambda>v. ce_size (victim_entry v)) vs)"

text \<open>What evicting the first \<open>n\<close> victims leaves.\<close>

definition evicted :: "meta_cache \<Rightarrow> victim list \<Rightarrow> meta_cache \<Rightarrow> bool" where
  "evicted cache vs out \<longleftrightarrow> wf_cache out \<and> total_size out = total_size cache - victims_size vs \<and>
     (\<forall>i k. entry_of out i k = (if (i, k) \<in> victim_key ` set vs then None else entry_of cache i k))"

lemma evicted_Nil: "wf_cache cache \<Longrightarrow> evicted cache [] cache"
  by (simp add: evicted_def victims_size_def)

lemma evicted_Cons:
  assumes "wf_cache cache" and "map_of cache i = Some c" and "map_of (cc_entries c) k = Some e"
    and "evicted (set_entries cache i c (obj_del k (cc_entries c))) vs out"
  shows "evicted cache ((i, k, e) # vs) out"
  using assms(4) total_drop_entry [OF assms(1,2,3)] assms(2)
  by (auto simp: evicted_def victims_size_def victim_entry_def victim_key_def entry_of_set_entries
      entry_of_def [of cache])

lemma evict_spec:
  assumes "wf_cache cache" and "distinct (map victim_key vs)"
    and "\<forall>v \<in> set vs. entry_of cache (fst (victim_key v)) (snd (victim_key v)) = Some (victim_entry v)"
    and "tot = total_size cache"
  shows "\<exists>n \<le> length vs. evicted cache (take n vs) (evict cap vs tot cache) \<and>
    (n = length vs \<or> total_size (evict cap vs tot cache) \<le> cap)"
  using assms
proof (induction cap vs tot cache rule: evict.induct)
  case (1 cap tot cache)
  then show ?case by (simp add: evicted_Nil)
next
  case (2 cap i k e vs tot cache)
  show ?case
  proof (cases "tot \<le> cap")
    case True
    with 2(2,5) show ?thesis by (intro exI [of _ 0]) (simp add: evicted_Nil)
  next
    case False
    have "entry_of cache i k = Some e" using 2(4) by (simp add: victim_key_def victim_entry_def)
    then obtain c where c: "map_of cache i = Some c" "map_of (cc_entries c) k = Some e"
      by (auto simp: entry_of_def split: option.splits)
    let ?next = "set_entries cache i c (obj_del k (cc_entries c))"
    have wf: "wf_cache ?next" by (intro wf_cache_set_entries 2(2) wf_obj_del wf_cache_conn [OF 2(2) c(1)])
    have pres: "\<forall>v \<in> set vs. entry_of ?next (fst (victim_key v)) (snd (victim_key v)) = Some (victim_entry v)"
    proof
      fix v assume v: "v \<in> set vs"
      then have "victim_key v \<noteq> (i, k)" using 2(3) by (auto simp: victim_key_def)
      then show "entry_of ?next (fst (victim_key v)) (snd (victim_key v)) = Some (victim_entry v)"
        using 2(4) v c by (cases "fst (victim_key v) = i")
          (force simp: entry_of_set_entries entry_of_def [of cache] prod_eq_iff)+
    qed
    from 2(1) [OF False c(1) wf _ pres] obtain n where n: "n \<le> length vs"
      "evicted ?next (take n vs) (evict cap vs (tot - ce_size e) ?next)"
      "n = length vs \<or> total_size (evict cap vs (tot - ce_size e) ?next) \<le> cap"
      using 2(3,5) total_drop_entry [OF 2(2) c] by auto
    with False c evicted_Cons [OF 2(2) c n(2)] show ?thesis
      by (intro exI [of _ "Suc n"]) auto
  qed
qed

definition all_victims :: "meta_cache \<Rightarrow> victim list" where
  "all_victims cache = concat (map (\<lambda>(cid, c). map (\<lambda>(k, e). (cid, k, e)) (cc_entries c)) cache)"

lemma set_all_victims:
  assumes "wf_cache cache"
  shows "v \<in> set (all_victims cache) \<longleftrightarrow>
    entry_of cache (fst (victim_key v)) (snd (victim_key v)) = Some (victim_entry v)"
proof -
  obtain cid k e where v: "v = (cid, k, e)" by (cases v) auto
  have "(cid, k, e) \<in> set (all_victims cache) \<longleftrightarrow> (\<exists>c. (cid, c) \<in> set cache \<and> (k, e) \<in> set (cc_entries c))"
    by (force simp: all_victims_def)
  also have "\<dots> \<longleftrightarrow> (\<exists>c. map_of cache cid = Some c \<and> map_of (cc_entries c) k = Some e)"
    using assms by (auto simp: wf_cache_def wf_obj_def) (metis case_prodD map_of_eq_Some_iff map_of_SomeD)+
  also have "\<dots> \<longleftrightarrow> entry_of cache cid k = Some e"
    by (auto simp: entry_of_def split: option.splits)
  finally show ?thesis by (simp add: v victim_key_def victim_entry_def)
qed

lemma set_victims:
  assumes "wf_cache cache"
  shows "v \<in> set (victims cache i key) \<longleftrightarrow>
    entry_of cache (fst (victim_key v)) (snd (victim_key v)) = Some (victim_entry v) \<and> victim_key v \<noteq> (i, key)"
  unfolding victims_def all_victims_def [symmetric]
  by (cases v) (auto simp: set_all_victims [OF assms] victim_key_def)

lemma victim_owner: "v \<in> set (all_victims cache) \<Longrightarrow> fst v \<in> fst ` set cache"
  by (force simp: all_victims_def)

lemma distinct_all_victims:
  assumes "wf_cache cache"
  shows "distinct (map victim_key (all_victims cache))"
  using assms
proof (induction cache)
  case (Cons x cache)
  obtain cid c where x: "x = (cid, c)" by (cases x)
  define own where "own = map (\<lambda>(k, e). (cid, k, e)) (cc_entries c)"
  have own: "all_victims (x # cache) = own @ all_victims cache"
    by (simp add: all_victims_def own_def x)
  have "distinct (map victim_key own)"
    using Cons.prems by (auto simp: own_def x wf_cache_def wf_obj_def victim_key_def comp_def distinct_map inj_on_def)
  moreover have diff: "victim_key v \<noteq> victim_key w" if "v \<in> set own" "w \<in> set (all_victims cache)" for v w
  proof -
    have "fst v = cid" using that(1) by (auto simp: own_def)
    moreover have "fst w \<noteq> cid"
      using victim_owner [OF that(2)] Cons.prems by (auto simp: x wf_cache_def wf_obj_def)
    ultimately show ?thesis by (simp add: victim_key_def)
  qed
  moreover have "set (map victim_key own) \<inter> set (map victim_key (all_victims cache)) = {}"
  proof (rule equals0I)
    fix k assume "k \<in> set (map victim_key own) \<inter> set (map victim_key (all_victims cache))"
    then obtain v w where "v \<in> set own" "w \<in> set (all_victims cache)" "victim_key v = victim_key w" by auto
    with diff show False by blast
  qed
  moreover have "wf_cache cache" using Cons.prems by (auto simp: x wf_cache_def wf_obj_def)
  ultimately show ?case using Cons.IH by (simp only: own map_append distinct_append)
qed (simp add: all_victims_def)

lemma distinct_victims: "wf_cache cache \<Longrightarrow> distinct (map victim_key (victims cache i key))"
  unfolding victims_def all_victims_def [symmetric]
  by (simp add: distinct_map_filter distinct_all_victims)

lemma sorted_victims: "sorted_wrt (\<lambda>v w. ce_used (victim_entry v) \<le> ce_used (victim_entry w)) (victims cache i key)"
proof -
  have "sorted_wrt (\<lambda>(_, _, a) (_, _, b). ce_used a \<le> ce_used b) (victims cache i key)"
    unfolding victims_def by (rule sorted_sort_by) auto
  then show ?thesis by (rule sorted_wrt_mono_rel [rotated]) (auto simp: victim_entry_def)
qed

lemma sum_without:
  fixes g :: "'a \<Rightarrow> int"
  assumes "distinct (map f xs)" and "w \<in> set xs"
  shows "sum_list (map g (filter (\<lambda>v. f v \<noteq> f w) xs)) = sum_list (map g xs) - g w"
  using assms
proof (induction xs)
  case (Cons x xs)
  show ?case
  proof (cases "x = w")
    case True
    have "f w \<notin> f ` set xs" using True Cons.prems(1) by auto
    then have "filter (\<lambda>v. f v \<noteq> f w) xs = xs" by (intro filter_True) (metis imageI)
    with True show ?thesis by simp
  next
    case False
    with Cons have "f x \<noteq> f w" by auto
    with Cons False show ?thesis by simp
  qed
qed simp

lemma size_all_victims: "victims_size (all_victims cache) = total_size cache"
proof (induction cache)
  case (Cons x cache)
  have "victims_size (map (\<lambda>(k, e). (i, k, e)) es) = entries_size es" for i es
    by (induction es) (auto simp: victims_size_def victim_entry_def entries_size_def)
  then show ?case
    using Cons by (cases x) (simp add: all_victims_def total_size_def victims_size_def)
qed (simp add: all_victims_def total_size_def victims_size_def)

lemma size_victims:
  assumes "wf_cache cache" and "entry_of cache i key = Some e"
  shows "victims_size (victims cache i key) = total_size cache - ce_size e"
proof -
  have mem: "(i, key, e) \<in> set (all_victims cache)"
    using assms by (simp add: set_all_victims victim_key_def victim_entry_def)
  have "victims_size (victims cache i key) =
      sum_list (map (\<lambda>v. ce_size (victim_entry v)) (filter (\<lambda>v. victim_key v \<noteq> victim_key (i, key, e)) (all_victims cache)))"
  proof -
    have "filter (\<lambda>(cid, k, e). \<not> (cid = i \<and> k = key)) (all_victims cache) =
        filter (\<lambda>v. victim_key v \<noteq> victim_key (i, key, e)) (all_victims cache)"
      by (rule filter_cong) (auto simp: victim_key_def)
    then show ?thesis
      unfolding victims_size_def victims_def all_victims_def [symmetric]
      by (metis (no_types, lifting) mset_map mset_sort_by sum_mset_sum_list)
  qed
  also have "\<dots> = victims_size (all_victims cache) - ce_size e"
    using sum_without [OF distinct_all_victims [OF assms(1)] mem, of "\<lambda>v. ce_size (victim_entry v)"]
    by (simp add: victims_size_def victim_entry_def)
  finally show ?thesis by (simp add: size_all_victims)
qed

text \<open>What a stored value leaves: the value itself, and of the other entries all but the first
  \<open>n\<close> of the victims.\<close>

lemma put_entry_spec:
  assumes "wf_cache cache" and "put_entry cache i key v now cap = (out, True)"
  obtains next_cache n where "wf_cache next_cache"
    and "\<And>j k. entry_of next_cache j k = (if j = i \<and> k = key
           then Some \<lparr>ce_v = v, ce_at = now, ce_used = now, ce_size = int (length key) + int (length (stringify v)), ce_stale = False\<rparr>
           else entry_of cache j k)"
    and "evicted next_cache (take n (victims next_cache i key)) out" and "total_size out \<le> cap"
proof -
  define s where "s = int (length key) + int (length (stringify v))"
  define e where "e = \<lparr>ce_v = v, ce_at = now, ce_used = now, ce_size = s, ce_stale = False\<rparr>"
  from assms(2) obtain c where c: "map_of cache i = Some c" and le: "s \<le> cap"
    by (auto simp: put_entry_def s_def Let_def split: option.splits if_splits)
  define nx where "nx = set_entries cache i c (obj_set key e (cc_entries c))"
  have out: "out = (if total_size nx \<le> cap then nx else evict cap (victims nx i key) (total_size nx) nx)"
    using assms(2) c le by (auto simp: put_entry_def Let_def s_def [symmetric] e_def [symmetric] nx_def split: if_splits)
  have wf: "wf_cache nx"
    unfolding nx_def by (intro wf_cache_set_entries assms(1) wf_obj_set wf_cache_conn [OF assms(1) c])
  have entry: "entry_of nx j k = (if j = i \<and> k = key then Some e else entry_of cache j k)" for j k
    using c by (auto simp: nx_def entry_of_set_entries entry_of_def [of cache])
  have all: "victims_size (victims nx i key) = total_size nx - s"
    using size_victims [OF wf, of i key e] by (simp add: entry e_def)
  show thesis
  proof (cases "total_size nx \<le> cap")
    case True
    with that [of nx 0] wf entry evicted_Nil [OF wf] out show ?thesis by (simp add: e_def s_def)
  next
    case False
    have "\<forall>v \<in> set (victims nx i key). entry_of nx (fst (victim_key v)) (snd (victim_key v)) = Some (victim_entry v)"
      using set_victims [OF wf] by blast
    from evict_spec [OF wf distinct_victims [OF wf] this refl, of cap]
    obtain n where n: "evicted nx (take n (victims nx i key)) out"
        "n = length (victims nx i key) \<or> total_size out \<le> cap"
      using False out by auto
    have "total_size out \<le> cap"
      using n all le by (auto simp: evicted_def)
    with that [of nx n] wf entry n(1) show ?thesis by (simp add: e_def s_def)
  qed
qed

section \<open>Invalidation\<close>

lemma entry_of_mark_stale:
  "entry_of (mark_stale cache i pred) j k =
     map_option (\<lambda>e. if j = i \<and> pred k then e\<lparr>ce_stale := True\<rparr> else e) (entry_of cache j k)"
proof (cases "map_of cache i")
  case None
  then show ?thesis by (cases "j = i") (auto simp: mark_stale_def entry_of_def option.map_ident)
next
  case (Some c)
  have "map_of (map (\<lambda>(k, e). (k, if pred k then e\<lparr>ce_stale := True\<rparr> else e)) es) k =
      map_option (\<lambda>e. if pred k then e\<lparr>ce_stale := True\<rparr> else e) (map_of es k)" for es
    by (induction es) auto
  with Some show ?thesis
    by (cases "j = i") (auto simp: mark_stale_def entry_of_set_entries entry_of_def [of cache] option.map_ident)
qed

text \<open>Which entries a script may have changed.\<close>

definition touched_by :: "ddl_targets \<Rightarrow> string \<Rightarrow> bool" where
  "touched_by ts k = (case ts of NoTargets \<Rightarrow> False | AllTargets \<Rightarrow> True
     | Tables names \<Rightarrow> starts_with ''tree:'' k \<or> to_lower k \<in> (\<lambda>t. to_lower (cols_key t)) ` set names)"

lemma entry_of_invalidate:
  "entry_of (invalidate_for_sql cache i sql) j k =
     map_option (\<lambda>e. if j = i \<and> touched_by (ddl_targets_of sql) k then e\<lparr>ce_stale := True\<rparr> else e) (entry_of cache j k)"
  by (cases "ddl_targets_of sql")
     (simp_all add: invalidate_for_sql_def touched_by_def entry_of_mark_stale option.map_ident Let_def)

lemma touched_by_all [simp]: "touched_by AllTargets k"
  by (simp add: touched_by_def)

lemma touched_tables:
  "touched_by (Tables ts) k \<longleftrightarrow> starts_with ''tree:'' k \<or> (\<exists>t \<in> set ts. to_lower k = to_lower (cols_key t))"
  by (auto simp: touched_by_def)

lemma touched_more: "touched_by (Tables ts) k \<Longrightarrow> touched_by (Tables (us @ ts)) k \<and> touched_by (Tables (ts @ us)) k"
  by (auto simp: touched_tables)

lemma script_targets_found:
  "found \<Longrightarrow> touched_by (Tables tables) k \<Longrightarrow> touched_by (script_targets raws found tables) k"
proof (induction raws found tables rule: script_targets.induct)
  case (2 raw rest found tables)
  then show ?case by (cases "stmt_targets raw") (auto simp: touched_more)
qed simp

lemma script_targets_touch:
  assumes "raw \<in> set raws"
    and "stmt_targets raw = None \<or> (\<exists>ts. stmt_targets raw = Some (True, ts) \<and> touched_by (Tables ts) k)"
  shows "touched_by (script_targets raws found tables) k"
  using assms
proof (induction raws found tables rule: script_targets.induct)
  case (2 r rest found tables)
  show ?case
  proof (cases "raw = r")
    case True
    with 2(3) show ?thesis by (auto intro!: script_targets_found simp: touched_more)
  next
    case False
    with 2 show ?thesis by (auto split: option.splits)
  qed
qed simp

lemma get_after_invalidate:
  "get_entry (invalidate_for_sql cache i sql) j k now =
     map_option (\<lambda>d. if j = i \<and> touched_by (ddl_targets_of sql) k then d\<lparr>cd_stale := True\<rparr> else d)
       (get_entry cache j k now)"
  by (cases "entry_of cache j k") (auto simp: get_entry_def entry_of_invalidate is_stale_def)

section \<open>Properties\<close>

text \<open>Storing a value keeps the cache within its cap: the value is there and fresh, every other
  entry is unchanged or gone, and what is gone was used no later than anything that stayed.\<close>

theorem put_entry_bounded:
  assumes "wf_cache cache" and "put_entry cache i key v now cap = (out, True)"
  shows "total_size out \<le> cap \<and>
    get_entry out i key now = Some \<lparr>cd_value = v, cd_fetched = now, cd_stale = False\<rparr> \<and>
    (\<forall>j k. (j, k) \<noteq> (i, key) \<longrightarrow> entry_of out j k = None \<or> entry_of out j k = entry_of cache j k) \<and>
    (\<forall>j k e j' k' e'. (j, k) \<noteq> (i, key) \<and> entry_of cache j k = Some e \<and> entry_of out j k = None \<and>
       (j', k') \<noteq> (i, key) \<and> entry_of out j' k' = Some e' \<longrightarrow> ce_used e \<le> ce_used e')"
proof -
  from put_entry_spec [OF assms] obtain nx n where wf: "wf_cache nx"
    and nx: "\<And>j k. entry_of nx j k = (if j = i \<and> k = key
         then Some \<lparr>ce_v = v, ce_at = now, ce_used = now, ce_size = int (length key) + int (length (stringify v)), ce_stale = False\<rparr>
         else entry_of cache j k)"
    and ev: "evicted nx (take n (victims nx i key)) out" and le: "total_size out \<le> cap"
    by blast
  let ?vs = "victims nx i key"
  note mem = set_victims [OF wf, of _ i key]
  have out: "entry_of out j k = (if (j, k) \<in> victim_key ` set (take n ?vs) then None else entry_of nx j k)" for j k
    using ev by (simp add: evicted_def)
  have fresh: "(i, key) \<notin> victim_key ` set (take n ?vs)"
    using mem by (auto dest!: in_set_takeD)
  have "ce_used e \<le> ce_used e'"
    if jk: "(j, k) \<noteq> (i, key)" "entry_of cache j k = Some e" "entry_of out j k = None"
      and kept: "(j', k') \<noteq> (i, key)" "entry_of out j' k' = Some e'" for j k e j' k' e'
  proof -
    have "(j, k, e) \<in> set ?vs" "(j', k', e') \<in> set ?vs"
      using jk kept mem nx out by (auto simp: victim_key_def victim_entry_def split: if_splits)
    moreover have "(j', k', e') \<notin> set (take n ?vs)" using kept(2) out by (force simp: victim_key_def split: if_splits)
    moreover have "(j, k) \<in> victim_key ` set (take n ?vs)" using jk nx out by (auto split: if_splits)
    moreover have "w = (j, k, e)" if "w \<in> set (take n ?vs)" "victim_key w = (j, k)" for w
      using distinct_victims [OF wf, of i key] in_set_takeD [OF that(1)] that(2) \<open>(j, k, e) \<in> set ?vs\<close>
      by (auto simp: distinct_map inj_on_def victim_key_def)
    ultimately have "(j, k, e) \<in> set (take n ?vs)" "(j', k', e') \<in> set (drop n ?vs)"
      by (auto dest: sym) (metis Un_iff append_take_drop_id set_append)
    moreover have "sorted_wrt (\<lambda>v w. ce_used (victim_entry v) \<le> ce_used (victim_entry w)) (take n ?vs @ drop n ?vs)"
      using sorted_victims [of nx i key] by simp
    ultimately show ?thesis unfolding sorted_wrt_append by (fastforce simp: victim_entry_def)
  qed
  moreover have "get_entry out i key now = Some \<lparr>cd_value = v, cd_fetched = now, cd_stale = False\<rparr>"
    using fresh by (simp add: get_entry_def out nx is_stale_def STALE_AFTER_MS_def)
  moreover have "entry_of out j k = None \<or> entry_of out j k = entry_of cache j k" if "(j, k) \<noteq> (i, key)" for j k
    using that by (auto simp: out nx)
  ultimately show ?thesis using le by blast
qed

theorem put_entry_bounded_witness:
  "\<exists>out. put_entry [(''a'', \<lparr>cc_fp = ''f'', cc_entries = [
       (''x'', \<lparr>ce_v = JNull, ce_at = 1, ce_used = 5, ce_size = 5, ce_stale = False\<rparr>),
       (''y'', \<lparr>ce_v = JNull, ce_at = 1, ce_used = 2, ce_size = 5, ce_stale = False\<rparr>)]\<rparr>)]
     ''a'' ''z'' (JNum 7) 9 8 = (out, True) \<and> total_size out \<le> 8 \<and>
     entry_of out ''a'' ''y'' = None \<and> entry_of out ''a'' ''x'' \<noteq> None"
  (is "\<exists>out. put_entry ?c _ _ _ _ _ = _ \<and> _")
proof (intro exI conjI)
  let ?out = "fst (put_entry ?c ''a'' ''z'' (JNum 7) 9 8)"
  show p: "put_entry ?c ''a'' ''z'' (JNum 7) 9 8 = (?out, True)" by code_simp
  have "wf_cache ?c" by (simp add: wf_cache_def wf_obj_def)
  from put_entry_bounded [OF this p] show "total_size ?out \<le> 8" by (rule conjunct1)
  show "entry_of ?out ''a'' ''y'' = None" by code_simp
  show "entry_of ?out ''a'' ''x'' \<noteq> None" by code_simp
qed

text \<open>A secret never reaches the fingerprint: changing, adding or clearing a parameter that the
  driver's form marks as a secret, or whose name looks like one, leaves it as it is.\<close>

theorem fingerprint_hides_secrets:
  assumes "(\<exists>sch. driver_schema_for driver = Some sch \<and> k \<in> set (secret_field_keys sch)) \<or> re_test SECRET_LIKE k"
  shows "conn_fingerprint driver (obj_set k v params) = conn_fingerprint driver params"
proof -
  have k: "fingerprint_keys driver (obj_set k v params) = fingerprint_keys driver params"
    unfolding fingerprint_keys_def obj_keys_def Let_def using assms by (subst filter_keys_obj_set) auto
  have "k \<notin> set (fingerprint_keys driver params)"
    using assms by (auto simp: fingerprint_keys_def Let_def)
  then have "map (\<lambda>k'. k' @ ''='' @ param (obj_set k v params) k') (fingerprint_keys driver params) =
      map (\<lambda>k'. k' @ ''='' @ param params k') (fingerprint_keys driver params)"
    by (auto simp: param_def)
  then show ?thesis unfolding conn_fingerprint_def fingerprint_text_def k by (simp only:)
qed

theorem fingerprint_hides_secrets_witness:
  "conn_fingerprint ''postgres'' (obj_set ''password'' ''s3cret'' [(''h'', ''1''), (''password'', ''x'')]) =
     conn_fingerprint ''postgres'' [(''h'', ''1''), (''password'', ''x'')] \<and>
   conn_fingerprint ''postgres'' [(''h'', ''2'')] \<noteq> conn_fingerprint ''postgres'' [(''h'', ''1'')]"
proof
  have "re_test SECRET_LIKE ''password''" by code_simp
  then show "conn_fingerprint ''postgres'' (obj_set ''password'' ''s3cret'' [(''h'', ''1''), (''password'', ''x'')]) =
     conn_fingerprint ''postgres'' [(''h'', ''1''), (''password'', ''x'')]"
    by (intro fingerprint_hides_secrets disjI2)
  show "conn_fingerprint ''postgres'' [(''h'', ''2'')] \<noteq> conn_fingerprint ''postgres'' [(''h'', ''1'')]"
    by code_simp
qed

text \<open>A script leaves nothing that one of its statements may have changed marked as current:
  a statement that cannot be read makes everything of the connection stale, one that is read
  the tree and the columns of the tables it names. Other connections are untouched and no
  cached value is altered or lost.\<close>

theorem ddl_marks_stale:
  assumes "raw \<in> set (split_on CHR '';'' (scrub sql))"
    and "stmt_targets raw = None \<or> (\<exists>ts. stmt_targets raw = Some (True, ts) \<and>
      (starts_with ''tree:'' k \<or> (\<exists>t \<in> set ts. to_lower k = to_lower (cols_key t))))"
    and "get_entry cache i k now = Some d"
  shows "get_entry (invalidate_for_sql cache i sql) i k now = Some (d\<lparr>cd_stale := True\<rparr>) \<and>
    (\<forall>j. j \<noteq> i \<longrightarrow> get_entry (invalidate_for_sql cache i sql) j k now = get_entry cache j k now)"
proof -
  have "touched_by (ddl_targets_of sql) k"
    unfolding ddl_targets_of_def by (rule script_targets_touch [OF assms(1,2) [folded touched_tables]])
  with assms(3) show ?thesis by (simp add: get_after_invalidate option.map_ident)
qed

theorem ddl_marks_stale_witness:
  "get_entry (invalidate_for_sql
     [(''c'', \<lparr>cc_fp = ''f'', cc_entries = [(''cols:T1'', \<lparr>ce_v = JNull, ce_at = 1, ce_used = 1, ce_size = 9, ce_stale = False\<rparr>)]\<rparr>)]
     ''c'' ''x;rename table t1 to u'') ''c'' ''cols:T1'' 2 =
   Some \<lparr>cd_value = JNull, cd_fetched = 1, cd_stale = True\<rparr>"
proof -
  let ?cache = "[(''c'', \<lparr>cc_fp = ''f'', cc_entries =
      [(''cols:T1'', \<lparr>ce_v = JNull, ce_at = 1, ce_used = 1, ce_size = 9, ce_stale = False\<rparr>)]\<rparr>)]"
  have "''rename table t1 to u'' \<in> set (split_on CHR '';'' (scrub ''x;rename table t1 to u''))"
    by code_simp
  moreover have "stmt_targets ''rename table t1 to u'' = Some (True, [''t1'', ''u''])" by code_simp
  moreover have "get_entry ?cache ''c'' ''cols:T1'' 2 = Some \<lparr>cd_value = JNull, cd_fetched = 1, cd_stale = False\<rparr>"
    by code_simp
  moreover have "to_lower ''cols:T1'' = to_lower (cols_key ''t1'')" by code_simp
  ultimately show ?thesis
    using ddl_marks_stale [of "''rename table t1 to u''" "''x;rename table t1 to u''"
        "''cols:T1''" ?cache "''c''" 2] by simp
qed

end
