(* ===== verification/MetaCacheStore.thy ===== *)
theory MetaCacheStore
  imports MetaCache KvStore
begin

text \<open>
  The store around the catalog cache (\<open>createMetaCacheStore\<close>): it loads the cache lazily from
  the key-value storage, keeps it in memory and writes it back when its timer fires. What it
  needs of the storage is the locale \<open>kv_interface\<close>; the invariant and the restart theorem are
  proved there once, and reached for the application's own store by interpretation.
\<close>

section \<open>The store\<close>

definition STORAGE_KEY :: string where "STORAGE_KEY = ''quaero.metaCache''"

datatype cache_problem = TooLarge | StorageProblem

text \<open>The timer of the delayed write is a flag (\<open>flush\<close> is what runs when it fires); the
  problems reported to \<open>onProblem\<close> are collected in a list.\<close>

record 'k store =
  st_kv :: 'k
  st_cache :: "meta_cache option"
  st_timer :: bool
  st_problems :: "cache_problem list"

definition new_store :: "'k \<Rightarrow> 'k store" where
  "new_store k = \<lparr>st_kv = k, st_cache = None, st_timer = False, st_problems = []\<rparr>"

definition store_state :: "('k, json) kv_ops \<Rightarrow> 'k store \<Rightarrow> meta_cache \<times> 'k store" where
  "store_state kv s =
     (case st_cache s of Some c \<Rightarrow> (c, s)
      | None \<Rightarrow> let c = load_doc kv STORAGE_KEY parse_cache (st_kv s) in (c, s\<lparr>st_cache := Some c\<rparr>))"

definition store_flush :: "('k, json) kv_ops \<Rightarrow> 'k store \<Rightarrow> 'k store" where
  "store_flush kv s =
     (let s1 = s\<lparr>st_timer := False\<rparr> in
      case st_cache s of None \<Rightarrow> s1
      | Some c \<Rightarrow> (case kv_set kv STORAGE_KEY (serialize_cache c) (st_kv s) of
            Some k \<Rightarrow> s1\<lparr>st_kv := k\<rparr>
          | None \<Rightarrow> s1\<lparr>st_problems := st_problems s @ [StorageProblem]\<rparr>))"

text \<open>\<open>set\<close> ignores the object it already holds: \<open>same\<close> says that the operation returned its
  argument.\<close>

definition store_set :: "bool \<Rightarrow> meta_cache \<Rightarrow> 'k store \<Rightarrow> 'k store" where
  "store_set same c s = (if same then s else s\<lparr>st_cache := Some c, st_timer := True\<rparr>)"

definition store_open :: "('k, json) kv_ops \<Rightarrow> string \<Rightarrow> string \<Rightarrow> 'k store \<Rightarrow> 'k store" where
  "store_open kv i fp s = (case store_state kv s of (c, s1) \<Rightarrow>
     store_set (map_option cc_fp (map_of c i) = Some fp) (open_conn c i fp) s1)"

definition store_get ::
    "('k, json) kv_ops \<Rightarrow> string \<Rightarrow> string \<Rightarrow> int \<Rightarrow> 'k store \<Rightarrow> cached option \<times> 'k store" where
  "store_get kv i key now s =
     (case store_state kv s of (c, s1) \<Rightarrow>
        let hit = get_entry c i key now in
        (hit, if hit \<noteq> None then s1\<lparr>st_cache := Some (touch c i key now)\<rparr> else s1))"

definition store_put ::
    "('k, json) kv_ops \<Rightarrow> string \<Rightarrow> string \<Rightarrow> json \<Rightarrow> int \<Rightarrow> 'k store \<Rightarrow> 'k store" where
  "store_put kv i key value now s =
     (case store_state kv s of (c, s1) \<Rightarrow>
        (case put_entry c i key value now CACHE_CAP of (c', ok) \<Rightarrow>
           store_set (\<not> ok) c'
             (if \<not> ok \<and> has_key c i then s1\<lparr>st_problems := st_problems s1 @ [TooLarge]\<rparr> else s1)))"

definition store_list ::
    "('k, json) kv_ops \<Rightarrow> string \<Rightarrow> string \<Rightarrow> int \<Rightarrow> 'k store \<Rightarrow> (string \<times> cached) list \<times> 'k store" where
  "store_list kv i pre now s =
     (case store_state kv s of (c, s1) \<Rightarrow> (list_entries c i pre now, s1))"

definition store_invalidate_sql ::
    "('k, json) kv_ops \<Rightarrow> string \<Rightarrow> string \<Rightarrow> 'k store \<Rightarrow> ddl_targets \<times> 'k store" where
  "store_invalidate_sql kv i sql s =
     (case store_state kv s of (c, s1) \<Rightarrow> (ddl_targets_of sql,
        store_set (ddl_targets_of sql = NoTargets \<or> \<not> has_key c i) (invalidate_for_sql c i sql) s1))"

definition store_mark_stale :: "('k, json) kv_ops \<Rightarrow> string \<Rightarrow> 'k store \<Rightarrow> 'k store" where
  "store_mark_stale kv i s =
     (case store_state kv s of (c, s1) \<Rightarrow>
        store_set (\<not> has_key c i) (mark_stale c i (\<lambda>_. True)) s1)"

section \<open>Runs\<close>

text \<open>What can happen to the store: its operations, a restart of the program (a fresh store over
  the same storage) and writes of the other documents kept there.\<close>

inductive store_step :: "('k, json) kv_ops \<Rightarrow> 'k store \<Rightarrow> 'k store \<Rightarrow> bool" for kv where
  open_step: "store_step kv s (store_open kv i fp s)"
| get_step: "store_step kv s (snd (store_get kv i key now s))"
| put_step: "store_step kv s (store_put kv i key value now s)"
| list_step: "store_step kv s (snd (store_list kv i pre now s))"
| ddl_step: "store_step kv s (snd (store_invalidate_sql kv i sql s))"
| refresh_step: "store_step kv s (store_mark_stale kv i s)"
| flush_step: "store_step kv s (store_flush kv s)"
| restart_step: "store_step kv s (new_store (st_kv s))"
| other_step: "kv_set kv k v (st_kv s) = Some k' \<Longrightarrow> k \<noteq> STORAGE_KEY \<Longrightarrow> store_step kv s (s\<lparr>st_kv := k'\<rparr>)"

text \<open>From a storage that holds no cache yet.\<close>

inductive store_reach :: "('k, json) kv_ops \<Rightarrow> 'k store \<Rightarrow> bool" for kv where
  start: "kv_get kv k STORAGE_KEY = Some None \<Longrightarrow> store_reach kv (new_store k)"
| step: "store_reach kv s \<Longrightarrow> store_step kv s s' \<Longrightarrow> store_reach kv s'"

section \<open>What the store keeps of its cache\<close>

definition good_entries :: "cache_entry obj \<Rightarrow> bool" where
  "good_entries es \<longleftrightarrow> listed es \<and> (\<forall>e \<in> snd ` set es. 0 \<le> ce_size e)"

definition good_cache :: "meta_cache \<Rightarrow> bool" where
  "good_cache cache \<longleftrightarrow> listed cache \<and> (\<forall>c \<in> snd ` set cache. good_entries (cc_entries c)) \<and>
     total_size cache \<le> CACHE_CAP"

lemma values_obj_set: "snd ` set (obj_set k v ob) \<subseteq> insert v (snd ` set ob)"
  using set_obj_set [of k v ob] by force

lemma values_ball:
  "\<forall>x \<in> snd ` set ob. P x \<Longrightarrow> P v \<Longrightarrow> \<forall>x \<in> snd ` set (obj_set k v ob). P x"
  using values_obj_set [of k v ob] by (metis insertE subsetD)

lemma map_of_value: "map_of ob k = Some v \<Longrightarrow> v \<in> snd ` set ob"
  by (force dest: map_of_SomeD)

lemma good_conn: "good_cache cache \<Longrightarrow> map_of cache i = Some c \<Longrightarrow> good_entries (cc_entries c)"
  by (auto simp: good_cache_def dest: map_of_value)

lemma good_wf: "good_cache cache \<Longrightarrow> wf_cache cache"
  by (force simp: good_cache_def good_entries_def wf_cache_def intro: listed_wf)

lemma good_Nil: "good_cache []"
  by (simp add: good_cache_def total_size_def CACHE_CAP_def)

lemma good_entries_set:
  assumes "good_entries es" and "0 \<le> ce_size e"
  shows "good_entries (obj_set key e es)"
  using assms values_obj_set [of key e es] listed_obj_set [of es key e] unfolding good_entries_def by blast

lemma good_entries_del: "good_entries es \<Longrightarrow> good_entries (obj_del k es)"
  by (auto simp: good_entries_def intro: listed_obj_del) (auto simp: obj_del_def)

lemma entries_size_nonneg:
  assumes "good_entries es"
  shows "0 \<le> entries_size es"
proof -
  have "\<forall>x \<in> set (map (\<lambda>(k, e). ce_size e) es). 0 \<le> x"
    using assms by (force simp: good_entries_def)
  then show ?thesis unfolding entries_size_def by (intro sum_list_nonneg) blast
qed

lemma good_set_conn:
  assumes "good_cache cache" and "good_entries (cc_entries c)" and "total_size (obj_set i c cache) \<le> CACHE_CAP"
  shows "good_cache (obj_set i c cache)"
  using assms values_obj_set [of i c cache] listed_obj_set [of cache i c] unfolding good_cache_def by blast

lemma good_set_entries:
  assumes "good_cache cache" and "good_entries es" and "total_size (set_entries cache i c es) \<le> CACHE_CAP"
  shows "good_cache (set_entries cache i c es)"
  using assms(3) good_set_conn [OF assms(1), of "c\<lparr>cc_entries := es\<rparr>" i] assms(2) by (simp add: set_entries_def)

lemma good_open:
  assumes "good_cache cache"
  shows "good_cache (open_conn cache i fp)"
proof -
  have "total_size (obj_set i \<lparr>cc_fp = fp, cc_entries = []\<rparr> cache) \<le> total_size cache"
    using sum_obj_set [of "\<lambda>i c. entries_size (cc_entries c)" i "\<lparr>cc_fp = fp, cc_entries = []\<rparr>" cache]
      entries_size_nonneg [OF good_conn [OF assms, of i]]
    by (auto simp: total_size_def entries_size_def [of "[]"] split: option.splits)
  with assms have "good_cache (obj_set i \<lparr>cc_fp = fp, cc_entries = []\<rparr> cache)"
    by (intro good_set_conn) (auto simp: good_cache_def good_entries_def)
  with assms show ?thesis by (simp add: open_conn_def)
qed

lemma good_same_size:
  assumes "good_cache cache" and "map_of cache i = Some c" and "good_entries es"
    and "entries_size es = entries_size (cc_entries c)"
  shows "good_cache (set_entries cache i c es)"
proof (rule good_set_entries [OF assms(1,3)])
  show "total_size (set_entries cache i c es) \<le> CACHE_CAP"
    using assms(1,4) total_set_entries [OF assms(2)] by (simp add: good_cache_def)
qed

lemma good_touch:
  assumes "good_cache cache"
  shows "good_cache (touch cache i key now)"
proof (cases "entry_of cache i key")
  case (Some e)
  then obtain c where c: "map_of cache i = Some c" and e: "map_of (cc_entries c) key = Some e"
    by (auto simp: entry_of_def split: option.splits)
  note g = good_conn [OF assms c]
  have "0 \<le> ce_size e" using g map_of_value [OF e] unfolding good_entries_def by blast
  then have "good_entries (obj_set key (e\<lparr>ce_used := now\<rparr>) (cc_entries c))"
    by (intro good_entries_set g) simp
  moreover have "entries_size (obj_set key (e\<lparr>ce_used := now\<rparr>) (cc_entries c)) = entries_size (cc_entries c)"
    using sum_obj_set [of "\<lambda>k e. ce_size e" key "e\<lparr>ce_used := now\<rparr>" "cc_entries c"] e
    by (simp add: entries_size_def)
  ultimately show ?thesis using good_same_size [OF assms c] c e by (simp add: touch_def)
qed (use assms in \<open>auto simp: touch_def entry_of_def split: option.splits\<close>)

definition stale_marks :: "(string \<Rightarrow> bool) \<Rightarrow> cache_entry obj \<Rightarrow> cache_entry obj" where
  "stale_marks pred es = map (\<lambda>(k, e). (k, if pred k then e\<lparr>ce_stale := True\<rparr> else e)) es"

lemma good_stale_marks:
  assumes "good_entries es"
  shows "good_entries (stale_marks pred es)" and "entries_size (stale_marks pred es) = entries_size es"
proof -
  have "map fst (stale_marks pred es) = map fst es" by (auto simp: stale_marks_def)
  then have "listed (stale_marks pred es)"
    using assms listed_same_keys [of "stale_marks pred es" es] by (simp add: good_entries_def)
  then show "good_entries (stale_marks pred es)"
    using assms by (force simp: good_entries_def stale_marks_def)
  show "entries_size (stale_marks pred es) = entries_size es"
    by (induction es) (auto simp: stale_marks_def entries_size_def)
qed

lemma good_mark_stale:
  assumes "good_cache cache"
  shows "good_cache (mark_stale cache i pred)"
proof (cases "map_of cache i")
  case (Some c)
  then show ?thesis
    using good_same_size [OF assms Some] good_stale_marks [OF good_conn [OF assms Some], of pred]
    by (simp add: mark_stale_def stale_marks_def)
qed (use assms in \<open>simp add: mark_stale_def\<close>)

lemma good_invalidate: "good_cache cache \<Longrightarrow> good_cache (invalidate_for_sql cache i sql)"
  by (simp add: invalidate_for_sql_def good_mark_stale Let_def split: ddl_targets.splits)

lemma good_evict:
  assumes "listed cache" and "\<forall>c \<in> snd ` set cache. good_entries (cc_entries c)"
  shows "listed (evict cap vs tot cache) \<and> (\<forall>c \<in> snd ` set (evict cap vs tot cache). good_entries (cc_entries c))"
  using assms
proof (induction cap vs tot cache rule: evict.induct)
  case (2 cap i k e vs tot cache)
  show ?case
  proof (cases "tot \<le> cap \<or> map_of cache i = None")
    case True
    with 2(2,3) show ?thesis by auto
  next
    case False
    then obtain c where c: "map_of cache i = Some c" and "\<not> tot \<le> cap" by auto
    let ?c = "c\<lparr>cc_entries := obj_del k (cc_entries c)\<rparr>"
    have "good_entries (cc_entries c)" using 2(3) map_of_value [OF c] by blast
    then have "good_entries (cc_entries ?c)" by (simp add: good_entries_del)
    with 2(3) have "\<forall>c \<in> snd ` set (obj_set i ?c cache). good_entries (cc_entries c)"
      by (rule values_ball)
    note IH = 2(1) [OF \<open>\<not> tot \<le> cap\<close> c, unfolded set_entries_def, OF listed_obj_set [OF 2(2)] this]
    have "evict cap ((i, k, e) # vs) tot cache = evict cap vs (tot - ce_size e) (obj_set i ?c cache)"
      using c \<open>\<not> tot \<le> cap\<close> by (simp add: set_entries_def)
    then show ?thesis by (rule ssubst) (rule IH)
  qed
qed simp

lemma good_put:
  assumes "good_cache cache" and "put_entry cache i key v now CACHE_CAP = (out, ok)"
  shows "good_cache out"
proof (cases ok)
  case False
  with assms show ?thesis by (auto simp: put_entry_def Let_def split: option.splits if_splits)
next
  case True
  then obtain c where c: "map_of cache i = Some c"
    using assms(2) by (cases "map_of cache i") (auto simp: put_entry_def Let_def)
  define e where "e = \<lparr>ce_v = v, ce_at = now, ce_used = now,
    ce_size = int (length key) + int (length (stringify v)), ce_stale = False\<rparr>"
  define es where "es = obj_set key e (cc_entries c)"
  define nx where "nx = set_entries cache i c es"
  have es: "good_entries es"
    unfolding es_def by (intro good_entries_set good_conn [OF assms(1) c]) (simp add: e_def)
  then have "\<forall>c \<in> snd ` set nx. good_entries (cc_entries c)"
    using assms(1) unfolding nx_def set_entries_def good_cache_def by (intro values_ball) auto
  moreover have "listed nx"
    using assms(1) unfolding nx_def set_entries_def good_cache_def by (intro listed_obj_set) blast
  moreover have "(out, ok) = (cache, False) \<or> out = nx \<or> out = evict CACHE_CAP (victims nx i key) (total_size nx) nx"
    using assms(2) unfolding put_entry_def c option.case Let_def e_def [symmetric] es_def [symmetric] nx_def [symmetric]
    by (metis (full_types) Pair_inject)
  moreover have "total_size out \<le> CACHE_CAP"
    by (rule put_entry_spec [OF good_wf [OF assms(1)], of i key v now CACHE_CAP out]) (use assms(2) True in auto)
  ultimately show ?thesis
    using good_evict [of nx CACHE_CAP "victims nx i key" "total_size nx"] True unfolding good_cache_def by blast
qed

section \<open>Reading back\<close>

lemma parse_entry_json: "parse_entry (entry_json e) = Some e"
  by (cases "ce_stale e") (auto simp: parse_entry_def entry_json_def json_field_def json_num_def json_truthy_def)

lemma parse_conn_json:
  assumes "listed (cc_entries c)"
  shows "parse_conn_cache (JObj [(''fp'', JStr (cc_fp c)), (''e'', JObj (map (\<lambda>(k, e). (k, entry_json e)) (cc_entries c)))]) = Some c"
proof -
  have *: "concat (map (\<lambda>(k, v). case parse_entry v of None \<Rightarrow> [] | Some e \<Rightarrow> [(k, e)]) (map (\<lambda>(k, e). (k, entry_json e)) es)) = es" for es
    by (induction es) (auto simp: parse_entry_json)
  then show ?thesis
    using assms by (simp add: * parse_conn_cache_def json_field_def json_str_def json_entries_def listed_def del: map_map)
qed

lemma parse_serialize:
  assumes "good_cache cache"
  shows "parse_cache (Some (serialize_cache cache)) = cache"
proof -
  have *: "\<forall>c \<in> snd ` set cs. listed (cc_entries c) \<Longrightarrow>
    concat (map (\<lambda>(i, c). case parse_conn_cache c of None \<Rightarrow> [] | Some cc \<Rightarrow> [(i, cc)])
      (map (\<lambda>(i, c). (i, JObj [(''fp'', JStr (cc_fp c)), (''e'', JObj (map (\<lambda>(k, e). (k, entry_json e)) (cc_entries c)))])) cs)) = cs" for cs
    by (induction cs) (auto simp: parse_conn_json)
  with assms show ?thesis
    by (simp add: * parse_cache_def serialize_cache_def json_field_def json_entries_def good_cache_def good_entries_def
        listed_def [of cache] del: map_map)
qed

section \<open>The store over a lawful storage\<close>

locale meta_store = kv_interface kv for kv :: "('k, json) kv_ops"
begin

definition store_inv :: "'k store \<Rightarrow> bool" where
  "store_inv s \<longleftrightarrow> (\<forall>c. st_cache s = Some c \<longrightarrow> good_cache c) \<and>
     good_cache (load_doc kv STORAGE_KEY parse_cache (st_kv s))"

lemma state_inv:
  assumes "store_inv s" and "store_state kv s = (c, s1)"
  shows "good_cache c" and "st_kv s1 = st_kv s" and "st_cache s1 = Some c"
  using assms by (auto simp: store_inv_def store_state_def Let_def split: option.splits)

lemma inv_set:
  assumes "store_inv s" and "st_kv s1 = st_kv s" and "st_cache s1 = Some c0" and "good_cache c0" and "good_cache c"
  shows "store_inv (store_set same c s1)"
  using assms by (auto simp: store_inv_def store_set_def)

lemma inv_state_only: "store_inv s \<Longrightarrow> store_state kv s = (c, s1) \<Longrightarrow> store_inv s1"
  using state_inv [of s c s1] by (auto simp: store_inv_def)

lemma inv_flush:
  assumes "store_inv s"
  shows "store_inv (store_flush kv s)"
proof (cases "st_cache s")
  case (Some c)
  have g: "good_cache c" using assms Some by (simp add: store_inv_def)
  show ?thesis
  proof (cases "kv_set kv STORAGE_KEY (serialize_cache c) (st_kv s)")
    case (Some k)
    then have "load_doc kv STORAGE_KEY parse_cache k = c"
      using get_set [OF Some] parse_serialize [OF g] by (simp add: load_doc_def)
    with assms g Some \<open>st_cache s = Some c\<close> show ?thesis by (simp add: store_flush_def store_inv_def)
  qed (use assms Some in \<open>simp add: store_flush_def store_inv_def\<close>)
qed (use assms in \<open>simp add: store_flush_def store_inv_def\<close>)

lemma inv_step: "store_step kv s s' \<Longrightarrow> store_inv s \<Longrightarrow> store_inv s'"
proof (induction rule: store_step.induct)
  case (open_step s i fp)
  obtain c s1 where st: "store_state kv s = (c, s1)" by (cases "store_state kv s")
  with state_inv [OF open_step st] show ?case
    by (auto simp: store_open_def intro!: inv_set [OF open_step] good_open)
next
  case (get_step s i key now)
  obtain c s1 where st: "store_state kv s = (c, s1)" by (cases "store_state kv s")
  with state_inv [OF get_step st] inv_state_only [OF get_step st] show ?case
    using get_step by (auto simp: store_get_def Let_def store_inv_def intro: good_touch)
next
  case (put_step s i key v now)
  obtain c s1 where st: "store_state kv s = (c, s1)" by (cases "store_state kv s")
  obtain c' ok where p: "put_entry c i key v now CACHE_CAP = (c', ok)"
    by (cases "put_entry c i key v now CACHE_CAP")
  from state_inv [OF put_step st] good_put [OF _ p] st p show ?case
    by (auto simp: store_put_def intro!: inv_set [OF put_step])
next
  case (list_step s i pre now)
  obtain c s1 where st: "store_state kv s = (c, s1)" by (cases "store_state kv s")
  with inv_state_only [OF list_step st] show ?case by (simp add: store_list_def)
next
  case (ddl_step s i sql)
  obtain c s1 where st: "store_state kv s = (c, s1)" by (cases "store_state kv s")
  with state_inv [OF ddl_step st] show ?case
    by (auto simp: store_invalidate_sql_def intro!: inv_set [OF ddl_step] good_invalidate)
next
  case (refresh_step s i)
  obtain c s1 where st: "store_state kv s = (c, s1)" by (cases "store_state kv s")
  with state_inv [OF refresh_step st] show ?case
    by (auto simp: store_mark_stale_def intro!: inv_set [OF refresh_step] good_mark_stale)
next
  case (flush_step s)
  then show ?case by (rule inv_flush)
next
  case (restart_step s)
  then show ?case by (simp add: store_inv_def new_store_def)
next
  case (other_step k v s k')
  then have "load_doc kv STORAGE_KEY parse_cache k' = load_doc kv STORAGE_KEY parse_cache (st_kv s)"
    using get_other [OF other_step(1), of STORAGE_KEY] by (simp add: load_doc_def)
  with other_step show ?case by (simp add: store_inv_def)
qed

lemma reach_inv: "store_reach kv s \<Longrightarrow> store_inv s"
proof (induction rule: store_reach.induct)
  case (start k)
  then show ?case by (simp add: store_inv_def new_store_def load_doc_def parse_cache_def good_Nil)
qed (rule inv_step)

lemma restart_state:
  assumes "store_reach kv s" and "st_cache s = Some c"
    and "accepts kv STORAGE_KEY serialize_cache c (st_kv s)"
  shows "fst (store_state kv (new_store (st_kv (store_flush kv s)))) = c"
proof -
  obtain k where k: "kv_set kv STORAGE_KEY (serialize_cache c) (st_kv s) = Some k"
    using assms(3) by (auto simp: accepts_def)
  have "good_cache c" using reach_inv [OF assms(1)] assms(2) by (simp add: store_inv_def)
  then have "load_doc kv STORAGE_KEY parse_cache k = c"
    using get_set [OF k] by (simp add: load_doc_def parse_serialize)
  with k assms(2) show ?thesis by (simp add: store_flush_def store_state_def new_store_def)
qed

end

interpretation app_cache: meta_store "resolved_ops memory_ops"
  by (rule meta_store.intro) (rule app.kv_interface_axioms)

section \<open>Properties\<close>

lemma resolved_meta_store: "kv_interface ls \<Longrightarrow> meta_store (resolved_ops ls)"
  by (rule meta_store.intro) (rule resolved_interface)

text \<open>A program that has bound one connection, over the in-memory storage.\<close>

definition opened_store :: "(json memory, json) resolved store" where
  "opened_store = store_open (resolved_ops memory_ops) ''c'' ''fp'' (new_store (Fallback []))"

lemma opened_reach: "store_reach (resolved_ops memory_ops) opened_store"
proof -
  have "store_reach (resolved_ops memory_ops) (new_store (Fallback []))"
    by (rule store_reach.start) (simp add: resolved_ops_def memory_ops_def)
  from store_reach.step [OF this store_step.open_step] show ?thesis unfolding opened_store_def .
qed

lemma opened_cache: "st_cache opened_store = Some [(''c'', \<lparr>cc_fp = ''fp'', cc_entries = []\<rparr>)]"
  by (simp add: opened_store_def store_open_def store_state_def new_store_def store_set_def open_conn_def
      load_doc_def resolved_ops_def memory_ops_def parse_cache_def obj_set_def has_key_def Let_def)

text \<open>C20. Over any storage that keeps what it is given, every cache the running program holds has
  one entry per key, is within the cap and is exactly what would be read back from its stored
  form, whatever operations, restarts and writes of other documents came before.\<close>

theorem meta_cache_invariant:
  assumes "kv_interface ls" and "store_reach (resolved_ops ls) s" and "st_cache s = Some c"
  shows "wf_cache c \<and> total_size c \<le> CACHE_CAP \<and> parse_cache (Some (serialize_cache c)) = c"
proof -
  have "good_cache c"
    using meta_store.reach_inv [OF resolved_meta_store [OF assms(1)] assms(2)] assms(3)
    by (simp add: meta_store.store_inv_def [OF resolved_meta_store [OF assms(1)]])
  then show ?thesis by (simp add: good_wf parse_serialize) (simp add: good_cache_def)
qed

theorem meta_cache_invariant_witness:
  "let s = opened_store in wf_cache (the (st_cache s)) \<and> total_size (the (st_cache s)) \<le> CACHE_CAP \<and>
     map_of (the (st_cache s)) ''c'' \<noteq> None"
  using meta_cache_invariant [OF memory.kv_interface_axioms opened_reach opened_cache]
  unfolding Let_def opened_cache by simp

text \<open>C21. Whatever the program did before, a flush that the storage takes makes the cache survive a
  restart: the new program starts with the very cache the old one had, and no other document
  of the storage is touched.\<close>

theorem cache_survives_restart:
  assumes "kv_interface ls" and "store_reach (resolved_ops ls) s" and "st_cache s = Some c"
    and "accepts (resolved_ops ls) STORAGE_KEY serialize_cache c (st_kv s)"
  shows "fst (store_state (resolved_ops ls) (new_store (st_kv (store_flush (resolved_ops ls) s)))) = c \<and>
    (\<forall>k. k \<noteq> STORAGE_KEY \<longrightarrow>
       kv_get (resolved_ops ls) (st_kv (store_flush (resolved_ops ls) s)) k = kv_get (resolved_ops ls) (st_kv s) k)"
proof
  show "fst (store_state (resolved_ops ls) (new_store (st_kv (store_flush (resolved_ops ls) s)))) = c"
    by (rule meta_store.restart_state [OF resolved_meta_store [OF assms(1)] assms(2-4)])
  show "\<forall>k. k \<noteq> STORAGE_KEY \<longrightarrow>
       kv_get (resolved_ops ls) (st_kv (store_flush (resolved_ops ls) s)) k = kv_get (resolved_ops ls) (st_kv s) k"
    using kv_interface.get_other [OF resolved_interface [OF assms(1)]] assms(3,4)
    by (auto simp: store_flush_def accepts_def)
qed

theorem cache_survives_restart_witness:
  "fst (store_state (resolved_ops memory_ops) (new_store (st_kv (store_flush (resolved_ops memory_ops) opened_store)))) =
     [(''c'', \<lparr>cc_fp = ''fp'', cc_entries = []\<rparr>)]"
proof -
  have "accepts (resolved_ops memory_ops) STORAGE_KEY serialize_cache c (st_kv opened_store)" for c
    by (simp add: accepts_def opened_store_def store_open_def store_state_def store_set_def new_store_def
        resolved_ops_def memory_ops_def Let_def)
  from conjunct1 [OF cache_survives_restart [OF memory.kv_interface_axioms opened_reach opened_cache this]] show ?thesis .
qed

end
