(* ===== verification/CorePaging.thy ===== *)
theory CorePaging
  imports CoreTx
begin

text \<open>
  The core's side of reading a result page by page: \<open>core/src/query/materialize.c\<close>,
  \<open>core/src/query/run.c\<close>, \<open>core/src/ipc/query_methods.c\<close> and the cursor of a connection slot
  (\<open>core/src/conn/manager.c\<close>). A driver is a plugin: running a query is a parameter, and the
  result it hands out is the rows that \<open>next_row\<close> has still to give and how it ends. Memory
  does not run out, and text is passed on as it is (the UTF-8 guard is the identity on it).
\<close>

section \<open>Live results and connections\<close>

record live_result =
  lr_cols :: "column list"
  lr_rows :: "cell list list"
  lr_ok :: bool
  lr_affected :: int

record 'h query_driver =
  qd_query :: "string \<Rightarrow> 'h \<Rightarrow> db_status \<times> live_result option \<times> 'h"
  qd_last_error :: "'h \<Rightarrow> string option"

record 'h query_slot =
  qs_driver :: "'h query_driver"
  qs_handle :: 'h
  qs_cursor :: "live_result option"

type_synonym 'h query_conns = "(int \<times> 'h query_slot) list"

text \<open>The error buffer holds 255 characters.\<close>

definition copy_error :: "string option \<Rightarrow> string" where
  "copy_error msg = take 255 (default ''unknown error'' msg)"

section \<open>One page\<close>

text \<open>The fetch loop: the rows taken so far, then the rows taken, whether the page was cut, the
  rows left in the driver's result and whether \<open>next_row\<close> was asked past the last one.\<close>

fun page_loop :: "bool \<Rightarrow> nat \<Rightarrow> nat \<Rightarrow> nat \<Rightarrow> cell list list \<Rightarrow> cell list list \<Rightarrow>
    cell list list \<times> bool \<times> cell list list \<times> bool" where
  "page_loop keep mx off skipped acc [] =
     (if keep \<and> 0 < mx \<and> mx \<le> length acc then (acc, True, [], False) else (acc, False, [], True))"
| "page_loop keep mx off skipped acc (r # rest) =
     (if keep \<and> 0 < mx \<and> mx \<le> length acc then (acc, True, r # rest, False)
      else if 0 < off \<and> skipped < off then page_loop keep mx off (Suc skipped) acc rest
      else if 0 < mx \<and> mx \<le> length acc then (acc, True, rest, False)
      else page_loop keep mx off skipped (acc @ [r]) rest)"

definition materialize ::
    "'h query_driver \<Rightarrow> 'h \<Rightarrow> live_result \<Rightarrow> nat \<Rightarrow> nat \<Rightarrow> bool \<Rightarrow>
       (db_status \<times> string, result_set \<times> live_result option) result" where
  "materialize drv h lr mx off keep =
     (case (if lr_cols lr = [] then ([], False, lr_rows lr, False)
            else page_loop keep mx off 0 [] (lr_rows lr)) of
        (rows, full, rest, ended) \<Rightarrow>
          if ended \<and> \<not> lr_ok lr then Inl (DbQuery, copy_error (qd_last_error drv h))
          else Inr (\<lparr>rs_columns = lr_cols lr, rs_rows = rows, rs_truncated = full, rs_cursor = False,
                     rs_affected = lr_affected lr\<rparr>,
                    if keep \<and> full then Some (lr\<lparr>lr_rows := rest\<rparr>) else None))"

section \<open>Running a query\<close>

text \<open>\<open>dbcore_query_run\<close> and \<open>dbcore_query_open\<close>: \<open>keep\<close> asks for the cursor.\<close>

definition core_query ::
    "'h query_slot \<Rightarrow> string \<Rightarrow> nat \<Rightarrow> nat \<Rightarrow> bool \<Rightarrow>
       (db_status \<times> string, result_set \<times> live_result option) result \<times> 'h" where
  "core_query sl sql mx off keep =
     (case qd_query (qs_driver sl) sql (qs_handle sl) of (st, lr, h) \<Rightarrow>
        (if st \<noteq> DbOk then Inl (st, copy_error (qd_last_error (qs_driver sl) h))
         else (case lr of
             None \<Rightarrow> Inl (DbQuery, ''driver reported success but returned no result'')
           | Some lr \<Rightarrow> materialize (qs_driver sl) h lr mx off keep), h))"

section \<open>The methods\<close>

definition QUERY_DEFAULT_LIMIT :: int where "QUERY_DEFAULT_LIMIT = 1000"

definition param_of :: "json option \<Rightarrow> string \<Rightarrow> json option" where
  "param_of params k = Option.bind params (\<lambda>p. json_field p k)"

definition bad_params :: "string \<Rightarrow> int \<times> string" where
  "bad_params msg = (- 32602, msg)"

definition query_conn_id :: "json option \<Rightarrow> (int \<times> string, int) result" where
  "query_conn_id params =
     (case json_str (param_of params ''connId'') of
        None \<Rightarrow> Inl (bad_params ''params.connId (string) is required'')
      | Some s \<Rightarrow> (case conn_id_parse s of None \<Rightarrow> Inl (bad_params ''malformed connId'') | Some i \<Rightarrow> Inr i))"

definition query_limit :: "json option \<Rightarrow> (int \<times> string, nat) result" where
  "query_limit params =
     (case param_of params ''limit'' of
        None \<Rightarrow> Inr (nat QUERY_DEFAULT_LIMIT)
      | Some (JNum n) \<Rightarrow> if 1 \<le> n \<and> n \<le> INT_MAX then Inr (nat n)
          else Inl (bad_params ''params.limit must be a positive integer'')
      | _ \<Rightarrow> Inl (bad_params ''params.limit must be a positive integer''))"

definition query_offset :: "json option \<Rightarrow> (int \<times> string, nat) result" where
  "query_offset params =
     (case param_of params ''offset'' of
        None \<Rightarrow> Inr 0
      | Some (JNum n) \<Rightarrow> if 0 \<le> n \<and> n \<le> INT_MAX then Inr (nat n)
          else Inl (bad_params ''params.offset must be a non-negative integer'')
      | _ \<Rightarrow> Inl (bad_params ''params.offset must be a non-negative integer''))"

definition query_cursor :: "json option \<Rightarrow> (int \<times> string, bool) result" where
  "query_cursor params =
     (case param_of params ''cursor'' of
        None \<Rightarrow> Inr False
      | Some (JBool b) \<Rightarrow> Inr b
      | _ \<Rightarrow> Inl (bad_params ''params.cursor must be a boolean''))"

definition fail_with :: "int \<times> string \<Rightarrow> response" where
  "fail_with e = rpc_fail (fst e) (snd e)"

definition query_failed :: "db_status \<times> string \<Rightarrow> response" where
  "query_failed e = rpc_fail (status_to_code (fst e)) (if snd e \<noteq> [] then snd e else ''query failed'')"

definition cell_json :: "cell \<Rightarrow> json" where
  "cell_json c = (case c of None \<Rightarrow> JNull | Some s \<Rightarrow> JStr s)"

definition column_json :: "column \<Rightarrow> json" where
  "column_json c = JObj [(''name'', JStr (col_name c)), (''type'', JStr (col_type c))]"

definition page_json :: "result_set \<Rightarrow> bool \<Rightarrow> json" where
  "page_json r cursor_open =
     JObj ([(''columns'', JArr (map column_json (rs_columns r))),
            (''rows'', JArr (map (\<lambda>row. JArr (map cell_json row)) (rs_rows r))),
            (''truncated'', JBool (rs_truncated r)),
            (''rowsAffected'', JNum (rs_affected r))] @
           (if cursor_open then [(''cursor'', JBool True)] else []))"

definition put_slot :: "int \<Rightarrow> 'h query_slot \<Rightarrow> 'h query_conns \<Rightarrow> 'h query_conns" where
  "put_slot cid sl mgr = assoc_update cid sl mgr"

definition query_run_on ::
    "int \<Rightarrow> 'h query_slot \<Rightarrow> string \<Rightarrow> nat \<Rightarrow> nat \<Rightarrow> bool \<Rightarrow> 'h query_conns \<Rightarrow> response \<times> 'h query_conns" where
  "query_run_on cid sl sql mx off keep mgr =
     (let kept = (if keep then None else qs_cursor sl) in
      case core_query sl sql mx off keep of
        (Inl e, h) \<Rightarrow> (query_failed e, put_slot cid (sl\<lparr>qs_handle := h, qs_cursor := kept\<rparr>) mgr)
      | (Inr (page, cur), h) \<Rightarrow>
          (Inr (page_json page (cur \<noteq> None)),
           put_slot cid (sl\<lparr>qs_handle := h, qs_cursor := (if cur \<noteq> None then cur else kept)\<rparr>) mgr))"

definition method_query_run :: "json option \<Rightarrow> 'h query_conns \<Rightarrow> response \<times> 'h query_conns" where
  "method_query_run params mgr =
     (case query_conn_id params of Inl e \<Rightarrow> (fail_with e, mgr)
      | Inr cid \<Rightarrow> (case json_str (param_of params ''sql'') of
          None \<Rightarrow> (fail_with (bad_params ''params.sql (string) is required''), mgr)
        | Some sql \<Rightarrow> (case query_limit params of Inl e \<Rightarrow> (fail_with e, mgr)
          | Inr mx \<Rightarrow> (case query_offset params of Inl e \<Rightarrow> (fail_with e, mgr)
            | Inr off \<Rightarrow> (case query_cursor params of Inl e \<Rightarrow> (fail_with e, mgr)
              | Inr keep \<Rightarrow>
                  if keep \<and> 0 < off
                  then (fail_with (bad_params ''params.cursor cannot be combined with params.offset''), mgr)
                  else (case map_of mgr cid of
                      None \<Rightarrow> (rpc_fail (- 32002) ''unknown connection id'', mgr)
                    | Some sl \<Rightarrow> query_run_on cid sl sql mx off keep mgr))))))"

definition query_next_on ::
    "int \<Rightarrow> 'h query_slot \<Rightarrow> nat \<Rightarrow> 'h query_conns \<Rightarrow> response \<times> 'h query_conns" where
  "query_next_on cid sl mx mgr =
     (case qs_cursor sl of
        None \<Rightarrow> (rpc_fail (- 32002) ''no open cursor for this connection'', mgr)
      | Some lr \<Rightarrow>
          (case materialize (qs_driver sl) (qs_handle sl) lr mx 0 True of
             Inl e \<Rightarrow> (query_failed e, put_slot cid (sl\<lparr>qs_cursor := None\<rparr>) mgr)
           | Inr (page, cur) \<Rightarrow>
               (Inr (page_json page (cur \<noteq> None)), put_slot cid (sl\<lparr>qs_cursor := cur\<rparr>) mgr)))"

definition method_query_next :: "json option \<Rightarrow> 'h query_conns \<Rightarrow> response \<times> 'h query_conns" where
  "method_query_next params mgr =
     (case query_conn_id params of Inl e \<Rightarrow> (fail_with e, mgr)
      | Inr cid \<Rightarrow> (case query_limit params of Inl e \<Rightarrow> (fail_with e, mgr)
        | Inr mx \<Rightarrow> (case map_of mgr cid of
            None \<Rightarrow> (rpc_fail (- 32002) ''unknown connection id'', mgr)
          | Some sl \<Rightarrow> query_next_on cid sl mx mgr)))"

definition method_cursor_close :: "json option \<Rightarrow> 'h query_conns \<Rightarrow> response \<times> 'h query_conns" where
  "method_cursor_close params mgr =
     (case query_conn_id params of Inl e \<Rightarrow> (fail_with e, mgr)
      | Inr cid \<Rightarrow> (case map_of mgr cid of
          None \<Rightarrow> (rpc_fail (- 32002) ''unknown connection id'', mgr)
        | Some sl \<Rightarrow> (Inr (JObj [(''closed'', JBool (qs_cursor sl \<noteq> None))]),
            put_slot cid (sl\<lparr>qs_cursor := None\<rparr>) mgr)))"

text \<open>The channel to the core for these methods.\<close>

definition query_channel :: "'h query_conns channel" where
  "query_channel m params mgr =
     (case (if m = ''query.run'' then method_query_run params mgr
            else if m = ''query.next'' then method_query_next params mgr
            else if m = ''query.cursorClose'' then method_cursor_close params mgr
            else (rpc_fail (- 32601) ''method not found'', mgr)) of
        (res, mgr') \<Rightarrow> (Inr res, mgr'))"

section \<open>What a page holds\<close>

lemma page_loop_keep:
  "length acc \<le> mx \<Longrightarrow> 0 < mx \<Longrightarrow> page_loop True mx 0 0 acc rows =
     (acc @ take (mx - length acc) rows, mx - length acc \<le> length rows, drop (mx - length acc) rows,
      length rows < mx - length acc)"
proof (induction rows arbitrary: acc)
  case (Cons r rows)
  show ?case
  proof (cases "mx = length acc")
    case False
    then have "mx - length acc = Suc (mx - length (acc @ [r]))" and "\<not> mx \<le> length acc"
      using Cons.prems by auto
    with Cons.IH [of "acc @ [r]"] Cons.prems show ?thesis by simp
  qed (use Cons.prems in simp)
qed auto

lemma materialize_cursor:
  assumes "0 < mx" and "lr_cols lr \<noteq> []"
  shows "materialize drv h lr mx 0 True =
    (if length (lr_rows lr) < mx \<and> \<not> lr_ok lr then Inl (DbQuery, copy_error (qd_last_error drv h))
     else Inr (\<lparr>rs_columns = lr_cols lr, rs_rows = take mx (lr_rows lr), rs_truncated = mx \<le> length (lr_rows lr),
                rs_cursor = False, rs_affected = lr_affected lr\<rparr>,
               if mx \<le> length (lr_rows lr) then Some (lr\<lparr>lr_rows := drop mx (lr_rows lr)\<rparr>) else None))"
  using assms by (simp add: materialize_def page_loop_keep)

lemma map_of_put_slot:
  "map_of mgr cid = Some sl \<Longrightarrow> map_of (put_slot cid sl' mgr) = (map_of mgr)(cid \<mapsto> sl')"
  by (simp add: put_slot_def map_of_assoc_update has_key_map_of)

end
