(* ===== verification/Query.thy ===== *)
theory Query
  imports CorePaging Objects
begin

text \<open>
  Running queries from the frontend (\<open>query.ts\<close>): the normalised result of a response, the
  calls, the walks that read a whole result page by page, and scripts run statement by
  statement. A walk may meet a core that never ends a result, so its loop is partial: that it
  returns is proved against the core of \<open>CorePaging\<close>.
\<close>

section \<open>Reading a response\<close>

definition json_items :: "json option \<Rightarrow> json list" where
  "json_items j = (case j of Some (JArr xs) \<Rightarrow> xs | _ \<Rightarrow> [])"

text \<open>The elements are taken as they are; a malformed one is read as empty text or NULL.\<close>

definition column_of :: "json \<Rightarrow> column" where
  "column_of j = \<lparr>col_name = default [] (json_str (json_field j ''name'')),
     col_type = default [] (json_str (json_field j ''type''))\<rparr>"

definition row_of :: "json \<Rightarrow> cell list" where
  "row_of j = map (\<lambda>c. json_str (Some c)) (json_items (Some j))"

definition parse_query_result :: "response \<Rightarrow> (js_error, result_set) result" where
  "parse_query_result res =
     (case res of
        Inl e \<Rightarrow> Inl (QueryError e)
      | Inr r \<Rightarrow> Inr \<lparr>rs_columns = map column_of (json_items (json_field r ''columns'')),
          rs_rows = map row_of (json_items (json_field r ''rows'')),
          rs_truncated = json_truthy (json_field r ''truncated''),
          rs_cursor = json_truthy (json_field r ''cursor''),
          rs_affected = default 0 (json_num (json_field r ''rowsAffected''))\<rparr>)"

section \<open>The calls\<close>

definition run_query_params ::
    "string \<Rightarrow> string \<Rightarrow> int option \<Rightarrow> int option \<Rightarrow> bool \<Rightarrow> json" where
  "run_query_params conn sql lim off cur =
     JObj ([(''connId'', JStr conn), (''sql'', JStr sql)] @
           (case lim of None \<Rightarrow> [] | Some n \<Rightarrow> [(''limit'', JNum n)]) @
           (case off of Some k \<Rightarrow> if 0 < k then [(''offset'', JNum k)] else [] | None \<Rightarrow> []) @
           (if cur \<and> \<not> (off \<noteq> None \<and> 0 < the off) then [(''cursor'', JBool True)] else []))"

definition called :: "'w channel \<Rightarrow> string \<Rightarrow> json \<Rightarrow> (result_set, 'w) effect" where
  "called ch m params w =
     (case ch m (Some params) w of
        (Inl e, w') \<Rightarrow> (Inl e, w')
      | (Inr res, w') \<Rightarrow> (parse_query_result res, w'))"

definition run_query_call ::
    "'w channel \<Rightarrow> string \<Rightarrow> string \<Rightarrow> int option \<Rightarrow> int option \<Rightarrow> bool \<Rightarrow> (result_set, 'w) effect" where
  "run_query_call ch conn sql lim off cur = called ch ''query.run'' (run_query_params conn sql lim off cur)"

definition query_next :: "'w channel \<Rightarrow> string \<Rightarrow> int option \<Rightarrow> (result_set, 'w) effect" where
  "query_next ch conn lim = called ch ''query.next''
     (JObj ((''connId'', JStr conn) # (case lim of None \<Rightarrow> [] | Some n \<Rightarrow> [(''limit'', JNum n)])))"

definition close_cursor :: "'w channel \<Rightarrow> string \<Rightarrow> (unit, 'w) effect" where
  "close_cursor ch conn w =
     (case ch ''query.cursorClose'' (Some (JObj [(''connId'', JStr conn)])) w of
        (Inl e, w') \<Rightarrow> (Inl e, w') | (Inr res, w') \<Rightarrow> (Inr (), w'))"

section \<open>Reading everything\<close>

text \<open>What surrounds a walk: the abort signal, and what happens between pages -- the progress
  callback and everything else the program does meanwhile -- as a change of the world.\<close>

record 'w walk_env =
  we_channel :: "'w channel"
  we_aborted :: "'w \<Rightarrow> bool"
  we_reason :: js_error
  we_progress :: "nat \<Rightarrow> 'w \<Rightarrow> 'w"

definition cursor_gone :: js_error where
  "cursor_gone = QueryError \<lparr>er_code = - 32002, er_message = ''the paging cursor was lost mid-export'', er_data = None\<rparr>"

partial_function (option) drain_cursor_loop ::
    "'w walk_env \<Rightarrow> string \<Rightarrow> int \<Rightarrow> nat \<Rightarrow> cell list list \<Rightarrow> 'w \<Rightarrow>
       ((js_error, cell list list) result \<times> 'w) option" where
  "drain_cursor_loop env conn psize seen rows w =
     (if we_aborted env w then Some (Inl (we_reason env), w)
      else case query_next (we_channel env) conn (Some psize) w of
        (r, w1) \<Rightarrow> (case r of Inl e \<Rightarrow> Some (Inl e, w1)
          | Inr page \<Rightarrow>
              let rows' = rows @ rs_rows page; w2 = we_progress env (seen + length rows') w1 in
              if \<not> rs_truncated page \<or> rs_rows page = [] then Some (Inr rows', w2)
              else if \<not> rs_cursor page then Some (Inl cursor_gone, w2)
              else drain_cursor_loop env conn psize seen rows' w2))"

definition drain_cursor ::
    "'w walk_env \<Rightarrow> string \<Rightarrow> int \<Rightarrow> nat \<Rightarrow> 'w \<Rightarrow> ((js_error, cell list list) result \<times> 'w) option" where
  "drain_cursor env conn psize seen w = drain_cursor_loop env conn psize seen [] w"

partial_function (option) drain_loop ::
    "'w walk_env \<Rightarrow> string \<Rightarrow> string \<Rightarrow> int \<Rightarrow> cell list list \<Rightarrow> result_set \<Rightarrow> 'w \<Rightarrow>
       ((js_error, cell list list) result \<times> result_set \<times> 'w) option" where
  "drain_loop env conn sql psize rows page w =
     (if \<not> rs_truncated page then Some (Inr rows, page, w)
      else if we_aborted env w then Some (Inl (we_reason env), page, w)
      else case (if rs_cursor page then query_next (we_channel env) conn (Some psize) w
                 else run_query_call (we_channel env) conn sql (Some psize) (Some (int (length rows))) False w) of
        (r, w1) \<Rightarrow> (case r of Inl e \<Rightarrow> Some (Inl e, page, w1)
          | Inr p \<Rightarrow>
              if rs_rows p = [] then Some (Inr rows, p, w1)
              else drain_loop env conn sql psize (rows @ rs_rows p) p
                (we_progress env (length (rows @ rs_rows p)) w1)))"

definition drain_query ::
    "'w walk_env \<Rightarrow> string \<Rightarrow> string \<Rightarrow> int \<Rightarrow> 'w \<Rightarrow> ((js_error, result_set) result \<times> 'w) option" where
  "drain_query env conn sql psize w =
     (if we_aborted env w then Some (Inl (we_reason env), w)
      else case run_query_call (we_channel env) conn sql (Some psize) (Some 0) True w of
        (Inl e, w1) \<Rightarrow> Some (Inl e, w1)
      | (Inr first, w1) \<Rightarrow>
          (case drain_loop env conn sql psize (rs_rows first) first
                  (we_progress env (length (rs_rows first)) w1) of
             None \<Rightarrow> None
           | Some (r, page, w2) \<Rightarrow>
               let w3 = (if rs_cursor page then snd (close_cursor (we_channel env) conn w2) else w2) in
               Some (case r of Inl e \<Rightarrow> Inl e
                 | Inr rows \<Rightarrow> Inr (first\<lparr>rs_rows := rows, rs_truncated := False, rs_cursor := False\<rparr>), w3)))"

section \<open>Scripts\<close>

text \<open>What one statement returned; the time it took is left out.\<close>

record statement_run =
  sr_sql :: string
  sr_result :: "result_set option"
  sr_error :: "js_error option"

text \<open>\<open>exec\<close> wraps the run of a statement; \<open>done\<close> hears the runs so far.\<close>

fun run_statements ::
    "'w channel \<Rightarrow> string \<Rightarrow> int option \<Rightarrow> (string \<Rightarrow> (result_set, 'w) effect \<Rightarrow> (result_set, 'w) effect) \<Rightarrow>
       (statement_run list \<Rightarrow> 'w \<Rightarrow> 'w) \<Rightarrow> string list \<Rightarrow> statement_run list \<Rightarrow> 'w \<Rightarrow> statement_run list \<times> 'w" where
  "run_statements ch conn lim exec finished [] sofar w = (sofar, w)"
| "run_statements ch conn lim exec finished (sql # stmts) sofar w =
     (case exec sql (run_query_call ch conn sql lim None False) w of
        (Inr r, w1) \<Rightarrow>
          let sofar' = sofar @ [\<lparr>sr_sql = sql, sr_result = Some r, sr_error = None\<rparr>]
          in run_statements ch conn lim exec finished stmts sofar' (finished sofar' w1)
      | (Inl e, w1) \<Rightarrow>
          let sofar' = sofar @ [\<lparr>sr_sql = sql, sr_result = None, sr_error = Some e\<rparr>]
          in (sofar', finished sofar' w1))"

definition script_affected :: "statement_run list \<Rightarrow> int" where
  "script_affected sofar = sum_list (map rs_affected (List.map_filter sr_result sofar))"

definition script_shown :: "statement_run list \<Rightarrow> result_set option" where
  "script_shown sofar =
     (case filter (\<lambda>r. rs_columns r \<noteq> []) (List.map_filter sr_result sofar) of
        [] \<Rightarrow> (case sofar of [] \<Rightarrow> None | _ \<Rightarrow> sr_result (last sofar))
      | rs \<Rightarrow> Some (last rs))"

definition run_script ::
    "'w channel \<Rightarrow> string \<Rightarrow> string list \<Rightarrow> int option \<Rightarrow> (result_set, 'w) effect" where
  "run_script ch conn stmts lim w =
     (case run_statements ch conn lim (\<lambda>_ run. run) (\<lambda>_ w. w) stmts [] w of (sofar, w') \<Rightarrow>
        (case List.find (\<lambda>r. sr_error r \<noteq> None) sofar of
           Some r \<Rightarrow> Inl (the (sr_error r))
         | None \<Rightarrow> Inr (case script_shown sofar of
               None \<Rightarrow> \<lparr>rs_columns = [], rs_rows = [], rs_truncated = False, rs_cursor = False, rs_affected = script_affected sofar\<rparr>
             | Some s \<Rightarrow> \<lparr>rs_columns = rs_columns s, rs_rows = rs_rows s, rs_truncated = rs_truncated s,
                 rs_cursor = False, rs_affected = script_affected sofar\<rparr>), w'))"

section \<open>Against the core\<close>

lemma param_simps [simp]:
  "param_of (Some (JObj ob)) k = map_of ob k"
  by (simp add: param_of_def json_field_def)

lemma parse_page: "parse_query_result (Inr (page_json r c)) = Inr (r\<lparr>rs_cursor := c\<rparr>)"
proof -
  have "column_of (column_json c) = c" for c
    by (simp add: column_of_def column_json_def json_field_def json_str_def)
  moreover have "row_of (JArr (map cell_json row)) = row" for row
    by (induction row) (auto simp: row_of_def json_items_def cell_json_def json_str_def split: option.splits)
  ultimately show ?thesis
    by (cases c) (auto simp: parse_query_result_def page_json_def json_field_def json_items_def json_truthy_def
        json_num_def comp_def)
qed

text \<open>The two calls of a walk, on a connection the core knows.\<close>

definition next_page :: "'h query_slot \<Rightarrow> live_result \<Rightarrow> nat \<Rightarrow> (js_error, result_set) result \<times> 'h query_slot" where
  "next_page sl lr n =
     (if length (lr_rows lr) < n \<and> \<not> lr_ok lr
      then (Inl (QueryError \<lparr>er_code = status_to_code DbQuery,
              er_message = (if copy_error (qd_last_error (qs_driver sl) (qs_handle sl)) \<noteq> []
                then copy_error (qd_last_error (qs_driver sl) (qs_handle sl)) else ''query failed''), er_data = None\<rparr>),
            sl\<lparr>qs_cursor := None\<rparr>)
      else (Inr \<lparr>rs_columns = lr_cols lr, rs_rows = take n (lr_rows lr), rs_truncated = n \<le> length (lr_rows lr),
              rs_cursor = n \<le> length (lr_rows lr), rs_affected = lr_affected lr\<rparr>,
            sl\<lparr>qs_cursor := if n \<le> length (lr_rows lr) then Some (lr\<lparr>lr_rows := drop n (lr_rows lr)\<rparr>) else None\<rparr>))"

lemma query_failed_parse:
  "parse_query_result (query_failed e) = Inl (QueryError \<lparr>er_code = status_to_code (fst e),
     er_message = (if snd e \<noteq> [] then snd e else ''query failed''), er_data = None\<rparr>)"
  by (simp add: query_failed_def rpc_fail_def parse_query_result_def)

lemma query_next_core:
  assumes "map_of w cid = Some sl" and "conn_id_parse conn = Some cid" and "1 \<le> n" and "int n \<le> INT_MAX"
    and "qs_cursor sl = Some lr" and "lr_cols lr \<noteq> []"
  shows "query_next query_channel conn (Some (int n)) w =
    (fst (next_page sl lr n), put_slot cid (snd (next_page sl lr n)) w)"
  using assms
  by (auto simp: query_next_def called_def query_channel_def method_query_next_def query_conn_id_def json_str_def
      query_limit_def query_next_on_def materialize_cursor next_page_def query_failed_parse parse_page)

lemma query_next_gone:
  assumes "map_of w cid = Some sl" and "conn_id_parse conn = Some cid" and "1 \<le> n" and "int n \<le> INT_MAX"
    and "qs_cursor sl = None"
  shows "query_next query_channel conn (Some (int n)) w =
    (Inl (QueryError \<lparr>er_code = - 32002, er_message = ''no open cursor for this connection'', er_data = None\<rparr>), w)"
  using assms
  by (simp add: query_next_def called_def query_channel_def method_query_next_def query_conn_id_def json_str_def
      query_limit_def query_next_on_def rpc_fail_def parse_query_result_def)

lemma run_query_core:
  assumes "map_of w cid = Some sl" and "conn_id_parse conn = Some cid" and "1 \<le> n" and "int n \<le> INT_MAX"
    and "qd_query (qs_driver sl) sql (qs_handle sl) = (DbOk, Some lr, h)" and "lr_cols lr \<noteq> []"
  shows "run_query_call query_channel conn sql (Some (int n)) (Some 0) True w =
    (fst (next_page (sl\<lparr>qs_handle := h\<rparr>) lr n), put_slot cid (snd (next_page (sl\<lparr>qs_handle := h\<rparr>) lr n)) w)"
  using assms
  by (auto simp: run_query_call_def run_query_params_def called_def query_channel_def method_query_run_def
      query_conn_id_def json_str_def query_limit_def query_offset_def query_cursor_def query_run_on_def core_query_def
      materialize_cursor next_page_def query_failed_parse parse_page Let_def)

lemma close_cursor_core:
  assumes "map_of w cid = Some sl" and "conn_id_parse conn = Some cid"
  shows "snd (close_cursor query_channel conn w) = put_slot cid (sl\<lparr>qs_cursor := None\<rparr>) w"
  using assms by (simp add: close_cursor_def query_channel_def method_cursor_close_def query_conn_id_def json_str_def)

text \<open>Between pages nothing else touches the connection.\<close>

definition quiet :: "'h query_conns walk_env \<Rightarrow> int \<Rightarrow> bool" where
  "quiet env cid \<longleftrightarrow> we_channel env = query_channel \<and> (\<forall>k w. map_of (we_progress env k w) cid = map_of w cid)"

text \<open>How a walk over the rest of a result ends: all of it or an error, with the cursor released.\<close>

definition walked :: "'h query_conns walk_env \<Rightarrow> int \<Rightarrow> 'h query_slot \<Rightarrow> live_result \<Rightarrow> cell list list \<Rightarrow>
    (js_error, cell list list) result \<Rightarrow> bool \<Rightarrow> 'h query_conns \<Rightarrow> bool" where
  "walked env cid sl lr rows r open_cur w \<longleftrightarrow>
     (\<forall>all. r = Inr all \<longrightarrow> all = rows @ lr_rows lr \<and> lr_ok lr) \<and>
     ((\<forall>w. \<not> we_aborted env w) \<and> lr_ok lr \<longrightarrow> is_ok r) \<and>
     (\<exists>c. map_of w cid = Some (sl\<lparr>qs_cursor := c\<rparr>) \<and> (\<not> open_cur \<longrightarrow> c = None))"

lemma walked_error:
  "\<exists>c. map_of w cid = Some (sl\<lparr>qs_cursor := c\<rparr>) \<and> (\<not> oc \<longrightarrow> c = None) \<Longrightarrow> \<not> lr_ok lr \<or> (\<exists>w. we_aborted env w) \<Longrightarrow>
     walked env cid sl lr rows (Inl e) oc w"
  by (auto simp: walked_def)

lemma walked_step:
  assumes "walked env cid (sl\<lparr>qs_cursor := c\<rparr>) (lr\<lparr>lr_rows := drop n (lr_rows lr)\<rparr>) (rows @ take n (lr_rows lr)) r oc w"
  shows "walked env cid sl lr rows r oc w"
  using assms by (simp add: walked_def)

lemma drain_loop_core:
  assumes q: "quiet env cid" and c: "conn_id_parse conn = Some cid" and n: "1 \<le> n" "int n \<le> INT_MAX"
  shows "map_of w cid = Some sl \<Longrightarrow> qs_cursor sl = Some lr \<Longrightarrow> lr_cols lr \<noteq> [] \<Longrightarrow>
     rs_truncated page \<Longrightarrow> rs_cursor page \<Longrightarrow>
     \<exists>r page' w'. drain_loop env conn sql (int n) rows page w = Some (r, page', w') \<and>
       walked env cid sl lr rows r (rs_cursor page') w'"
proof (induction "length (lr_rows lr)" arbitrary: lr sl w rows page rule: less_induct)
  case less
  note ch = q [unfolded quiet_def]
  note next_c = query_next_core [OF less.prems(1) c n less.prems(2,3)]
  note unf = drain_loop.simps [of env conn sql "int n" rows page w]
  show ?case
  proof (cases "we_aborted env w")
    case True
    with unf less.prems show ?thesis by (auto intro!: walked_error exI [of _ "qs_cursor sl"])
  next
    case alive: False
    let ?nx = "next_page sl lr n"
    let ?w1 = "put_slot cid (snd ?nx) w"
    have w1: "map_of ?w1 cid = Some (snd ?nx)" using less.prems(1) by (simp add: map_of_put_slot)
    show ?thesis
    proof (cases "length (lr_rows lr) < n \<and> \<not> lr_ok lr")
      case True
      with unf alive less.prems next_c ch w1 show ?thesis
        by (auto simp: next_page_def intro!: walked_error exI [of _ None])
    next
      case okp: False
      show ?thesis
      proof (cases "lr_rows lr = []")
        case True
        with unf alive less.prems next_c ch w1 okp n show ?thesis
          by (auto simp: next_page_def walked_def intro!: exI [of _ None])
      next
        case some: False
        define p where "p = \<lparr>rs_columns = lr_cols lr, rs_rows = take n (lr_rows lr),
          rs_truncated = n \<le> length (lr_rows lr), rs_cursor = n \<le> length (lr_rows lr), rs_affected = lr_affected lr\<rparr>"
        define w2 where "w2 = we_progress env (length (rows @ rs_rows p)) ?w1"
        have nx: "fst ?nx = Inr p" using okp by (auto simp: next_page_def p_def)
        have w2: "map_of w2 cid = Some (snd ?nx)" using ch w1 by (simp add: w2_def)
        have "rs_rows p \<noteq> []" using some n by (simp add: p_def)
        then have step: "drain_loop env conn sql (int n) rows page w =
            drain_loop env conn sql (int n) (rows @ rs_rows p) p w2"
          using unf alive less.prems next_c ch nx by (simp add: w2_def)
        show ?thesis
        proof (cases "n \<le> length (lr_rows lr)")
          case True
          let ?lr = "lr\<lparr>lr_rows := drop n (lr_rows lr)\<rparr>"
          have snd: "snd ?nx = sl\<lparr>qs_cursor := Some ?lr\<rparr>" using True by (simp add: next_page_def)
          have "length (lr_rows ?lr) < length (lr_rows lr)" using True n by simp
          from less.hyps [OF this, of w2 "snd ?nx" p "rows @ rs_rows p"] w2 True less.prems(3)
          obtain r page' w' where "drain_loop env conn sql (int n) (rows @ rs_rows p) p w2 = Some (r, page', w')"
            "walked env cid (sl\<lparr>qs_cursor := Some ?lr\<rparr>) ?lr (rows @ rs_rows p) r (rs_cursor page') w'"
            by (auto simp: snd p_def)
          with step show ?thesis by (auto simp: p_def dest: walked_step)
        next
          case False
          then have "drain_loop env conn sql (int n) (rows @ rs_rows p) p w2 = Some (Inr (rows @ rs_rows p), p, w2)"
            by (simp add: drain_loop.simps p_def)
          moreover have "walked env cid sl lr rows (Inr (rows @ rs_rows p)) (rs_cursor p) w2"
            using False okp w2 by (auto simp: walked_def p_def next_page_def intro!: exI [of _ None])
          ultimately show ?thesis using step by auto
        qed
      qed
    qed
  qed
qed

lemma drain_query_core:
  assumes q: "quiet env cid" and c: "conn_id_parse conn = Some cid" and n: "1 \<le> n" "int n \<le> INT_MAX"
    and m: "map_of w cid = Some sl" and e: "qd_query (qs_driver sl) sql (qs_handle sl) = (DbOk, Some lr, h)"
    and cols: "lr_cols lr \<noteq> []" and alive: "\<not> we_aborted env w"
  shows "\<exists>r w'. drain_query env conn sql (int n) w = Some (r, w') \<and>
    (\<forall>rs. r = Inr rs \<longrightarrow> rs_columns rs = lr_cols lr \<and> rs_rows rs = lr_rows lr \<and> lr_ok lr \<and> \<not> rs_truncated rs) \<and>
    ((\<forall>w. \<not> we_aborted env w) \<and> lr_ok lr \<longrightarrow> is_ok r) \<and>
    map_of w' cid = Some (sl\<lparr>qs_handle := h, qs_cursor := None\<rparr>)"
proof -
  let ?sl = "sl\<lparr>qs_handle := h\<rparr>"
  let ?nx = "next_page ?sl lr n"
  note run = run_query_core [OF m c n e cols]
  note ch = q [unfolded quiet_def]
  show ?thesis
  proof (cases "length (lr_rows lr) < n \<and> \<not> lr_ok lr")
    case True
    with run alive ch m show ?thesis
      by (auto simp: drain_query_def next_page_def map_of_put_slot)
  next
    case False
    define p where "p = \<lparr>rs_columns = lr_cols lr, rs_rows = take n (lr_rows lr),
      rs_truncated = n \<le> length (lr_rows lr), rs_cursor = n \<le> length (lr_rows lr), rs_affected = lr_affected lr\<rparr>"
    define w1 where "w1 = we_progress env (length (rs_rows p)) (put_slot cid (snd ?nx) w)"
    have nx: "fst ?nx = Inr p" using False by (auto simp: next_page_def p_def)
    have w1: "map_of w1 cid = Some (snd ?nx)" using ch m by (simp add: w1_def map_of_put_slot)
    have loop: "\<exists>r page' w'. drain_loop env conn sql (int n) (rs_rows p) p w1 = Some (r, page', w') \<and>
        (\<exists>lr'. lr_ok lr' = lr_ok lr \<and> rs_rows p @ lr_rows lr' = lr_rows lr \<and>
          walked env cid ?sl lr' (rs_rows p) r (rs_cursor page') w')"
    proof (cases "n \<le> length (lr_rows lr)")
      case True
      let ?lr = "lr\<lparr>lr_rows := drop n (lr_rows lr)\<rparr>"
      have s: "snd ?nx = ?sl\<lparr>qs_cursor := Some ?lr\<rparr>" using True by (simp add: next_page_def)
      from drain_loop_core [OF q c n, of w1 "snd ?nx" ?lr p sql "rs_rows p"] w1 True cols
      obtain r page' w' where "drain_loop env conn sql (int n) (rs_rows p) p w1 = Some (r, page', w')"
        "walked env cid (snd ?nx) ?lr (rs_rows p) r (rs_cursor page') w'"
        by (auto simp: s p_def)
      then show ?thesis by (intro exI [of _ r] exI [of _ page'] exI [of _ w'] conjI exI [of _ ?lr])
        (auto simp: s p_def walked_def)
    next
      case False
      then have "walked env cid ?sl (lr\<lparr>lr_rows := []\<rparr>) (rs_rows p) (Inr (rs_rows p)) (rs_cursor p) w1"
        using w1 \<open>\<not> (length (lr_rows lr) < n \<and> \<not> lr_ok lr)\<close>
        by (auto simp: walked_def p_def next_page_def intro!: exI [of _ None])
      moreover have "drain_loop env conn sql (int n) (rs_rows p) p w1 = Some (Inr (rs_rows p), p, w1)"
        using False by (simp add: drain_loop.simps p_def)
      moreover have "rs_rows p @ lr_rows (lr\<lparr>lr_rows := []\<rparr>) = lr_rows lr" using False by (simp add: p_def)
      ultimately show ?thesis
        by (intro exI [of _ "Inr (rs_rows p)"] exI [of _ p] exI [of _ w1] conjI exI [of _ "lr\<lparr>lr_rows := []\<rparr>"]) simp_all
    qed
    then obtain r page' w' lr' where l: "drain_loop env conn sql (int n) (rs_rows p) p w1 = Some (r, page', w')"
      and lr': "lr_ok lr' = lr_ok lr" "rs_rows p @ lr_rows lr' = lr_rows lr"
      and w': "walked env cid ?sl lr' (rs_rows p) r (rs_cursor page') w'" by blast
    from w' obtain cu where cu: "map_of w' cid = Some (?sl\<lparr>qs_cursor := cu\<rparr>)" "\<not> rs_cursor page' \<longrightarrow> cu = None"
      by (auto simp: walked_def)
    define fin where "fin = (if rs_cursor page' then snd (close_cursor query_channel conn w') else w')"
    define res where "res = (case r of Inl e \<Rightarrow> Inl e
      | Inr rows \<Rightarrow> Inr (p\<lparr>rs_rows := rows, rs_truncated := False, rs_cursor := False\<rparr>))"
    have "drain_query env conn sql (int n) w = Some (res, fin)"
      using alive run nx ch l by (simp add: drain_query_def w1_def [symmetric] res_def fin_def)
    moreover have "map_of fin cid = Some (?sl\<lparr>qs_cursor := None\<rparr>)"
      using close_cursor_core [OF cu(1) c] cu by (auto simp: fin_def map_of_put_slot)
    moreover have "\<forall>rs. res = Inr rs \<longrightarrow> rs_columns rs = lr_cols lr \<and> rs_rows rs = lr_rows lr \<and> lr_ok lr \<and> \<not> rs_truncated rs"
      using w' lr' by (cases r) (auto simp: res_def walked_def p_def)
    moreover have "(\<forall>w. \<not> we_aborted env w) \<and> lr_ok lr \<longrightarrow> is_ok res"
      using w' lr'(1) by (cases r) (auto simp: res_def walked_def)
    ultimately show ?thesis by auto
  qed
qed

section \<open>Scripts run in order\<close>

lemma run_statements_spec:
  "run_statements ch conn lim exec finished stmts sofar w = (out, w') \<Longrightarrow> \<forall>r \<in> set sofar. sr_error r = None \<Longrightarrow>
     \<exists>more. out = sofar @ more \<and> map sr_sql more = take (length more) stmts \<and>
       (\<forall>r \<in> set (butlast more). sr_error r = None) \<and>
       (if length more < length stmts then more \<noteq> [] \<and> sr_error (last more) \<noteq> None
        else length more = length stmts) \<and>
       (\<forall>r \<in> set more. (sr_error r = None) = (sr_result r \<noteq> None))"
proof (induction ch conn lim exec finished stmts sofar w rule: run_statements.induct)
  case (1 ch conn lim exec finished sofar w)
  then show ?case by (intro exI [of _ "[]"]) simp
next
  case (2 ch conn lim exec finished sql stmts sofar w)
  obtain r w1 where e: "exec sql (run_query_call ch conn sql lim None False) w = (r, w1)"
    by (cases "exec sql (run_query_call ch conn sql lim None False) w")
  show ?case
  proof (cases r)
    case (Inl err)
    with 2(2) e show ?thesis
      by (intro exI [of _ "[\<lparr>sr_sql = sql, sr_result = None, sr_error = Some err\<rparr>]"]) (auto simp: Let_def)
  next
    case (Inr rs)
    let ?run = "\<lparr>sr_sql = sql, sr_result = Some rs, sr_error = None\<rparr>"
    from 2(1) [OF e [symmetric] Inr refl] 2(2,3) e Inr obtain more where
      m: "out = (sofar @ [?run]) @ more" "map sr_sql more = take (length more) stmts"
        "\<forall>r \<in> set (butlast more). sr_error r = None"
        "if length more < length stmts then more \<noteq> [] \<and> sr_error (last more) \<noteq> None else length more = length stmts"
        "\<forall>r \<in> set more. (sr_error r = None) = (sr_result r \<noteq> None)"
      by (auto simp: Let_def)
    then show ?thesis by (intro exI [of _ "?run # more"]) auto
  qed
qed

section \<open>Properties\<close>

text \<open>A connection over a driver that counts its queries and answers each with three rows.\<close>

definition demo_query_driver :: "nat query_driver" where
  "demo_query_driver = \<lparr>qd_query = \<lambda>sql h. (DbOk, Some \<lparr>lr_cols = [\<lparr>col_name = ''id'', col_type = ''int''\<rparr>],
       lr_rows = [[Some ''1''], [None], [Some ''3'']], lr_ok = True, lr_affected = 0\<rparr>, Suc h),
     qd_last_error = \<lambda>_. None\<rparr>"

definition demo_conns :: "nat query_conns" where
  "demo_conns = [(1, \<lparr>qs_driver = demo_query_driver, qs_handle = 0, qs_cursor = None\<rparr>)]"

definition demo_walk :: "(nat query_conns \<Rightarrow> nat query_conns) \<Rightarrow> nat query_conns walk_env" where
  "demo_walk f = \<lparr>we_channel = query_channel, we_aborted = \<lambda>_. False, we_reason = OtherError [], we_progress = \<lambda>_. f\<rparr>"

text \<open>C11. Reading a whole query page by page ends, whatever the page size, and never gives a short
  result: it gives every row of the one execution, or an error. With no abort and a driver that
  does not fail it gives the rows. The query is executed once and the connection is left
  without a cursor.\<close>

theorem drain_reads_everything:
  assumes "quiet env cid" and "conn_id_parse conn = Some cid" and "1 \<le> n" and "int n \<le> INT_MAX"
    and "map_of w cid = Some sl" and "qd_query (qs_driver sl) sql (qs_handle sl) = (DbOk, Some lr, h)"
    and "lr_cols lr \<noteq> []" and "\<not> we_aborted env w"
  shows "\<exists>r w'. drain_query env conn sql (int n) w = Some (r, w') \<and>
    (\<forall>rs. r = Inr rs \<longrightarrow> rs_columns rs = lr_cols lr \<and> rs_rows rs = lr_rows lr \<and> lr_ok lr \<and> \<not> rs_truncated rs) \<and>
    ((\<forall>w. \<not> we_aborted env w) \<and> lr_ok lr \<longrightarrow> is_ok r) \<and>
    map_of w' cid = Some (sl\<lparr>qs_handle := h, qs_cursor := None\<rparr>)"
  using assms by (rule drain_query_core)

theorem drain_reads_everything_witness:
  "\<exists>rs w'. drain_query (demo_walk (\<lambda>w. w)) ''c1'' ''SELECT 1'' 2 demo_conns = Some (Inr rs, w') \<and>
     rs_rows rs = [[Some ''1''], [None], [Some ''3'']] \<and> map_option qs_handle (map_of w' 1) = Some 1"
proof -
  let ?lr = "\<lparr>lr_cols = [\<lparr>col_name = ''id'', col_type = ''int''\<rparr>],
       lr_rows = [[Some ''1''], [None], [Some ''3'']], lr_ok = True, lr_affected = 0\<rparr> :: live_result"
  have c: "conn_id_parse ''c1'' = Some 1" by code_simp
  obtain r w' where d: "drain_query (demo_walk (\<lambda>w. w)) ''c1'' ''SELECT 1'' 2 demo_conns = Some (r, w')"
    "\<forall>rs. r = Inr rs \<longrightarrow> rs_rows rs = lr_rows ?lr" "is_ok r"
    "map_of w' 1 = Some \<lparr>qs_driver = demo_query_driver, qs_handle = 1, qs_cursor = None\<rparr>"
    using drain_reads_everything [of "demo_walk (\<lambda>w. w)" 1 "''c1''" 2 demo_conns
        "\<lparr>qs_driver = demo_query_driver, qs_handle = 0, qs_cursor = None\<rparr>" "''SELECT 1''" ?lr 1] c
    by (auto simp: quiet_def demo_walk_def demo_conns_def demo_query_driver_def INT_MAX_def)
  from d(3) obtain rs where "r = Inr rs" by (cases r) auto
  with d show ?thesis by auto
qed

text \<open>When another query takes the connection's cursor between two pages, reading a whole query
  fails with the core's "no open cursor": it does not fall back to reading at an offset.\<close>

theorem lost_cursor_rejects:
  assumes "we_channel env = query_channel" and "\<forall>w. \<not> we_aborted env w"
    and "\<And>k w s. map_of w cid = Some s \<Longrightarrow> map_of (we_progress env k w) cid = Some (s\<lparr>qs_cursor := None\<rparr>)"
    and "conn_id_parse conn = Some cid" and "1 \<le> n" and "int n \<le> INT_MAX"
    and "map_of w cid = Some sl" and "qd_query (qs_driver sl) sql (qs_handle sl) = (DbOk, Some lr, h)"
    and "lr_cols lr \<noteq> []" and "n \<le> length (lr_rows lr)"
  shows "\<exists>w'. drain_query env conn sql (int n) w =
    Some (Inl (QueryError \<lparr>er_code = - 32002, er_message = ''no open cursor for this connection'', er_data = None\<rparr>), w')"
proof -
  let ?nx = "next_page (sl\<lparr>qs_handle := h\<rparr>) lr n"
  define p where "p = \<lparr>rs_columns = lr_cols lr, rs_rows = take n (lr_rows lr), rs_truncated = True,
    rs_cursor = True, rs_affected = lr_affected lr\<rparr>"
  have nx: "fst ?nx = Inr p" using assms(10) by (auto simp: next_page_def p_def)
  define w1 where "w1 = we_progress env (length (rs_rows p)) (put_slot cid (snd ?nx) w)"
  have w1: "map_of w1 cid = Some (snd ?nx\<lparr>qs_cursor := None\<rparr>)"
    unfolding w1_def by (rule assms(3)) (simp add: map_of_put_slot [OF assms(7)])
  have "query_next query_channel conn (Some (int n)) w1 =
      (Inl (QueryError \<lparr>er_code = - 32002, er_message = ''no open cursor for this connection'', er_data = None\<rparr>), w1)"
    by (rule query_next_gone [OF w1 assms(4,5,6)]) simp
  then have "drain_loop env conn sql (int n) (rs_rows p) p w1 =
      Some (Inl (QueryError \<lparr>er_code = - 32002, er_message = ''no open cursor for this connection'', er_data = None\<rparr>), p, w1)"
    using assms(1,2) by (simp add: drain_loop.simps p_def)
  then show ?thesis
    using run_query_core [OF assms(7,4,5,6,8,9)] nx assms(1,2) by (simp add: drain_query_def w1_def)
qed

theorem lost_cursor_rejects_witness:
  "\<exists>w'. drain_query (demo_walk (map (\<lambda>(i, s). (i, s\<lparr>qs_cursor := None\<rparr>)))) ''c1'' ''SELECT 1'' 2 demo_conns =
    Some (Inl (QueryError \<lparr>er_code = - 32002, er_message = ''no open cursor for this connection'', er_data = None\<rparr>), w')"
proof -
  have c: "conn_id_parse ''c1'' = Some 1" by code_simp
  have m: "map_of (map (\<lambda>(i, s). (i, s\<lparr>qs_cursor := None\<rparr>)) w) k = map_option (\<lambda>s. s\<lparr>qs_cursor := None\<rparr>) (map_of w k)"
    for w :: "nat query_conns" and k by (induction w) auto
  show ?thesis
    using lost_cursor_rejects [of "demo_walk (map (\<lambda>(i, s). (i, s\<lparr>qs_cursor := None\<rparr>)))" 1 "''c1''" 2 demo_conns
        "\<lparr>qs_driver = demo_query_driver, qs_handle = 0, qs_cursor = None\<rparr>" "''SELECT 1''"
        "\<lparr>lr_cols = [\<lparr>col_name = ''id'', col_type = ''int''\<rparr>],
          lr_rows = [[Some ''1''], [None], [Some ''3'']], lr_ok = True, lr_affected = 0\<rparr>" 1] c m
    by (simp add: demo_walk_def demo_conns_def demo_query_driver_def INT_MAX_def)
qed

text \<open>A script stops at its first failing statement: what ran is a prefix of the statements, in
  order, each with its result, and only the last one can have failed; with no failure all of
  them ran.\<close>

theorem script_stops_at_error:
  assumes "run_statements ch conn lim exec finished stmts [] w = (out, w')"
  shows "map sr_sql out = take (length out) stmts \<and>
    (\<forall>r \<in> set (butlast out). sr_error r = None \<and> sr_result r \<noteq> None) \<and>
    (if length out < length stmts then out \<noteq> [] \<and> sr_error (last out) \<noteq> None
     else length out = length stmts)"
proof -
  obtain more where "out = [] @ more" and m: "map sr_sql more = take (length more) stmts"
    "\<forall>r \<in> set (butlast more). sr_error r = None"
    "if length more < length stmts then more \<noteq> [] \<and> sr_error (last more) \<noteq> None else length more = length stmts"
    "\<forall>r \<in> set more. (sr_error r = None) = (sr_result r \<noteq> None)"
    using run_statements_spec [OF assms] unfolding list.set ball_empty by blast
  then have "out = more" by simp
  moreover have "\<forall>r \<in> set (butlast more). sr_error r = None \<and> sr_result r \<noteq> None"
    using m(2,4) by (meson in_set_butlastD)
  ultimately show ?thesis using m by blast
qed

theorem script_stops_at_error_witness:
  "map sr_sql (fst (run_statements (\<lambda>m p w. (if w = 1 then Inl (OtherError []) else Inr (Inr (JObj [])), Suc w)) ''c1'' None
     (\<lambda>_ run. run) (\<lambda>_ w. w) [''a'', ''b'', ''c''] [] (0::nat))) = [''a'', ''b'']"
proof -
  let ?r = "run_statements (\<lambda>m p w. (if w = 1 then Inl (OtherError []) else Inr (Inr (JObj [])), Suc w)) ''c1'' None
     (\<lambda>_ run. run) (\<lambda>_ w. w) [''a'', ''b'', ''c''] [] (0::nat)"
  have "map sr_sql (fst ?r) = take (length (fst ?r)) [''a'', ''b'', ''c'']"
    by (rule conjunct1 [OF script_stops_at_error]) (rule prod.collapse [symmetric])
  moreover have "length (fst ?r) = 2" by code_simp
  ultimately show ?thesis by simp
qed

end
