(* ===== verification/SqlVariables.thy ===== *)
theory SqlVariables
  imports Tabs QueryTarget
begin

text \<open>
  Variables in the editor's SQL (\<open>sqlVariables.ts\<close>): \<open>:name\<close> for a value, written as a
  literal, and \<open>${name}\<close> for raw text. The scanner skips strings, quoted identifiers, comments
  and dollar-quoted text; finding and substituting share it.
\<close>

section \<open>Variables\<close>

datatype var_kind = ValueVar | RawVar

record sql_variable =
  sv_name :: string
  sv_kind :: var_kind
  sv_token :: string

type_synonym var_values = "var_value obj"

definition var_token :: "string \<Rightarrow> var_kind \<Rightarrow> string" where
  "var_token name kind = (case kind of RawVar \<Rightarrow> ''${'' @ name @ ''}'' | ValueVar \<Rightarrow> CHR '':'' # name)"

definition name_start :: "char \<Rightarrow> bool" where
  "name_start c \<longleftrightarrow> is_alpha c \<or> c = CHR ''_''"

definition name_char :: "char \<Rightarrow> bool" where
  "name_char c \<longleftrightarrow> is_word c"

definition read_name :: "string \<Rightarrow> nat \<Rightarrow> string option" where
  "read_name sql i =
     (case drop i sql of [] \<Rightarrow> None
      | c # s \<Rightarrow> if name_start c then Some (takeWhile name_char (c # s)) else None)"

section \<open>The scanner\<close>

datatype scan_place = SNormal | SSingle | SDouble | SBack | SLine | SBlock | SDollar string

text \<open>An occurrence: the variable and where it stands.\<close>

type_synonym occurrence = "sql_variable \<times> nat \<times> nat"

definition occ :: "string \<Rightarrow> var_kind \<Rightarrow> nat \<Rightarrow> nat \<Rightarrow> occurrence" where
  "occ name kind a b = (\<lparr>sv_name = name, sv_kind = kind, sv_token = var_token name kind\<rparr>, a, b)"

definition dollar_tag :: "string \<Rightarrow> bool" where
  "dollar_tag s \<longleftrightarrow> (case s of [] \<Rightarrow> True | c # t \<Rightarrow> name_start c \<and> list_all name_char t)"

text \<open>One character at \<open>i\<close>: the place after it, how many characters more it consumes, and the
  variable it starts.\<close>

definition dollar_step :: "string \<Rightarrow> nat \<Rightarrow> scan_place \<times> nat \<times> occurrence option" where
  "dollar_step sql i =
     (let raw = (if nth_opt sql (i + 1) = Some CHR ''{''
                 then (case read_name sql (i + 2) of None \<Rightarrow> None
                   | Some name \<Rightarrow> if nth_opt sql (i + 2 + length name) = Some CHR ''}'' then Some name else None)
                 else None) in
      case raw of
        Some name \<Rightarrow> (SNormal, 2 + length name, Some (occ name RawVar i (i + 2 + length name + 1)))
      | None \<Rightarrow>
          (case index_of (drop (i + 1) sql) ''$'' of
             Some k \<Rightarrow> if dollar_tag (take k (drop (i + 1) sql))
               then (SDollar (slice sql i (i + k + 2)), k + 1, None) else (SNormal, 0, None)
           | None \<Rightarrow> (SNormal, 0, None)))"

definition colon_step :: "string \<Rightarrow> nat \<Rightarrow> nat \<times> occurrence option" where
  "colon_step sql i =
     (if nth_opt sql (i + 1) = Some CHR '':'' then (1, None)
      else if 0 < i \<and> (sql ! (i - 1) = CHR '':'' \<or> name_char (sql ! (i - 1))) then (0, None)
      else (case read_name sql (i + 1) of None \<Rightarrow> (0, None)
        | Some name \<Rightarrow> (length name, Some (occ name ValueVar i (i + 1 + length name)))))"

definition normal_step :: "string \<Rightarrow> bool \<Rightarrow> nat \<Rightarrow> scan_place \<times> nat \<times> occurrence option" where
  "normal_step sql colons i =
     (let c = sql ! i; nxt = nth_opt sql (i + 1) in
      if c = CHR 0x27 then (SSingle, 0, None)
      else if c = CHR 0x22 then (SDouble, 0, None)
      else if c = CHR 0x60 then (SBack, 0, None)
      else if c = CHR ''-'' \<and> nxt = Some CHR ''-'' then (SLine, 1, None)
      else if c = CHR ''/'' \<and> nxt = Some CHR ''*'' then (SBlock, 1, None)
      else if c = CHR ''$'' then dollar_step sql i
      else if colons \<and> c = CHR '':'' then (case colon_step sql i of (k, x) \<Rightarrow> (SNormal, k, x))
      else (SNormal, 0, None))"

text \<open>A quoted place: a backslash (where it escapes) and a doubled quote consume two.\<close>

definition quoted_step :: "char \<Rightarrow> bool \<Rightarrow> scan_place \<Rightarrow> string \<Rightarrow> nat \<Rightarrow> scan_place \<times> nat" where
  "quoted_step q escapes place sql i =
     (let c = sql ! i; nxt = nth_opt sql (i + 1) in
      if escapes \<and> c = CHR 0x5C \<and> nxt \<noteq> None then (place, 1)
      else if c = q \<and> nxt = Some q then (place, 1)
      else if c = q then (SNormal, 0) else (place, 0))"

definition var_step :: "string \<Rightarrow> bool \<Rightarrow> scan_place \<Rightarrow> nat \<Rightarrow> scan_place \<times> nat \<times> occurrence option" where
  "var_step sql colons place i =
     (let c = sql ! i; nxt = nth_opt sql (i + 1); quiet = (\<lambda>(p, k). (p, k, None)) in
      case place of
        SNormal \<Rightarrow> normal_step sql colons i
      | SSingle \<Rightarrow> quiet (quoted_step (CHR 0x27) True SSingle sql i)
      | SDouble \<Rightarrow> quiet (quoted_step (CHR 0x22) True SDouble sql i)
      | SBack \<Rightarrow> quiet (quoted_step (CHR 0x60) False SBack sql i)
      | SLine \<Rightarrow> (if c = CHR 0x0A then SNormal else SLine, 0, None)
      | SBlock \<Rightarrow> if c = CHR ''*'' \<and> nxt = Some CHR ''/'' then (SNormal, 1, None) else (SBlock, 0, None)
      | SDollar tag \<Rightarrow> if c = CHR ''$'' \<and> starts_with tag (drop i sql)
          then (SNormal, length tag - 1, None) else (SDollar tag, 0, None))"

function scan_vars :: "string \<Rightarrow> bool \<Rightarrow> scan_place \<Rightarrow> nat \<Rightarrow> occurrence list" where
  "scan_vars sql colons place i =
     (if length sql \<le> i then []
      else case var_step sql colons place i of (place', k, x) \<Rightarrow>
        (case x of None \<Rightarrow> [] | Some o1 \<Rightarrow> [o1]) @ scan_vars sql colons place' (i + 1 + k))"
  by pat_completeness auto
termination
  by (relation "measure (\<lambda>(sql, colons, place, i). length sql - i)") auto

declare scan_vars.simps [simp del]

definition scan_sql :: "string \<Rightarrow> string option \<Rightarrow> occurrence list" where
  "scan_sql sql engine = scan_vars sql (engine_family (default [] engine) \<noteq> ''mongodb'') SNormal 0"

section \<open>Finding and substituting\<close>

definition find_variables :: "string \<Rightarrow> string option \<Rightarrow> sql_variable list" where
  "find_variables sql engine =
     fold (\<lambda>(v, a, b) found. if sv_token v \<in> sv_token ` set found then found else found @ [v])
       (scan_sql sql engine) []"

text \<open>\<open>/^-?\d+(\.\d+)?$/\<close>.\<close>

definition plain_number :: "string \<Rightarrow> bool" where
  "plain_number s =
     (let t = (case s of c # u \<Rightarrow> if c = CHR ''-'' then u else s | [] \<Rightarrow> []);
          whole = takeWhile is_digit t; rest = dropWhile is_digit t in
      whole \<noteq> [] \<and> (case rest of [] \<Rightarrow> True
        | c # frac \<Rightarrow> c = CHR ''.'' \<and> frac \<noteq> [] \<and> list_all is_digit frac))"

definition render_var :: "var_value \<Rightarrow> var_kind \<Rightarrow> string option \<Rightarrow> string" where
  "render_var v kind engine =
     (if kind = RawVar then vv_text v
      else if vv_null v = Some True then ''NULL''
      else if plain_number (trim (vv_text v)) then trim (vv_text v)
      else let text = (if engine_family (default [] engine) = ''mysql''
                       then double_char (CHR 0x5C) (vv_text v) else vv_text v)
           in [CHR 0x27] @ double_char (CHR 0x27) text @ [CHR 0x27])"

definition apply_variables :: "string \<Rightarrow> var_values \<Rightarrow> string option \<Rightarrow> string" where
  "apply_variables sql values engine =
     (case fold (\<lambda>(v, a, b) (out, copied). case map_of values (sv_token v) of
              None \<Rightarrow> (out, copied)
            | Some x \<Rightarrow> (out @ slice sql copied a @ render_var x (sv_kind v) engine, b))
          (scan_sql sql engine) ([], 0) of
        (out, copied) \<Rightarrow> out @ drop copied sql)"

definition missing_variables :: "sql_variable list \<Rightarrow> var_values \<Rightarrow> sql_variable list" where
  "missing_variables vars values =
     filter (\<lambda>v. case map_of values (sv_token v) of None \<Rightarrow> True
       | Some x \<Rightarrow> vv_null x \<noteq> Some True \<and> trim (vv_text x) = []) vars"

section \<open>What the scanner finds\<close>

text \<open>Occurrences from \<open>i\<close> on: in order, apart from each other, each its variable's token.\<close>

fun occs_ok :: "string \<Rightarrow> nat \<Rightarrow> occurrence list \<Rightarrow> bool" where
  "occs_ok sql i [] = True"
| "occs_ok sql i ((v, a, b) # os) =
     (i \<le> a \<and> a < b \<and> b \<le> length sql \<and> slice sql a b = sv_token v \<and>
      sv_token v = var_token (sv_name v) (sv_kind v) \<and> occs_ok sql b os)"

lemma occs_ok_later: "occs_ok sql j os \<Longrightarrow> i \<le> j \<Longrightarrow> occs_ok sql i os"
  by (cases os) auto

lemma slice_take: "slice sql a (a + n) = take n (drop a sql)"
  by (simp add: slice_def)

lemma read_name_Some:
  assumes "read_name sql i = Some name"
  shows "take (length name) (drop i sql) = name" and "i + length name \<le> length sql" and "name \<noteq> []"
proof -
  obtain c s where d: "drop i sql = c # s" and n: "name = takeWhile name_char (c # s)" and st: "name_start c"
    using assms by (auto simp: read_name_def split: list.splits if_splits)
  show "take (length name) (drop i sql) = name"
    unfolding d n by (metis takeWhile_eq_take)
  have "length name \<le> length (drop i sql)" unfolding d n by (rule length_takeWhile_le)
  moreover have "i < length sql" using d by (metis drop_all leI list.distinct(1))
  ultimately show "i + length name \<le> length sql" by simp
  show "name \<noteq> []" using st n by (auto simp: name_start_def name_char_def is_word_def)
qed

text \<open>An occurrence read at \<open>i\<close> is its token, and the scan goes on right behind it.\<close>

definition occ_at :: "string \<Rightarrow> nat \<Rightarrow> nat \<Rightarrow> occurrence option \<Rightarrow> bool" where
  "occ_at sql i k x \<longleftrightarrow>
     (case x of None \<Rightarrow> True
      | Some (v, a, b) \<Rightarrow> a = i \<and> b = i + 1 + k \<and> b \<le> length sql \<and> slice sql a b = sv_token v \<and>
          sv_token v = var_token (sv_name v) (sv_kind v))"

lemma occ_at_None [simp]: "occ_at sql i k None"
  by (simp add: occ_at_def)

lemma nth_opt_Some: "nth_opt xs i = Some x \<longleftrightarrow> i < length xs \<and> xs ! i = x"
  by (auto simp: nth_opt_def)

lemma drop_Cons_nth: "i < length xs \<Longrightarrow> drop i xs = xs ! i # drop (Suc i) xs"
  by (simp add: Cons_nth_drop_Suc)

lemma colon_occ:
  assumes "i < length sql" and "sql ! i = CHR '':''" and "colon_step sql i = (k, x)"
  shows "occ_at sql i k x"
proof (cases "read_name sql (i + 1)")
  case (Some name)
  note r = read_name_Some [OF Some]
  have "slice sql i (i + 1 + length name) = CHR '':'' # name"
    using assms(1,2) r(1) by (simp add: slice_def drop_Cons_nth)
  with assms Some r show ?thesis
    by (auto simp: colon_step_def occ_def occ_at_def var_token_def split: if_splits)
qed (use assms in \<open>auto simp: colon_step_def split: if_splits\<close>)

lemma dollar_occ:
  assumes "i < length sql" and "sql ! i = CHR ''$''" and "dollar_step sql i = (p, k, x)"
  shows "occ_at sql i k x"
proof (cases x)
  case (Some o1)
  then obtain name where n: "nth_opt sql (i + 1) = Some CHR ''{''" "read_name sql (i + 2) = Some name"
    "nth_opt sql (i + 2 + length name) = Some CHR ''}''" "k = 2 + length name"
    "o1 = occ name RawVar i (i + 2 + length name + 1)"
    using assms(3) by (auto simp: dollar_step_def Let_def split: option.splits if_splits)
  note r = read_name_Some [OF n(2)]
  have "drop i sql = CHR ''$'' # CHR ''{'' # drop (i + 2) sql"
    using assms(1,2) n(1) by (simp add: nth_opt_Some drop_Cons_nth)
  moreover have "take (Suc (length name)) (drop (i + 2) sql) = name @ ''}''"
  proof -
    have "i + 2 + length name < length sql" using n(3) by (simp add: nth_opt_Some)
    then have "length name < length (drop (i + 2) sql)" by simp
    from take_Suc_conv_app_nth [OF this] show ?thesis using r(1) n(3) by (simp add: nth_opt_Some)
  qed
  ultimately have "slice sql i (i + 2 + length name + 1) = ''${'' @ name @ ''}''"
    by (simp add: slice_def eval_nat_numeral)
  with n Some show ?thesis by (simp add: occ_def occ_at_def var_token_def nth_opt_Some)
qed simp

lemma var_step_occ:
  assumes "i < length sql" and "var_step sql colons place i = (p, k, x)"
  shows "occ_at sql i k x"
proof (cases "place = SNormal \<and> (sql ! i = CHR ''$'' \<or> sql ! i = CHR '':'')")
  case True
  then show ?thesis
    using assms dollar_occ [OF assms(1)] colon_occ [OF assms(1)]
    by (auto simp: var_step_def normal_step_def split: if_splits prod.splits)
next
  case False
  then have "x = None"
    using assms(2) by (auto simp: var_step_def normal_step_def Let_def split: scan_place.splits if_splits prod.splits)
  then show ?thesis by simp
qed

lemma scan_vars_ok: "occs_ok sql i (scan_vars sql colons place i)"
proof (induction sql colons place i rule: scan_vars.induct)
  case (1 sql colons place i)
  show ?case
  proof (cases "length sql \<le> i")
    case False
    obtain p k x where s: "var_step sql colons place i = (p, k, x)" by (cases "var_step sql colons place i")
    from 1 [OF False s [symmetric] refl] have IH: "occs_ok sql (i + 1 + k) (scan_vars sql colons p (i + 1 + k))" .
    have "occ_at sql i k x" by (rule var_step_occ [OF _ s]) (use False in simp)
    with IH False s show ?thesis
      by (subst scan_vars.simps) (auto simp: occ_at_def split: option.splits intro: occs_ok_later)
  qed (simp add: scan_vars.simps)
qed

section \<open>Substitution\<close>

text \<open>The text as gaps and variables: what stands before each occurrence, and the occurrence.\<close>

fun gaps :: "string \<Rightarrow> nat \<Rightarrow> occurrence list \<Rightarrow> (string \<times> sql_variable) list \<times> string" where
  "gaps sql i [] = ([], drop i sql)"
| "gaps sql i ((v, a, b) # os) =
     (case gaps sql b os of (gs, tail) \<Rightarrow> ((slice sql i a, v) # gs, tail))"

definition gap_text :: "(sql_variable \<Rightarrow> string) \<Rightarrow> (string \<times> sql_variable) list \<times> string \<Rightarrow> string" where
  "gap_text f g = concat (map (\<lambda>(before, v). before @ f v) (fst g)) @ snd g"

lemma gap_text_tokens: "occs_ok sql i os \<Longrightarrow> i \<le> length sql \<Longrightarrow> gap_text sv_token (gaps sql i os) = drop i sql"
proof (induction sql i os rule: gaps.induct)
  case (2 sql i v a b os)
  from 2(2) have ok: "i \<le> a" "a < b" "b \<le> length sql" "slice sql a b = sv_token v" "occs_ok sql b os" by auto
  obtain gs tail where g: "gaps sql b os = (gs, tail)" by (cases "gaps sql b os")
  have "gap_text sv_token (gaps sql i ((v, a, b) # os)) = slice sql i a @ slice sql a b @ drop b sql"
    using 2(1) [OF ok(5,3)] by (simp add: gap_text_def g ok(4))
  also have "\<dots> = slice sql i b @ drop b sql" using slice_append [of i a b sql] ok by simp
  also have "\<dots> = drop i sql"
    using ok by (simp add: slice_def) (metis append_take_drop_id drop_drop le_add_diff_inverse2 le_trans less_imp_le_nat)
  finally show ?case .
qed (simp add: gap_text_def)

lemma gaps_vars: "map snd (fst (gaps sql i os)) = map fst os"
  by (induction sql i os rule: gaps.induct) (auto split: prod.splits)

definition written :: "var_values \<Rightarrow> string option \<Rightarrow> sql_variable \<Rightarrow> string" where
  "written values engine v =
     (case map_of values (sv_token v) of None \<Rightarrow> sv_token v | Some x \<Rightarrow> render_var x (sv_kind v) engine)"

text \<open>The fold may run over occurrences that have no value; what it has copied lies behind.\<close>

lemma substitution_fold:
  assumes "occs_ok sql i os" and "copied \<le> i" and "i \<le> length sql"
  shows "(case fold (\<lambda>(v, a, b) (out, copied). case map_of values (sv_token v) of
              None \<Rightarrow> (out, copied)
            | Some x \<Rightarrow> (out @ slice sql copied a @ render_var x (sv_kind v) engine, b)) os (out, copied) of
      (out, copied) \<Rightarrow> out @ drop copied sql) =
    out @ slice sql copied i @ gap_text (written values engine) (gaps sql i os)"
  using assms
proof (induction os arbitrary: i out copied)
  case Nil
  have "slice sql copied i @ drop i sql = drop copied sql"
    using Nil by (simp add: slice_def) (metis append_take_drop_id drop_drop le_add_diff_inverse2)
  then show ?case by (simp add: gap_text_def)
next
  case (Cons o1 os)
  obtain v a b where o1: "o1 = (v, a, b)" by (cases o1)
  from Cons.prems have ok: "i \<le> a" "a < b" "b \<le> length sql" "slice sql a b = sv_token v" "occs_ok sql b os"
    by (auto simp: o1)
  obtain gs tail where g: "gaps sql b os = (gs, tail)" by (cases "gaps sql b os")
  have gt: "gap_text (written values engine) (gaps sql i (o1 # os)) =
      slice sql i a @ written values engine v @ gap_text (written values engine) (gaps sql b os)"
    by (simp add: gap_text_def o1 g)
  have ca: "slice sql copied i @ slice sql i a = slice sql copied a"
    using slice_append [of copied i a sql] ok Cons.prems by simp
  let ?f = "fold (\<lambda>(v, a, b) (out, copied). case map_of values (sv_token v) of
      None \<Rightarrow> (out, copied) | Some x \<Rightarrow> (out @ slice sql copied a @ render_var x (sv_kind v) engine, b))"
  show ?case
  proof (cases "map_of values (sv_token v)")
    case None
    have "slice sql copied b = slice sql copied i @ slice sql i a @ sv_token v"
      using slice_append [of copied a b sql] ok Cons.prems by (simp add: ca [symmetric])
    moreover have "?f (o1 # os) (out, copied) = ?f os (out, copied)" using None by (simp add: o1)
    moreover have "copied \<le> b" using ok Cons.prems by simp
    ultimately show ?thesis
      using Cons.IH [OF ok(5) _ ok(3), of copied out] None by (simp add: gt written_def [of _ _ v])
  next
    case (Some x)
    let ?out = "out @ slice sql copied a @ render_var x (sv_kind v) engine"
    have "?f (o1 # os) (out, copied) = ?f os (?out, b)" using Some by (simp add: o1)
    moreover have "slice sql b b = []" by (simp add: slice_def)
    ultimately show ?thesis
      using Cons.IH [OF ok(5) le_refl ok(3), of ?out] Some by (simp add: gt written_def [of _ _ v] ca [symmetric])
  qed
qed

lemma apply_variables_gaps:
  "apply_variables sql values engine = gap_text (written values engine) (gaps sql 0 (scan_sql sql engine))"
  using substitution_fold [where i = 0 and copied = 0 and out = "[]" and os = "scan_sql sql engine" and sql = sql] scan_vars_ok
  by (simp add: apply_variables_def scan_sql_def slice_def)

section \<open>Finding every variable once\<close>

lemma var_token_inj: "var_token n k = var_token n' k' \<Longrightarrow> n = n' \<and> k = k'"
  by (auto simp: var_token_def split: var_kind.splits)

lemma occs_tokens: "occs_ok sql i os \<Longrightarrow> v \<in> fst ` set os \<Longrightarrow> sv_token v = var_token (sv_name v) (sv_kind v)"
  by (induction sql i os rule: occs_ok.induct) auto

lemma fold_found:
  fixes found :: "sql_variable list"
  defines "f \<equiv> \<lambda>(v, a, b) found. if sv_token v \<in> sv_token ` set found then found else found @ [v]"
  assumes "\<forall>v \<in> set found \<union> fst ` set os. sv_token v = var_token (sv_name v) (sv_kind v)"
  shows "set (fold f os found) = set found \<union> fst ` set os \<and>
    (distinct (map sv_token found) \<longrightarrow> distinct (map sv_token (fold f os found)))"
  using assms(2)
proof (induction os arbitrary: found)
  case (Cons o1 os)
  obtain v a b where o1: "o1 = (v, a, b)" by (cases o1)
  show ?case
  proof (cases "sv_token v \<in> sv_token ` set found")
    case True
    then obtain u where u: "u \<in> set found" "sv_token u = sv_token v" by auto
    have "sv_token u = var_token (sv_name u) (sv_kind u)" "sv_token v = var_token (sv_name v) (sv_kind v)"
      using Cons.prems u(1) by (auto simp: o1)
    with u(2) have "sv_name u = sv_name v \<and> sv_kind u = sv_kind v" by (metis var_token_inj)
    with u(2) have "u = v" by (cases u; cases v) simp
    with u(1) have "insert v (set found \<union> S) = set found \<union> S" for S by blast
    moreover have "f o1 found = found" using True by (simp add: o1 f_def)
    ultimately show ?thesis using Cons.IH [of found] Cons.prems by (simp add: o1)
  next
    case False
    then have "f o1 found = found @ [v]" by (simp add: o1 f_def)
    with Cons.IH [of "found @ [v]"] Cons.prems False show ?thesis by (simp add: o1)
  qed
qed simp

lemma find_variables_set:
  "set (find_variables sql engine) = fst ` set (scan_sql sql engine) \<and>
   distinct (map sv_token (find_variables sql engine))"
proof -
  have "\<forall>v \<in> fst ` set (scan_sql sql engine). sv_token v = var_token (sv_name v) (sv_kind v)"
    using occs_tokens scan_vars_ok unfolding scan_sql_def by blast
  then show ?thesis unfolding find_variables_def using fold_found [of "[]" "scan_sql sql engine"] by simp
qed

section \<open>Literals\<close>

text \<open>How an engine reads a string literal, from behind its opening quote: a doubled quote is a
  quote, and where the engine reads escapes (MySQL) a backslash takes the next character.\<close>

definition mysql_escape :: "char \<Rightarrow> char" where
  "mysql_escape c = (if c = CHR ''n'' then CHR 0x0A else if c = CHR ''t'' then CHR 0x09
     else if c = CHR ''r'' then CHR 0x0D else if c = CHR ''b'' then CHR 0x08
     else if c = CHR ''0'' then CHR 0x00 else if c = CHR ''Z'' then CHR 0x1A else c)"

fun read_literal :: "bool \<Rightarrow> string \<Rightarrow> (string \<times> string) option" where
  "read_literal esc [] = None"
| "read_literal esc [c] = (if c = CHR 0x27 then Some ([], []) else None)"
| "read_literal esc (c # d # s) =
     (if c = CHR 0x27 then
        (if d = CHR 0x27 then map_option (apfst (Cons (CHR 0x27))) (read_literal esc s) else Some ([], d # s))
      else if esc \<and> c = CHR 0x5C then map_option (apfst (Cons (mysql_escape d))) (read_literal esc s)
      else map_option (apfst (Cons c)) (read_literal esc (d # s)))"

lemma double_char_simps [simp]:
  "double_char q [] = []" "double_char q (c # s) = (if c = q then [q, q] else [c]) @ double_char q s"
  by (simp_all add: double_char_def)

lemma read_literal_plain:
  assumes "c \<noteq> CHR 0x27" and "\<not> (esc \<and> c = CHR 0x5C)" and "read_literal esc t = Some r"
  shows "read_literal esc (c # t) = map_option (apfst (Cons c)) (read_literal esc t)"
  using assms by (cases t) auto

lemma read_literal_rendered:
  assumes "rest = [] \<or> hd rest \<noteq> CHR 0x27"
  shows "read_literal esc (double_char (CHR 0x27) (if esc then double_char (CHR 0x5C) t else t) @ CHR 0x27 # rest) = Some (t, rest)"
proof (induction t)
  case Nil
  with assms show ?case by (cases rest) auto
next
  case (Cons c t)
  have "mysql_escape (CHR 0x5C) = CHR 0x5C" by (simp add: mysql_escape_def)
  with Cons show ?case by (cases esc) (auto simp: read_literal_plain)
qed

lemma plain_number_chars:
  assumes "plain_number s"
  shows "set s \<subseteq> {c. is_digit c} \<union> set ''-.''"
proof -
  define t where "t = (case s of c # u \<Rightarrow> if c = CHR ''-'' then u else s | [] \<Rightarrow> [])"
  have "set s \<subseteq> set t \<union> set ''-''" by (cases s) (auto simp: t_def)
  moreover have "set t = set (takeWhile is_digit t) \<union> set (dropWhile is_digit t)"
    by (metis set_append takeWhile_dropWhile_id)
  moreover have "set (takeWhile is_digit t) \<subseteq> {c. is_digit c}" by (auto dest: set_takeWhileD)
  moreover have "set (dropWhile is_digit t) \<subseteq> {c. is_digit c} \<union> set ''.''"
    using assms by (auto simp: plain_number_def Let_def t_def [symmetric] list_all_iff split: list.splits dest: set_dropWhileD)
  ultimately show ?thesis by auto
qed

text \<open>How an engine reads one value from the front of a text: a string literal, the keyword NULL, or
  a number as far as it goes.\<close>

datatype sql_value = Sql_Null | Sql_Number string | Sql_Text string

definition read_digits :: "string \<Rightarrow> (string \<times> string) option" where
  "read_digits s = (if takeWhile is_digit s = [] then None else Some (takeWhile is_digit s, dropWhile is_digit s))"

definition read_number :: "string \<Rightarrow> (string \<times> string) option" where
  "read_number s = (case read_digits s of None \<Rightarrow> None
     | Some (n, r) \<Rightarrow> (case r of [] \<Rightarrow> Some (n, r)
         | c # r' \<Rightarrow> if c = CHR ''.'' then (case read_digits r' of None \<Rightarrow> Some (n, r) | Some (f, r'') \<Rightarrow> Some (n @ c # f, r''))
             else Some (n, r)))"

definition read_value :: "bool \<Rightarrow> string \<Rightarrow> (sql_value \<times> string) option" where
  "read_value esc s = (case s of [] \<Rightarrow> None
     | c # r \<Rightarrow>
       if c = CHR 0x27 then map_option (apfst Sql_Text) (read_literal esc r)
       else if c = CHR ''-'' then map_option (apfst (\<lambda>n. Sql_Number (c # n))) (read_number r)
       else if take 4 s = ''NULL'' then Some (Sql_Null, drop 4 s)
       else map_option (apfst Sql_Number) (read_number s))"

text \<open>What stands behind the value does not continue it.\<close>

definition value_ends :: "string \<Rightarrow> bool" where
  "value_ends rest \<longleftrightarrow> rest = [] \<or> \<not> (is_word (hd rest) \<or> hd rest \<in> {CHR 0x27, CHR ''.''})"

definition stands_for :: "var_value \<Rightarrow> sql_value \<Rightarrow> bool" where
  "stands_for v x \<longleftrightarrow> (case x of
      Sql_Null \<Rightarrow> vv_null v = Some True
    | Sql_Number n \<Rightarrow> vv_null v \<noteq> Some True \<and> n = trim (vv_text v)
    | Sql_Text t \<Rightarrow> vv_null v \<noteq> Some True \<and> t = vv_text v)"

lemma digits_read:
  assumes "list_all is_digit n" and "n \<noteq> []" and "r = [] \<or> \<not> is_digit (hd r)"
  shows "read_digits (n @ r) = Some (n, r)"
proof -
  have "takeWhile is_digit r = []" "dropWhile is_digit r = r" using assms(3) by (cases r; auto)+
  with assms show ?thesis
    by (simp add: read_digits_def takeWhile_append dropWhile_append list_all_iff)
qed

lemma number_read:
  assumes "list_all is_digit n" and "n \<noteq> []" and "list_all is_digit f"
    and "w = (if f = [] then n else n @ CHR ''.'' # f)" and "value_ends rest"
  shows "read_number (w @ rest) = Some (w, rest)"
proof -
  have r: "rest = [] \<or> \<not> is_digit (hd rest)" "rest = [] \<or> hd rest \<noteq> CHR ''.''"
    using assms(5) by (auto simp: value_ends_def is_word_def)
  show ?thesis
  proof (cases "f = []")
    case True
    then show ?thesis using digits_read [OF assms(1,2) r(1)] r(2) assms(4)
      by (cases rest) (auto simp: read_number_def)
  next
    case False
    have "\<not> is_digit (CHR ''.'')" by (simp add: is_digit_def)
    then have "read_digits (n @ CHR ''.'' # f @ rest) = Some (n, CHR ''.'' # f @ rest)"
      using assms(1,2) by (intro digits_read) simp_all
    with False digits_read [OF assms(3) False r(1)] assms(4) show ?thesis
      by (simp add: read_number_def)
  qed
qed

lemma plain_number_parts:
  assumes "plain_number s"
  obtains n f w where "s = w \<or> s = CHR ''-'' # w" and "list_all is_digit n" "n \<noteq> []" "list_all is_digit f"
    and "w = (if f = [] then n else n @ CHR ''.'' # f)"
proof -
  define t where "t = (case s of c # u \<Rightarrow> if c = CHR ''-'' then u else s | [] \<Rightarrow> [])"
  have st: "s = t \<or> s = CHR ''-'' # t" by (auto simp: t_def split: list.splits)
  define n where "n = takeWhile is_digit t"
  define r where "r = dropWhile is_digit t"
  have t: "t = n @ r" "list_all is_digit n" by (auto simp: n_def r_def list_all_iff dest: set_takeWhileD)
  have p: "n \<noteq> []" "r = [] \<or> (\<exists>f. r = CHR ''.'' # f \<and> f \<noteq> [] \<and> list_all is_digit f)"
    using assms by (auto simp: plain_number_def Let_def t_def [symmetric] n_def [symmetric] r_def [symmetric]
        split: list.splits if_splits)
  from p(2) show ?thesis
  proof
    assume "r = []"
    with st t p(1) show ?thesis by (intro that [of t n "[]"]) simp_all
  next
    assume "\<exists>f. r = CHR ''.'' # f \<and> f \<noteq> [] \<and> list_all is_digit f"
    then obtain f where "r = CHR ''.'' # f" "f \<noteq> []" "list_all is_digit f" by blast
    with st t p(1) show ?thesis by (intro that [of t n f]) simp_all
  qed
qed

lemma plain_number_read:
  assumes "plain_number s" and "value_ends rest"
  shows "read_value esc (s @ rest) = Some (Sql_Number s, rest)"
proof -
  obtain n f w where w: "s = w \<or> s = CHR ''-'' # w" "list_all is_digit n" "n \<noteq> []" "list_all is_digit f"
    "w = (if f = [] then n else n @ CHR ''.'' # f)"
    using plain_number_parts [OF assms(1)] .
  note r = number_read [OF w(2-5) assms(2)]
  obtain c u where c: "w = c # u" "is_digit c" using w(2,3,5) by (cases n) (auto split: if_splits)
  have nc: "c \<noteq> CHR 0x27" "c \<noteq> CHR ''-''" "c \<noteq> CHR ''N''" using c(2) by (auto simp: is_digit_def)
  from w(1) show ?thesis
  proof
    assume "s = CHR ''-'' # w"
    with r show ?thesis by (simp add: read_value_def)
  next
    assume "s = w"
    with r c nc show ?thesis by (simp add: read_value_def)
  qed
qed

section \<open>Properties\<close>



text \<open>A negative number is written bare, so behind a minus sign it makes a comment of the rest of the
  line.\<close>

theorem negative_after_minus:
  "apply_variables ''select a-:n from t'' [('':n'', \<lparr>vv_text = ''-5'', vv_null = None\<rparr>)] (Some ''postgres'')
     = ''select a--5 from t''"
  by code_simp

text \<open>Substituting touches nothing but variables: the text is gaps and variables, every variable
  is one the finder lists, and the result is the same gaps with each variable replaced by its
  value, or left as it stands when it has none.\<close>

theorem substitution_is_local:
  "\<exists>gs tail. sql = concat (map (\<lambda>(g, v). g @ sv_token v) gs) @ tail \<and>
     apply_variables sql vals engine = concat (map (\<lambda>(g, v). g @ written vals engine v) gs) @ tail \<and>
     set (find_variables sql engine) = snd ` set gs \<and> distinct (map sv_token (find_variables sql engine))"
proof -
  let ?os = "scan_sql sql engine"
  let ?g = "gaps sql 0 ?os"
  have "gap_text sv_token ?g = sql"
    using gap_text_tokens [of sql 0 ?os] scan_vars_ok by (simp add: scan_sql_def)
  moreover have "apply_variables sql vals engine = gap_text (written vals engine) ?g"
    by (rule apply_variables_gaps)
  moreover have "snd ` set (fst ?g) = fst ` set ?os"
    using arg_cong [OF gaps_vars [of sql 0 ?os], of set] by simp
  ultimately show ?thesis
    using find_variables_set [of sql engine] by (intro exI [of _ "fst ?g"] exI [of _ "snd ?g"]) (simp add: gap_text_def)
qed

end
