(* ===== verification/GridPaging.thy ===== *)
theory GridPaging
  imports TxMode
begin

text \<open>
  Paging and refreshing a result (\<open>gridPaging.ts\<close>): where the next page comes from, which
  fetched pages an export may reuse, and what a refresh runs again. Offsets and sizes are
  integers.
\<close>

definition rerunnable :: "string option \<Rightarrow> bool" where
  "rerunnable sql \<longleftrightarrow> (case sql of None \<Rightarrow> False | Some s \<Rightarrow> s \<noteq> [] \<and> reads_only s)"

definition next_offset :: "int \<Rightarrow> int \<Rightarrow> int \<Rightarrow> int" where
  "next_offset off delta psize = max 0 (off + delta * max 1 psize)"

definition page_has_more :: "int \<Rightarrow> int \<Rightarrow> bool" where
  "page_has_more rows psize \<longleftrightarrow> rows \<ge> max 1 psize"

text \<open>A displayed result. \<open>pr_pages\<close> are the fetched pages by number, \<open>None\<close> in it a hole.\<close>

record 'p pageable =
  pr_sql :: "string option"
  pr_offset :: "int option"
  pr_size :: "int option"
  pr_preview :: bool
  pr_cursor :: bool
  pr_pages :: "'p option list option"

datatype page_step = PCached int | PCursor int int | PPreview int int | PQuery int int

text \<open>\<open>Math.round(a / b)\<close> for a positive \<open>b\<close>.\<close>

definition round_div :: "int \<Rightarrow> int \<Rightarrow> int" where
  "round_div a b = (2 * a + b) div (2 * b)"

definition page_index :: "'p pageable \<Rightarrow> int \<Rightarrow> int" where
  "page_index r psize = max 0 (round_div (default 0 (pr_offset r)) psize)"

definition page_at :: "'p pageable \<Rightarrow> int \<Rightarrow> 'p option" where
  "page_at r i = Option.bind (Option.bind (pr_pages r) (\<lambda>ps. nth_opt ps (nat i))) (\<lambda>p. p)"

definition page_step :: "'p pageable option \<Rightarrow> int \<Rightarrow> page_step option" where
  "page_step res delta =
     (case res of None \<Rightarrow> None
      | Some r \<Rightarrow>
          let psize = default 0 (pr_size r) in
          if psize < 1 then None
          else let target = page_index r psize + delta; off = target * psize in
            if target < 0 then None
            else if page_at r target \<noteq> None then Some (PCached target)
            else if delta = 1 \<and> pr_cursor r \<and> target = (case pr_pages r of None \<Rightarrow> - 1 | Some ps \<Rightarrow> int (length ps))
            then Some (PCursor target off)
            else if pr_preview r then Some (PPreview target off)
            else if rerunnable (pr_sql r) then Some (PQuery target off)
            else None)"

definition contiguous_pages :: "'p option list option \<Rightarrow> 'p list option" where
  "contiguous_pages pages =
     (case pages of None \<Rightarrow> None
      | Some ps \<Rightarrow> if ps = [] \<or> None \<in> set ps then None else Some (map the ps))"

datatype refresh_action = RPreview int | RQuery string int

definition refresh_action :: "'p pageable option \<Rightarrow> refresh_action option" where
  "refresh_action res =
     (case res of None \<Rightarrow> None
      | Some r \<Rightarrow>
          if pr_preview r then Some (RPreview (default 0 (pr_offset r)))
          else if rerunnable (pr_sql r) then Some (RQuery (the (pr_sql r)) (default 0 (pr_offset r)))
          else None)"

datatype refresh_block = BlockEditing | BlockRunning | BlockWrites | BlockNothing

definition refresh_block :: "'p pageable option \<Rightarrow> bool \<Rightarrow> bool \<Rightarrow> refresh_block option" where
  "refresh_block res editing loading =
     (if editing then Some BlockEditing
      else if loading then Some BlockRunning
      else if (case res of None \<Rightarrow> False
          | Some r \<Rightarrow> \<not> pr_preview r \<and> truthy (pr_sql r) \<noteq> None \<and> \<not> rerunnable (pr_sql r)) then Some BlockWrites
      else if refresh_action res = None then Some BlockNothing
      else None)"

lemma round_div_exact: "0 < b \<Longrightarrow> round_div (k * b) b = k"
proof -
  assume b: "0 < b"
  have "(2 * (k * b) + b) div (2 * b) = (b + k * (2 * b)) div (2 * b)" by (simp add: algebra_simps)
  also have "\<dots> = k + b div (2 * b)" using b by (intro div_mult_self1) simp
  also have "b div (2 * b) = 0" using b by (intro div_pos_pos_trivial) simp_all
  finally show ?thesis by (simp add: round_div_def)
qed

section \<open>Properties\<close>

text \<open>Turning a page or refreshing never runs again a statement that is not plainly a read: the
  only statements they execute are the table preview's own and one that \<open>readsOnly\<close> accepts,
  and it is the statement on screen. The page turned to is the neighbour of the one shown, from
  memory when it was fetched, from the cursor only when it comes right after the last fetched
  page.\<close>

theorem paging_only_rereads:
  assumes "pr_offset r = Some (k * n)" and "pr_size r = Some n" and "0 < n" and "0 \<le> k" and "d = 1 \<or> d = - 1"
  shows "(case page_step (Some r) d of
       None \<Rightarrow> True
     | Some (PCached i) \<Rightarrow> i = k + d \<and> page_at r i \<noteq> None
     | Some (PCursor i off) \<Rightarrow> d = 1 \<and> i = k + 1 \<and> off = i * n \<and> pr_cursor r \<and>
         (\<exists>ps. pr_pages r = Some ps \<and> i = int (length ps))
     | Some (PPreview i off) \<Rightarrow> i = k + d \<and> off = i * n \<and> 0 \<le> i \<and> pr_preview r
     | Some (PQuery i off) \<Rightarrow> i = k + d \<and> off = i * n \<and> 0 \<le> i \<and>
         (\<exists>sql. pr_sql r = Some sql \<and> reads_only sql)) \<and>
    (case refresh_action (Some r) of
       Some (RQuery sql off) \<Rightarrow> pr_sql r = Some sql \<and> reads_only sql \<and> off = k * n
     | Some (RPreview off) \<Rightarrow> pr_preview r \<and> off = k * n
     | None \<Rightarrow> refresh_block (Some r) False False \<noteq> None)"
proof
  have idx: "page_index r n = k" using assms by (simp add: page_index_def round_div_exact)
  show "case page_step (Some r) d of
       None \<Rightarrow> True
     | Some (PCached i) \<Rightarrow> i = k + d \<and> page_at r i \<noteq> None
     | Some (PCursor i off) \<Rightarrow> d = 1 \<and> i = k + 1 \<and> off = i * n \<and> pr_cursor r \<and>
         (\<exists>ps. pr_pages r = Some ps \<and> i = int (length ps))
     | Some (PPreview i off) \<Rightarrow> i = k + d \<and> off = i * n \<and> 0 \<le> i \<and> pr_preview r
     | Some (PQuery i off) \<Rightarrow> i = k + d \<and> off = i * n \<and> 0 \<le> i \<and>
         (\<exists>sql. pr_sql r = Some sql \<and> reads_only sql)"
    using assms idx
    by (auto simp: page_step_def Let_def rerunnable_def split: option.splits page_step.splits if_splits)
  show "case refresh_action (Some r) of
       Some (RQuery sql off) \<Rightarrow> pr_sql r = Some sql \<and> reads_only sql \<and> off = k * n
     | Some (RPreview off) \<Rightarrow> pr_preview r \<and> off = k * n
     | None \<Rightarrow> refresh_block (Some r) False False \<noteq> None"
    using assms by (auto simp: refresh_action_def refresh_block_def rerunnable_def split: option.splits if_splits)
qed

theorem paging_only_rereads_witness:
  "\<exists>sql. pr_sql \<lparr>pr_sql = Some ''select 1'', pr_offset = Some 20, pr_size = Some 10, pr_preview = False,
     pr_cursor = False, pr_pages = None :: unit option list option\<rparr> = Some sql \<and> reads_only sql"
proof -
  let ?r = "\<lparr>pr_sql = Some ''select 1'', pr_offset = Some 20, pr_size = Some 10, pr_preview = False,
     pr_cursor = False, pr_pages = None :: unit option list option\<rparr>"
  have "page_step (Some ?r) (- 1) = Some (PQuery 1 10)" by code_simp
  with paging_only_rereads [of ?r 2 10 "- 1"] show ?thesis by simp
qed

text \<open>An explained write passes as a read: \<open>EXPLAIN ANALYZE DELETE\<close> executes the DELETE and the
  safe-mode classifier calls it a write, but a refresh runs it again and manual mode runs it
  without opening a transaction.\<close>

theorem explained_write_runs_again:
  "classify_sql ''EXPLAIN ANALYZE DELETE FROM t'' (Some ''postgres'') = Write \<and>
   refresh_action (Some \<lparr>pr_sql = Some ''EXPLAIN ANALYZE DELETE FROM t'', pr_offset = None, pr_size = None,
     pr_preview = False, pr_cursor = False, pr_pages = None :: unit option list option\<rparr>) =
     Some (RQuery ''EXPLAIN ANALYZE DELETE FROM t'' 0) \<and>
   plan_statement (idle_tx True) ''EXPLAIN ANALYZE DELETE FROM t'' ''postgres'' = StRun False False False"
  by (intro conjI) code_simp+

end
