(* ===== verification/RegexOps.thy ===== *)
theory RegexOps
  imports JsRegex
begin

text \<open>
  \<open>matchAll\<close> and \<open>replace\<close> with a function, over the regular expressions of \<open>JsRegex\<close>: the text
  cut into the characters outside every match and the matches with their groups.
\<close>

datatype piece = Plain char | Hit string caps

primrec piece_text :: "piece \<Rightarrow> string" where
  "piece_text (Plain c) = [c]"
| "piece_text (Hit w cs) = w"

function re_pieces :: "re \<Rightarrow> string \<Rightarrow> string \<Rightarrow> piece list" where
  "re_pieces p b r =
     (case m_re p (b, r, []) of
        (b', r', cs) # _ \<Rightarrow>
          (if length r' < length r then Hit (take (length r - length r') r) cs # re_pieces p b' r'
           else (case r of [] \<Rightarrow> [Hit [] cs] | c # r1 \<Rightarrow> Hit [] cs # Plain c # re_pieces p (c # b) r1))
      | [] \<Rightarrow> (case r of [] \<Rightarrow> [] | c # r1 \<Rightarrow> Plain c # re_pieces p (c # b) r1))"
  by pat_completeness auto
termination
  by (relation "measure (\<lambda>(p, b, r). length r)") auto

declare re_pieces.simps [simp del]

definition re_replace_fn :: "re \<Rightarrow> (string \<Rightarrow> caps \<Rightarrow> string) \<Rightarrow> string \<Rightarrow> string" where
  "re_replace_fn p f s =
     concat (map (\<lambda>q. case q of Plain c \<Rightarrow> [c] | Hit w cs \<Rightarrow> f w cs) (re_pieces p [] s))"

lemma m_re_first:
  assumes "m_re p (b, r, []) = (b', r', cs) # ts"
  shows "\<exists>w. r = w @ r' \<and> b' = rev w @ b \<and> mat p b w r'"
  using sound_mE [OF m_re_sound, of "(b', r', cs)" p "(b, r, [])"] assms by auto

text \<open>The pieces make up the text, and every match is one.\<close>

lemma pieces_text: "concat (map piece_text (re_pieces p b r)) = r"
proof (induction p b r rule: re_pieces.induct)
  case (1 p b r)
  show ?case
  proof (cases "m_re p (b, r, [])")
    case Nil
    with 1(1) show ?thesis by (subst re_pieces.simps) (auto split: list.split)
  next
    case (Cons t ts)
    obtain b' r' cs where t: "t = (b', r', cs)" by (cases t)
    note step = Cons [unfolded t]
    obtain w where w: "r = w @ r'" using m_re_first [OF step] by blast
    show ?thesis
    proof (cases "length r' < length r")
      case True
      with 1(2) [OF step] w step show ?thesis by (subst re_pieces.simps) auto
    next
      case False
      with 1(3) [OF step] step show ?thesis by (subst re_pieces.simps) (auto split: list.split)
    qed
  qed
qed

lemma replace_fn_same:
  assumes "\<And>w cs. Hit w cs \<in> set (re_pieces p [] s) \<Longrightarrow> f w cs = w"
  shows "re_replace_fn p f s = s"
proof -
  have "map (\<lambda>q. case q of Plain c \<Rightarrow> [c] | Hit w cs \<Rightarrow> f w cs) (re_pieces p [] s)
      = map piece_text (re_pieces p [] s)"
    using assms by (auto split: piece.split)
  then show ?thesis unfolding re_replace_fn_def by (simp only: pieces_text)
qed

end
