(* ===== verification/Snippets.thy ===== *)
theory Snippets
  imports SeqIds QueryTarget RegexOps
begin

text \<open>
  Favourites (\<open>snippets.ts\<close>): named fragments of SQL, their operations over the list, import,
  storage, and the editor templates they become (\<open>sqlTemplates.ts\<close>, with the completion context
  of \<open>sqlEditor.ts\<close>).
\<close>

section \<open>Abbreviations\<close>

definition abbr_head :: "char \<Rightarrow> bool" where
  "abbr_head c \<longleftrightarrow> is_lower_az c \<or> c = CHR ''_''"

definition abbr_char :: "char \<Rightarrow> bool" where
  "abbr_char c \<longleftrightarrow> abbr_head c \<or> is_digit c"

definition ABBR :: re where
  "ABBR = seqs [Bol, Seq (Cls abbr_head) (star (Cls abbr_char)), Eol]"

definition normalize_abbr :: "string \<Rightarrow> string option" where
  "normalize_abbr raw = (let a = to_lower (trim raw) in if re_test ABBR a then Some a else None)"

section \<open>Snippets and their operations\<close>

record saved_snippet =
  sn_id :: string
  sn_name :: string
  sn_body :: string
  sn_abbr :: "string option"

definition proposed_snippet_name :: "string \<Rightarrow> string \<Rightarrow> string option" where
  "proposed_snippet_name sql engine = map_option qt_table (query_edit_target sql engine)"

text \<open>The loop of \<open>uniqueSnippetName\<close> has no bound: \<open>None\<close> is a loop that never ends.\<close>

definition numbered_name :: "string \<Rightarrow> int \<Rightarrow> string" where
  "numbered_name base n = base @ '' ('' @ show_int n @ '')''"

partial_function (option) free_name :: "string list \<Rightarrow> string \<Rightarrow> int \<Rightarrow> string option" where
  "free_name names base n =
     (if numbered_name base n \<notin> set names then Some (numbered_name base n) else free_name names base (n + 1))"

definition unique_snippet_name :: "saved_snippet list \<Rightarrow> string \<Rightarrow> string option" where
  "unique_snippet_name xs name =
     (let base = trim name in
      if base = [] \<or> \<not> list_ex (\<lambda>s. sn_name s = base) xs then Some base
      else free_name (map sn_name xs) base 2)"

definition search_snippets :: "saved_snippet list \<Rightarrow> string \<Rightarrow> saved_snippet list" where
  "search_snippets xs query =
     (let q = to_lower (trim query) in
      if q = [] then xs
      else filter (\<lambda>s. contains (to_lower (sn_name s)) q \<or> contains (to_lower (sn_body s)) q) xs)"

definition next_snippet_id :: "saved_snippet list \<Rightarrow> string" where
  "next_snippet_id xs = next_seq_id ''snip-'' (map sn_id xs)"

definition new_snippet :: "string \<Rightarrow> string \<times> string \<Rightarrow> saved_snippet" where
  "new_snippet i nb = \<lparr>sn_id = i, sn_name = fst nb, sn_body = snd nb, sn_abbr = None\<rparr>"

definition add_snippet :: "saved_snippet list \<Rightarrow> string \<Rightarrow> string \<Rightarrow> saved_snippet list" where
  "add_snippet xs name body =
     (let n = trim name in
      if n = [] \<or> trim body = [] then xs else xs @ [new_snippet (next_snippet_id xs) (n, body)])"

definition update_snippet_body :: "saved_snippet list \<Rightarrow> string \<Rightarrow> string \<Rightarrow> saved_snippet list" where
  "update_snippet_body xs i body =
     (if trim body = [] then xs else map (\<lambda>s. if sn_id s = i then s\<lparr>sn_body := body\<rparr> else s) xs)"

definition rename_snippet :: "saved_snippet list \<Rightarrow> string \<Rightarrow> string \<Rightarrow> saved_snippet list" where
  "rename_snippet xs i name =
     (let n = trim name in
      if n = [] then xs else map (\<lambda>s. if sn_id s = i then s\<lparr>sn_name := n\<rparr> else s) xs)"

definition set_snippet_abbr :: "saved_snippet list \<Rightarrow> string \<Rightarrow> string \<Rightarrow> saved_snippet list" where
  "set_snippet_abbr xs i raw =
     (if trim raw = [] then map (\<lambda>s. if sn_id s \<noteq> i then s else s\<lparr>sn_abbr := None\<rparr>) xs
      else case normalize_abbr raw of None \<Rightarrow> xs
           | Some a \<Rightarrow> map (\<lambda>s. if sn_id s = i then s\<lparr>sn_abbr := Some a\<rparr> else s) xs)"

definition remove_snippet :: "saved_snippet list \<Rightarrow> string \<Rightarrow> saved_snippet list" where
  "remove_snippet xs i = filter (\<lambda>s. sn_id s \<noteq> i) xs"

definition with_abbr :: "saved_snippet \<Rightarrow> string option \<Rightarrow> saved_snippet" where
  "with_abbr s abbr =
     (case Option.bind abbr normalize_abbr of None \<Rightarrow> s | Some a \<Rightarrow> s\<lparr>sn_abbr := Some a\<rparr>)"

definition merge_snippet :: "saved_snippet \<Rightarrow> saved_snippet list \<Rightarrow> saved_snippet list" where
  "merge_snippet s xs =
     (let name = trim (sn_name s) in
      if name = [] \<or> trim (sn_body s) = [] then xs
      else if list_ex (\<lambda>e. sn_name e = name \<and> sn_body e = sn_body s) xs then xs
      else xs @ [with_abbr (new_snippet (next_snippet_id xs) (name, sn_body s)) (sn_abbr s)])"

definition merge_snippets :: "saved_snippet list \<Rightarrow> saved_snippet list \<Rightarrow> saved_snippet list" where
  "merge_snippets current incoming = fold merge_snippet incoming current"

text \<open>\<open>doc.slice(0, a) + insert + doc.slice(b)\<close>; offsets may be out of range.\<close>

definition insert_into_text :: "string \<Rightarrow> int \<Rightarrow> int \<Rightarrow> string \<Rightarrow> string \<times> int" where
  "insert_into_text doc from to ins =
     (let a = max 0 (min from to); b = min (int (length doc)) (max from to) in
      (take (nat a) doc @ ins @ drop (nat (if b < 0 then max 0 (int (length doc) + b) else b)) doc,
       a + int (length ins)))"

section \<open>Storage\<close>

definition snippet_json :: "saved_snippet \<Rightarrow> json" where
  "snippet_json s = JObj ([(''id'', JStr (sn_id s)), (''name'', JStr (sn_name s)), (''body'', JStr (sn_body s))]
     @ (case sn_abbr s of None \<Rightarrow> [] | Some a \<Rightarrow> [(''abbr'', JStr a)]))"

definition serialize_snippets :: "saved_snippet list \<Rightarrow> json" where
  "serialize_snippets xs = JArr (map snippet_json xs)"

definition coerce_snippet :: "json \<Rightarrow> saved_snippet option" where
  "coerce_snippet item =
     (case (json_str (json_field item ''id''), json_str (json_field item ''name''),
            json_str (json_field item ''body'')) of
        (Some i, Some name, Some body) \<Rightarrow>
          Some (with_abbr (new_snippet i (name, body)) (json_str (json_field item ''abbr'')))
      | _ \<Rightarrow> None)"

text \<open>\<open>None\<close>: nothing stored, or a text that does not parse.\<close>

definition parse_snippets :: "json option \<Rightarrow> saved_snippet list" where
  "parse_snippets raw = (case raw of Some (JArr items) \<Rightarrow> List.map_filter coerce_snippet items | _ \<Rightarrow> [])"

section \<open>Templates\<close>

record sql_template =
  tp_abbr :: string
  tp_name :: string
  tp_body :: string

text \<open>\<open>resolveTemplates\<close>: the set \<open>taken\<close> is the abbreviations already listed.\<close>

definition add_template ::
    "string option \<Rightarrow> string \<Rightarrow> string \<Rightarrow> sql_template list \<Rightarrow> sql_template list" where
  "add_template abbr name body out =
     (case Option.bind (truthy abbr) normalize_abbr of None \<Rightarrow> out
      | Some a \<Rightarrow>
          if a \<in> set (map tp_abbr out) then out
          else out @ [\<lparr>tp_abbr = a, tp_name = name, tp_body = body\<rparr>])"

definition resolve_templates :: "saved_snippet list \<Rightarrow> sql_template list \<Rightarrow> sql_template list" where
  "resolve_templates snippets builtins =
     fold (\<lambda>b. add_template (Some (tp_abbr b)) (tp_name b) (tp_body b)) builtins
       (fold (\<lambda>s. add_template (sn_abbr s) (sn_name s) (sn_body s)) snippets [])"

text \<open>\<open>completionContext\<close>: the word before the cursor and the table it is qualified with.\<close>

definition editor_word_char :: "char \<Rightarrow> bool" where
  "editor_word_char c \<longleftrightarrow> is_word c \<or> c = CHR ''$''"

definition word_start :: "string \<Rightarrow> nat \<Rightarrow> nat" where
  "word_start s i = i - length (takeWhile editor_word_char (rev (take i s)))"

text \<open>\<open>lastIndexOf(open, i)\<close>: a negative position counts as 0.\<close>

definition last_index_of :: "char \<Rightarrow> string \<Rightarrow> int \<Rightarrow> nat option" where
  "last_index_of c s i =
     (case filter (\<lambda>k. s ! k = c) [0..<min (length s) (Suc (nat i))] of [] \<Rightarrow> None | ks \<Rightarrow> Some (last ks))"

record completion_context =
  cc_from :: nat
  cc_word :: string
  cc_table :: "string option"

definition completion_table :: "string \<Rightarrow> nat \<Rightarrow> string option" where
  "completion_table sql t =
     (case (if t = 0 then None else nth_opt sql (t - 1)) of
        Some q \<Rightarrow>
          if q \<in> {CHR 0x22, CHR ''`'', CHR '']''} then
            map_option (\<lambda>start. slice sql (Suc start) (t - 1))
              (last_index_of (if q = CHR '']'' then CHR ''['' else q) sql (int t - 2))
          else if word_start sql t < t then Some (slice sql (word_start sql t) t) else None
      | None \<Rightarrow> None)"

definition completion_context_at :: "string \<Rightarrow> int \<Rightarrow> completion_context" where
  "completion_context_at sql cursor =
     (let at = nat (max 0 (min cursor (int (length sql)))); from = word_start sql at in
      \<lparr>cc_from = from, cc_word = slice sql from at,
       cc_table = (if from > 0 \<and> sql ! (from - 1) = CHR ''.'' then completion_table sql (from - 1) else None)\<rparr>)"

definition template_at :: "sql_template list \<Rightarrow> string \<Rightarrow> nat \<Rightarrow> (sql_template \<times> nat) option" where
  "template_at templates text pos =
     (if (case nth_opt text pos of None \<Rightarrow> False | Some c \<Rightarrow> editor_word_char c) then None
      else let ctx = completion_context_at text (int pos) in
        if cc_from ctx > 0 \<and> nth_opt text (cc_from ctx - 1) = Some CHR ''.'' then None
        else map_option (\<lambda>t. (t, cc_from ctx))
               (List.find (\<lambda>t. tp_abbr t = to_lower (cc_word ctx)) templates))"

definition brace :: "char \<Rightarrow> bool" where
  "brace c \<longleftrightarrow> c = CHR ''{'' \<or> c = CHR ''}''"

definition PLACEHOLDER :: re where
  "PLACEHOLDER = seqs [lit ''${'',
     Alt (Seq (plus (Cls is_digit)) (opt (Seq (one CHR '':'') (star (Cls (\<lambda>c. \<not> brace c))))))
         (star (Alt (Seq (one CHR 0x5C) (Cls brace)) (Cls (\<lambda>c. \<not> brace c)))),
     one CHR ''}'']"

text \<open>\<open>esc\<close>: every brace that is not yet escaped gets its backslash.\<close>

fun escape_braces :: "string \<Rightarrow> string" where
  "escape_braces [] = []"
| "escape_braces [c] = (if brace c then [CHR 0x5C, c] else [c])"
| "escape_braces (c # d # s) =
     (if c = CHR 0x5C \<and> brace d then c # d # escape_braces s
      else if brace c then CHR 0x5C # c # escape_braces (d # s)
      else c # escape_braces (d # s))"

fun template_pieces :: "string \<Rightarrow> piece list \<Rightarrow> string" where
  "template_pieces gap [] = escape_braces gap"
| "template_pieces gap (Plain c # ps) = template_pieces (gap @ [c]) ps"
| "template_pieces gap (Hit w cs # ps) = escape_braces gap @ w @ template_pieces [] ps"

definition template_to_snippet :: "string \<Rightarrow> string" where
  "template_to_snippet body = template_pieces [] (re_pieces PLACEHOLDER [] body)"

section \<open>Abbreviations are settled once normalised\<close>

lemma re_test_ABBR: "re_test ABBR a \<longleftrightarrow> (\<exists>c v. a = c # v \<and> abbr_head c \<and> list_all abbr_char v)"
  by (simp only: ABBR_def seqs.simps re_test_exact mat_Seq_Cls mat_star_cls)

lemma abbr_char_kept: "abbr_char c \<Longrightarrow> lower_char c = c \<and> \<not> is_space c"
  by (auto simp: abbr_char_def abbr_head_def is_lower_az_def is_digit_def lower_char_def is_space_def
      is_upper_az_def)

lemma abbr_settled:
  assumes "re_test ABBR a"
  shows "to_lower (trim a) = a"
proof -
  from assms have ne: "a \<noteq> []" and "\<forall>c \<in> set a. abbr_char c"
    by (auto simp: re_test_ABBR list_all_iff abbr_char_def)
  then have chars: "\<forall>c \<in> set a. lower_char c = c \<and> \<not> is_space c" using abbr_char_kept by blast
  have "trim a = a"
    using chars hd_in_set [OF ne] last_in_set [OF ne] by (intro trim_idem_char [OF ne]) blast+
  with chars show ?thesis by (simp add: to_lower_def map_idI)
qed

lemma normalize_abbr_idem: "normalize_abbr raw = Some a \<Longrightarrow> normalize_abbr a = Some a"
  by (auto simp: normalize_abbr_def Let_def abbr_settled split: if_splits)

lemma normalize_abbr_not_Nil: "normalize_abbr raw = Some a \<Longrightarrow> a \<noteq> []"
  by (auto simp: normalize_abbr_def Let_def re_test_ABBR split: if_splits)

section \<open>A free name is always found\<close>

lemma numbered_inj: "0 \<le> m \<Longrightarrow> 0 \<le> n \<Longrightarrow> numbered_name base m = numbered_name base n \<Longrightarrow> m = n"
  by (auto simp: numbered_name_def show_int_def split: if_splits dest!: digits_of_inj)

lemma free_name_returns:
  assumes "numbered_name base (n + int k) \<notin> set names"
  shows "\<exists>m \<ge> n. free_name names base n = Some (numbered_name base m) \<and> numbered_name base m \<notin> set names"
  using assms
proof (induction k arbitrary: n)
  case 0
  then show ?case by (subst free_name.simps) auto
next
  case (Suc k)
  show ?case
  proof (cases "numbered_name base n \<in> set names")
    case True
    from Suc.prems have "numbered_name base (n + 1 + int k) \<notin> set names" by (simp add: algebra_simps)
    from Suc.IH [OF this] obtain m where "m \<ge> n + 1"
        "free_name names base (n + 1) = Some (numbered_name base m)" "numbered_name base m \<notin> set names"
      by blast
    with True show ?thesis by (subst free_name.simps) (auto intro!: exI [of _ m])
  qed (subst free_name.simps, auto)
qed

lemma some_number_free: "\<exists>k. numbered_name base (2 + int k) \<notin> set names"
proof (rule ccontr)
  assume "\<not> ?thesis"
  then have "range (\<lambda>k. numbered_name base (2 + int k)) \<subseteq> set names" by auto
  moreover have "inj (\<lambda>k. numbered_name base (2 + int k))"
    by (intro injI) (drule numbered_inj [rotated 2], auto)
  ultimately show False using finite_subset finite_imageD [of _ UNIV] by blast
qed

section \<open>The list keeps its identifiers apart\<close>

interpretation snip: keyed_items sn_id "''snip-''" new_snippet
  by unfold_locales (simp add: new_snippet_def)

lemma with_abbr_id [simp]: "sn_id (with_abbr s a) = sn_id s"
  "sn_name (with_abbr s a) = sn_name s" "sn_body (with_abbr s a) = sn_body s"
  by (auto simp: with_abbr_def split: option.splits)

lemma new_snippet_sel [simp]: "sn_id (new_snippet i nb) = i" "sn_name (new_snippet i nb) = fst nb"
  "sn_body (new_snippet i nb) = snd nb" "sn_abbr (new_snippet i nb) = None"
  by (simp_all add: new_snippet_def)

text \<open>An abbreviation the list holds is one \<open>normalizeAbbr\<close> gives back unchanged.\<close>

definition wf_snippet :: "saved_snippet \<Rightarrow> bool" where
  "wf_snippet s \<longleftrightarrow> (case sn_abbr s of None \<Rightarrow> True | Some a \<Rightarrow> normalize_abbr a = Some a)"

lemma wf_new [simp]: "wf_snippet (new_snippet i nb)"
  by (simp add: wf_snippet_def)

lemma wf_with_abbr: "wf_snippet s \<Longrightarrow> wf_snippet (with_abbr s a)"
  by (auto simp: wf_snippet_def with_abbr_def Option.bind_eq_Some_conv dest: normalize_abbr_idem split: option.splits)

datatype snippet_op =
    Add_Snippet string string
  | Update_Body string string
  | Rename_Snippet string string
  | Set_Abbr string string
  | Remove_Snippet string
  | Merge_Snippets "saved_snippet list"

primrec snippet_step :: "snippet_op \<Rightarrow> saved_snippet list \<Rightarrow> saved_snippet list" where
  "snippet_step (Add_Snippet n b) xs = add_snippet xs n b"
| "snippet_step (Update_Body i b) xs = update_snippet_body xs i b"
| "snippet_step (Rename_Snippet i n) xs = rename_snippet xs i n"
| "snippet_step (Set_Abbr i a) xs = set_snippet_abbr xs i a"
| "snippet_step (Remove_Snippet i) xs = remove_snippet xs i"
| "snippet_step (Merge_Snippets ys) xs = merge_snippets xs ys"

lemmas snippet_op_defs = add_snippet_def update_snippet_body_def rename_snippet_def
  set_snippet_abbr_def remove_snippet_def Let_def

lemma wf_merge_snippet: "list_all wf_snippet xs \<Longrightarrow> list_all wf_snippet (merge_snippet s xs)"
  by (auto simp: merge_snippet_def Let_def wf_with_abbr)

lemma wf_merge: "list_all wf_snippet xs \<Longrightarrow> list_all wf_snippet (merge_snippets xs ys)"
  unfolding merge_snippets_def by (induction ys arbitrary: xs) (auto intro: wf_merge_snippet)

lemma wf_snippet_step: "list_all wf_snippet xs \<Longrightarrow> list_all wf_snippet (snippet_step op xs)"
proof (cases op)
  case (Merge_Snippets ys)
  then show "list_all wf_snippet xs \<Longrightarrow> ?thesis" by (simp add: wf_merge)
qed (auto simp: snippet_op_defs list_all_iff wf_snippet_def dest: normalize_abbr_idem split: option.splits)

lemma wf_parse_snippets: "list_all wf_snippet (parse_snippets raw)"
proof -
  have "wf_snippet s" if "coerce_snippet item = Some s" for item s
    using that by (auto simp: coerce_snippet_def wf_with_abbr split: option.splits)
  then show ?thesis
    by (auto simp: parse_snippets_def list_all_iff map_filter_def split: option.splits json.splits)
qed

section \<open>Importing\<close>

text \<open>Nothing of \<open>s\<close> is left to import: it is unusable, or the list has it.\<close>

definition settled :: "saved_snippet \<Rightarrow> saved_snippet list \<Rightarrow> bool" where
  "settled s xs \<longleftrightarrow> trim (sn_name s) = [] \<or> trim (sn_body s) = [] \<or>
     (\<exists>e \<in> set xs. sn_name e = trim (sn_name s) \<and> sn_body e = sn_body s)"

lemma settled_same: "settled s xs \<Longrightarrow> merge_snippet s xs = xs"
  by (auto simp: settled_def merge_snippet_def Let_def list_ex_iff)

lemma settled_mono: "settled s xs \<Longrightarrow> set xs \<subseteq> set ys \<Longrightarrow> settled s ys"
  by (auto simp: settled_def)

lemma merge_snippet_settles: "settled s (merge_snippet s xs)"
  by (auto simp: settled_def merge_snippet_def Let_def list_ex_iff)

lemma merge_snippet_extends: "\<exists>new. merge_snippet s xs = xs @ new"
  by (auto simp: merge_snippet_def Let_def)

lemma merge_extends: "\<exists>new. merge_snippets xs ys = xs @ new"
  unfolding merge_snippets_def
proof (induction ys arbitrary: xs)
  case (Cons s ys)
  obtain n1 where "merge_snippet s xs = xs @ n1" using merge_snippet_extends by blast
  moreover obtain n2 where "fold merge_snippet ys (merge_snippet s xs) = merge_snippet s xs @ n2"
    using Cons by blast
  ultimately show ?case by simp
qed simp

lemma merge_settles: "\<forall>s \<in> set ys. settled s (merge_snippets xs ys)"
proof (induction ys arbitrary: xs)
  case (Cons s ys)
  have "set (merge_snippet s xs) \<subseteq> set (merge_snippets (merge_snippet s xs) ys)"
    using merge_extends [of "merge_snippet s xs" ys] by auto
  with merge_snippet_settles have "settled s (merge_snippets (merge_snippet s xs) ys)"
    by (rule settled_mono)
  with Cons [of "merge_snippet s xs"] show ?case by (simp add: merge_snippets_def)
qed simp

lemma merge_all_settled: "\<forall>s \<in> set ys. settled s xs \<Longrightarrow> merge_snippets xs ys = xs"
  unfolding merge_snippets_def by (induction ys) (auto simp: settled_same)

lemma unique_merge_snippet: "snip.unique_ids xs \<Longrightarrow> snip.unique_ids (merge_snippet s xs)"
proof -
  assume u: "snip.unique_ids xs"
  have "snip.unique_ids (xs @ [with_abbr (new_snippet (next_snippet_id xs) nb) a])" for nb a
    using snip.unique_new [OF u, of nb] by (simp add: snip.unique_ids_def next_snippet_id_def)
  with u show ?thesis by (simp add: merge_snippet_def Let_def)
qed

lemma unique_merge: "snip.unique_ids xs \<Longrightarrow> snip.unique_ids (merge_snippets xs ys)"
  unfolding merge_snippets_def by (induction ys arbitrary: xs) (auto intro: unique_merge_snippet)

lemma unique_snippet_step:
  assumes u: "snip.unique_ids xs"
  shows "snip.unique_ids (snippet_step op xs)"
proof (cases op)
  case (Add_Snippet n b)
  with snip.unique_new [OF u] u show ?thesis by (simp add: add_snippet_def Let_def next_snippet_id_def)
next
  case (Set_Abbr i a)
  with u show ?thesis
    by (auto simp: set_snippet_abbr_def intro!: snip.unique_map split: option.split)
qed (use u in \<open>auto simp: update_snippet_body_def rename_snippet_def Let_def remove_snippet_def
       intro!: snip.unique_map snip.unique_filter unique_merge\<close>)

section \<open>Storage gives the list back\<close>

lemma coerce_snippet_json: "wf_snippet s \<Longrightarrow> coerce_snippet (snippet_json s) = Some s"
  by (auto simp: coerce_snippet_def snippet_json_def json_field_def json_str_def with_abbr_def new_snippet_def
      wf_snippet_def split: option.splits)

lemma parse_serialize_snippets: "list_all wf_snippet xs \<Longrightarrow> parse_snippets (Some (serialize_snippets xs)) = xs"
  by (induction xs) (auto simp: parse_snippets_def serialize_snippets_def map_filter_simps coerce_snippet_json)

section \<open>Templates\<close>

lemma add_template_ok:
  assumes "distinct (map tp_abbr out) \<and> (\<forall>t \<in> set out. normalize_abbr (tp_abbr t) = Some (tp_abbr t))"
  shows "distinct (map tp_abbr (add_template a n b out)) \<and>
    (\<forall>t \<in> set (add_template a n b out). normalize_abbr (tp_abbr t) = Some (tp_abbr t))"
  using assms by (auto simp: add_template_def Option.bind_eq_Some_conv dest: normalize_abbr_idem split: option.split)

lemma add_template_prefix: "\<exists>new. add_template a n b out = out @ new"
  by (auto simp: add_template_def split: option.split)

lemma add_template_taken:
  "Option.bind (truthy a) normalize_abbr = Some k \<Longrightarrow> k \<in> tp_abbr ` set (add_template a n b out)"
  by (auto simp: add_template_def)

text \<open>Escaping is stable: what it wrote it leaves alone.\<close>

lemma escape_braces_idem: "escape_braces (escape_braces s) = escape_braces s"
proof (induction s rule: escape_braces.induct)
  case (3 c d s)
  have "\<not> brace CHR 0x5C" by (simp add: brace_def)
  moreover have "escape_braces (c # escape_braces (d # s)) = c # escape_braces (escape_braces (d # s))"
    if "\<not> brace c" "c \<noteq> CHR 0x5C \<or> \<not> brace d"
    using that by (cases "escape_braces (d # s)"; cases s) (auto split: if_splits)
  ultimately show ?case using 3 by (auto simp: brace_def)
qed (auto simp: brace_def)

section \<open>Properties\<close>

text \<open>C36. \<open>uniqueSnippetName\<close> always returns: the search for a free number ends, whatever names are
  taken. The name it gives is not one of them (unless it is blank), and it starts with the
  trimmed name asked for.\<close>

theorem unique_name_found:
  "\<exists>r. unique_snippet_name xs name = Some r \<and> starts_with (trim name) r \<and>
     r \<notin> (if trim name = [] then {} else set (map sn_name xs))"
proof (cases "trim name = [] \<or> \<not> list_ex (\<lambda>s. sn_name s = trim name) xs")
  case True
  then show ?thesis by (auto simp: unique_snippet_name_def list_ex_iff starts_with_iff)
next
  case False
  obtain k where "numbered_name (trim name) (2 + int k) \<notin> set (map sn_name xs)"
    using some_number_free by blast
  from free_name_returns [OF this] False show ?thesis
    by (auto simp: unique_snippet_name_def starts_with_iff numbered_name_def)
qed

text \<open>C37. Whatever JSON is stored, the snippets read from it are well typed - every abbreviation is a
  normalised word - and they stay so through any sequence of the list's operations; such a list
  is read back from its stored form as it was.\<close>

theorem snippets_typed:
  "list_all wf_snippet (fold snippet_step ops (parse_snippets raw)) \<and>
   parse_snippets (Some (serialize_snippets (fold snippet_step ops (parse_snippets raw))))
     = fold snippet_step ops (parse_snippets raw)"
proof -
  have "list_all wf_snippet (fold snippet_step ops xs)" if "list_all wf_snippet xs" for xs
    using that by (induction ops arbitrary: xs) (auto intro: wf_snippet_step)
  from this [OF wf_parse_snippets] show ?thesis by (simp add: parse_serialize_snippets)
qed

text \<open>Importing snippets keeps every snippet already saved, in place, and keeps identifiers
  distinct; importing the same file a second time changes nothing.\<close>

theorem import_once:
  assumes "distinct (map sn_id current)"
  shows "take (length current) (merge_snippets current incoming) = current \<and>
    distinct (map sn_id (merge_snippets current incoming)) \<and>
    merge_snippets (merge_snippets current incoming) incoming = merge_snippets current incoming"
  using assms unique_merge [unfolded snip.unique_ids_def] merge_all_settled [OF merge_settles]
    merge_extends [of current incoming] by auto

lemma import_once_witness:
  "distinct (map sn_id (merge_snippets [new_snippet ''snip-4'' (''a'', ''SELECT 1'')]
     [new_snippet ''snip-4'' ('' a'', ''SELECT 2'')]))"
  by (rule import_once [THEN conjunct2, THEN conjunct1]) simp

end
