(* ===== verification/Notebook.thy ===== *)
theory Notebook
  imports SeqIds RegexOps "HOL-Library.Multiset"
begin

text \<open>
  SQL notebooks (\<open>notebook.ts\<close>): ordered cells with identifiers, shared parameters put into the SQL
  before it runs, and storage.
\<close>

section \<open>The document\<close>

datatype notebook_kind = Sql | Markdown

record notebook_cell =
  ce_id :: string
  ce_kind :: notebook_kind
  ce_source :: string

record notebook_param =
  np_name :: string
  np_value :: string

record notebook =
  nb_id :: string
  nb_name :: string
  nb_cells :: "notebook_cell list"
  nb_params :: "notebook_param list"

definition next_cell_id :: "notebook_cell list \<Rightarrow> string" where
  "next_cell_id cells = next_seq_id ''cell-'' (map ce_id cells)"

definition cell_with_id :: "string \<Rightarrow> notebook_kind \<times> string \<Rightarrow> notebook_cell" where
  "cell_with_id i ks = \<lparr>ce_id = i, ce_kind = fst ks, ce_source = snd ks\<rparr>"

definition new_cell :: "notebook_cell list \<Rightarrow> notebook_kind \<Rightarrow> string \<Rightarrow> notebook_cell" where
  "new_cell cells kind source = cell_with_id (next_cell_id cells) (kind, source)"

definition blank_cell :: notebook_cell where
  "blank_cell = cell_with_id ''cell-1'' (Sql, [])"

definition new_notebook :: "string \<Rightarrow> string \<Rightarrow> notebook" where
  "new_notebook i name = \<lparr>nb_id = i, nb_name = name, nb_cells = [blank_cell], nb_params = []\<rparr>"

section \<open>Operations on the cells\<close>

definition insert_cell_after :: "notebook_cell list \<Rightarrow> string \<Rightarrow> notebook_cell \<Rightarrow> notebook_cell list" where
  "insert_cell_after cells after c =
     (case find_index (\<lambda>x. ce_id x = after) cells of None \<Rightarrow> cells @ [c]
      | Some i \<Rightarrow> take (Suc i) cells @ [c] @ drop (Suc i) cells)"

definition remove_cell :: "notebook_cell list \<Rightarrow> string \<Rightarrow> notebook_cell list" where
  "remove_cell cells i = (if length cells \<le> 1 then cells else filter (\<lambda>c. ce_id c \<noteq> i) cells)"

definition update_cell_source :: "notebook_cell list \<Rightarrow> string \<Rightarrow> string \<Rightarrow> notebook_cell list" where
  "update_cell_source cells i src = map (\<lambda>c. if ce_id c = i then c\<lparr>ce_source := src\<rparr> else c) cells"

definition set_cell_kind :: "notebook_cell list \<Rightarrow> string \<Rightarrow> notebook_kind \<Rightarrow> notebook_cell list" where
  "set_cell_kind cells i kind = map (\<lambda>c. if ce_id c = i then c\<lparr>ce_kind := kind\<rparr> else c) cells"

datatype direction = Up | Down

text \<open>The two cells change places; nothing happens at the ends.\<close>

definition move_cell :: "notebook_cell list \<Rightarrow> string \<Rightarrow> direction \<Rightarrow> notebook_cell list" where
  "move_cell cells i dir =
     (case find_index (\<lambda>c. ce_id c = i) cells of None \<Rightarrow> cells
      | Some k \<Rightarrow>
          (case (case dir of Up \<Rightarrow> if k = 0 then None else Some (k - 1)
                 | Down \<Rightarrow> if Suc k < length cells then Some (Suc k) else None) of
             None \<Rightarrow> cells
           | Some t \<Rightarrow> cells[k := cells ! t, t := cells ! k]))"

section \<open>Parameters\<close>

definition name_head :: "char \<Rightarrow> bool" where
  "name_head c \<longleftrightarrow> is_alpha c \<or> c = CHR ''_''"

definition PARAM :: re where
  "PARAM = seqs [Grp 1 (Alt Bol (Cls (\<lambda>c. c \<noteq> CHR '':''))), one CHR '':'',
     Grp 2 (Seq (Cls name_head) (star (Cls is_word)))]"

text \<open>\<open>new Map(...)\<close>: of two parameters with one name the last counts.\<close>

definition param_map :: "notebook_param list \<Rightarrow> (string \<times> string) list" where
  "param_map params = fold (\<lambda>p. map_set (np_name p) (np_value p)) params []"

definition put_param :: "(string \<times> string) list \<Rightarrow> string \<Rightarrow> caps \<Rightarrow> string" where
  "put_param by_name whole cs =
     (case map_of by_name (default [] (map_of cs 2)) of
        None \<Rightarrow> whole | Some v \<Rightarrow> default [] (map_of cs 1) @ v)"

definition apply_params :: "string \<Rightarrow> notebook_param list \<Rightarrow> string" where
  "apply_params sql params =
     (if params = [] then sql else re_replace_fn PARAM (put_param (param_map params)) sql)"

section \<open>Storage\<close>

definition kind_text :: "notebook_kind \<Rightarrow> string" where
  "kind_text k = (case k of Sql \<Rightarrow> ''sql'' | Markdown \<Rightarrow> ''markdown'')"

definition parse_kind :: "string option \<Rightarrow> notebook_kind option" where
  "parse_kind s = (if s = Some ''sql'' then Some Sql else if s = Some ''markdown'' then Some Markdown else None)"

definition notebook_cell_json :: "notebook_cell \<Rightarrow> json" where
  "notebook_cell_json c = JObj [(''id'', JStr (ce_id c)), (''kind'', JStr (kind_text (ce_kind c))), (''source'', JStr (ce_source c))]"

definition param_json :: "notebook_param \<Rightarrow> json" where
  "param_json p = JObj [(''name'', JStr (np_name p)), (''value'', JStr (np_value p))]"

definition notebook_json :: "notebook \<Rightarrow> json" where
  "notebook_json n = JObj [(''id'', JStr (nb_id n)), (''name'', JStr (nb_name n)),
     (''cells'', JArr (map notebook_cell_json (nb_cells n))), (''params'', JArr (map param_json (nb_params n)))]"

definition serialize_notebooks :: "notebook list \<Rightarrow> json" where
  "serialize_notebooks ns = JArr (map notebook_json ns)"

definition coerce_cell :: "json \<Rightarrow> notebook_cell option" where
  "coerce_cell raw =
     (case (json_str (json_field raw ''id''), parse_kind (json_str (json_field raw ''kind'')),
            json_str (json_field raw ''source'')) of
        (Some i, Some k, Some s) \<Rightarrow> Some (cell_with_id i (k, s)) | _ \<Rightarrow> None)"

definition coerce_param :: "json \<Rightarrow> notebook_param option" where
  "coerce_param raw =
     (case (json_str (json_field raw ''name''), json_str (json_field raw ''value'')) of
        (Some n, Some v) \<Rightarrow> Some \<lparr>np_name = n, np_value = v\<rparr> | _ \<Rightarrow> None)"

definition coerce_notebook :: "json \<Rightarrow> notebook option" where
  "coerce_notebook item =
     (case (json_str (json_field item ''id''), json_str (json_field item ''name''), json_field item ''cells'') of
        (Some i, Some name, Some (JArr raw)) \<Rightarrow>
          Some \<lparr>nb_id = i, nb_name = name,
             nb_cells = (case List.map_filter coerce_cell raw of [] \<Rightarrow> [blank_cell] | cells \<Rightarrow> cells),
             nb_params = (case json_field item ''params'' of
                Some (JArr ps) \<Rightarrow> List.map_filter coerce_param ps | _ \<Rightarrow> [])\<rparr>
      | _ \<Rightarrow> None)"

definition parse_notebooks :: "json option \<Rightarrow> notebook list" where
  "parse_notebooks raw = (case raw of Some (JArr items) \<Rightarrow> List.map_filter coerce_notebook items | _ \<Rightarrow> [])"

section \<open>The list of notebooks\<close>

definition next_notebook_id :: "notebook list \<Rightarrow> string" where
  "next_notebook_id ns = next_seq_id ''nb-'' (map nb_id ns)"

definition upsert_notebook :: "notebook list \<Rightarrow> notebook \<Rightarrow> notebook list" where
  "upsert_notebook ns n = upsert_by nb_id ns n"

definition remove_notebook :: "notebook list \<Rightarrow> string \<Rightarrow> notebook list" where
  "remove_notebook ns i = filter (\<lambda>n. nb_id n \<noteq> i) ns"

interpretation cells: keyed_items ce_id "''cell-''" cell_with_id
  by unfold_locales (simp add: cell_with_id_def)

interpretation books: keyed_items nb_id "''nb-''" new_notebook
  by unfold_locales (simp add: new_notebook_def)

section \<open>Cells keep their identifiers and their order\<close>

datatype cell_op =
    Insert_After string notebook_kind string
  | Remove_Cell string
  | Set_Source string string
  | Set_Kind string notebook_kind
  | Move_Cell string direction

primrec cell_step :: "cell_op \<Rightarrow> notebook_cell list \<Rightarrow> notebook_cell list" where
  "cell_step (Insert_After i k s) cs = insert_cell_after cs i (new_cell cs k s)"
| "cell_step (Remove_Cell i) cs = remove_cell cs i"
| "cell_step (Set_Source i s) cs = update_cell_source cs i s"
| "cell_step (Set_Kind i k) cs = set_cell_kind cs i k"
| "cell_step (Move_Cell i d) cs = move_cell cs i d"

lemma mset_insert_cell: "mset (insert_cell_after cs i c) = mset (cs @ [c])"
proof -
  have "mset (take k cs) + mset (drop k cs) = mset cs" for k
    by (simp flip: mset_append)
  then show ?thesis by (simp add: insert_cell_after_def add.commute split: option.split)
qed

lemma mset_move_cell: "mset (move_cell cs i d) = mset cs"
proof -
  have "mset (cs[k := cs ! t, t := cs ! k]) = mset cs" if "k < length cs" "t < length cs" for k t
    using mset_swap [OF that(2,1)] by simp
  then show ?thesis
    by (auto simp: move_cell_def split: option.split direction.split dest!: find_index_Some)
qed

lemma unique_mset: "mset xs = mset ys \<Longrightarrow> distinct (map f xs) = distinct (map f ys)"
  by (metis mset_eq_imp_distinct_iff mset_map)

lemma cell_step_unique:
  assumes u: "cells.unique_ids cs"
  shows "cells.unique_ids (cell_step op cs)"
proof (cases op)
  case (Insert_After i k s)
  show ?thesis
    unfolding Insert_After cell_step.simps cells.unique_ids_def new_cell_def next_cell_id_def
      unique_mset [OF mset_insert_cell]
    using cells.unique_new [OF u] by (simp only: cells.unique_ids_def)
next
  case (Move_Cell i d)
  from u show ?thesis
    unfolding Move_Cell cell_step.simps cells.unique_ids_def unique_mset [OF mset_move_cell] .
qed (use u in \<open>auto simp: remove_cell_def update_cell_source_def set_cell_kind_def
       intro!: cells.unique_map cells.unique_filter\<close>)

lemma remove_cell_not_Nil: "cells.unique_ids cs \<Longrightarrow> cs \<noteq> [] \<Longrightarrow> remove_cell cs i \<noteq> []"
proof (cases "length cs \<le> 1")
  case False
  assume u: "cells.unique_ids cs"
  from False obtain a b r where cs: "cs = a # b # r" by (cases cs; cases "tl cs") auto
  with u have "ce_id a \<noteq> ce_id b" by (simp add: cells.unique_ids_def)
  with cs False show ?thesis by (auto simp: remove_cell_def)
qed (simp add: remove_cell_def)

lemma cell_step_not_Nil: "cells.unique_ids cs \<Longrightarrow> cs \<noteq> [] \<Longrightarrow> cell_step op cs \<noteq> []"
proof (cases op)
  case (Move_Cell i d)
  then show "cs \<noteq> [] \<Longrightarrow> ?thesis" using mset_move_cell [of cs i d] by (cases cs) auto
qed (auto simp: insert_cell_after_def update_cell_source_def set_cell_kind_def remove_cell_not_Nil
       split: option.split)

section \<open>Storage gives the notebooks back\<close>

lemma coerce_cell_back [simp]: "coerce_cell (notebook_cell_json c) = Some c"
  by (cases "ce_kind c")
    (auto simp: coerce_cell_def notebook_cell_json_def json_field_def json_str_def kind_text_def parse_kind_def cell_with_id_def)

lemma coerce_param_json [simp]: "coerce_param (param_json p) = Some p"
  by (simp add: coerce_param_def param_json_def json_field_def json_str_def)

lemma map_filter_back: "(\<And>x. x \<in> set xs \<Longrightarrow> f (g x) = Some x) \<Longrightarrow> List.map_filter f (map g xs) = xs"
  by (induction xs) (simp_all add: map_filter_simps)

lemma coerce_notebook_json: "nb_cells n \<noteq> [] \<Longrightarrow> coerce_notebook (notebook_json n) = Some n"
  by (auto simp: coerce_notebook_def notebook_json_def json_field_def json_str_def map_filter_back
      split: list.split)

lemma parse_serialize_notebooks:
  "\<forall>n \<in> set ns. nb_cells n \<noteq> [] \<Longrightarrow> parse_notebooks (Some (serialize_notebooks ns)) = ns"
  by (simp add: parse_notebooks_def serialize_notebooks_def map_filter_back coerce_notebook_json)

lemma coerced_cells_not_Nil: "coerce_notebook item = Some n \<Longrightarrow> nb_cells n \<noteq> []"
  by (simp add: coerce_notebook_def split: option.splits json.splits) (auto split: list.splits)

lemma parsed_cells_not_Nil: "n \<in> set (parse_notebooks raw) \<Longrightarrow> nb_cells n \<noteq> []"
  by (cases raw; cases "the raw")
    (auto simp: parse_notebooks_def map_filter_def dest: coerced_cells_not_Nil)

section \<open>Properties\<close>

text \<open>A notebook keeps at least one cell and its cells keep distinct identifiers through any
  sequence of insertions, removals, edits and moves.\<close>

theorem notebook_keeps_cells:
  assumes "distinct (map ce_id cs)" and "cs \<noteq> []"
  shows "fold cell_step ops cs \<noteq> [] \<and> distinct (map ce_id (fold cell_step ops cs))"
  using assms cell_step_unique [unfolded cells.unique_ids_def] cell_step_not_Nil [unfolded cells.unique_ids_def]
  by (induction ops arbitrary: cs) auto

lemma notebook_keeps_cells_witness:
  "fold cell_step [Insert_After ''cell-1'' Sql ''SELECT 1'', Remove_Cell ''cell-1'', Remove_Cell ''cell-2'']
     [blank_cell] \<noteq> []"
  by (rule notebook_keeps_cells [THEN conjunct1]) (simp_all add: blank_cell_def cell_with_id_def)

text \<open>Of two parameters written one right after the other the second is left as it is: the
  colon that would start it must follow a character that the first match has taken.\<close>

theorem adjacent_param_missed:
  "apply_params '':a:b'' [\<lparr>np_name = ''a'', np_value = ''1''\<rparr>, \<lparr>np_name = ''b'', np_value = ''2''\<rparr>] = ''1:b''"
  by code_simp

end
