(* ===== verification/History.thy ===== *)
theory History
  imports MetaCache
begin

text \<open>
  The query history (\<open>history.ts\<close>): recording with a cap, search, the quick recall per engine, the
  panel's grouping by day, and storage. Local calendar dates come from the platform: the functions
  that read them are arguments.
\<close>

section \<open>Entries\<close>

record history_entry =
  he_sql :: string
  he_ts :: int
  he_conn :: string
  he_conn_name :: string
  he_engine :: "string option"
  he_duration :: "int option"
  he_rows :: "int option"
  he_affected :: "int option"
  he_failed :: bool
  he_db :: "string option"

definition DEFAULT_HISTORY_LIMIT :: int where "DEFAULT_HISTORY_LIMIT = 200"

definition MIN_HISTORY_LIMIT :: int where "MIN_HISTORY_LIMIT = 10"

definition MAX_HISTORY_LIMIT :: int where "MAX_HISTORY_LIMIT = 5000"

text \<open>\<open>None\<close> is a number that is not finite.\<close>

definition clamp_limit :: "int option \<Rightarrow> int" where
  "clamp_limit n =
     (case n of None \<Rightarrow> DEFAULT_HISTORY_LIMIT
      | Some k \<Rightarrow> min MAX_HISTORY_LIMIT (max MIN_HISTORY_LIMIT k))"

definition add_history :: "history_entry list \<Rightarrow> history_entry \<Rightarrow> int option \<Rightarrow> history_entry list" where
  "add_history xs e limit =
     (let sql = trim (he_sql e); normalized = e\<lparr>he_sql := sql\<rparr>; cap = clamp_limit limit in
      if sql = [] then xs
      else let rest = (case xs of [] \<Rightarrow> xs
                       | head # tail \<Rightarrow>
                           if he_sql head = sql \<and> he_conn head = he_conn normalized then tail else xs) in
        take (nat cap) (normalized # rest))"

definition search_history ::
    "history_entry list \<Rightarrow> string \<Rightarrow> string option \<Rightarrow> string option \<Rightarrow> history_entry list" where
  "search_history xs query conn engine =
     (let q = to_lower (trim query) in
      filter (\<lambda>e. (conn = None \<or> Some (he_conn e) = conn) \<and> (engine = None \<or> he_engine e = engine) \<and>
                  (q = [] \<or> contains (to_lower (he_sql e)) q)) xs)"

definition history_engines :: "history_entry list \<Rightarrow> string list" where
  "history_engines xs = sort_by code_le (uniq (List.map_filter (\<lambda>e. truthy (he_engine e)) xs))"

text \<open>The loop of \<open>recentForEngine\<close>: \<open>seen\<close> holds the texts taken so far, \<open>n\<close> counts them.\<close>

fun recent_loop ::
    "string \<Rightarrow> int \<Rightarrow> string list \<Rightarrow> int \<Rightarrow> history_entry list \<Rightarrow> history_entry list" where
  "recent_loop engine limit seen n [] = []"
| "recent_loop engine limit seen n (e # es) =
     (if he_engine e \<noteq> Some engine \<or> he_sql e \<in> set seen then recent_loop engine limit seen n es
      else e # (if n + 1 \<ge> limit then [] else recent_loop engine limit (he_sql e # seen) (n + 1) es))"

definition recent_for_engine :: "history_entry list \<Rightarrow> string \<Rightarrow> int \<Rightarrow> history_entry list" where
  "recent_for_engine xs engine limit = recent_loop engine limit [] 0 xs"

datatype history_scope = All_Runs | This_Conn | Only_Errors

definition scope_history ::
    "history_entry list \<Rightarrow> history_scope \<Rightarrow> string option \<Rightarrow> history_entry list" where
  "scope_history xs scope conn =
     (case scope of
        Only_Errors \<Rightarrow> filter he_failed xs
      | This_Conn \<Rightarrow> (case truthy conn of None \<Rightarrow> [] | Some c \<Rightarrow> filter (\<lambda>e. he_conn e = c) xs)
      | All_Runs \<Rightarrow> xs)"

section \<open>Days\<close>

datatype day_kind = Today | Yesterday | Older

record 'a history_day =
  hd_day :: day_kind
  hd_date :: string
  hd_entries :: "'a list"

text \<open>\<open>local_date\<close> writes the local calendar day of an instant, \<open>day_before\<close> goes back one day.\<close>

definition day_step ::
    "('a \<Rightarrow> string) \<Rightarrow> string \<Rightarrow> string \<Rightarrow> 'a \<Rightarrow> 'a history_day list \<Rightarrow> 'a history_day list" where
  "day_step date_of today yesterday e out =
     (let date = date_of e in
      if out = [] \<or> hd_date (last out) \<noteq> date then
        out @ [\<lparr>hd_day = (if date = today then Today else if date = yesterday then Yesterday else Older),
                hd_date = date, hd_entries = [e]\<rparr>]
      else butlast out @ [(last out)\<lparr>hd_entries := hd_entries (last out) @ [e]\<rparr>])"

definition group_by_day ::
    "(int \<Rightarrow> string) \<Rightarrow> (int \<Rightarrow> int) \<Rightarrow> ('a \<Rightarrow> int) \<Rightarrow> 'a list \<Rightarrow> int \<Rightarrow> 'a history_day list" where
  "group_by_day local_date day_before ts xs now =
     fold (day_step (\<lambda>e. local_date (ts e)) (local_date now) (local_date (day_before now))) xs []"

section \<open>Storage\<close>


definition history_json :: "history_entry \<Rightarrow> json" where
  "history_json e = JObj ([(''sql'', JStr (he_sql e)), (''ts'', JNum (he_ts e)), (''connId'', JStr (he_conn e)),
      (''connName'', JStr (he_conn_name e))]
     @ json_opt ''engine'' JStr (he_engine e) @ json_opt ''durationMs'' JNum (he_duration e)
     @ json_opt ''rows'' JNum (he_rows e) @ json_opt ''affected'' JNum (he_affected e)
     @ (if he_failed e then [(''failed'', JBool True)] else []) @ json_opt ''db'' JStr (he_db e))"

definition serialize_history :: "history_entry list \<Rightarrow> json" where
  "serialize_history xs = JArr (map history_json xs)"

definition coerce_entry :: "json \<Rightarrow> history_entry option" where
  "coerce_entry item =
     (case (json_str (json_field item ''sql''), json_num (json_field item ''ts''),
            json_str (json_field item ''connId''), json_str (json_field item ''connName'')) of
        (Some sql, Some ts, Some conn, Some name) \<Rightarrow>
          Some \<lparr>he_sql = sql, he_ts = ts, he_conn = conn, he_conn_name = name,
            he_engine = truthy (json_str (json_field item ''engine'')),
            he_duration = json_num (json_field item ''durationMs''),
            he_rows = json_num (json_field item ''rows''),
            he_affected = json_num (json_field item ''affected''),
            he_failed = json_true (json_field item ''failed''),
            he_db = truthy (json_str (json_field item ''db''))\<rparr>
      | _ \<Rightarrow> None)"

definition parse_history :: "json option \<Rightarrow> history_entry list" where
  "parse_history raw = (case raw of Some (JArr items) \<Rightarrow> List.map_filter coerce_entry items | _ \<Rightarrow> [])"

section \<open>The log\<close>

definition same_run :: "history_entry \<Rightarrow> history_entry \<Rightarrow> bool" where
  "same_run a b \<longleftrightarrow> he_sql a = he_sql b \<and> he_conn a = he_conn b"

text \<open>No entry repeats the one before it, every text is trimmed and not blank.\<close>

definition wf_log :: "history_entry list \<Rightarrow> bool" where
  "wf_log xs \<longleftrightarrow> successively (\<lambda>a b. \<not> same_run a b) xs \<and>
     (\<forall>e \<in> set xs. he_sql e \<noteq> [] \<and> trim (he_sql e) = he_sql e)"

lemma clamp_limit_bounds: "MIN_HISTORY_LIMIT \<le> clamp_limit n" "clamp_limit n \<le> MAX_HISTORY_LIMIT"
  by (auto simp: clamp_limit_def DEFAULT_HISTORY_LIMIT_def MIN_HISTORY_LIMIT_def MAX_HISTORY_LIMIT_def
      split: option.split)

lemma wf_log_take: "wf_log xs \<Longrightarrow> wf_log (take n xs)"
  unfolding wf_log_def by (auto intro: successively_take dest: in_set_takeD)

lemma wf_log_tail: "wf_log (e # xs) \<Longrightarrow> wf_log xs"
  by (auto simp: wf_log_def successively_Cons)

lemma wf_log_refresh:
  assumes "wf_log (h # xs)" and "same_run e h" and "he_sql e \<noteq> []" and "trim (he_sql e) = he_sql e"
  shows "wf_log (e # xs)"
  using assms by (auto simp: wf_log_def successively_Cons same_run_def)

lemma add_history_wf: "wf_log xs \<Longrightarrow> wf_log (add_history xs e limit)"
proof (cases "trim (he_sql e) = []")
  case False
  let ?e = "e\<lparr>he_sql := trim (he_sql e)\<rparr>"
  have e: "he_sql ?e \<noteq> []" "trim (he_sql ?e) = he_sql ?e" using False by (simp_all add: trim_trim)
  assume log: "wf_log xs"
  have "wf_log (?e # (case xs of [] \<Rightarrow> xs | head # tail \<Rightarrow>
      if he_sql head = trim (he_sql e) \<and> he_conn head = he_conn ?e then tail else xs))"
  proof (cases xs)
    case Nil
    with e show ?thesis by (simp add: wf_log_def)
  next
    case (Cons h t)
    show ?thesis
    proof (cases "same_run ?e h")
      case True
      with wf_log_refresh [OF log [unfolded Cons] True e] Cons show ?thesis
        by (simp add: same_run_def)
    next
      case False
      with log e Cons show ?thesis by (auto simp: wf_log_def same_run_def)
    qed
  qed
  then show ?thesis using False by (simp add: add_history_def Let_def wf_log_take)
qed (simp add: add_history_def)

lemma add_history_length: "length (add_history xs e limit) \<le> max (length xs) (nat (clamp_limit limit))"
  by (auto simp: add_history_def Let_def split: list.split)

section \<open>Quick recall\<close>

text \<open>What the quick recall should show: the first entry of every text, in order.\<close>

fun first_runs :: "string list \<Rightarrow> history_entry list \<Rightarrow> history_entry list" where
  "first_runs seen [] = []"
| "first_runs seen (e # es) =
     (if he_sql e \<in> set seen then first_runs seen es else e # first_runs (he_sql e # seen) es)"

lemma recent_loop_first:
  assumes "n < limit"
  shows "recent_loop engine limit seen n es
    = take (nat (limit - n)) (first_runs seen (filter (\<lambda>e. he_engine e = Some engine) es))"
  using assms
proof (induction engine limit seen n es rule: recent_loop.induct)
  case (2 engine limit seen n e es)
  show ?case
  proof (cases "he_engine e = Some engine \<and> he_sql e \<notin> set seen")
    case True
    have len: "nat (limit - n) = Suc (nat (limit - (n + 1)))" using 2(3) by simp
    show ?thesis
    proof (cases "n + 1 \<ge> limit")
      case False
      with 2(2) True len show ?thesis by auto
    qed (use True len in auto)
  next
    case False
    with 2(1) [OF _ 2(3)] show ?thesis by auto
  qed
qed simp

section \<open>Days\<close>

definition wf_days :: "('a \<Rightarrow> string) \<Rightarrow> 'a history_day list \<Rightarrow> bool" where
  "wf_days date_of ds \<longleftrightarrow> successively (\<lambda>a b. hd_date a \<noteq> hd_date b) ds \<and>
     (\<forall>d \<in> set ds. hd_entries d \<noteq> [] \<and> (\<forall>e \<in> set (hd_entries d). date_of e = hd_date d))"

lemma day_step_ok:
  assumes "wf_days date_of out"
  shows "wf_days date_of (day_step date_of today yesterday e out) \<and>
    concat (map hd_entries (day_step date_of today yesterday e out)) = concat (map hd_entries out) @ [e]"
proof (cases out rule: rev_cases)
  case Nil
  then show ?thesis by (simp add: day_step_def wf_days_def Let_def)
next
  case (snoc ds d)
  with assms show ?thesis
    by (auto simp: day_step_def wf_days_def Let_def successively_append_iff)
qed

lemma fold_day_step:
  assumes "wf_days date_of out"
  shows "wf_days date_of (fold (day_step date_of today yesterday) es out) \<and>
    concat (map hd_entries (fold (day_step date_of today yesterday) es out)) = concat (map hd_entries out) @ es"
  using assms
proof (induction es arbitrary: out)
  case (Cons e es)
  from Cons.IH [of "day_step date_of today yesterday e out"] day_step_ok [OF Cons.prems]
  show ?case by simp
qed simp

section \<open>Storage\<close>

definition storable_entry :: "history_entry \<Rightarrow> bool" where
  "storable_entry e \<longleftrightarrow> he_engine e \<noteq> Some [] \<and> he_db e \<noteq> Some []"

lemma truthy_same: "x \<noteq> Some [] \<Longrightarrow> truthy x = x"
  by (auto simp: truthy_def split: option.splits)

lemma json_num_map [simp]: "json_num (map_option JNum x) = x"
  by (cases x) (simp_all add: json_num_def)

lemma history_json_fields:
  "json_field (history_json e) ''sql'' = Some (JStr (he_sql e))"
  "json_field (history_json e) ''ts'' = Some (JNum (he_ts e))"
  "json_field (history_json e) ''connId'' = Some (JStr (he_conn e))"
  "json_field (history_json e) ''connName'' = Some (JStr (he_conn_name e))"
  "json_field (history_json e) ''engine'' = map_option JStr (he_engine e)"
  "json_field (history_json e) ''durationMs'' = map_option JNum (he_duration e)"
  "json_field (history_json e) ''rows'' = map_option JNum (he_rows e)"
  "json_field (history_json e) ''affected'' = map_option JNum (he_affected e)"
  "json_field (history_json e) ''failed'' = (if he_failed e then Some (JBool True) else None)"
  "json_field (history_json e) ''db'' = map_option JStr (he_db e)"
  by (simp_all add: history_json_def json_field_def map_of_json_opt map_add_def split: option.split)

lemma coerce_entry_json: "storable_entry e \<Longrightarrow> coerce_entry (history_json e) = Some e"
  by (simp add: coerce_entry_def history_json_fields storable_entry_def
      truthy_same json_str_def [of "Some _"] json_num_def [of "Some _"] json_true_def)

lemma parse_serialize_history: "\<forall>e \<in> set xs. storable_entry e \<Longrightarrow> parse_history (Some (serialize_history xs)) = xs"
  by (induction xs) (simp_all add: parse_history_def serialize_history_def map_filter_simps coerce_entry_json)

lemma parsed_storable: "e \<in> set (parse_history raw) \<Longrightarrow> storable_entry e"
proof -
  have "storable_entry e" if "coerce_entry item = Some e" for item
    using that by (auto simp: coerce_entry_def storable_entry_def truthy_def split: option.splits if_splits)
  then show "e \<in> set (parse_history raw) \<Longrightarrow> storable_entry e"
    by (cases raw; cases "the raw") (auto simp: parse_history_def map_filter_def)
qed

section \<open>Properties\<close>

text \<open>However many runs are recorded and whatever the limits, the history never holds the same
  statement of the same connection twice in a row, holds only trimmed texts that are not blank,
  and never more than MAX\_HISTORY\_LIMIT entries.\<close>

theorem history_invariant:
  "wf_log (fold (\<lambda>(e, limit) xs. add_history xs e limit) adds []) \<and>
   int (length (fold (\<lambda>(e, limit) xs. add_history xs e limit) adds [])) \<le> MAX_HISTORY_LIMIT"
proof -
  have "wf_log (fold (\<lambda>(e, limit) xs. add_history xs e limit) adds xs) \<and>
      int (length (fold (\<lambda>(e, limit) xs. add_history xs e limit) adds xs)) \<le> MAX_HISTORY_LIMIT"
    if "wf_log xs" "int (length xs) \<le> MAX_HISTORY_LIMIT" for xs
    using that
  proof (induction adds arbitrary: xs)
    case (Cons r adds)
    obtain e limit where r: "r = (e, limit)" by (cases r)
    have "int (length (add_history xs e limit)) \<le> MAX_HISTORY_LIMIT"
      using add_history_length [of xs e limit] clamp_limit_bounds [of limit] Cons.prems(2) by linarith
    with Cons.IH [OF add_history_wf [OF Cons.prems(1)]] r show ?case by simp
  qed simp
  from this [of "[]"] show ?thesis by (simp add: wf_log_def MAX_HISTORY_LIMIT_def)
qed

text \<open>The editor's quick recall is the latest run of every distinct text of the engine, newest
  first, as many as asked for.\<close>

theorem recall_is_first_runs:
  assumes "0 < limit"
  shows "recent_for_engine xs engine limit
    = take (nat limit) (first_runs [] (filter (\<lambda>e. he_engine e = Some engine) xs))"
  using recent_loop_first [of 0 limit] assms by (simp add: recent_for_engine_def)

definition sample_run :: "string \<Rightarrow> int \<Rightarrow> history_entry" where
  "sample_run sql ts = \<lparr>he_sql = sql, he_ts = ts, he_conn = ''conn-1'', he_conn_name = ''a'',
     he_engine = Some ''mysql'', he_duration = None, he_rows = None, he_affected = None, he_failed = False, he_db = None\<rparr>"

lemma recall_is_first_runs_witness:
  "recent_for_engine [sample_run ''b'' 3, sample_run ''a'' 2, sample_run ''b'' 1] ''mysql'' 10
    = [sample_run ''b'' 3, sample_run ''a'' 2]"
  by (subst recall_is_first_runs) (simp_all add: sample_run_def)

text \<open>Grouping by day loses and reorders nothing: the entries of the groups in order are the
  list, every entry is in a group of its own date, and neighbouring groups differ in date.\<close>

theorem days_partition_history:
  "concat (map hd_entries (group_by_day local_date day_before ts xs now)) = xs \<and>
   wf_days (\<lambda>e. local_date (ts e)) (group_by_day local_date day_before ts xs now)"
  using fold_day_step [of "\<lambda>e. local_date (ts e)" "[]"] by (simp add: group_by_day_def wf_days_def)

end
