(* ===== verification/LocalHistory.thy ===== *)
theory LocalHistory
  imports GridView
begin

text \<open>
  The editor's local history (\<open>localHistory.ts\<close>): versions of every tab's text, newest first, with
  retention by number, by age and by total size. A version's identity (the sources keep a set of
  version objects) is its place: tab and position.
\<close>

section \<open>Versions\<close>

datatype version_reason = By_Run | By_Auto | By_Close | By_Restore

record tab_version =
  tv_ts :: int
  tv_reason :: version_reason
  tv_sql :: string

record tab_history =
  th_tab :: int
  th_title :: string
  th_versions :: "tab_version list"

record retention =
  rt_max_versions :: int
  rt_max_days :: int

definition MAX_VERSION_CHARS :: int where "MAX_VERSION_CHARS = 100000"

definition MAX_TOTAL_CHARS :: int where "MAX_TOTAL_CHARS = 1000000"

definition DAY_MS :: int where "DAY_MS = 86400000"

datatype record_outcome = Recorded | Unchanged | Blank | TooBig | Disabled

section \<open>Retention\<close>

definition not_expired :: "retention \<Rightarrow> int \<Rightarrow> tab_version \<Rightarrow> bool" where
  "not_expired ret now v \<longleftrightarrow> (if rt_max_days ret > 0 then tv_ts v \<ge> now - rt_max_days ret * DAY_MS else True)"

definition within_count :: "retention \<Rightarrow> int \<Rightarrow> tab_history list \<Rightarrow> tab_history list" where
  "within_count ret now xs =
     filter (\<lambda>h. th_versions h \<noteq> [])
       (map (\<lambda>h. h\<lparr>th_versions := take (nat (max 0 (rt_max_versions ret)))
                     (filter (not_expired ret now) (th_versions h))\<rparr>) xs)"

definition history_chars :: "tab_history list \<Rightarrow> int" where
  "history_chars xs = sum_list (map (\<lambda>h. sum_list (map (\<lambda>v. int (length (tv_sql v))) (th_versions h))) xs)"

text \<open>\<open>flatMap\<close>, every version with its place.\<close>

type_synonym place = "nat \<times> nat"

definition places_of :: "nat \<times> tab_history \<Rightarrow> (place \<times> tab_version) list" where
  "places_of ih = map (\<lambda>jv. ((fst ih, fst jv), snd jv)) (index_list (th_versions (snd ih)))"

definition placed :: "tab_history list \<Rightarrow> (place \<times> tab_version) list" where
  "placed xs = concat (map places_of (index_list xs))"

definition by_age :: "tab_history list \<Rightarrow> (place \<times> tab_version) list" where
  "by_age xs = sort_by (\<lambda>v w. tv_ts (snd v) \<le> tv_ts (snd w)) (placed xs)"

fun doomed :: "int \<Rightarrow> int \<Rightarrow> (place \<times> tab_version) list \<Rightarrow> place list" where
  "doomed max_total tot [] = []"
| "doomed max_total tot ((p, v) # vs) =
     (if tot \<le> max_total then []
      else p # doomed max_total (tot - int (length (tv_sql v))) vs)"

definition keep_places :: "place list \<Rightarrow> nat \<times> tab_history \<Rightarrow> tab_history" where
  "keep_places ps ih = (snd ih)\<lparr>th_versions :=
     map snd (filter (\<lambda>jv. (fst ih, fst jv) \<notin> set ps) (index_list (th_versions (snd ih))))\<rparr>"

definition drop_places :: "place list \<Rightarrow> tab_history list \<Rightarrow> tab_history list" where
  "drop_places ps xs = filter (\<lambda>h. th_versions h \<noteq> []) (map (keep_places ps) (index_list xs))"

definition prune_history :: "tab_history list \<Rightarrow> retention \<Rightarrow> int \<Rightarrow> int \<Rightarrow> tab_history list" where
  "prune_history xs ret now max_total =
     (let out = within_count ret now xs; tot = history_chars out in
      if tot \<le> max_total then out else drop_places (doomed max_total tot (by_age out)) out)"

section \<open>Recording\<close>

definition record_version ::
    "tab_history list \<Rightarrow> int \<Rightarrow> string \<Rightarrow> string \<Rightarrow> version_reason \<Rightarrow> int \<Rightarrow> retention \<Rightarrow>
     tab_history list \<times> record_outcome" where
  "record_version xs tab title sql reason now ret =
     (if rt_max_versions ret \<le> 0 then (xs, Disabled)
      else if trim sql = [] then (xs, Blank)
      else if int (length sql) > MAX_VERSION_CHARS then (xs, TooBig)
      else
        let own = find_index (\<lambda>h. th_tab h = tab) xs;
            old = (case own of None \<Rightarrow> [] | Some i \<Rightarrow> th_versions (xs ! i)) in
        if (case old of [] \<Rightarrow> False | v # _ \<Rightarrow> tv_sql v = sql) then (xs, Unchanged)
        else
          let others = (case own of None \<Rightarrow> xs | Some i \<Rightarrow> take i xs @ drop (Suc i) xs);
              entry = \<lparr>th_tab = tab, th_title = title,
                       th_versions = \<lparr>tv_ts = now, tv_reason = reason, tv_sql = sql\<rparr> # old\<rparr> in
          (prune_history (entry # others) ret now MAX_TOTAL_CHARS, Recorded))"

section \<open>Storage\<close>

definition reason_text :: "version_reason \<Rightarrow> string" where
  "reason_text r = (case r of By_Run \<Rightarrow> ''run'' | By_Auto \<Rightarrow> ''auto'' | By_Close \<Rightarrow> ''close'' | By_Restore \<Rightarrow> ''restore'')"

definition parse_reason :: "string \<Rightarrow> version_reason option" where
  "parse_reason s =
     (if s = ''run'' then Some By_Run else if s = ''auto'' then Some By_Auto
      else if s = ''close'' then Some By_Close else if s = ''restore'' then Some By_Restore else None)"

definition version_json :: "tab_version \<Rightarrow> json" where
  "version_json v = JObj [(''ts'', JNum (tv_ts v)), (''reason'', JStr (reason_text (tv_reason v))),
     (''sql'', JStr (tv_sql v))]"

definition tab_history_json :: "tab_history \<Rightarrow> json" where
  "tab_history_json h = JObj [(''tabId'', JNum (th_tab h)), (''title'', JStr (th_title h)),
     (''versions'', JArr (map version_json (th_versions h)))]"

definition serialize_local_history :: "tab_history list \<Rightarrow> json" where
  "serialize_local_history xs = JArr (map tab_history_json xs)"

definition coerce_version :: "json \<Rightarrow> tab_version option" where
  "coerce_version raw =
     (case (json_num (json_field raw ''ts''), json_str (json_field raw ''sql''),
            Option.bind (json_str (json_field raw ''reason'')) parse_reason) of
        (Some ts, Some sql, Some r) \<Rightarrow> Some \<lparr>tv_ts = ts, tv_reason = r, tv_sql = sql\<rparr>
      | _ \<Rightarrow> None)"

definition parse_history_item :: "json \<Rightarrow> tab_history list \<Rightarrow> tab_history list" where
  "parse_history_item item out =
     (case (json_num (json_field item ''tabId''), json_str (json_field item ''title''),
            json_field item ''versions'') of
        (Some tab, Some title, Some (JArr raw)) \<Rightarrow>
          if list_ex (\<lambda>o'. th_tab o' = tab) out then out
          else case List.map_filter coerce_version raw of [] \<Rightarrow> out
               | versions \<Rightarrow> out @ [\<lparr>th_tab = tab, th_title = title, th_versions = versions\<rparr>]
      | _ \<Rightarrow> out)"

definition parse_local_history :: "json option \<Rightarrow> tab_history list" where
  "parse_local_history raw = (case raw of Some (JArr items) \<Rightarrow> fold parse_history_item items [] | _ \<Rightarrow> [])"

section \<open>What eviction by size does\<close>

lemma distinct_index_list: "distinct (map fst (index_list xs))"
  by (simp add: index_list_def)

lemma places_of_tab: "x \<in> set (places_of p) \<Longrightarrow> fst (fst x) = fst p"
  by (auto simp: places_of_def)

lemma distinct_places: "distinct (map fst ih) \<Longrightarrow> distinct (map fst (concat (map places_of ih)))"
proof (induction ih)
  case (Cons p ih)
  have "map fst (places_of p) = map (Pair (fst p)) (map fst (index_list (th_versions (snd p))))"
    by (simp add: places_of_def comp_def)
  moreover have "distinct (map (Pair (fst p)) (map fst (index_list (th_versions (snd p)))))"
    by (intro distinct_map [THEN iffD2] conjI distinct_index_list inj_onI) auto
  ultimately have "distinct (map fst (places_of p))" by simp
  moreover have "fst ` set (places_of p) \<inter> fst ` set (concat (map places_of ih)) = {}"
    proof (rule equals0I)
    fix q assume "q \<in> fst ` set (places_of p) \<inter> fst ` set (concat (map places_of ih))"
    then obtain x y r where "x \<in> set (places_of p)" "q = fst x" "r \<in> set ih" "y \<in> set (places_of r)" "q = fst y"
      by auto
    then have "fst p = fst r" "r \<in> set ih" using places_of_tab by metis+
    with Cons.prems show False by (auto simp: image_iff)
  qed
  ultimately show ?case using Cons
    by (simp only: list.map concat.simps map_append distinct_append set_map) simp
qed simp

lemma distinct_placed: "distinct (map fst (placed xs))"
  unfolding placed_def by (rule distinct_places) (rule distinct_index_list)

definition text_chars :: "tab_version list \<Rightarrow> int" where
  "text_chars vs = sum_list (map (\<lambda>v. int (length (tv_sql v))) vs)"

definition chars :: "(place \<times> tab_version) list \<Rightarrow> int" where
  "chars ps = sum_list (map (\<lambda>(p, v). int (length (tv_sql v))) ps)"

lemma chars_simps [simp]: "chars [] = 0" "chars ((p, v) # ps) = int (length (tv_sql v)) + chars ps"
  "chars (ps @ qs) = chars ps + chars qs"
  by (simp_all add: chars_def)

lemma chars_nonneg: "0 \<le> chars ps"
  by (induction ps) auto

lemma chars_sum_mset: "chars ps = sum_mset (image_mset (\<lambda>(p, v). int (length (tv_sql v))) (mset ps))"
  by (induction ps) auto

lemma chars_mset: "mset ps = mset qs \<Longrightarrow> chars ps = chars qs"
  by (simp add: chars_sum_mset)

lemma chars_snd: "chars (map (\<lambda>x. (f x, snd x)) ps) = text_chars (map snd ps)"
  by (induction ps) (auto simp: text_chars_def)

lemma filter_snd: "map snd (filter (\<lambda>x. P (snd x)) xs) = filter P (map snd xs)"
  by (induction xs) auto

text \<open>How much of the versions that satisfy \<open>P\<close> a history holds.\<close>

definition kept_chars :: "(tab_version \<Rightarrow> bool) \<Rightarrow> tab_history list \<Rightarrow> int" where
  "kept_chars P xs = sum_list (map (\<lambda>h. text_chars (filter P (th_versions h))) xs)"

lemma history_chars_kept: "history_chars xs = kept_chars (\<lambda>_. True) xs"
  by (simp add: history_chars_def kept_chars_def text_chars_def)

lemma chars_places: "chars (filter (\<lambda>x. P (snd x)) (concat (map places_of ih))) = kept_chars P (map snd ih)"
proof (induction ih)
  case (Cons p ih)
  have "chars (filter (\<lambda>x. P (snd x)) (places_of p)) = text_chars (filter P (th_versions (snd p)))"
    by (simp add: places_of_def filter_map comp_def chars_snd filter_snd)
  with Cons show ?case by (simp add: kept_chars_def)
qed (simp add: kept_chars_def)

lemma chars_placed: "chars (filter (\<lambda>x. P (snd x)) (placed xs)) = kept_chars P xs"
  by (simp add: placed_def chars_places)

lemma kept_chars_nonempty: "kept_chars P (filter (\<lambda>h. th_versions h \<noteq> []) xs) = kept_chars P xs"
  by (induction xs) (auto simp: kept_chars_def text_chars_def)

lemma chars_keep_places:
  "kept_chars (\<lambda>_. True) (map (keep_places ps) ih) = chars (filter (\<lambda>x. fst x \<notin> set ps) (concat (map places_of ih)))"
proof (induction ih)
  case (Cons p ih)
  have "chars (filter (\<lambda>x. fst x \<notin> set ps) (places_of p)) = text_chars (th_versions (keep_places ps p))"
    by (simp add: places_of_def keep_places_def filter_map comp_def chars_snd)
  with Cons show ?case by (simp add: kept_chars_def)
qed (simp add: kept_chars_def)

lemma chars_drop_places: "history_chars (drop_places ps xs) = chars (filter (\<lambda>x. fst x \<notin> set ps) (placed xs))"
  by (simp add: history_chars_kept drop_places_def kept_chars_nonempty chars_keep_places placed_def)

text \<open>The doomed versions are a prefix of the list by age, as short as it can be.\<close>

lemma doomed_prefix:
  "\<exists>k \<le> length vs. doomed m tot vs = map fst (take k vs) \<and>
     (k = length vs \<or> tot - chars (take k vs) \<le> m) \<and> (\<forall>j < k. m < tot - chars (take j vs))"
proof (induction m tot vs rule: doomed.induct)
  case (2 m tot p v vs)
  show ?case
  proof (cases "tot \<le> m")
    case False
    let ?n = "int (length (tv_sql v))"
    from 2 [OF False] obtain k where k: "k \<le> length vs" "doomed m (tot - ?n) vs = map fst (take k vs)"
        "k = length vs \<or> tot - ?n - chars (take k vs) \<le> m" "\<forall>j < k. m < tot - ?n - chars (take j vs)"
      by blast
    have "m < tot - chars (take j ((p, v) # vs))" if "j < Suc k" for j
      using that k(4) False by (cases j) (simp_all add: diff_diff_eq)
    moreover have "doomed m tot ((p, v) # vs) = map fst (take (Suc k) ((p, v) # vs))"
      using k(2) False by simp
    moreover have "Suc k = length ((p, v) # vs) \<or> tot - chars (take (Suc k) ((p, v) # vs)) \<le> m"
      using k(3) by (simp add: diff_diff_eq)
    ultimately show ?thesis using k(1) by (intro exI [of _ "Suc k"]) simp
  qed (intro exI [of _ 0], simp)
qed simp

text \<open>What eviction leaves is the rest of the list by age.\<close>

lemma mset_by_age: "mset (by_age xs) = mset (placed xs)"
  by (simp add: by_age_def)

lemma by_age_sorted: "sorted_wrt (\<lambda>v w. tv_ts (snd v) \<le> tv_ts (snd w)) (by_age xs)"
  unfolding by_age_def by (rule sorted_sort_by) auto

lemma distinct_by_age: "distinct (map fst (by_age xs))"
proof -
  have "mset (map fst (by_age xs)) = mset (map fst (placed xs))" by (simp add: mset_by_age)
  with distinct_placed [of xs] show ?thesis by (metis mset_eq_imp_distinct_iff)
qed

lemma filter_out_prefix:
  "distinct (map fst (a @ b)) \<Longrightarrow> filter (\<lambda>x. fst x \<notin> fst ` set a) (a @ b) = b"
  by (auto simp: filter_empty_conv intro!: filter_True)

lemma chars_left:
  assumes "k \<le> length (by_age xs)"
  shows "chars (filter (\<lambda>x. fst x \<notin> set (map fst (take k (by_age xs)))) (placed xs)) = chars (drop k (by_age xs))"
proof -
  have "chars (filter (\<lambda>x. fst x \<notin> fst ` set (take k (by_age xs))) (placed xs))
      = chars (filter (\<lambda>x. fst x \<notin> fst ` set (take k (by_age xs))) (take k (by_age xs) @ drop k (by_age xs)))"
    by (intro chars_mset) (simp only: mset_filter append_take_drop_id mset_by_age)
  also have "\<dots> = chars (drop k (by_age xs))"
    by (subst filter_out_prefix) (simp_all only: append_take_drop_id distinct_by_age)
  finally show ?thesis by simp
qed

lemma chars_split: "chars (take k ps) + chars (drop k ps) = chars ps"
  by (metis append_take_drop_id chars_simps(3))

lemma history_chars_by_age: "history_chars xs = chars (by_age xs)"
proof -
  have "chars (by_age xs) = chars (placed xs)" by (rule chars_mset) (rule mset_by_age)
  then show ?thesis using chars_placed [of "\<lambda>_. True" xs] by (simp add: history_chars_kept)
qed

section \<open>The limits hold\<close>

lemma doomed_split:
  assumes "history_chars xs = tot"
  obtains k where "k \<le> length (by_age xs)" "doomed m tot (by_age xs) = map fst (take k (by_age xs))"
    "k = length (by_age xs) \<or> chars (drop k (by_age xs)) \<le> m"
    "\<forall>j < k. m < chars (drop j (by_age xs))"
proof -
  have left: "tot - chars (take j (by_age xs)) = chars (drop j (by_age xs))" for j
    using chars_split [of j "by_age xs"] assms history_chars_by_age [of xs] by simp
  obtain k where "k \<le> length (by_age xs)" "doomed m tot (by_age xs) = map fst (take k (by_age xs))"
      "k = length (by_age xs) \<or> tot - chars (take k (by_age xs)) \<le> m"
      "\<forall>j < k. m < tot - chars (take j (by_age xs))"
    using doomed_prefix by blast
  then show ?thesis using that unfolding left by blast
qed

lemma prune_fits:
  assumes "0 \<le> m"
  shows "history_chars (prune_history xs ret now m) \<le> m"
proof (cases "history_chars (within_count ret now xs) \<le> m")
  case False
  let ?out = "within_count ret now xs"
  obtain k where k: "k \<le> length (by_age ?out)"
      "doomed m (history_chars ?out) (by_age ?out) = map fst (take k (by_age ?out))"
      "k = length (by_age ?out) \<or> chars (drop k (by_age ?out)) \<le> m"
    using doomed_split [OF refl] by metis
  have "history_chars (drop_places (doomed m (history_chars ?out) (by_age ?out)) ?out) = chars (drop k (by_age ?out))"
    unfolding chars_drop_places k(2) by (rule chars_left) (rule k(1))
  moreover have "chars (drop k (by_age ?out)) \<le> m" using k(3) assms by auto
  ultimately show ?thesis using False by (simp add: prune_history_def Let_def)
qed (simp add: prune_history_def)

text \<open>A version is evicted only if what is at least as new as it does not fit.\<close>

lemma doomed_too_much:
  assumes "p \<in> set (doomed m (history_chars xs) (by_age xs))" and "(p, v) \<in> set (placed xs)"
  shows "m < kept_chars (\<lambda>w. tv_ts v \<le> tv_ts w) xs"
proof -
  obtain k where k: "k \<le> length (by_age xs)"
      "doomed m (history_chars xs) (by_age xs) = map fst (take k (by_age xs))"
      "\<forall>j < k. m < chars (drop j (by_age xs))"
    using doomed_split [OF refl] by metis
  from assms(1) k obtain j where j: "j < k" "fst (by_age xs ! j) = p"
    by (auto simp: in_set_conv_nth)
  have len: "j < length (by_age xs)" using j(1) k(1) by simp
  have "(p, v) \<in> set (by_age xs)" using assms(2) by (metis mset_by_age set_mset_mset)
  moreover have "by_age xs ! j \<in> set (by_age xs)" using len by simp
  ultimately have v: "by_age xs ! j = (p, v)"
    using j(2) distinct_by_age [of xs] by (metis (no_types, lifting) distinct_map inj_on_def fst_conv)
  have new: "tv_ts v \<le> tv_ts (snd w)" if "w \<in> set (drop j (by_age xs))" for w
  proof -
    from that obtain i where "w = by_age xs ! (j + i)" "j + i < length (by_age xs)"
      by (auto simp: in_set_conv_nth)
    then show ?thesis
      using sorted_wrt_nth_less [OF by_age_sorted, of j "j + i" xs] v by (cases i) auto
  qed
  let ?new = "\<lambda>w. tv_ts v \<le> tv_ts (snd w)"
  have "chars (filter ?new (by_age xs))
      = chars (filter ?new (take j (by_age xs))) + chars (filter ?new (drop j (by_age xs)))"
    by (metis append_take_drop_id chars_simps(3) filter_append)
  moreover have "filter ?new (drop j (by_age xs)) = drop j (by_age xs)" using new by (intro filter_True) blast
  moreover have "chars (filter ?new (by_age xs)) = chars (filter ?new (placed xs))"
    by (intro chars_mset) (simp add: mset_by_age)
  moreover have "chars (filter ?new (placed xs)) = kept_chars (\<lambda>w. tv_ts v \<le> tv_ts w) xs"
    by (rule chars_placed)
  ultimately show ?thesis using k(3) j(1) chars_nonneg [of "filter ?new (take j (by_age xs))"] by force
qed

section \<open>What was just recorded\<close>

lemma kept_chars_simps [simp]: "kept_chars P [] = 0"
  "kept_chars P (h # xs) = text_chars (filter P (th_versions h)) + kept_chars P xs"
  "kept_chars P (xs @ ys) = kept_chars P xs + kept_chars P ys"
  by (simp_all add: kept_chars_def)

lemma text_chars_simps [simp]: "text_chars [] = 0" "text_chars (v # vs) = int (length (tv_sql v)) + text_chars vs"
  by (simp_all add: text_chars_def)

lemma text_chars_nonneg: "0 \<le> text_chars vs"
  by (induction vs) auto

lemma text_chars_take: "text_chars (filter P (take n vs)) \<le> text_chars (filter P vs)"
proof -
  have "text_chars (filter P vs) = text_chars (filter P (take n vs)) + text_chars (filter P (drop n vs))"
    unfolding text_chars_def by (metis append_take_drop_id filter_append map_append sum_list_append)
  with text_chars_nonneg [of "filter P (drop n vs)"] show ?thesis by simp
qed

lemma text_chars_filter: "text_chars (filter P (filter Q vs)) \<le> text_chars (filter P vs)"
  by (induction vs) auto

lemma kept_chars_within: "kept_chars P (within_count ret now xs) \<le> kept_chars P xs"
proof (induction xs)
  case (Cons h xs)
  let ?n = "nat (max 0 (rt_max_versions ret))" and ?f = "not_expired ret now"
  have "text_chars (filter P (take ?n (filter ?f (th_versions h)))) \<le> text_chars (filter P (th_versions h))"
    using text_chars_take text_chars_filter by (rule order_trans)
  with Cons text_chars_nonneg [of "filter P (th_versions h)"] show ?case
    by (auto simp: within_count_def split: if_splits)
qed (simp add: within_count_def)

lemma kept_chars_remove:
  "i < length xs \<Longrightarrow>
    kept_chars P xs = text_chars (filter P (th_versions (xs ! i))) + kept_chars P (take i xs @ drop (Suc i) xs)"
  by (subst id_take_nth_drop [of i xs]) simp_all

lemma index_list_Cons: "index_list (x # xs) = (0, x) # map (\<lambda>(i, y). (Suc i, y)) (index_list xs)"
  by (intro nth_equalityI) (auto simp: index_list_def nth_Cons simp del: upt_Suc split: nat.split)

lemma placed_head: "((0, 0), v) \<in> set (placed (h # xs)) \<longleftrightarrow> (\<exists>vs. th_versions h = v # vs)"
  by (cases "th_versions h") (auto simp: placed_def places_of_def index_list_Cons)

lemma drop_places_head:
  assumes "th_versions h = v # vs" and "(0, 0) \<notin> set ps"
  shows "\<exists>vs' t. drop_places ps (h # xs) = h\<lparr>th_versions := v # vs'\<rparr> # t"
  using assms by (simp add: drop_places_def keep_places_def index_list_Cons) blast

text \<open>C18. Editor work is not lost: a recorded version is the newest version of the first document
  listed, whatever retention throws away, as long as what is at least as new as it fits in the
  store together with it; and what is stored always fits.\<close>

theorem recorded_version_kept:
  assumes rec: "record_version xs tab title sql reason now ret = (ys, Recorded)"
    and fits: "kept_chars (\<lambda>w. now \<le> tv_ts w) xs + int (length sql) \<le> MAX_TOTAL_CHARS"
  shows "history_chars ys \<le> MAX_TOTAL_CHARS \<and>
    (\<exists>vs t. ys = \<lparr>th_tab = tab, th_title = title,
       th_versions = \<lparr>tv_ts = now, tv_reason = reason, tv_sql = sql\<rparr> # vs\<rparr> # t)"
proof -
  let ?new = "\<lparr>tv_ts = now, tv_reason = reason, tv_sql = sql\<rparr>" and ?P = "\<lambda>w. now \<le> tv_ts w"
  let ?entry = "\<lambda>vs. \<lparr>th_tab = tab, th_title = title, th_versions = ?new # vs\<rparr>"
  from rec obtain old others where ys: "ys = prune_history (?entry old # others) ret now MAX_TOTAL_CHARS"
      and keep: "0 < rt_max_versions ret"
      and own: "kept_chars ?P xs = text_chars (filter ?P old) + kept_chars ?P others"
    by (cases "find_index (\<lambda>h. th_tab h = tab) xs")
      (auto simp: record_version_def Let_def kept_chars_remove split: if_splits dest!: find_index_Some)
  let ?out = "within_count ret now (?entry old # others)"
  have "not_expired ret now ?new" by (simp add: not_expired_def DAY_MS_def)
  moreover obtain n where "nat (rt_max_versions ret) = Suc n"
    using keep by (cases "nat (rt_max_versions ret)") auto
  ultimately obtain vs t where out: "?out = ?entry vs # t" using keep by (auto simp: within_count_def max_def)
  have "(0, 0) \<notin> set (doomed MAX_TOTAL_CHARS (history_chars ?out) (by_age ?out))"
  proof
    assume "(0, 0) \<in> set (doomed MAX_TOTAL_CHARS (history_chars ?out) (by_age ?out))"
    moreover have "((0, 0), ?new) \<in> set (placed ?out)" unfolding out placed_head by simp
    ultimately have "MAX_TOTAL_CHARS < kept_chars ?P ?out" using doomed_too_much by fastforce
    also have "\<dots> \<le> kept_chars ?P (?entry old # others)" by (rule kept_chars_within)
    also have "\<dots> \<le> MAX_TOTAL_CHARS" using fits own by simp
    finally show False by simp
  qed
  then have "\<exists>vs t. ys = ?entry vs # t"
    using drop_places_head [of "?entry vs" ?new vs _ t] by (auto simp: ys prune_history_def Let_def out)
  moreover have "history_chars ys \<le> MAX_TOTAL_CHARS"
    unfolding ys by (rule prune_fits) (simp add: MAX_TOTAL_CHARS_def)
  ultimately show ?thesis by blast
qed


lemma recorded_version_kept_witness:
  "history_chars (fst (record_version [] 7 ''Query'' ''SELECT 1'' By_Run 1000 \<lparr>rt_max_versions = 5, rt_max_days = 30\<rparr>))
    \<le> MAX_TOTAL_CHARS"
proof -
  let ?r = "record_version [] 7 ''Query'' ''SELECT 1'' By_Run 1000 \<lparr>rt_max_versions = 5, rt_max_days = 30\<rparr>"
  have "?r = (fst ?r, Recorded)"
    by (simp add: record_version_def MAX_VERSION_CHARS_def trim_def trim_start_def trim_end_def is_space_def)
  moreover have "kept_chars (\<lambda>w. 1000 \<le> tv_ts w) [] + int (length ''SELECT 1'') \<le> MAX_TOTAL_CHARS"
    by (simp add: MAX_TOTAL_CHARS_def)
  ultimately show ?thesis by (rule recorded_version_kept [THEN conjunct1])
qed

section \<open>Storage gives the history back\<close>

lemma coerce_version_json [simp]: "coerce_version (version_json v) = Some v"
  by (cases "tv_reason v")
    (simp_all add: coerce_version_def version_json_def json_field_def json_str_def json_num_def
      reason_text_def parse_reason_def)

lemma coerce_versions: "List.map_filter coerce_version (map version_json vs) = vs"
  by (induction vs) (simp_all add: map_filter_simps)

definition wf_history :: "tab_history list \<Rightarrow> bool" where
  "wf_history xs \<longleftrightarrow> distinct (map th_tab xs) \<and> (\<forall>h \<in> set xs. th_versions h \<noteq> [])"

lemma parse_item_wf: "wf_history out \<Longrightarrow> wf_history (parse_history_item item out)"
  by (auto simp: parse_history_item_def wf_history_def list_ex_iff split: option.split json.split list.split)

lemma wf_parse_history: "wf_history (parse_local_history raw)"
proof -
  have "wf_history (fold parse_history_item items out)" if "wf_history out" for items out
    using that by (induction items arbitrary: out) (auto intro: parse_item_wf)
  from this [of "[]"] have "wf_history (fold parse_history_item items [])" for items
    by (simp add: wf_history_def)
  moreover have "wf_history []" by (simp add: wf_history_def)
  ultimately show ?thesis by (auto simp: parse_local_history_def split: option.split json.split)
qed

lemma parse_item_json:
  assumes "th_tab h \<notin> th_tab ` set out" and "th_versions h \<noteq> []"
  shows "parse_history_item (tab_history_json h) out = out @ [h]"
proof -
  obtain v vs where "th_versions h = v # vs" using assms(2) by (cases "th_versions h") auto
  then have "List.map_filter coerce_version (map version_json (th_versions h)) = v # vs"
    by (simp only: coerce_versions)
  with assms \<open>th_versions h = v # vs\<close> show ?thesis
    by (auto simp: parse_history_item_def tab_history_json_def json_field_def json_num_def json_str_def list_ex_iff
        dest: rev_image_eqI [of _ _ _ th_tab])
qed

lemma parse_serialize_local: "wf_history xs \<Longrightarrow> parse_local_history (Some (serialize_local_history xs)) = xs"
proof -
  have "fold parse_history_item (map tab_history_json xs) out = out @ xs"
    if "distinct (map th_tab (out @ xs))" "\<forall>h \<in> set xs. th_versions h \<noteq> []" for out
    using that
  proof (induction xs arbitrary: out)
    case (Cons h xs)
    from Cons.prems have "parse_history_item (tab_history_json h) out = out @ [h]"
      by (intro parse_item_json) auto
    with Cons.IH [of "out @ [h]"] Cons.prems show ?case by simp
  qed simp
  from this [of "[]"] show "wf_history xs \<Longrightarrow> ?thesis"
    by (simp add: parse_local_history_def serialize_local_history_def wf_history_def)
qed

end
