(* ===== verification/JsNumberText.thy ===== *)
theory JsNumberText
  imports JsNumber
begin

text \<open>
  JavaScript's \<open>String(number)\<close> for finite numbers: the fewest digits that read back as the same
  double, and the placement of the decimal point.
\<close>

text \<open>The exponent \<open>n\<close> with \<open>10^(n-1) \<le> x < 10^n\<close>, searched from an estimate by the bit length.\<close>

definition pow10 :: "int \<Rightarrow> rat" where
  "pow10 k = (if k < 0 then 1 / of_int (10 ^ nat (- k)) else of_int (10 ^ nat k))"

fun point_up :: "nat \<Rightarrow> rat \<Rightarrow> int \<Rightarrow> int" where
  "point_up 0 x n = n"
| "point_up (Suc f) x n = (if pow10 n \<le> x then point_up f x (n + 1) else n)"

fun point_down :: "nat \<Rightarrow> rat \<Rightarrow> int \<Rightarrow> int" where
  "point_down 0 x n = n"
| "point_down (Suc f) x n = (if x < pow10 (n - 1) then point_down f x (n - 1) else n)"

definition decimal_point :: "rat \<Rightarrow> int" where
  "decimal_point x = point_down 400 x (point_up 400 x 1)"

text \<open>The digits with \<open>k\<close> places: the nearer of the two integers around \<open>x * 10^(k-n)\<close> that
  reads back as \<open>x\<close>.\<close>

definition reads_back :: "rat \<Rightarrow> int \<Rightarrow> int \<Rightarrow> bool" where
  "reads_back x s e =
     ((if e < 0 then round_double s (10 ^ nat (- e)) else round_double (s * 10 ^ nat e) 1) = Num x)"

definition digits_with :: "rat \<Rightarrow> int \<Rightarrow> int \<Rightarrow> int option" where
  "digits_with x n k =
     (let y = x * pow10 (k - n); a = \<lfloor>y\<rfloor>; b = a + 1;
          near = (if y - of_int a \<le> of_int b - y then [a, b] else [b, a]) in
      List.find (\<lambda>s. 10 ^ nat (k - 1) \<le> s \<and> s < 10 ^ nat k \<and> reads_back x s (n - k)) near)"

fun shortest_digits :: "nat \<Rightarrow> rat \<Rightarrow> int \<Rightarrow> int \<Rightarrow> int \<times> int" where
  "shortest_digits 0 x n k = (\<lfloor>x * pow10 (k - n)\<rfloor>, k)"
| "shortest_digits (Suc f) x n k =
     (case digits_with x n k of Some s \<Rightarrow> (s, k) | None \<Rightarrow> shortest_digits f x n (k + 1))"

definition zeros :: "int \<Rightarrow> string" where
  "zeros k = replicate (nat k) CHR ''0''"

definition positive_text :: "rat \<Rightarrow> string" where
  "positive_text x =
     (let n = decimal_point x; (s, k) = shortest_digits 17 x n 1; ds = show_int s in
      if k \<le> n \<and> n \<le> 21 then ds @ zeros (n - k)
      else if 0 < n \<and> n \<le> 21 then take (nat n) ds @ ''.'' @ drop (nat n) ds
      else if - 6 < n \<and> n \<le> 0 then ''0.'' @ zeros (- n) @ ds
      else take 1 ds @ (if k = 1 then [] else ''.'' @ drop 1 ds) @ ''e'' @
           (if n > 0 then ''+'' else ''-'') @ show_int \<bar>n - 1\<bar>)"

definition number_text :: "js_number \<Rightarrow> string" where
  "number_text v =
     (case v of NaN \<Rightarrow> ''NaN'' | Inf neg \<Rightarrow> (if neg then ''-Infinity'' else ''Infinity'')
      | Num x \<Rightarrow> if x = 0 then ''0'' else if x < 0 then ''-'' @ positive_text (- x) else positive_text x)"

end
