(* ===== verification/ResultCompare.thy ===== *)
theory ResultCompare
  imports DataDiff JsNumberText
begin

text \<open>
  Comparing two results (\<open>resultCompare.ts\<close>): rows paired by key columns or by position, values
  compared by the kind of their column, every loaded row accounted for. The two marks outside
  Latin-1 (the minus sign and the arrow) are arguments of the view.
\<close>

section \<open>Values\<close>

definition DECIMAL :: re where
  "DECIMAL = seqs [Bol, opt (Cls (\<lambda>c. c = CHR ''+'' \<or> c = CHR ''-'')),
     Grp 1 (Alt (seqs [plus (Cls is_digit), opt (one CHR ''.''), star (Cls is_digit)])
                (Seq (one CHR ''.'') (plus (Cls is_digit)))), Eol]"

definition strip_zeros :: "string \<Rightarrow> string" where
  "strip_zeros s = rev (dropWhile (\<lambda>c. c = CHR ''0'') (rev s))"

text \<open>The branch for plain decimals; \<open>split(".")\<close> gives at most two parts there.\<close>

definition plain_canonical :: "string \<Rightarrow> string" where
  "plain_canonical s =
     (let neg = starts_with ''-'' s;
          body = (case s of c # t \<Rightarrow> if c = CHR ''+'' \<or> c = CHR ''-'' then t else s | [] \<Rightarrow> []);
          parts = split_on CHR ''.'' body;
          i = dropWhile (\<lambda>c. c = CHR ''0'') (hd parts); i' = (if i = [] then ''0'' else i);
          f = strip_zeros (case tl parts of [] \<Rightarrow> [] | p # _ \<Rightarrow> p);
          out = (if f = [] then i' else i' @ ''.'' @ f)
      in if neg \<and> out \<noteq> ''0'' then ''-'' @ out else out)"

definition canonical_number :: "string \<Rightarrow> string" where
  "canonical_number v =
     (let s = trim v in
      if re_test DECIMAL s then plain_canonical s
      else let n = js_Number s in
        if s = [] \<or> \<not> is_finite n then v
        else let t = number_text n in if re_test DECIMAL (trim t) then plain_canonical (trim t) else t)"

definition normalize_value :: "cell \<Rightarrow> cell_kind \<Rightarrow> cell" where
  "normalize_value v kind =
     map_option (\<lambda>x. if kind = NumberKind then canonical_number x
                     else if kind = BoolKind then bool_to_01 x else x) v"

section \<open>The comparison\<close>

datatype compare_by = ByPosition | ByKey "string list"

datatype diff_status = Added | Removed | Changed | Duplicate

record compare_row =
  dr_status :: diff_status
  dr_left :: "nat option"
  dr_right :: "nat option"
  dr_changed :: "string list"

record result_comparison =
  rc_columns :: "string list"
  rc_only_left :: "string list"
  rc_only_right :: "string list"
  rc_missing_key :: "string list"
  rc_rows :: "compare_row list"
  rc_same :: nat
  rc_duplicate_keys :: nat
  rc_loaded :: "nat \<times> nat"
  rc_truncated :: "bool \<times> bool"

text \<open>\<open>indexOf\<close>: the first index of each column name.\<close>

definition column_index :: "column list \<Rightarrow> (string \<times> nat) list" where
  "column_index cols =
     fold (\<lambda>(i, c) m. if has_key m (col_name c) then m else map_set (col_name c) i m) (index_list cols) []"

definition shared_columns :: "result_set \<Rightarrow> result_set \<Rightarrow> string list" where
  "shared_columns l r = filter (has_key (column_index (rs_columns r))) (obj_keys (column_index (rs_columns l)))"

definition index_of_col :: "(string \<times> nat) list \<Rightarrow> string \<Rightarrow> nat" where
  "index_of_col m c = default 0 (map_of m c)"

definition compare_kind :: "result_set \<Rightarrow> result_set \<Rightarrow> string \<Rightarrow> cell_kind" where
  "compare_kind l r c =
     (let a = classify_type (col_type (rs_columns l ! index_of_col (column_index (rs_columns l)) c));
          b = classify_type (col_type (rs_columns r ! index_of_col (column_index (rs_columns r)) c))
      in if a = b then a else TextKind)"

definition compared_row ::
    "string list \<Rightarrow> (string \<Rightarrow> cell_kind) \<Rightarrow> (string \<times> nat) list \<Rightarrow> cell list \<Rightarrow> row_map" where
  "compared_row cols kind idx row =
     obj_of (map (\<lambda>c. (c, normalize_value (cell_at row (index_of_col idx c)) (kind c))) cols)"

text \<open>\<open>pair\<close>: \<open>None\<close> counts as the same row.\<close>

definition pair_rows :: "string list \<Rightarrow> row_map list \<Rightarrow> row_map list \<Rightarrow> nat \<Rightarrow> nat \<Rightarrow> compare_row option" where
  "pair_rows cols L R l r =
     (let changed = filter (\<lambda>c. map_of (L ! l) c \<noteq> map_of (R ! r) c) cols in
      if changed \<noteq> [] then Some \<lparr>dr_status = Changed, dr_left = Some l, dr_right = Some r, dr_changed = changed\<rparr>
      else None)"

definition unpaired :: "diff_status \<Rightarrow> nat option \<Rightarrow> nat option \<Rightarrow> compare_row" where
  "unpaired s l r = \<lparr>dr_status = s, dr_left = l, dr_right = r, dr_changed = []\<rparr>"

definition position_outcome :: "string list \<Rightarrow> row_map list \<Rightarrow> row_map list \<Rightarrow> nat \<Rightarrow> compare_row option" where
  "position_outcome cols L R i =
     (if i \<ge> length R then Some (unpaired Removed (Some i) None)
      else if i \<ge> length L then Some (unpaired Added None (Some i))
      else pair_rows cols L R i i)"

definition key_groups :: "string list \<Rightarrow> row_map list \<Rightarrow> (string \<times> nat list) list" where
  "key_groups pk recs =
     fold (\<lambda>(i, r) m. map_set (key_of r pk) (default [] (map_of m (key_of r pk)) @ [i]) m) (index_list recs) []"

definition group_size :: "(string \<times> nat list) list \<Rightarrow> string \<Rightarrow> nat" where
  "group_size m k = length (default [] (map_of m k))"

definition dup_key :: "(string \<times> nat list) list \<Rightarrow> (string \<times> nat list) list \<Rightarrow> string \<Rightarrow> bool" where
  "dup_key lk rk k \<longleftrightarrow> group_size lk k > 1 \<or> group_size rk k > 1"

definition left_outcome ::
    "string list \<Rightarrow> string list \<Rightarrow> row_map list \<Rightarrow> row_map list \<Rightarrow> nat \<Rightarrow> compare_row option" where
  "left_outcome cols pk L R i =
     (let lk = key_groups pk L; rk = key_groups pk R; k = key_of (L ! i) pk in
      if dup_key lk rk k then Some (unpaired Duplicate (Some i) None)
      else case map_of rk k of None \<Rightarrow> Some (unpaired Removed (Some i) None)
           | Some js \<Rightarrow> pair_rows cols L R i (hd js))"

definition right_outcome ::
    "string list \<Rightarrow> row_map list \<Rightarrow> row_map list \<Rightarrow> nat \<Rightarrow> compare_row option" where
  "right_outcome pk L R i =
     (let lk = key_groups pk L; rk = key_groups pk R; k = key_of (R ! i) pk in
      if dup_key lk rk k then Some (unpaired Duplicate None (Some i))
      else if \<not> has_key lk k then Some (unpaired Added None (Some i))
      else None)"

definition count_none :: "'a option list \<Rightarrow> nat" where
  "count_none xs = length (filter (\<lambda>x. x = None) xs)"

definition compare_records ::
    "string list \<Rightarrow> compare_by \<Rightarrow> row_map list \<Rightarrow> row_map list \<Rightarrow> compare_row list \<times> nat \<times> nat" where
  "compare_records cols by L R =
     (case by of
        ByPosition \<Rightarrow>
          let os = map (position_outcome cols L R) [0..<max (length L) (length R)]
          in (List.map_filter (\<lambda>x. x) os, count_none os, 0)
      | ByKey pk \<Rightarrow>
          let ls = map (left_outcome cols pk L R) [0..<length L];
              rs = map (right_outcome pk L R) [0..<length R];
              lk = key_groups pk L; rk = key_groups pk R
          in (List.map_filter (\<lambda>x. x) ls @ List.map_filter (\<lambda>x. x) rs, count_none ls,
              length (filter (dup_key lk rk) (uniq (obj_keys lk @ obj_keys rk)))))"

definition missing_key :: "result_set \<Rightarrow> result_set \<Rightarrow> compare_by \<Rightarrow> string list" where
  "missing_key l r by =
     (case by of ByPosition \<Rightarrow> []
      | ByKey pk \<Rightarrow> filter (\<lambda>c. \<not> has_key (column_index (rs_columns l)) c \<or>
                              \<not> has_key (column_index (rs_columns r)) c) pk)"

definition compared_rows :: "result_set \<Rightarrow> result_set \<Rightarrow> result_set \<Rightarrow> row_map list" where
  "compared_rows l r side =
     map (compared_row (shared_columns l r) (compare_kind l r) (column_index (rs_columns side))) (rs_rows side)"

definition compare_results :: "result_set \<Rightarrow> result_set \<Rightarrow> compare_by \<Rightarrow> result_comparison" where
  "compare_results l r by =
     (let li = column_index (rs_columns l); ri = column_index (rs_columns r);
          cols = shared_columns l r;
          out = (if missing_key l r by \<noteq> [] then ([], 0, 0)
                 else compare_records cols by (compared_rows l r l) (compared_rows l r r)) in
      \<lparr>rc_columns = cols,
       rc_only_left = filter (\<lambda>c. \<not> has_key ri c) (obj_keys li),
       rc_only_right = filter (\<lambda>c. \<not> has_key li c) (obj_keys ri),
       rc_missing_key = missing_key l r by,
       rc_rows = fst out, rc_same = fst (snd out), rc_duplicate_keys = snd (snd out),
       rc_loaded = (length (rs_rows l), length (rs_rows r)),
       rc_truncated = (rs_truncated l, rs_truncated r)\<rparr>)"

section \<open>The comparison drawn as rows\<close>

definition diff_mark :: "string \<Rightarrow> diff_status \<Rightarrow> string" where
  "diff_mark dash s = (case s of Added \<Rightarrow> ''+'' | Removed \<Rightarrow> dash | Changed \<Rightarrow> ''~'' | Duplicate \<Rightarrow> ''!'')"

definition view_cell :: "result_set \<Rightarrow> nat option \<Rightarrow> string \<Rightarrow> cell" where
  "view_cell rs row c =
     (case row of None \<Rightarrow> None
      | Some i \<Rightarrow> (case nth_opt (rs_rows rs) i of None \<Rightarrow> None
          | Some cells \<Rightarrow> cell_at cells (index_of_col (column_index (rs_columns rs)) c)))"

definition view_row :: "string \<Rightarrow> string \<Rightarrow> result_comparison \<Rightarrow> result_set \<Rightarrow> result_set \<Rightarrow> compare_row \<Rightarrow> cell list" where
  "view_row dash arrow cmp l r d =
     Some (diff_mark dash (dr_status d)) #
     map (\<lambda>c. let lv = view_cell l (dr_left d) c; rv = view_cell r (dr_right d) c in
        if c \<in> set (dr_changed d) then Some (default NULL_LABEL lv @ arrow @ default NULL_LABEL rv)
        else if dr_right d = None then lv else rv) (rc_columns cmp)"

definition view_marks :: "result_comparison \<Rightarrow> compare_row \<Rightarrow> nat list" where
  "view_marks cmp d = map (\<lambda>(i, c). i + 1) (filter (\<lambda>(i, c). c \<in> set (dr_changed d)) (index_list (rc_columns cmp)))"

record comparison_view =
  cv_result :: result_set
  cv_status :: "diff_status list"
  cv_changed :: "nat list list"

definition comparison_view_of ::
    "string \<Rightarrow> string \<Rightarrow> result_comparison \<Rightarrow> result_set \<Rightarrow> result_set \<Rightarrow> string \<Rightarrow> comparison_view" where
  "comparison_view_of dash arrow cmp l r header =
     \<lparr>cv_result = \<lparr>rs_columns = \<lparr>col_name = header, col_type = ''text''\<rparr> #
          map (\<lambda>c. \<lparr>col_name = c,
                 col_type = col_type (rs_columns l ! index_of_col (column_index (rs_columns l)) c)\<rparr>) (rc_columns cmp),
        rs_rows = map (view_row dash arrow cmp l r) (rc_rows cmp),
        rs_truncated = False, rs_cursor = False, rs_affected = 0\<rparr>,
      cv_status = map dr_status (rc_rows cmp),
      cv_changed = map (view_marks cmp) (rc_rows cmp)\<rparr>"

section \<open>Groups by key\<close>

definition same_key :: "string list \<Rightarrow> row_map list \<Rightarrow> string \<Rightarrow> nat list" where
  "same_key pk recs k = filter (\<lambda>i. key_of (recs ! i) pk = k) [0..<length recs]"

lemma same_key_mem: "i \<in> set (same_key pk recs k) \<longleftrightarrow> i < length recs \<and> key_of (recs ! i) pk = k"
  by (auto simp: same_key_def)

lemma fold_groups:
  "map_of (fold (\<lambda>(i, r) m. map_set (key_of r pk) (default [] (map_of m (key_of r pk)) @ [i]) m) ps m) k
    = (let is = map fst (filter (\<lambda>(i, r). key_of r pk = k) ps)
       in if is = [] then map_of m k else Some (default [] (map_of m k) @ is))"
proof (induction ps arbitrary: m)
  case (Cons p ps)
  obtain i r where p: "p = (i, r)" by (cases p)
  show ?case
    using Cons [of "map_set (key_of r pk) (default [] (map_of m (key_of r pk)) @ [i]) m"]
    by (auto simp: p Let_def)
qed simp

lemma index_list_keys: "map fst (filter (\<lambda>(i, r). P r) (index_list xs)) = filter (\<lambda>i. P (xs ! i)) [0..<length xs]"
proof -
  have "index_list xs = map (\<lambda>i. (i, xs ! i)) [0..<length xs]"
    by (intro nth_equalityI) (auto simp: index_list_def)
  then show ?thesis by (simp add: filter_map comp_def)
qed

lemma map_of_key_groups:
  "map_of (key_groups pk recs) k = (if same_key pk recs k = [] then None else Some (same_key pk recs k))"
  unfolding key_groups_def fold_groups using index_list_keys [of "\<lambda>r. key_of r pk = k" recs]
  by (simp add: Let_def same_key_def)

lemma group_size_key: "group_size (key_groups pk recs) k = length (same_key pk recs k)"
  by (simp add: group_size_def map_of_key_groups)

lemma has_key_groups: "has_key (key_groups pk recs) k \<longleftrightarrow> same_key pk recs k \<noteq> []"
  by (simp add: has_key_map_of map_of_key_groups)

lemma one_of_key:
  assumes "length (same_key pk recs k) \<le> 1" and "i < length recs" and "key_of (recs ! i) pk = k"
  shows "same_key pk recs k = [i]"
proof -
  have "i \<in> set (same_key pk recs k)" using assms by (simp add: same_key_mem)
  with assms(1) show ?thesis by (cases "same_key pk recs k") (auto simp: le_Suc_eq)
qed

text \<open>A row that has one partner: no key of its own repeated on either side.\<close>

definition partner :: "string list \<Rightarrow> row_map list \<Rightarrow> row_map list \<Rightarrow> nat \<Rightarrow> nat \<Rightarrow> bool" where
  "partner pk L R i j \<longleftrightarrow> (let k = key_of (L ! i) pk in same_key pk L k = [i] \<and> same_key pk R k = [j])"

lemma partner_bounds:
  assumes "partner pk L R i j"
  shows "i < length L \<and> j < length R \<and> key_of (R ! j) pk = key_of (L ! i) pk"
proof -
  from assms have "i \<in> set (same_key pk L (key_of (L ! i) pk))" "j \<in> set (same_key pk R (key_of (L ! i) pk))"
    by (simp_all add: partner_def Let_def)
  then show ?thesis by (simp add: same_key_mem)
qed

lemma partner_sym: "partner pk L R i j \<Longrightarrow> partner pk R L j i"
  using partner_bounds [of pk L R i j] by (simp add: partner_def Let_def)

lemma partner_comm: "partner pk L R i j \<longleftrightarrow> partner pk R L j i"
  using partner_sym by blast

lemma partner_unique: "partner pk L R i j \<Longrightarrow> partner pk L R i j' \<Longrightarrow> j = j'"
  by (simp add: partner_def Let_def)

lemma left_outcome_eq:
  assumes "i < length L"
  shows "left_outcome cols pk L R i =
    (if \<exists>j. partner pk L R i j then pair_rows cols L R i (THE j. partner pk L R i j)
     else if length (same_key pk L (key_of (L ! i) pk)) > 1 \<or> length (same_key pk R (key_of (L ! i) pk)) > 1
       then Some (unpaired Duplicate (Some i) None) else Some (unpaired Removed (Some i) None))"
proof (cases "length (same_key pk L (key_of (L ! i) pk)) > 1 \<or> length (same_key pk R (key_of (L ! i) pk)) > 1")
  case True
  then have "\<not> partner pk L R i j" for j by (auto simp: partner_def Let_def)
  with True show ?thesis by (simp add: left_outcome_def Let_def dup_key_def group_size_key)
next
  case False
  then have one: "same_key pk L (key_of (L ! i) pk) = [i]" using assms by (intro one_of_key) auto
  show ?thesis
  proof (cases "same_key pk R (key_of (L ! i) pk)")
    case Nil
    then have "\<not> partner pk L R i j" for j by (simp add: partner_def Let_def)
    with Nil False show ?thesis
      by (simp add: left_outcome_def Let_def dup_key_def group_size_key map_of_key_groups)
  next
    case (Cons j js)
    with False have js: "same_key pk R (key_of (L ! i) pk) = [j]" by simp
    with one have p: "partner pk L R i j" by (simp add: partner_def Let_def)
    then have "(THE j. partner pk L R i j) = j" using partner_unique by blast
    with p js False show ?thesis
      by (auto simp: left_outcome_def Let_def dup_key_def group_size_key map_of_key_groups)
  qed
qed

lemma right_outcome_None: 
  assumes "j < length R"
  shows "right_outcome pk L R j = None \<longleftrightarrow> (\<exists>i. partner pk L R i j)"
proof -
  let ?k = "key_of (R ! j) pk"
  have "right_outcome pk L R j = None \<longleftrightarrow>
      length (same_key pk L ?k) = 1 \<and> length (same_key pk R ?k) \<le> 1"
    by (cases "same_key pk L ?k")
      (auto simp: right_outcome_def Let_def dup_key_def group_size_key has_key_groups not_less)
  also have "\<dots> \<longleftrightarrow> (\<exists>i. same_key pk L ?k = [i]) \<and> same_key pk R ?k = [j]"
    using one_of_key [of pk R ?k j] assms by (auto simp: length_Suc_conv)
  also have "\<dots> \<longleftrightarrow> (\<exists>i. partner pk L R i j)"
  proof
    assume "(\<exists>i. same_key pk L ?k = [i]) \<and> same_key pk R ?k = [j]"
    then obtain i where i: "same_key pk L ?k = [i]" "same_key pk R ?k = [j]" by blast
    then have "i \<in> set (same_key pk L ?k)" by simp
    then have "key_of (L ! i) pk = ?k" by (simp add: same_key_mem)
    with i show "\<exists>i. partner pk L R i j" by (intro exI [of _ i]) (simp add: partner_def Let_def)
  next
    assume "\<exists>i. partner pk L R i j"
    then obtain i where i: "partner pk L R i j" by blast
    then have "key_of (L ! i) pk = ?k" using partner_bounds by simp
    with i show "(\<exists>i. same_key pk L ?k = [i]) \<and> same_key pk R ?k = [j]" by (simp add: partner_def Let_def)
  qed
  finally show ?thesis .
qed


section \<open>Every loaded row is accounted for\<close>

abbreviation the_partner :: "string list \<Rightarrow> row_map list \<Rightarrow> row_map list \<Rightarrow> nat \<Rightarrow> nat" where
  "the_partner pk L R i \<equiv> (THE j. partner pk L R i j)"

lemma the_partner: "partner pk L R i j \<Longrightarrow> the_partner pk L R i = j"
  using partner_unique by blast

lemma partner_left_unique: "partner pk L R i j \<Longrightarrow> partner pk L R i' j \<Longrightarrow> i = i'"
  using partner_unique [of pk R L j i i'] by (simp add: partner_comm [of pk R L])

definition paired :: "string list \<Rightarrow> row_map list \<Rightarrow> row_map list \<Rightarrow> nat \<Rightarrow> bool" where
  "paired pk L R i \<longleftrightarrow> (\<exists>j. partner pk L R i j)"

lemma paired_count:
  "length (filter (paired pk L R) [0..<length L]) = length (filter (paired pk R L) [0..<length R])"
proof -
  let ?A = "{i. i < length L \<and> paired pk L R i}" and ?B = "{j. j < length R \<and> paired pk R L j}"
  have "bij_betw (the_partner pk L R) ?A ?B"
  proof (rule bij_betw_byWitness [where f' = "the_partner pk R L"])
    show "\<forall>i \<in> ?A. the_partner pk R L (the_partner pk L R i) = i"
      using the_partner partner_sym by (auto simp: paired_def)
    show "\<forall>j \<in> ?B. the_partner pk L R (the_partner pk R L j) = j"
      using the_partner partner_sym by (auto simp: paired_def)
    have "the_partner pk L R ` {i. i < length L \<and> paired pk L R i} \<subseteq> {j. j < length R \<and> paired pk R L j}" for L R
    proof
      fix j assume "j \<in> the_partner pk L R ` {i. i < length L \<and> paired pk L R i}"
      then obtain i where "partner pk L R i j" by (auto simp: paired_def the_partner)
      then show "j \<in> {j. j < length R \<and> paired pk R L j}"
        using partner_bounds partner_sym by (fastforce simp: paired_def)
    qed
    then show "the_partner pk L R ` ?A \<subseteq> ?B" "the_partner pk R L ` ?B \<subseteq> ?A" by blast+
  qed
  then have "card ?A = card ?B" by (rule bij_betw_same_card)
  moreover have "length (filter P [0..<n]) = card {i. i < n \<and> P i}" for P and n :: nat
    by (simp add: distinct_length_filter Int_def conj_commute)
  ultimately show ?thesis by simp
qed

lemma pair_rows_sides: "pair_rows cols L R l r = Some d \<Longrightarrow> dr_left d = Some l \<and> dr_right d = Some r"
  by (auto simp: pair_rows_def Let_def split: if_splits)

lemma left_outcome_sides:
  assumes "i < length L" and "left_outcome cols pk L R i = Some d"
  shows "dr_left d = Some i" "dr_right d = (if paired pk L R i then Some (the_partner pk L R i) else None)"
  using assms pair_rows_sides by (auto simp: left_outcome_eq paired_def unpaired_def split: if_splits)

lemma left_outcome_None: "i < length L \<Longrightarrow> left_outcome cols pk L R i = None \<Longrightarrow> paired pk L R i"
  by (auto simp: left_outcome_eq paired_def split: if_splits)

lemma right_outcome_sides:
  assumes "right_outcome pk L R j = Some d"
  shows "dr_left d = None" "dr_right d = Some j"
  using assms by (auto simp: right_outcome_def Let_def unpaired_def split: if_splits)

lemma right_outcome_paired: "j < length R \<Longrightarrow> right_outcome pk L R j = None \<longleftrightarrow> paired pk R L j"
  by (simp add: right_outcome_None paired_def partner_comm [of pk R L])

text \<open>The rows a list of outcomes gives, by one side.\<close>

lemma side_of_outcomes:
  assumes "\<And>i d. i \<in> set ks \<Longrightarrow> f i = Some d \<Longrightarrow> g d = (if P i then Some (h i) else None)"
  shows "List.map_filter g (List.map_filter (\<lambda>x. x) (map f ks)) = map h (filter (\<lambda>i. f i \<noteq> None \<and> P i) ks)"
  using assms
proof (induction ks)
  case (Cons i ks)
  have ih: "List.map_filter g (List.map_filter (\<lambda>x. x) (map f ks)) = map h (filter (\<lambda>i. f i \<noteq> None \<and> P i) ks)"
    by (rule Cons.IH) (rule Cons.prems, simp_all)
  show ?case
  proof (cases "f i")
    case (Some d)
    then have "g d = (if P i then Some (h i) else None)" using Cons.prems by simp
    with Some ih show ?thesis by (simp add: map_filter_simps)
  qed (use ih in \<open>simp add: map_filter_simps\<close>)
qed (simp add: map_filter_simps)

definition lefts :: "compare_row list \<Rightarrow> nat list" where
  "lefts rows = List.map_filter dr_left rows"

definition rights :: "compare_row list \<Rightarrow> nat list" where
  "rights rows = List.map_filter dr_right rows"

lemma map_filter_append: "List.map_filter f (xs @ ys) = List.map_filter f xs @ List.map_filter f ys"
  by (simp add: map_filter_def)

lemma filter_count: "length (filter P xs) + length (filter (\<lambda>x. \<not> P x) xs) = length xs"
  by (rule sum_length_filter_compl)

lemma count_none_map: "count_none (map f xs) = length (filter (\<lambda>x. f x = None) xs)"
  by (simp add: count_none_def filter_map comp_def)

lemma key_rows_accounted:
  assumes "compare_records cols (ByKey pk) L R = (rows, same, dups)"
  shows "distinct (lefts rows) \<and> length (lefts rows) + same = length L"
    and "distinct (rights rows) \<and> length (rights rows) + same = length R"
proof -
  let ?lo = "left_outcome cols pk L R" and ?ro = "right_outcome pk L R"
  let ?ls = "List.map_filter (\<lambda>x. x) (map ?lo [0..<length L])"
  let ?rs = "List.map_filter (\<lambda>x. x) (map ?ro [0..<length R])"
  have rows: "rows = ?ls @ ?rs" and same: "same = length (filter (\<lambda>i. ?lo i = None) [0..<length L])"
    using assms by (auto simp: compare_records_def Let_def count_none_map)
  have "List.map_filter dr_left ?ls = map (\<lambda>i. i) (filter (\<lambda>i. ?lo i \<noteq> None \<and> True) [0..<length L])"
    by (rule side_of_outcomes) (simp add: left_outcome_sides)
  moreover have "List.map_filter dr_left ?rs = map (\<lambda>i. i) (filter (\<lambda>i. ?ro i \<noteq> None \<and> False) [0..<length R])"
    by (rule side_of_outcomes) (simp add: right_outcome_sides)
  ultimately have "lefts rows = filter (\<lambda>i. ?lo i \<noteq> None) [0..<length L]"
    by (simp add: lefts_def rows map_filter_append)
  then show "distinct (lefts rows) \<and> length (lefts rows) + same = length L"
    using filter_count [of "\<lambda>i. ?lo i = None" "[0..<length L]"] by (simp add: same)
  let ?changed = "filter (\<lambda>i. ?lo i \<noteq> None \<and> paired pk L R i) [0..<length L]"
  let ?alone = "filter (\<lambda>j. \<not> paired pk R L j) [0..<length R]"
  have "List.map_filter dr_right ?ls = map (the_partner pk L R) ?changed"
    by (rule side_of_outcomes) (simp add: left_outcome_sides)
  moreover have "List.map_filter dr_right ?rs = map (\<lambda>j. j) (filter (\<lambda>j. ?ro j \<noteq> None \<and> True) [0..<length R])"
    by (rule side_of_outcomes) (simp add: right_outcome_sides)
  moreover have "filter (\<lambda>j. ?ro j \<noteq> None \<and> True) [0..<length R] = ?alone"
    by (intro filter_cong) (auto simp: right_outcome_paired)
  ultimately have rights: "rights rows = map (the_partner pk L R) ?changed @ ?alone"
    by (simp add: rights_def rows map_filter_append)
  have "distinct (map (the_partner pk L R) ?changed)"
    using partner_left_unique by (fastforce simp: distinct_map inj_on_def paired_def the_partner)
  moreover have "paired pk R L (the_partner pk L R i)" if p: "paired pk L R i" for i
  proof -
    from p obtain j where j: "partner pk L R i j" by (auto simp: paired_def)
    with partner_sym [OF j] show ?thesis by (auto simp: paired_def the_partner)
  qed
  ultimately have "distinct (rights rows)" by (auto simp: rights)
  moreover have "length ?changed + same = length (filter (paired pk L R) [0..<length L])"
  proof -
    have "filter (\<lambda>i. ?lo i = None) [0..<length L] = filter (\<lambda>i. ?lo i = None \<and> paired pk L R i) [0..<length L]"
      by (intro filter_cong) (auto dest: left_outcome_None)
    then show ?thesis
      using filter_count [of "\<lambda>i. ?lo i = None" "filter (paired pk L R) [0..<length L]"]
      by (simp add: same conj_commute)
  qed
  ultimately show "distinct (rights rows) \<and> length (rights rows) + same = length R"
    using filter_count [of "paired pk R L" "[0..<length R]"] by (simp add: rights paired_count)
qed


lemma position_outcome_sides:
  assumes "position_outcome cols L R i = Some d" and "i < max (length L) (length R)"
  shows "dr_left d = (if i < length L then Some i else None)" "dr_right d = (if i < length R then Some i else None)"
  using assms pair_rows_sides by (fastforce simp: position_outcome_def unpaired_def split: if_splits)+

lemma position_outcome_None: "position_outcome cols L R i = None \<Longrightarrow> i < length L \<and> i < length R"
  by (auto simp: position_outcome_def split: if_splits)

lemma filter_below: "n \<le> m \<Longrightarrow> length (filter (\<lambda>i. i < n) [0..<m]) = n"
proof (induction m)
  case (Suc m)
  then show ?case by (cases "n = Suc m") (auto intro: filter_True)
qed simp

lemma position_rows_accounted:
  assumes "compare_records cols ByPosition L R = (rows, same, dups)"
  shows "distinct (lefts rows) \<and> length (lefts rows) + same = length L"
    and "distinct (rights rows) \<and> length (rights rows) + same = length R"
proof -
  let ?po = "position_outcome cols L R" and ?is = "[0..<max (length L) (length R)]"
  have rows: "rows = List.map_filter (\<lambda>x. x) (map ?po ?is)" and same: "same = length (filter (\<lambda>i. ?po i = None) ?is)"
    using assms by (auto simp: compare_records_def Let_def count_none_map)
  have count: "length (filter (\<lambda>i. ?po i \<noteq> None \<and> i < n) ?is) + same = n"
    if "n = length L \<or> n = length R" for n
  proof -
    have "filter (\<lambda>i. ?po i = None) ?is = filter (\<lambda>i. ?po i = None) (filter (\<lambda>i. i < n) ?is)"
      using that position_outcome_None by (auto simp: filter_filter intro!: filter_cong)
    then show ?thesis
      using filter_count [of "\<lambda>i. ?po i = None" "filter (\<lambda>i. i < n) ?is"] that filter_below [of n "max (length L) (length R)"]
      by (auto simp: same conj_commute)
  qed
  have "lefts rows = map (\<lambda>i. i) (filter (\<lambda>i. ?po i \<noteq> None \<and> i < length L) ?is)"
    unfolding lefts_def rows by (rule side_of_outcomes) (simp add: position_outcome_sides)
  then show "distinct (lefts rows) \<and> length (lefts rows) + same = length L"
    using count [of "length L"] by simp
  have "rights rows = map (\<lambda>i. i) (filter (\<lambda>i. ?po i \<noteq> None \<and> i < length R) ?is)"
    unfolding rights_def rows by (rule side_of_outcomes) (simp add: position_outcome_sides)
  then show "distinct (rights rows) \<and> length (rights rows) + same = length R"
    using count [of "length R"] by simp
qed

section \<open>Nothing to report\<close>

lemma distinct_keys_iff:
  "distinct (map (\<lambda>r. key_of r pk) recs) \<longleftrightarrow> (\<forall>i < length recs. same_key pk recs (key_of (recs ! i) pk) = [i])"
proof
  assume d: "distinct (map (\<lambda>r. key_of r pk) recs)"
  show "\<forall>i < length recs. same_key pk recs (key_of (recs ! i) pk) = [i]"
  proof (intro allI impI)
    fix i assume i: "i < length recs"
    have "filter (\<lambda>j. key_of (recs ! j) pk = key_of (recs ! i) pk) [0..<length recs] = filter (\<lambda>j. j = i) [0..<length recs]"
      using d i by (intro filter_cong) (auto simp: distinct_conv_nth)
    also have "\<dots> = [i]" using i
    proof (induction recs rule: rev_induct)
      case (snoc r recs)
      then show ?case by (cases "i = length recs") (auto simp: filter_empty_conv)
    qed simp
    finally show "same_key pk recs (key_of (recs ! i) pk) = [i]" by (simp add: same_key_def)
  qed
next
  assume one: "\<forall>i < length recs. same_key pk recs (key_of (recs ! i) pk) = [i]"
  show "distinct (map (\<lambda>r. key_of r pk) recs)"
  proof (intro distinct_conv_nth [THEN iffD2] allI impI)
    fix i j assume "i < length (map (\<lambda>r. key_of r pk) recs)" "j < length (map (\<lambda>r. key_of r pk) recs)" "i \<noteq> j"
    with one show "map (\<lambda>r. key_of r pk) recs ! i \<noteq> map (\<lambda>r. key_of r pk) recs ! j"
      by (metis length_map list.inject nth_map)
  qed
qed

lemma map_filter_Nil: "List.map_filter (\<lambda>x. x) xs = [] \<longleftrightarrow> (\<forall>x \<in> set xs. x = None)"
  by (induction xs) (auto simp: map_filter_simps split: option.split)

lemma compared_row_eq:
  assumes "\<forall>c \<in> set cols. map_of (compared_row cols kind idx a) c = map_of (compared_row cols kind idx' b) c"
  shows "compared_row cols kind idx a = compared_row cols kind idx' b"
proof -
  have "map_of (compared_row cols kind ix row) c = Some (normalize_value (cell_at row (index_of_col ix c)) (kind c))"
    if "c \<in> set cols" for ix row c
    using that by (simp add: compared_row_def)
  with assms show ?thesis by (auto simp: compared_row_def intro!: arg_cong [where f = obj_of])
qed


text \<open>No difference between two rows is found exactly when their records are the same.\<close>

lemma pair_rows_None:
  assumes "L ! i = compared_row cols kind idx a" and "R ! j = compared_row cols kind idx' b"
  shows "pair_rows cols L R i j = None \<longleftrightarrow> L ! i = R ! j"
proof
  assume "pair_rows cols L R i j = None"
  then have "\<forall>c \<in> set cols. map_of (L ! i) c = map_of (R ! j) c"
    by (auto simp: pair_rows_def Let_def filter_empty_conv split: if_splits)
  then show "L ! i = R ! j" unfolding assms by (rule compared_row_eq)
qed (simp add: pair_rows_def)

lemma distinct_keys_distinct: "distinct (map f xs) \<Longrightarrow> distinct xs"
  by (simp add: distinct_map)

lemma key_rows_Nil:
  assumes pairs: "\<And>i j. i < length L \<Longrightarrow> j < length R \<Longrightarrow> pair_rows cols L R i j = None \<longleftrightarrow> L ! i = R ! j"
  shows "fst (compare_records cols (ByKey pk) L R) = [] \<longleftrightarrow>
    distinct (map (\<lambda>r. key_of r pk) L) \<and> mset L = mset R" (is "?none \<longleftrightarrow> ?same")
proof -
  have none: "?none \<longleftrightarrow> (\<forall>i < length L. left_outcome cols pk L R i = None) \<and> (\<forall>j < length R. paired pk R L j)"
    by (auto simp: compare_records_def Let_def map_filter_Nil right_outcome_paired)
  have left: "left_outcome cols pk L R i = None \<longleftrightarrow> (\<exists>j. partner pk L R i j \<and> L ! i = R ! j)" if "i < length L" for i
  proof (cases "\<exists>j. partner pk L R i j")
    case True
    then obtain j where j: "partner pk L R i j" by blast
    then have "left_outcome cols pk L R i = pair_rows cols L R i j"
      using that by (auto simp: left_outcome_eq the_partner)
    with pairs [OF that] partner_bounds [OF j] j partner_unique [OF j] show ?thesis by metis
  qed (use that in \<open>simp add: left_outcome_eq\<close>)
  show ?thesis
  proof
    assume ?none
    then have l: "\<exists>j. partner pk L R i j \<and> L ! i = R ! j" if "i < length L" for i using that none left by blast
    from \<open>?none\<close> have r: "\<exists>i. partner pk R L j i" if "j < length R" for j using that none by (auto simp: paired_def)
    have dL: "distinct (map (\<lambda>r. key_of r pk) L)" and dR: "distinct (map (\<lambda>r. key_of r pk) R)"
      unfolding distinct_keys_iff using l r by (fastforce simp: partner_def Let_def)+
    have "set L = set R"
    proof (intro equalityI subsetI)
      fix x assume "x \<in> set L"
      then obtain i where "i < length L" "x = L ! i" by (auto simp: in_set_conv_nth)
      with l partner_bounds show "x \<in> set R" by (metis nth_mem)
    next
      fix x assume "x \<in> set R"
      then obtain j where j: "j < length R" "x = R ! j" by (auto simp: in_set_conv_nth)
      then obtain i where i: "partner pk L R i j" using r partner_comm by metis
      then have "i < length L" using partner_bounds by blast
      with l i partner_unique j show "x \<in> set L" by (metis nth_mem)
    qed
    with dL dR show ?same using set_eq_iff_mset_eq_distinct distinct_keys_distinct by blast
  next
    assume same: ?same
    then have dR: "distinct (map (\<lambda>r. key_of r pk) R)" by (metis mset_eq_imp_distinct_iff mset_map)
    have partner: "partner pk L R i j" if "i < length L" "j < length R" "L ! i = R ! j" for i j
    proof -
      have "same_key pk L (key_of (L ! i) pk) = [i]" "same_key pk R (key_of (R ! j) pk) = [j]"
        using that(1,2) same dR unfolding distinct_keys_iff by blast+
      with that(3) show ?thesis by (simp add: partner_def Let_def)
    qed
    have "set L = set R" using same by (metis set_mset_mset)
    have "left_outcome cols pk L R i = None" if i: "i < length L" for i
    proof -
      from i \<open>set L = set R\<close> obtain j where "j < length R" "L ! i = R ! j" by (metis in_set_conv_nth nth_mem)
      with partner i left show ?thesis by blast
    qed
    moreover have "paired pk R L j" if j: "j < length R" for j
    proof -
      from j \<open>set L = set R\<close> obtain i where "i < length L" "L ! i = R ! j" by (metis in_set_conv_nth nth_mem)
      with partner j have "partner pk R L j i" by (simp only: partner_comm [of pk R L])
      then show ?thesis by (auto simp: paired_def)
    qed
    ultimately show ?none unfolding none by blast
  qed
qed

section \<open>Properties\<close>

text \<open>C23. A comparison with every key column present accounts for every loaded row of both sides once:
  no row is reported twice, and the rows reported and the equal pairs make up each side.\<close>

theorem compare_accounts_rows:
  assumes "missing_key l r by = []" and "c = compare_results l r by"
  shows "distinct (lefts (rc_rows c)) \<and> length (lefts (rc_rows c)) + rc_same c = length (rs_rows l) \<and>
    distinct (rights (rc_rows c)) \<and> length (rights (rc_rows c)) + rc_same c = length (rs_rows r)"
proof -
  obtain rows same dups where out: "compare_records (shared_columns l r) by (compared_rows l r l) (compared_rows l r r)
      = (rows, same, dups)" by (metis prod_cases3)
  moreover have "length (compared_rows l r s) = length (rs_rows s)" for s by (simp add: compared_rows_def)
  ultimately show ?thesis
    using assms key_rows_accounted position_rows_accounted
    by (cases "by") (fastforce simp: compare_results_def Let_def)+
qed

definition sample_result :: "(string \<times> string) list \<Rightarrow> result_set" where
  "sample_result rows = \<lparr>rs_columns = [\<lparr>col_name = ''id'', col_type = ''int''\<rparr>, \<lparr>col_name = ''v'', col_type = ''text''\<rparr>],
     rs_rows = map (\<lambda>(a, b). [Some a, Some b]) rows, rs_truncated = False, rs_cursor = False, rs_affected = 0\<rparr>"

lemma compare_accounts_rows_witness:
  "length (rights (rc_rows (compare_results (sample_result [(''1'', ''a''), (''2'', ''b'')])
       (sample_result [(''01'', ''a''), (''3'', ''c'')]) (ByKey [''id''])))) +
   rc_same (compare_results (sample_result [(''1'', ''a''), (''2'', ''b'')])
       (sample_result [(''01'', ''a''), (''3'', ''c'')]) (ByKey [''id''])) = 2"
  using compare_accounts_rows [of "sample_result [(''1'', ''a''), (''2'', ''b'')]"
      "sample_result [(''01'', ''a''), (''3'', ''c'')]" "ByKey [''id'']", OF _ refl]
  by (simp add: sample_result_def missing_key_def column_index_def has_key_def index_list_def map_set_def)

text \<open>A comparison by key reports nothing exactly when, as compared, both sides hold the same rows and
  no key is repeated: row order plays no part, and a repeated key is never passed over.\<close>

theorem compare_reports_nothing:
  assumes "missing_key l r (ByKey pk) = []"
  shows "rc_rows (compare_results l r (ByKey pk)) = [] \<longleftrightarrow>
    distinct (map (\<lambda>row. key_of row pk) (compared_rows l r l)) \<and>
    mset (compared_rows l r l) = mset (compared_rows l r r)"
proof -
  have "pair_rows (shared_columns l r) (compared_rows l r l) (compared_rows l r r) i j = None \<longleftrightarrow>
      compared_rows l r l ! i = compared_rows l r r ! j"
    if "i < length (compared_rows l r l)" "j < length (compared_rows l r r)" for i j
    by (rule pair_rows_None) (use that in \<open>simp_all add: compared_rows_def\<close>)
  from key_rows_Nil [OF this] show ?thesis using assms by (simp add: compare_results_def Let_def)
qed

lemma compare_reports_nothing_witness:
  "rc_rows (compare_results (sample_result []) (sample_result []) (ByKey [''id''])) = []"
  by (subst compare_reports_nothing)
    (simp_all add: sample_result_def missing_key_def column_index_def has_key_def index_list_def map_set_def
      compared_rows_def)

end
