(* ===== verification/Importers.thy ===== *)
theory Importers
  imports EditApply Connections LineDiff
begin

text \<open>
  Importing a file into a table (\<open>importers.ts\<close>): the CSV and JSON readers, the sniffing of a
  delimited file's dialect, the mapping of columns, and the import run inside one transaction.
  An element of a JSON array that is not an object gives a row of NULLs.
  Files arrive decoded; the choice of the encoding works on bytes and is not modelled.
\<close>

section \<open>CSV\<close>

record parsed_table =
  pt_headers :: "string list"
  pt_rows :: "cell list list"

record csv_state =
  cs_records :: "string list list"
  cs_row :: "string list"
  cs_field :: string
  cs_quotes :: bool
  cs_started :: bool

definition csv_start :: csv_state where
  "csv_start = \<lparr>cs_records = [], cs_row = [], cs_field = [], cs_quotes = False, cs_started = False\<rparr>"

definition end_field :: "csv_state \<Rightarrow> csv_state" where
  "end_field s = s\<lparr>cs_row := cs_row s @ [cs_field s], cs_field := []\<rparr>"

definition end_record :: "csv_state \<Rightarrow> csv_state" where
  "end_record s = (let s' = end_field s in
     s'\<lparr>cs_records := cs_records s' @ [cs_row s'], cs_row := [], cs_started := False\<rparr>)"

definition add_char :: "char \<Rightarrow> csv_state \<Rightarrow> csv_state" where
  "add_char c s = s\<lparr>cs_field := cs_field s @ [c]\<rparr>"

function csv_scan :: "char \<Rightarrow> char \<Rightarrow> csv_state \<Rightarrow> string \<Rightarrow> csv_state" where
  "csv_scan d q s [] = s"
| "csv_scan d q s (c # r) =
     (let s1 = s\<lparr>cs_started := cs_started s \<or> c \<noteq> CR\<rparr> in
      if cs_quotes s1 then
        (if c = q then
           (if starts_with [q] r then csv_scan d q (add_char q s1) (tl r)
            else csv_scan d q (s1\<lparr>cs_quotes := False\<rparr>) r)
         else csv_scan d q (add_char c s1) r)
      else if c = q then csv_scan d q (s1\<lparr>cs_quotes := True\<rparr>) r
      else if c = d then csv_scan d q (end_field s1) r
      else if c = NL then csv_scan d q (end_record s1) r
      else if c = CR then csv_scan d q s1 r
      else csv_scan d q (add_char c s1) r)"
  by pat_completeness auto
termination by (relation "measure (\<lambda>(d, q, s, r). length r)") auto

declare csv_scan.simps(2) [simp del]

text \<open>The records of the text; a last record that was begun is closed.\<close>

definition csv_records :: "char \<Rightarrow> char \<Rightarrow> string \<Rightarrow> string list list" where
  "csv_records d q text =
     (let s = csv_scan d q csv_start text;
          s' = (if cs_started s \<or> cs_field s \<noteq> [] \<or> cs_row s \<noteq> [] then end_record s else s)
      in cs_records s')"

definition positional_headers :: "nat \<Rightarrow> string list" where
  "positional_headers n = map (\<lambda>i. ''#'' @ show_nat (i + 1)) [0..<n]"

definition cells_of :: "string list list \<Rightarrow> cell list list" where
  "cells_of rows = map (map Some) rows"

definition parse_csv :: "string \<Rightarrow> char \<Rightarrow> char \<Rightarrow> bool \<Rightarrow> parsed_table" where
  "parse_csv text d q header =
     (case csv_records d q text of
        [] \<Rightarrow> \<lparr>pt_headers = [], pt_rows = []\<rparr>
      | h # rows \<Rightarrow>
          if \<not> header
          then \<lparr>pt_headers = positional_headers (Max (length ` set (h # rows))), pt_rows = cells_of (h # rows)\<rparr>
          else \<lparr>pt_headers = h, pt_rows = cells_of rows\<rparr>)"

section \<open>JSON\<close>

text \<open>\<open>Object.keys\<close> of the array's objects, in first-seen order.\<close>

definition json_headers :: "json list \<Rightarrow> string list" where
  "json_headers items =
     fold (\<lambda>j hs. case j of
        JObj ob \<Rightarrow> fold (\<lambda>k hs. if k \<in> set hs then hs else hs @ [k]) (obj_keys ob) hs
      | _ \<Rightarrow> hs) items []"

definition json_cell :: "json option \<Rightarrow> cell" where
  "json_cell v = (case v of None \<Rightarrow> None | Some JNull \<Rightarrow> None | Some j \<Rightarrow> Some (json_text j))"

definition parse_json :: "json \<Rightarrow> (js_error, parsed_table) result" where
  "parse_json data =
     (case data of
        JArr items \<Rightarrow> let headers = json_headers items in
          Inr \<lparr>pt_headers = headers,
               pt_rows = map (\<lambda>j. map (\<lambda>h. json_cell (json_field j h)) headers) items\<rparr>
      | _ \<Rightarrow> Inl (OtherError ''El JSON debe ser un arreglo de objetos.''))"

section \<open>The dialect of a delimited file\<close>

definition DELIMITERS :: "char list" where
  "DELIMITERS = [CHR '','', CHR '';'', CHR 0x09, CHR ''|'']"

text \<open>\<open>split(/\r?\n/)\<close> is \<open>split_lines\<close> of the line diff.\<close>

definition sample_lines :: "string \<Rightarrow> nat \<Rightarrow> string list" where
  "sample_lines text n = filter (\<lambda>l. trim l \<noteq> []) (take n (take (n + 1) (split_lines text)))"

fun count_outside :: "bool \<Rightarrow> string \<Rightarrow> char \<Rightarrow> nat" where
  "count_outside quoted [] ch = 0"
| "count_outside quoted (c # s) ch =
     (if c = CHR 0x22 then count_outside (\<not> quoted) s ch
      else if c = ch \<and> \<not> quoted then Suc (count_outside quoted s ch) else count_outside quoted s ch)"

definition count_outside_quotes :: "string \<Rightarrow> char \<Rightarrow> nat" where
  "count_outside_quotes line ch = count_outside False line ch"

fun best_delimiter :: "(char \<Rightarrow> nat option) \<Rightarrow> char option \<times> nat \<Rightarrow> char list \<Rightarrow> char option \<times> nat" where
  "best_delimiter score b [] = b"
| "best_delimiter score b (d # ds) =
     best_delimiter score (case score d of Some n \<Rightarrow> if n > snd b then (Some d, n) else b | None \<Rightarrow> b) ds"

definition even_score :: "string list \<Rightarrow> char \<Rightarrow> nat option" where
  "even_score lines d =
     (let counts = map (\<lambda>l. count_outside_quotes l d) lines in
      if list_all (\<lambda>n. n = hd counts) counts then Some (hd counts) else None)"

definition detect_delimiter :: "string \<Rightarrow> char" where
  "detect_delimiter text =
     (let lines = sample_lines text 20 in
      if lines = [] then CHR '',''
      else let (best, n) = best_delimiter (even_score lines) (None, 0) DELIMITERS in
        case best of Some d \<Rightarrow> d
        | None \<Rightarrow> default CHR '','' (fst (best_delimiter
             (\<lambda>d. Some (count_outside_quotes (hd lines) d)) (None, n) DELIMITERS)))"

text \<open>The pattern \<open>(^|delimiter)'\<close> with the m flag: at the start of a line or after a delimiter.\<close>

definition APOS :: char where "APOS = CHR 0x27"

definition detect_quote :: "string \<Rightarrow> char \<Rightarrow> char" where
  "detect_quote text d =
     (let sample = join [NL] (sample_lines text 20) in
      if contains sample [CHR 0x22] then CHR 0x22
      else if starts_with [APOS] sample \<or> contains sample [NL, APOS] \<or> contains sample [CR, APOS] \<or>
              contains sample [d, APOS] then APOS else CHR 0x22)"

definition LOOKS_LIKE_DATA :: re where
  "LOOKS_LIKE_DATA = alts [
     seqs [Bol, star spc, Eol],
     seqs [Bol, opt (Cls (\<lambda>c. c = CHR ''+'' \<or> c = CHR ''-'')), plus (Cls is_digit),
       opt (Seq (Cls (\<lambda>c. c = CHR ''.'' \<or> c = CHR '','')) (plus (Cls is_digit))), Eol],
     seqs [Bol, Rep 4 (Some 4) True (Cls is_digit), one CHR ''-'', Rep 2 (Some 2) True (Cls is_digit),
       one CHR ''-'', Rep 2 (Some 2) True (Cls is_digit)],
     seqs [Bol, Rep 1 (Some 2) True (Cls is_digit), one CHR ''/'', Rep 1 (Some 2) True (Cls is_digit),
       one CHR ''/'', Rep 2 (Some 4) True (Cls is_digit), Eol]]"

definition detect_header :: "cell list \<Rightarrow> bool" where
  "detect_header first \<longleftrightarrow> first \<noteq> [] \<and>
     list_all (\<lambda>c. case c of None \<Rightarrow> False | Some v \<Rightarrow> \<not> re_test LOOKS_LIKE_DATA v) first"

record csv_dialect =
  cd_delimiter :: char
  cd_quote :: char
  cd_header :: bool

definition detect_dialect :: "string \<Rightarrow> csv_dialect" where
  "detect_dialect text =
     (let d = detect_delimiter text; q = detect_quote text d;
          rows = pt_rows (parse_csv (join [NL] (sample_lines text 1)) d q False)
      in \<lparr>cd_delimiter = d, cd_quote = q, cd_header = detect_header (case rows of [] \<Rightarrow> [] | r # _ \<Rightarrow> r)\<rparr>)"

text \<open>\<open>json\<close> is \<open>JSON.parse\<close>, \<open>None\<close> when it throws.\<close>

definition parse_file ::
    "(string \<Rightarrow> json option) \<Rightarrow> string \<Rightarrow> string \<Rightarrow> (js_error, parsed_table) result" where
  "parse_file json name text =
     (let lower = to_lower name;
          as_json = (case json text of None \<Rightarrow> Inl (OtherError ''SyntaxError'') | Some j \<Rightarrow> parse_json j) in
      if ends_with ''.json'' lower then as_json
      else if \<not> ends_with ''.csv'' lower \<and> starts_with ''['' (trim_start text) then as_json
      else let d = detect_dialect text in Inr (parse_csv text (cd_delimiter d) (cd_quote d) (cd_header d)))"

definition parse_clipboard :: "string \<Rightarrow> parsed_table" where
  "parse_clipboard text =
     (let header = hd (split_lines text) in
      parse_csv text (if contains header [CHR 0x09] then CHR 0x09 else detect_delimiter text) CHR 0x22 True)"

definition empty_as_null :: "parsed_table \<Rightarrow> parsed_table" where
  "empty_as_null t = t\<lparr>pt_rows := map (map (\<lambda>c. if c = Some [] then None else c)) (pt_rows t)\<rparr>"

section \<open>Mapping the columns\<close>

type_synonym column_mapping = "string option obj"

definition auto_map :: "string list \<Rightarrow> string list \<Rightarrow> column_mapping" where
  "auto_map headers targets =
     obj_of (map (\<lambda>col. (col, List.find (\<lambda>h. to_lower h = to_lower col) headers)) targets)"

definition row_value :: "string list \<Rightarrow> cell list \<Rightarrow> string \<Rightarrow> cell" where
  "row_value headers row source =
     (case find_index (\<lambda>h. h = source) headers of None \<Rightarrow> None | Some i \<Rightarrow> cell_at row i)"

definition build_row_values :: "column_mapping \<Rightarrow> string list \<Rightarrow> cell list \<Rightarrow> cells" where
  "build_row_values m headers row =
     fold (\<lambda>(target, source) vs. case source of None \<Rightarrow> vs
        | Some h \<Rightarrow> obj_set target (row_value headers row h) vs) m []"

definition has_mapping :: "column_mapping \<Rightarrow> bool" where
  "has_mapping m \<longleftrightarrow> list_ex (\<lambda>(k, v). v \<noteq> None) m"

definition assigned_count :: "column_mapping \<Rightarrow> nat" where
  "assigned_count m = length (filter (\<lambda>(k, v). v \<noteq> None) m)"


record target_column =
  tc_name :: string
  tc_type :: string
  tc_auto :: bool

definition AUTO_TYPE :: re where
  "AUTO_TYPE = alts [liti ''serial'', liti ''identity'', seqs [liti ''auto'', opt (one CHR ''_''), liti ''increment'']]"

definition AUTO_DEFAULT :: re where
  "AUTO_DEFAULT = alts [liti ''nextval('', liti ''identity'', seqs [liti ''auto'', opt (one CHR ''_''), liti ''increment'']]"

definition desc_cell :: "cell list \<Rightarrow> nat option \<Rightarrow> string" where
  "desc_cell r i = (case i of None \<Rightarrow> [] | Some k \<Rightarrow> default [] (cell_at r k))"

definition target_columns :: "result_set \<Rightarrow> string option \<Rightarrow> target_column list" where
  "target_columns desc engine =
     (let idx = (\<lambda>n. find_index (\<lambda>c. col_name c = n) (rs_columns desc)) in
      case idx ''name'' of None \<Rightarrow> []
      | Some ni \<Rightarrow>
          let ti = idx ''type''; pi = idx ''pk'';
              di = (if idx ''dflt_value'' \<noteq> None then idx ''dflt_value'' else idx ''default'');
              ei = idx ''extra'';
              is_pk = (\<lambda>r. pi \<noteq> None \<and> desc_cell r pi \<notin> {[], ''0''});
              pks = length (filter is_pk (rs_rows desc))
          in map (\<lambda>r. let ty = desc_cell r ti in
               \<lparr>tc_name = desc_cell r (Some ni), tc_type = ty,
                tc_auto = re_test AUTO_TYPE (ty @ '' '' @ desc_cell r ei) \<or> re_test AUTO_DEFAULT (desc_cell r di) \<or>
                  (engine = Some ''sqlite'' \<and> is_pk r \<and> pks = 1 \<and> to_lower (trim ty) = ''integer'')\<rparr>)
             (filter (\<lambda>r. desc_cell r (Some ni) \<noteq> []) (rs_rows desc)))"

text \<open>\<open>normalize("NFD")\<close> without its combining marks: the letters of Latin-1 that decompose.\<close>

definition base_letter :: "char \<Rightarrow> char" where
  "base_letter c =
     (let n = code c in
      if 0xC0 \<le> n \<and> n \<le> 0xC5 then CHR ''A'' else if n = 0xC7 then CHR ''C''
      else if 0xC8 \<le> n \<and> n \<le> 0xCB then CHR ''E'' else if 0xCC \<le> n \<and> n \<le> 0xCF then CHR ''I''
      else if n = 0xD1 then CHR ''N'' else if 0xD2 \<le> n \<and> n \<le> 0xD6 then CHR ''O''
      else if 0xD9 \<le> n \<and> n \<le> 0xDC then CHR ''U'' else if n = 0xDD then CHR ''Y''
      else if 0xE0 \<le> n \<and> n \<le> 0xE5 then CHR ''a'' else if n = 0xE7 then CHR ''c''
      else if 0xE8 \<le> n \<and> n \<le> 0xEB then CHR ''e'' else if 0xEC \<le> n \<and> n \<le> 0xEF then CHR ''i''
      else if n = 0xF1 then CHR ''n'' else if 0xF2 \<le> n \<and> n \<le> 0xF6 then CHR ''o''
      else if 0xF9 \<le> n \<and> n \<le> 0xFC then CHR ''u'' else if n = 0xFD \<or> n = 0xFF then CHR ''y''
      else c)"

definition name_key :: "string \<Rightarrow> string" where
  "name_key s = filter (\<lambda>c. is_lower_az c \<or> is_digit c) (to_lower (map base_letter s))"

definition map_by_name :: "string list \<Rightarrow> target_column list \<Rightarrow> bool \<Rightarrow> column_mapping" where
  "map_by_name headers targets skip_auto =
     obj_of (map (\<lambda>col. (tc_name col,
        if tc_auto col \<and> skip_auto then None
        else List.find (\<lambda>h. name_key h = name_key (tc_name col)) headers)) targets)"

section \<open>How a value will read\<close>

datatype type_family = IntType | NumType | BoolType | DateType | DatetimeType | TimeType | TextType

definition type_family_of :: "string \<Rightarrow> type_family" where
  "type_family_of ty =
     (let t = to_lower ty; has = (\<lambda>ws. list_ex (contains t) ws) in
      if has [''bool''] \<or> t = ''bit'' \<or> t = ''bit(1)'' then BoolType
      else if has [''int'', ''serial''] then IntType
      else if has [''float'', ''double'', ''decimal'', ''numeric'', ''real'', ''money'', ''number''] then NumType
      else if has [''timestamp'', ''datetime''] then DatetimeType
      else if has [''date''] then DateType
      else if has [''time''] then TimeType else TextType)"

definition leap_year :: "nat \<Rightarrow> bool" where
  "leap_year y \<longleftrightarrow> (y mod 4 = 0 \<and> y mod 100 \<noteq> 0) \<or> y mod 400 = 0"

definition month_days :: "nat \<Rightarrow> nat \<Rightarrow> nat" where
  "month_days y m = (if m = 2 then (if leap_year y then 29 else 28) else if m \<in> {4, 6, 9, 11} then 30 else 31)"

text \<open>\<open>Date.UTC\<close> reads the years 0 to 99 as 1900 to 1999, so those never read back.\<close>

definition real_date :: "nat \<Rightarrow> nat \<Rightarrow> nat \<Rightarrow> bool" where
  "real_date y m d \<longleftrightarrow> 100 \<le> y \<and> 1 \<le> m \<and> m \<le> 12 \<and> 1 \<le> d \<and> d \<le> month_days y m"

definition ISO_DATE :: re where
  "ISO_DATE = seqs [Bol, Grp 1 (Rep 4 (Some 4) True (Cls is_digit)), one CHR ''-'',
     Grp 2 (Rep 2 (Some 2) True (Cls is_digit)), one CHR ''-'', Grp 3 (Rep 2 (Some 2) True (Cls is_digit)),
     opt (Seq (Cls (\<lambda>c. c = CHR '' '' \<or> c = CHR ''T'')) (star dot)), Eol]"

definition valid_iso_date :: "string \<Rightarrow> bool" where
  "valid_iso_date v =
     (case (re_group ISO_DATE v 1, re_group ISO_DATE v 2, re_group ISO_DATE v 3) of
        (Some y, Some m, Some d) \<Rightarrow> real_date (digits_val 0 y) (digits_val 0 m) (digits_val 0 d)
      | _ \<Rightarrow> False)"

definition SIGN :: re where "SIGN = opt (Cls (\<lambda>c. c = CHR ''+'' \<or> c = CHR ''-''))"

definition INT_RE :: re where "INT_RE = seqs [Bol, SIGN, plus (Cls is_digit), Eol]"

definition NUM_RE :: re where
  "NUM_RE = seqs [Bol, SIGN,
     Alt (seqs [plus (Cls is_digit), opt (one CHR ''.''), star (Cls is_digit)]) (Seq (one CHR ''.'') (plus (Cls is_digit))),
     opt (seqs [liti ''e'', SIGN, plus (Cls is_digit)]), Eol]"

definition COMMA_RE :: re where
  "COMMA_RE = seqs [Bol, SIGN, plus (Cls is_digit), one CHR '','', plus (Cls is_digit), Eol]"

definition TIME_RE :: re where
  "TIME_RE = seqs [Bol, Rep 1 (Some 2) True (Cls is_digit), one CHR '':'', Rep 2 (Some 2) True (Cls is_digit),
     opt (seqs [one CHR '':'', Rep 2 (Some 2) True (Cls is_digit), opt (Seq (one CHR ''.'') (plus (Cls is_digit)))]), Eol]"

record preview =
  pv_text :: string
  pv_to :: "string option"
  pv_warn :: "string option"

definition preview_of :: "string \<Rightarrow> string option \<Rightarrow> string option \<Rightarrow> preview" where
  "preview_of t to warn = \<lparr>pv_text = t, pv_to = to, pv_warn = warn\<rparr>"

definition convert_preview :: "cell \<Rightarrow> string \<Rightarrow> preview" where
  "convert_preview v ty =
     (case v of None \<Rightarrow> preview_of ''NULL'' None None
      | Some x \<Rightarrow>
          let t = trim x; ok = (\<lambda>b warn. if b then preview_of x None None else preview_of x None (Some warn)) in
          (case type_family_of ty of
             BoolType \<Rightarrow> let s = to_lower t in
               if s \<in> set [''1'', ''true'', ''t'', ''yes'', ''y'', ''s'' @ [CHR 0xED], ''si'', ''s'']
               then preview_of x (Some ''true'') None
               else if s \<in> set [''0'', ''false'', ''f'', ''no'', ''n''] then preview_of x (Some ''false'') None
               else preview_of x None (Some ''imp.warn.bool'')
           | IntType \<Rightarrow> ok (re_test INT_RE t) ''imp.warn.int''
           | NumType \<Rightarrow> if re_test NUM_RE t then preview_of x None None
               else preview_of x None (Some (if re_test COMMA_RE t then ''imp.warn.decimalComma'' else ''imp.warn.num''))
           | DateType \<Rightarrow> ok (valid_iso_date t) ''imp.warn.date''
           | DatetimeType \<Rightarrow> ok (valid_iso_date t) ''imp.warn.date''
           | TimeType \<Rightarrow> ok (re_test TIME_RE t) ''imp.warn.time''
           | TextType \<Rightarrow> preview_of x None None))"

section \<open>The import run\<close>

datatype error_policy = Skip | Abort

record import_error =
  ie_row :: nat
  ie_message :: string

record import_summary =
  is_inserted :: nat
  is_errors :: "import_error list"
  is_aborted :: bool

text \<open>The operations the wizard plugs in; \<open>io_cancelled\<close> is the abort signal, looked at before
  every row.\<close>

record 'w import_ops =
  io_begin :: "(unit, 'w) effect"
  io_commit :: "(unit, 'w) effect"
  io_rollback :: "(unit, 'w) effect"
  io_insert :: "cells \<Rightarrow> (unit, 'w) effect"
  io_cancelled :: "'w \<Rightarrow> bool"

definition error_message :: "js_error \<Rightarrow> string" where
  "error_message e = (case e of QueryError r \<Rightarrow> er_message r | OtherError s \<Rightarrow> s)"

definition abort_error :: js_error where
  "abort_error = OtherError ''AbortError''"

text \<open>After a rollback: the value or the error, unless rolling back fails itself.\<close>

definition after_rollback :: "'w import_ops \<Rightarrow> (js_error, 'a) result \<Rightarrow> ('a, 'w) effect" where
  "after_rollback ops out w = (case io_rollback ops w of (Inl e, w') \<Rightarrow> (Inl e, w') | (Inr _, w') \<Rightarrow> (out, w'))"

fun import_loop ::
    "'w import_ops \<Rightarrow> error_policy \<Rightarrow> nat \<Rightarrow> cells list \<Rightarrow> import_error list \<Rightarrow> nat \<Rightarrow> (import_summary, 'w) effect" where
  "import_loop ops policy i [] errors inserted w =
     (case io_commit ops w of (Inl e, w') \<Rightarrow> (Inl e, w')
      | (Inr _, w') \<Rightarrow> (Inr \<lparr>is_inserted = inserted, is_errors = errors, is_aborted = False\<rparr>, w'))"
| "import_loop ops policy i (v # vs) errors inserted w =
     (if io_cancelled ops w then after_rollback ops (Inl abort_error) w
      else case io_insert ops v w of
        (Inr _, w') \<Rightarrow> import_loop ops policy (i + 1) vs errors (inserted + 1) w'
      | (Inl e, w') \<Rightarrow>
          let errors' = errors @ [\<lparr>ie_row = i, ie_message = error_message e\<rparr>] in
          if policy = Abort
          then after_rollback ops (Inr \<lparr>is_inserted = 0, is_errors = errors', is_aborted = True\<rparr>) w'
          else import_loop ops policy (i + 1) vs errors' inserted w')"

definition run_import ::
    "parsed_table \<Rightarrow> column_mapping \<Rightarrow> error_policy \<Rightarrow> 'w import_ops \<Rightarrow> (import_summary, 'w) effect" where
  "run_import parsed m policy ops w =
     (case io_begin ops w of (Inl e, w') \<Rightarrow> (Inl e, w')
      | (Inr _, w') \<Rightarrow> import_loop ops policy 0 (map (build_row_values m (pt_headers parsed)) (pt_rows parsed)) [] 0 w')"

text \<open>What \<open>ImportWizard\<close> plugs in: the transaction calls and the row insert of \<open>edit.ts\<close>.\<close>

definition wizard_ops :: "'w channel \<Rightarrow> string \<Rightarrow> edit_target \<Rightarrow> ('w \<Rightarrow> bool) \<Rightarrow> 'w import_ops" where
  "wizard_ops chan conn t cancelled =
     \<lparr>io_begin = tx_call chan conn TxBegin, io_commit = tx_call chan conn TxCommit,
      io_rollback = tx_call chan conn TxRollback,
      io_insert = (\<lambda>values w. case run_plan_item chan conn t (Insert values None None) False w of
         (Inl e, w') \<Rightarrow> (Inl e, w') | (Inr _, w') \<Rightarrow> (Inr (), w')),
      io_cancelled = cancelled\<rparr>"


section \<open>What an import relies on\<close>

locale import_store =
  fixes ops :: "'w import_ops"
    and good :: "'w \<Rightarrow> bool"
    and durable :: "'w \<Rightarrow> 'd"
    and in_flight :: "'w \<Rightarrow> 'd option"
    and granted :: "'w \<Rightarrow> bool"
    and still_open :: "'w \<Rightarrow> bool"
    and effect_of :: "cells \<Rightarrow> 'd \<Rightarrow> 'd"
  assumes insert_law: "good w \<Longrightarrow> in_flight w = Some d \<Longrightarrow> io_insert ops v w = (r, w') \<Longrightarrow>
      good w' \<and> durable w' = durable w \<and>
      (\<exists>d'. in_flight w' = Some d' \<and> (is_ok r \<longrightarrow> d' = effect_of v d))"
    and commit_law: "good w \<Longrightarrow> in_flight w = Some d \<Longrightarrow> io_commit ops w = (r', w') \<Longrightarrow>
      durable w' = (if is_ok r' \<and> \<not> still_open w' then d else durable w)"
    and rollback_law: "good w \<Longrightarrow> io_rollback ops w = (r', w') \<Longrightarrow> durable w' = durable w \<and> in_flight w' = None"
    and begin_law: "good w \<Longrightarrow> granted w \<Longrightarrow> in_flight w = None \<Longrightarrow> io_begin ops w = (r', w') \<Longrightarrow>
      good w' \<and> durable w' = durable w \<and> (is_ok r' \<longrightarrow> in_flight w' = Some (durable w))"
begin

text \<open>What an outcome of the loop says of the store: \<open>n\<close> rows were to be read, \<open>seen\<close> were accounted
  for before, \<open>final\<close> is the state with every row inserted.\<close>

definition outcome_ok :: "nat \<Rightarrow> import_error list \<Rightarrow> 'd \<Rightarrow> 'd \<Rightarrow> (js_error, import_summary) result \<Rightarrow> 'w \<Rightarrow> bool" where
  "outcome_ok n errors before final out w' \<longleftrightarrow>
     (case out of Inl e \<Rightarrow> durable w' = before
      | Inr s \<Rightarrow> if is_aborted s then durable w' = before \<and> in_flight w' = None \<and> is_inserted s = 0
          else is_inserted s + length (is_errors s) = n \<and>
            (if still_open w' then durable w' = before else is_errors s = errors \<longrightarrow> durable w' = final))"

lemma rolled_back: "good w \<Longrightarrow> after_rollback ops out w = (out', w') \<Longrightarrow>
    durable w' = durable w \<and> in_flight w' = None \<and> (out' = out \<or> (\<exists>e. out' = Inl e))"
  using rollback_law by (auto simp: after_rollback_def split: prod.splits sum.splits)

lemma errors_grow:
  "import_loop ops policy i vs errors n w = (Inr s, w') \<Longrightarrow> \<exists>more. is_errors s = errors @ more"
proof (induction vs arbitrary: i errors n w)
  case Nil
  then show ?case by (auto split: prod.splits sum.splits)
next
  case (Cons v vs)
  obtain r w1 where r: "io_insert ops v w = (r, w1)" by (cases "io_insert ops v w") auto
  with Cons show ?case
    by (cases r) (fastforce simp: Let_def after_rollback_def split: if_splits prod.splits sum.splits)+
qed

lemma import_loop_law:
  assumes "good w" and "in_flight w = Some d" and "import_loop ops policy i vs errors n w = (out, w')"
  shows "outcome_ok (n + length errors + length vs) errors (durable w) (fold effect_of vs d) out w'"
  using assms
proof (induction vs arbitrary: i errors n w d)
  case Nil
  then show ?case using commit_law [OF Nil.prems(1,2)] by (auto simp: outcome_ok_def split: prod.splits sum.splits)
next
  case (Cons v vs)
  show ?case
  proof (cases "io_cancelled ops w")
    case True
    with Cons.prems have "after_rollback ops (Inl abort_error) w = (out, w')" by simp
    from rolled_back [OF Cons.prems(1) this] show ?thesis by (auto simp: outcome_ok_def)
  next
    case False
    obtain r w1 where r: "io_insert ops v w = (r, w1)" by (cases "io_insert ops v w") auto
    from insert_law [OF Cons.prems(1,2) r] obtain d1 where l: "good w1" "durable w1 = durable w"
      "in_flight w1 = Some d1" "is_ok r \<longrightarrow> d1 = effect_of v d" by blast
    show ?thesis
    proof (cases r)
      case (Inr u)
      with Cons.prems r False have "import_loop ops policy (i + 1) vs errors (n + 1) w1 = (out, w')" by simp
      from Cons.IH [OF l(1,3) this] l Inr show ?thesis by (simp add: add.commute add.left_commute)
    next
      case (Inl e)
      let ?es = "errors @ [\<lparr>ie_row = i, ie_message = error_message e\<rparr>]"
      show ?thesis
      proof (cases "policy = Abort")
        case True
        with Cons.prems r False Inl
        have "after_rollback ops (Inr \<lparr>is_inserted = 0, is_errors = ?es, is_aborted = True\<rparr>) w1 = (out, w')"
          by (simp add: Let_def)
        from rolled_back [OF l(1) this] l show ?thesis by (auto simp: outcome_ok_def)
      next
        case False
        with Cons.prems r Inl \<open>\<not> io_cancelled ops w\<close>
        have loop: "import_loop ops policy (i + 1) vs ?es n w1 = (out, w')" by (simp add: Let_def)
        from Cons.IH [OF l(1,3) loop] l
        have "outcome_ok (n + length errors + length (v # vs)) ?es (durable w) (fold effect_of vs d1) out w'" by simp
        moreover have "is_errors s \<noteq> errors" if "out = Inr s" for s
          using errors_grow [OF loop [unfolded that]] by auto
        ultimately show ?thesis by (auto simp: outcome_ok_def split: sum.splits)
      qed
    qed
  qed
qed

lemma run_import_law:
  assumes "good w" and "granted w" and "in_flight w = None" and "run_import parsed m policy ops w = (out, w')"
  shows "outcome_ok (length (pt_rows parsed)) [] (durable w)
    (fold effect_of (map (build_row_values m (pt_headers parsed)) (pt_rows parsed)) (durable w)) out w'"
proof -
  obtain r w1 where r: "io_begin ops w = (r, w1)" by (cases "io_begin ops w") auto
  note b = begin_law [OF assms(1,2,3) r]
  show ?thesis
  proof (cases r)
    case (Inl e)
    with assms(4) r b show ?thesis by (auto simp: run_import_def outcome_ok_def)
  next
    case (Inr u)
    with assms(4) r have "import_loop ops policy 0 (map (build_row_values m (pt_headers parsed)) (pt_rows parsed)) [] 0 w1
        = (out, w')" by (simp add: run_import_def)
    from import_loop_law [OF _ _ this, of "durable w"] b Inr show ?thesis by simp
  qed
qed

end

section \<open>The wizard over the core\<close>

definition wizard_eng :: "('e, 'd) engine \<Rightarrow> string \<Rightarrow> edit_target \<Rightarrow> ('e manager \<Rightarrow> bool) \<Rightarrow> 'e manager import_ops" where
  "wizard_eng E conn t cancelled = wizard_ops (core_channel (core_row (en_row E))) conn t cancelled"

text \<open>The engine grants the transaction.\<close>

definition begin_granted :: "string \<Rightarrow> 'e manager \<Rightarrow> bool" where
  "begin_granted conn mgr = is_ok (fst (core_tx conn TxBegin mgr))"

lemma wizard_tx:
  "io_commit (wizard_eng E conn t c) mgr = (Inr (), snd (core_tx conn TxCommit mgr))"
  "io_rollback (wizard_eng E conn t c) mgr = (Inr (), snd (core_tx conn TxRollback mgr))"
  "io_begin (wizard_eng E conn t c) mgr = (Inr (), snd (core_tx conn TxBegin mgr))"
  by (simp_all add: wizard_eng_def wizard_ops_def tx_call_core)

lemma wizard_insert:
  assumes "item_request conn t (Insert v None None) False = (m, p)"
    and "core_row (en_row E) m (Some (JObj p)) mgr = (res, mgr')" and "io_insert (wizard_eng E conn t c) v mgr = (r, w')"
  shows "w' = mgr' \<and> is_ok r = is_ok res"
proof -
  have "m \<noteq> ''tx.begin''" "m \<noteq> ''tx.commit''" "m \<noteq> ''tx.rollback''"
    using item_request_conn [OF assms(1)] by auto
  then show ?thesis
    using assms parse_row_ok [of res]
    by (auto simp: wizard_eng_def wizard_ops_def run_plan_item_def row_call_def core_channel_def is_ok_def
        split: sum.splits)
qed

interpretation wizard: import_store "wizard_eng E conn t c" "\<lambda>mgr. eng_good E conn ([], mgr)"
  "\<lambda>mgr. eng_durable E conn ([], mgr)" "\<lambda>mgr. eng_work E conn ([], mgr)" "begin_granted conn" "core_in_tx conn"
  "\<lambda>v. item_effect E conn t (Insert v None None)"
  for E :: "('e, 'd) engine" and conn t c
proof
  fix mgr mgr' :: "'e manager" and d v r
  assume g: "eng_good E conn ([], mgr)" and d: "eng_work E conn ([], mgr) = Some d"
    and r: "io_insert (wizard_eng E conn t c) v mgr = (r, mgr')"
  obtain m p where mp: "item_request conn t (Insert v None None) False = (m, p)"
    by (cases "item_request conn t (Insert v None None) False") auto
  obtain res mgr1 where cr: "core_row (en_row E) m (Some (JObj p)) mgr = (res, mgr1)"
    by (cases "core_row (en_row E) m (Some (JObj p)) mgr") auto
  have "mgr' = mgr1" "is_ok r = is_ok res" using wizard_insert [OF mp cr r] by auto
  with eng_row [OF g d _ cr] item_request_conn [OF mp] mp
  show "eng_good E conn ([], mgr') \<and> eng_durable E conn ([], mgr') = eng_durable E conn ([], mgr) \<and>
      (\<exists>d'. eng_work E conn ([], mgr') = Some d' \<and> (is_ok r \<longrightarrow> d' = item_effect E conn t (Insert v None None) d))"
    by (simp add: item_effect_def)
next
  fix mgr mgr' :: "'e manager" and d r
  assume g: "eng_good E conn ([], mgr)" and d: "eng_work E conn ([], mgr) = Some d"
    and "io_commit (wizard_eng E conn t c) mgr = (r, mgr')"
  then have "r = Inr ()" "mgr' = snd (core_tx conn TxCommit mgr)" by (auto simp: wizard_tx)
  with eng_tx(2) [OF g prod.collapse [symmetric], of TxCommit] d
  show "eng_durable E conn ([], mgr') = (if is_ok r \<and> \<not> core_in_tx conn mgr' then d else eng_durable E conn ([], mgr))"
    by (simp add: eng_open_def)
next
  fix mgr mgr' :: "'e manager" and r
  assume g: "eng_good E conn ([], mgr)" and "io_rollback (wizard_eng E conn t c) mgr = (r, mgr')"
  then have "mgr' = snd (core_tx conn TxRollback mgr)" by (auto simp: wizard_tx)
  with eng_tx(2,3) [OF g prod.collapse [symmetric], of TxRollback]
  show "eng_durable E conn ([], mgr') = eng_durable E conn ([], mgr) \<and> eng_work E conn ([], mgr') = None" by simp
next
  fix mgr mgr' :: "'e manager" and r
  assume g: "eng_good E conn ([], mgr)" and b: "begin_granted conn mgr" and d: "eng_work E conn ([], mgr) = None"
    and "io_begin (wizard_eng E conn t c) mgr = (r, mgr')"
  then have "mgr' = snd (core_tx conn TxBegin mgr)" by (auto simp: wizard_tx)
  with eng_tx(1,2,4) [OF g prod.collapse [symmetric], of TxBegin] d b
  show "eng_good E conn ([], mgr') \<and> eng_durable E conn ([], mgr') = eng_durable E conn ([], mgr) \<and>
      (is_ok r \<longrightarrow> eng_work E conn ([], mgr') = Some (eng_durable E conn ([], mgr)))"
    by (simp add: begin_granted_def)
qed

section \<open>Properties\<close>


definition two_rows :: parsed_table where
  "two_rows = \<lparr>pt_headers = [''a''], pt_rows = [[Some ''1''], [Some ''2'']]\<rparr>"

definition closed_world :: "nat \<Rightarrow> nat snapshot manager" where
  "closed_world most = [(1, \<lparr>sl_driver = snapshot_driver most, sl_handle = \<lparr>sn_durable = 5, sn_work = None\<rparr>, sl_in_tx = False\<rparr>)]"

text \<open>Rows are counted; the second of the transaction is refused, or none.\<close>

definition second_refused :: "bool \<Rightarrow> string \<Rightarrow> json option \<Rightarrow> nat snapshot \<Rightarrow> response \<times> nat snapshot" where
  "second_refused refuse m p h =
     (case sn_work h of None \<Rightarrow> (Inr (JObj []), h\<lparr>sn_durable := sn_durable h + 1\<rparr>)
      | Some d \<Rightarrow> if refuse \<and> d = 6 then (rpc_fail (- 32003) ''refused'', h) else (Inr (JObj []), h\<lparr>sn_work := Some (d + 1)\<rparr>))"

lemma second_refused_rows: "rows_in_tx (snapshot_engine (second_refused b))"
  by (auto simp: rows_in_tx_def snapshot_engine_def second_refused_def rpc_fail_def split: if_splits)

lemma closed_world_good:
  assumes "rows_in_tx (snapshot_engine row)"
  shows "eng_good (snapshot_engine row) ''c1'' ([], closed_world most)" "begin_granted ''c1'' (closed_world most)"
    "eng_work (snapshot_engine row) ''c1'' ([], closed_world most) = None"
    "eng_durable (snapshot_engine row) ''c1'' ([], closed_world most) = Some 5"
proof -
  have cid: "conn_id_parse ''c1'' = Some 1" by code_simp
  have slot: "conn_slot ''c1'' (closed_world most) =
      Some \<lparr>sl_driver = snapshot_driver most, sl_handle = \<lparr>sn_durable = 5, sn_work = None\<rparr>, sl_in_tx = False\<rparr>"
    by (simp add: conn_slot_def cid closed_world_def)
  show "eng_good (snapshot_engine row) ''c1'' ([], closed_world most)"
    using snapshot_tx_engine [OF assms] slot by (simp add: eng_good_def has_transactions_def snapshot_engine_def)
  show "eng_work (snapshot_engine row) ''c1'' ([], closed_world most) = None"
    "eng_durable (snapshot_engine row) ''c1'' ([], closed_world most) = Some 5"
    using slot by (simp_all add: eng_work_def eng_durable_def snapshot_engine_def)
  show "begin_granted ''c1'' (closed_world most)"
    by (simp add: begin_granted_def core_tx_def tx_dispatch_def core_tx_params cid closed_world_def tx_on_slot_def run_tx_def
        member_of_def snapshot_driver_def is_ok_def)
qed

definition demo_import :: "bool \<Rightarrow> nat \<Rightarrow> (js_error, import_summary) result \<times> nat snapshot manager" where
  "demo_import refuse most = run_import two_rows [(''a'', Some ''a'')] Abort
     (wizard_eng (snapshot_engine (second_refused refuse)) ''c1'' demo_target (\<lambda>_. False)) (closed_world most)"


section \<open>An engine without transactions\<close>

text \<open>The wizard's \<open>txBegin\<close> drops the answer: on an engine that refuses transactions an aborted
  import says that nothing was applied while the rows before the failing one stay.\<close>

definition no_tx_channel :: "nat channel" where
  "no_tx_channel m p w =
     (if m \<noteq> ''row.insert'' then (Inr (rpc_fail IPC_ERR_UNSUPPORTED ''no transactions''), w)
      else if w = 1 then (Inr (rpc_fail (- 32003) ''refused''), w) else (Inr (Inr (JObj [])), w + 1))"

lemma abort_keeps_rows_without_tx:
  "run_import two_rows [(''a'', Some ''a'')] Abort (wizard_ops no_tx_channel ''c1'' demo_target (\<lambda>_. False)) 0
    = (Inr \<lparr>is_inserted = 0, is_errors = [\<lparr>ie_row = 1, ie_message = ''refused''\<rparr>], is_aborted = True\<rparr>, 1)"
  by code_simp

end
