(* ===== verification/Exporters.thy ===== *)
theory Exporters
  imports Importers GridView Json
begin

text \<open>
  Exporting a result (\<open>exporters.ts\<close>): CSV, JSON, SQL inserts, XML and HTML, whole and in pieces,
  and what reading the CSV back with the importer gives. The byte-order mark is an argument:
  it is one code unit outside Latin-1.
\<close>

section \<open>Rows\<close>

definition row_cells :: "column list \<Rightarrow> cell list \<Rightarrow> cell list" where
  "row_cells cols row = map (cell_at row) [0..<length cols]"

definition CRLF :: string where "CRLF = [CR, NL]"

definition QUOTE :: char where "QUOTE = CHR 0x22"

definition csv_field :: "char \<Rightarrow> string \<Rightarrow> string" where
  "csv_field d v =
     (if d \<in> set v \<or> QUOTE \<in> set v \<or> NL \<in> set v \<or> CR \<in> set v
      then QUOTE # double_char QUOTE v @ [QUOTE] else v)"

definition csv_line :: "char \<Rightarrow> string list \<Rightarrow> string" where
  "csv_line d cells = join [d] (map (csv_field d) cells)"

definition csv_row :: "char \<Rightarrow> string \<Rightarrow> column list \<Rightarrow> cell list \<Rightarrow> string" where
  "csv_row d null cols row = csv_line d (map (default null) (row_cells cols row))"

definition to_csv :: "char \<Rightarrow> string \<Rightarrow> result_set \<Rightarrow> string" where
  "to_csv d null rs =
     join CRLF (csv_line d (map col_name (rs_columns rs)) # map (csv_row d null (rs_columns rs)) (rs_rows rs))"

text \<open>\<open>jsonRow\<close>, and \<open>JSON.stringify(value, null, 2)\<close> of such an object and of a list of them.\<close>

definition json_row :: "column list \<Rightarrow> cell list \<Rightarrow> cells" where
  "json_row cols row = obj_of (map (\<lambda>(i, c). (col_name c, cell_at row i)) (index_list cols))"

definition json_cell_text :: "cell \<Rightarrow> string" where
  "json_cell_text c = (case c of None \<Rightarrow> ''null'' | Some v \<Rightarrow> json_quote v)"

definition pretty_object :: "string \<Rightarrow> cells \<Rightarrow> string" where
  "pretty_object pad ob =
     (if ob = [] then ''{}''
      else ''{'' @ [NL] @ join ('','' @ [NL])
             (map (\<lambda>(k, v). pad @ ''  '' @ json_quote k @ '': '' @ json_cell_text v) ob) @ [NL] @ pad @ ''}'')"

definition to_json :: "result_set \<Rightarrow> string" where
  "to_json rs =
     (let obs = map (json_row (rs_columns rs)) (rs_rows rs) in
      if obs = [] then ''[]''
      else ''['' @ [NL] @ join ('','' @ [NL]) (map (\<lambda>ob. ''  '' @ pretty_object ''  '' ob) obs) @ [NL] @ '']'')"

text \<open>\<open>quoteIdent\<close>, \<open>sqlLiteral\<close>.\<close>

definition quote_ident :: "string \<Rightarrow> string" where
  "quote_ident name = QUOTE # double_char QUOTE name @ [QUOTE]"

definition sql_literal :: "cell \<Rightarrow> string" where
  "sql_literal c = (case c of None \<Rightarrow> ''NULL'' | Some v \<Rightarrow> APOS # double_char APOS v @ [APOS])"

definition insert_header :: "column list \<Rightarrow> string \<Rightarrow> string" where
  "insert_header cols table =
     ''INSERT INTO '' @ quote_ident table @ '' ('' @ join '', '' (map (\<lambda>c. quote_ident (col_name c)) cols) @ '') VALUES ''"

definition insert_row :: "string \<Rightarrow> column list \<Rightarrow> cell list \<Rightarrow> string" where
  "insert_row header cols row = header @ ''('' @ join '', '' (map sql_literal (row_cells cols row)) @ '');''"

definition to_inserts :: "result_set \<Rightarrow> string \<Rightarrow> string" where
  "to_inserts rs table = join [NL] (map (insert_row (insert_header (rs_columns rs) table) (rs_columns rs)) (rs_rows rs))"

text \<open>\<open>xmlEscape\<close>: the replacements one after the other.\<close>

definition replace_char :: "char \<Rightarrow> string \<Rightarrow> string \<Rightarrow> string" where
  "replace_char c to s = concat (map (\<lambda>x. if x = c then to else [x]) s)"

definition xml_escape :: "string \<Rightarrow> string" where
  "xml_escape v =
     replace_char APOS ''&apos;'' (replace_char QUOTE ''&quot;'' (replace_char CHR ''>'' ''&gt;''
       (replace_char CHR ''<'' ''&lt;'' (replace_char CHR ''&'' ''&amp;'' v))))"

definition xml_field :: "column \<times> cell \<Rightarrow> string" where
  "xml_field cv =
     ''    <field name='' @ [QUOTE] @ xml_escape (col_name (fst cv)) @ [QUOTE] @
     (case snd cv of None \<Rightarrow> '' null='' @ [QUOTE] @ ''true'' @ [QUOTE] @ ''/>''
      | Some v \<Rightarrow> ''>'' @ xml_escape v @ ''</field>'')"

definition xml_row :: "column list \<Rightarrow> cell list \<Rightarrow> string" where
  "xml_row cols row =
     ''  <row>'' @ [NL] @ join [NL] (map xml_field (zip cols (row_cells cols row))) @ [NL] @ ''  </row>''"

definition XML_HEAD :: string where
  "XML_HEAD = ''<?xml version='' @ [QUOTE] @ ''1.0'' @ [QUOTE] @ '' encoding='' @ [QUOTE] @ ''UTF-8'' @ [QUOTE] @
     ''?>'' @ [NL] @ ''<data>'' @ [NL]"

definition XML_TAIL :: string where
  "XML_TAIL = [NL] @ ''</data>'' @ [NL]"

definition to_xml :: "result_set \<Rightarrow> string" where
  "to_xml rs = XML_HEAD @ join [NL] (map (xml_row (rs_columns rs)) (rs_rows rs)) @ XML_TAIL"

definition html_style :: "string list" where
  "html_style = [''body{font-family:system-ui,sans-serif;margin:1rem;}'',
     ''table{border-collapse:collapse;font-size:13px;}'',
     ''th,td{border:1px solid #ccc;padding:4px 8px;text-align:left;}'',
     ''th{background:#f0f0f4;}'', ''td.num{text-align:right;}'', ''td.null{color:#999;}'']"

definition html_head :: "column list \<Rightarrow> string \<Rightarrow> string" where
  "html_head cols table =
     join [NL] ([''<!doctype html>'', ''<html lang='' @ [QUOTE] @ ''en'' @ [QUOTE] @ ''>'', ''<head>'',
       ''<meta charset='' @ [QUOTE] @ ''utf-8'' @ [QUOTE] @ ''>'', ''<title>'' @ xml_escape table @ ''</title>'', ''<style>'']
       @ html_style @ [''</style>'', ''</head>'', ''<body>'', ''<table>'', ''<thead>'',
       ''<tr>'' @ concat (map (\<lambda>c. ''<th>'' @ xml_escape (col_name c) @ ''</th>'') cols) @ ''</tr>'', ''</thead>'',
       ''<tbody>'', []])"

definition html_cell :: "column \<times> cell \<Rightarrow> string" where
  "html_cell cv =
     (case snd cv of None \<Rightarrow> ''<td class='' @ [QUOTE] @ ''null'' @ [QUOTE] @ ''></td>''
      | Some v \<Rightarrow> ''<td'' @ (if classify_type (col_type (fst cv)) = NumberKind
            then '' class='' @ [QUOTE] @ ''num'' @ [QUOTE] else []) @ ''>'' @ xml_escape v @ ''</td>'')"

definition html_row :: "column list \<Rightarrow> cell list \<Rightarrow> string" where
  "html_row cols row = ''      <tr>'' @ concat (map html_cell (zip cols (row_cells cols row))) @ ''</tr>''"

definition HTML_TAIL :: string where
  "HTML_TAIL = join [NL] [[], ''</tbody>'', ''</table>'', ''</body>'', ''</html>'', []]"

definition to_html :: "result_set \<Rightarrow> string \<Rightarrow> string" where
  "to_html rs table =
     html_head (rs_columns rs) table @ join [NL] (map (html_row (rs_columns rs)) (rs_rows rs)) @ HTML_TAIL"

section \<open>Formats and pieces\<close>

datatype export_format = Csv | Json | SqlInserts | Xml | Html

record csv_options =
  co_delimiter :: char
  co_header :: bool
  co_null :: string
  co_bom :: string     \<comment> \<open>the byte-order mark asked for, or nothing\<close>

record chunk_plan =
  cp_head :: string
  cp_first_sep :: string
  cp_sep :: string
  cp_row :: "cell list \<Rightarrow> string"
  cp_tail :: string
  cp_empty_tail :: string

text \<open>\<open>indentBy\<close>.\<close>

definition indent_by :: "string \<Rightarrow> string \<Rightarrow> string" where
  "indent_by text pad = join [NL] (map (\<lambda>line. pad @ line) (split_on NL text))"

definition chunk_plan_of :: "result_set \<Rightarrow> export_format \<Rightarrow> string \<Rightarrow> csv_options \<Rightarrow> chunk_plan" where
  "chunk_plan_of rs fmt table csv =
     (let cols = rs_columns rs in
      case fmt of
        Csv \<Rightarrow> let d = co_delimiter csv in
          \<lparr>cp_head = co_bom csv @ (if co_header csv then csv_line d (map col_name cols) else []),
           cp_first_sep = (if co_header csv then CRLF else []), cp_sep = CRLF,
           cp_row = csv_row d (co_null csv) cols, cp_tail = [], cp_empty_tail = []\<rparr>
      | Json \<Rightarrow>
          \<lparr>cp_head = ''['', cp_first_sep = [NL], cp_sep = '','' @ [NL],
           cp_row = (\<lambda>row. indent_by (pretty_object [] (json_row cols row)) ''  ''),
           cp_tail = [NL] @ '']'', cp_empty_tail = '']''\<rparr>
      | SqlInserts \<Rightarrow>
          \<lparr>cp_head = [], cp_first_sep = [], cp_sep = [NL], cp_row = insert_row (insert_header cols table) cols,
           cp_tail = [], cp_empty_tail = []\<rparr>
      | Xml \<Rightarrow>
          \<lparr>cp_head = XML_HEAD, cp_first_sep = [], cp_sep = [NL], cp_row = xml_row cols,
           cp_tail = XML_TAIL, cp_empty_tail = XML_TAIL\<rparr>
      | Html \<Rightarrow>
          \<lparr>cp_head = html_head cols table, cp_first_sep = [], cp_sep = [NL], cp_row = html_row cols,
           cp_tail = HTML_TAIL, cp_empty_tail = HTML_TAIL\<rparr>)"

definition export_piece :: "chunk_plan \<Rightarrow> cell list list \<Rightarrow> nat \<Rightarrow> nat \<Rightarrow> string" where
  "export_piece plan rows a b =
     concat (map (\<lambda>i. (if i = 0 then cp_first_sep plan else cp_sep plan) @ cp_row plan (rows ! i)) [a..<b])"

function pieces_from :: "chunk_plan \<Rightarrow> cell list list \<Rightarrow> nat \<Rightarrow> nat \<Rightarrow> string list" where
  "pieces_from plan rows per a =
     (if a < length rows \<and> 0 < per
      then export_piece plan rows a (min (length rows) (a + per)) # pieces_from plan rows per (a + per) else [])"
  by pat_completeness auto
termination by (relation "measure (\<lambda>(plan, rows, per, a). length rows - a)") auto

declare pieces_from.simps [simp del]

text \<open>What the generator yields, in order.\<close>

definition export_chunks ::
    "result_set \<Rightarrow> export_format \<Rightarrow> string \<Rightarrow> int \<Rightarrow> csv_options \<Rightarrow> string list" where
  "export_chunks rs fmt table rows_per_chunk csv =
     (let plan = chunk_plan_of rs fmt table csv; per = nat (max 1 rows_per_chunk) in
      [cp_head plan] @ pieces_from plan (rs_rows rs) per 0 @
      [if rs_rows rs \<noteq> [] then cp_tail plan else cp_empty_tail plan])"

definition export_result :: "result_set \<Rightarrow> export_format \<Rightarrow> string \<Rightarrow> string" where
  "export_result rs fmt table =
     (case fmt of Csv \<Rightarrow> to_csv CHR '','' [] rs | Json \<Rightarrow> to_json rs | SqlInserts \<Rightarrow> to_inserts rs table
      | Xml \<Rightarrow> to_xml rs | Html \<Rightarrow> to_html rs table)"

definition default_csv :: csv_options where
  "default_csv = \<lparr>co_delimiter = CHR '','', co_header = True, co_null = [], co_bom = []\<rparr>"

definition mime_for :: "export_format \<Rightarrow> string" where
  "mime_for fmt = (case fmt of Csv \<Rightarrow> ''text/csv'' | Json \<Rightarrow> ''application/json''
     | SqlInserts \<Rightarrow> ''application/sql'' | Xml \<Rightarrow> ''application/xml'' | Html \<Rightarrow> ''text/html'')"

text \<open>Every run of other characters becomes one underscore.\<close>

fun safe_name :: "bool \<Rightarrow> string \<Rightarrow> string" where
  "safe_name in_run [] = []"
| "safe_name in_run (c # s) =
     (if is_word c \<or> c = CHR ''.'' \<or> c = CHR ''-'' then c # safe_name False s
      else (if in_run then [] else ''_'') @ safe_name True s)"

definition file_name_for :: "string \<Rightarrow> string \<Rightarrow> string" where
  "file_name_for base ext =
     (let safe = safe_name False base in (if safe = [] then ''export'' else safe) @ ''.'' @ ext)"

datatype export_scope = AllRows | PageRows | MarkedRows

definition export_scopes :: "bool \<Rightarrow> nat \<Rightarrow> export_scope list \<times> export_scope" where
  "export_scopes can_read_all marked =
     ((if can_read_all then [AllRows, PageRows] else [PageRows]) @ (if marked > 0 then [MarkedRows] else []),
      if can_read_all then AllRows else PageRows)"

section \<open>The pieces make the file\<close>

lemma piece_append: "a \<le> b \<Longrightarrow> b \<le> c \<Longrightarrow> export_piece p rows a b @ export_piece p rows b c = export_piece p rows a c"
proof -
  assume "a \<le> b" "b \<le> c"
  then have "[a..<c] = [a..<b] @ [b..<c]" using upt_add_eq_append [of a b "c - b"] by simp
  then show ?thesis by (simp only: export_piece_def map_append concat_append)
qed

lemma pieces_concat:
  assumes "0 < per"
  shows "concat (pieces_from p rows per a) = export_piece p rows a (length rows)"
  using assms
proof (induction p rows per a rule: pieces_from.induct)
  case (1 p rows per a)
  show ?case
  proof (cases "a < length rows")
    case True
    show ?thesis
    proof (cases "a + per \<le> length rows")
      case le: True
      with True 1 show ?thesis by (subst pieces_from.simps) (simp add: piece_append)
    next
      case False
      with True 1 show ?thesis by (subst pieces_from.simps) (simp add: export_piece_def)
    qed
  next
    case False
    then show ?thesis by (subst pieces_from.simps) (simp add: export_piece_def)
  qed
qed

lemma piece_join:
  "rows \<noteq> [] \<Longrightarrow> export_piece p rows 0 (length rows) = cp_first_sep p @ join (cp_sep p) (map (cp_row p) rows)"
proof -
  have tail: "concat (map (\<lambda>r. cp_sep p @ cp_row p r) rs) = (if rs = [] then [] else cp_sep p @ join (cp_sep p) (map (cp_row p) rs))" for rs
  proof (induction rs)
    case (Cons r rs)
    then show ?case by (cases rs) simp_all
  qed simp
  show "rows \<noteq> [] \<Longrightarrow> ?thesis"
  proof (cases rows)
    case (Cons r rs)
    have "map (\<lambda>i. (if i = 0 then cp_first_sep p else cp_sep p) @ cp_row p (rows ! i)) [0..<length rows]
        = (cp_first_sep p @ cp_row p r) # map (\<lambda>x. cp_sep p @ cp_row p x) rs"
      by (intro nth_equalityI) (auto simp: Cons nth_Cons simp del: upt_Suc split: nat.split)
    then show ?thesis using tail [of rs] Cons by (cases rs) (simp_all add: export_piece_def del: upt_Suc)
  qed simp
qed


text \<open>JSON: indenting an object written at the margin is writing it indented.\<close>

lemma json_quote_no_NL: "NL \<notin> set (json_quote v)"
proof -
  have "NL \<notin> set (json_escape c)" for c
    by (auto simp: json_escape_def Let_def NL_def hex_digit_def dest!: arg_cong [where f = code])
  then show ?thesis by (auto simp: json_quote_def NL_def)
qed

lemma indent_join:
  assumes "ls \<noteq> []" and "\<forall>l \<in> set ls. NL \<notin> set l"
  shows "indent_by (join [NL] ls) pad = join [NL] (map (\<lambda>l. pad @ l) ls)"
  using assms by (simp add: indent_by_def split_on_join)

definition object_lines :: "string \<Rightarrow> cells \<Rightarrow> string list" where
  "object_lines pad ob =
     (let fs = map (\<lambda>(k, v). pad @ ''  '' @ json_quote k @ '': '' @ json_cell_text v) ob in
      ''{'' # map (\<lambda>f. f @ '','') (butlast fs) @ [last fs] @ [pad @ ''}''])"

lemma join_commas: "fs \<noteq> [] \<Longrightarrow> join ('','' @ [NL]) fs @ [NL] @ e = join [NL] (map (\<lambda>f. f @ '','') (butlast fs) @ [last fs] @ [e])"
proof (induction fs)
  case (Cons f fs)
  then show ?case by (cases fs) (simp_all add: join_Cons)
qed simp

lemma pretty_object_lines: "ob \<noteq> [] \<Longrightarrow> pretty_object pad ob = join [NL] (object_lines pad ob)"
  using join_commas [of "map (\<lambda>(k, v). pad @ ''  '' @ json_quote k @ '': '' @ json_cell_text v) ob" "pad @ ''}''"]
  by (simp add: pretty_object_def object_lines_def Let_def join_Cons)

lemma indent_object: "indent_by (pretty_object [] ob) ''  '' = ''  '' @ pretty_object ''  '' ob"
proof (cases "ob = []")
  case False
  have "NL \<notin> set (json_cell_text v)" for v
    using json_quote_no_NL by (auto simp: json_cell_text_def NL_def split: option.split)
  then have "\<forall>l \<in> set (object_lines [] ob). NL \<notin> set l"
    using False json_quote_no_NL
    by (auto simp: object_lines_def Let_def NL_def last_map dest!: in_set_butlastD split: prod.splits)
  moreover have "object_lines [] ob \<noteq> []" by (simp add: object_lines_def Let_def)
  ultimately have "indent_by (pretty_object [] ob) ''  '' = join [NL] (map (\<lambda>l. ''  '' @ l) (object_lines [] ob))"
    unfolding pretty_object_lines [OF False] by (rule indent_join [rotated])
  also have "map (\<lambda>l. ''  '' @ l) (object_lines [] ob) = (''  '' @ hd (object_lines ''  '' ob)) # tl (object_lines ''  '' ob)"
    using False by (simp add: object_lines_def Let_def map_butlast last_map comp_def case_prod_beta)
  also have "join [NL] \<dots> = ''  '' @ join [NL] (object_lines ''  '' ob)"
    by (simp add: object_lines_def Let_def join_Cons)
  finally show ?thesis unfolding pretty_object_lines [OF False] .
qed (simp add: pretty_object_def indent_by_def NL_def)

section \<open>Reading the CSV back\<close>

text \<open>The writer's separator is neither a quote nor a line end.\<close>

definition good_delimiter :: "char \<Rightarrow> bool" where
  "good_delimiter d \<longleftrightarrow> d \<noteq> QUOTE \<and> d \<noteq> NL \<and> d \<noteq> CR"

lemma special_chars [simp]: "QUOTE \<noteq> NL" "QUOTE \<noteq> CR" "NL \<noteq> QUOTE" "CR \<noteq> QUOTE" "NL \<noteq> CR" "CR \<noteq> NL"
  by (simp_all add: QUOTE_def NL_def CR_def)

definition in_field :: "string \<Rightarrow> csv_state \<Rightarrow> csv_state" where
  "in_field v s = s\<lparr>cs_field := cs_field s @ v, cs_started := True\<rparr>"

lemma scan_plain:
  assumes "\<forall>c \<in> set v. c \<noteq> d \<and> c \<noteq> QUOTE \<and> c \<noteq> NL \<and> c \<noteq> CR" and "\<not> cs_quotes s"
  shows "csv_scan d QUOTE s (v @ r) = csv_scan d QUOTE (if v = [] then s else in_field v s) r"
  using assms
proof (induction v arbitrary: s)
  case (Cons c v)
  then have "csv_scan d QUOTE s ((c # v) @ r) = csv_scan d QUOTE (in_field [c] s) (v @ r)"
    by (cases s) (simp add: csv_scan.simps(2) in_field_def add_char_def)
  also have "\<dots> = csv_scan d QUOTE (if v = [] then in_field [c] s else in_field v (in_field [c] s)) r"
    using Cons by (intro Cons.IH) (auto simp: in_field_def)
  finally show ?case by (cases s) (simp add: in_field_def)
qed simp

lemma scan_quoted_body:
  assumes "cs_quotes s" and "cs_started s" and "\<not> starts_with [QUOTE] r"
  shows "csv_scan d QUOTE s (double_char QUOTE v @ QUOTE # r) =
    csv_scan d QUOTE (s\<lparr>cs_field := cs_field s @ v, cs_quotes := False\<rparr>) r"
  using assms
proof (induction v arbitrary: s)
  case Nil
  then show ?case by (cases s) (simp add: csv_scan.simps(2) double_char_def)
next
  case (Cons c v)
  have "csv_scan d QUOTE s (double_char QUOTE (c # v) @ QUOTE # r)
      = csv_scan d QUOTE (add_char c s) (double_char QUOTE v @ QUOTE # r)"
    using Cons.prems by (cases s) (simp add: double_char_def csv_scan.simps(2) starts_with_def)
  also have "\<dots> = csv_scan d QUOTE ((add_char c s)\<lparr>cs_field := cs_field (add_char c s) @ v, cs_quotes := False\<rparr>) r"
    using Cons.prems by (intro Cons.IH) (simp_all add: add_char_def)
  finally show ?case by (simp add: add_char_def)
qed

lemma scan_field:
  assumes "\<not> cs_quotes s" and "\<not> starts_with [QUOTE] r"
  shows "csv_scan d QUOTE s (csv_field d v @ r) = csv_scan d QUOTE (if v = [] then s else in_field v s) r"
proof (cases "d \<in> set v \<or> QUOTE \<in> set v \<or> NL \<in> set v \<or> CR \<in> set v")
  case True
  then have "v \<noteq> []" by auto
  have "csv_scan d QUOTE s (csv_field d v @ r)
      = csv_scan d QUOTE (s\<lparr>cs_started := True, cs_quotes := True\<rparr>) (double_char QUOTE v @ QUOTE # r)"
    using True assms(1) by (simp add: csv_field_def csv_scan.simps(2))
  also have "\<dots> = csv_scan d QUOTE (in_field v s) r"
    using assms by (subst scan_quoted_body) (simp_all, cases s, simp add: in_field_def)
  finally show ?thesis using \<open>v \<noteq> []\<close> by simp
next
  case False
  then have "csv_field d v = v" by (simp add: csv_field_def)
  moreover from False have "\<forall>c \<in> set v. c \<noteq> d \<and> c \<noteq> QUOTE \<and> c \<noteq> NL \<and> c \<noteq> CR" by auto
  ultimately show ?thesis using assms(1) scan_plain by simp
qed


text \<open>A whole line, a line end, a whole file.\<close>

definition after_line :: "string list \<Rightarrow> csv_state \<Rightarrow> csv_state" where
  "after_line cells s = s\<lparr>cs_row := cs_row s @ butlast cells, cs_field := last cells,
     cs_started := cs_started s \<or> cells \<noteq> [[]]\<rparr>"

lemma scan_line:
  assumes "good_delimiter d" and "cells \<noteq> []" and "\<not> cs_quotes s" and "cs_field s = []" and "\<not> starts_with [QUOTE] r"
  shows "csv_scan d QUOTE s (csv_line d cells @ r) = csv_scan d QUOTE (after_line cells s) r"
  using assms(2-4)
proof (induction cells arbitrary: s)
  case (Cons v cells)
  show ?case
  proof (cases cells)
    case Nil
    have "csv_scan d QUOTE s (csv_line d [v] @ r) = csv_scan d QUOTE (if v = [] then s else in_field v s) r"
      using Cons.prems assms(5) scan_field by (simp add: csv_line_def)
    also have "(if v = [] then s else in_field v s) = after_line [v] s"
      using Cons.prems by (cases s) (simp add: in_field_def after_line_def)
    finally show ?thesis by (simp only: Nil)
  next
    case (Cons v2 cells')
    let ?s = "if v = [] then s else in_field v s" and ?rest = "csv_line d cells @ r"
    have "csv_scan d QUOTE s (csv_line d (v # cells) @ r) = csv_scan d QUOTE s (csv_field d v @ d # ?rest)"
      using Cons by (simp add: csv_line_def)
    also have "\<dots> = csv_scan d QUOTE ?s (d # ?rest)"
      using Cons.prems assms(1) by (intro scan_field) (auto simp: good_delimiter_def starts_with_def)
    also have "\<dots> = csv_scan d QUOTE (end_field (?s\<lparr>cs_started := True\<rparr>)) ?rest"
      using Cons.prems assms(1) by (simp add: csv_scan.simps(2) good_delimiter_def in_field_def)
    also have "\<dots> = csv_scan d QUOTE (after_line cells (end_field (?s\<lparr>cs_started := True\<rparr>))) r"
      using Cons Cons.prems by (intro Cons.IH) (auto simp: end_field_def in_field_def)
    also have "after_line cells (end_field (?s\<lparr>cs_started := True\<rparr>)) = after_line (v # cells) s"
      using Cons Cons.prems by (cases s) (auto simp: after_line_def end_field_def in_field_def)
    finally show ?thesis .
  qed
qed simp

lemma scan_crlf:
  assumes "good_delimiter d" and "\<not> cs_quotes s"
  shows "csv_scan d QUOTE s (CRLF @ r) = csv_scan d QUOTE (end_record s) r"
proof -
  have "d \<noteq> NL" "d \<noteq> CR" "NL \<noteq> d" "CR \<noteq> d" using assms(1) by (auto simp: good_delimiter_def)
  with assms(2) show ?thesis
    by (cases s) (simp add: CRLF_def csv_scan.simps(2) end_record_def end_field_def Let_def)
qed

text \<open>A line end that the reader takes for one, outside quotes.\<close>

definition line_end :: "char \<Rightarrow> string \<Rightarrow> bool" where
  "line_end d sep \<longleftrightarrow> (\<forall>r. \<not> starts_with [QUOTE] (sep @ r)) \<and>
     (\<forall>s r. \<not> cs_quotes s \<longrightarrow> csv_scan d QUOTE s (sep @ r) = csv_scan d QUOTE (end_record s) r)"

lemma line_ends: "good_delimiter d \<Longrightarrow> line_end d CRLF" "good_delimiter d \<Longrightarrow> line_end d [NL]"
proof -
  assume d: "good_delimiter d"
  then show "line_end d CRLF" using scan_crlf by (auto simp: line_end_def CRLF_def starts_with_def QUOTE_def CR_def)
  have "csv_scan d QUOTE s (NL # r) = csv_scan d QUOTE (end_record s) r" if "\<not> cs_quotes s" for s r
  proof -
    have "NL \<noteq> d" "NL \<noteq> QUOTE" "NL \<noteq> CR" using d by (auto simp: good_delimiter_def)
    with that show ?thesis by (cases s) (simp add: csv_scan.simps(2) end_record_def end_field_def Let_def)
  qed
  then show "line_end d [NL]" by (auto simp: line_end_def starts_with_def QUOTE_def NL_def)
qed

lemma end_record_line:
  assumes "cs_row s = []" and "cells \<noteq> []"
  shows "end_record (after_line cells s) = s\<lparr>cs_records := cs_records s @ [cells], cs_field := [], cs_started := False\<rparr>"
  using assms by (cases s) (simp add: end_record_def end_field_def after_line_def Let_def)

lemma scan_lines:
  assumes "good_delimiter d" and "line_end d sep" and "ls \<noteq> []" and "\<forall>l \<in> set ls. l \<noteq> []"
  shows "csv_scan d QUOTE (csv_start\<lparr>cs_records := recs\<rparr>) (join sep (map (csv_line d) ls))
    = after_line (last ls) (csv_start\<lparr>cs_records := recs @ butlast ls\<rparr>)"
  using assms(3,4)
proof (induction ls arbitrary: recs)
  case (Cons l ls)
  let ?s = "csv_start\<lparr>cs_records := recs\<rparr>"
  have l: "l \<noteq> []" "\<not> cs_quotes ?s" "cs_field ?s = []" using Cons.prems by (simp_all add: csv_start_def)
  show ?case
  proof (cases ls)
    case Nil
    then show ?thesis using scan_line [OF assms(1) l, of "[]"] by (simp add: starts_with_def)
  next
    case (Cons l2 ls')
    have "csv_scan d QUOTE ?s (join sep (map (csv_line d) (l # ls)))
        = csv_scan d QUOTE ?s (csv_line d l @ sep @ join sep (map (csv_line d) ls))"
      using Cons by simp
    also have "\<dots> = csv_scan d QUOTE (after_line l ?s) (sep @ join sep (map (csv_line d) ls))"
      by (rule scan_line [OF assms(1) l]) (use assms(2) in \<open>simp add: line_end_def\<close>)
    also have "\<dots> = csv_scan d QUOTE (end_record (after_line l ?s)) (join sep (map (csv_line d) ls))"
      using assms(2) by (simp add: line_end_def after_line_def csv_start_def)
    also have "end_record (after_line l ?s) = csv_start\<lparr>cs_records := recs @ [l]\<rparr>"
      using l by (subst end_record_line) (simp_all add: csv_start_def)
    finally show ?thesis using Cons.IH [of "recs @ [l]"] Cons Cons.prems by simp
  qed
qed simp

lemma records_of_lines:
  assumes "good_delimiter d" and "line_end d sep" and "ls \<noteq> []" and "\<forall>l \<in> set ls. l \<noteq> []"
  shows "csv_records d QUOTE (join sep (map (csv_line d) ls)) = (if last ls = [[]] then butlast ls else ls)"
proof -
  let ?s = "after_line (last ls) (csv_start\<lparr>cs_records := butlast ls\<rparr>)"
  have "csv_scan d QUOTE csv_start (join sep (map (csv_line d) ls)) = ?s"
    using scan_lines [OF assms, of "[]"] by (simp add: csv_start_def)
  moreover have "cs_started ?s \<or> cs_field ?s \<noteq> [] \<or> cs_row ?s \<noteq> [] \<longleftrightarrow> last ls \<noteq> [[]]"
    by (auto simp: after_line_def csv_start_def)
  moreover have "cs_records (end_record ?s) = ls"
    using assms(3,4) by (subst end_record_line) (auto simp: csv_start_def)
  moreover have "cs_records (after_line l (csv_start\<lparr>cs_records := butlast ls\<rparr>)) = butlast ls" for l
    by (simp add: after_line_def)
  ultimately show ?thesis by (simp add: csv_records_def Let_def)
qed


definition csv_lines :: "string \<Rightarrow> result_set \<Rightarrow> string list list" where
  "csv_lines null rs = map col_name (rs_columns rs) #
     map (\<lambda>row. map (default null) (row_cells (rs_columns rs) row)) (rs_rows rs)"

lemma to_csv_lines: "to_csv d null rs = join CRLF (map (csv_line d) (csv_lines null rs))"
  by (simp add: to_csv_def csv_lines_def csv_row_def [abs_def] comp_def)

lemma csv_lines_full: "rs_columns rs \<noteq> [] \<Longrightarrow> \<forall>l \<in> set (csv_lines null rs). l \<noteq> []"
  by (auto simp: csv_lines_def row_cells_def)

section \<open>Markup\<close>

definition entity_of :: "char \<Rightarrow> string" where
  "entity_of c =
     (if c = CHR ''&'' then ''&amp;'' else if c = CHR ''<'' then ''&lt;'' else if c = CHR ''>'' then ''&gt;''
      else if c = QUOTE then ''&quot;'' else if c = APOS then ''&apos;'' else [c])"

lemma replace_char_append: "replace_char c to (s @ t) = replace_char c to s @ replace_char c to t"
  by (simp add: replace_char_def)

lemma replace_char_Nil: "replace_char c to [] = []"
  by (simp add: replace_char_def)

lemma xml_escape_append: "xml_escape (s @ t) = xml_escape s @ xml_escape t"
  by (simp add: xml_escape_def replace_char_append)

lemma xml_escape_char: "xml_escape [c] = entity_of c"
  by (simp add: xml_escape_def entity_of_def replace_char_def QUOTE_def APOS_def)

lemma xml_escape_concat: "xml_escape s = concat (map entity_of s)"
proof (induction s)
  case (Cons c s)
  then show ?case using xml_escape_append [of "[c]" s] xml_escape_char by simp
qed (simp add: xml_escape_def replace_char_def)

lemma xml_escape_safe: "set (xml_escape v) \<inter> {CHR ''<'', CHR ''>'', QUOTE, APOS} = {}"
  by (auto simp: xml_escape_concat entity_of_def QUOTE_def APOS_def split: if_splits)

section \<open>Properties\<close>

text \<open>An export written in pieces is the export written whole, in every format and for any number
  of rows per piece: no row is lost, repeated or joined differently at the border of a piece.\<close>

theorem chunks_make_the_file:
  "concat (export_chunks rs fmt table n default_csv) = export_result rs fmt table"
proof -
  let ?p = "chunk_plan_of rs fmt table default_csv"
  have "concat (export_chunks rs fmt table n default_csv)
      = (if rs_rows rs = [] then cp_head ?p @ cp_empty_tail ?p
         else cp_head ?p @ cp_first_sep ?p @ join (cp_sep ?p) (map (cp_row ?p) (rs_rows rs)) @ cp_tail ?p)"
    using pieces_concat [of "nat (max 1 n)" ?p "rs_rows rs" 0] piece_join [of "rs_rows rs" ?p]
    by (auto simp: export_chunks_def Let_def export_piece_def)
  also have "\<dots> = export_result rs fmt table"
  proof (cases fmt)
    case Json
    then show ?thesis
      by (auto simp: chunk_plan_of_def export_result_def to_json_def Let_def indent_object comp_def)
  qed (auto simp: chunk_plan_of_def export_result_def default_csv_def Let_def
      to_csv_def join_Cons to_inserts_def to_xml_def to_html_def)
  finally show ?thesis .
qed


definition people :: result_set where
  "people = \<lparr>rs_columns = [\<lparr>col_name = ''a,b'', col_type = ''text''\<rparr>, \<lparr>col_name = ''c'', col_type = ''text''\<rparr>],
     rs_rows = [[Some [QUOTE, NL], None]], rs_truncated = False, rs_cursor = False, rs_affected = 0\<rparr>"


text \<open>A one-column result whose last row is empty or NULL loses that row: the file ends in a line
  end, which the importer does not take for a last record.\<close>

theorem csv_last_row_lost:
  assumes "good_delimiter d" and "length (rs_columns rs) = 1" and "last (csv_lines null rs) = [[]]"
  shows "length (pt_rows (parse_csv (to_csv d null rs) d QUOTE True)) = length (rs_rows rs) - 1"
proof -
  have "rs_columns rs \<noteq> []" using assms(2) by auto
  then have "csv_records d QUOTE (to_csv d null rs) = butlast (csv_lines null rs)"
    unfolding to_csv_lines using assms(3) records_of_lines [OF assms(1) line_ends(1) [OF assms(1)] _ csv_lines_full]
    by (simp add: csv_lines_def)
  then show ?thesis by (cases "rs_rows rs") (simp_all add: parse_csv_def csv_lines_def cells_of_def)
qed

lemma csv_last_row_lost_witness:
  "pt_rows (parse_csv (to_csv CHR '','' [] \<lparr>rs_columns = [\<lparr>col_name = ''c'', col_type = ''text''\<rparr>],
     rs_rows = [[None]], rs_truncated = False, rs_cursor = False, rs_affected = 0\<rparr>) CHR '','' QUOTE True) = []"
  using csv_last_row_lost [of "CHR '',''" "\<lparr>rs_columns = [\<lparr>col_name = ''c'', col_type = ''text''\<rparr>],
     rs_rows = [[None]], rs_truncated = False, rs_cursor = False, rs_affected = 0\<rparr>" "[]"]
  by (simp add: good_delimiter_def QUOTE_def NL_def CR_def csv_lines_def row_cells_def cell_at_def)

end
