(* ===== verification/RowPaste.thy ===== *)
theory RowPaste
  imports Importers
begin

text \<open>
  Pasting rows as new rows of a table (\<open>rowPaste.ts\<close>): what a paste becomes, and which pending
  rows are already known to collide.
\<close>

section \<open>What a paste becomes\<close>

definition PASTE_ROW_LIMIT :: nat where "PASTE_ROW_LIMIT = 500"

record row_source =
  so_conn :: string
  so_db :: "string option"
  so_schema :: "string option"
  so_table :: string

record row_clipboard =
  cb_text :: string
  cb_columns :: "string list"
  cb_rows :: "cell list list"
  cb_source :: "row_source option"

record paste_target =
  pg_columns :: "string list"
  pg_source :: row_source

datatype wizard_reason = WrongShape | TooMany

datatype paste_plan =
    PasteNone
  | PasteInserts "cells list" "string list" pk_mode bool   \<comment> \<open>rows, ignored columns, key, from text\<close>
  | PasteWizard wizard_reason

definition same_source :: "row_source option \<Rightarrow> row_source \<Rightarrow> bool" where
  "same_source a b =
     (case a of None \<Rightarrow> False
      | Some s \<Rightarrow> so_conn s = so_conn b \<and> default [] (so_db s) = default [] (so_db b) \<and>
          default [] (so_schema s) = default [] (so_schema b) \<and> so_table s = so_table b)"

text \<open>\<open>new Map(columns.map(c => [lower(c), c]))\<close>: the last column of a name counts.\<close>

definition by_lower :: "string list \<Rightarrow> (string \<times> string) list" where
  "by_lower cols = fold (\<lambda>c. map_set (to_lower c) c) cols []"

definition landed_row :: "string option list \<Rightarrow> cell list \<Rightarrow> cells" where
  "landed_row landing row =
     fold (\<lambda>(i, col) vs. case col of None \<Rightarrow> vs | Some c \<Rightarrow> obj_set c (cell_at row i) vs) (index_list landing) []"

definition exact_paste :: "row_clipboard \<Rightarrow> paste_target \<Rightarrow> paste_plan" where
  "exact_paste clip target =
     (let landing = map (\<lambda>c. map_of (by_lower (pg_columns target)) (to_lower c)) (cb_columns clip) in
      if cb_rows clip = [] then PasteNone
      else if length (cb_rows clip) > PASTE_ROW_LIMIT then PasteWizard TooMany
      else if list_all (\<lambda>c. c = None) landing then PasteWizard WrongShape
      else PasteInserts (map (landed_row landing) (cb_rows clip))
             (map fst (filter (\<lambda>(c, l). l = None) (zip (cb_columns clip) landing)))
             (if same_source (cb_source clip) (pg_source target) then Generate else Keep) False)"

definition text_row :: "bool \<Rightarrow> string list \<Rightarrow> string list \<Rightarrow> cells" where
  "text_row empty_null order rec =
     obj_of (map (\<lambda>(i, col). let c = default [] (nth_opt rec i) in
       (col, if empty_null \<and> c = [] then None else Some c)) (index_list order))"

definition text_paste :: "string \<Rightarrow> paste_target \<Rightarrow> bool \<Rightarrow> paste_plan" where
  "text_paste text target empty_null =
     (let parsed = parse_clipboard text;
          rows = map (map (default [])) (pt_rows parsed);
          records = pt_headers parsed # rows;
          width = length (pg_columns target) in
      if list_ex (\<lambda>r. length r \<noteq> width) records then PasteWizard WrongShape
      else
        let names = map (\<lambda>h. map_of (by_lower (pg_columns target)) (to_lower (trim h))) (pt_headers parsed);
            is_header = list_all (\<lambda>h. h \<noteq> None) names \<and> length (uniq names) = width;
            order = (if is_header then map the names else pg_columns target);
            data = (if is_header then rows else records) in
        if data = [] then PasteNone
        else if length data > PASTE_ROW_LIMIT then PasteWizard TooMany
        else PasteInserts (map (text_row empty_null order) data) [] Keep True)"

definition plan_paste :: "string \<Rightarrow> row_clipboard option \<Rightarrow> paste_target \<Rightarrow> bool \<Rightarrow> paste_plan" where
  "plan_paste text clip target empty_null =
     (case clip of
        Some c \<Rightarrow> if cb_text c = text then exact_paste c target
          else if \<not> contains text [CHR 0x09] \<and> \<not> contains text [NL] then PasteNone
          else text_paste text target empty_null
      | None \<Rightarrow> if \<not> contains text [CHR 0x09] \<and> \<not> contains text [NL] then PasteNone
          else text_paste text target empty_null)"

section \<open>Rows known to collide\<close>

record loaded_rows =
  lr_columns :: "string list"
  lr_rows :: "cell list list"

text \<open>A tuple is given only when every column of the set has a value.\<close>

definition tuple_by :: "(string \<Rightarrow> cell) \<Rightarrow> string list \<Rightarrow> string list option" where
  "tuple_by val cols = (if list_ex (\<lambda>c. val c = None) cols then None else Some (map (\<lambda>c. the (val c)) cols))"

definition insert_value :: "cells \<Rightarrow> string \<Rightarrow> cell" where
  "insert_value values col =
     (case map_of (by_lower (obj_keys values)) (to_lower col) of None \<Rightarrow> None
      | Some k \<Rightarrow> (case map_of values k of None \<Rightarrow> None | Some v \<Rightarrow> v))"

definition loaded_index :: "string list \<Rightarrow> (string \<times> nat) list" where
  "loaded_index cols = fold (\<lambda>(i, c). map_set (to_lower c) i) (index_list cols) []"

definition loaded_value :: "string list \<Rightarrow> cell list \<Rightarrow> string \<Rightarrow> cell" where
  "loaded_value cols row col =
     (case map_of (loaded_index cols) (to_lower col) of None \<Rightarrow> None | Some i \<Rightarrow> cell_at row i)"

definition flag_row :: "nat \<Rightarrow> string list \<Rightarrow> (nat \<times> string list) list \<Rightarrow> (nat \<times> string list) list" where
  "flag_row i cols out =
     map_set i (fold (\<lambda>c cs. if c \<in> set cs then cs else cs @ [c]) cols (default [] (map_of out i))) out"

definition check_set ::
    "cells list \<Rightarrow> loaded_rows \<Rightarrow> string list \<Rightarrow> (nat \<Rightarrow> bool) \<Rightarrow> (nat \<times> string list) list \<Rightarrow> (nat \<times> string list) list" where
  "check_set ins loaded cols applies out =
     (if cols = [] then out
      else
        let tuples = map (\<lambda>(i, v). if applies i then tuple_by (insert_value v) cols else None) (index_list ins);
            taken = map (\<lambda>row. tuple_by (loaded_value (lr_columns loaded) row) cols) (lr_rows loaded)
        in fold (\<lambda>(i, t) out. case t of None \<Rightarrow> out
             | Some _ \<Rightarrow>
                 if list_ex (\<lambda>(j, u). j \<noteq> i \<and> u = t) (index_list tuples) \<or> t \<in> set taken
                 then flag_row i cols out else out) (index_list tuples) out)"

definition find_conflicts ::
    "cells list \<Rightarrow> loaded_rows \<Rightarrow> string list \<Rightarrow> string list list \<Rightarrow> (nat \<Rightarrow> pk_mode) \<Rightarrow> (nat \<times> string list) list" where
  "find_conflicts ins loaded pk unique_sets mode_of =
     fold (\<lambda>cols. check_set ins loaded cols (\<lambda>_. True)) unique_sets
       (check_set ins loaded pk (\<lambda>i. mode_of i = Keep) [])"

section \<open>What is flagged\<close>

definition pending_tuple :: "cells list \<Rightarrow> string list \<Rightarrow> (nat \<Rightarrow> bool) \<Rightarrow> nat \<Rightarrow> string list option" where
  "pending_tuple ins cols applies i =
     (if i < length ins \<and> applies i then tuple_by (insert_value (ins ! i)) cols else None)"

text \<open>A pending row collides on a set: all its columns have a value, equal to those of another
  pending row the set applies to, or of a row on screen.\<close>

definition collides :: "cells list \<Rightarrow> loaded_rows \<Rightarrow> string list \<Rightarrow> (nat \<Rightarrow> bool) \<Rightarrow> nat \<Rightarrow> bool" where
  "collides ins loaded cols applies i \<longleftrightarrow>
     (\<exists>t. pending_tuple ins cols applies i = Some t \<and>
        ((\<exists>j. j \<noteq> i \<and> pending_tuple ins cols applies j = Some t) \<or>
         (\<exists>row \<in> set (lr_rows loaded). tuple_by (loaded_value (lr_columns loaded) row) cols = Some t)))"

definition flagged :: "(nat \<times> string list) list \<Rightarrow> nat \<Rightarrow> string set" where
  "flagged out i = set (default [] (map_of out i))"

lemma set_add_missing: "set (fold (\<lambda>c cs. if c \<in> set cs then cs else cs @ [c]) cols ks) = set cols \<union> set ks"
  by (induction cols arbitrary: ks) auto

lemma flagged_flag_row: "flagged (flag_row i cols out) k = (if k = i then set cols else {}) \<union> flagged out k"
  by (simp add: flagged_def flag_row_def set_add_missing)

definition hits :: "(nat \<Rightarrow> 'a option \<Rightarrow> bool) \<Rightarrow> (nat \<times> 'a option) list \<Rightarrow> nat \<Rightarrow> bool" where
  "hits P its k \<longleftrightarrow> (\<exists>t. (k, Some t) \<in> set its \<and> P k (Some t))"

lemma hits_Cons: "hits P ((i, t) # its) k \<longleftrightarrow> (k = i \<and> t \<noteq> None \<and> P i t) \<or> hits P its k"
  by (auto simp: hits_def)

lemma flagged_fold:
  "flagged (fold (\<lambda>(i, t) out. case t of None \<Rightarrow> out | Some _ \<Rightarrow> if P i t then flag_row i cols out else out) its out) k
    = (if hits P its k then set cols else {}) \<union> flagged out k"
proof (induction its arbitrary: out)
  case (Cons it its)
  obtain i t where it: "it = (i, t)" by (cases it)
  show ?case
    by (cases t) (auto simp: it hits_Cons Cons flagged_flag_row)
qed (simp add: hits_def)

lemma tuple_list:
  "index_list (map (\<lambda>(i, v). if applies i then tuple_by (insert_value v) cols else None) (index_list ins))
    = map (\<lambda>i. (i, pending_tuple ins cols applies i)) [0..<length ins]"
proof (rule nth_equalityI)
  have len: "length (index_list xs) = length xs" for xs :: "'b list" by (simp add: index_list_def)
  show "length (index_list (map (\<lambda>(i, v). if applies i then tuple_by (insert_value v) cols else None) (index_list ins)))
      = length (map (\<lambda>i. (i, pending_tuple ins cols applies i)) [0..<length ins])"
    by (simp add: index_list_def)
qed (auto simp: index_list_def pending_tuple_def)

lemma flagged_check_set:
  "flagged (check_set ins loaded cols applies out) k
    = (if collides ins loaded cols applies k then set cols else {}) \<union> flagged out k"
proof (cases "cols = []")
  case False
  let ?ts = "map (\<lambda>i. (i, pending_tuple ins cols applies i)) [0..<length ins]"
  define P where "P = (\<lambda>i t. list_ex (\<lambda>(j, u). j \<noteq> i \<and> u = t) ?ts \<or>
    t \<in> set (map (\<lambda>row. tuple_by (loaded_value (lr_columns loaded) row) cols) (lr_rows loaded)))"
  have "flagged (check_set ins loaded cols applies out) k = (if hits P ?ts k then set cols else {}) \<union> flagged out k"
    unfolding check_set_def Let_def tuple_list if_not_P [OF False] flagged_fold [symmetric] P_def by (rule refl)
  moreover have bound: "i < length ins" if "pending_tuple ins cols applies i = Some t" for i t
    using that by (auto simp: pending_tuple_def split: if_splits)
  then have "(k, Some t) \<in> set ?ts \<longleftrightarrow> pending_tuple ins cols applies k = Some t" for t
    by (force simp: image_iff)
  then have "hits P ?ts k \<longleftrightarrow> (\<exists>t. pending_tuple ins cols applies k = Some t \<and> P k (Some t))"
    unfolding hits_def by blast
  moreover have "P k (Some t) \<longleftrightarrow> (\<exists>j. j \<noteq> k \<and> pending_tuple ins cols applies j = Some t) \<or>
      (\<exists>row \<in> set (lr_rows loaded). tuple_by (loaded_value (lr_columns loaded) row) cols = Some t)" for t
  proof -
    have "list_ex (\<lambda>(j, u). j \<noteq> k \<and> u = Some t) ?ts \<longleftrightarrow> (\<exists>j. j \<noteq> k \<and> pending_tuple ins cols applies j = Some t)"
      using bound by (auto simp: list_ex_iff)
    moreover have "Some t \<in> set (map (\<lambda>row. tuple_by (loaded_value (lr_columns loaded) row) cols) (lr_rows loaded)) \<longleftrightarrow>
        (\<exists>row \<in> set (lr_rows loaded). tuple_by (loaded_value (lr_columns loaded) row) cols = Some t)"
      unfolding set_map image_iff by metis
    ultimately show ?thesis unfolding P_def by blast
  qed
  ultimately show ?thesis unfolding collides_def by simp
qed (simp add: check_set_def)

section \<open>Properties\<close>

text \<open>The rows a paste is warned about are exactly the colliding ones: a pending row is marked
  with a column when and only when it collides on a set holding that column - the primary key,
  for rows that keep it, or a unique index. A NULL or a column left out never collides.\<close>

theorem conflicts_exact:
  "set (default [] (map_of (find_conflicts ins loaded pk unique_sets mode) i))
    = \<Union> {set cols | cols. cols = pk \<and> collides ins loaded cols (\<lambda>i. mode i = Keep) i \<or>
         cols \<in> set unique_sets \<and> collides ins loaded cols (\<lambda>_. True) i}"
proof -
  have "flagged (fold (\<lambda>cols. check_set ins loaded cols (\<lambda>_. True)) sets out) i
      = \<Union> {set cols | cols. cols \<in> set sets \<and> collides ins loaded cols (\<lambda>_. True) i} \<union> flagged out i" for sets out
  proof (induction sets arbitrary: out)
    case (Cons cols sets)
    then show ?case by (auto simp: flagged_check_set)
  qed simp
  moreover have "flagged (check_set ins loaded pk (\<lambda>i. mode i = Keep) []) i
      = (if collides ins loaded pk (\<lambda>i. mode i = Keep) i then set pk else {})"
    unfolding flagged_check_set by (simp add: flagged_def)
  ultimately have "flagged (find_conflicts ins loaded pk unique_sets mode) i
      = \<Union> {set cols | cols. cols \<in> set unique_sets \<and> collides ins loaded cols (\<lambda>_. True) i} \<union>
        (if collides ins loaded pk (\<lambda>i. mode i = Keep) i then set pk else {})"
    by (simp add: find_conflicts_def)
  then show ?thesis unfolding flagged_def by auto
qed

end
