(* ===== verification/Notes.thy ===== *)
theory Notes
  imports Objects KvStore
begin

text \<open>
  The notification history (\<open>notifications.ts\<close>) and the last opening of each saved connection
  (\<open>recentConnections.ts\<close>). \<open>wf_notes\<close> is the invariant of the history; the clock and the local
  calendar are arguments.
\<close>

datatype note_level = Info_Note | Ok_Note | Warn_Note | Error_Note

datatype note_action = Retry_Action string | Result_Action int

record note_body =
  no_at :: int
  no_level :: note_level
  no_text :: string
  no_title :: "string option"
  no_detail :: "string option"
  no_action :: "note_action option"

record note_entry = note_body +
  no_id :: int

record note_log =
  nl_notes :: "note_entry list"
  nl_seen :: int

definition MAX_NOTES :: int where "MAX_NOTES = 100"
definition PERSIST_MAX :: nat where "PERSIST_MAX = 50"
definition PERSIST_DAYS :: int where "PERSIST_DAYS = 7"
definition NOTES_KEY :: string where "NOTES_KEY = ''quaero.notifications''"
definition NOTE_DAY_MS :: int where "NOTE_DAY_MS = 86400000"

definition level_text :: "note_level \<Rightarrow> string" where
  "level_text l = (case l of Info_Note \<Rightarrow> ''info'' | Ok_Note \<Rightarrow> ''ok'' | Warn_Note \<Rightarrow> ''warn'' | Error_Note \<Rightarrow> ''error'')"

definition level_of :: "string \<Rightarrow> note_level option" where
  "level_of s = List.find (\<lambda>l. level_text l = s) [Info_Note, Ok_Note, Warn_Note, Error_Note]"

section \<open>The list\<close>

definition next_note_id :: "note_entry list \<Rightarrow> int" where
  "next_note_id ns = fold (\<lambda>n m. max m (no_id n)) ns 0 + 1"

definition same_note :: "note_body \<Rightarrow> string \<Rightarrow> note_entry \<Rightarrow> bool" where
  "same_note b text newest \<longleftrightarrow> no_text newest = text \<and> no_level newest = no_level b"

definition refreshed_note :: "note_body \<Rightarrow> note_entry \<Rightarrow> note_entry" where
  "refreshed_note b newest = newest\<lparr>
     no_title := (case truthy (no_title b) of None \<Rightarrow> no_title newest | t \<Rightarrow> t),
     no_detail := (case truthy (no_detail b) of None \<Rightarrow> no_detail newest | d \<Rightarrow> d),
     no_action := (case no_action b of None \<Rightarrow> no_action newest | a \<Rightarrow> a),
     no_at := no_at b\<rparr>"

definition fresh_note :: "note_body \<Rightarrow> string \<Rightarrow> int \<Rightarrow> note_entry" where
  "fresh_note b text i = \<lparr>no_at = no_at b, no_level = no_level b, no_text = text,
     no_title = truthy (no_title b), no_detail = truthy (no_detail b), no_action = no_action b, no_id = i\<rparr>"

definition push_note :: "note_entry list \<Rightarrow> note_body \<Rightarrow> int \<Rightarrow> note_entry list" where
  "push_note ns b max_notes =
     (let text = trim (no_text b); added = take (nat max_notes) (fresh_note b text (next_note_id ns) # ns) in
      if text = [] then ns
      else case ns of [] \<Rightarrow> added
        | newest # rest \<Rightarrow> if same_note b text newest then refreshed_note b newest # rest else added)"

datatype note_day = Today_Notes | Yesterday_Notes | Day_Notes int

text \<open>\<open>start_of\<close> is the first instant of the local day of an instant.\<close>

definition note_day_of :: "(int \<Rightarrow> int) \<Rightarrow> int \<Rightarrow> int \<Rightarrow> note_day" where
  "note_day_of start_of now key =
     (let today = start_of now; yesterday = start_of (today - 1) in
      if key \<ge> today then Today_Notes else if key = yesterday then Yesterday_Notes else Day_Notes key)"

definition note_day_step :: "(int \<Rightarrow> int) \<Rightarrow> note_entry \<Rightarrow> (int \<times> note_entry list) list \<Rightarrow> (int \<times> note_entry list) list" where
  "note_day_step start_of n out =
     (let key = start_of (no_at n) in
      if out \<noteq> [] \<and> fst (last out) = key
      then butlast out @ [(key, snd (last out) @ [n])] else out @ [(key, [n])])"

definition notes_by_day :: "(int \<Rightarrow> int) \<Rightarrow> note_entry list \<Rightarrow> int \<Rightarrow> (note_day \<times> note_entry list) list" where
  "notes_by_day start_of ns now =
     map (\<lambda>(key, ns). (note_day_of start_of now key, ns))
       (fold (note_day_step start_of) (sort_key (\<lambda>n. - no_at n) ns) [])"

definition unread_count :: "note_log \<Rightarrow> nat" where
  "unread_count log = length (filter (\<lambda>n. no_at n > nl_seen log) (nl_notes log))"

section \<open>Storage\<close>

definition action_json :: "note_action \<Rightarrow> json" where
  "action_json a = (case a of
     Retry_Action c \<Rightarrow> JObj [(''kind'', JStr ''retry''), (''connDefId'', JStr c)]
   | Result_Action t \<Rightarrow> JObj [(''kind'', JStr ''result''), (''tabId'', JNum t)])"

definition note_json :: "note_entry \<Rightarrow> json" where
  "note_json n = JObj ([(''id'', JNum (no_id n)), (''at'', JNum (no_at n)), (''level'', JStr (level_text (no_level n))),
     (''text'', JStr (no_text n))] @ opt_member ''title'' JStr (no_title n) @ opt_member ''detail'' JStr (no_detail n)
     @ opt_member ''action'' action_json (no_action n))"

definition serialize_notes :: "note_log \<Rightarrow> json" where
  "serialize_notes log =
     JObj [(''seenAt'', JNum (nl_seen log)), (''notes'', JArr (map note_json (take PERSIST_MAX (nl_notes log))))]"

definition note_of_json :: "json \<Rightarrow> note_entry option" where
  "note_of_json j =
     (case (json_num (json_field j ''id''), json_num (json_field j ''at''),
            Option.bind (json_str (json_field j ''level'')) level_of, json_str (json_field j ''text'')) of
        (Some i, Some t, Some l, Some s) \<Rightarrow>
          Some \<lparr>no_at = t, no_level = l, no_text = s,
            no_title = json_str (json_field j ''title''), no_detail = json_str (json_field j ''detail''),
            no_action = (case json_field j ''action'' of None \<Rightarrow> None
              | Some a \<Rightarrow> (case (json_str (json_field a ''kind''), json_str (json_field a ''connDefId'')) of
                  (Some k, Some c) \<Rightarrow> if k = ''retry'' then Some (Retry_Action c) else None
                | _ \<Rightarrow> None)), no_id = i\<rparr>
      | _ \<Rightarrow> None)"

definition parse_notes :: "int \<Rightarrow> json option \<Rightarrow> note_log" where
  "parse_notes now raw =
     (let oldest = now - PERSIST_DAYS * NOTE_DAY_MS;
          j = default JNull raw;
          items = (case json_field j ''notes'' of Some (JArr xs) \<Rightarrow> xs | _ \<Rightarrow> [])
      in \<lparr>nl_notes = take PERSIST_MAX (filter (\<lambda>n. no_at n \<ge> oldest) (List.map_filter note_of_json items)),
          nl_seen = default 0 (json_num (json_field j ''seenAt''))\<rparr>)"

definition load_notes :: "('k, json) kv_ops \<Rightarrow> int \<Rightarrow> 'k \<Rightarrow> note_log" where
  "load_notes kv now s = load_doc kv NOTES_KEY (parse_notes now) s"

definition save_notes :: "('k, json) kv_ops \<Rightarrow> note_log \<Rightarrow> 'k \<Rightarrow> 'k" where
  "save_notes kv log s = save_doc kv NOTES_KEY serialize_notes log s"

section \<open>Recent connections\<close>

type_synonym usage_map = "int obj"

definition USAGE_KEY :: string where "USAGE_KEY = ''quaero.connections.used''"
definition RECENT_MAX :: int where "RECENT_MAX = 6"

definition touch_connection :: "usage_map \<Rightarrow> string \<Rightarrow> int \<Rightarrow> usage_map" where
  "touch_connection used i at = obj_set i at used"

definition recent_connections :: "('c \<Rightarrow> string) \<Rightarrow> 'c list \<Rightarrow> usage_map \<Rightarrow> int \<Rightarrow> ('c \<times> int option) list" where
  "recent_connections ident saved used limit =
     take (nat limit) (sort_key (\<lambda>x. - default (- 1) (snd x)) (map (\<lambda>c. (c, map_of used (ident c))) saved))"

definition parse_usage :: "json option \<Rightarrow> usage_map" where
  "parse_usage raw =
     (case raw of Some (JObj ob) \<Rightarrow>
        obj_of (List.map_filter (\<lambda>(k, v). map_option (Pair k) (json_num (Some v))) ob)
      | _ \<Rightarrow> [])"

definition load_usage :: "('k, json) kv_ops \<Rightarrow> 'k \<Rightarrow> usage_map" where
  "load_usage kv s = load_doc kv USAGE_KEY parse_usage s"

definition kept_usage :: "usage_map \<Rightarrow> string list \<Rightarrow> usage_map" where
  "kept_usage used ids =
     obj_of (List.map_filter (\<lambda>i. map_option (Pair i) (map_of used i)) ids)"

definition save_usage :: "('k, json) kv_ops \<Rightarrow> usage_map \<Rightarrow> string list \<Rightarrow> 'k \<Rightarrow> 'k" where
  "save_usage kv used ids s =
     save_doc kv USAGE_KEY (\<lambda>m. JObj (map (\<lambda>(k, v). (k, JNum v)) m)) (kept_usage used ids) s"

section \<open>The invariant\<close>

text \<open>Two ns in a row differ, identifiers are distinct, and the list is no longer than \<open>n\<close>.\<close>

definition repeats :: "note_entry \<Rightarrow> note_entry \<Rightarrow> bool" where
  "repeats a b \<longleftrightarrow> no_text a = no_text b \<and> no_level a = no_level b"

definition wf_notes :: "int \<Rightarrow> note_entry list \<Rightarrow> bool" where
  "wf_notes n ns \<longleftrightarrow> distinct (map no_id ns) \<and> int (length ns) \<le> max 0 n \<and>
     successively (\<lambda>a b. \<not> repeats a b) ns"

lemma fold_max_note: "m \<le> fold (\<lambda>n m. max m (no_id n)) ns m \<and>
    (\<forall>x \<in> set ns. no_id x \<le> fold (\<lambda>n m. max m (no_id n)) ns m)"
proof (induction ns arbitrary: m)
  case (Cons a ns)
  from Cons [of "max m (no_id a)"] show ?case by (auto intro: order_trans)
qed simp

lemma next_note_new: "next_note_id ns \<notin> no_id ` set ns"
  using fold_max_note [of 0 ns] by (force simp: next_note_id_def)

lemma next_note_ne: "next_note_id ns = no_id x \<Longrightarrow> x \<notin> set ns"
  using next_note_new by (metis imageI)

lemma wf_take: "wf_notes n (x # xs) \<Longrightarrow> wf_notes n (y # xs)"
  if "no_id y = no_id x" "repeats x y"
  using that by (cases xs) (auto simp: wf_notes_def repeats_def)

lemma repeats_refreshed: "repeats newest (refreshed_note b newest)" "no_id (refreshed_note b newest) = no_id newest"
  by (simp_all add: repeats_def refreshed_note_def)

lemma wf_added:
  assumes "wf_notes n ns" and "ns = [] \<or> \<not> repeats x (hd ns)" and "no_id x \<notin> no_id ` set ns"
  shows "wf_notes n (take (nat n) (x # ns))"
proof -
  have "distinct (map no_id (x # ns))" "successively (\<lambda>a b. \<not> repeats a b) (x # ns)"
    using assms by (auto simp: wf_notes_def successively_Cons)
  then show ?thesis
    unfolding wf_notes_def take_map [symmetric] by (auto intro: successively_take distinct_take)
qed

lemma fresh_note_id: "no_id (fresh_note b text i) = i"
  and fresh_note_text: "no_text (fresh_note b text i) = text" "no_level (fresh_note b text i) = no_level b"
  by (simp_all add: fresh_note_def)

lemma wf_push: "wf_notes n ns \<Longrightarrow> wf_notes n (push_note ns b n)"
  by (cases ns)
     (auto simp: push_note_def Let_def same_note_def repeats_def fresh_note_id fresh_note_text
       dest!: next_note_ne
       intro!: wf_added wf_take [OF repeats_refreshed(2,1)])

lemma wf_notes_Nil: "wf_notes n []"
  by (simp add: wf_notes_def)

section \<open>What storage keeps\<close>

text \<open>A note as it comes back: an offer to show a tab's result does not outlive the session.\<close>

definition stored_note :: "note_entry \<Rightarrow> note_entry" where
  "stored_note n = n\<lparr>no_action := (case no_action n of Some (Retry_Action c) \<Rightarrow> Some (Retry_Action c) | _ \<Rightarrow> None)\<rparr>"

lemma level_of_text [simp]: "level_of (level_text l) = Some l"
  by (cases l) (simp_all add: level_of_def level_text_def)

lemma note_back: "note_of_json (note_json n) = Some (stored_note n)"
  by (cases n; cases "no_title n"; cases "no_detail n"; cases "no_action n")
     (auto simp: note_of_json_def note_json_def json_field_def json_num_def json_str_def opt_member_def
       action_json_def stored_note_def split: note_action.split)

lemma notes_back: "List.map_filter note_of_json (map note_json ns) = map stored_note ns"
  by (induction ns) (simp_all add: map_filter_simps note_back)

lemma stored_note_at [simp]: "no_at (stored_note n) = no_at n"
  by (simp add: stored_note_def)

lemma parse_serialize_notes:
  "parse_notes now (Some (serialize_notes log)) =
     \<lparr>nl_notes = map stored_note (filter (\<lambda>n. no_at n \<ge> now - PERSIST_DAYS * NOTE_DAY_MS) (take PERSIST_MAX (nl_notes log))),
      nl_seen = nl_seen log\<rparr>"
proof -
  have "length (filter P (take k xs)) \<le> k" for P :: "note_entry \<Rightarrow> bool" and k xs
    using length_filter_le [of P "take k xs"] by simp
  then show ?thesis
    by (simp add: parse_notes_def serialize_notes_def json_field_def json_num_def notes_back filter_map comp_def
        take_map Let_def)
qed

interpretation notes_doc:
  stored_doc "resolved_ops memory_ops" NOTES_KEY serialize_notes "parse_notes now"
    "\<lambda>_. True" "\<lambda>log. \<lparr>nl_notes = map stored_note (filter (\<lambda>n. no_at n \<ge> now - PERSIST_DAYS * NOTE_DAY_MS)
      (take PERSIST_MAX (nl_notes log))), nl_seen = nl_seen log\<rparr>" for now
  by unfold_locales (rule parse_serialize_notes)

text \<open>Grouping by day: the notes of the groups in order are the notes, newest first.\<close>

lemma note_days_concat: "concat (map snd (fold (note_day_step f) ns out)) = concat (map snd out) @ ns"
proof (induction ns arbitrary: out)
  case (Cons n ns)
  have "concat (map snd (note_day_step f n out)) = concat (map snd out) @ [n]"
    by (cases out rule: rev_cases) (auto simp: note_day_step_def Let_def)
  with Cons show ?case by simp
qed simp

lemma notes_by_day_concat: "concat (map snd (notes_by_day f ns now)) = sort_key (\<lambda>n. - no_at n) ns"
  by (simp add: notes_by_day_def note_days_concat case_prod_beta comp_def)

section \<open>Properties\<close>

text \<open>Whatever is notified, the history holds at most its hundred notes, each under an identifier
  of its own, and never the same message twice in a row.\<close>

theorem notes_invariant:
  "wf_notes MAX_NOTES (fold (\<lambda>b ns. push_note ns b MAX_NOTES) bs [])"
proof -
  have "wf_notes MAX_NOTES (fold (\<lambda>b ns. push_note ns b MAX_NOTES) bs ns)" if "wf_notes MAX_NOTES ns" for ns
    using that by (induction bs arbitrary: ns) (auto intro: wf_push)
  from this [OF wf_notes_Nil] show ?thesis .
qed

text \<open>The welcome screen offers the connections in the order they were last used, those never used
  after them in the order they were saved, and no more than asked for.\<close>

theorem recent_sorted:
  "\<exists>xs. recent_connections ident saved used limit = take (nat limit) xs \<and>
     sorted_wrt (\<lambda>a b. default (- 1) (snd b) \<le> default (- 1) (snd a)) xs \<and>
     (\<forall>t. filter (\<lambda>x. default (- 1) (snd x) = t) xs =
        filter (\<lambda>x. default (- 1) (snd x) = t) (map (\<lambda>c. (c, map_of used (ident c))) saved))"
proof -
  define ys where "ys = map (\<lambda>c. (c, map_of used (ident c))) saved"
  define xs where "xs = sort_key (\<lambda>x. - default (- 1) (snd x)) ys"
  have "sorted (map (\<lambda>x. - default (- 1) (snd x)) xs)" by (simp add: xs_def)
  then have "sorted_wrt (\<lambda>a b. default (- 1) (snd b) \<le> default (- 1) (snd a)) xs"
    by (simp add: sorted_wrt_map)
  moreover have "filter (\<lambda>x. default (- 1) (snd x) = t) xs = filter (\<lambda>x. default (- 1) (snd x) = t) ys" for t
    using sort_key_stable [of "\<lambda>x. - default (- 1) (snd x)" "- t" ys] by (simp add: xs_def)
  moreover have "recent_connections ident saved used limit = take (nat limit) xs"
    by (simp add: recent_connections_def xs_def ys_def case_prod_beta)
  ultimately show ?thesis unfolding ys_def by blast
qed

end
