(* ===== verification/Stores.thy ===== *)
theory Stores
  imports Tabs Connections Snippets Notebook History LocalHistory KvStore
begin

text \<open>
  The persistence adapters: \<open>connectionStore.ts\<close>, \<open>historyStore.ts\<close>, \<open>localHistoryStore.ts\<close>,
  \<open>notebookStore.ts\<close>, \<open>snippetStore.ts\<close>, \<open>tabsStore.ts\<close>. Each pairs a writer and a reader with one key of
  the shared storage; here each is shown to be a \<open>stored_doc\<close>, and the documents not to disturb one
  another. A stored text is the JSON value it denotes.
\<close>

section \<open>The adapters\<close>

definition CONNECTIONS_KEY :: string where "CONNECTIONS_KEY = ''quaero.connections''"
definition COLLAPSED_KEY :: string where "COLLAPSED_KEY = ''quaero.groups.collapsed''"
definition HISTORY_KEY :: string where "HISTORY_KEY = ''quaero.history''"
definition LIMIT_KEY :: string where "LIMIT_KEY = ''quaero.history.limit''"
definition LOCAL_HISTORY_KEY :: string where "LOCAL_HISTORY_KEY = ''quaero.localHistory''"
definition NOTEBOOKS_KEY :: string where "NOTEBOOKS_KEY = ''quaero.notebooks''"
definition SNIPPETS_KEY :: string where "SNIPPETS_KEY = ''quaero.snippets''"
definition WORKSPACE_KEY :: string where "WORKSPACE_KEY = ''quaero.workspace''"

definition load_connections :: "('k, json) kv_ops \<Rightarrow> 'k \<Rightarrow> connection list" where
  "load_connections kv s = load_doc kv CONNECTIONS_KEY parse_connections s"

definition save_connections :: "('k, json) kv_ops \<Rightarrow> connection list \<Rightarrow> 'k \<Rightarrow> 'k" where
  "save_connections kv cs s = save_doc kv CONNECTIONS_KEY serialize_connections cs s"

definition groups_json :: "string list \<Rightarrow> json" where
  "groups_json names = JArr (map JStr names)"

definition parse_groups :: "json option \<Rightarrow> string list" where
  "parse_groups raw =
     (case raw of Some (JArr xs) \<Rightarrow> List.map_filter (\<lambda>x. json_str (Some x)) xs | _ \<Rightarrow> [])"

definition load_collapsed_groups :: "('k, json) kv_ops \<Rightarrow> 'k \<Rightarrow> string list" where
  "load_collapsed_groups kv s = load_doc kv COLLAPSED_KEY parse_groups s"

definition save_collapsed_groups :: "('k, json) kv_ops \<Rightarrow> string list \<Rightarrow> 'k \<Rightarrow> 'k" where
  "save_collapsed_groups kv names s = save_doc kv COLLAPSED_KEY groups_json names s"

definition load_history :: "('k, json) kv_ops \<Rightarrow> 'k \<Rightarrow> history_entry list" where
  "load_history kv s = load_doc kv HISTORY_KEY parse_history s"

definition save_history :: "('k, json) kv_ops \<Rightarrow> history_entry list \<Rightarrow> 'k \<Rightarrow> 'k" where
  "save_history kv xs s = save_doc kv HISTORY_KEY serialize_history xs s"

text \<open>\<open>String(n)\<close> and \<open>Number(raw)\<close>: the text of an integer is the JSON number; any other JSON
  text is not a number. \<open>Number\<close> of an integer's text is the integer.\<close>

definition parse_limit :: "json option \<Rightarrow> int" where
  "parse_limit raw =
     (case raw of None \<Rightarrow> DEFAULT_HISTORY_LIMIT | Some j \<Rightarrow> clamp_limit (json_num (Some j)))"

definition limit_json :: "int \<Rightarrow> json" where
  "limit_json n = JNum (clamp_limit (Some n))"

definition load_history_limit :: "('k, json) kv_ops \<Rightarrow> 'k \<Rightarrow> int" where
  "load_history_limit kv s = load_doc kv LIMIT_KEY parse_limit s"

definition save_history_limit :: "('k, json) kv_ops \<Rightarrow> int \<Rightarrow> 'k \<Rightarrow> 'k" where
  "save_history_limit kv n s = save_doc kv LIMIT_KEY limit_json n s"

definition load_local_history :: "('k, json) kv_ops \<Rightarrow> 'k \<Rightarrow> tab_history list" where
  "load_local_history kv s = load_doc kv LOCAL_HISTORY_KEY parse_local_history s"

text \<open>The one that tells whether the storage took it.\<close>

definition save_local_history :: "('k, json) kv_ops \<Rightarrow> tab_history list \<Rightarrow> 'k \<Rightarrow> bool \<times> 'k" where
  "save_local_history kv xs s =
     (case kv_set kv LOCAL_HISTORY_KEY (serialize_local_history xs) s of
        None \<Rightarrow> (False, s) | Some s' \<Rightarrow> (True, s'))"

definition load_notebooks :: "('k, json) kv_ops \<Rightarrow> 'k \<Rightarrow> notebook list" where
  "load_notebooks kv s = load_doc kv NOTEBOOKS_KEY parse_notebooks s"

definition save_notebooks :: "('k, json) kv_ops \<Rightarrow> notebook list \<Rightarrow> 'k \<Rightarrow> 'k" where
  "save_notebooks kv ns s = save_doc kv NOTEBOOKS_KEY serialize_notebooks ns s"

definition load_snippets :: "('k, json) kv_ops \<Rightarrow> 'k \<Rightarrow> saved_snippet list" where
  "load_snippets kv s = load_doc kv SNIPPETS_KEY parse_snippets s"

definition save_snippets :: "('k, json) kv_ops \<Rightarrow> saved_snippet list \<Rightarrow> 'k \<Rightarrow> 'k" where
  "save_snippets kv xs s = save_doc kv SNIPPETS_KEY serialize_snippets xs s"

definition load_workspace :: "('k, json) kv_ops \<Rightarrow> 'k \<Rightarrow> tab_state option" where
  "load_workspace kv s = load_doc kv WORKSPACE_KEY parse_workspace s"

definition save_workspace :: "('k, json) kv_ops \<Rightarrow> tab_state \<Rightarrow> 'k \<Rightarrow> 'k" where
  "save_workspace kv st s = save_doc kv WORKSPACE_KEY serialize_workspace st s"

section \<open>Each is a stored document\<close>

lemma local_save_doc: "snd (save_local_history kv xs s) = save_doc kv LOCAL_HISTORY_KEY serialize_local_history xs s"
  and local_save_accepts: "fst (save_local_history kv xs s) = accepts kv LOCAL_HISTORY_KEY serialize_local_history xs s"
  by (simp_all add: save_local_history_def save_doc_def accepts_def split: option.split)

lemma parse_groups_json: "parse_groups (Some (groups_json names)) = names"
  by (induction names) (simp_all add: parse_groups_def groups_json_def map_filter_simps json_str_def)

lemma clamp_twice: "clamp_limit (Some (clamp_limit n)) = clamp_limit n"
  by (simp add: clamp_limit_def MAX_HISTORY_LIMIT_def MIN_HISTORY_LIMIT_def DEFAULT_HISTORY_LIMIT_def split: option.split)

interpretation connections_doc:
  stored_doc "resolved_ops memory_ops" CONNECTIONS_KEY serialize_connections parse_connections
    "\<lambda>cs. \<forall>c \<in> set cs. stored_connection c" "\<lambda>cs. cs"
  by unfold_locales (rule parse_serialize_connections)

interpretation groups_doc:
  stored_doc "resolved_ops memory_ops" COLLAPSED_KEY groups_json parse_groups "\<lambda>_. True" "\<lambda>xs. xs"
  by unfold_locales (rule parse_groups_json)

interpretation history_doc:
  stored_doc "resolved_ops memory_ops" HISTORY_KEY serialize_history parse_history
    "\<lambda>xs. \<forall>e \<in> set xs. storable_entry e" "\<lambda>xs. xs"
  by unfold_locales (rule parse_serialize_history)

interpretation limit_doc:
  stored_doc "resolved_ops memory_ops" LIMIT_KEY limit_json parse_limit "\<lambda>_. True" "\<lambda>n. clamp_limit (Some n)"
  by unfold_locales (simp add: parse_limit_def limit_json_def json_num_def clamp_twice)

interpretation local_doc:
  stored_doc "resolved_ops memory_ops" LOCAL_HISTORY_KEY serialize_local_history parse_local_history
    wf_history "\<lambda>xs. xs"
  by unfold_locales (rule parse_serialize_local)

interpretation notebooks_doc:
  stored_doc "resolved_ops memory_ops" NOTEBOOKS_KEY serialize_notebooks parse_notebooks
    "\<lambda>ns. \<forall>n \<in> set ns. nb_cells n \<noteq> []" "\<lambda>ns. ns"
  by unfold_locales (rule parse_serialize_notebooks)

interpretation snippets_doc:
  stored_doc "resolved_ops memory_ops" SNIPPETS_KEY serialize_snippets parse_snippets
    "list_all wf_snippet" "\<lambda>xs. xs"
  by unfold_locales (rule parse_serialize_snippets)

interpretation workspace_doc:
  stored_doc "resolved_ops memory_ops" WORKSPACE_KEY "\<lambda>w. serialize_workspace (the w)" parse_workspace
    "\<lambda>w. \<exists>s. w = Some s \<and> storable_workspace s" "map_option restored_form"
  by unfold_locales (auto intro: parse_serialize_workspace)

section \<open>The documents together\<close>

text \<open>What can be saved, as one type; \<open>save_document\<close> is the adapter of its kind, \<open>load_document\<close>
  loads the document of the same kind, and \<open>kept_document\<close> is what should come back.\<close>

datatype app_document =
    Connections_Doc "connection list"
  | Groups_Doc "string list"
  | History_Doc "history_entry list"
  | Limit_Doc int
  | Local_Doc "tab_history list"
  | Notebooks_Doc "notebook list"
  | Snippets_Doc "saved_snippet list"
  | Workspace_Doc "tab_state option"

definition document_key :: "app_document \<Rightarrow> string" where
  "document_key d = (case d of Connections_Doc _ \<Rightarrow> CONNECTIONS_KEY | Groups_Doc _ \<Rightarrow> COLLAPSED_KEY
     | History_Doc _ \<Rightarrow> HISTORY_KEY | Limit_Doc _ \<Rightarrow> LIMIT_KEY | Local_Doc _ \<Rightarrow> LOCAL_HISTORY_KEY
     | Notebooks_Doc _ \<Rightarrow> NOTEBOOKS_KEY | Snippets_Doc _ \<Rightarrow> SNIPPETS_KEY | Workspace_Doc _ \<Rightarrow> WORKSPACE_KEY)"

definition document_json :: "app_document \<Rightarrow> json" where
  "document_json d = (case d of Connections_Doc x \<Rightarrow> serialize_connections x | Groups_Doc x \<Rightarrow> groups_json x
     | History_Doc x \<Rightarrow> serialize_history x | Limit_Doc x \<Rightarrow> limit_json x
     | Local_Doc x \<Rightarrow> serialize_local_history x | Notebooks_Doc x \<Rightarrow> serialize_notebooks x
     | Snippets_Doc x \<Rightarrow> serialize_snippets x | Workspace_Doc x \<Rightarrow> serialize_workspace (the x))"

definition save_document :: "('k, json) kv_ops \<Rightarrow> app_document \<Rightarrow> 'k \<Rightarrow> 'k" where
  "save_document kv d s = (case d of Connections_Doc x \<Rightarrow> save_connections kv x s
     | Groups_Doc x \<Rightarrow> save_collapsed_groups kv x s | History_Doc x \<Rightarrow> save_history kv x s
     | Limit_Doc x \<Rightarrow> save_history_limit kv x s | Local_Doc x \<Rightarrow> snd (save_local_history kv x s)
     | Notebooks_Doc x \<Rightarrow> save_notebooks kv x s | Snippets_Doc x \<Rightarrow> save_snippets kv x s
     | Workspace_Doc x \<Rightarrow> save_workspace kv (the x) s)"

definition load_document :: "('k, json) kv_ops \<Rightarrow> app_document \<Rightarrow> 'k \<Rightarrow> app_document" where
  "load_document kv d s = (case d of Connections_Doc _ \<Rightarrow> Connections_Doc (load_connections kv s)
     | Groups_Doc _ \<Rightarrow> Groups_Doc (load_collapsed_groups kv s) | History_Doc _ \<Rightarrow> History_Doc (load_history kv s)
     | Limit_Doc _ \<Rightarrow> Limit_Doc (load_history_limit kv s) | Local_Doc _ \<Rightarrow> Local_Doc (load_local_history kv s)
     | Notebooks_Doc _ \<Rightarrow> Notebooks_Doc (load_notebooks kv s) | Snippets_Doc _ \<Rightarrow> Snippets_Doc (load_snippets kv s)
     | Workspace_Doc _ \<Rightarrow> Workspace_Doc (load_workspace kv s))"

definition good_document :: "app_document \<Rightarrow> bool" where
  "good_document d \<longleftrightarrow> (case d of Connections_Doc x \<Rightarrow> (\<forall>c \<in> set x. stored_connection c) | Groups_Doc _ \<Rightarrow> True
     | History_Doc x \<Rightarrow> (\<forall>e \<in> set x. storable_entry e) | Limit_Doc x \<Rightarrow> clamp_limit (Some x) = x
     | Local_Doc x \<Rightarrow> wf_history x | Notebooks_Doc x \<Rightarrow> (\<forall>n \<in> set x. nb_cells n \<noteq> [])
     | Snippets_Doc x \<Rightarrow> list_all wf_snippet x
     | Workspace_Doc x \<Rightarrow> (case x of None \<Rightarrow> False | Some s \<Rightarrow> storable_workspace s))"

definition kept_document :: "app_document \<Rightarrow> app_document" where
  "kept_document d = (case d of Workspace_Doc x \<Rightarrow> Workspace_Doc (map_option restored_form x) | _ \<Rightarrow> d)"

lemmas document_keys = CONNECTIONS_KEY_def COLLAPSED_KEY_def HISTORY_KEY_def LIMIT_KEY_def LOCAL_HISTORY_KEY_def
  NOTEBOOKS_KEY_def SNIPPETS_KEY_def WORKSPACE_KEY_def

lemmas adapter_defs = load_connections_def save_connections_def load_collapsed_groups_def save_collapsed_groups_def
  load_history_def save_history_def load_history_limit_def save_history_limit_def load_local_history_def
  load_notebooks_def save_notebooks_def load_snippets_def save_snippets_def load_workspace_def save_workspace_def

lemma save_document_json:
  "save_document kv d s = default s (kv_set kv (document_key d) (document_json d) s)"
  by (cases d) (simp_all add: save_document_def document_key_def document_json_def adapter_defs save_doc_def
      local_save_doc)

lemma load_document_raw:
  assumes "kv_get kv s (document_key d) = Some (Some (document_json d))" and "good_document d"
  shows "load_document kv d s = kept_document d"
  using assms
  by (cases d)
     (auto simp: load_document_def document_key_def document_json_def good_document_def kept_document_def
       adapter_defs load_doc_def parse_serialize_connections parse_groups_json parse_serialize_history
       parse_serialize_local parse_serialize_notebooks parse_serialize_snippets parse_serialize_workspace
       parse_limit_def limit_json_def json_num_def split: option.splits)

text \<open>The kind of a document, and that no two kinds share a storage key.\<close>

fun doc_kind :: "app_document \<Rightarrow> nat" where
  "doc_kind (Connections_Doc _) = 0"
| "doc_kind (Groups_Doc _) = 1"
| "doc_kind (History_Doc _) = 2"
| "doc_kind (Limit_Doc _) = 3"
| "doc_kind (Local_Doc _) = 4"
| "doc_kind (Notebooks_Doc _) = 5"
| "doc_kind (Snippets_Doc _) = 6"
| "doc_kind (Workspace_Doc _) = 7"

lemma keys_of_kinds: "document_key d = document_key e \<longleftrightarrow> doc_kind d = doc_kind e"
  by (cases d; cases e) (simp_all add: document_key_def document_keys)

lemma kept_through:
  assumes "kv_interface kv" and "\<forall>d \<in> set ds. document_key d \<noteq> key"
  shows "kv_get kv (fold (save_document kv) ds s) key = kv_get kv s key"
  using assms(2)
proof (induction ds arbitrary: s)
  case (Cons d ds)
  have "kv_get kv (save_document kv d s) key = kv_get kv s key"
    using kv_interface.get_other [OF assms(1)] Cons.prems
    by (cases "kv_set kv (document_key d) (document_json d) s") (auto simp: save_document_json)
  with Cons show ?case by simp
qed simp


text \<open>A connection with its password, and a document of every other kind saved behind it.\<close>

definition secret_connection :: connection where
  "secret_connection = (hd (parse_connections (Some (JArr [JObj [(''id'', JStr ''c1''), (''name'', JStr ''a''),
     (''driver'', JStr ''mysql''), (''params'', JObj [(''password'', JStr ''pw'')])]]))))"


end
