(* ===== verification/QueryBuilder.thy ===== *)
theory QueryBuilder
  imports SqlVariables GridView
begin

text \<open>
  Predicates of the filter panel and of the visual query builder (\<open>queryBuilder.ts\<close>), the paged
  preview of a table (\<open>pagination.ts\<close>) and the panel's state (\<open>dataFilter.ts\<close>). A \<open>BETWEEN\<close> row holds
  its two bounds in one text around a separator, an ellipsis (U+2026) in the source; it is the
  argument \<open>sep\<close> here, a character like any other.
\<close>

section \<open>Conditions\<close>

datatype filter_op = Op_Eq | Op_Ne | Op_Lt | Op_Gt | Op_Le | Op_Ge | Op_Like | Op_Contains | Op_Starts
  | Op_Between | Op_In | Op_Is_Null | Op_Is_Not_Null

definition op_text :: "filter_op \<Rightarrow> string" where
  "op_text p = (case p of Op_Eq \<Rightarrow> ''='' | Op_Ne \<Rightarrow> ''!='' | Op_Lt \<Rightarrow> ''<'' | Op_Gt \<Rightarrow> ''>'' | Op_Le \<Rightarrow> ''<='' | Op_Ge \<Rightarrow> ''>=''
     | Op_Like \<Rightarrow> ''LIKE'' | Op_Contains \<Rightarrow> ''CONTAINS'' | Op_Starts \<Rightarrow> ''STARTS_WITH'' | Op_Between \<Rightarrow> ''BETWEEN''
     | Op_In \<Rightarrow> ''IN'' | Op_Is_Null \<Rightarrow> ''IS NULL'' | Op_Is_Not_Null \<Rightarrow> ''IS NOT NULL'')"

definition OPERATORS :: "filter_op list" where
  "OPERATORS = [Op_Eq, Op_Ne, Op_Lt, Op_Gt, Op_Le, Op_Ge, Op_Like, Op_Contains, Op_Starts, Op_Between, Op_In,
     Op_Is_Null, Op_Is_Not_Null]"

definition is_nullary_op :: "filter_op \<Rightarrow> bool" where
  "is_nullary_op p \<longleftrightarrow> p = Op_Is_Null \<or> p = Op_Is_Not_Null"

definition is_range_op :: "filter_op \<Rightarrow> bool" where
  "is_range_op p \<longleftrightarrow> p = Op_Between"

datatype conjunction = AND_Join | OR_Join

record condition =
  cd_column :: string
  cd_op :: filter_op
  cd_value :: string
  cd_enabled :: "bool option"
  cd_join :: "conjunction option"

record order_by =
  ob_column :: string
  ob_dir :: sort_dir

record query_spec =
  qs_table :: string
  qs_container :: "string option"
  qs_columns :: "string list"
  qs_conditions :: "condition list"
  qs_conjunction :: conjunction
  qs_order :: "order_by option"
  qs_limit :: "int option"
  qs_types :: "string obj option"

definition filter_literal :: "string \<Rightarrow> string option \<Rightarrow> string" where
  "filter_literal v ty =
     (if ty \<noteq> None \<and> classify_type (the ty) = NumberKind \<and> plain_number (trim v) then trim v
      else [CHR 0x27] @ double_char (CHR 0x27) v @ [CHR 0x27])"

definition type_of_column :: "string obj option \<Rightarrow> string \<Rightarrow> string option" where
  "type_of_column types column =
     (case types of None \<Rightarrow> None
      | Some ts \<Rightarrow> (case List.find (\<lambda>k. to_lower k = to_lower column) (obj_keys ts) of
          None \<Rightarrow> None | Some k \<Rightarrow> map_of ts k))"

definition render_in :: "string \<Rightarrow> (string \<Rightarrow> string) \<Rightarrow> string \<Rightarrow> string" where
  "render_in col litf v =
     (let items = map litf (filter (\<lambda>s. s \<noteq> []) (map trim (split_on CHR '','' v))) in
      if items = [] then [] else col @ '' IN ('' @ join '', '' items @ '')'')"

definition render_between :: "char \<Rightarrow> string \<Rightarrow> (string \<Rightarrow> string) \<Rightarrow> string \<Rightarrow> string" where
  "render_between sep col litf v =
     (case map trim (split_on sep v) of
        a # b # _ \<Rightarrow> if a = [] \<or> b = [] then [] else col @ '' BETWEEN '' @ litf a @ '' AND '' @ litf b
      | _ \<Rightarrow> [])"

definition render_condition :: "char \<Rightarrow> string \<Rightarrow> condition \<Rightarrow> string obj option \<Rightarrow> string" where
  "render_condition sep engine c types =
     (let col = quote_identifier (cd_column c) engine;
          litf = (\<lambda>v. filter_literal v (type_of_column types (cd_column c)));
          p = cd_op c; v = cd_value c in
      if trim (cd_column c) = [] then []
      else if is_nullary_op p then col @ '' '' @ op_text p
      else if p = Op_In then render_in col litf v
      else if p = Op_Contains \<or> p = Op_Starts then
        (if trim v = [] then []
         else col @ '' LIKE '' @ filter_literal ((if p = Op_Contains then ''%'' else []) @ v @ ''%'') None)
      else if p = Op_Between then render_between sep col litf v
      else col @ '' '' @ op_text p @ '' '' @ litf v)"

text \<open>The loop of \<open>renderWhere\<close>: the groups so far, one condition more.\<close>

definition active_sql :: "char \<Rightarrow> string \<Rightarrow> string obj option \<Rightarrow> condition \<Rightarrow> string" where
  "active_sql sep engine types c =
     (if cd_enabled c = Some False then [] else render_condition sep engine c types)"

definition group_step ::
    "('c \<Rightarrow> string) \<Rightarrow> ('c \<Rightarrow> conjunction) \<Rightarrow> 'c \<Rightarrow> string list list \<Rightarrow> string list list" where
  "group_step sql_of join_of c groups =
     (let sql = sql_of c in
      if sql = [] then groups
      else if groups = [] \<or> join_of c = OR_Join then groups @ [[sql]]
      else butlast groups @ [last groups @ [sql]])"

definition where_groups ::
    "char \<Rightarrow> string \<Rightarrow> condition list \<Rightarrow> conjunction \<Rightarrow> string obj option \<Rightarrow> string list list" where
  "where_groups sep engine cs conj_default types =
     fold (group_step (active_sql sep engine types) (\<lambda>c. default conj_default (cd_join c))) cs []"

definition join_groups :: "string list list \<Rightarrow> string" where
  "join_groups groups =
     (case groups of [g] \<Rightarrow> join '' AND '' g
      | _ \<Rightarrow> join '' OR '' (map (\<lambda>g. if length g > 1 then ''('' @ join '' AND '' g @ '')'' else hd g) groups))"

definition render_where ::
    "char \<Rightarrow> string \<Rightarrow> condition list \<Rightarrow> conjunction \<Rightarrow> string obj option \<Rightarrow> string" where
  "render_where sep engine cs conj_default types = join_groups (where_groups sep engine cs conj_default types)"

definition dir_text :: "sort_dir \<Rightarrow> string" where
  "dir_text d = (case d of Asc \<Rightarrow> ''ASC'' | Desc \<Rightarrow> ''DESC'')"

definition render_order_by :: "string \<Rightarrow> order_by list \<Rightarrow> string" where
  "render_order_by engine order =
     join '', '' (map (\<lambda>x. quote_identifier (ob_column x) engine @ '' '' @ dir_text (ob_dir x))
       (filter (\<lambda>x. trim (ob_column x) \<noteq> []) order))"

definition build_select :: "char \<Rightarrow> string \<Rightarrow> query_spec \<Rightarrow> string" where
  "build_select sep engine spec =
     (let cols = (if qs_columns spec = [] then ''*''
                  else join '', '' (map (\<lambda>c. quote_identifier c engine) (qs_columns spec)));
          name = qualified_name \<lparr>np_db = qs_container spec, np_schema = None, np_name = qs_table spec\<rparr> engine;
          wh = render_where sep engine (qs_conditions spec) (qs_conjunction spec) (qs_types spec);
          ord = render_order_by engine (case qs_order spec of None \<Rightarrow> [] | Some x \<Rightarrow> [x])
      in if trim (qs_table spec) = [] then []
         else ''SELECT '' @ cols @ '' FROM '' @ name
           @ (if wh = [] then [] else '' WHERE '' @ wh)
           @ (if ord = [] then [] else '' ORDER BY '' @ ord)
           @ (case qs_limit spec of None \<Rightarrow> [] | Some n \<Rightarrow> if n > 0 then '' LIMIT '' @ show_int n else [])
           @ '';'')"

definition empty_condition :: condition where
  "empty_condition = \<lparr>cd_column = [], cd_op = Op_Eq, cd_value = [], cd_enabled = None, cd_join = None\<rparr>"

section \<open>Paged previews\<close>

record preview_filter =
  pf_where :: "string option"
  pf_order :: "string option"

definition no_filter :: preview_filter where
  "no_filter = \<lparr>pf_where = None, pf_order = None\<rparr>"

definition preview_select ::
    "string \<Rightarrow> string \<Rightarrow> int \<Rightarrow> int \<Rightarrow> string option \<Rightarrow> string option \<Rightarrow> string" where
  "preview_select qualified engine n offset wh ord =
     (let m = max 0 offset;
          flt = (case truthy wh of None \<Rightarrow> [] | Some w \<Rightarrow> '' WHERE '' @ w);
          order = (case truthy ord of None \<Rightarrow> [] | Some b \<Rightarrow> '' ORDER BY '' @ b) in
      if engine_family engine = ''informix'' then
        ''SELECT '' @ (if m > 0 then ''SKIP '' @ show_int m @ '' '' else [])
          @ (if n \<ge> 1 then ''FIRST '' @ show_int n @ '' '' else []) @ ''* FROM '' @ qualified @ flt @ order @ '';''
      else if engine_family engine = ''mssql'' then
        (if n < 1 then ''SELECT * FROM '' @ qualified @ flt @ order @ '';''
         else ''SELECT * FROM '' @ qualified @ flt @ (if order = [] then '' ORDER BY (SELECT NULL)'' else order)
           @ '' OFFSET '' @ show_int m @ '' ROWS FETCH NEXT '' @ show_int n @ '' ROWS ONLY;'')
      else if n < 1 then ''SELECT * FROM '' @ qualified @ flt @ order @ '';''
      else ''SELECT * FROM '' @ qualified @ flt @ order @ '' LIMIT '' @ show_int n
        @ (if m > 0 then '' OFFSET '' @ show_int m else []) @ '';'')"

definition object_preview_query :: "name_parts \<Rightarrow> string \<Rightarrow> int \<Rightarrow> int \<Rightarrow> preview_filter option \<Rightarrow> string" where
  "object_preview_query parts engine n offset flt =
     (let m = max 0 offset; f = default no_filter flt in
      if engine_family engine = ''mongodb'' then
        ''db.'' @ np_name parts @ ''.find({})'' @ (if m > 0 then ''.skip('' @ show_int m @ '')'' else [])
          @ (if n \<ge> 1 then ''.limit('' @ show_int n @ '')'' else [])
      else preview_select (qualified_name parts engine) engine n m (pf_where f) (pf_order f))"

definition object_count_query :: "name_parts \<Rightarrow> string \<Rightarrow> preview_filter option \<Rightarrow> string option" where
  "object_count_query parts engine flt =
     (if engine_family engine = ''mongodb'' then None
      else Some (''SELECT COUNT(*) AS n FROM '' @ qualified_name parts engine
        @ (case Option.bind (Option.bind flt pf_where) (\<lambda>w. truthy (Some w)) of None \<Rightarrow> [] | Some w \<Rightarrow> '' WHERE '' @ w)
        @ '';''))"

section \<open>The panel\<close>

datatype filter_mode = Conditions_Mode | Sql_Mode

record filter_state =
  fs_conditions :: "condition list"
  fs_conjunction :: "conjunction option"
  fs_order :: "order_by list"
  fs_applied :: "preview_filter option"
  fs_collapsed :: bool
  fs_mode :: "filter_mode option"
  fs_raw_where :: "string option"
  fs_raw_order :: "string option"

text \<open>\<open>/^where\b/i\<close>, \<open>/^order\s+by\b/i\<close> and \<open>/;+\s*$/\<close>.\<close>

definition WHERE_HEAD :: re where
  "WHERE_HEAD = seqs [Bol, liti ''where'', WordB]"

definition ORDER_HEAD :: re where
  "ORDER_HEAD = seqs [Bol, liti ''order'', plus spc, liti ''by'', WordB]"

definition LAST_SEMIS :: re where
  "LAST_SEMIS = seqs [plus (one (CHR '';'')), star spc, Eol]"

definition clean_clause :: "re \<Rightarrow> string \<Rightarrow> string" where
  "clean_clause keyword text = trim (re_replace LAST_SEMIS [] (re_replace keyword [] (trim text)))"

definition raw_filter :: "string \<Rightarrow> string \<Rightarrow> preview_filter" where
  "raw_filter wh ord = \<lparr>pf_where = Some (clean_clause WHERE_HEAD wh), pf_order = Some (clean_clause ORDER_HEAD ord)\<rparr>"

definition empty_filter :: filter_state where
  "empty_filter = \<lparr>fs_conditions = [], fs_conjunction = None, fs_order = [], fs_applied = None, fs_collapsed = True,
     fs_mode = None, fs_raw_where = None, fs_raw_order = None\<rparr>"

definition summary_parts :: "filter_state \<Rightarrow> nat \<times> nat" where
  "summary_parts s =
     (length (filter (\<lambda>c. cd_enabled c \<noteq> Some False \<and> cd_column c \<noteq> []) (fs_conditions s)),
      length (filter (\<lambda>x. ob_column x \<noteq> []) (fs_order s)))"

definition clause_of :: "(preview_filter \<Rightarrow> string option) \<Rightarrow> preview_filter option \<Rightarrow> string" where
  "clause_of f p = default [] (Option.bind p f)"

definition applied_count :: "filter_state \<Rightarrow> nat" where
  "applied_count s =
     (let w = clause_of pf_where (fs_applied s); b = clause_of pf_order (fs_applied s) in
      if w = [] \<and> b = [] then 0
      else if fs_mode s = Some Sql_Mode then (if w = [] then 0 else 1) + (if b = [] then 0 else 1)
      else fst (summary_parts s) + snd (summary_parts s))"

definition draft_filter :: "char \<Rightarrow> string \<Rightarrow> filter_state \<Rightarrow> string obj option \<Rightarrow> preview_filter" where
  "draft_filter sep engine s types =
     (if fs_mode s = Some Sql_Mode then raw_filter (default [] (fs_raw_where s)) (default [] (fs_raw_order s))
      else \<lparr>pf_where = Some (render_where sep engine (fs_conditions s) (default AND_Join (fs_conjunction s)) types),
            pf_order = Some (render_order_by engine (fs_order s))\<rparr>)"

definition same_filter :: "preview_filter option \<Rightarrow> preview_filter option \<Rightarrow> bool" where
  "same_filter a b \<longleftrightarrow> clause_of pf_where a = clause_of pf_where b \<and> clause_of pf_order a = clause_of pf_order b"

definition filter_is_dirty :: "char \<Rightarrow> string \<Rightarrow> filter_state \<Rightarrow> string obj option \<Rightarrow> bool" where
  "filter_is_dirty sep engine s types \<longleftrightarrow> \<not> same_filter (Some (draft_filter sep engine s types)) (fs_applied s)"

definition filter_is_empty :: "preview_filter option \<Rightarrow> bool" where
  "filter_is_empty p \<longleftrightarrow> clause_of pf_where p = [] \<and> clause_of pf_order p = []"

definition apply_filter :: "char \<Rightarrow> string \<Rightarrow> filter_state \<Rightarrow> string obj option \<Rightarrow> filter_state" where
  "apply_filter sep engine s types = s\<lparr>fs_applied := Some (draft_filter sep engine s types)\<rparr>"

definition cycle_sort_column :: "order_by list \<Rightarrow> string \<Rightarrow> order_by list" where
  "cycle_sort_column order column =
     (case (case order of [x] \<Rightarrow> if ob_column x = column then Some (ob_dir x) else None | _ \<Rightarrow> None) of
        None \<Rightarrow> [\<lparr>ob_column = column, ob_dir = Asc\<rparr>]
      | Some Asc \<Rightarrow> [\<lparr>ob_column = column, ob_dir = Desc\<rparr>]
      | Some Desc \<Rightarrow> [])"

definition cell_filter_ops :: "cell \<Rightarrow> filter_op list" where
  "cell_filter_ops v = (case v of None \<Rightarrow> [Op_Is_Null, Op_Is_Not_Null] | Some _ \<Rightarrow> [Op_Eq, Op_Ne, Op_Contains, Op_Lt, Op_Gt])"

definition add_cell_condition :: "filter_state \<Rightarrow> string \<Rightarrow> filter_op \<Rightarrow> cell \<Rightarrow> filter_state" where
  "add_cell_condition s column p v =
     s\<lparr>fs_collapsed := False,
       fs_conditions := fs_conditions s @ [\<lparr>cd_column = column, cd_op = p, cd_value = default [] v,
         cd_enabled = None, cd_join = None\<rparr>]\<rparr>"

section \<open>What the WHERE means\<close>

text \<open>SQL's reading of \<open>a AND b OR c \<dots>\<close> without parentheses: AND binds tighter. \<open>acc\<close> is the value of
  the run of ANDs being read.\<close>

fun chain_value :: "bool \<Rightarrow> (conjunction \<times> bool) list \<Rightarrow> bool" where
  "chain_value acc [] = acc"
| "chain_value acc ((AND_Join, b) # r) = chain_value (acc \<and> b) r"
| "chain_value acc ((OR_Join, b) # r) = (acc \<or> chain_value b r)"

text \<open>What groups of predicates say, each predicate's truth given by \<open>T\<close>.\<close>

definition groups_hold :: "(string \<Rightarrow> bool) \<Rightarrow> string list list \<Rightarrow> bool" where
  "groups_hold T gs \<longleftrightarrow> list_ex (list_all T) gs"

text \<open>The predicates a panel renders, with the connector to the one before.\<close>

definition rendered_parts ::
    "char \<Rightarrow> string \<Rightarrow> condition list \<Rightarrow> conjunction \<Rightarrow> string obj option \<Rightarrow> (conjunction \<times> string) list" where
  "rendered_parts sep engine cs conj_default types =
     filter (\<lambda>(j, sql). sql \<noteq> [])
       (map (\<lambda>c. (default conj_default (cd_join c), active_sql sep engine types c)) cs)"

definition group_add :: "conjunction \<times> string \<Rightarrow> string list list \<Rightarrow> string list list" where
  "group_add p groups =
     (if groups = [] \<or> fst p = OR_Join then groups @ [[snd p]]
      else butlast groups @ [last groups @ [snd p]])"

lemma groups_by_parts:
  "where_groups sep engine cs d types = fold group_add (rendered_parts sep engine cs d types) []"
proof -
  have "fold (group_step (active_sql sep engine types) (\<lambda>c. default d (cd_join c))) cs gs =
      fold group_add (rendered_parts sep engine cs d types) gs" for gs
    by (induction cs arbitrary: gs)
       (auto simp: rendered_parts_def group_step_def group_add_def Let_def)
  then show ?thesis by (simp add: where_groups_def)
qed

lemma fold_group_add:
  "groups_hold T (fold group_add ps (gs @ [g])) \<longleftrightarrow>
     groups_hold T gs \<or> chain_value (list_all T g) (map (apsnd T) ps)"
proof (induction ps arbitrary: gs g)
  case Nil
  then show ?case by (auto simp: groups_hold_def)
next
  case (Cons p ps)
  obtain j s where p: "p = (j, s)" by (cases p)
  show ?case
  proof (cases j)
    case AND_Join
    then have "group_add p (gs @ [g]) = gs @ [g @ [s]]" by (simp add: group_add_def p)
    with Cons [of gs "g @ [s]"] AND_Join show ?thesis by (simp add: p)
  next
    case OR_Join
    then have "group_add p (gs @ [g]) = (gs @ [g]) @ [[s]]" by (simp add: group_add_def p)
    with Cons [of "gs @ [g]" "[s]"] OR_Join show ?thesis by (auto simp: p groups_hold_def)
  qed
qed

lemma fold_group_concat: "concat (fold group_add ps gs) = concat gs @ map snd ps"
proof (induction ps arbitrary: gs)
  case (Cons p ps)
  have "concat (group_add p gs) = concat gs @ [snd p]"
    by (cases gs rule: rev_cases) (auto simp: group_add_def)
  with Cons show ?case by simp
qed simp

lemma fold_group_not_Nil: "[] \<notin> set gs \<Longrightarrow> [] \<notin> set (fold group_add ps gs)"
proof (induction ps arbitrary: gs)
  case (Cons p ps)
  have "[] \<notin> set (group_add p gs)"
    using Cons.prems by (auto simp: group_add_def dest: in_set_butlastD)
  from Cons.IH [OF this] show ?case by simp
qed simp

section \<open>Properties\<close>



text \<open>A value of the panel is one literal of the engine: unless it is written as a number, what the
  engine reads back from it is the value itself, with nothing of it left over. This holds for engines
  whose literals have no backslash escapes.\<close>

theorem filter_value_is_literal:
  assumes "ty = None \<or> \<not> plain_number (trim v)" and "rest = [] \<or> hd rest \<noteq> CHR 0x27"
  shows "\<exists>body. filter_literal v ty @ rest = CHR 0x27 # body \<and> read_literal False body = Some (v, rest)"
  using read_literal_rendered [OF assms(2), of False v] assms(1) by (auto simp: filter_literal_def)

theorem filter_value_is_literal_witness:
  "\<exists>body. filter_literal [CHR 0x27, CHR 0x5C] None @ '' AND'' = CHR 0x27 # body \<and>
     read_literal False body = Some ([CHR 0x27, CHR 0x5C], '' AND'')"
  by (rule filter_value_is_literal) simp_all

text \<open>On MySQL, whose literals have backslash escapes, the value of a cell can leave its literal:
  filtering by such a cell writes a WHERE whose condition the cell's own text goes on.\<close>

definition hostile_cell :: string where
  "hostile_cell = [CHR 0x5C, CHR 0x27] @ '' OR 1=1 -- ''"

theorem mysql_filter_breaks_out:
  "\<exists>body. pf_where (draft_filter CHR ''~'' ''mysql''
       (add_cell_condition empty_filter ''name'' Op_Eq (Some hostile_cell)) None)
     = Some (BT # ''name'' @ BT # '' = '' @ CHR 0x27 # body) \<and>
     read_literal True body = Some ([CHR 0x27], '' OR 1=1 -- '' @ [CHR 0x27])"
proof (intro exI conjI)
  let ?body = "[CHR 0x5C, CHR 0x27, CHR 0x27] @ '' OR 1=1 -- '' @ [CHR 0x27]"
  show "pf_where (draft_filter CHR ''~'' ''mysql''
       (add_cell_condition empty_filter ''name'' Op_Eq (Some hostile_cell)) None)
     = Some (BT # ''name'' @ BT # '' = '' @ CHR 0x27 # ?body)" by code_simp
  show "read_literal True ?body = Some ([CHR 0x27], '' OR 1=1 -- '' @ [CHR 0x27])" by code_simp
qed

text \<open>The panel's button counts a condition that renders to nothing: an \<open>IN\<close> with an empty list is no
  part of the applied WHERE and is counted.\<close>

theorem count_overstates:
  "\<exists>s. render_where CHR ''~'' ''postgres'' (fs_conditions s) AND_Join None = ''\"a\" IS NULL'' \<and>
     applied_count (apply_filter CHR ''~'' ''postgres'' s None) = 2"
proof (intro exI conjI)
  let ?s = "add_cell_condition (add_cell_condition empty_filter ''a'' Op_Is_Null None) ''b'' Op_In None"
  show "render_where CHR ''~'' ''postgres'' (fs_conditions ?s) AND_Join None = ''\"a\" IS NULL''" by code_simp
  show "applied_count (apply_filter CHR ''~'' ''postgres'' ?s None) = 2" by code_simp
qed

end
