(* ===== verification/SqlTidy.thy ===== *)
theory SqlTidy
  imports QueryTarget
begin

text \<open>
  Undoing the noise an engine adds to SQL it stored (\<open>sqlTidy.ts\<close>): a scanner that splits the text
  into code, strings, comments and delimited identifiers, the removal of delimiters that mean
  nothing, and the collapse of doubled parentheses. Positions are indices into the text.
\<close>

section \<open>Names that need no delimiters\<close>

definition RESERVED :: "string list" where
  "RESERVED = [
     ''add'', ''all'', ''alter'', ''analyze'', ''and'', ''any'', ''as'', ''asc'', ''authorization'',
     ''begin'', ''between'', ''both'', ''by'', ''case'', ''cast'', ''check'', ''collate'', ''column'',
     ''commit'', ''constraint'', ''create'', ''cross'', ''current'', ''current_date'', ''current_time'',
     ''current_timestamp'', ''current_user'', ''default'', ''deferrable'', ''delete'', ''desc'',
     ''distinct'', ''do'', ''drop'', ''else'', ''end'', ''except'', ''exists'', ''false'', ''fetch'',
     ''filter'', ''for'', ''foreign'', ''from'', ''full'', ''grant'', ''group'', ''having'', ''if'',
     ''ignore'', ''in'', ''index'', ''inner'', ''insert'', ''intersect'', ''into'', ''is'', ''isnull'',
     ''join'', ''key'', ''lateral'', ''leading'', ''left'', ''like'', ''limit'', ''localtime'',
     ''localtimestamp'', ''natural'', ''not'', ''notnull'', ''null'', ''nulls'', ''offset'', ''on'',
     ''only'', ''or'', ''order'', ''outer'', ''over'', ''primary'', ''references'', ''regexp'', ''rename'',
     ''replace'', ''restrict'', ''returning'', ''right'', ''rollback'', ''row'', ''rows'', ''select'',
     ''session_user'', ''set'', ''some'', ''symmetric'', ''table'', ''then'', ''to'', ''trailing'',
     ''transaction'', ''trigger'', ''true'', ''union'', ''unique'', ''update'', ''user'', ''using'',
     ''values'', ''variadic'', ''view'', ''when'', ''where'', ''window'', ''with'', ''accessible'',
     ''asensitive'', ''before'', ''call'', ''cascade'', ''change'', ''char'', ''character'', ''condition'',
     ''continue'', ''convert'', ''database'', ''databases'', ''day_hour'', ''day_microsecond'',
     ''day_minute'', ''day_second'', ''dec'', ''declare'', ''delayed'', ''describe'', ''deterministic'',
     ''distinctrow'', ''div'', ''dual'', ''each'', ''elseif'', ''enclosed'', ''escaped'', ''exit'',
     ''explain'', ''float4'', ''float8'', ''force'', ''fulltext'', ''generated'', ''grouping'', ''groups'',
     ''high_priority'', ''hour_microsecond'', ''hour_minute'', ''hour_second'', ''infile'', ''inout'',
     ''insensitive'', ''int1'', ''int2'', ''int3'', ''int4'', ''int8'', ''iterate'', ''keys'', ''kill'',
     ''lead'', ''leave'', ''lines'', ''load'', ''lock'', ''long'', ''longblob'', ''longtext'', ''loop'',
     ''low_priority'', ''master_bind'', ''mediumblob'', ''mediumint'', ''mediumtext'', ''middleint'',
     ''minute_microsecond'', ''minute_second'', ''mod'', ''modifies'', ''no_write_to_binlog'',
     ''optimize'', ''option'', ''optionally'', ''out'', ''outfile'', ''partition'', ''purge'', ''range'',
     ''read'', ''reads'', ''read_write'', ''real'', ''recursive'', ''release'', ''repeat'', ''require'',
     ''resignal'', ''return'', ''revoke'', ''rlike'', ''schema'', ''schemas'', ''second_microsecond'',
     ''sensitive'', ''separator'', ''show'', ''signal'', ''spatial'', ''specific'', ''sql'',
     ''sqlexception'', ''sqlstate'', ''sqlwarning'', ''sql_big_result'', ''sql_calc_found_rows'',
     ''sql_small_result'', ''ssl'', ''starting'', ''stored'', ''straight_join'', ''terminated'',
     ''tinyblob'', ''tinyint'', ''tinytext'', ''undo'', ''unlock'', ''unsigned'', ''usage'', ''use'',
     ''utc_date'', ''utc_time'', ''utc_timestamp'', ''varbinary'', ''varcharacter'', ''varying'',
     ''virtual'', ''while'', ''write'', ''xor'', ''year_month'', ''zerofill'', ''analyse'', ''array'',
     ''asymmetric'', ''concurrently'', ''freeze'', ''ilike'', ''initially'', ''isolation'', ''leakproof'',
     ''placing'', ''similar'', ''tablesample'', ''verbose'', ''abort'', ''action'', ''after'', ''attach'',
     ''autoincrement'', ''conflict'', ''detach'', ''exclusive'', ''fail'', ''glob'', ''immediate'',
     ''indexed'', ''instead'', ''match'', ''no'', ''plan'', ''pragma'', ''query'', ''raise'', ''reindex'',
     ''temp'', ''temporary'', ''vacuum'', ''without'', ''bigint'', ''binary'', ''bit'', ''blob'',
     ''boolean'', ''bytea'', ''clob'', ''date'', ''datetime'', ''decimal'', ''double'', ''float'', ''int'',
     ''integer'', ''interval'', ''json'', ''jsonb'', ''money'', ''numeric'', ''nvarchar'', ''precision'',
     ''serial'', ''smallint'', ''text'', ''time'', ''timestamp'', ''timestamptz'', ''uuid'', ''varchar'',
     ''xml'']"

text \<open>\<open>/^[A-Za-z_][A-Za-z0-9_]*$/\<close>.\<close>

definition bare_word :: "string \<Rightarrow> bool" where
  "bare_word s \<longleftrightarrow> (case s of [] \<Rightarrow> False | c # t \<Rightarrow> (is_alpha c \<or> c = CHR ''_'') \<and> list_all is_word t)"

definition identifier_quote :: "string option \<Rightarrow> char option" where
  "identifier_quote engine =
     (let f = engine_family (default [] engine) in
      if f = ''mysql'' then Some BT else if f = ''postgres'' \<or> f = ''sqlite'' then Some DQ else None)"

definition can_go_bare :: "string \<Rightarrow> string option \<Rightarrow> bool" where
  "can_go_bare name engine \<longleftrightarrow>
     bare_word name \<and> to_lower name \<notin> set RESERVED \<and>
     \<not> (engine_family (default [] engine) = ''postgres'' \<and> name \<noteq> to_lower name)"

section \<open>The scanner\<close>

datatype span_kind = Code_Span | String_Span | Comment_Span | Ident_Span

record span =
  sp_kind :: span_kind
  sp_start :: nat
  sp_end :: nat

text \<open>How long a block comment goes on from where its depth is \<open>d\<close>; comments nest.\<close>

fun block_len :: "nat \<Rightarrow> string \<Rightarrow> nat" where
  "block_len 0 s = 0"
| "block_len (Suc d) [] = 0"
| "block_len (Suc d) [c] = 1"
| "block_len (Suc d) (c # e # s) =
     (if c = CHR ''/'' \<and> e = CHR ''*'' then 2 + block_len (Suc (Suc d)) s
      else if c = CHR ''*'' \<and> e = CHR ''/'' then 2 + block_len d s
      else 1 + block_len (Suc d) (e # s))"

text \<open>\<open>/^\$[A-Za-z_]?[A-Za-z0-9_]*\$/\<close> at the start of \<open>c # s\<close> with \<open>c\<close> the first dollar.\<close>

definition dollar_quote :: "string \<Rightarrow> string option" where
  "dollar_quote s =
     (case dropWhile is_word s of d # _ \<Rightarrow> if d = CHR ''$'' then Some (CHR ''$'' # takeWhile is_word s @ ''$'') else None
      | [] \<Rightarrow> None)"

text \<open>How long a run goes on behind its opening quote \<open>q\<close>; \<open>esc\<close> says that a backslash takes the next
  character with it.\<close>

fun run_len :: "bool \<Rightarrow> char \<Rightarrow> string \<Rightarrow> nat" where
  "run_len esc q [] = 0"
| "run_len esc q [c] = (if esc \<and> c = CHR 0x5C then 2 else 1)"
| "run_len esc q (c # d # s) =
     (if esc \<and> c = CHR 0x5C then 2 + run_len esc q s
      else if c = q then (if d = q then 2 + run_len esc q s else 1)
      else 1 + run_len esc q (d # s))"

text \<open>The span that begins at the head of the text left, with its length; \<open>None\<close> where code goes on.\<close>

definition quoted_span :: "char option \<Rightarrow> char \<Rightarrow> string \<Rightarrow> span_kind \<times> nat" where
  "quoted_span quote c s =
     (let idn = (quote = Some c); esc = (\<not> idn \<and> quote = Some BT) in
      (if idn then Ident_Span else String_Span, min (1 + run_len esc c s) (1 + length s)))"

definition span_at :: "char option \<Rightarrow> string \<Rightarrow> (span_kind \<times> nat) option" where
  "span_at quote r =
     (case r of [] \<Rightarrow> None
      | c # s \<Rightarrow>
          if (c = CHR ''-'' \<and> starts_with ''-'' s) \<or> c = CHR ''#''
          then Some (Comment_Span, length (takeWhile (\<lambda>x. x \<noteq> CHR 0x0A) r))
          else if c = CHR ''/'' \<and> starts_with ''*'' s then Some (Comment_Span, 2 + block_len 1 (tl s))
          else case (if c = CHR ''$'' then dollar_quote s else None) of
            Some tag \<Rightarrow> Some (String_Span,
              case index_of (drop (length tag) r) tag of None \<Rightarrow> length r | Some k \<Rightarrow> length tag + k + length tag)
          | None \<Rightarrow>
              if c = CHR 0x27 \<or> c = DQ \<or> c = BT then Some (quoted_span quote c s) else None)"

lemma span_at_len: "span_at quote r = Some (k, n) \<Longrightarrow> 0 < n"
  by (auto simp: span_at_def quoted_span_def Let_def dollar_quote_def quote_defs
      split: list.splits if_splits option.splits)

lemma block_len_le: "block_len d s \<le> length s"
  by (induction d s rule: block_len.induct) auto

lemma index_of_bound: "index_of s p = Some k \<Longrightarrow> k + length p \<le> length s"
  by (drule index_of_Some) auto

lemma span_at_bound: "span_at quote r = Some (k, n) \<Longrightarrow> n \<le> length r"
proof (cases r)
  case (Cons c s)
  assume a: "span_at quote r = Some (k, n)"
  have "length (takeWhile (\<lambda>x. x \<noteq> CHR 0x0A) r) \<le> length r" by (rule length_takeWhile_le)
  moreover have "2 + block_len 1 (tl s) \<le> length r" if "starts_with ''*'' s"
    using that block_len_le [of 1 "tl s"] Cons by (cases s) (auto simp: starts_with_def)
  moreover have "length tag + i + length tag \<le> length r"
    if "index_of (drop (length tag) r) tag = Some i" for tag i
    using index_of_bound [OF that] that by (cases "length tag \<le> length r") auto
  ultimately show ?thesis using a Cons
    by (auto simp: span_at_def quoted_span_def Let_def split: if_splits option.splits)
qed (simp add: span_at_def)

definition code_span :: "nat \<Rightarrow> nat \<Rightarrow> span list" where
  "code_span a b = (if b > a then [\<lparr>sp_kind = Code_Span, sp_start = a, sp_end = b\<rparr>] else [])"

function span_loop :: "char option \<Rightarrow> string \<Rightarrow> nat \<Rightarrow> nat \<Rightarrow> span list" where
  "span_loop quote sql i code_start =
     (if i < length sql then
        (case span_at quote (drop i sql) of
           None \<Rightarrow> span_loop quote sql (Suc i) code_start
         | Some (k, n) \<Rightarrow> code_span code_start i @ \<lparr>sp_kind = k, sp_start = i, sp_end = i + n\<rparr>
             # span_loop quote sql (i + n) (i + n))
      else code_span code_start (length sql))"
  by pat_completeness auto
termination
  by (relation "measure (\<lambda>(quote, sql, i, code_start). length sql - i)") (auto dest: span_at_len)

declare span_loop.simps [simp del]

definition scan_spans :: "string \<Rightarrow> char option \<Rightarrow> span list" where
  "scan_spans sql quote = span_loop quote sql 0 0"

definition span_text :: "string \<Rightarrow> span \<Rightarrow> string" where
  "span_text sql s = slice sql (sp_start s) (sp_end s)"

section \<open>Dropping delimiters\<close>

definition ident_name :: "string \<Rightarrow> char \<Rightarrow> string" where
  "ident_name raw quote = undouble quote (butlast (tl raw))"

definition unquoted_span :: "string \<Rightarrow> char \<Rightarrow> string option \<Rightarrow> span \<Rightarrow> string" where
  "unquoted_span sql quote engine s =
     (let raw = span_text sql s in
      if sp_kind s \<noteq> Ident_Span \<or> length raw < 2 \<or> last raw \<noteq> quote then raw
      else let name = ident_name raw quote in if can_go_bare name engine then name else raw)"

definition unquote_identifiers :: "string \<Rightarrow> string option \<Rightarrow> string" where
  "unquote_identifiers sql engine =
     (case identifier_quote engine of None \<Rightarrow> sql
      | Some quote \<Rightarrow> concat (map (unquoted_span sql quote engine) (scan_spans sql (Some quote))))"

section \<open>Collapsing parentheses\<close>

definition GROUPING_KEYWORDS :: "string list" where
  "GROUPING_KEYWORDS = [''and'', ''as'', ''between'', ''by'', ''case'', ''do'', ''else'', ''from'', ''having'', ''in'',
     ''join'', ''limit'', ''offset'', ''on'', ''or'', ''order'', ''returning'', ''select'', ''set'', ''then'', ''union'',
     ''using'', ''when'', ''where'']"

definition GROUPING_PUNCT :: string where
  "GROUPING_PUNCT = ''=<>+-*/%!&|^~,(''"

definition ident_char :: "char \<Rightarrow> bool" where
  "ident_char c \<longleftrightarrow> is_word c \<or> c = CHR ''$'' \<or> 128 \<le> code c"

definition code_mask :: "string \<Rightarrow> char option \<Rightarrow> bool list" where
  "code_mask text quote =
     fold (\<lambda>s cmask. if sp_kind s = Code_Span
         then fold (\<lambda>k m. m[k := True]) [sp_start s..<sp_end s] cmask else cmask)
       (scan_spans text quote) (replicate (length text) False)"

text \<open>The matching of parentheses: the open ones, innermost first, and the pairs closed so far.\<close>

definition paren_step :: "string \<Rightarrow> bool list \<Rightarrow> nat \<Rightarrow> nat list \<times> (nat \<times> nat) list \<Rightarrow> nat list \<times> (nat \<times> nat) list" where
  "paren_step text cmask k st =
     (if \<not> cmask ! k then st
      else if text ! k = CHR ''('' then (k # fst st, snd st)
      else if text ! k = CHR '')'' then
        (case fst st of [] \<Rightarrow> st | m # stack \<Rightarrow> (stack, snd st @ [(m, k)]))
      else st)"

definition paren_pairs :: "string \<Rightarrow> bool list \<Rightarrow> (nat \<times> nat) list" where
  "paren_pairs text cmask = snd (fold (paren_step text cmask) [0..<length text] ([], []))"

text \<open>\<open>nextCode\<close>: \<open>None\<close> is \<open>-1\<close>.\<close>

function next_code :: "string \<Rightarrow> bool list \<Rightarrow> nat \<Rightarrow> nat option" where
  "next_code text cmask k =
     (if k < length text then
        (if \<not> cmask ! k then None
         else if \<not> is_space (text ! k) then Some k
         else next_code text cmask (Suc k))
      else None)"
  by pat_completeness auto
termination
  by (relation "measure (\<lambda>(text, cmask, k). length text - k)") auto

declare next_code.simps [simp del]

datatype code_before = At_Code nat | At_Start | Blocked

text \<open>\<open>prevCode(text, cmask, n - 1)\<close>.\<close>

fun prev_code :: "string \<Rightarrow> bool list \<Rightarrow> nat \<Rightarrow> code_before" where
  "prev_code text cmask 0 = At_Start"
| "prev_code text cmask (Suc k) =
     (if \<not> cmask ! k then Blocked
      else if \<not> is_space (text ! k) then At_Code k
      else prev_code text cmask k)"

text \<open>The start of the word that ends before \<open>n\<close>.\<close>

fun paren_word_start :: "string \<Rightarrow> bool list \<Rightarrow> nat \<Rightarrow> nat" where
  "paren_word_start text cmask 0 = 0"
| "paren_word_start text cmask (Suc k) =
     (if cmask ! k \<and> ident_char (text ! k) then paren_word_start text cmask k else Suc k)"

definition opens_group :: "string \<Rightarrow> bool list \<Rightarrow> nat \<Rightarrow> bool" where
  "opens_group text cmask open_at =
     (case prev_code text cmask open_at of At_Start \<Rightarrow> True | Blocked \<Rightarrow> False
      | At_Code b \<Rightarrow>
          if text ! b \<in> set GROUPING_PUNCT then True
          else if \<not> ident_char (text ! b) then False
          else to_lower (slice text (paren_word_start text cmask b) (Suc b)) \<in> set GROUPING_KEYWORDS)"

definition redundant_pair :: "string \<Rightarrow> bool list \<Rightarrow> (nat \<times> nat) list \<Rightarrow> nat \<times> nat \<Rightarrow> bool" where
  "redundant_pair text cmask pairs oc =
     (case next_code text cmask (Suc (fst oc)) of None \<Rightarrow> False
      | Some inner \<Rightarrow> text ! inner = CHR ''('' \<and>
          (case map_of pairs inner of None \<Rightarrow> False
           | Some inner_close \<Rightarrow>
               next_code text cmask (Suc inner_close) = Some (snd oc) \<and> opens_group text cmask (fst oc)))"

definition dropped_at :: "string \<Rightarrow> char option \<Rightarrow> nat list" where
  "dropped_at text quote =
     (let cmask = code_mask text quote; pairs = paren_pairs text cmask in
      concat (map (\<lambda>oc. [fst oc, snd oc]) (filter (redundant_pair text cmask pairs) pairs)))"

definition collapse_pass :: "string \<Rightarrow> char option \<Rightarrow> string" where
  "collapse_pass text quote =
     (let gone = dropped_at text quote in
      if gone = [] then text
      else map snd (filter (\<lambda>(k, c). k \<notin> set gone) (index_list text)))"

fun collapse_loop :: "nat \<Rightarrow> char option \<Rightarrow> string \<Rightarrow> string" where
  "collapse_loop 0 quote prev = prev"
| "collapse_loop (Suc n) quote prev =
     (let nxt = collapse_pass prev quote in if nxt = prev then prev else collapse_loop n quote nxt)"

definition collapse_double_parens :: "string \<Rightarrow> string option \<Rightarrow> string" where
  "collapse_double_parens sql engine = collapse_loop 8 (identifier_quote engine) sql"

definition tidy_sql :: "string \<Rightarrow> string option \<Rightarrow> string" where
  "tidy_sql sql engine = collapse_double_parens (unquote_identifiers sql engine) engine"

section \<open>The spans make up the text\<close>

fun spans_cover :: "nat \<Rightarrow> nat \<Rightarrow> span list \<Rightarrow> bool" where
  "spans_cover a b [] \<longleftrightarrow> a = b"
| "spans_cover a b (s # ss) \<longleftrightarrow> sp_start s = a \<and> a < sp_end s \<and> spans_cover (sp_end s) b ss"

lemma spans_cover_append:
  "spans_cover a b xs \<Longrightarrow> spans_cover b c ys \<Longrightarrow> spans_cover a c (xs @ ys)"
  by (induction xs arbitrary: a) auto

lemma spans_cover_le: "spans_cover a b ss \<Longrightarrow> a \<le> b"
  by (induction ss arbitrary: a) force+

lemma code_span_cover: "a \<le> b \<Longrightarrow> spans_cover a b (code_span a b)"
  by (auto simp: code_span_def)

lemma span_loop_none:
  "i < length sql \<Longrightarrow> span_at quote (drop i sql) = None \<Longrightarrow> span_loop quote sql i cs = span_loop quote sql (Suc i) cs"
  and span_loop_some:
  "i < length sql \<Longrightarrow> span_at quote (drop i sql) = Some (k, n) \<Longrightarrow>
     span_loop quote sql i cs = code_span cs i @ \<lparr>sp_kind = k, sp_start = i, sp_end = i + n\<rparr>
       # span_loop quote sql (i + n) (i + n)"
  and span_loop_end: "\<not> i < length sql \<Longrightarrow> span_loop quote sql i cs = code_span cs (length sql)"
  by (subst span_loop.simps; simp)+

lemma span_loop_cover:
  "cs \<le> i \<Longrightarrow> i \<le> length sql \<Longrightarrow> spans_cover cs (length sql) (span_loop quote sql i cs)"
proof (induction quote sql i cs rule: span_loop.induct)
  case (1 quote sql i cs)
  consider "\<not> i < length sql" | "i < length sql" "span_at quote (drop i sql) = None"
    | k n where "i < length sql" "span_at quote (drop i sql) = Some (k, n)" by fastforce
  then show ?case
  proof cases
    case 1
    with \<open>cs \<le> i\<close> \<open>i \<le> length sql\<close> show ?thesis by (simp add: span_loop_end code_span_cover)
  next
    case 2
    with 1 show ?thesis by (simp add: span_loop_none)
  next
    case (3 k n)
    note n = span_at_len [OF 3(2)] span_at_bound [OF 3(2)]
    have "spans_cover (i + n) (length sql) (span_loop quote sql (i + n) (i + n))"
      using 1(2) [OF 3(1,2)] 3(1) n by auto
    then show ?thesis using n(1) unfolding span_loop_some [OF 3]
      by (intro spans_cover_append [OF code_span_cover [OF \<open>cs \<le> i\<close>]]) simp
  qed
qed

lemma scan_covers: "spans_cover 0 (length sql) (scan_spans sql quote)"
  unfolding scan_spans_def by (rule span_loop_cover) simp_all

lemma cover_text:
  "spans_cover a b ss \<Longrightarrow> b \<le> length sql \<Longrightarrow> concat (map (span_text sql) ss) = slice sql a b"
proof (induction ss arbitrary: a)
  case (Cons s ss)
  then have "slice sql a (sp_end s) @ slice sql (sp_end s) b = slice sql a b"
    using spans_cover_le [of "sp_end s" b ss] by (intro slice_append) auto
  moreover have "concat (map (span_text sql) ss) = slice sql (sp_end s) b"
    using Cons by simp
  ultimately show ?case using Cons.prems by (simp add: span_text_def [of sql s])
qed (simp add: slice_def)

lemma scan_text: "concat (map (span_text sql) (scan_spans sql quote)) = sql"
  using cover_text [OF scan_covers, of sql sql] by (simp add: slice_def)

section \<open>Dropped delimiters can be put back\<close>

lemma undouble_plain: "q \<notin> set (undouble q s) \<Longrightarrow> undouble q s = s \<and> q \<notin> set s"
  by (induction q s rule: undouble.induct) (auto split: if_splits)

lemma bare_chars: "bare_word s \<Longrightarrow> c \<in> set s \<Longrightarrow> is_word c"
  by (cases s) (auto simp: bare_word_def is_word_def list_all_iff)

lemma quote_not_word: "\<not> is_word DQ" "\<not> is_word BT" "\<not> is_word LB" "\<not> is_word CHR 0x27"
  by (simp_all add: quote_defs is_word_def is_alpha_def is_digit_def is_upper_az_def is_lower_az_def)

lemma identifier_quote_not_word: "identifier_quote engine = Some q \<Longrightarrow> \<not> is_word q"
  by (auto simp: identifier_quote_def Let_def quote_not_word split: if_splits)

lemma ident_span_head:
  assumes "span_at quote r = Some (Ident_Span, n)"
  shows "quote \<noteq> None \<and> r \<noteq> [] \<and> hd r = the quote"
  using assms by (auto simp: span_at_def quoted_span_def Let_def split: list.splits if_splits option.splits)

lemma span_loop_idents:
  assumes "s \<in> set (span_loop quote sql i cs)" and "sp_kind s = Ident_Span"
  shows "sp_start s < sp_end s \<and> quote = Some (sql ! sp_start s)"
  using assms
proof (induction quote sql i cs rule: span_loop.induct)
  case (1 quote sql i cs)
  consider (fin) "\<not> i < length sql" | (none) "i < length sql" "span_at quote (drop i sql) = None"
    | (span) k n where "i < length sql" "span_at quote (drop i sql) = Some (k, n)" by fastforce
  then show ?case
  proof cases
    case fin
    with 1(3,4) show ?thesis by (auto simp: span_loop_end code_span_def split: if_splits)
  next
    case none
    with 1 show ?thesis by (simp add: span_loop_none)
  next
    case (span k n)
    have "s = \<lparr>sp_kind = Ident_Span, sp_start = i, sp_end = i + n\<rparr> \<and> k = Ident_Span
        \<or> s \<in> set (span_loop quote sql (i + n) (i + n))"
      using 1(3,4) by (auto simp: span_loop_some [OF span] code_span_def split: if_splits)
    then show ?thesis
      using 1(2) [OF span] 1(4) span ident_span_head [of quote "drop i sql" n] span_at_len [OF span(2)]
      by (auto simp: hd_drop_conv_nth)
  qed
qed

text \<open>What the pass writes for one span, beside what it read.\<close>

definition same_name :: "char \<Rightarrow> string option \<Rightarrow> string \<Rightarrow> string \<Rightarrow> bool" where
  "same_name q engine raw out \<longleftrightarrow> out = raw \<or> (can_go_bare out engine \<and> raw = q # out @ [q])"

lemma unquoted_same:
  assumes "s \<in> set (scan_spans sql (Some q))" and q: "\<not> is_word q" and b: "sp_end s \<le> length sql"
  shows "same_name q engine (span_text sql s) (unquoted_span sql q engine s)"
proof (cases "unquoted_span sql q engine s = span_text sql s")
  case False
  define raw where "raw = span_text sql s"
  have k: "sp_kind s = Ident_Span" "length raw \<ge> 2" "last raw = q" "can_go_bare (ident_name raw q) engine"
    "unquoted_span sql q engine s = ident_name raw q"
    using False by (auto simp: unquoted_span_def Let_def raw_def split: if_splits)
  have i: "sp_start s < sp_end s" "sql ! sp_start s = q"
    using span_loop_idents [of s "Some q" sql 0 0] assms(1) k(1) by (auto simp: scan_spans_def)
  have "hd raw = q"
    using i b slice_Suc [OF i(1) b] by (simp add: raw_def span_text_def)
  then have raw: "raw = q # butlast (tl raw) @ [q]"
    using k(2,3) by (cases raw; cases "tl raw" rule: rev_cases) auto
  have "q \<notin> set (ident_name raw q)"
    using k(4) q bare_chars by (auto simp: can_go_bare_def)
  then have "ident_name raw q = butlast (tl raw)"
    using undouble_plain by (simp add: ident_name_def)
  with raw k show ?thesis unfolding raw_def [symmetric] by (simp add: same_name_def)
qed (simp add: same_name_def)

lemma cover_bounds: "spans_cover a b ss \<Longrightarrow> s \<in> set ss \<Longrightarrow> sp_end s \<le> b"
  by (induction ss arbitrary: a) (auto dest: spans_cover_le)

section \<open>What collapsing drops\<close>

definition paren_inv :: "string \<Rightarrow> nat \<Rightarrow> nat list \<times> (nat \<times> nat) list \<Rightarrow> bool" where
  "paren_inv text n st \<longleftrightarrow>
     distinct (fst st @ map fst (snd st)) \<and> distinct (map snd (snd st)) \<and>
     (\<forall>m \<in> set (fst st). m < n \<and> text ! m = CHR ''('') \<and>
     (\<forall>oc \<in> set (snd st). fst oc < snd oc \<and> snd oc < n \<and> text ! fst oc = CHR ''('' \<and> text ! snd oc = CHR '')'')"

lemma paren_inv_step: "paren_inv text n st \<Longrightarrow> paren_inv text (Suc n) (paren_step text m n st)"
proof (cases "m ! n \<and> (text ! n = CHR ''('' \<or> (text ! n = CHR '')'' \<and> fst st \<noteq> []))")
  case False
  then have "paren_step text m n st = st" by (cases "fst st") (auto simp: paren_step_def)
  moreover assume "paren_inv text n st"
  ultimately show ?thesis by (auto simp: paren_inv_def intro: less_SucI)
next
  case True
  assume inv: "paren_inv text n st"
  obtain stack ps where st: "st = (stack, ps)" by (cases st)
  show ?thesis
  proof (cases "text ! n = CHR ''(''")
    case open_p: True
    have "n \<notin> set stack" "n \<notin> fst ` set ps" using inv by (force simp: paren_inv_def st)+
    with True open_p inv show ?thesis
      by (auto simp: paren_inv_def paren_step_def st less_SucI)
  next
    case False
    with True obtain k stack' where k: "stack = k # stack'" by (cases stack) (auto simp: st)
    have "n \<notin> snd ` set ps" using inv by (force simp: paren_inv_def st)
    with True False inv show ?thesis
      by (auto simp: paren_inv_def paren_step_def st k less_SucI)
  qed
qed

lemma paren_inv_fold: "paren_inv text n (fold (paren_step text m) [0..<n] ([], []))"
  by (induction n) (auto simp: paren_inv_step, simp add: paren_inv_def)

lemma pairs_shape:
  "paren_inv text (length text) ([], paren_pairs text m)"
  using paren_inv_fold [of "text" "length text" m] by (auto simp: paren_inv_def paren_pairs_def)

text \<open>The characters at the positions not in \<open>gone\<close>.\<close>

definition kept_text :: "string \<Rightarrow> nat set \<Rightarrow> string" where
  "kept_text text gone = map snd (filter (\<lambda>(k, c). k \<notin> gone) (index_list text))"

lemma index_list_nth: "index_list xs = map (\<lambda>k. (k, xs ! k)) [0..<length xs]"
  by (rule nth_equalityI) (simp_all add: index_list_def)

lemma kept_text_nths: "kept_text text gone = map (\<lambda>k. text ! k) (filter (\<lambda>k. k \<notin> gone) [0..<length text])"
  by (simp add: kept_text_def index_list_nth filter_map comp_def)

lemma kept_filter:
  assumes "\<And>k. k \<in> gone \<Longrightarrow> k < length text \<Longrightarrow> \<not> P (text ! k)"
  shows "filter P (kept_text text gone) = filter P text"
proof -
  have "filter P (kept_text text gone) = map (\<lambda>k. text ! k) (filter (\<lambda>k. P (text ! k) \<and> k \<notin> gone) [0..<length text])"
    by (simp add: kept_text_nths filter_map comp_def conj_commute)
  also have "filter (\<lambda>k. P (text ! k) \<and> k \<notin> gone) [0..<length text] = filter (\<lambda>k. P (text ! k)) [0..<length text]"
    using assms by (intro filter_cong) auto
  also have "map (\<lambda>k. text ! k) \<dots> = filter P (map (\<lambda>k. text ! k) [0..<length text])"
    by (simp add: filter_map comp_def)
  finally show ?thesis by (simp add: map_nth)
qed

definition char_count :: "char \<Rightarrow> string \<Rightarrow> nat" where
  "char_count c s = length (filter (\<lambda>x. x = c) s)"

lemma kept_count:
  "char_count c (kept_text text gone) = card ({k. k < length text \<and> text ! k = c} - gone)"
proof -
  have "char_count c (kept_text text gone) = length (filter (\<lambda>k. text ! k = c \<and> k \<notin> gone) [0..<length text])"
    by (simp add: char_count_def kept_text_nths filter_map comp_def conj_commute)
  also have "\<dots> = card (set (filter (\<lambda>k. text ! k = c \<and> k \<notin> gone) [0..<length text]))"
    by (rule distinct_card [symmetric]) simp
  also have "set (filter (\<lambda>k. text ! k = c \<and> k \<notin> gone) [0..<length text]) = {k. k < length text \<and> text ! k = c} - gone"
    by auto
  finally show ?thesis .
qed

lemma count_kept_all: "char_count c text = card {k. k < length text \<and> text ! k = c}"
  using kept_count [of c "text" "{}"] by (simp add: kept_text_nths map_nth)

text \<open>Dropping a set of pairs takes as many of each parenthesis away as there are pairs.\<close>

lemma dropped_pairs_count:
  assumes inv: "paren_inv text (length text) ([], ps)"
    and gone: "gone = fst ` set ps \<union> snd ` set ps"
  shows "char_count CHR ''('' (kept_text text gone) + length ps = char_count CHR ''('' text"
    and "char_count CHR '')'' (kept_text text gone) + length ps = char_count CHR '')'' text"
proof -
  let ?A = "\<lambda>c. {k. k < length text \<and> text ! k = c}"
  have d: "card (fst ` set ps) = length ps" "card (snd ` set ps) = length ps"
    using inv distinct_card [of "map fst ps"] distinct_card [of "map snd ps"] by (simp_all add: paren_inv_def)
  have s: "fst ` set ps \<subseteq> ?A CHR ''(''" "snd ` set ps \<subseteq> ?A CHR '')''"
    using inv by (force simp: paren_inv_def)+
  have "?A CHR ''('' - gone = ?A CHR ''('' - fst ` set ps" "?A CHR '')'' - gone = ?A CHR '')'' - snd ` set ps"
    using s unfolding gone by auto
  moreover have c: "card (?A c - X) + card X = card (?A c)" if "X \<subseteq> ?A c" for X c
    using that by (simp add: card_Diff_subset finite_subset card_mono)
  ultimately show "char_count CHR ''('' (kept_text text gone) + length ps = char_count CHR ''('' text"
    and "char_count CHR '')'' (kept_text text gone) + length ps = char_count CHR '')'' text"
    using c [OF s(1)] c [OF s(2)] d unfolding kept_count count_kept_all [of _ "text"] by simp_all
qed

definition is_paren :: "char \<Rightarrow> bool" where
  "is_paren c \<longleftrightarrow> c = CHR ''('' \<or> c = CHR '')''"

text \<open>\<open>b\<close> is \<open>a\<close> with as many opening as closing parentheses taken out, and nothing else.\<close>

definition parens_out :: "string \<Rightarrow> string \<Rightarrow> bool" where
  "parens_out a b \<longleftrightarrow> filter (\<lambda>c. \<not> is_paren c) b = filter (\<lambda>c. \<not> is_paren c) a \<and>
     (\<exists>n. char_count CHR ''('' b + n = char_count CHR ''('' a \<and> char_count CHR '')'' b + n = char_count CHR '')'' a)"

lemma parens_out_refl: "parens_out a a"
  by (auto simp: parens_out_def intro!: exI [of _ 0])

lemma parens_out_trans: "parens_out a b \<Longrightarrow> parens_out b c \<Longrightarrow> parens_out a c"
  unfolding parens_out_def by (metis add.assoc)

lemma paren_inv_sub: "paren_inv text n ([], ps) \<Longrightarrow> paren_inv text n ([], filter P ps)"
  by (auto simp: paren_inv_def distinct_map_filter)

lemma pass_parens_out: "parens_out text (collapse_pass text quote)"
proof -
  define ps where "ps = (let m = code_mask text quote; pairs = paren_pairs text m in filter (redundant_pair text m pairs) pairs)"
  define gone where "gone = fst ` set ps \<union> snd ` set ps"
  have inv: "paren_inv text (length text) ([], ps)"
    unfolding ps_def Let_def by (rule paren_inv_sub [OF pairs_shape])
  have g: "set (dropped_at text quote) = gone"
    by (auto simp: dropped_at_def ps_def gone_def Let_def)
  have "\<not> \<not> is_paren (text ! k)" if "k \<in> gone" for k
    using that inv by (auto simp: gone_def paren_inv_def is_paren_def)
  then have "filter (\<lambda>c. \<not> is_paren c) (kept_text text gone) = filter (\<lambda>c. \<not> is_paren c) text"
    by (intro kept_filter)
  with dropped_pairs_count [OF inv gone_def] have "parens_out text (kept_text text gone)"
    unfolding parens_out_def by blast
  then show ?thesis
    by (auto simp: collapse_pass_def Let_def g kept_text_def parens_out_refl)
qed

lemma loop_parens_out: "parens_out s (collapse_loop n quote s)"
proof (induction n arbitrary: s)
  case (Suc n)
  then show ?case
    using parens_out_trans [OF pass_parens_out] by (auto simp: Let_def parens_out_refl)
qed (simp add: parens_out_refl)

section \<open>Properties\<close>

text \<open>The scanner splits any text into consecutive spans that make it up, none empty: every
  character is code, or in one string, comment or delimited name.\<close>

theorem scan_partitions_text:
  "spans_cover 0 (length sql) (scan_spans sql quote) \<and> concat (map (span_text sql) (scan_spans sql quote)) = sql"
  by (simp add: scan_covers scan_text)

text \<open>Tidying a statement's names only takes delimiters away that can be put back: the text falls
  into spans, each kept as it is or a delimited name written bare, and then the bare name is one
  plain word, reserved nowhere, which in delimiters is the very text it replaces.\<close>

theorem unquoting_keeps_names:
  assumes "identifier_quote engine = Some q"
  shows "concat (map (span_text sql) (scan_spans sql (Some q))) = sql \<and>
    unquote_identifiers sql engine = concat (map (unquoted_span sql q engine) (scan_spans sql (Some q))) \<and>
    list_all (\<lambda>s. same_name q engine (span_text sql s) (unquoted_span sql q engine s)) (scan_spans sql (Some q))"
  using unquoted_same [OF _ identifier_quote_not_word [OF assms]] cover_bounds [OF scan_covers]
  by (auto simp: scan_text unquote_identifiers_def assms list_all_iff)

theorem unquoting_keeps_names_witness:
  "list_all (\<lambda>s. same_name BT (Some ''mysql'') (span_text [BT, CHR ''a'', BT] s)
     (unquoted_span [BT, CHR ''a'', BT] BT (Some ''mysql'') s)) (scan_spans [BT, CHR ''a'', BT] (Some BT))"
  by (rule unquoting_keeps_names [THEN conjunct2, THEN conjunct2]) code_simp

text \<open>Tidying parentheses changes nothing but parentheses, and takes out as many closing as
  opening ones: every other character stays, in its order.\<close>

theorem collapse_only_parens:
  "parens_out sql (collapse_double_parens sql engine)"
  unfolding collapse_double_parens_def by (rule loop_parens_out)

end
