(* ===== verification/DependencyOrder.thy ===== *)
theory DependencyOrder
  imports Prelude
begin

text \<open>
  \<open>orderByDependencies\<close> of \<open>schemaDiff.ts\<close>: names in an order in which each comes after what it
  depends on (Kahn's algorithm, ties in input order), those on a cycle at the end. Names match
  without regard to case.
\<close>

definition low_in :: "string \<Rightarrow> string list \<Rightarrow> bool" where
  "low_in d names \<longleftrightarrow> d \<in> to_lower ` set names"

text \<open>The dependencies of a name that matter: others of the list.\<close>

definition own_deps :: "string list \<Rightarrow> (string \<Rightarrow> string list) \<Rightarrow> string \<Rightarrow> string list" where
  "own_deps names deps n = filter (\<lambda>d. d \<noteq> to_lower n \<and> low_in d names) (map to_lower (deps n))"

type_synonym pending_deps = "(string \<times> string list) list"

definition pending_start :: "string list \<Rightarrow> (string \<Rightarrow> string list) \<Rightarrow> pending_deps" where
  "pending_start names deps = fold (\<lambda>n. map_set (to_lower n) (own_deps names deps n)) names []"

definition order_step :: "string \<Rightarrow> string list \<times> pending_deps \<Rightarrow> string list \<times> pending_deps" where
  "order_step n st =
     (case map_of (snd st) (to_lower n) of None \<Rightarrow> st
      | Some ds \<Rightarrow> if list_ex (has_key (snd st)) ds then st
          else (fst st @ [n], obj_del (to_lower n) (snd st)))"

lemma order_step_cases:
  "order_step n st = st \<or>
     (to_lower n \<in> fst ` set (snd st) \<and> length (snd (order_step n st)) < length (snd st))"
proof (cases "map_of (snd st) (to_lower n)")
  case (Some ds)
  then have "to_lower n \<in> fst ` set (snd st)" by (force dest: map_of_SomeD)
  moreover from this have "length (obj_del (to_lower n) (snd st)) < length (snd st)"
    unfolding obj_del_def by (force intro: length_filter_less)
  ultimately show ?thesis using Some by (simp add: order_step_def)
qed (simp add: order_step_def)

lemma order_pass_le: "length (snd (fold order_step ns st)) \<le> length (snd st)"
proof (induction ns arbitrary: st)
  case (Cons n ns)
  from Cons [of "order_step n st"] order_step_cases [of n st] show ?case by auto
qed simp

lemma order_pass_stuck:
  "length (snd (fold order_step ns st)) = length (snd st) \<Longrightarrow>
     fold order_step ns st = st \<and> (\<forall>n \<in> set ns. order_step n st = st)"
proof (induction ns arbitrary: st)
  case (Cons n ns)
  with order_step_cases [of n st] order_pass_le [of ns "order_step n st"] have "order_step n st = st" by auto
  with Cons show ?case by auto
qed simp

text \<open>Passes over the names until one orders nothing.\<close>

function order_loop :: "string list \<Rightarrow> string list \<times> pending_deps \<Rightarrow> string list \<times> pending_deps" where
  "order_loop names st =
     (let st' = fold order_step names st in
      if length (snd st') < length (snd st) then order_loop names st' else st')"
  by pat_completeness auto
termination
  by (relation "measure (\<lambda>(names, st). length (snd st))") auto

declare order_loop.simps [simp del]

definition order_by_dependencies :: "string list \<Rightarrow> (string \<Rightarrow> string list) \<Rightarrow> string list \<times> string list" where
  "order_by_dependencies names deps =
     (let st = order_loop names ([], pending_start names deps);
          cyclic = filter (\<lambda>n. has_key (snd st) (to_lower n)) names
      in (fst st @ cyclic, cyclic))"

section \<open>The invariant of the passes\<close>

text \<open>Every name is either ordered or pending; what is ordered comes after its dependencies.\<close>

definition sorted_deps :: "string list \<Rightarrow> (string \<Rightarrow> string list) \<Rightarrow> string list \<Rightarrow> bool" where
  "sorted_deps names deps ord \<longleftrightarrow>
     (\<forall>xs n ys. ord = xs @ n # ys \<longrightarrow> set (own_deps names deps n) \<subseteq> to_lower ` set xs)"

definition order_inv ::
    "string list \<Rightarrow> (string \<Rightarrow> string list) \<Rightarrow> string list \<times> pending_deps \<Rightarrow> bool" where
  "order_inv names deps st \<longleftrightarrow>
     distinct (map to_lower (fst st)) \<and> set (fst st) \<subseteq> set names \<and>
     fst ` set (snd st) = to_lower ` set names - to_lower ` set (fst st) \<and>
     (\<forall>n \<in> set names. \<forall>ds. map_of (snd st) (to_lower n) = Some ds \<longrightarrow> ds = own_deps names deps n) \<and>
     sorted_deps names deps (fst st)"

lemma sorted_deps_snoc:
  "sorted_deps names deps ord \<Longrightarrow> set (own_deps names deps n) \<subseteq> to_lower ` set ord \<Longrightarrow>
     sorted_deps names deps (ord @ [n])"
proof -
  assume o: "sorted_deps names deps ord" and n: "set (own_deps names deps n) \<subseteq> to_lower ` set ord"
  show ?thesis unfolding sorted_deps_def
  proof (intro allI impI)
    fix xs m ys
    assume "ord @ [n] = xs @ m # ys"
    then consider "xs = ord" "m = n" | zs where "ord = xs @ m # zs"
      by (cases ys rule: rev_cases) auto
    then show "set (own_deps names deps m) \<subseteq> to_lower ` set xs"
      by cases (use o n in \<open>auto simp: sorted_deps_def\<close>)
  qed
qed

lemma own_deps_in: "d \<in> set (own_deps names deps n) \<Longrightarrow> d \<in> to_lower ` set names"
  by (auto simp: own_deps_def low_in_def)

lemma order_invD:
  assumes "order_inv names deps st"
  shows "distinct (map to_lower (fst st))" and "set (fst st) \<subseteq> set names"
    and "fst ` set (snd st) = to_lower ` set names - to_lower ` set (fst st)"
    and "n \<in> set names \<Longrightarrow> map_of (snd st) (to_lower n) = Some ds \<Longrightarrow> ds = own_deps names deps n"
    and "sorted_deps names deps (fst st)"
  using assms by (simp_all add: order_inv_def)

lemma order_inv_step:
  assumes "order_inv names deps st" and "n \<in> set names"
  shows "order_inv names deps (order_step n st)"
proof (cases "order_step n st = st")
  case False
  then obtain ds where ds: "map_of (snd st) (to_lower n) = Some ds" "\<not> list_ex (has_key (snd st)) ds"
    by (auto simp: order_step_def split: option.splits if_splits)
  then have step: "order_step n st = (fst st @ [n], obj_del (to_lower n) (snd st))"
    by (simp add: order_step_def)
  note inv = order_invD [OF assms(1)]
  have own: "ds = own_deps names deps n" using inv(4) [OF assms(2) ds(1)] .
  have "d \<in> to_lower ` set (fst st)" if "d \<in> set ds" for d
  proof -
    have "d \<notin> fst ` set (snd st)"
      using ds(2) that by (auto simp: list_ex_iff has_key_def)
    moreover have "d \<in> to_lower ` set names" using own_deps_in that unfolding own .
    ultimately show ?thesis using inv(3) by blast
  qed
  then have "set (own_deps names deps n) \<subseteq> to_lower ` set (fst st)" unfolding own [symmetric] by blast
  from sorted_deps_snoc [OF inv(5) this] have "sorted_deps names deps (fst st @ [n])" .
  moreover have n: "to_lower n \<in> fst ` set (snd st)" using ds(1) by (force dest: map_of_SomeD)
  then have "to_lower n \<notin> to_lower ` set (fst st)" using inv(3) by simp
  then have "distinct (map to_lower (fst st @ [n]))" using inv(1) by simp
  moreover have "fst ` set (obj_del (to_lower n) (snd st)) = to_lower ` set names - to_lower ` set (fst st @ [n])"
    using inv(3) by auto
  moreover have "es = own_deps names deps m"
    if "m \<in> set names" "map_of (obj_del (to_lower n) (snd st)) (to_lower m) = Some es" for m es
    using that inv(4) [OF that(1)] by (simp split: if_splits)
  moreover have "set (fst st @ [n]) \<subseteq> set names" using inv(2) assms(2) by simp
  ultimately show ?thesis unfolding step order_inv_def fst_conv snd_conv by blast
qed (use assms in simp)

lemma order_inv_pass:
  "order_inv names deps st \<Longrightarrow> set ns \<subseteq> set names \<Longrightarrow> order_inv names deps (fold order_step ns st)"
proof (induction ns arbitrary: st)
  case (Cons n ns)
  from Cons.IH [OF order_inv_step [OF Cons.prems(1)]] Cons.prems(2) show ?case by simp
qed simp

text \<open>At the end every pending name waits for a pending name.\<close>

lemma order_loop_inv:
  "order_inv names deps st \<Longrightarrow> order_inv names deps (order_loop names st) \<and>
     (\<forall>n \<in> set names. order_step n (order_loop names st) = order_loop names st)"
proof (induction names st rule: order_loop.induct)
  case (1 names st)
  let ?s = "fold order_step names st"
  have inv: "order_inv names deps ?s" using 1(2) by (rule order_inv_pass) simp
  show ?case
  proof (cases "length (snd ?s) < length (snd st)")
    case True
    with 1(1) [OF refl True inv] show ?thesis by (subst (1 2 3) order_loop.simps) (simp add: Let_def)
  next
    case False
    with order_pass_le [of names st] have "length (snd ?s) = length (snd st)" by simp
    from order_pass_stuck [OF this] False inv show ?thesis
      by (subst (1 2 3) order_loop.simps) (simp add: Let_def)
  qed
qed

lemma pending_start_get:
  assumes "distinct (map to_lower names)" and "n \<in> set names"
  shows "map_of (pending_start names deps) (to_lower n) = Some (own_deps names deps n)"
proof -
  have "map_of (fold (\<lambda>n. map_set (to_lower n) (f n)) ns m) (to_lower n) = Some (f n)"
    if "distinct (map to_lower ns)" "n \<in> set ns \<or> (n \<notin> set ns \<and> to_lower n \<notin> to_lower ` set ns \<and> map_of m (to_lower n) = Some (f n))"
    for f :: "string \<Rightarrow> string list" and ns m
    using that by (induction ns arbitrary: m) auto
  from this [OF assms(1)] assms(2) show ?thesis by (simp add: pending_start_def)
qed

lemma pending_start_keys: "fst ` set (pending_start names deps) = to_lower ` set names"
proof -
  have "fst ` set (fold (\<lambda>n. map_set (to_lower n) (f n)) ns m) = fst ` set m \<union> to_lower ` set ns"
    for f :: "string \<Rightarrow> string list" and ns m
    by (induction ns arbitrary: m) auto
  from this [of "own_deps names deps" names "[]"] show ?thesis by (simp add: pending_start_def)
qed

lemma order_inv_start:
  assumes "distinct (map to_lower names)"
  shows "order_inv names deps ([], pending_start names deps)"
  using pending_start_get [OF assms] by (auto simp: order_inv_def pending_start_keys sorted_deps_def)

section \<open>The property\<close>

text \<open>C33. Ordering by dependencies loses and repeats no name; a name that is not reported as cyclic
  comes after everything of the list it depends on, and a name is reported as cyclic only when it
  waits for another that is.\<close>

theorem dependencies_come_first:
  assumes "distinct (map to_lower names)" and "order_by_dependencies names deps = (order, cyclic)"
  shows "distinct order \<and> set order = set names \<and>
    (\<forall>xs n ys. order = xs @ n # ys \<longrightarrow> n \<notin> set cyclic \<longrightarrow> set (own_deps names deps n) \<subseteq> to_lower ` set xs) \<and>
    (\<forall>n \<in> set cyclic. list_ex (\<lambda>d. low_in d cyclic) (own_deps names deps n))"
proof -
  define st where "st = order_loop names ([], pending_start names deps)"
  have inv: "order_inv names deps st" and stuck: "\<forall>n \<in> set names. order_step n st = st"
    using order_loop_inv [OF order_inv_start [OF assms(1)]] by (simp_all add: st_def)
  note i = inv [unfolded order_inv_def]
  have c: "cyclic = filter (\<lambda>n. has_key (snd st) (to_lower n)) names" and o: "order = fst st @ cyclic"
    using assms(2) by (auto simp: order_by_dependencies_def Let_def st_def)
  have key: "has_key (snd st) d \<longleftrightarrow> d \<in> to_lower ` set names - to_lower ` set (fst st)" for d
    using i by (auto simp: has_key_def)
  have low: "low_in d cyclic \<longleftrightarrow> has_key (snd st) d" for d
    by (auto simp: c low_in_def key)
  have inj: "inj_on to_lower (set names)" using assms(1) by (simp add: distinct_map)
  have "set order = set names"
    using i inj by (auto simp: o c key dest: inj_onD)
  moreover have "distinct order"
    using i assms(1) by (auto simp: o c key distinct_map)
  moreover have "set (own_deps names deps n) \<subseteq> to_lower ` set xs"
    if "order = xs @ n # ys" "n \<notin> set cyclic" for xs n ys
  proof -
    from that(1) o obtain us where "fst st = xs @ us \<and> us @ cyclic = n # ys \<or> fst st @ us = xs \<and> cyclic = us @ n # ys"
      by (auto simp: append_eq_append_conv2)
    with that(2) obtain zs where "fst st = xs @ n # zs" by (cases us) auto
    with i show ?thesis by (auto simp: sorted_deps_def)
  qed
  moreover have "list_ex (\<lambda>d. low_in d cyclic) (own_deps names deps n)" if "n \<in> set cyclic" for n
  proof -
    have n: "n \<in> set names" "has_key (snd st) (to_lower n)" using that by (auto simp: c)
    then obtain ds where ds: "map_of (snd st) (to_lower n) = Some ds" by (auto simp: has_key_map_of)
    with i n have "ds = own_deps names deps n" by blast
    moreover have "list_ex (has_key (snd st)) ds"
    proof (rule ccontr)
      assume "\<not> list_ex (has_key (snd st)) ds"
      then have "order_step n st = (fst st @ [n], obj_del (to_lower n) (snd st))"
        using ds by (simp add: order_step_def)
      moreover have "order_step n st = st" using stuck n(1) by blast
      ultimately have "fst st @ [n] = fst st" by (metis fst_conv)
      then show False by simp
    qed
    ultimately show ?thesis by (simp add: list_ex_iff low)
  qed
  ultimately show ?thesis by blast
qed

theorem dependencies_come_first_witness:
  "distinct (fst (order_by_dependencies [''b'', ''A''] (\<lambda>n. if n = ''b'' then [''a''] else [])))"
proof -
  define deps where "deps = (\<lambda>n. if n = ''b'' then [''a''] else [])"
  have "distinct (map to_lower [''b'', ''A''])" by code_simp
  then have "distinct (fst (order_by_dependencies [''b'', ''A''] deps))"
    by (rule dependencies_come_first [THEN conjunct1, of _ deps _ "snd (order_by_dependencies [''b'', ''A''] deps)"]) simp
  then show ?thesis unfolding deps_def .
qed

end
