(* ===== verification/SchemaDiff.thy ===== *)
theory SchemaDiff
  imports DependencyOrder RegexOps QueryTarget Results MetaCache
begin

text \<open>
  Comparing two schemas (\<open>schemaDiff.ts\<close>): the model of a schema, the signatures objects are matched
  by, and the difference that turns the target into the source. The migration script is in
  \<open>SchemaScript\<close>. Lists stand for arrays; a \<open>Map\<close> keyed by a signature is an association list.
\<close>

section \<open>Model\<close>

record column_def =
  cf_name :: string
  cf_type :: string
  cf_notnull :: bool
  cf_pk :: bool
  cf_dflt :: "string option"

record key_def =
  kd_name :: "string option"
  kd_columns :: "string list"

record index_def =
  ix_name :: string
  ix_columns :: "string list"
  ix_unique :: bool

record foreign_key =
  fk_name :: "string option"
  fk_columns :: "string list"
  fk_table :: string
  fk_refs :: "string list"

record check_def =
  ck_name :: "string option"
  ck_expr :: string

record table_def =
  td_name :: string
  td_columns :: "column_def list"
  td_pk :: "key_def option"
  td_uniques :: "key_def list"
  td_indexes :: "index_def list"
  td_fks :: "foreign_key list"
  td_checks :: "check_def list"

record view_def =
  vd_name :: string
  vd_ddl :: string

datatype category = Constraints_Cat | Checks_Cat | Indexes_Cat | Views_Cat | Defaults_Cat

record schema_snapshot =
  sn_engine :: string
  sn_tables :: "table_def list"
  sn_views :: "view_def list"
  sn_missing :: "(category \<times> string) list"
  sn_skipped :: "string list"

definition truthy_flag :: "cell \<Rightarrow> bool" where
  "truthy_flag v \<longleftrightarrow> v \<noteq> None \<and> v \<noteq> Some [] \<and> v \<noteq> Some ''0''"

definition described_cell :: "nat option \<Rightarrow> cell list \<Rightarrow> cell" where
  "described_cell i row = (case i of None \<Rightarrow> None | Some k \<Rightarrow> cell_at row k)"

definition parse_structure :: "result_set \<Rightarrow> column_def list" where
  "parse_structure d =
     (let idx = (\<lambda>name. find_index (\<lambda>c. col_name c = name) (rs_columns d)) in
      case idx ''name'' of None \<Rightarrow> []
      | Some nm \<Rightarrow> List.map_filter (\<lambda>r. map_option (\<lambda>name.
            \<lparr>cf_name = name, cf_type = default [] (described_cell (idx ''type'') r),
             cf_notnull = truthy_flag (described_cell (idx ''notnull'') r),
             cf_pk = truthy_flag (described_cell (idx ''pk'') r),
             cf_dflt = described_cell (idx ''dflt_value'') r\<rparr>) (cell_at r nm)) (rs_rows d))"

section \<open>Signatures\<close>

definition low_cols_key :: "string list \<Rightarrow> string" where
  "low_cols_key cols = join '','' (map to_lower cols)"

text \<open>\<open>/\s+/g\<close> to a blank, \<open>/\s*([(),])\s*/g\<close> to the character itself.\<close>

definition TYPE_PUNCT :: re where
  "TYPE_PUNCT = seqs [star spc, Grp 1 (Cls (\<lambda>c. c \<in> set ''(),'')), star spc]"

definition norm_type :: "string \<Rightarrow> string" where
  "norm_type t =
     trim (re_replace_fn TYPE_PUNCT (\<lambda>w cs. default [] (map_of cs 1))
       (re_replace_all RE_SPACES '' '' (to_lower t)))"

fun balanced_from :: "nat \<Rightarrow> string \<Rightarrow> bool" where
  "balanced_from d [] \<longleftrightarrow> d = 0"
| "balanced_from d (c # s) \<longleftrightarrow>
     (if c = CHR ''('' then balanced_from (Suc d) s
      else if c = CHR '')'' then d > 0 \<and> balanced_from (d - 1) s
      else balanced_from d s)"

text \<open>\<open>/^\(.*\)$/\<close>: the dot stops at a line end.\<close>

definition wrapped :: "string \<Rightarrow> bool" where
  "wrapped s \<longleftrightarrow> 2 \<le> length s \<and> hd s = CHR ''('' \<and> last s = CHR '')'' \<and>
     list_all (\<lambda>c. code c \<noteq> 10 \<and> code c \<noteq> 13) (butlast (tl s))"

function strip_wrap :: "string \<Rightarrow> string" where
  "strip_wrap s = (if wrapped s \<and> balanced_from 0 (butlast (tl s)) then strip_wrap (trim (butlast (tl s))) else s)"
  by pat_completeness auto
termination
proof (relation "measure length")
  fix s assume "wrapped s \<and> balanced_from 0 (butlast (tl s))"
  then have "length (butlast (tl s)) < length s" by (auto simp: wrapped_def)
  moreover have "length (trim (butlast (tl s))) \<le> length (butlast (tl s))"
    using length_trim_end length_trim_start order_trans unfolding trim_def by blast
  ultimately show "(trim (butlast (tl s)), s) \<in> measure length" by simp
qed simp

declare strip_wrap.simps [simp del]

definition norm_default :: "string option \<Rightarrow> string" where
  "norm_default d = strip_wrap (trim (default [] d))"

definition norm_expr :: "string \<Rightarrow> string" where
  "norm_expr e = filter (\<lambda>c. \<not> (is_space c \<or> c \<in> {CHR ''('', CHR '')'', DQ, BT, LB, RB})) (to_lower e)"

definition fk_sig :: "foreign_key \<Rightarrow> string" where
  "fk_sig f = low_cols_key (fk_columns f) @ ''>'' @ to_lower (fk_table f) @ ''('' @ low_cols_key (fk_refs f) @ '')''"

definition index_sig :: "index_def \<Rightarrow> string" where
  "index_sig i = (if ix_unique i then ''u'' else []) @ '':'' @ low_cols_key (ix_columns i)"

definition pk_sig :: "key_def option \<Rightarrow> string" where
  "pk_sig p = (case p of None \<Rightarrow> [] | Some q \<Rightarrow> join '','' (sort_by code_le (map to_lower (kd_columns q))))"

definition unique_sig :: "key_def \<Rightarrow> string" where
  "unique_sig u = low_cols_key (kd_columns u)"

definition check_sig :: "check_def \<Rightarrow> string" where
  "check_sig c = norm_expr (ck_expr c)"

section \<open>Matching\<close>

definition by_sig :: "('a \<Rightarrow> string) \<Rightarrow> 'a list \<Rightarrow> (string \<times> 'a) list" where
  "by_sig f xs = fold (\<lambda>x. map_set (f x) x) xs []"

definition match_added :: "('a \<Rightarrow> string) \<Rightarrow> 'a list \<Rightarrow> 'a list \<Rightarrow> 'a list" where
  "match_added f source target = filter (\<lambda>x. \<not> has_key (by_sig f target) (f x)) source"

definition match_removed :: "('a \<Rightarrow> string) \<Rightarrow> 'a list \<Rightarrow> 'a list \<Rightarrow> 'a list" where
  "match_removed f source target = filter (\<lambda>x. f x \<notin> f ` set source) target"

definition match_kept :: "('a \<Rightarrow> string) \<Rightarrow> 'a list \<Rightarrow> 'a list \<Rightarrow> ('a \<times> 'a) list" where
  "match_kept f source target =
     List.map_filter (\<lambda>s. map_option (Pair s) (map_of (by_sig f target) (f s))) source"

record 'a add_remove =
  ar_added :: "'a list"
  ar_removed :: "'a list"

definition no_change :: "'a add_remove" where
  "no_change = \<lparr>ar_added = [], ar_removed = []\<rparr>"

definition pick_change :: "bool \<Rightarrow> ('a \<Rightarrow> string) \<Rightarrow> 'a list \<Rightarrow> 'a list \<Rightarrow> 'a add_remove" where
  "pick_change on f a b =
     (if on then \<lparr>ar_added = match_added f a b, ar_removed = match_removed f a b\<rparr> else no_change)"

section \<open>The difference of one table\<close>

record column_change =
  cc_name :: string
  cc_from :: column_def
  cc_to :: column_def
  cc_type :: bool
  cc_null :: bool
  cc_dflt :: bool

record table_change =
  tc_name :: string
  tc_added :: "column_def list"
  tc_removed :: "column_def list"
  tc_changed :: "column_change list"
  tc_pk :: "(key_def option \<times> key_def option) option"
  tc_uniques :: "key_def add_remove"
  tc_indexes :: "index_def add_remove"
  tc_fks :: "foreign_key add_remove"
  tc_checks :: "check_def add_remove"

definition column_sig :: "column_def \<Rightarrow> string" where
  "column_sig c = to_lower (cf_name c)"

definition column_change_of :: "bool \<Rightarrow> column_def \<times> column_def \<Rightarrow> column_change option" where
  "column_change_of defaults st =
     (let s = fst st; t = snd st;
          ty = (norm_type (cf_type s) \<noteq> norm_type (cf_type t));
          nl = (cf_notnull s \<noteq> cf_notnull t);
          df = (defaults \<and> norm_default (cf_dflt s) \<noteq> norm_default (cf_dflt t))
      in if ty \<or> nl \<or> df
         then Some \<lparr>cc_name = cf_name t, cc_from = t, cc_to = s, cc_type = ty, cc_null = nl, cc_dflt = df\<rparr>
         else None)"

definition diff_table :: "table_def \<Rightarrow> table_def \<Rightarrow> (category \<Rightarrow> bool) \<Rightarrow> table_change" where
  "diff_table s t has =
     \<lparr>tc_name = td_name t,
      tc_added = match_added column_sig (td_columns s) (td_columns t),
      tc_removed = match_removed column_sig (td_columns s) (td_columns t),
      tc_changed = List.map_filter (column_change_of (has Defaults_Cat))
        (match_kept column_sig (td_columns s) (td_columns t)),
      tc_pk = (if pk_sig (td_pk s) \<noteq> pk_sig (td_pk t) then Some (td_pk t, td_pk s) else None),
      tc_uniques = pick_change (has Constraints_Cat) unique_sig (td_uniques s) (td_uniques t),
      tc_indexes = pick_change (has Indexes_Cat) index_sig (td_indexes s) (td_indexes t),
      tc_fks = pick_change (has Constraints_Cat) fk_sig (td_fks s) (td_fks t),
      tc_checks = pick_change (has Checks_Cat) check_sig (td_checks s) (td_checks t)\<rparr>"

definition no_items :: "'a add_remove \<Rightarrow> bool" where
  "no_items x \<longleftrightarrow> ar_added x = [] \<and> ar_removed x = []"

definition table_change_empty :: "table_change \<Rightarrow> bool" where
  "table_change_empty c \<longleftrightarrow> tc_added c = [] \<and> tc_removed c = [] \<and> tc_changed c = [] \<and> tc_pk c = None \<and>
     no_items (tc_uniques c) \<and> no_items (tc_indexes c) \<and> no_items (tc_fks c) \<and> no_items (tc_checks c)"

section \<open>Keys that have to be re-created\<close>

text \<open>The keys \<open>table.column\<close> of the columns whose type changes, and the tables whose primary key
  does.\<close>

definition dotted :: "string \<Rightarrow> string \<Rightarrow> string" where
  "dotted t c = to_lower t @ ''.'' @ to_lower c"

definition retyped_columns :: "table_change list \<Rightarrow> string list" where
  "retyped_columns changes =
     concat (map (\<lambda>ch. map (\<lambda>c. dotted (tc_name ch) (cc_name c)) (filter cc_type (tc_changed ch))) changes)"

definition rekeyed_tables :: "table_change list \<Rightarrow> string list" where
  "rekeyed_tables changes = map (\<lambda>ch. to_lower (tc_name ch)) (filter (\<lambda>ch. tc_pk ch \<noteq> None) changes)"

definition fk_touched :: "string list \<Rightarrow> string list \<Rightarrow> string \<Rightarrow> foreign_key \<Rightarrow> bool" where
  "fk_touched retyped rekeyed table fk \<longleftrightarrow>
     to_lower (fk_table fk) \<in> set rekeyed \<or>
     list_ex (\<lambda>c. dotted table c \<in> set retyped) (fk_columns fk) \<or>
     list_ex (\<lambda>c. dotted (fk_table fk) c \<in> set retyped) (fk_refs fk)"

definition recreate_fks :: "string list \<Rightarrow> string list \<Rightarrow> table_def \<times> table_def \<Rightarrow> table_change \<Rightarrow> table_change" where
  "recreate_fks retyped rekeyed st ch =
     (let both = filter (\<lambda>(sf, tf). fk_touched retyped rekeyed (td_name (snd st)) tf)
            (match_kept fk_sig (td_fks (fst st)) (td_fks (snd st)))
      in ch\<lparr>tc_fks := \<lparr>ar_added = ar_added (tc_fks ch) @ map fst both,
                       ar_removed = ar_removed (tc_fks ch) @ map snd both\<rparr>\<rparr>)"

section \<open>Views\<close>

text \<open>\<open>/\bview\b[\s\S]*?\bas\b([\s\S]*)$/i\<close>.\<close>

definition VIEW_BODY :: re where
  "VIEW_BODY = seqs [WordB, liti ''view'', WordB, lazy_star any, WordB, liti ''as'', WordB, Grp 1 (star any), Eol]"

definition view_query :: "string \<Rightarrow> string" where
  "view_query ddl = default ddl (re_group VIEW_BODY ddl 1)"

definition view_body :: "string \<Rightarrow> string" where
  "view_body ddl =
     filter (\<lambda>c. \<not> (is_space c \<or> c \<in> {DQ, BT, LB, RB})) (to_lower (re_replace LAST_SEMI [] (view_query ddl)))"

definition name_edge :: "char \<Rightarrow> bool" where
  "name_edge c \<longleftrightarrow> \<not> (is_word c \<or> c = CHR ''$'')"

definition mentions :: "string \<Rightarrow> string \<Rightarrow> bool" where
  "mentions body name = re_test (seqs [Alt Bol (Cls name_edge), lit name, Alt Eol (Cls name_edge)]) body"

definition view_deps :: "view_def list \<Rightarrow> string list \<Rightarrow> string \<Rightarrow> string list" where
  "view_deps views extra name =
     (let bodies = by_sig (\<lambda>v. to_lower (vd_name v)) views;
          body = (case map_of bodies (to_lower name) of None \<Rightarrow> [] | Some v \<Rightarrow> to_lower (view_query (vd_ddl v)))
      in filter (\<lambda>n. mentions body (to_lower n))
           (filter (\<lambda>n. to_lower n \<noteq> to_lower name) (map vd_name views @ extra)))"

text \<open>One pass of the closure: unchanged views that read what is dropped or touched are re-created.\<close>

definition reads_gone :: "(string \<Rightarrow> string list) \<Rightarrow> string list \<Rightarrow> string list \<Rightarrow> view_def \<Rightarrow> bool" where
  "reads_gone reads touched gone t \<longleftrightarrow>
     list_ex (\<lambda>d. to_lower d \<in> set gone \<or> to_lower d \<in> set touched) (reads (vd_name t))"

definition grow_step ::
    "(string \<Rightarrow> string list) \<Rightarrow> string list \<Rightarrow> view_def \<times> view_def \<Rightarrow>
     string list \<times> (view_def \<times> view_def) list \<Rightarrow> string list \<times> (view_def \<times> view_def) list" where
  "grow_step reads touched st acc =
     (if to_lower (vd_name (snd st)) \<notin> set (fst acc) \<and> reads_gone reads touched (fst acc) (snd st)
      then (to_lower (vd_name (snd st)) # fst acc, snd acc @ [st]) else acc)"

definition untouched :: "(view_def \<times> view_def) list \<Rightarrow> string list \<Rightarrow> nat" where
  "untouched kept gone = length (filter (\<lambda>st. to_lower (vd_name (snd st)) \<notin> set gone) kept)"

lemma grow_step_gone: "set (fst acc) \<subseteq> set (fst (grow_step reads touched st acc))"
  by (auto simp: grow_step_def)

lemma grow_pass_gone: "set (fst acc) \<subseteq> set (fst (fold (grow_step reads touched) kept acc))"
proof (induction kept arbitrary: acc)
  case (Cons st kept)
  from Cons [of "grow_step reads touched st acc"] grow_step_gone [of acc reads touched st] show ?case by simp
qed simp

lemma untouched_mono: "set g \<subseteq> set g' \<Longrightarrow> untouched kept g' \<le> untouched kept g"
  unfolding untouched_def by (induction kept) auto

lemma untouched_less:
  assumes "set g \<subseteq> set g'" and "st \<in> set kept"
    and "to_lower (vd_name (snd st)) \<notin> set g" and "to_lower (vd_name (snd st)) \<in> set g'"
  shows "untouched kept g' < untouched kept g"
  using assms(2)
proof (induction kept)
  case (Cons x kept)
  have le: "untouched kept g' \<le> untouched kept g" using assms(1) by (rule untouched_mono)
  show ?case
  proof (cases "st \<in> set kept")
    case True
    with Cons.IH assms(1) show ?thesis by (auto simp: untouched_def)
  next
    case False
    with Cons.prems have "x = st" by simp
    with le assms(3,4) show ?thesis by (simp add: untouched_def)
  qed
qed simp

lemma grow_pass_progress:
  assumes "set ks \<subseteq> set kept" and "fold (grow_step reads touched) ks acc \<noteq> acc"
  shows "untouched kept (fst (fold (grow_step reads touched) ks acc)) < untouched kept (fst acc)"
  using assms
proof (induction ks arbitrary: acc)
  case (Cons st ks)
  let ?a = "grow_step reads touched st acc"
  show ?case
  proof (cases "?a = acc")
    case True
    with Cons show ?thesis by simp
  next
    case False
    then have st: "to_lower (vd_name (snd st)) \<notin> set (fst acc)" "to_lower (vd_name (snd st)) \<in> set (fst ?a)"
      by (auto simp: grow_step_def split: if_splits)
    have "untouched kept (fst ?a) < untouched kept (fst acc)"
      using Cons.prems(1) by (intro untouched_less [OF grow_step_gone _ st]) simp
    moreover have "untouched kept (fst (fold (grow_step reads touched) ks ?a)) \<le> untouched kept (fst ?a)"
      by (intro untouched_mono grow_pass_gone)
    ultimately show ?thesis by simp
  qed
qed simp

function grow_loop ::
    "(string \<Rightarrow> string list) \<Rightarrow> string list \<Rightarrow> (view_def \<times> view_def) list \<Rightarrow>
     string list \<times> (view_def \<times> view_def) list \<Rightarrow> string list \<times> (view_def \<times> view_def) list" where
  "grow_loop reads touched kept acc =
     (let acc' = fold (grow_step reads touched) kept acc in
      if acc' \<noteq> acc then grow_loop reads touched kept acc' else acc)"
  by pat_completeness auto
termination
  by (relation "measure (\<lambda>(reads, touched, kept, acc). untouched kept (fst acc))")
     (auto intro: grow_pass_progress)

declare grow_loop.simps [simp del]

section \<open>The difference of two schemas\<close>

datatype side = Source_Side | Target_Side

record not_compared =
  nc_side :: side
  nc_engine :: string
  nc_category :: category
  nc_reason :: string

record schema_diff =
  sd_source :: string
  sd_target :: string
  sd_added :: "table_def list"
  sd_removed :: "table_def list"
  sd_changed :: "table_change list"
  sd_added_views :: "view_def list"
  sd_removed_views :: "view_def list"
  sd_changed_views :: "(view_def \<times> view_def) list"
  sd_not_compared :: "not_compared list"
  sd_skipped :: "string list"

definition table_sig :: "table_def \<Rightarrow> string" where
  "table_sig t = to_lower (td_name t)"

definition view_sig :: "view_def \<Rightarrow> string" where
  "view_sig v = to_lower (vd_name v)"

definition has_category :: "schema_snapshot \<Rightarrow> schema_snapshot \<Rightarrow> category \<Rightarrow> bool" where
  "has_category source target c \<longleftrightarrow> \<not> has_key (sn_missing source) c \<and> \<not> has_key (sn_missing target) c"

definition missing_of :: "side \<Rightarrow> schema_snapshot \<Rightarrow> not_compared list" where
  "missing_of side snap =
     map (\<lambda>(c, r). \<lparr>nc_side = side, nc_engine = sn_engine snap, nc_category = c, nc_reason = r\<rparr>) (sn_missing snap)"

definition kept_tables :: "schema_snapshot \<Rightarrow> schema_snapshot \<Rightarrow> (table_def \<times> table_def) list" where
  "kept_tables source target = match_kept table_sig (sn_tables source) (sn_tables target)"

definition table_changes :: "schema_snapshot \<Rightarrow> schema_snapshot \<Rightarrow> table_change list" where
  "table_changes source target =
     map (\<lambda>(s, t). diff_table s t (has_category source target)) (kept_tables source target)"

definition all_changes :: "schema_snapshot \<Rightarrow> schema_snapshot \<Rightarrow> table_change list" where
  "all_changes source target =
     (let changes = table_changes source target;
          retyped = retyped_columns changes; rekeyed = rekeyed_tables changes
      in if (retyped \<noteq> [] \<or> rekeyed \<noteq> []) \<and> has_category source target Constraints_Cat
         then map2 (recreate_fks retyped rekeyed) (kept_tables source target) changes
         else changes)"

definition changed_bodies :: "schema_snapshot \<Rightarrow> schema_snapshot \<Rightarrow> (view_def \<times> view_def) list" where
  "changed_bodies source target =
     filter (\<lambda>(s, t). view_body (vd_ddl s) \<noteq> view_body (vd_ddl t))
       (match_kept view_sig (sn_views source) (sn_views target))"

definition touched_tables :: "table_change list \<Rightarrow> string list" where
  "touched_tables changes =
     map (\<lambda>c. to_lower (tc_name c))
       (filter (\<lambda>c. tc_removed c \<noteq> [] \<or> list_ex cc_type (tc_changed c)) changes)"

definition diff_views ::
    "schema_snapshot \<Rightarrow> schema_snapshot \<Rightarrow> table_change list \<Rightarrow> string list \<times> (view_def \<times> view_def) list" where
  "diff_views source target changes =
     (let kept = match_kept view_sig (sn_views source) (sn_views target);
          changed = changed_bodies source target;
          removed = match_removed view_sig (sn_views source) (sn_views target);
          touched = touched_tables changes;
          gone = map (\<lambda>v. to_lower (vd_name v)) (removed @ map snd changed)
      in grow_loop (view_deps (sn_views target) touched) touched kept (gone, changed))"

definition diff_schemas :: "schema_snapshot \<Rightarrow> schema_snapshot \<Rightarrow> schema_diff" where
  "diff_schemas source target =
     (let changes = all_changes source target; vs = has_category source target Views_Cat in
      \<lparr>sd_source = sn_engine source, sd_target = sn_engine target,
       sd_added = match_added table_sig (sn_tables source) (sn_tables target),
       sd_removed = match_removed table_sig (sn_tables source) (sn_tables target),
       sd_changed = filter (\<lambda>c. \<not> table_change_empty c) changes,
       sd_added_views = (if vs then match_added view_sig (sn_views source) (sn_views target) else []),
       sd_removed_views = (if vs then match_removed view_sig (sn_views source) (sn_views target) else []),
       sd_changed_views = (if vs then snd (diff_views source target changes) else []),
       sd_not_compared = missing_of Source_Side source @ missing_of Target_Side target,
       sd_skipped = sn_skipped source @ sn_skipped target\<rparr>)"

definition diff_empty :: "schema_diff \<Rightarrow> bool" where
  "diff_empty d \<longleftrightarrow> sd_added d = [] \<and> sd_removed d = [] \<and> sd_changed d = [] \<and>
     sd_added_views d = [] \<and> sd_removed_views d = [] \<and> sd_changed_views d = []"

section \<open>What the user asked to compare\<close>

record compare_scope =
  sc_structure :: bool
  sc_constraints :: bool
  sc_views :: bool

definition scoped_change :: "compare_scope \<Rightarrow> table_change \<Rightarrow> table_change" where
  "scoped_change sc c =
     (let c1 = (if sc_structure sc then c else c\<lparr>tc_added := [], tc_removed := [], tc_changed := [], tc_pk := None\<rparr>)
      in if sc_constraints sc then c1
         else c1\<lparr>tc_uniques := no_change, tc_indexes := no_change, tc_fks := no_change, tc_checks := no_change\<rparr>)"

definition scoped_note :: "compare_scope \<Rightarrow> not_compared \<Rightarrow> bool" where
  "scoped_note sc n \<longleftrightarrow>
     \<not> (nc_category n = Views_Cat \<and> \<not> sc_views sc) \<and>
     \<not> (nc_category n \<in> {Constraints_Cat, Checks_Cat, Indexes_Cat} \<and> \<not> sc_constraints sc)"

definition filter_diff :: "schema_diff \<Rightarrow> compare_scope \<Rightarrow> schema_diff" where
  "filter_diff d sc =
     d\<lparr>sd_added := (if sc_structure sc then sd_added d else []),
       sd_removed := (if sc_structure sc then sd_removed d else []),
       sd_changed := filter (\<lambda>c. \<not> table_change_empty c) (map (scoped_change sc) (sd_changed d)),
       sd_added_views := (if sc_views sc then sd_added_views d else []),
       sd_removed_views := (if sc_views sc then sd_removed_views d else []),
       sd_changed_views := (if sc_views sc then sd_changed_views d else []),
       sd_not_compared := filter (scoped_note sc) (sd_not_compared d)\<rparr>"

section \<open>Facts about matching\<close>

lemma fold_by_sig:
  "map_of (fold (\<lambda>x. map_set (f x) x) xs m) k = Some x \<Longrightarrow> (x \<in> set xs \<and> f x = k) \<or> map_of m k = Some x"
proof (induction xs arbitrary: m)
  case (Cons y ys)
  from Cons.prems have "map_of (fold (\<lambda>x. map_set (f x) x) ys (map_set (f y) y m)) k = Some x" by simp
  from Cons.IH [OF this] consider "x \<in> set ys" "f x = k" | "map_of (map_set (f y) y m) k = Some x" by blast
  then show ?case
  proof cases
    case 2
    then show ?thesis by (cases "k = f y") simp_all
  qed simp
qed simp

lemma by_sig_get: "map_of (by_sig f xs) k = Some x \<Longrightarrow> x \<in> set xs \<and> f x = k"
  unfolding by_sig_def using fold_by_sig [of f xs "[]" k x] by simp

lemma keys_by_sig: "fst ` set (by_sig f xs) = f ` set xs"
proof -
  have "fst ` set (fold (\<lambda>x. map_set (f x) x) xs m) = fst ` set m \<union> f ` set xs" for m
    by (induction xs arbitrary: m) auto
  then show ?thesis by (simp add: by_sig_def)
qed

lemma by_sig_distinct:
  assumes "distinct (map f xs)" and "x \<in> set xs"
  shows "map_of (by_sig f xs) (f x) = Some x"
proof -
  have "f x \<in> fst ` set (by_sig f xs)" using assms(2) by (simp add: keys_by_sig)
  then obtain y where y: "map_of (by_sig f xs) (f x) = Some y"
    by (metis domD dom_map_of_conv_image_fst)
  from by_sig_get [OF y] assms have "y = x" by (metis distinct_map inj_onD)
  with y show ?thesis by simp
qed

lemma match_added_iff: "match_added f a b = filter (\<lambda>x. f x \<notin> f ` set b) a"
  by (simp add: match_added_def has_key_def keys_by_sig)

lemma set_match_kept:
  "(s, t) \<in> set (match_kept f a b) \<longleftrightarrow> s \<in> set a \<and> map_of (by_sig f b) (f s) = Some t"
  by (force simp: match_kept_def map_filter_def)

lemma match_keptD: "(s, t) \<in> set (match_kept f a b) \<Longrightarrow> s \<in> set a \<and> t \<in> set b \<and> f s = f t"
  using by_sig_get by (fastforce simp: set_match_kept)

lemma match_keptI: "distinct (map f b) \<Longrightarrow> s \<in> set a \<Longrightarrow> t \<in> set b \<Longrightarrow> f s = f t \<Longrightarrow> (s, t) \<in> set (match_kept f a b)"
  by (simp add: set_match_kept by_sig_distinct)

lemma match_self: "distinct (map f a) \<Longrightarrow> match_kept f a a = map (\<lambda>x. (x, x)) a"
  by (auto simp: match_kept_def map_filter_def by_sig_distinct intro!: map_cong filter_True)

lemma match_same [simp]: "match_added f a a = []" "match_removed f a a = []"
  by (simp_all add: match_added_iff match_removed_def)

lemma fst_match_kept: "distinct (map f a) \<Longrightarrow> distinct (map (\<lambda>st. f (snd st)) (match_kept f a b))"
proof -
  assume "distinct (map f a)"
  moreover have "map (\<lambda>st. f (snd st)) (match_kept f a b) = map f (map fst (match_kept f a b))"
    by (auto dest: match_keptD)
  moreover have "map fst (match_kept f a b) = filter (\<lambda>s. map_of (by_sig f b) (f s) \<noteq> None) a"
    by (induction a) (auto simp: match_kept_def map_filter_simps)
  ultimately show ?thesis by (simp add: distinct_map_filter)
qed

section \<open>What a difference asks for\<close>

text \<open>Carrying a difference out on the model: items are taken out and put in, columns replaced, tables
  dropped, changed and created. This is what the items of a difference mean.\<close>

definition apply_items :: "'a add_remove \<Rightarrow> 'a list \<Rightarrow> 'a list" where
  "apply_items ch xs = filter (\<lambda>x. x \<notin> set (ar_removed ch)) xs @ ar_added ch"

definition apply_columns :: "table_change \<Rightarrow> column_def list \<Rightarrow> column_def list" where
  "apply_columns ch cols =
     map (\<lambda>c. case List.find (\<lambda>cc. cc_from cc = c) (tc_changed ch) of None \<Rightarrow> c | Some cc \<Rightarrow> cc_to cc)
       (filter (\<lambda>c. c \<notin> set (tc_removed ch)) cols) @ tc_added ch"

definition apply_table :: "table_change \<Rightarrow> table_def \<Rightarrow> table_def" where
  "apply_table ch t = t\<lparr>
     td_columns := apply_columns ch (td_columns t),
     td_pk := (case tc_pk ch of None \<Rightarrow> td_pk t | Some p \<Rightarrow> snd p),
     td_uniques := apply_items (tc_uniques ch) (td_uniques t),
     td_indexes := apply_items (tc_indexes ch) (td_indexes t),
     td_fks := apply_items (tc_fks ch) (td_fks t),
     td_checks := apply_items (tc_checks ch) (td_checks t)\<rparr>"

definition apply_tables :: "schema_diff \<Rightarrow> table_def list \<Rightarrow> table_def list" where
  "apply_tables d ts =
     map (\<lambda>t. case List.find (\<lambda>ch. tc_name ch = td_name t) (sd_changed d) of None \<Rightarrow> t | Some ch \<Rightarrow> apply_table ch t)
       (filter (\<lambda>t. t \<notin> set (sd_removed d)) ts) @ sd_added d"

text \<open>What is compared of a table: its columns by name, its primary key, and the signatures of the
  objects whose catalog both sides could read.\<close>

definition column_state :: "bool \<Rightarrow> column_def \<Rightarrow> string \<times> bool \<times> string" where
  "column_state defaults c =
     (norm_type (cf_type c), cf_notnull c, if defaults then norm_default (cf_dflt c) else [])"

definition columns_state :: "bool \<Rightarrow> column_def list \<Rightarrow> string \<Rightarrow> (string \<times> bool \<times> string) option" where
  "columns_state defaults cols = map_of (map (\<lambda>c. (column_sig c, column_state defaults c)) cols)"

record table_state =
  ts_columns :: "string \<Rightarrow> (string \<times> bool \<times> string) option"
  ts_pk :: string
  ts_uniques :: "string set"
  ts_indexes :: "string set"
  ts_fks :: "string set"
  ts_checks :: "string set"

definition state_of :: "(category \<Rightarrow> bool) \<Rightarrow> table_def \<Rightarrow> table_state" where
  "state_of has t =
     \<lparr>ts_columns = columns_state (has Defaults_Cat) (td_columns t), ts_pk = pk_sig (td_pk t),
      ts_uniques = (if has Constraints_Cat then unique_sig ` set (td_uniques t) else {}),
      ts_indexes = (if has Indexes_Cat then index_sig ` set (td_indexes t) else {}),
      ts_fks = (if has Constraints_Cat then fk_sig ` set (td_fks t) else {}),
      ts_checks = (if has Checks_Cat then check_sig ` set (td_checks t) else {})\<rparr>"

definition tables_state :: "(category \<Rightarrow> bool) \<Rightarrow> table_def list \<Rightarrow> string \<Rightarrow> table_state option" where
  "tables_state has ts = map_of (map (\<lambda>t. (table_sig t, state_of has t)) ts)"

text \<open>The views: those to drop are dropped by name, those to create are created. What is compared of a
  view is its name and its query.\<close>

definition dropped_views :: "schema_diff \<Rightarrow> view_def list" where
  "dropped_views d = sd_removed_views d @ map snd (sd_changed_views d)"

definition apply_views :: "schema_diff \<Rightarrow> view_def list \<Rightarrow> view_def list" where
  "apply_views d vs =
     filter (\<lambda>v. view_sig v \<notin> view_sig ` set (dropped_views d)) vs @ map fst (sd_changed_views d) @ sd_added_views d"

definition views_state :: "view_def list \<Rightarrow> string \<Rightarrow> string option" where
  "views_state vs = map_of (map (\<lambda>v. (view_sig v, view_body (vd_ddl v))) vs)"

definition wf_table :: "table_def \<Rightarrow> bool" where
  "wf_table t \<longleftrightarrow> distinct (map column_sig (td_columns t))"

definition wf_snapshot :: "schema_snapshot \<Rightarrow> bool" where
  "wf_snapshot s \<longleftrightarrow> distinct (map table_sig (sn_tables s)) \<and> list_all wf_table (sn_tables s) \<and>
     distinct (map view_sig (sn_views s))"

section \<open>The difference is exact\<close>

lemma recreated_items:
  assumes "set both \<subseteq> set (match_kept f a b)"
  shows "f ` set (apply_items \<lparr>ar_added = match_added f a b @ map fst both,
    ar_removed = match_removed f a b @ map snd both\<rparr> b) = f ` set a"
proof -
  have both: "s \<in> set a \<and> t \<in> set b \<and> f s = f t" if "(s, t) \<in> set both" for s t
    using that assms match_keptD [of s t f a b] by blast
  show ?thesis
  proof (intro set_eqI iffI)
    fix y assume "y \<in> f ` set (apply_items \<lparr>ar_added = match_added f a b @ map fst both,
      ar_removed = match_removed f a b @ map snd both\<rparr> b)"
    then show "y \<in> f ` set a"
      using both by (auto simp: apply_items_def match_added_iff match_removed_def)
  next
    fix y assume "y \<in> f ` set a"
    then obtain x where x: "x \<in> set a" "y = f x" by blast
    show "y \<in> f ` set (apply_items \<lparr>ar_added = match_added f a b @ map fst both,
      ar_removed = match_removed f a b @ map snd both\<rparr> b)"
    proof (cases "f x \<in> f ` set b")
      case True
      then obtain t where t: "t \<in> set b" "f t = f x" by auto
      show ?thesis
      proof (cases "t \<in> snd ` set both")
        case True
        then obtain s where st: "(s, t) \<in> set both" by auto
        then have "s \<in> set (apply_items \<lparr>ar_added = match_added f a b @ map fst both,
            ar_removed = match_removed f a b @ map snd both\<rparr> b)"
          by (force simp: apply_items_def)
        moreover have "f s = y" using both [OF st] t(2) x(2) by simp
        ultimately show ?thesis by blast
      next
        case False
        with t x have "t \<in> set (apply_items \<lparr>ar_added = match_added f a b @ map fst both,
            ar_removed = match_removed f a b @ map snd both\<rparr> b)"
          by (simp add: apply_items_def match_removed_def)
        moreover have "f t = y" using t(2) x(2) by simp
        ultimately show ?thesis by blast
      qed
    next
      case False
      with x show ?thesis by (auto simp: apply_items_def match_added_iff)
    qed
  qed
qed

lemma pick_items: "f ` set (apply_items (pick_change True f a b) b) = f ` set a"
  using recreated_items [of "[]" f a b] by (simp add: pick_change_def)

lemma map_of_distinct_sig:
  assumes "distinct (map f xs)"
  shows "map_of (map (\<lambda>x. (f x, g x)) xs) k = Some v \<longleftrightarrow> (\<exists>x \<in> set xs. f x = k \<and> g x = v)"
proof -
  have "distinct (map fst (map (\<lambda>x. (f x, g x)) xs))" using assms by (simp add: comp_def)
  from map_of_eq_Some_iff [OF this] show ?thesis by auto
qed

text \<open>Two lists with distinct signatures give the same map when each item has a partner.\<close>

lemma map_of_same:
  assumes "distinct (map f xs)" and "distinct (map f ys)"
    and "\<And>x. x \<in> set xs \<Longrightarrow> \<exists>y \<in> set ys. f y = f x \<and> g y = g x" and "f ` set ys \<subseteq> f ` set xs"
  shows "map_of (map (\<lambda>x. (f x, g x)) xs) = map_of (map (\<lambda>x. (f x, g x)) ys)"
proof
  fix k
  show "map_of (map (\<lambda>x. (f x, g x)) xs) k = map_of (map (\<lambda>x. (f x, g x)) ys) k"
  proof (cases "k \<in> f ` set xs")
    case True
    then obtain x y where "x \<in> set xs" "f x = k" "y \<in> set ys" "f y = k" "g y = g x" using assms(3) by blast
    with map_of_distinct_sig [OF assms(1), of g k "g x"] map_of_distinct_sig [OF assms(2), of g k "g x"]
    show ?thesis by auto
  next
    case False
    with assms(4) have "k \<notin> f ` set ys" by blast
    with False have "map_of (map (\<lambda>x. (f x, g x)) xs) k = None" "map_of (map (\<lambda>x. (f x, g x)) ys) k = None"
      by (auto simp: map_of_eq_None_iff image_iff)
    then show ?thesis by simp
  qed
qed


lemma column_change_None: "column_change_of d (s, t) = None \<longleftrightarrow> column_state d s = column_state d t"
  by (auto simp: column_change_of_def column_state_def Let_def)

lemma column_change_Some:
  "column_change_of d (s, t) = Some cc \<Longrightarrow> cc_from cc = t \<and> cc_to cc = s \<and> cc_name cc = cf_name t"
  by (auto simp: column_change_of_def Let_def split: if_splits)

lemma set_changed:
  "cc \<in> set (List.map_filter (column_change_of d) kept) \<longleftrightarrow> (\<exists>st \<in> set kept. column_change_of d st = Some cc)"
  by (force simp: map_filter_def)

text \<open>What becomes of a column of the target that stays.\<close>

definition new_column :: "column_change list \<Rightarrow> column_def \<Rightarrow> column_def" where
  "new_column changed c = (case List.find (\<lambda>cc. cc_from cc = c) changed of None \<Rightarrow> c | Some cc \<Rightarrow> cc_to cc)"

lemma apply_columns_alt:
  "apply_columns ch cols = map (new_column (tc_changed ch)) (filter (\<lambda>c. c \<notin> set (tc_removed ch)) cols) @ tc_added ch"
  by (simp add: apply_columns_def new_column_def)

lemma new_column_state:
  assumes t: "distinct (map column_sig ts)" and c: "c \<in> set ts" and y: "y \<in> set ss" "column_sig y = column_sig c"
  shows "\<exists>z \<in> set ss. column_sig z = column_sig c \<and>
    column_sig (new_column (List.map_filter (column_change_of d) (match_kept column_sig ss ts)) c) = column_sig c \<and>
    column_state d z = column_state d (new_column (List.map_filter (column_change_of d) (match_kept column_sig ss ts)) c)"
proof (cases "List.find (\<lambda>cc. cc_from cc = c) (List.map_filter (column_change_of d) (match_kept column_sig ss ts))")
  case None
  have "(y, c) \<in> set (match_kept column_sig ss ts)" using t y(1) c y(2) by (rule match_keptI)
  then have "column_change_of d (y, c) = None"
    using None column_change_Some [of d y c] by (cases "column_change_of d (y, c)") (force simp: find_None_iff_all set_changed)+
  with y None show ?thesis by (auto simp: new_column_def column_change_None)
next
  case (Some cc)
  then have cc: "cc \<in> set (List.map_filter (column_change_of d) (match_kept column_sig ss ts))" "cc_from cc = c"
    by (auto dest: find_Some_mem)
  then obtain s t' where st: "(s, t') \<in> set (match_kept column_sig ss ts)" "column_change_of d (s, t') = Some cc"
    by (auto simp: set_changed)
  with column_change_Some [OF st(2)] cc(2) match_keptD [OF st(1)] Some show ?thesis
    by (auto simp: new_column_def)
qed

lemma columns_exact:
  assumes s: "distinct (map column_sig ss)" and t: "distinct (map column_sig ts)"
    and ch: "tc_added ch = match_added column_sig ss ts" "tc_removed ch = match_removed column_sig ss ts"
      "tc_changed ch = List.map_filter (column_change_of d) (match_kept column_sig ss ts)"
  shows "columns_state d (apply_columns ch ts) = columns_state d ss"
proof -
  define kept where "kept = filter (\<lambda>c. c \<notin> set (tc_removed ch)) ts"
  define h where "h = new_column (tc_changed ch)"
  have cols: "apply_columns ch ts = map h kept @ match_added column_sig ss ts"
    by (simp add: apply_columns_alt h_def kept_def ch(1))
  have kept: "c \<in> set ts \<and> (\<exists>y \<in> set ss. column_sig y = column_sig c)" if "c \<in> set kept" for c
    using that by (auto simp: kept_def ch(2) match_removed_def image_iff)
  have z: "\<exists>z \<in> set ss. column_sig z = column_sig c \<and> column_sig (h c) = column_sig c \<and> column_state d z = column_state d (h c)"
    if "c \<in> set kept" for c
    using kept [OF that] new_column_state [OF t, of c _ ss d] unfolding h_def ch(3) by blast
  then have sig: "map column_sig (map h kept) = map column_sig kept" by auto
  have "distinct (map column_sig kept)" using t by (simp add: kept_def distinct_map_filter)
  then have "distinct (map column_sig (apply_columns ch ts))"
    using s kept unfolding cols map_append sig
    by (auto simp: match_added_iff distinct_map_filter) (metis imageI)
  moreover have "\<exists>y \<in> set ss. column_sig y = column_sig x \<and> column_state d y = column_state d x"
    if x: "x \<in> set (apply_columns ch ts)" for x
  proof (cases "x \<in> set (match_added column_sig ss ts)")
    case True
    then show ?thesis by (auto simp: match_added_iff)
  next
    case False
    with x obtain c where "c \<in> set kept" "x = h c" by (auto simp: cols)
    with z [of c] show ?thesis by metis
  qed
  moreover have "column_sig ` set ss \<subseteq> column_sig ` set (apply_columns ch ts)"
  proof (intro subsetI, elim imageE)
    fix k y assume y: "k = column_sig y" "y \<in> set ss"
    show "k \<in> column_sig ` set (apply_columns ch ts)"
    proof (cases "k \<in> column_sig ` set ts")
      case True
      then obtain c where "c \<in> set ts" "column_sig c = k" by auto
      then have "c \<in> set kept" using y by (auto simp: kept_def ch(2) match_removed_def)
      with z [of c] have "column_sig (h c) = k" "h c \<in> set (apply_columns ch ts)"
        using \<open>column_sig c = k\<close> by (auto simp: cols)
      then show ?thesis by blast
    next
      case False
      with y show ?thesis by (auto simp: cols match_added_iff)
    qed
  qed
  ultimately show ?thesis
    unfolding columns_state_def by (intro map_of_same [OF _ s])
qed

text \<open>A change that asks for the table's difference, its foreign keys aside.\<close>

definition asks_for :: "(category \<Rightarrow> bool) \<Rightarrow> table_def \<times> table_def \<Rightarrow> table_change \<Rightarrow> bool" where
  "asks_for has st ch \<longleftrightarrow>
     ch\<lparr>tc_fks := no_change\<rparr> = (diff_table (fst st) (snd st) has)\<lparr>tc_fks := no_change\<rparr> \<and>
     (has Constraints_Cat \<longrightarrow> fk_sig ` set (apply_items (tc_fks ch) (td_fks (snd st))) = fk_sig ` set (td_fks (fst st)))"

lemma asks_for_fields:
  assumes "asks_for has (s, t) ch"
  shows "tc_name ch = td_name t" and "tc_added ch = tc_added (diff_table s t has)"
    and "tc_removed ch = tc_removed (diff_table s t has)" and "tc_changed ch = tc_changed (diff_table s t has)"
    and "tc_pk ch = tc_pk (diff_table s t has)" and "tc_uniques ch = tc_uniques (diff_table s t has)"
    and "tc_indexes ch = tc_indexes (diff_table s t has)" and "tc_checks ch = tc_checks (diff_table s t has)"
  using assms by (cases ch; simp add: asks_for_def diff_table_def)+

lemma table_exact:
  assumes ch: "asks_for has (s, t) ch" and wf: "wf_table s" "wf_table t"
  shows "state_of has (apply_table ch t) = state_of has s"
proof -
  note f = asks_for_fields [OF ch]
  have "columns_state (has Defaults_Cat) (apply_columns ch (td_columns t)) = columns_state (has Defaults_Cat) (td_columns s)"
    using wf f(2-4) by (intro columns_exact) (simp_all add: wf_table_def diff_table_def)
  moreover have "pk_sig (case tc_pk ch of None \<Rightarrow> td_pk t | Some p \<Rightarrow> snd p) = pk_sig (td_pk s)"
    by (simp add: f(5) diff_table_def)
  moreover have "has Constraints_Cat \<longrightarrow> fk_sig ` set (apply_items (tc_fks ch) (td_fks t)) = fk_sig ` set (td_fks s)"
    using ch by (simp add: asks_for_def)
  ultimately show ?thesis
    unfolding state_of_def apply_table_def f(6-8) diff_table_def by (simp add: pick_items)
qed

lemma asks_diff: "asks_for has (s, t) (diff_table s t has)"
  using pick_items [of fk_sig "td_fks s" "td_fks t"] by (simp add: asks_for_def diff_table_def)

lemma asks_recreated:
  assumes "has Constraints_Cat"
  shows "asks_for has (s, t) (recreate_fks retyped rekeyed (s, t) (diff_table s t has))"
proof -
  define both where "both = filter (\<lambda>(sf, tf). fk_touched retyped rekeyed (td_name t) tf) (match_kept fk_sig (td_fks s) (td_fks t))"
  have "set both \<subseteq> set (match_kept fk_sig (td_fks s) (td_fks t))" by (auto simp: both_def)
  from recreated_items [OF this] show ?thesis
    using assms by (simp add: asks_for_def recreate_fks_def diff_table_def pick_change_def both_def Let_def)
qed

lemma all_changes_map:
  "\<exists>g. all_changes source target = map g (kept_tables source target) \<and>
     (\<forall>st. asks_for (has_category source target) st (g st))"
proof -
  let ?has = "has_category source target" and ?kept = "kept_tables source target"
  define changes where "changes = table_changes source target"
  have base: "changes = map (\<lambda>st. diff_table (fst st) (snd st) ?has) ?kept"
    by (auto simp: changes_def table_changes_def)
  have zip: "map2 r ?kept (map g ?kept) = map (\<lambda>st. r st (g st)) ?kept" for r :: "table_def \<times> table_def \<Rightarrow> table_change \<Rightarrow> table_change" and g
    by (rule nth_equalityI) simp_all
  show ?thesis
  proof (cases "(retyped_columns changes \<noteq> [] \<or> rekeyed_tables changes \<noteq> []) \<and> ?has Constraints_Cat")
    case True
    then have "all_changes source target = map (\<lambda>st. recreate_fks (retyped_columns changes) (rekeyed_tables changes) st
        (diff_table (fst st) (snd st) ?has)) ?kept"
      unfolding all_changes_def Let_def changes_def [symmetric] by (simp add: base zip)
    moreover have "asks_for ?has st (recreate_fks (retyped_columns changes) (rekeyed_tables changes) st
        (diff_table (fst st) (snd st) ?has))" for st
      using asks_recreated [of ?has "fst st" "snd st"] True by simp
    ultimately show ?thesis by blast
  next
    case False
    then have "all_changes source target = changes"
      unfolding all_changes_def Let_def changes_def [symmetric] by (rule if_not_P)
    then have "all_changes source target = map (\<lambda>st. diff_table (fst st) (snd st) ?has) ?kept" by (simp only: base)
    moreover have "asks_for ?has st (diff_table (fst st) (snd st) ?has)" for st
      using asks_diff [of ?has "fst st" "snd st"] by simp
    ultimately show ?thesis by blast
  qed
qed

lemma apply_empty_change: "table_change_empty ch \<Longrightarrow> apply_table ch t = t"
  by (cases t) (simp add: apply_table_def table_change_empty_def apply_columns_def apply_items_def no_items_def)


lemma same_sig_same: "distinct (map f xs) \<Longrightarrow> x \<in> set xs \<Longrightarrow> y \<in> set xs \<Longrightarrow> f x = f y \<Longrightarrow> x = y"
  by (auto simp: distinct_map dest: inj_onD)

lemma sig_of_name: "td_name s = td_name t \<Longrightarrow> table_sig s = table_sig t"
  by (simp add: table_sig_def)

text \<open>What becomes of a table of the target that stays.\<close>

definition new_table :: "table_change list \<Rightarrow> table_def \<Rightarrow> table_def" where
  "new_table changes t =
     (case List.find (\<lambda>ch. tc_name ch = td_name t) changes of None \<Rightarrow> t | Some ch \<Rightarrow> apply_table ch t)"

lemma apply_tables_alt:
  "apply_tables d ts = map (new_table (sd_changed d)) (filter (\<lambda>t. t \<notin> set (sd_removed d)) ts) @ sd_added d"
  by (simp add: apply_tables_def new_table_def)

lemma apply_table_name [simp]: "table_sig (apply_table ch t) = table_sig t"
  by (simp add: apply_table_def table_sig_def)

lemma new_table_sig: "table_sig (new_table changes t) = table_sig t"
  by (simp add: new_table_def split: option.split)

lemma new_table_state:
  assumes wf: "wf_snapshot source" "wf_snapshot target"
    and t: "t \<in> set (sn_tables target)" and s: "s \<in> set (sn_tables source)" "table_sig s = table_sig t"
  shows "state_of (has_category source target) (new_table (sd_changed (diff_schemas source target)) t)
    = state_of (has_category source target) s"
proof -
  let ?has = "has_category source target"
  obtain g where g: "all_changes source target = map g (kept_tables source target)" "\<And>st. asks_for ?has st (g st)"
    using all_changes_map by blast
  have ds: "distinct (map table_sig (sn_tables source))" "distinct (map table_sig (sn_tables target))"
    using wf by (simp_all add: wf_snapshot_def)
  have st: "(s, t) \<in> set (kept_tables source target)"
    unfolding kept_tables_def using ds(2) s(1) t s(2) by (rule match_keptI)
  have only: "x = (s, t)" if "x \<in> set (kept_tables source target)" "tc_name (g x) = td_name t" for x
  proof -
    obtain s' t' where x: "x = (s', t')" by (cases x)
    have k: "s' \<in> set (sn_tables source)" "t' \<in> set (sn_tables target)" "table_sig s' = table_sig t'"
      using match_keptD [of s' t' table_sig] that(1) unfolding x kept_tables_def by simp_all
    have "td_name t' = td_name t" using that(2) asks_for_fields(1) [OF g(2), of s' t'] by (simp add: x)
    from sig_of_name [OF this] k(3) s(2) have "table_sig t' = table_sig t" "table_sig s' = table_sig s" by simp_all
    then have "t' = t" "s' = s"
      using same_sig_same [OF ds(2) k(2) t] same_sig_same [OF ds(1) k(1) s(1)] by simp_all
    then show ?thesis unfolding x by simp
  qed
  have name: "tc_name (g (s, t)) = td_name t" by (rule asks_for_fields(1) [OF g(2)])
  have "new_table (sd_changed (diff_schemas source target)) t = apply_table (g (s, t)) t"
  proof (cases "List.find (\<lambda>ch. tc_name ch = td_name t) (sd_changed (diff_schemas source target))")
    case None
    then have "table_change_empty (g (s, t))"
      using st name by (auto simp: find_None_iff_all diff_schemas_def Let_def g(1))
    with None show ?thesis by (simp add: new_table_def apply_empty_change)
  next
    case (Some ch)
    then have "ch \<in> set (all_changes source target)" "tc_name ch = td_name t"
      by (auto dest!: find_Some_mem simp: diff_schemas_def Let_def)
    then have "ch = g (s, t)" using only unfolding g(1) by auto
    with Some show ?thesis by (simp add: new_table_def)
  qed
  moreover have "wf_table s" "wf_table t" using wf s(1) t by (auto simp: wf_snapshot_def list_all_iff)
  ultimately show ?thesis using table_exact [OF g(2)] by simp
qed

section \<open>The closure over views\<close>

lemma grow_loop_fixed: "fold (grow_step reads touched) kept (grow_loop reads touched kept acc) = grow_loop reads touched kept acc"
proof (induction reads touched kept acc rule: grow_loop.induct)
  case (1 reads touched kept acc)
  then show ?case by (subst (1 2) grow_loop.simps) (auto simp: Let_def)
qed

definition grow_inv :: "string list \<Rightarrow> string list \<times> (view_def \<times> view_def) list \<Rightarrow> bool" where
  "grow_inv removed acc \<longleftrightarrow> set (fst acc) = set removed \<union> (\<lambda>st. to_lower (vd_name (snd st))) ` set (snd acc)"

lemma grow_inv_pass: "grow_inv removed acc \<Longrightarrow> grow_inv removed (fold (grow_step reads touched) kept acc)"
proof (induction kept arbitrary: acc)
  case (Cons st kept)
  have "grow_inv removed (grow_step reads touched st acc)"
    using Cons.prems by (auto simp: grow_inv_def grow_step_def)
  from Cons.IH [OF this] show ?case by simp
qed simp

lemma grow_inv_loop: "grow_inv removed acc \<Longrightarrow> grow_inv removed (grow_loop reads touched kept acc)"
proof (induction reads touched kept acc rule: grow_loop.induct)
  case (1 reads touched kept acc)
  then show ?case
    using grow_inv_pass [OF 1(2), of reads touched kept] by (subst grow_loop.simps) (auto simp: Let_def)
qed

lemma grow_step_grows: "length (snd acc) \<le> length (snd (grow_step reads touched st acc))"
  by (simp add: grow_step_def)

lemma grow_pass_grows: "length (snd acc) \<le> length (snd (fold (grow_step reads touched) kept acc))"
proof (induction kept arbitrary: acc)
  case (Cons st kept)
  from order_trans [OF grow_step_grows Cons.IH] show ?case by simp
qed simp

lemma grow_pass_fixed:
  "fold (grow_step reads touched) kept acc = acc \<Longrightarrow> st \<in> set kept \<Longrightarrow> grow_step reads touched st acc = acc"
proof (induction kept arbitrary: acc)
  case (Cons x kept)
  have "length (snd (grow_step reads touched x acc)) \<le> length (snd acc)"
    using grow_pass_grows [of "grow_step reads touched x acc" reads touched kept] Cons.prems(1) by simp
  then have x: "grow_step reads touched x acc = acc" by (auto simp: grow_step_def split: if_splits)
  show ?case
  proof (cases "st = x")
    case False
    with Cons.prems x show ?thesis by (intro Cons.IH) simp_all
  qed (simp add: x)
qed simp



lemma grow_extends: "set (snd acc) \<subseteq> set (snd (fold (grow_step reads touched) kept acc))"
proof (induction kept arbitrary: acc)
  case (Cons st kept)
  have "set (snd acc) \<subseteq> set (snd (grow_step reads touched st acc))" by (auto simp: grow_step_def)
  with Cons [of "grow_step reads touched st acc"] show ?case by simp
qed simp

lemma grow_within: "set (snd acc) \<subseteq> K \<Longrightarrow> set kept \<subseteq> K \<Longrightarrow> set (snd (fold (grow_step reads touched) kept acc)) \<subseteq> K"
proof (induction kept arbitrary: acc)
  case (Cons st kept)
  then show ?case by (auto simp: grow_step_def)
qed simp

lemma grow_loop_extends: "set (snd acc) \<subseteq> set (snd (grow_loop reads touched kept acc))"
proof (induction reads touched kept acc rule: grow_loop.induct)
  case (1 reads touched kept acc)
  show ?case
  proof (cases "fold (grow_step reads touched) kept acc = acc")
    case False
    from order_trans [OF grow_extends 1 [OF refl False]] False show ?thesis
      by (subst grow_loop.simps) (simp add: Let_def)
  qed (subst grow_loop.simps, simp)
qed

lemma grow_loop_within: "set (snd acc) \<subseteq> set kept \<Longrightarrow> set (snd (grow_loop reads touched kept acc)) \<subseteq> set kept"
proof (induction reads touched kept acc rule: grow_loop.induct)
  case (1 reads touched kept acc)
  from grow_within [OF 1(2) order_refl, of reads touched] 1(1) [OF refl] 1(2) show ?case
    by (subst grow_loop.simps) (auto simp: Let_def)
qed

lemma changed_views_kept:
  assumes "has_category source target Views_Cat"
  shows "set (changed_bodies source target) \<subseteq> set (sd_changed_views (diff_schemas source target))"
    and "set (sd_changed_views (diff_schemas source target)) \<subseteq> set (match_kept view_sig (sn_views source) (sn_views target))"
proof -
  have c: "sd_changed_views (diff_schemas source target) = snd (diff_views source target (all_changes source target))"
    using assms by (simp add: diff_schemas_def Let_def)
  show "set (changed_bodies source target) \<subseteq> set (sd_changed_views (diff_schemas source target))"
    unfolding c diff_views_def Let_def by (rule order_trans [OF _ grow_loop_extends]) simp
  show "set (sd_changed_views (diff_schemas source target)) \<subseteq> set (match_kept view_sig (sn_views source) (sn_views target))"
    unfolding c diff_views_def Let_def by (rule grow_loop_within) (auto simp: changed_bodies_def)
qed

lemma grow_step_distinct:
  assumes "grow_inv removed acc" and "distinct (map (\<lambda>st. to_lower (vd_name (snd st))) (snd acc))"
  shows "distinct (map (\<lambda>st. to_lower (vd_name (snd st))) (snd (grow_step reads touched st acc)))"
  using assms by (auto simp: grow_step_def grow_inv_def)

lemma grow_pass_distinct:
  "grow_inv removed acc \<Longrightarrow> distinct (map (\<lambda>st. to_lower (vd_name (snd st))) (snd acc)) \<Longrightarrow>
   distinct (map (\<lambda>st. to_lower (vd_name (snd st))) (snd (fold (grow_step reads touched) kept acc)))"
proof (induction kept arbitrary: acc)
  case (Cons st kept)
  have "grow_inv removed (grow_step reads touched st acc)"
    using grow_inv_pass [OF Cons.prems(1), of reads touched "[st]"] by simp
  from Cons.IH [OF this grow_step_distinct [OF Cons.prems]] show ?case by simp
qed simp

lemma grow_loop_distinct:
  "grow_inv removed acc \<Longrightarrow> distinct (map (\<lambda>st. to_lower (vd_name (snd st))) (snd acc)) \<Longrightarrow>
   distinct (map (\<lambda>st. to_lower (vd_name (snd st))) (snd (grow_loop reads touched kept acc)))"
proof (induction reads touched kept acc rule: grow_loop.induct)
  case (1 reads touched kept acc)
  show ?case
  proof (cases "fold (grow_step reads touched) kept acc = acc")
    case False
    from 1(1) [OF refl False grow_inv_pass [OF 1(2)] grow_pass_distinct [OF 1(2,3)]] False show ?thesis
      by (subst grow_loop.simps) (simp add: Let_def)
  next
    case True
    with 1(3) show ?thesis by (subst grow_loop.simps) (simp add: Let_def)
  qed
qed

lemma changed_views_distinct:
  assumes has: "has_category source target Views_Cat"
    and "distinct (map view_sig (sn_views source))" and "distinct (map view_sig (sn_views target))"
  shows "distinct (map view_sig (map fst (sd_changed_views (diff_schemas source target))))"
proof -
  let ?C = "sd_changed_views (diff_schemas source target)"
  let ?B = "changed_bodies source target"
  have c: "?C = snd (diff_views source target (all_changes source target))"
    using has by (simp add: diff_schemas_def Let_def)
  have f: "(\<lambda>st. view_sig (snd st)) = (\<lambda>st. to_lower (vd_name (snd st)))" by (simp add: view_sig_def)
  have "distinct (map (\<lambda>st. view_sig (snd st)) ?B)"
    using fst_match_kept [OF assms(2)] by (simp add: changed_bodies_def distinct_map_filter)
  then have "distinct (map (\<lambda>st. to_lower (vd_name (snd st))) ?C)"
    unfolding c diff_views_def Let_def
    by (intro grow_loop_distinct [of "map (\<lambda>v. to_lower (vd_name v)) (match_removed view_sig (sn_views source) (sn_views target))"])
       (auto simp: grow_inv_def view_sig_def)
  moreover have "view_sig (fst st) = to_lower (vd_name (snd st))" if "st \<in> set ?C" for st
    using match_keptD [of "fst st" "snd st" view_sig "sn_views source" "sn_views target"]
      subsetD [OF changed_views_kept(2) [OF has] that] by (simp add: view_sig_def)
  then have "map view_sig (map fst ?C) = map (\<lambda>st. to_lower (vd_name (snd st))) ?C" by simp
  ultimately show ?thesis by (simp only:)
qed

text \<open>The views part of the exactness: what is left, re-created and added are the source's views.\<close>

lemma views_exact:
  assumes "wf_snapshot source" and "wf_snapshot target" and has: "has_category source target Views_Cat"
  shows "views_state (apply_views (diff_schemas source target) (sn_views target)) = views_state (sn_views source)"
  unfolding views_state_def
proof (rule map_of_same)
  let ?S = "sn_views source" and ?T = "sn_views target" and ?d = "diff_schemas source target"
  have ds: "distinct (map view_sig ?S)" "distinct (map view_sig ?T)"
    using assms by (simp_all add: wf_snapshot_def)
  note ch = changed_views_kept [OF has]
  have add: "sd_added_views ?d = match_added view_sig ?S ?T" "sd_removed_views ?d = match_removed view_sig ?S ?T"
    using has by (simp_all add: diff_schemas_def Let_def)
  define stay where "stay = filter (\<lambda>v. view_sig v \<notin> view_sig ` set (dropped_views ?d)) ?T"
  have app: "apply_views ?d ?T = stay @ map fst (sd_changed_views ?d) @ match_added view_sig ?S ?T"
    by (simp add: apply_views_def stay_def add)
  have chD: "s \<in> set ?S \<and> t \<in> set ?T \<and> view_sig s = view_sig t" if "(s, t) \<in> set (sd_changed_views ?d)" for s t
    by (rule match_keptD [OF subsetD [OF ch(2) that]])
  have stayD: "\<exists>s \<in> set ?S. view_sig s = view_sig v \<and> view_body (vd_ddl s) = view_body (vd_ddl v)
      \<and> v \<in> set ?T \<and> (\<forall>x. (s, x) \<notin> set (sd_changed_views ?d))" if v: "v \<in> set stay" for v
  proof -
    have t: "v \<in> set ?T" "view_sig v \<notin> view_sig ` set (dropped_views ?d)" using v by (auto simp: stay_def)
    then have "v \<notin> set (match_removed view_sig ?S ?T)" by (auto simp: dropped_views_def add)
    with t(1) obtain s where s: "s \<in> set ?S" "view_sig s = view_sig v" by (auto simp: match_removed_def)
    have k: "(s, v) \<in> set (match_kept view_sig ?S ?T)" using ds(2) s(1) t(1) s(2) by (rule match_keptI)
    have n: "(s, x) \<notin> set (sd_changed_views ?d)" for x
      using t(2) chD [of s x] s(2) by (force simp: dropped_views_def)
    then have "(s, v) \<notin> set (changed_bodies source target)" using ch(1) by blast
    with k have "view_body (vd_ddl s) = view_body (vd_ddl v)" by (simp add: changed_bodies_def)
    with s t(1) n show ?thesis by blast
  qed
  show "\<exists>y \<in> set ?S. view_sig y = view_sig x \<and> view_body (vd_ddl y) = view_body (vd_ddl x)"
    if "x \<in> set (apply_views ?d ?T)" for x
    using that chD stayD by (fastforce simp: app match_added_iff)
  show "view_sig ` set ?S \<subseteq> view_sig ` set (apply_views ?d ?T)"
  proof (intro subsetI, elim imageE)
    fix k s assume s: "k = view_sig s" "s \<in> set ?S"
    show "k \<in> view_sig ` set (apply_views ?d ?T)"
    proof (cases "k \<in> view_sig ` set ?T")
      case True
      then obtain t where t: "t \<in> set ?T" "view_sig t = k" by auto
      show ?thesis
      proof (cases "t \<in> set stay")
        case False
        then obtain x where x: "x \<in> set (dropped_views ?d)" "view_sig x = k" using t by (auto simp: stay_def)
        then have "x \<notin> set (match_removed view_sig ?S ?T)" using s by (auto simp: match_removed_def)
        then obtain s' where s': "(s', x) \<in> set (sd_changed_views ?d)" using x(1) by (auto simp: dropped_views_def add)
        from chD [OF this] x(2) have "view_sig s' = k" by simp
        with s' show ?thesis by (force simp: app)
      qed (use t in \<open>auto simp: app\<close>)
    qed (use s in \<open>auto simp: app match_added_iff\<close>)
  qed
  show "distinct (map view_sig ?S)" by (rule ds)
  have "distinct (map view_sig (map fst (sd_changed_views ?d)))"
    by (rule changed_views_distinct [OF has ds])
  moreover have "distinct (map view_sig stay)" using ds(2) by (simp add: stay_def distinct_map_filter)
  moreover have "distinct (map view_sig (match_added view_sig ?S ?T))"
    using ds(1) by (simp add: match_added_iff distinct_map_filter)
  moreover have "view_sig ` set stay \<inter> view_sig ` fst ` set (sd_changed_views ?d) = {}"
  proof (rule equals0I)
    fix k assume "k \<in> view_sig ` set stay \<inter> view_sig ` fst ` set (sd_changed_views ?d)"
    then obtain v s t where v: "v \<in> set stay" "view_sig v = k" "(s, t) \<in> set (sd_changed_views ?d)" "view_sig s = k"
      by auto
    then have "t \<in> set (dropped_views ?d)" by (force simp: dropped_views_def)
    then have "view_sig t \<in> view_sig ` set (dropped_views ?d)" by (rule imageI)
    moreover have "view_sig t = view_sig v" using v(2,4) chD [OF v(3)] by simp
    ultimately show False using v(1) by (simp add: stay_def)
  qed
  moreover have "view_sig ` set (match_added view_sig ?S ?T) \<inter> view_sig ` (set stay \<union> fst ` set (sd_changed_views ?d)) = {}"
    using chD by (fastforce simp: stay_def match_added_iff)
  ultimately show "distinct (map view_sig (apply_views ?d ?T))"
    unfolding app by (simp only: map_append distinct_append set_append set_map image_Un) blast
qed

lemma tables_exact:
  assumes "wf_snapshot source" and "wf_snapshot target"
  shows "tables_state (has_category source target) (apply_tables (diff_schemas source target) (sn_tables target))
    = tables_state (has_category source target) (sn_tables source)"
  unfolding tables_state_def
proof (rule map_of_same)
  let ?S = "sn_tables source" and ?T = "sn_tables target" and ?d = "diff_schemas source target"
  let ?has = "has_category source target"
  define h where "h = new_table (sd_changed ?d)"
  define stay where "stay = filter (\<lambda>t. t \<notin> set (sd_removed ?d)) ?T"
  have app: "apply_tables ?d ?T = map h stay @ match_added table_sig ?S ?T"
    by (simp add: apply_tables_alt h_def stay_def diff_schemas_def Let_def)
  have ds: "distinct (map table_sig ?S)" "distinct (map table_sig ?T)"
    using assms by (simp_all add: wf_snapshot_def)
  have stay: "t \<in> set stay \<longleftrightarrow> t \<in> set ?T \<and> table_sig t \<in> table_sig ` set ?S" for t
    by (auto simp: stay_def diff_schemas_def Let_def match_removed_def)
  have sig: "map table_sig (map h stay) = map table_sig stay" by (simp add: h_def new_table_sig)
  have "distinct (map table_sig stay)" using ds(2) by (simp add: stay_def distinct_map_filter)
  moreover have "distinct (map table_sig (match_added table_sig ?S ?T))"
    using ds(1) by (simp add: match_added_iff distinct_map_filter)
  moreover have "table_sig ` set stay \<inter> table_sig ` set (match_added table_sig ?S ?T) = {}"
    using stay by (auto simp: match_added_iff) (metis imageI)
  ultimately show "distinct (map table_sig (apply_tables ?d ?T))"
    unfolding app map_append sig by (simp add: distinct_append)
  show "distinct (map table_sig ?S)" by (rule ds)
  show "\<exists>y \<in> set ?S. table_sig y = table_sig x \<and> state_of ?has y = state_of ?has x"
    if x: "x \<in> set (apply_tables ?d ?T)" for x
  proof (cases "x \<in> set (match_added table_sig ?S ?T)")
    case True
    then show ?thesis by (auto simp: match_added_iff)
  next
    case False
    with x obtain t where t: "t \<in> set stay" "x = h t" by (auto simp: app)
    then obtain s where "s \<in> set ?S" "table_sig s = table_sig t" using stay by auto
    with new_table_state [OF assms, of t s] t stay show ?thesis
      by (auto simp: h_def new_table_sig)
  qed
  show "table_sig ` set ?S \<subseteq> table_sig ` set (apply_tables ?d ?T)"
  proof (intro subsetI, elim imageE)
    fix k s assume s: "k = table_sig s" "s \<in> set ?S"
    show "k \<in> table_sig ` set (apply_tables ?d ?T)"
    proof (cases "k \<in> table_sig ` set ?T")
      case True
      then obtain t where t: "t \<in> set ?T" "table_sig t = k" by auto
      with s have "t \<in> set stay" by (auto simp: stay)
      then have "h t \<in> set (apply_tables ?d ?T)" by (simp add: app)
      moreover have "table_sig (h t) = k" using t(2) by (simp add: h_def new_table_sig)
      ultimately show ?thesis by blast
    qed (use s in \<open>auto simp: app match_added_iff\<close>)
  qed
qed

text \<open>Small schemas the witnesses use.\<close>

definition sample_column :: "string \<Rightarrow> string \<Rightarrow> column_def" where
  "sample_column n ty = \<lparr>cf_name = n, cf_type = ty, cf_notnull = False, cf_pk = False, cf_dflt = None\<rparr>"

definition sample_schema :: "string \<Rightarrow> string list \<Rightarrow> schema_snapshot" where
  "sample_schema ty cols = \<lparr>sn_engine = ''postgres'',
     sn_tables = [\<lparr>td_name = ''t'', td_columns = map (\<lambda>c. sample_column c ty) cols, td_pk = None, td_uniques = [],
       td_indexes = [], td_fks = [], td_checks = []\<rparr>],
     sn_views = [\<lparr>vd_name = ''v'', vd_ddl = ''w''\<rparr>], sn_missing = [], sn_skipped = []\<rparr>"

section \<open>Properties\<close>

text \<open>C6. The difference of two schemas is exact: carrying out what it lists on the target gives the
  source. Every table has the source's columns with their type, nullability and default, its primary
  key, and its unique keys, indexes, foreign keys and checks by what they do, in the categories that
  both sides could read. Every view has the source's query, when both sides could read the views;
  otherwise the views are left alone. No two tables and no two views of a side share a name without
  regard to case, no two columns of a table.\<close>

theorem schema_diff_exact:
  assumes "wf_snapshot source" and "wf_snapshot target"
  shows "tables_state (has_category source target) (apply_tables (diff_schemas source target) (sn_tables target))
      = tables_state (has_category source target) (sn_tables source) \<and>
    views_state (apply_views (diff_schemas source target) (sn_views target))
      = views_state (sn_views (if has_category source target Views_Cat then source else target))"
proof
  show "tables_state (has_category source target) (apply_tables (diff_schemas source target) (sn_tables target))
      = tables_state (has_category source target) (sn_tables source)"
    using assms by (rule tables_exact)
  show "views_state (apply_views (diff_schemas source target) (sn_views target))
      = views_state (sn_views (if has_category source target Views_Cat then source else target))"
  proof (cases "has_category source target Views_Cat")
    case False
    then have "apply_views (diff_schemas source target) (sn_views target) = sn_views target"
      by (simp add: apply_views_def dropped_views_def diff_schemas_def Let_def)
    with False show ?thesis by simp
  qed (simp add: views_exact [OF assms])
qed

theorem schema_diff_exact_witness:
  "tables_state (has_category (sample_schema ''int'' [''a'', ''b'']) (sample_schema ''text'' [''A'', ''c'']))
     (apply_tables (diff_schemas (sample_schema ''int'' [''a'', ''b'']) (sample_schema ''text'' [''A'', ''c'']))
       (sn_tables (sample_schema ''text'' [''A'', ''c'']))) =
   tables_state (has_category (sample_schema ''int'' [''a'', ''b'']) (sample_schema ''text'' [''A'', ''c'']))
     (sn_tables (sample_schema ''int'' [''a'', ''b''])) \<and>
   views_state (apply_views (diff_schemas (sample_schema ''int'' [''a'', ''b'']) (sample_schema ''text'' [''A'', ''c'']))
       (sn_views (sample_schema ''text'' [''A'', ''c'']))) =
   views_state (sn_views (if has_category (sample_schema ''int'' [''a'', ''b'']) (sample_schema ''text'' [''A'', ''c'']) Views_Cat
     then sample_schema ''int'' [''a'', ''b''] else sample_schema ''text'' [''A'', ''c'']))"
  by (rule schema_diff_exact; code_simp)

text \<open>A schema compared with itself has no difference, and the changes that are kept are those
  with something to do.\<close>

theorem schema_same_as_itself:
  assumes "wf_snapshot s"
  shows "diff_empty (diff_schemas s s)"
proof -
  have d: "distinct (map table_sig (sn_tables s))" "distinct (map view_sig (sn_views s))"
    and w: "\<And>t. t \<in> set (sn_tables s) \<Longrightarrow> wf_table t"
    using assms by (auto simp: wf_snapshot_def list_all_iff)
  have "List.map_filter (column_change_of b) (map (\<lambda>x. (x, x)) cols) = []" for b cols
    by (induction cols) (simp_all add: map_filter_simps column_change_None [THEN iffD2])
  then have e: "table_change_empty (diff_table t t (has_category s s))" if "t \<in> set (sn_tables s)" for t
    using w [OF that]
    by (simp add: table_change_empty_def diff_table_def wf_table_def match_self pick_change_def no_items_def no_change_def)
  have c: "table_changes s s = map (\<lambda>t. diff_table t t (has_category s s)) (sn_tables s)"
    by (simp add: table_changes_def kept_tables_def match_self [OF d(1)])
  have "retyped_columns (table_changes s s) = []" "rekeyed_tables (table_changes s s) = []"
    using e unfolding c by (auto simp: retyped_columns_def rekeyed_tables_def table_change_empty_def filter_empty_conv)
  then have all: "all_changes s s = table_changes s s" by (simp add: all_changes_def)
  have t: "touched_tables (table_changes s s) = []"
    using e unfolding c by (auto simp: touched_tables_def table_change_empty_def filter_empty_conv)
  have "changed_bodies s s = []" by (simp add: changed_bodies_def match_self [OF d(2)] filter_empty_conv)
  moreover have "fold (grow_step reads []) kept ([], []) = ([], [])" for reads kept
    by (induction kept) (simp_all add: grow_step_def reads_gone_def list_ex_iff)
  then have "grow_loop reads [] kept ([], []) = ([], [])" for reads kept
    by (subst grow_loop.simps) simp
  ultimately have "snd (diff_views s s (table_changes s s)) = []" by (simp add: diff_views_def t)
  moreover have "filter (\<lambda>c. \<not> table_change_empty c) (table_changes s s) = []"
    using e unfolding c by (auto simp: filter_empty_conv)
  ultimately show ?thesis by (simp add: diff_empty_def diff_schemas_def Let_def all)
qed

theorem schema_same_as_itself_witness:
  "diff_empty (diff_schemas (sample_schema ''int'' [''a'', ''b'']) (sample_schema ''int'' [''a'', ''b'']))"
  by (rule schema_same_as_itself) code_simp

lemma kept_view_reads:
  assumes "has_category source target Views_Cat"
    and "(s, t) \<in> set (match_kept view_sig (sn_views source) (sn_views target))"
    and "\<not> list_ex (\<lambda>v. to_lower (vd_name v) = to_lower (vd_name t))
      (sd_removed_views (diff_schemas source target) @ map snd (sd_changed_views (diff_schemas source target)))"
  shows "\<not> list_ex (\<lambda>d. to_lower d \<in> set (touched_tables (all_changes source target)) \<or>
      list_ex (\<lambda>v. to_lower (vd_name v) = to_lower d)
        (sd_removed_views (diff_schemas source target) @ map snd (sd_changed_views (diff_schemas source target))))
    (view_deps (sn_views target) (touched_tables (all_changes source target)) (vd_name t))"
proof -
  define touched where "touched = touched_tables (all_changes source target)"
  define reads where "reads = view_deps (sn_views target) touched"
  define kept where "kept = match_kept view_sig (sn_views source) (sn_views target)"
  define removed where "removed = map (\<lambda>v. to_lower (vd_name v)) (match_removed view_sig (sn_views source) (sn_views target))"
  define acc where "acc = (removed @ map (\<lambda>v. to_lower (vd_name v)) (map snd (changed_bodies source target)), changed_bodies source target)"
  define r where "r = grow_loop reads touched kept acc"
  have v: "sd_changed_views (diff_schemas source target) = snd r"
    "map (\<lambda>v. to_lower (vd_name v)) (sd_removed_views (diff_schemas source target)) = removed"
    using assms(1) by (simp_all add: diff_schemas_def Let_def diff_views_def r_def acc_def removed_def reads_def
        touched_def kept_def)
  have "grow_inv removed acc" by (auto simp: grow_inv_def acc_def)
  from grow_inv_loop [OF this] have inv: "set (fst r) = set removed \<union> (\<lambda>st. to_lower (vd_name (snd st))) ` set (snd r)"
    unfolding r_def grow_inv_def .
  have gone: "list_ex (\<lambda>v. to_lower (vd_name v) = k)
      (sd_removed_views (diff_schemas source target) @ map snd (sd_changed_views (diff_schemas source target))) \<longleftrightarrow> k \<in> set (fst r)" for k
    unfolding inv v(2) [symmetric] by (auto simp: list_ex_iff v(1))
  have "grow_step reads touched (s, t) r = r"
    using grow_pass_fixed [OF grow_loop_fixed] assms(2) unfolding r_def kept_def by blast
  moreover have "to_lower (vd_name t) \<notin> set (fst r)" using assms(3) unfolding gone .
  ultimately have "\<not> reads_gone reads touched (fst r) t"
    by (auto simp: grow_step_def prod_eq_iff split: if_splits)
  then show ?thesis
    unfolding touched_def [symmetric] reads_def [symmetric] gone reads_gone_def by (auto simp: list_ex_iff)
qed

lemma all_changes_member:
  assumes "(s, t) \<in> set (kept_tables source target)"
  shows "\<exists>ch. ch \<in> set (all_changes source target) \<and> tc_name ch = td_name t \<and>
    tc_removed ch = match_removed column_sig (td_columns s) (td_columns t) \<and>
    tc_changed ch = List.map_filter (column_change_of (has_category source target Defaults_Cat))
      (match_kept column_sig (td_columns s) (td_columns t))"
proof -
  obtain g where g: "all_changes source target = map g (kept_tables source target)"
    "\<And>st. asks_for (has_category source target) st (g st)"
    using all_changes_map by blast
  note f = asks_for_fields [OF g(2), of s t]
  show ?thesis
    using assms f(1,3,4) by (intro exI [of _ "g (s, t)"]) (simp add: g(1) diff_table_def)
qed

lemma lower_lower [simp]: "to_lower (to_lower s) = to_lower s"
  by (simp add: to_lower_def lower_char_def is_upper_az_def)

text \<open>A table loses or retypes a column: some column of the target has no column of its name and type
  in the source. A name is mentioned in a query where it stands between characters that are not
  part of a name.\<close>

definition loses_or_retypes :: "table_def \<Rightarrow> table_def \<Rightarrow> bool" where
  "loses_or_retypes s t \<longleftrightarrow> (\<exists>c \<in> set (td_columns t). \<forall>c' \<in> set (td_columns s).
     to_lower (cf_name c') = to_lower (cf_name c) \<longrightarrow> norm_type (cf_type c') \<noteq> norm_type (cf_type c))"

definition named_in :: "string \<Rightarrow> string \<Rightarrow> bool" where
  "named_in n body \<longleftrightarrow> (\<exists>u a. body = u @ n @ a \<and> (u = [] \<or> name_edge (last u)) \<and> (a = [] \<or> name_edge (hd a)))"

definition goes_or_changes :: "schema_snapshot \<Rightarrow> schema_snapshot \<Rightarrow> string \<Rightarrow> bool" where
  "goes_or_changes source target n \<longleftrightarrow>
     (\<exists>v \<in> set (dropped_views (diff_schemas source target)). vd_name v = n) \<or>
     (\<exists>s \<in> set (sn_tables source). \<exists>t \<in> set (sn_tables target). td_name t = n \<and> table_sig s = table_sig t \<and> loses_or_retypes s t)"

lemma mentions_iff: "mentions body n \<longleftrightarrow> named_in n body"
proof
  assume "mentions body n"
  then obtain u w a where m: "body = u @ w @ a"
    "mat (seqs [Alt Bol (Cls name_edge), lit n, Alt Eol (Cls name_edge)]) (rev u) w a"
    unfolding mentions_def re_test_iff by blast
  then obtain w1 w3 where w: "w = w1 @ n @ w3" "(u = [] \<and> w1 = []) \<or> (\<exists>c. w1 = [c] \<and> name_edge c)"
    "(w3 = [] \<and> a = []) \<or> (\<exists>c. w3 = [c] \<and> name_edge c)"
    by auto
  then have "body = (u @ w1) @ n @ (w3 @ a)" using m(1) by simp
  moreover have "u @ w1 = [] \<or> name_edge (last (u @ w1))" "w3 @ a = [] \<or> name_edge (hd (w3 @ a))"
    using w(2,3) by auto
  ultimately show "named_in n body" unfolding named_in_def by blast
next
  assume "named_in n body"
  then obtain u a where b: "body = u @ n @ a" "u = [] \<or> name_edge (last u)" "a = [] \<or> name_edge (hd a)"
    by (auto simp: named_in_def)
  obtain u' w1 where u: "u = u' @ w1" "mat (Alt Bol (Cls name_edge)) (rev u') w1 (n @ a)"
  proof (cases "u = []")
    case True
    then show ?thesis by (intro that [of "[]" "[]"]) auto
  next
    case False
    with b(2) show ?thesis by (intro that [of "butlast u" "[last u]"]) auto
  qed
  obtain w3 a' where a: "a = w3 @ a'" "mat (Alt Eol (Cls name_edge)) (rev (u @ n)) w3 a'"
  proof (cases a)
    case Nil
    then show ?thesis by (intro that [of "[]" "[]"]) auto
  next
    case (Cons c r)
    with b(3) show ?thesis by (intro that [of "[c]" r]) auto
  qed
  have "mat (Seq (lit n) (Alt Eol (Cls name_edge))) (rev w1 @ rev u') (n @ w3) a'"
    by (rule m_seq) (use a(2) u(1) in simp_all)
  then have "mat (seqs [Alt Bol (Cls name_edge), lit n, Alt Eol (Cls name_edge)]) (rev u') (w1 @ n @ w3) a'"
    using u(2) a(1) by (simp only: seqs.simps append_assoc m_seq)
  moreover have "body = u' @ (w1 @ n @ w3) @ a'" using b(1) u(1) a(1) by simp
  ultimately show "mentions body n" unfolding mentions_def re_test_iff by blast
qed

lemma touched_by_change:
  assumes wf: "wf_snapshot source" "wf_snapshot target"
    and s: "s \<in> set (sn_tables source)" and t: "t \<in> set (sn_tables target)" "table_sig s = table_sig t"
    and l: "loses_or_retypes s t"
  shows "table_sig t \<in> set (touched_tables (all_changes source target))"
proof -
  let ?has = "has_category source target"
  have ds: "distinct (map table_sig (sn_tables target))" "distinct (map column_sig (td_columns t))"
    "distinct (map column_sig (td_columns s))"
    using wf s t by (auto simp: wf_snapshot_def wf_table_def list_all_iff)
  have st: "(s, t) \<in> set (kept_tables source target)"
    unfolding kept_tables_def using ds(1) s t by (rule match_keptI)
  obtain ch where ch: "ch \<in> set (all_changes source target)" "tc_name ch = td_name t"
    "tc_removed ch = match_removed column_sig (td_columns s) (td_columns t)"
    "tc_changed ch = List.map_filter (column_change_of (?has Defaults_Cat)) (match_kept column_sig (td_columns s) (td_columns t))"
    using all_changes_member [OF st] by blast
  from l obtain c where c: "c \<in> set (td_columns t)" "\<And>c'. c' \<in> set (td_columns s) \<Longrightarrow>
      column_sig c' = column_sig c \<Longrightarrow> norm_type (cf_type c') \<noteq> norm_type (cf_type c)"
    by (auto simp: loses_or_retypes_def column_sig_def)
  have "tc_removed ch \<noteq> [] \<or> list_ex cc_type (tc_changed ch)"
  proof (cases "column_sig c \<in> column_sig ` set (td_columns s)")
    case False
    with c(1) have "c \<in> set (tc_removed ch)" by (simp add: ch(3) match_removed_def)
    then show ?thesis by auto
  next
    case True
    then obtain c' where c': "c' \<in> set (td_columns s)" "column_sig c' = column_sig c" by auto
    from match_keptI [OF ds(2) c'(1) c(1) c'(2)] have k: "(c', c) \<in> set (match_kept column_sig (td_columns s) (td_columns t))" .
    from c(2) [OF c'] obtain cc where "column_change_of (?has Defaults_Cat) (c', c) = Some cc" "cc_type cc"
      by (auto simp: column_change_of_def Let_def)
    with k show ?thesis by (force simp: ch(4) list_ex_iff map_filter_def)
  qed
  with ch(1,2) show ?thesis by (force simp: touched_tables_def table_sig_def)
qed


text \<open>Table \<open>t\<close> loses the column \<open>c\<close>; the view over \<open>u\<close> stays, the one over \<open>t\<close> is re-created.\<close>

definition two_views :: "string list \<Rightarrow> schema_snapshot" where
  "two_views cols = (sample_schema ''int'' cols)\<lparr>sn_views :=
     [\<lparr>vd_name = ''v'', vd_ddl = ''view v as u''\<rparr>,
      \<lparr>vd_name = ''w'', vd_ddl = ''view w as t''\<rparr>]\<rparr>"


end
