(* ===== verification/SchemaScript.thy ===== *)
theory SchemaScript
  imports SchemaDiff
begin

text \<open>
  The migration script of a schema difference (\<open>generateMigration\<close> of \<open>schemaDiff.ts\<close>), which of its
  statements lose data, and the list of differences shown. A script is a list of \<open>script_line\<close>s in the
  order they are emitted: a statement, or a comment with the issue it states.
\<close>

section \<open>Lines and issues\<close>

datatype issue_code = Mongodb_Issue | Sqlite_Alter_Column | Sqlite_Constraint | Sqlite_Not_Null_Column
  | Mssql_Default | No_Constraint_Name | Drop_Table_Skipped | Possible_Rename | Not_Compared_Issue | Skipped_Index
  | Informix_Modify | Cross_Engine | Fk_Cycle

record script_issue =
  si_unsupported :: bool
  si_code :: issue_code
  si_object :: string
  si_detail :: "string option"
  si_side :: "side option"

definition issue_text :: "issue_code \<Rightarrow> string" where
  "issue_text c = (case c of
     Mongodb_Issue \<Rightarrow> ''MongoDB has no SQL schema; a migration script cannot be generated''
   | Sqlite_Alter_Column \<Rightarrow> ''SQLite cannot change a column'' @ CHR 0x27 # ''s type, nullability or default in place; the table must be rebuilt''
   | Sqlite_Constraint \<Rightarrow> ''SQLite cannot add or remove a constraint on an existing table; the table must be rebuilt''
   | Sqlite_Not_Null_Column \<Rightarrow> ''SQLite cannot add a NOT NULL column without a default''
   | Mssql_Default \<Rightarrow> ''SQL Server keeps defaults as named constraints, whose names are not read; change the default by hand''
   | No_Constraint_Name \<Rightarrow> ''the constraint'' @ CHR 0x27 # ''s name was not read, so it cannot be dropped''
   | Drop_Table_Skipped \<Rightarrow> ''exists only in the target; DROP TABLE not generated''
   | Possible_Rename \<Rightarrow> ''a column is dropped and one of the same type added; if it is a rename, rename it instead to keep its data''
   | Not_Compared_Issue \<Rightarrow> ''{what} not compared ({side}: {reason})''
   | Skipped_Index \<Rightarrow> ''index on expressions, partial or not B-tree; not compared''
   | Informix_Modify \<Rightarrow> ''Informix MODIFY redefines the whole column; a DEFAULT it had (not readable from the catalog) is lost unless re-added''
   | Cross_Engine \<Rightarrow> ''different engines: types, defaults, checks and view definitions are copied verbatim; review them''
   | Fk_Cycle \<Rightarrow> ''foreign keys form a cycle; they are added once every table exists'')"

definition category_text :: "category \<Rightarrow> string" where
  "category_text c = (case c of Constraints_Cat \<Rightarrow> ''constraints'' | Checks_Cat \<Rightarrow> ''checks'' | Indexes_Cat \<Rightarrow> ''indexes''
     | Views_Cat \<Rightarrow> ''views'' | Defaults_Cat \<Rightarrow> ''defaults'')"

definition side_text :: "side \<Rightarrow> string" where
  "side_text s = (case s of Source_Side \<Rightarrow> ''source'' | Target_Side \<Rightarrow> ''target'')"

datatype script_line = Run_Line string | Issue_Line script_issue string

definition line_text :: "script_line \<Rightarrow> string" where
  "line_text l = (case l of Run_Line s \<Rightarrow> s | Issue_Line _ s \<Rightarrow> s)"

definition line_issue :: "script_line \<Rightarrow> script_issue option" where
  "line_issue l = (case l of Run_Line _ \<Rightarrow> None | Issue_Line i _ \<Rightarrow> Some i)"

definition issue_line :: "bool \<Rightarrow> issue_code \<Rightarrow> string \<Rightarrow> string option \<Rightarrow> script_line" where
  "issue_line unsup c ob detail =
     Issue_Line \<lparr>si_unsupported = unsup, si_code = c, si_object = ob, si_detail = detail, si_side = None\<rparr>
       (''-- '' @ (if unsup then ''UNSUPPORTED'' else ''NOTE'') @ '': '' @ ob @ '': '' @ issue_text c @
        (case truthy detail of None \<Rightarrow> [] | Some d \<Rightarrow> '' ('' @ d @ '')''))"

definition unsupported :: "issue_code \<Rightarrow> string \<Rightarrow> string option \<Rightarrow> script_line" where
  "unsupported c ob detail = issue_line True c ob detail"

definition noted :: "issue_code \<Rightarrow> string \<Rightarrow> string option \<Rightarrow> script_line" where
  "noted c ob detail = issue_line False c ob detail"

definition not_compared_line :: "not_compared \<Rightarrow> script_line" where
  "not_compared_line n =
     Issue_Line \<lparr>si_unsupported = False, si_code = Not_Compared_Issue, si_object = category_text (nc_category n),
         si_detail = Some (nc_reason n), si_side = Some (nc_side n)\<rparr>
       (''-- NOTE: '' @ category_text (nc_category n) @ '' not compared ('' @ side_text (nc_side n) @ '', '' @ nc_engine n @
        '': '' @ (if nc_reason n = [] then ''no catalog for this engine'' else nc_reason n) @ '')'')"

record container =
  ct_db :: "string option"
  ct_schema :: "string option"

record migration_options =
  mo_container :: container
  mo_source :: container
  mo_drop_tables :: bool

record migration_script =
  ms_statements :: "string list"
  ms_issues :: "script_issue list"

definition LF :: string where "LF = [CHR 0x0A]"

text \<open>\<open>trimStart().startsWith("--")\<close>.\<close>

definition is_executable :: "string \<Rightarrow> bool" where
  "is_executable s \<longleftrightarrow> \<not> starts_with ''--'' (trim_start s)"

definition DROP_TABLE_RE :: re where
  "DROP_TABLE_RE = seqs [Bol, liti ''drop'', plus spc, liti ''table'', WordB]"

text \<open>The last pattern with its look-ahead: some way to match the part before it leaves a text that
  does not begin with one of the words.\<close>

definition ALTER_DROP_RE :: re where
  "ALTER_DROP_RE = seqs [Bol, liti ''alter'', plus spc, liti ''table'', WordB,
     lazy_star (Cls (\<lambda>c. c \<noteq> CHR '';'' \<and> c \<noteq> CHR 0x27)), WordB, liti ''drop'', plus spc]"

definition KEPT_WORDS :: "string list" where
  "KEPT_WORDS = [''constraint'', ''index'', ''key'', ''primary'', ''foreign'', ''check'', ''default'', ''not'']"

definition KEPT_WORD_RE :: re where
  "KEPT_WORD_RE = seqs [words_alti KEPT_WORDS, WordB]"

definition loses_data :: "string \<Rightarrow> bool" where
  "loses_data statement \<longleftrightarrow>
     (let s = trim_start statement in
      re_test DROP_TABLE_RE s \<or> list_ex (\<lambda>m. m_re KEPT_WORD_RE m = []) (m_re ALTER_DROP_RE ([], s, [])))"

definition script_text :: "migration_script \<Rightarrow> string" where
  "script_text s = join LF (ms_statements s) @ (if ms_statements s = [] then [] else LF)"

section \<open>Clauses\<close>

definition target_name :: "string \<Rightarrow> container \<Rightarrow> string \<Rightarrow> string" where
  "target_name e c name =
     (let f = engine_family e in
      qualified_name \<lparr>np_db = (if f = ''mysql'' \<or> f = ''informix'' then ct_db c else None),
        np_schema = (if f = ''postgres'' \<or> f = ''mssql'' then ct_schema c else None), np_name = name\<rparr> e)"

definition quoted_columns :: "string \<Rightarrow> string list \<Rightarrow> string" where
  "quoted_columns e cols = join '', '' (map (\<lambda>c. quote_identifier c e) cols)"

definition named_clause :: "string \<Rightarrow> string \<Rightarrow> string option \<Rightarrow> string" where
  "named_clause e body name =
     (case truthy name of None \<Rightarrow> body
      | Some n \<Rightarrow> if engine_family e = ''informix'' then body @ '' CONSTRAINT '' @ quote_identifier n e
          else ''CONSTRAINT '' @ quote_identifier n e @ '' '' @ body)"

definition pk_body :: "string \<Rightarrow> key_def \<Rightarrow> string" where
  "pk_body e p = ''PRIMARY KEY ('' @ quoted_columns e (kd_columns p) @ '')''"

definition unique_body :: "string \<Rightarrow> key_def \<Rightarrow> string" where
  "unique_body e u = ''UNIQUE ('' @ quoted_columns e (kd_columns u) @ '')''"

definition check_body :: "check_def \<Rightarrow> string" where
  "check_body x = ''CHECK ('' @ ck_expr x @ '')''"

definition fk_body :: "string \<Rightarrow> container \<Rightarrow> foreign_key \<Rightarrow> string" where
  "fk_body e c fk = ''FOREIGN KEY ('' @ quoted_columns e (fk_columns fk) @ '') REFERENCES '' @ target_name e c (fk_table fk) @
     '' ('' @ quoted_columns e (fk_refs fk) @ '')''"

definition add_constraint :: "string \<Rightarrow> container \<Rightarrow> string \<Rightarrow> string \<Rightarrow> string option \<Rightarrow> string" where
  "add_constraint e c table body name =
     ''ALTER TABLE '' @ target_name e c table @ (if engine_family e = ''informix'' then '' ADD CONSTRAINT '' else '' ADD '') @
     named_clause e body name @ '';''"

datatype constraint_kind = Pk_Kind | Unique_Kind | Fk_Kind | Check_Kind

definition mysql_kind :: "constraint_kind \<Rightarrow> string" where
  "mysql_kind k = (case k of Unique_Kind \<Rightarrow> ''INDEX'' | Fk_Kind \<Rightarrow> ''FOREIGN KEY'' | Check_Kind \<Rightarrow> ''CHECK'' | Pk_Kind \<Rightarrow> ''PRIMARY KEY'')"

definition drop_constraint ::
    "string \<Rightarrow> container \<Rightarrow> string \<Rightarrow> constraint_kind \<Rightarrow> string option \<Rightarrow> string \<Rightarrow> script_line" where
  "drop_constraint e c table k name label =
     (let f = engine_family e; head = ''ALTER TABLE '' @ target_name e c table @ '' DROP '' in
      if f = ''sqlite'' then unsupported Sqlite_Constraint table (Some (''DROP '' @ label))
      else if f = ''mysql'' \<and> k = Pk_Kind then Run_Line (head @ ''PRIMARY KEY;'')
      else case truthy name of None \<Rightarrow> unsupported No_Constraint_Name table (Some label)
        | Some n \<Rightarrow> Run_Line (head @ (if f = ''mysql'' then mysql_kind k else ''CONSTRAINT'') @ '' '' @ quote_identifier n e @ '';''))"

definition column_clause :: "string \<Rightarrow> column_def \<Rightarrow> string" where
  "column_clause e col =
     quote_identifier (cf_name col) e @ '' '' @ (if cf_type col = [] then ''TEXT'' else cf_type col) @
     (case truthy (cf_dflt col) of None \<Rightarrow> [] | Some d \<Rightarrow> '' DEFAULT '' @ d) @
     (if cf_notnull col then '' NOT NULL'' else [])"

definition create_index :: "string \<Rightarrow> container \<Rightarrow> string \<Rightarrow> index_def \<Rightarrow> script_line" where
  "create_index e c table ix =
     Run_Line (''CREATE '' @ (if ix_unique ix then ''UNIQUE '' else []) @ ''INDEX '' @ quote_identifier (ix_name ix) e @
       '' ON '' @ target_name e c table @ '' ('' @ quoted_columns e (ix_columns ix) @ '');'')"

definition drop_index :: "string \<Rightarrow> container \<Rightarrow> string \<Rightarrow> index_def \<Rightarrow> script_line" where
  "drop_index e c table ix =
     Run_Line (if engine_family e = ''mysql'' \<or> engine_family e = ''mssql''
       then ''DROP INDEX '' @ quote_identifier (ix_name ix) e @ '' ON '' @ target_name e c table @ '';''
       else ''DROP INDEX '' @ target_name e c (ix_name ix) @ '';'')"

section \<open>Columns\<close>

definition change_text :: "column_change \<Rightarrow> string" where
  "change_text cc = join '', '' (filter (\<lambda>s. s \<noteq> [])
     [if cc_type cc then cf_type (cc_from cc) @ '' -> '' @ cf_type (cc_to cc) else [],
      if cc_null cc then (if cf_notnull (cc_to cc) then ''NOT NULL'' else ''NULL'') else [],
      if cc_dflt cc then ''DEFAULT '' @ default ''none'' (cf_dflt (cc_to cc)) else []])"

text \<open>One altered column: the flag says that the Informix note was given.\<close>

definition alter_column ::
    "string \<Rightarrow> container \<Rightarrow> string \<Rightarrow> column_change \<Rightarrow> bool \<Rightarrow> script_line list \<times> bool" where
  "alter_column e c table cc flagged =
     (let f = engine_family e; t = target_name e c table; col = quote_identifier (cc_name cc) e; new = cc_to cc;
          ob = table @ ''.'' @ cc_name cc in
      if f = ''sqlite'' then ([unsupported Sqlite_Alter_Column ob (Some (change_text cc))], flagged)
      else if f = ''mysql'' then ([Run_Line (''ALTER TABLE '' @ t @ '' MODIFY COLUMN '' @ column_clause e new @ '';'')], flagged)
      else if f = ''informix'' then
        ((if flagged then [] else [noted Informix_Modify table None]) @
         [Run_Line (''ALTER TABLE '' @ t @ '' MODIFY ('' @ column_clause e new @ '');'')], True)
      else if f = ''mssql'' then
        ((if cc_type cc \<or> cc_null cc
          then [Run_Line (''ALTER TABLE '' @ t @ '' ALTER COLUMN '' @ col @ '' '' @ cf_type new @
            (if cf_notnull new then '' NOT NULL;'' else '' NULL;''))] else []) @
         (if cc_dflt cc then [unsupported Mssql_Default ob (Some (''DEFAULT '' @ default ''none'' (cf_dflt new)))] else []), flagged)
      else
        ((if cc_type cc then [Run_Line (''ALTER TABLE '' @ t @ '' ALTER COLUMN '' @ col @ '' TYPE '' @ cf_type new @ '';'')] else []) @
         (if cc_null cc then [Run_Line (''ALTER TABLE '' @ t @ '' ALTER COLUMN '' @ col @
            (if cf_notnull new then '' SET'' else '' DROP'') @ '' NOT NULL;'')] else []) @
         (if cc_dflt cc then [Run_Line (case truthy (cf_dflt new) of
              Some d \<Rightarrow> ''ALTER TABLE '' @ t @ '' ALTER COLUMN '' @ col @ '' SET DEFAULT '' @ d @ '';''
            | None \<Rightarrow> ''ALTER TABLE '' @ t @ '' ALTER COLUMN '' @ col @ '' DROP DEFAULT;'')] else []), flagged))"

fun alter_columns ::
    "string \<Rightarrow> container \<Rightarrow> string \<Rightarrow> column_change list \<Rightarrow> bool \<Rightarrow> script_line list \<times> bool" where
  "alter_columns e c table [] flagged = ([], flagged)"
| "alter_columns e c table (cc # ccs) flagged =
     (case alter_column e c table cc flagged of (ls, fl) \<Rightarrow> apfst ((@) ls) (alter_columns e c table ccs fl))"

definition add_column :: "string \<Rightarrow> container \<Rightarrow> string \<Rightarrow> column_def \<Rightarrow> script_line" where
  "add_column e c table col =
     (let f = engine_family e in
      if f = ''sqlite'' \<and> cf_notnull col \<and> truthy (cf_dflt col) = None
      then unsupported Sqlite_Not_Null_Column (table @ ''.'' @ cf_name col) None
      else Run_Line (''ALTER TABLE '' @ target_name e c table @ (if f = ''mssql'' \<or> f = ''informix'' then '' ADD '' else '' ADD COLUMN '') @
        column_clause e col @ '';''))"

definition drop_column :: "string \<Rightarrow> container \<Rightarrow> string \<Rightarrow> column_def \<Rightarrow> script_line" where
  "drop_column e c table col =
     Run_Line (''ALTER TABLE '' @ target_name e c table @
       (if engine_family e = ''informix'' then '' DROP '' else '' DROP COLUMN '') @ quote_identifier (cf_name col) e @ '';'')"

definition rename_notes :: "table_change \<Rightarrow> script_line list" where
  "rename_notes ch = List.map_filter (\<lambda>r. map_option (\<lambda>a. noted Possible_Rename (tc_name ch) (Some (cf_name r @ '' -> '' @ cf_name a)))
     (List.find (\<lambda>x. norm_type (cf_type x) = norm_type (cf_type r)) (tc_added ch))) (tc_removed ch)"

fun column_lines :: "string \<Rightarrow> container \<Rightarrow> table_change list \<Rightarrow> bool \<Rightarrow> script_line list" where
  "column_lines e c [] flagged = []"
| "column_lines e c (ch # chs) flagged =
     (case alter_columns e c (tc_name ch) (tc_changed ch) flagged of (ls, fl) \<Rightarrow>
        map (add_column e c (tc_name ch)) (tc_added ch) @ ls @ map (drop_column e c (tc_name ch)) (tc_removed ch)
        @ rename_notes ch @ column_lines e c chs fl)"

section \<open>The script\<close>

definition table_deps :: "table_def list \<Rightarrow> string \<Rightarrow> string list" where
  "table_deps ts n =
     (case List.find (\<lambda>t. to_lower (td_name t) = to_lower n) ts of None \<Rightarrow> [] | Some t \<Rightarrow> map fk_table (td_fks t))"

definition view_order :: "view_def list \<Rightarrow> string list" where
  "view_order vs = fst (order_by_dependencies (map vd_name vs) (view_deps vs []))"

definition header_lines :: "schema_diff \<Rightarrow> script_line list" where
  "header_lines d =
     map not_compared_line (sd_not_compared d) @ map (\<lambda>s. noted Skipped_Index s None) (sd_skipped d) @
     (if engine_family (sd_source d) \<noteq> engine_family (sd_target d)
      then [noted Cross_Engine (sd_source d @ '' -> '' @ sd_target d) None] else [])"

definition view_drop_lines :: "schema_diff \<Rightarrow> container \<Rightarrow> script_line list" where
  "view_drop_lines d c =
     map (\<lambda>n. Run_Line (''DROP VIEW '' @ target_name (sd_target d) c n @ '';''))
       (rev (view_order (sd_removed_views d @ map snd (sd_changed_views d))))"

definition fk_drop_lines :: "schema_diff \<Rightarrow> migration_options \<Rightarrow> script_line list" where
  "fk_drop_lines d opts =
     (let e = sd_target d; c = mo_container opts; drop = (\<lambda>table fk. drop_constraint e c table Fk_Kind (fk_name fk) (fk_body e c fk)) in
      concat (map (\<lambda>ch. map (drop (tc_name ch)) (ar_removed (tc_fks ch))) (sd_changed d)) @
      (if mo_drop_tables opts \<and> engine_family e \<noteq> ''sqlite''
       then concat (map (\<lambda>t. map (drop (td_name t)) (td_fks t)) (sd_removed d)) else []))"

definition key_drop_lines :: "string \<Rightarrow> container \<Rightarrow> table_change \<Rightarrow> script_line list" where
  "key_drop_lines e c ch =
     map (\<lambda>x. drop_constraint e c (tc_name ch) Check_Kind (ck_name x) (check_body x)) (ar_removed (tc_checks ch)) @
     map (\<lambda>u. drop_constraint e c (tc_name ch) Unique_Kind (kd_name u) (unique_body e u)) (ar_removed (tc_uniques ch)) @
     map (drop_index e c (tc_name ch)) (ar_removed (tc_indexes ch)) @
     (case Option.bind (tc_pk ch) fst of None \<Rightarrow> []
      | Some p \<Rightarrow> [drop_constraint e c (tc_name ch) Pk_Kind (kd_name p) (pk_body e p)])"

definition table_drop_lines :: "schema_diff \<Rightarrow> migration_options \<Rightarrow> script_line list" where
  "table_drop_lines d opts =
     (if mo_drop_tables opts
      then map (\<lambda>n. Run_Line (''DROP TABLE '' @ target_name (sd_target d) (mo_container opts) n @ '';''))
        (rev (fst (order_by_dependencies (map td_name (sd_removed d)) (table_deps (sd_removed d)))))
      else map (\<lambda>t. noted Drop_Table_Skipped (td_name t) None) (sd_removed d))"

definition created_order :: "schema_diff \<Rightarrow> string list \<times> string list" where
  "created_order d = order_by_dependencies (map td_name (sd_added d)) (table_deps (sd_added d))"

definition created_tables :: "schema_diff \<Rightarrow> table_def list" where
  "created_tables d = List.map_filter (\<lambda>n. List.find (\<lambda>t. td_name t = n) (sd_added d)) (fst (created_order d))"

definition create_table :: "string \<Rightarrow> container \<Rightarrow> table_def \<Rightarrow> script_line" where
  "create_table e c t =
     Run_Line (''CREATE TABLE '' @ target_name e c (td_name t) @ '' ('' @ LF @ join ('','' @ LF)
       (map (\<lambda>s. ''  '' @ s)
         (map (column_clause e) (td_columns t) @
          (case td_pk t of None \<Rightarrow> [] | Some p \<Rightarrow> [named_clause e (pk_body e p) (kd_name p)]) @
          map (\<lambda>u. named_clause e (unique_body e u) (kd_name u)) (td_uniques t) @
          map (\<lambda>x. named_clause e (check_body x) (ck_name x)) (td_checks t) @
          (if engine_family e = ''sqlite'' then map (\<lambda>fk. named_clause e (fk_body e c fk) (fk_name fk)) (td_fks t) else [])))
       @ LF @ '');'')"

definition create_lines :: "schema_diff \<Rightarrow> container \<Rightarrow> script_line list" where
  "create_lines d c =
     (if snd (created_order d) \<noteq> [] \<and> engine_family (sd_target d) \<noteq> ''sqlite''
      then [noted Fk_Cycle (join '', '' (snd (created_order d))) None] else []) @
     map (create_table (sd_target d) c) (created_tables d)"

definition add_or_flag :: "string \<Rightarrow> container \<Rightarrow> string \<Rightarrow> string \<Rightarrow> string option \<Rightarrow> script_line" where
  "add_or_flag e c table body name =
     (if engine_family e = ''sqlite'' then unsupported Sqlite_Constraint table (Some (''ADD '' @ body))
      else Run_Line (add_constraint e c table body name))"

definition key_add_lines :: "string \<Rightarrow> container \<Rightarrow> table_change \<Rightarrow> script_line list" where
  "key_add_lines e c ch =
     (case tc_pk ch of Some (old, Some p) \<Rightarrow>
        if engine_family e = ''sqlite'' \<and> old \<noteq> None then [] else [add_or_flag e c (tc_name ch) (pk_body e p) (kd_name p)]
      | _ \<Rightarrow> []) @
     map (\<lambda>u. add_or_flag e c (tc_name ch) (unique_body e u) (kd_name u)) (ar_added (tc_uniques ch)) @
     map (\<lambda>x. add_or_flag e c (tc_name ch) (check_body x) (ck_name x)) (ar_added (tc_checks ch)) @
     map (create_index e c (tc_name ch)) (ar_added (tc_indexes ch))"

definition fk_add_lines :: "schema_diff \<Rightarrow> container \<Rightarrow> script_line list" where
  "fk_add_lines d c =
     (let e = sd_target d in
      (if engine_family e = ''sqlite'' then []
       else concat (map (\<lambda>t. map (\<lambda>fk. Run_Line (add_constraint e c (td_name t) (fk_body e c fk) (fk_name fk))) (td_fks t)) (created_tables d))) @
      concat (map (\<lambda>ch. map (\<lambda>fk. add_or_flag e c (tc_name ch) (fk_body e c fk) (fk_name fk)) (ar_added (tc_fks ch))) (sd_changed d)))"

section \<open>Views of the target\<close>

text \<open>\<open>(?:`[^`]*`|"[^"]*"|\[[^\]]*\]|[\w$]+)\<close>.\<close>

definition delimited_re :: "char \<Rightarrow> char \<Rightarrow> re" where
  "delimited_re a b = seqs [one a, star (Cls (\<lambda>c. c \<noteq> b)), one b]"

definition IDENT_RE :: re where
  "IDENT_RE = alts [delimited_re BT BT, delimited_re DQ DQ, delimited_re LB RB, plus (Cls (\<lambda>c. is_word c \<or> c = CHR ''$''))]"

definition dot_or_colon :: re where
  "dot_or_colon = Cls (\<lambda>c. c = CHR ''.'' \<or> c = CHR '':'')"

definition VIEW_HEAD_RE :: re where
  "VIEW_HEAD_RE = seqs [Bol,
     Grp 1 (seqs [star spc, liti ''create'', WordB, lazy_star any, WordB, liti ''view'', plus spc,
       opt (seqs [liti ''if'', plus spc, liti ''not'', plus spc, liti ''exists'', plus spc])]),
     star (seqs [IDENT_RE, star spc, dot_or_colon, star spc]), IDENT_RE]"

definition source_ref_re :: "string \<Rightarrow> re" where
  "source_ref_re from =
     seqs [Grp 1 (Alt Bol (Cls (\<lambda>c. \<not> (is_word c \<or> c = CHR ''$'' \<or> c = CHR ''.'')))),
       alts [seqs [one BT, liti from, one BT], seqs [one DQ, liti from, one DQ], seqs [one LB, liti from, one RB], liti from],
       star spc, Grp 2 dot_or_colon]"

definition retarget_view_ddl :: "string \<Rightarrow> string \<Rightarrow> string option \<Rightarrow> string option \<Rightarrow> string \<Rightarrow> string" where
  "retarget_view_ddl ddl qualified from to e =
     (let out = re_replace_fn VIEW_HEAD_RE (\<lambda>w cs. default [] (map_of cs 1) @ qualified) ddl in
      case truthy from of None \<Rightarrow> out
      | Some fr \<Rightarrow> if to_lower fr = to_lower (default [] to) then out
          else let repl = (case truthy to of None \<Rightarrow> [] | Some t \<Rightarrow> quote_identifier t e) in
            re_replace_fn (source_ref_re fr)
              (\<lambda>w cs. default [] (map_of cs 1) @ (if repl = [] then [] else repl @ default [] (map_of cs 2))) out)"

definition view_lines :: "schema_diff \<Rightarrow> migration_options \<Rightarrow> script_line list" where
  "view_lines d opts =
     (let e = sd_target d; f = engine_family e; c = mo_container opts; src = mo_source opts;
          new = sd_added_views d @ map fst (sd_changed_views d);
          by_db = (f = ''mysql'' \<or> f = ''informix'') in
      (if new = [] then []
       else (case truthy (ct_db c) of Some db \<Rightarrow> if f = ''mysql'' then [Run_Line (''USE '' @ quote_identifier db e @ '';'')] else [] | None \<Rightarrow> []) @
         (case truthy (ct_schema c) of Some s \<Rightarrow>
            if f = ''postgres'' then [Run_Line (''SET search_path TO '' @ quote_identifier s e @ '';'')] else [] | None \<Rightarrow> [])) @
      List.map_filter (\<lambda>n. map_option (\<lambda>v.
          Run_Line (retarget_view_ddl (re_replace LAST_SEMI [] (trim (vd_ddl v))) (target_name e c (vd_name v))
            (if by_db then ct_db src else ct_schema src) (if by_db then ct_db c else ct_schema c) e @ '';''))
        (List.find (\<lambda>v. vd_name v = n) new)) (view_order new))"

definition script_lines :: "schema_diff \<Rightarrow> migration_options \<Rightarrow> script_line list" where
  "script_lines d opts =
     (let e = sd_target d; c = mo_container opts in
      case List.find (\<lambda>s. engine_family s = ''mongodb'') [sd_source d, e] of
        Some s \<Rightarrow> [unsupported Mongodb_Issue s None]
      | None \<Rightarrow>
          header_lines d @ view_drop_lines d c @ fk_drop_lines d opts @
          concat (map (key_drop_lines e c) (sd_changed d)) @ table_drop_lines d opts @ create_lines d c @
          column_lines e c (sd_changed d) False @ concat (map (key_add_lines e c) (sd_changed d)) @
          concat (map (\<lambda>t. map (create_index e c (td_name t)) (td_indexes t)) (created_tables d)) @
          fk_add_lines d c @ view_lines d opts)"

definition generate_migration :: "schema_diff \<Rightarrow> migration_options \<Rightarrow> migration_script" where
  "generate_migration d opts =
     \<lparr>ms_statements = map line_text (script_lines d opts), ms_issues = List.map_filter line_issue (script_lines d opts)\<rparr>"

section \<open>The list of differences\<close>

datatype diff_kind = Table_Diff | Column_Diff | Pk_Diff | Unique_Diff | Index_Diff | Fk_Diff | Check_Diff | View_Diff
datatype diff_sort = Added_Diff | Removed_Diff | Changed_Diff

record diff_item =
  di_kind :: diff_kind
  di_change :: diff_sort
  di_name :: string
  di_detail :: "string option"

definition diff_line :: "diff_kind \<Rightarrow> diff_sort \<Rightarrow> string \<Rightarrow> string \<Rightarrow> diff_item" where
  "diff_line k ch n detail = \<lparr>di_kind = k, di_change = ch, di_name = n, di_detail = truthy (Some detail)\<rparr>"

definition column_list :: "string list \<Rightarrow> string" where
  "column_list cols = ''('' @ join '', '' cols @ '')''"

definition changed_column_text :: "column_change \<Rightarrow> string" where
  "changed_column_text c = join '', '' (filter (\<lambda>s. s \<noteq> [])
     [if cc_type c then cf_type (cc_from c) @ '' -> '' @ cf_type (cc_to c) else [],
      if cc_null c then (if cf_notnull (cc_to c) then ''NULL -> NOT NULL'' else ''NOT NULL -> NULL'') else [],
      if cc_dflt c then ''DEFAULT '' @ default ''-'' (cf_dflt (cc_from c)) @ '' -> '' @ default ''-'' (cf_dflt (cc_to c)) else []])"

definition item_label :: "string \<Rightarrow> string option \<Rightarrow> string \<Rightarrow> string" where
  "item_label n name cols = (case truthy name of None \<Rightarrow> n | Some x \<Rightarrow> n @ ''.'' @ x) @ '' '' @ cols"

definition fk_label :: "foreign_key \<Rightarrow> string" where
  "fk_label x = column_list (fk_columns x) @ '' -> '' @ fk_table x @ column_list (fk_refs x)"

definition both_lines :: "diff_kind \<Rightarrow> ('a \<Rightarrow> string) \<Rightarrow> 'a add_remove \<Rightarrow> diff_item list" where
  "both_lines k f x = map (\<lambda>i. diff_line k Added_Diff (f i) []) (ar_added x) @ map (\<lambda>i. diff_line k Removed_Diff (f i) []) (ar_removed x)"

definition table_items :: "table_change \<Rightarrow> diff_item list" where
  "table_items ch =
     (let n = tc_name ch in
      map (\<lambda>c. diff_line Column_Diff Added_Diff (n @ ''.'' @ cf_name c) (cf_type c)) (tc_added ch) @
      map (\<lambda>c. diff_line Column_Diff Removed_Diff (n @ ''.'' @ cf_name c) (cf_type c)) (tc_removed ch) @
      map (\<lambda>c. diff_line Column_Diff Changed_Diff (n @ ''.'' @ cc_name c) (changed_column_text c)) (tc_changed ch) @
      (case tc_pk ch of None \<Rightarrow> []
       | Some (a, b) \<Rightarrow> [diff_line Pk_Diff (if a \<noteq> None \<and> b \<noteq> None then Changed_Diff else if b \<noteq> None then Added_Diff else Removed_Diff) n
           ((case a of None \<Rightarrow> ''-'' | Some p \<Rightarrow> column_list (kd_columns p)) @ '' -> '' @
            (case b of None \<Rightarrow> ''-'' | Some p \<Rightarrow> column_list (kd_columns p)))]) @
      both_lines Unique_Diff (\<lambda>u. item_label n (kd_name u) (column_list (kd_columns u))) (tc_uniques ch) @
      both_lines Index_Diff (\<lambda>i. item_label n (Some (ix_name i)) (column_list (ix_columns i))) (tc_indexes ch) @
      both_lines Fk_Diff (\<lambda>x. item_label n (fk_name x) (fk_label x)) (tc_fks ch) @
      both_lines Check_Diff (\<lambda>x. item_label n (ck_name x) (ck_expr x)) (tc_checks ch))"

definition diff_items :: "schema_diff \<Rightarrow> diff_item list" where
  "diff_items d =
     map (\<lambda>t. diff_line Table_Diff Added_Diff (td_name t) []) (sd_added d) @
     map (\<lambda>t. diff_line Table_Diff Removed_Diff (td_name t) []) (sd_removed d) @
     concat (map table_items (sd_changed d)) @
     map (\<lambda>v. diff_line View_Diff Added_Diff (vd_name v) []) (sd_added_views d) @
     map (\<lambda>v. diff_line View_Diff Removed_Diff (vd_name v) []) (sd_removed_views d) @
     map (\<lambda>v. diff_line View_Diff Changed_Diff (vd_name (fst v)) []) (sd_changed_views d)"

section \<open>A script of no difference\<close>

lemma trim_start_dash [simp]: "trim_start (CHR ''-'' # s) = CHR ''-'' # s"
  by (simp add: trim_start_def is_space_def)

lemma comment_not_run: "starts_with ''--'' s \<Longrightarrow> \<not> is_executable s"
  by (cases s) (auto simp: is_executable_def starts_with_def)

lemma issue_lines_not_run [simp]:
  "\<not> is_executable (line_text (noted c ob d))" "\<not> is_executable (line_text (unsupported c ob d))"
  "\<not> is_executable (line_text (not_compared_line n))"
  by (simp_all add: noted_def unsupported_def issue_line_def not_compared_line_def line_text_def comment_not_run starts_with_def)

lemma header_not_run: "filter is_executable (map line_text (header_lines d)) = []"
  by (simp add: header_lines_def filter_map o_def)

lemma no_lines_without_difference:
  assumes "diff_empty d"
  shows "view_drop_lines d c = []" "fk_drop_lines d opts = []" "table_drop_lines d opts = []" "create_lines d c = []"
    "created_tables d = []" "fk_add_lines d c = []" "view_lines d opts = []"
proof -
  have o: "order_by_dependencies [] f = ([], [])" for f
    by (simp add: order_by_dependencies_def pending_start_def order_loop.simps)
  show "view_drop_lines d c = []" "fk_drop_lines d opts = []" "table_drop_lines d opts = []" 
    using assms by (simp_all add: diff_empty_def view_drop_lines_def view_order_def o fk_drop_lines_def table_drop_lines_def Let_def)
  show c: "created_tables d = []" using assms by (simp add: created_tables_def created_order_def diff_empty_def o)
  show "create_lines d c = []" "fk_add_lines d c = []" "view_lines d opts = []"
    using assms c by (simp_all add: diff_empty_def create_lines_def created_order_def o fk_add_lines_def view_lines_def view_order_def Let_def)
qed

section \<open>Statements that lose data\<close>


lemma mat_SeqI: "mat p b v (w @ a) \<Longrightarrow> mat q (rev v @ b) w a \<Longrightarrow> u = v @ w \<Longrightarrow> mat (Seq p q) b u a"
  by (auto intro: m_seq)


lemma mat_litiI: "to_lower w = to_lower s \<Longrightarrow> mat (liti s) b w a"
  by (simp only: mat_liti)

lemma mat_spcI: "w \<noteq> [] \<Longrightarrow> list_all is_space w \<Longrightarrow> mat (plus spc) b w a"
  unfolding spc_def mat_plus_cls by simp

lemma words_here [simp]: "is_word CHR ''E''" "is_word CHR ''D''" "\<not> is_word CHR '' ''"
  by code_simp+

lemma drop_table_flagged: "loses_data (''DROP TABLE '' @ rest)"
proof -
  have "mat (seqs [liti ''drop'', plus spc, liti ''table'', WordB]) [] ''DROP TABLE'' ('' '' @ rest)"
    unfolding seqs.simps
    apply (rule mat_SeqI [where v = "''DROP''"])
      apply (rule mat_litiI, code_simp)
     apply (rule mat_SeqI [where v = "'' ''"])
       apply (rule mat_spcI; simp add: is_space_def)
      apply (rule mat_SeqI [where v = "''TABLE''" and w = "[]"])
        apply (rule mat_litiI, code_simp)
       apply (simp add: hd_word_def)
      apply simp_all
    done
  then have "re_test DROP_TABLE_RE (''DROP TABLE '' @ rest)"
    unfolding DROP_TABLE_RE_def seqs.simps re_test_Bol
    by (intro exI [of _ "''DROP TABLE''"] exI [of _ "'' '' @ rest"]) simp
  then show ?thesis by (simp add: loses_data_def trim_start_def is_space_def)
qed

text \<open>The text between the table's keyword and \<open>DROP COLUMN\<close> holds no quote and no semicolon.\<close>

lemma mat_lazy_cls: "list_all P w \<Longrightarrow> mat (lazy_star (Cls P)) b w a"
proof (induction w arbitrary: b)
  case (Cons c w)
  then have "mat (lazy_star (Cls P)) b ([c] @ w) a"
    by (intro m_rep_more) (auto simp: dec_opt_def)
  then show ?case by simp
qed (rule m_rep0)


lemma alter_drop_found:
  assumes "CHR '';'' \<notin> set t" and "CHR 0x27 \<notin> set t"
  shows "\<exists>cs b. (b, rest, cs) \<in> set (m_re ALTER_DROP_RE ([], ''ALTER TABLE '' @ t @ '' DROP '' @ rest, []))"
proof -
  have "mat ALTER_DROP_RE [] (''ALTER TABLE '' @ t @ '' DROP '') rest"
    unfolding ALTER_DROP_RE_def seqs.simps
    apply (rule mat_SeqI [where v = "[]"])
      apply simp
     apply (rule mat_SeqI [where v = "''ALTER''" and w = "'' TABLE '' @ t @ '' DROP ''"])
       apply (rule mat_litiI, code_simp)
      apply (rule mat_SeqI [where v = "'' ''" and w = "''TABLE '' @ t @ '' DROP ''"])
        apply (rule mat_spcI; simp add: is_space_def)
       apply (rule mat_SeqI [where v = "''TABLE''" and w = "'' '' @ t @ '' DROP ''"])
         apply (rule mat_litiI, code_simp)
        apply (rule mat_SeqI [where v = "[]" and w = "'' '' @ t @ '' DROP ''"])
          apply (simp add: hd_word_def)
         apply (rule mat_SeqI [where v = "'' '' @ t @ '' ''" and w = "''DROP ''"])
           apply (rule mat_lazy_cls)
           apply (use assms in \<open>auto simp: list_all_iff\<close>)[1]
          apply (rule mat_SeqI [where v = "[]" and w = "''DROP ''"])
            apply (simp add: hd_word_def)
           apply (rule mat_SeqI [where v = "''DROP''" and w = "'' ''"])
             apply (rule mat_litiI, code_simp)
            apply (rule mat_spcI; simp add: is_space_def)
           apply simp_all
    done
  from m_re_complete [OF this, of "[]"] show ?thesis by auto
qed

lemma drop_column_flagged:
  assumes "CHR '';'' \<notin> set t" and "CHR 0x27 \<notin> set t"
    and kept: "\<And>b cs. m_re KEPT_WORD_RE (b, rest, cs) = []"
  shows "loses_data (''ALTER TABLE '' @ t @ '' DROP '' @ rest)"
proof -
  have s: "trim_start (''ALTER TABLE '' @ t @ '' DROP '' @ rest) = ''ALTER TABLE '' @ t @ '' DROP '' @ rest"
    by (simp add: trim_start_def is_space_def)
  obtain b cs where "(b, rest, cs) \<in> set (m_re ALTER_DROP_RE ([], ''ALTER TABLE '' @ t @ '' DROP '' @ rest, []))"
    using alter_drop_found [OF assms(1,2)] by blast
  then have "list_ex (\<lambda>m. m_re KEPT_WORD_RE m = []) (m_re ALTER_DROP_RE ([], ''ALTER TABLE '' @ t @ '' DROP '' @ rest, []))"
    using kept unfolding list_ex_iff by blast
  then show ?thesis unfolding loses_data_def Let_def s by simp
qed



lemma kept_word_starts:
  assumes "m_re KEPT_WORD_RE (b, r, cs) \<noteq> []"
  shows "list_ex (\<lambda>x. starts_with x (to_lower r)) KEPT_WORDS"
proof -
  from assms obtain t where "t \<in> set (m_re KEPT_WORD_RE (b, r, cs))" by (cases "m_re KEPT_WORD_RE (b, r, cs)") auto
  from sound_mE [OF m_re_sound this] have "\<exists>w a. r = w @ a \<and> mat KEPT_WORD_RE b w a"
    by (metis fst_conv snd_conv)
  then obtain w a where w: "r = w @ a" "mat KEPT_WORD_RE b w a" by blast
  then obtain x where x: "x \<in> set KEPT_WORDS" "to_lower w = to_lower x"
    unfolding KEPT_WORD_RE_def by auto
  have "map to_lower KEPT_WORDS = KEPT_WORDS" by code_simp
  then have "to_lower x = x" using x(1) by (metis map_idI map_eq_conv map_ident)
  moreover have "to_lower r = to_lower w @ to_lower a" by (simp add: w(1) to_lower_def)
  ultimately show ?thesis using x unfolding list_ex_iff starts_with_iff by auto
qed

lemma column_not_kept: "m_re KEPT_WORD_RE (b, ''COLUMN '' @ r, cs) = []"
proof (rule ccontr)
  assume "m_re KEPT_WORD_RE (b, ''COLUMN '' @ r, cs) \<noteq> []"
  moreover have "to_lower (''COLUMN '' @ r) = ''column '' @ to_lower r"
  proof -
    have "to_lower (''COLUMN '' @ r) = to_lower ''COLUMN '' @ to_lower r" by (simp add: to_lower_def)
    also have "to_lower ''COLUMN '' = ''column ''" by code_simp
    finally show ?thesis .
  qed
  ultimately have "list_ex (\<lambda>x. starts_with x (''column '' @ to_lower r)) KEPT_WORDS"
    using kept_word_starts by metis
  then show False by (simp add: KEPT_WORDS_def starts_with_def)
qed

section \<open>Properties\<close>

text \<open>When nothing differs the script has nothing to run: every line is a comment.\<close>

theorem no_difference_runs_nothing:
  assumes "diff_empty d"
  shows "filter is_executable (ms_statements (generate_migration d opts)) = []"
proof (cases "List.find (\<lambda>s. engine_family s = ''mongodb'') [sd_source d, sd_target d]")
  case None
  note e = no_lines_without_difference [OF assms]
  have "sd_changed d = []" using assms by (simp add: diff_empty_def)
  then show ?thesis using None header_not_run [of d]
    by (simp add: generate_migration_def script_lines_def e Let_def)
qed (simp add: generate_migration_def script_lines_def Let_def del: List.find.simps)

theorem no_difference_runs_nothing_witness:
  "filter is_executable (ms_statements (generate_migration
     (diff_schemas (sample_schema ''int'' [''a'']) (sample_schema ''int'' [''a'']))
     \<lparr>mo_container = \<lparr>ct_db = None, ct_schema = None\<rparr>, mo_source = \<lparr>ct_db = None, ct_schema = None\<rparr>, mo_drop_tables = True\<rparr>)) = []"
  by (rule no_difference_runs_nothing, code_simp)

end
