(* ===== verification/ScriptRun.thy ===== *)
theory ScriptRun
  imports SchemaScript Importers Query Transport
begin

text \<open>
  Applying a migration script (\<open>statementRun.ts\<close> and the apply step of \<open>SchemaSyncWizard.tsx\<close>): which
  statements are offered, which are held back because they lose data, and their run inside one
  transaction with a status per statement. The elapsed times of the statuses are left out.
\<close>

section \<open>Running statements one by one\<close>

datatype step_status = Step_Pending | Step_Running | Step_Done | Step_Failed string | Step_Excluded | Step_Not_Run

record steps_outcome =
  so_done :: nat
  so_failed :: "nat option"
  so_cancelled :: bool

type_synonym step_events = "(nat \<times> step_status) list"

definition stop_from :: "(nat \<Rightarrow> bool) \<Rightarrow> nat \<Rightarrow> nat \<Rightarrow> step_events" where
  "stop_from excluded i n = map (\<lambda>j. (j, Step_Not_Run)) (filter (\<lambda>j. \<not> excluded j) [i..<n])"

text \<open>The loop from statement \<open>i\<close> on: the outcome, the statuses reported in order, the world.\<close>

fun run_steps ::
    "(string \<Rightarrow> (unit, 'w) effect) \<Rightarrow> ('w \<Rightarrow> bool) \<Rightarrow> (nat \<Rightarrow> bool) \<Rightarrow> nat \<Rightarrow> nat \<Rightarrow> string list \<Rightarrow> 'w \<Rightarrow>
     steps_outcome \<times> step_events \<times> 'w" where
  "run_steps f aborted excluded i n [] w = (\<lparr>so_done = n, so_failed = None, so_cancelled = False\<rparr>, [], w)"
| "run_steps f aborted excluded i n (s # ss) w =
     (if excluded i then
        (case run_steps f aborted excluded (i + 1) n ss w of (out, evs, w') \<Rightarrow> (out, (i, Step_Excluded) # evs, w'))
      else if aborted w then
        (\<lparr>so_done = n, so_failed = None, so_cancelled = True\<rparr>, stop_from excluded i (i + length (s # ss)), w)
      else case f s w of
        (Inl e, w') \<Rightarrow> (\<lparr>so_done = n, so_failed = Some i, so_cancelled = False\<rparr>,
          [(i, Step_Running), (i, Step_Failed (error_message e))] @ stop_from excluded (i + 1) (i + length (s # ss)), w')
      | (Inr _, w') \<Rightarrow>
          (case run_steps f aborted excluded (i + 1) (n + 1) ss w' of
             (out, evs, w'') \<Rightarrow> (out, [(i, Step_Running), (i, Step_Done)] @ evs, w'')))"

text \<open>The statuses on screen: each report replaces one.\<close>

definition show_steps :: "step_events \<Rightarrow> step_status list \<Rightarrow> step_status list" where
  "show_steps evs sts = fold (\<lambda>(i, s) xs. xs[i := s]) evs sts"

section \<open>What the wizard runs\<close>

definition executable_of :: "migration_script \<Rightarrow> string list" where
  "executable_of script = filter is_executable (ms_statements script)"

definition with_index :: "'a list \<Rightarrow> (nat \<times> 'a) list" where
  "with_index xs = zip [0..<length xs] xs"

definition losing_of :: "migration_script \<Rightarrow> (nat \<times> string) list" where
  "losing_of script = filter (\<lambda>(i, s). loses_data s) (with_index (executable_of script))"

definition chosen_of :: "migration_script \<Rightarrow> nat list \<Rightarrow> string list" where
  "chosen_of script opt_in =
     map snd (filter (\<lambda>(i, s). \<not> loses_data s \<or> i \<in> set opt_in) (with_index (executable_of script)))"

definition excluded_of :: "migration_script \<Rightarrow> nat list \<Rightarrow> nat \<Rightarrow> bool" where
  "excluded_of script opt_in i \<longleftrightarrow> i \<in> fst ` set (filter (\<lambda>(i, s). i \<notin> set opt_in) (losing_of script))"

definition start_statuses :: "string list \<Rightarrow> (nat \<Rightarrow> bool) \<Rightarrow> step_status list" where
  "start_statuses ss excluded = map (\<lambda>i. if excluded i then Step_Excluded else Step_Pending) [0..<length ss]"

text \<open>One statement through \<open>runQuery\<close>, its last semicolon left out.\<close>

definition exec_statement :: "'w channel \<Rightarrow> string \<Rightarrow> string \<Rightarrow> (unit, 'w) effect" where
  "exec_statement ch conn stmt w =
     (case run_query_call ch conn (re_replace LAST_SEMI [] stmt) None None False w of
        (Inl e, w') \<Rightarrow> (Inl e, w') | (Inr _, w') \<Rightarrow> (Inr (), w'))"

definition steps_failed :: "steps_outcome \<Rightarrow> bool" where
  "steps_failed out \<longleftrightarrow> so_failed out \<noteq> None \<or> so_cancelled out"

text \<open>The transaction around the run: the outcome and the statuses shown, or the error.\<close>

definition apply_steps ::
    "'w channel \<Rightarrow> string \<Rightarrow> ('w \<Rightarrow> bool) \<Rightarrow> (nat \<Rightarrow> bool) \<Rightarrow> string list \<Rightarrow> (steps_outcome \<times> step_status list, 'w) effect" where
  "apply_steps ch conn aborted excluded ss w =
     (case tx_call ch conn TxBegin w of
        (Inl e, w1) \<Rightarrow> (Inl e, w1)
      | (Inr _, w1) \<Rightarrow>
          (case run_steps (exec_statement ch conn) aborted excluded 0 0 ss w1 of (out, evs, w2) \<Rightarrow>
            let r = (out, show_steps evs (start_statuses ss excluded)) in
            if steps_failed out then (Inr r, snd (tx_call ch conn TxRollback w2))
            else (case tx_call ch conn TxCommit w2 of (Inl e, w3) \<Rightarrow> (Inl e, w3) | (Inr _, w3) \<Rightarrow> (Inr r, w3))))"

text \<open>The button: nothing without something to run or over a read-only target; one question about
  the writes. Absent means that it returned at once.\<close>

definition apply_script ::
    "'w env \<Rightarrow> string option \<Rightarrow> bool \<Rightarrow> migration_script \<Rightarrow> nat list \<Rightarrow> ('w net \<Rightarrow> bool) \<Rightarrow> 'w net \<Rightarrow>
     (js_error, steps_outcome \<times> step_status list) result option \<times> 'w net" where
  "apply_script ev target read_only script opt_in aborted st =
     (case truthy target of
        None \<Rightarrow> (None, st)
      | Some conn \<Rightarrow>
          if chosen_of script opt_in = [] \<or> read_only then (None, st)
          else apfst Some (with_write_consent ev conn (chosen_of script opt_in)
            (apply_steps (call ev) conn aborted (excluded_of script opt_in) (executable_of script)) st))"


section \<open>What the statuses say\<close>

lemma show_steps_length [simp]: "length (show_steps evs sts) = length sts"
  unfolding show_steps_def by (induction evs arbitrary: sts) (auto split: prod.splits)

lemma show_steps_nth:
  "j < length sts \<Longrightarrow> show_steps evs sts ! j = (case map_of (rev evs) j of None \<Rightarrow> sts ! j | Some s \<Rightarrow> s)"
proof (induction evs rule: rev_induct)
  case (snoc e evs)
  have "show_steps (evs @ [e]) sts = (show_steps evs sts)[fst e := snd e]"
    by (simp add: show_steps_def case_prod_beta)
  with snoc show ?case by (cases e) (auto simp: nth_list_update)
qed (simp add: show_steps_def)

lemma map_of_stop [simp]:
  "map_of (rev (stop_from ex a n)) j = (if a \<le> j \<and> j < n \<and> \<not> ex j then Some Step_Not_Run else None)"
proof -
  have "map_of (map (\<lambda>j. (j, c)) xs) j = (if j \<in> set xs then Some c else None)" for xs :: "nat list" and c :: step_status
    by (induction xs) auto
  then show ?thesis by (simp add: stop_from_def rev_map)
qed

text \<open>The status of statement \<open>j\<close> when the run got to statement \<open>k\<close>.\<close>

definition status_at :: "(nat \<Rightarrow> bool) \<Rightarrow> nat \<Rightarrow> nat option \<Rightarrow> string \<Rightarrow> nat \<Rightarrow> step_status" where
  "status_at ex k failed msg j =
     (if ex j then Step_Excluded else if j < k then Step_Done
      else if failed = Some j then Step_Failed msg else Step_Not_Run)"

definition counted :: "(nat \<Rightarrow> bool) \<Rightarrow> nat \<Rightarrow> nat \<Rightarrow> nat" where
  "counted ex i k = length (filter (\<lambda>j. \<not> ex j) [i..<k])"

lemma counted_step: "i < k \<Longrightarrow> counted ex i k = (if ex i then 0 else 1) + counted ex (Suc i) k"
  by (simp add: counted_def upt_rec [of i k])

text \<open>Statements run one after another with success, none of them once the run was aborted: the world after
  them, if so.\<close>

fun ran_ok ::
    "(string \<Rightarrow> (unit, 'w) effect) \<Rightarrow> ('w \<Rightarrow> bool) \<Rightarrow> (nat \<Rightarrow> bool) \<Rightarrow> nat \<Rightarrow> string list \<Rightarrow> 'w \<Rightarrow> 'w option" where
  "ran_ok f ab ex i [] w = Some w"
| "ran_ok f ab ex i (s # ss) w =
     (if ex i then ran_ok f ab ex (i + 1) ss w
      else if ab w then None
      else case f s w of (Inl e, _) \<Rightarrow> None | (Inr _, w1) \<Rightarrow> ran_ok f ab ex (i + 1) ss w1)"

text \<open>How a run ends at statement \<open>k\<close>: the ones before it succeeded; it failed, or the run was aborted there, or
  there is none left.\<close>

definition ends_at ::
    "(string \<Rightarrow> (unit, 'w) effect) \<Rightarrow> ('w \<Rightarrow> bool) \<Rightarrow> (nat \<Rightarrow> bool) \<Rightarrow> nat \<Rightarrow> string list \<Rightarrow> 'w \<Rightarrow> steps_outcome \<Rightarrow> nat \<Rightarrow> string \<Rightarrow> 'w \<Rightarrow> bool" where
  "ends_at f ab ex i ss w out k msg w' \<longleftrightarrow>
     (case ran_ok f ab ex i (take (k - i) ss) w of None \<Rightarrow> False
      | Some w1 \<Rightarrow>
          if so_failed out = Some k then \<not> ab w1 \<and> \<not> so_cancelled out \<and>
            (case f (ss ! (k - i)) w1 of (Inl e, w2) \<Rightarrow> w2 = w' \<and> error_message e = msg | (Inr _, _) \<Rightarrow> False)
          else w' = w1 \<and> so_failed out = None \<and> (if so_cancelled out then ab w1 \<and> k < i + length ss else k = i + length ss))"

lemma ends_at_Cons:
  assumes "ends_at f ab ex (Suc i) ss w1 out k msg w'" and "Suc i \<le> k"
    and "ex i \<and> w1 = w \<or> \<not> ex i \<and> \<not> ab w \<and> f s w = (Inr u, w1)"
  shows "ends_at f ab ex i (s # ss) w out k msg w'"
proof -
  obtain k' where k: "k = Suc k'" "i \<le> k'" using assms(2) by (cases k) auto
  then have t: "take (k - i) (s # ss) = s # take (k - Suc i) ss" by (simp add: Suc_diff_le)
  have n: "(s # ss) ! (k - i) = ss ! (k - Suc i)" using k by (simp add: Suc_diff_le)
  have "ran_ok f ab ex i (take (k - i) (s # ss)) w = ran_ok f ab ex (Suc i) (take (k - Suc i) ss) w1"
    unfolding t using assms(3) by auto
  with assms(1) show ?thesis unfolding ends_at_def n by (auto split: option.splits)
qed

lemma run_steps_shape:
  assumes "run_steps f ab ex i n ss w = (out, evs, w')"
  shows "\<exists>k msg. i \<le> k \<and> k \<le> i + length ss \<and> so_done out = n + counted ex i k \<and>
    (\<forall>j. map_of (rev evs) j \<in> (if i \<le> j \<and> j < i + length ss
       then {Some (status_at ex k (so_failed out) msg j)} \<union> (if ex j then {None} else {}) else {None})) \<and>
    (k < i + length ss \<longrightarrow> \<not> ex k) \<and> ends_at f ab ex i ss w out k msg w'"
  using assms
proof (induction ss arbitrary: i n w out evs w')
  case Nil
  then show ?case by (auto simp: counted_def ends_at_def intro!: exI [of _ i])
next
  case (Cons s ss)
  show ?case
  proof (cases "ex i")
    case True
    with Cons.prems obtain evs1 where e: "run_steps f ab ex (Suc i) n ss w = (out, evs1, w')" "evs = (i, Step_Excluded) # evs1"
      by (auto split: prod.splits)
    from Cons.IH [OF e(1)] obtain k msg where k: "Suc i \<le> k" "k \<le> Suc i + length ss" "so_done out = n + counted ex (Suc i) k"
      "\<And>j. map_of (rev evs1) j \<in> (if Suc i \<le> j \<and> j < Suc i + length ss
       then {Some (status_at ex k (so_failed out) msg j)} \<union> (if ex j then {None} else {}) else {None})"
      "k < Suc i + length ss \<longrightarrow> \<not> ex k" "ends_at f ab ex (Suc i) ss w out k msg w'" by blast
    have "map_of (rev evs) j \<in> (if i \<le> j \<and> j < i + length (s # ss)
       then {Some (status_at ex k (so_failed out) msg j)} \<union> (if ex j then {None} else {}) else {None})" for j
      using k(4) [of j] True
      by (cases "j = i") (auto simp: e(2) status_at_def map_add_def split: if_splits option.splits)
    moreover have "ends_at f ab ex i (s # ss) w out k msg w'" using ends_at_Cons [OF k(6,1)] True by blast
    ultimately show ?thesis using k True
      by (intro exI [of _ k] exI [of _ msg]) (auto simp: counted_step)
  next
    case False
    show ?thesis
    proof (cases "ab w")
      case True
      with False Cons.prems show ?thesis
        by (intro exI [of _ i] exI [of _ "[]"]) (auto simp: status_at_def counted_def ends_at_def)
    next
      case ab: False
      obtain r w1 where r: "f s w = (r, w1)" by (cases "f s w") auto
      show ?thesis
      proof (cases r)
        case (Inl e)
        with False ab Cons.prems r show ?thesis
          by (intro exI [of _ i] exI [of _ "error_message e"])
            (auto simp: status_at_def counted_def map_add_def ends_at_def split: option.splits)
      next
        case (Inr u)
        with False ab Cons.prems r obtain evs1 where e: "run_steps f ab ex (Suc i) (Suc n) ss w1 = (out, evs1, w')"
          "evs = [(i, Step_Running), (i, Step_Done)] @ evs1" by (auto split: prod.splits)
        from Cons.IH [OF e(1)] obtain k msg where k: "Suc i \<le> k" "k \<le> Suc i + length ss" "so_done out = Suc n + counted ex (Suc i) k"
          "\<And>j. map_of (rev evs1) j \<in> (if Suc i \<le> j \<and> j < Suc i + length ss
           then {Some (status_at ex k (so_failed out) msg j)} \<union> (if ex j then {None} else {}) else {None})"
          "k < Suc i + length ss \<longrightarrow> \<not> ex k" "ends_at f ab ex (Suc i) ss w1 out k msg w'" by blast
        have "map_of (rev evs) j \<in> (if i \<le> j \<and> j < i + length (s # ss)
           then {Some (status_at ex k (so_failed out) msg j)} \<union> (if ex j then {None} else {}) else {None})" for j
          using k(1) k(4) [of j] False
          by (cases "j = i") (auto simp: e(2) status_at_def map_add_def split: if_splits option.splits)
        moreover have "ends_at f ab ex i (s # ss) w out k msg w'"
          using ends_at_Cons [OF k(6,1), of w s u] False ab r Inr by blast
        ultimately show ?thesis using k False
          by (intro exI [of _ k] exI [of _ msg]) (auto simp: counted_step)
      qed
    qed
  qed
qed


lemma start_statuses_length [simp]: "length (start_statuses ss ex) = length ss"
  by (simp add: start_statuses_def)

section \<open>What applying a script relies on\<close>

locale script_store =
  fixes tx :: "tx_verb \<Rightarrow> (unit, 'w) effect"
    and run :: "string \<Rightarrow> (unit, 'w) effect"
    and good :: "'w \<Rightarrow> bool"
    and durable :: "'w \<Rightarrow> 'd"
    and in_flight :: "'w \<Rightarrow> 'd option"
    and granted :: "'w \<Rightarrow> bool"
    and still_open :: "'w \<Rightarrow> bool"
    and effect_of :: "string \<Rightarrow> 'd \<Rightarrow> 'd"
  assumes run_law: "good w \<Longrightarrow> in_flight w = Some d \<Longrightarrow> run s w = (r, w') \<Longrightarrow>
      good w' \<and> durable w' = durable w \<and> (\<exists>d'. in_flight w' = Some d' \<and> (is_ok r \<longrightarrow> d' = effect_of s d))"
    and commit_law: "good w \<Longrightarrow> in_flight w = Some d \<Longrightarrow> tx TxCommit w = (r', w') \<Longrightarrow>
      durable w' = (if is_ok r' \<and> \<not> still_open w' then d else durable w)"
    and rollback_law: "good w \<Longrightarrow> tx TxRollback w = (r', w') \<Longrightarrow>
      durable w' = durable w \<and> in_flight w' = None \<and> \<not> still_open w'"
    and begin_law: "good w \<Longrightarrow> granted w \<Longrightarrow> in_flight w = None \<Longrightarrow> tx TxBegin w = (r', w') \<Longrightarrow>
      good w' \<and> durable w' = durable w \<and> (is_ok r' \<longrightarrow> in_flight w' = Some (durable w))"
begin

definition kept_from :: "(nat \<Rightarrow> bool) \<Rightarrow> nat \<Rightarrow> string list \<Rightarrow> string list" where
  "kept_from ex i ss = map snd (filter (\<lambda>(j, s). \<not> ex j) (zip [i..<i + length ss] ss))"

lemma kept_from_simps [simp]:
  "kept_from ex i [] = []"
  "kept_from ex i (s # ss) = (if ex i then [] else [s]) @ kept_from ex (Suc i) ss"
proof -
  have "[i..<i + length (s # ss)] = i # [Suc i..<Suc i + length ss]"
    by (simp add: upt_conv_Cons del: upt_Suc)
  then show "kept_from ex i (s # ss) = (if ex i then [] else [s]) @ kept_from ex (Suc i) ss"
    by (simp add: kept_from_def del: upt_Suc)
qed (simp add: kept_from_def)

lemma run_steps_law:
  "good w \<Longrightarrow> in_flight w = Some d \<Longrightarrow> run_steps run ab ex i n ss w = (out, evs, w') \<Longrightarrow>
     good w' \<and> durable w' = durable w \<and> (\<exists>d'. in_flight w' = Some d' \<and>
       (steps_failed out \<or> d' = fold effect_of (kept_from ex i ss) d))"
proof (induction ss arbitrary: i n w d out evs w')
  case (Cons s ss)
  show ?case
  proof (cases "ex i \<or> ab w")
    case True
    with Cons show ?thesis by (fastforce simp: steps_failed_def split: if_splits prod.splits)
  next
    case False
    obtain r w1 where r: "run s w = (r, w1)" by (cases "run s w") auto
    from run_law [OF Cons.prems(1,2) r] obtain d1 where l: "good w1" "durable w1 = durable w"
      "in_flight w1 = Some d1" "is_ok r \<longrightarrow> d1 = effect_of s d" by blast
    show ?thesis
    proof (cases r)
      case (Inl e)
      with Cons.prems r l False show ?thesis by (auto simp: steps_failed_def)
    next
      case (Inr u)
      with Cons.prems r False obtain evs1 where "run_steps run ab ex (i + 1) (n + 1) ss w1 = (out, evs1, w')"
        by (auto split: prod.splits)
      from Cons.IH [OF l(1,3) this] l Inr False show ?thesis by simp
    qed
  qed
qed auto

end

section \<open>The core\<close>

definition statement_params :: "string \<Rightarrow> string \<Rightarrow> json" where
  "statement_params conn stmt = run_query_params conn (re_replace LAST_SEMI [] stmt) None None False"

definition statement_effect :: "('e, 'd) engine \<Rightarrow> string \<Rightarrow> string \<Rightarrow> 'd option \<Rightarrow> 'd option" where
  "statement_effect E conn stmt = map_option (en_effect E ''query.run'' (Some (statement_params conn stmt)))"

lemma statement_run:
  assumes "core_row row ''query.run'' (Some (statement_params conn stmt)) mgr = (res, mgr')"
    and "exec_statement (core_channel (core_row row)) conn stmt mgr = (r, w')"
  shows "w' = mgr' \<and> is_ok r = is_ok res"
  using assms
  by (auto simp: exec_statement_def run_query_call_def called_def core_channel_def statement_params_def is_ok_def
      parse_query_result_def split: sum.splits)

lemma statement_conn: "\<exists>p. statement_params conn stmt = JObj p \<and> map_of p ''connId'' = Some (JStr conn)"
  by (simp add: statement_params_def run_query_params_def)

interpretation script: script_store "tx_call (core_channel (core_row (en_row E))) conn"
  "exec_statement (core_channel (core_row (en_row E))) conn" "\<lambda>mgr. eng_good E conn ([], mgr)"
  "\<lambda>mgr. eng_durable E conn ([], mgr)" "\<lambda>mgr. eng_work E conn ([], mgr)" "begin_granted conn" "core_in_tx conn"
  "statement_effect E conn"
  for E :: "('e, 'd) engine" and conn
proof
  fix mgr mgr' :: "'e manager" and d s r
  assume g: "eng_good E conn ([], mgr)" and d: "eng_work E conn ([], mgr) = Some d"
    and r: "exec_statement (core_channel (core_row (en_row E))) conn s mgr = (r, mgr')"
  obtain res mgr1 where cr: "core_row (en_row E) ''query.run'' (Some (statement_params conn s)) mgr = (res, mgr1)"
    by (cases "core_row (en_row E) ''query.run'' (Some (statement_params conn s)) mgr") auto
  obtain p where p: "statement_params conn s = JObj p" "map_of p ''connId'' = Some (JStr conn)"
    using statement_conn by blast
  have "mgr' = mgr1" "is_ok r = is_ok res" using statement_run [OF cr r] by auto
  with eng_row [OF g d p(2) cr [unfolded p(1)]] p(1)
  show "eng_good E conn ([], mgr') \<and> eng_durable E conn ([], mgr') = eng_durable E conn ([], mgr) \<and>
      (\<exists>d'. eng_work E conn ([], mgr') = Some d' \<and> (is_ok r \<longrightarrow> d' = statement_effect E conn s d))"
    by (simp add: statement_effect_def)
next
  fix mgr mgr' :: "'e manager" and d r
  assume g: "eng_good E conn ([], mgr)" and d: "eng_work E conn ([], mgr) = Some d"
    and "tx_call (core_channel (core_row (en_row E))) conn TxCommit mgr = (r, mgr')"
  then have "r = Inr ()" "mgr' = snd (core_tx conn TxCommit mgr)" by (auto simp: tx_call_core)
  with eng_tx(2) [OF g prod.collapse [symmetric], of TxCommit] d
  show "eng_durable E conn ([], mgr') = (if is_ok r \<and> \<not> core_in_tx conn mgr' then d else eng_durable E conn ([], mgr))"
    by (simp add: eng_open_def)
next
  fix mgr mgr' :: "'e manager" and r
  assume g: "eng_good E conn ([], mgr)" and "tx_call (core_channel (core_row (en_row E))) conn TxRollback mgr = (r, mgr')"
  then have m: "mgr' = snd (core_tx conn TxRollback mgr)" by (auto simp: tx_call_core)
  have "\<not> core_in_tx conn mgr'" unfolding m using core_tx_open [of conn TxRollback mgr] by auto
  with eng_tx(2,3) [OF g prod.collapse [symmetric], of TxRollback] m
  show "eng_durable E conn ([], mgr') = eng_durable E conn ([], mgr) \<and> eng_work E conn ([], mgr') = None \<and> \<not> core_in_tx conn mgr'"
    by simp
next
  fix mgr mgr' :: "'e manager" and r
  assume g: "eng_good E conn ([], mgr)" and b: "begin_granted conn mgr" and d: "eng_work E conn ([], mgr) = None"
    and "tx_call (core_channel (core_row (en_row E))) conn TxBegin mgr = (r, mgr')"
  then have "mgr' = snd (core_tx conn TxBegin mgr)" by (auto simp: tx_call_core)
  with eng_tx(1,2,4) [OF g prod.collapse [symmetric], of TxBegin] d b
  show "eng_good E conn ([], mgr') \<and> eng_durable E conn ([], mgr') = eng_durable E conn ([], mgr) \<and>
      (is_ok r \<longrightarrow> eng_work E conn ([], mgr') = Some (eng_durable E conn ([], mgr)))"
    by (simp add: begin_granted_def)
qed

lemma chosen_kept: "chosen_of script opt_in = script.kept_from (excluded_of script opt_in) 0 (executable_of script)"
proof -
  have "excluded_of script opt_in i \<longleftrightarrow> loses_data s \<and> i \<notin> set opt_in"
    if "(i, s) \<in> set (with_index (executable_of script))" for i s
    using that by (force simp: excluded_of_def losing_of_def with_index_def set_zip)
  then show ?thesis
    by (auto simp: chosen_of_def script.kept_from_def with_index_def intro!: arg_cong [where f = "map snd"] filter_cong)
qed

section \<open>Properties\<close>

text \<open>C35. What the statuses say of a run is what happened: there is a statement \<open>k\<close> such that the ones before it,
  but those held back, were executed in order and succeeded, and are shown as done and counted; \<open>k\<close> was executed
  and failed, and is shown as failed with its error, or the run was aborted there, or no statement was left; the rest
  was not executed and is shown so; and those held back are shown as excluded and never executed.\<close>

theorem every_statement_accounted:
  "case run_steps f aborted excluded 0 0 ss w of (out, evs, w') \<Rightarrow>
     \<exists>k msg. k \<le> length ss \<and> ends_at f aborted excluded 0 ss w out k msg w' \<and>
       show_steps evs (start_statuses ss excluded) = map (status_at excluded k (so_failed out) msg) [0..<length ss] \<and>
       so_done out = counted excluded 0 k"
proof -
  obtain out evs w' where r: "run_steps f aborted excluded 0 0 ss w = (out, evs, w')"
    by (cases "run_steps f aborted excluded 0 0 ss w") auto
  from run_steps_shape [OF r] obtain k msg where k: "k \<le> length ss" "so_done out = counted excluded 0 k"
    "\<And>j. map_of (rev evs) j \<in> (if j < length ss
       then {Some (status_at excluded k (so_failed out) msg j)} \<union> (if excluded j then {None} else {}) else {None})"
    "ends_at f aborted excluded 0 ss w out k msg w'" by auto
  have "show_steps evs (start_statuses ss excluded) = map (status_at excluded k (so_failed out) msg) [0..<length ss]"
  proof (rule nth_equalityI)
    fix j assume j: "j < length (show_steps evs (start_statuses ss excluded))"
    with k(3) [of j] show "show_steps evs (start_statuses ss excluded) ! j
        = map (status_at excluded k (so_failed out) msg) [0..<length ss] ! j"
      by (auto simp: show_steps_nth start_statuses_def status_at_def split: if_splits)
  qed simp
  with k show ?thesis unfolding r by auto
qed



definition no_container :: container where
  "no_container = \<lparr>ct_db = None, ct_schema = None\<rparr>"

definition drop_options :: migration_options where
  "drop_options = \<lparr>mo_container = no_container, mo_source = no_container, mo_drop_tables = True\<rparr>"

definition demo_script :: migration_script where
  "demo_script = \<lparr>ms_statements = [''-- NOTE: n'', ''CREATE TABLE t (a);'', ''DROP TABLE u;''], ms_issues = []\<rparr>"

definition demo_apply :: "bool \<Rightarrow> nat \<Rightarrow> nat list \<Rightarrow> (js_error, steps_outcome \<times> step_status list) result \<times> nat snapshot manager" where
  "demo_apply refuse most opt_in = apply_steps (core_channel (core_row (second_refused refuse))) ''c1'' (\<lambda>_. False)
     (excluded_of demo_script opt_in) (executable_of demo_script) (closed_world most)"

lemma demo_apply_done:
  "case fst (demo_apply False 9 []) of Inl e \<Rightarrow> False | Inr (out, sts) \<Rightarrow> \<not> steps_failed out \<and> sts = [Step_Done, Step_Excluded]"
  "\<not> core_in_tx ''c1'' (snd (demo_apply False 9 []))"
  by code_simp+

lemma demo_apply_failed: "case fst (demo_apply True 9 [1]) of Inl e \<Rightarrow> False | Inr (out, sts) \<Rightarrow> steps_failed out"
  by code_simp

lemma demo_apply_refused: "\<not> (case fst (demo_apply False 5 []) of Inl e \<Rightarrow> True | Inr (out, sts) \<Rightarrow> steps_failed out)"
  "core_in_tx ''c1'' (snd (demo_apply False 5 []))"
  by code_simp+

lemma demo_chosen: "chosen_of demo_script [] = [''CREATE TABLE t (a);'']"
  by code_simp


text \<open>When the engine refuses the transaction, the dropped answer hides it: the statements run outside one, and those
  before a failing one stay, although the run is said to be rolled back.\<close>

definition no_begin_world :: "nat snapshot manager" where
  "no_begin_world = [(1, \<lparr>sl_driver = (snapshot_driver 9)\<lparr>dr_begin := Some (\<lambda>h. (DbQuery, h))\<rparr>,
     sl_handle = \<lparr>sn_durable = 5, sn_work = None\<rparr>, sl_in_tx = False\<rparr>)]"

definition drop_refused :: "string \<Rightarrow> json option \<Rightarrow> nat snapshot \<Rightarrow> response \<times> nat snapshot" where
  "drop_refused m p h = (if sn_durable h = 6 then (rpc_fail (- 32003) ''refused'', h) else (Inr (JObj []), h\<lparr>sn_durable := sn_durable h + 1\<rparr>))"

lemma script_outside_a_transaction:
  "(case apply_steps (core_channel (core_row drop_refused)) ''c1'' (\<lambda>_. False) (excluded_of demo_script [1])
      (executable_of demo_script) no_begin_world of
     (Inr (out, sts), mgr) \<Rightarrow> steps_failed out \<and> map (\<lambda>(i, sl). sn_durable (sl_handle sl)) mgr = [6] | _ \<Rightarrow> False)"
  by code_simp

section \<open>Statements that lose data\<close>

text \<open>A name that the flag sees through: no quote and no semicolon.\<close>

definition plain_reference :: "string \<Rightarrow> bool" where
  "plain_reference s \<longleftrightarrow> CHR '';'' \<notin> set s \<and> CHR 0x27 \<notin> set s"

definition begins_kept :: "string \<Rightarrow> bool" where
  "begins_kept s \<longleftrightarrow> list_ex (\<lambda>x. starts_with x (to_lower s)) KEPT_WORDS"

lemma chosen_none_lost: "s \<in> set (chosen_of script []) \<Longrightarrow> \<not> loses_data s"
  by (auto simp: chosen_of_def)

lemma informix_reference: "engine_family e = ''informix'' \<Longrightarrow> quote_identifier c e = c"
  by (simp add: engine_family_def quote_identifier_def Let_def split: if_splits)

lemma to_lower_semi: "to_lower (c @ '';'') = to_lower c @ '';''"
proof -
  have "to_lower '';'' = '';''" by code_simp
  then show ?thesis by (simp add: to_lower_def)
qed

lemma begins_kept_append: "\<not> begins_kept c \<Longrightarrow> CHR '';'' \<notin> set c \<Longrightarrow> \<not> begins_kept (c @ '';'')"
proof
  assume c: "\<not> begins_kept c" and "begins_kept (c @ '';'')"
  then obtain x where x: "x \<in> set KEPT_WORDS" "starts_with x (to_lower c @ '';'')"
    using to_lower_semi by (auto simp: begins_kept_def list_ex_iff)
  have "x = to_lower c @ '';'' \<or> starts_with x (to_lower c)"
    using x(2) by (auto simp: starts_with_iff append_eq_append_conv2 Cons_eq_append_conv)
  moreover have "CHR '';'' \<notin> set x" using x(1) by (auto simp: KEPT_WORDS_def)
  ultimately show False using c x(1) by (auto simp: begins_kept_def list_ex_iff)
qed

lemma drop_column_losing:
  assumes "plain_reference (target_name e c table)"
    and "engine_family e = ''informix'' \<Longrightarrow> plain_reference (cf_name col) \<and> \<not> begins_kept (cf_name col)"
  shows "loses_data (line_text (drop_column e c table col))"
proof (cases "engine_family e = ''informix''")
  case True
  then have "line_text (drop_column e c table col)
      = ''ALTER TABLE '' @ target_name e c table @ '' DROP '' @ (cf_name col @ '';'')"
    by (simp add: drop_column_def line_text_def informix_reference)
  moreover have "m_re KEPT_WORD_RE (b, cf_name col @ '';'', cs) = []" for b cs
    using kept_word_starts [of b "cf_name col @ '';''" cs] begins_kept_append assms(2) [OF True]
    by (auto simp: begins_kept_def plain_reference_def)
  ultimately show ?thesis
    using drop_column_flagged assms(1) unfolding plain_reference_def by metis
next
  case False
  then have "line_text (drop_column e c table col) = ''ALTER TABLE '' @ target_name e c table @ '' DROP '' @
      (''COLUMN '' @ quote_identifier (cf_name col) e @ '';'')"
    by (simp add: drop_column_def line_text_def)
  with drop_column_flagged [OF _ _ column_not_kept] assms(1) show ?thesis
    unfolding plain_reference_def by metis
qed


definition drop_one :: "string \<Rightarrow> string \<Rightarrow> string \<Rightarrow> string list" where
  "drop_one e table col = chosen_of \<lparr>ms_statements = [line_text (drop_column e no_container table (sample_column col ''int''))], ms_issues = []\<rparr> []"

text \<open>The flag on data-losing statements does not see a dropped column when the table's name holds
  a quote, nor, on Informix, when the column is named after a kind of constraint: with nothing
  ticked the statement is run.\<close>

theorem losing_statement_slips:
  "drop_one ''postgres'' (''o'' @ CHR 0x27 # ''b'') ''c'' =
     [''ALTER TABLE '' @ DQ # ''o'' @ CHR 0x27 # ''b'' @ DQ # '' DROP COLUMN '' @ DQ # ''c'' @ DQ # '';''] \<and>
   drop_one ''informix'' ''t'' ''key'' = [''ALTER TABLE t DROP key;'']"
  by code_simp

definition commented_view :: schema_diff where
  "commented_view = \<lparr>sd_source = ''mssql'', sd_target = ''mssql'', sd_added = [], sd_removed = [], sd_changed = [],
     sd_added_views = [], sd_removed_views = [],
     sd_changed_views = [(\<lparr>vd_name = ''v'', vd_ddl = ''-- a'' @ LF @ ''create view v as q''\<rparr>, \<lparr>vd_name = ''v'', vd_ddl = ''w''\<rparr>)],
     sd_not_compared = [], sd_skipped = []\<rparr>"

text \<open>A changed view whose stored statement begins with a comment is dropped and not created again:
  the line that creates it is taken for a comment.\<close>

theorem commented_view_lost: "executable_of (generate_migration commented_view drop_options) = [''DROP VIEW [v];'']"
  by code_simp

text \<open>A comparison in which the target has a column and a table more than the source.\<close>

definition small_table :: "string \<Rightarrow> string list \<Rightarrow> table_def" where
  "small_table n cols = \<lparr>td_name = n, td_columns = map (\<lambda>c. sample_column c ''int'') cols, td_pk = None, td_uniques = [],
     td_indexes = [], td_fks = [], td_checks = []\<rparr>"

definition small_snapshot :: "table_def list \<Rightarrow> schema_snapshot" where
  "small_snapshot ts = \<lparr>sn_engine = ''sqlite'', sn_tables = ts, sn_views = [], sn_missing = [], sn_skipped = []\<rparr>"

definition shrinking_diff :: schema_diff where
  "shrinking_diff = diff_schemas (small_snapshot [small_table ''t'' [''a'']]) (small_snapshot [small_table ''t'' [''a'', ''c''], small_table ''u'' [''a'']])"

definition drop_of_c :: string where
  "drop_of_c = line_text (drop_column ''sqlite'' no_container ''t'' (sample_column ''c'' ''int''))"

lemma shrinking_script: "executable_of (generate_migration shrinking_diff drop_options) = [''DROP TABLE '' @ target_name ''sqlite'' no_container ''u'' @ '';'', drop_of_c]"
  by code_simp


end
