(* ===== verification/GridSelect.thy ===== *)
theory GridSelect
  imports Exporters JsNumberText
begin

text \<open>
  Moving about the result grid: the selected cell (\<open>gridNav.ts\<close>), blocks of cells and their copy
  (\<open>gridRange.ts\<close>), marked rows (\<open>rowSelection.ts\<close>), the order of the columns (\<open>gridColumnOrder.ts\<close>),
  the rows that are drawn (\<open>virtualize.ts\<close>), the pager (\<open>pager.ts\<close>) and lists (\<open>listNav.ts\<close>).
  Positions, offsets, sizes and pixels are whole numbers; a set of marks is a finite set.
\<close>

section \<open>The selected cell\<close>

record cell_pos =
  cp_row :: int
  cp_col :: int

definition NAV_KEYS :: "string list" where
  "NAV_KEYS = [''ArrowUp'', ''ArrowDown'', ''ArrowLeft'', ''ArrowRight'', ''Home'', ''End'', ''PageUp'', ''PageDown'']"

definition PAGE_STEP :: int where "PAGE_STEP = 10"

definition is_nav_key :: "string \<Rightarrow> bool" where
  "is_nav_key k \<longleftrightarrow> k \<in> set NAV_KEYS"

definition clamp_to :: "int \<Rightarrow> int \<Rightarrow> int" where
  "clamp_to n m = max 0 (min n (max 0 m))"

definition moved_row :: "string \<Rightarrow> int \<Rightarrow> int" where
  "moved_row k r = (if k = ''ArrowUp'' then r - 1 else if k = ''ArrowDown'' then r + 1
     else if k = ''PageUp'' then r - PAGE_STEP else if k = ''PageDown'' then r + PAGE_STEP else r)"

definition moved_col :: "string \<Rightarrow> int \<Rightarrow> int \<Rightarrow> int" where
  "moved_col k cols c = (if k = ''ArrowLeft'' then c - 1 else if k = ''ArrowRight'' then c + 1
     else if k = ''Home'' then 0 else if k = ''End'' then cols - 1 else c)"

definition move_selection :: "int \<Rightarrow> int \<Rightarrow> string \<Rightarrow> cell_pos option \<Rightarrow> cell_pos option" where
  "move_selection rows cols k sel =
     (if rows \<le> 0 \<or> cols \<le> 0 then None
      else if \<not> is_nav_key k then sel
      else case sel of None \<Rightarrow> Some \<lparr>cp_row = 0, cp_col = 0\<rparr>
        | Some p \<Rightarrow> Some \<lparr>cp_row = clamp_to (moved_row k (cp_row p)) (rows - 1),
            cp_col = clamp_to (moved_col k cols (cp_col p)) (cols - 1)\<rparr>)"

definition scroll_row_into_view :: "int \<Rightarrow> int \<Rightarrow> int \<Rightarrow> int \<Rightarrow> int option" where
  "scroll_row_into_view r h scroll viewport =
     (if h \<le> 0 \<or> viewport \<le> 0 then None
      else let top = r * h; bottom = top + h in
        if top < scroll then Some top
        else if bottom > scroll + viewport then Some (bottom - viewport) else None)"

section \<open>Blocks of cells\<close>

record cell_range =
  cr_r1 :: int
  cr_c1 :: int
  cr_r2 :: int
  cr_c2 :: int

definition range_between :: "cell_pos \<Rightarrow> cell_pos \<Rightarrow> cell_range" where
  "range_between a b = \<lparr>cr_r1 = min (cp_row a) (cp_row b), cr_c1 = min (cp_col a) (cp_col b),
     cr_r2 = max (cp_row a) (cp_row b), cr_c2 = max (cp_col a) (cp_col b)\<rparr>"

definition in_range :: "cell_range option \<Rightarrow> int \<Rightarrow> int \<Rightarrow> bool" where
  "in_range rg r c = (case rg of None \<Rightarrow> False
     | Some g \<Rightarrow> r \<ge> cr_r1 g \<and> r \<le> cr_r2 g \<and> c \<ge> cr_c1 g \<and> c \<le> cr_c2 g)"

definition range_cell_count :: "cell_range option \<Rightarrow> int" where
  "range_cell_count rg = (case rg of None \<Rightarrow> 0 | Some g \<Rightarrow> (cr_r2 g - cr_r1 g + 1) * (cr_c2 g - cr_c1 g + 1))"

definition TAB :: char where "TAB = CHR 0x09"

definition tsv_field :: "cell \<Rightarrow> string" where
  "tsv_field v = (case v of None \<Rightarrow> []
     | Some s \<Rightarrow> if TAB \<in> set s \<or> NL \<in> set s \<or> CR \<in> set s \<or> QUOTE \<in> set s
         then QUOTE # double_char QUOTE s @ [QUOTE] else s)"

definition range_to_tsv :: "cell list list \<Rightarrow> string" where
  "range_to_tsv rows = join [NL] (map (\<lambda>row. join [TAB] (map tsv_field row)) rows)"

section \<open>Marked rows\<close>

definition toggle_mark :: "nat set \<Rightarrow> nat \<Rightarrow> nat set" where
  "toggle_mark marks row = (if row \<in> marks then marks - {row} else insert row marks)"

definition mark_range :: "nat set \<Rightarrow> nat list \<Rightarrow> int \<Rightarrow> int \<Rightarrow> bool \<Rightarrow> nat set" where
  "mark_range marks view from to keep =
     (if keep then marks else {}) \<union>
     (\<lambda>p. view ! nat p) ` set [max 0 (min from to) .. min (int (length view) - 1) (max from to)]"

definition ordered_marks :: "nat set \<Rightarrow> nat list \<Rightarrow> nat list" where
  "ordered_marks marks view = filter (\<lambda>r. r \<in> marks) view"

definition pick_rows :: "result_set \<Rightarrow> int list \<Rightarrow> result_set" where
  "pick_rows res rows =
     res\<lparr>rs_rows := map (\<lambda>i. rs_rows res ! nat i) (filter (\<lambda>i. 0 \<le> i \<and> i < int (length (rs_rows res))) rows),
         rs_truncated := False\<rparr>"

section \<open>The order of the columns\<close>

definition default_order :: "nat \<Rightarrow> nat list" where
  "default_order n = [0..<n]"

text \<open>\<open>splice(from, 1)\<close>, then \<open>splice(to, 0, moved)\<close>.\<close>

definition move_column :: "int \<Rightarrow> int \<Rightarrow> nat list \<Rightarrow> nat list" where
  "move_column from to ord =
     (if from = to \<or> from < 0 \<or> to < 0 \<or> from \<ge> int (length ord) \<or> to \<ge> int (length ord) then ord
      else let rest = take (nat from) ord @ drop (Suc (nat from)) ord
        in take (nat to) rest @ ord ! nat from # drop (nat to) rest)"

definition display_index :: "nat list \<Rightarrow> nat \<Rightarrow> int" where
  "display_index ord c = (case find_index (\<lambda>x. x = c) ord of None \<Rightarrow> - 1 | Some i \<Rightarrow> int i)"

definition apply_order :: "nat list \<Rightarrow> 'a list \<Rightarrow> 'a list" where
  "apply_order ord items = (if length ord \<noteq> length items then items else map (\<lambda>i. items ! i) ord)"

section \<open>The rows that are drawn\<close>

record visible_range =
  vr_start :: int
  vr_end :: int
  vr_offset :: int
  vr_height :: int

text \<open>\<open>Math.ceil(a / b)\<close> for a positive \<open>b\<close>.\<close>

definition ceil_div :: "int \<Rightarrow> int \<Rightarrow> int" where
  "ceil_div a b = - ((- a) div b)"

definition visible_range_of :: "int \<Rightarrow> int \<Rightarrow> int \<Rightarrow> int \<Rightarrow> int option \<Rightarrow> visible_range" where
  "visible_range_of scroll viewport h n overscan =
     (let over = default 6 overscan in
      if h \<le> 0 \<or> n \<le> 0 then \<lparr>vr_start = 0, vr_end = 0, vr_offset = 0, vr_height = 0\<rparr>
      else let total = n * h; safe = max 0 (min scroll total);
             first = safe div h; shown = ceil_div (max 0 viewport) h;
             start = max 0 (first - over); stop = min n (first + shown + over)
        in \<lparr>vr_start = start, vr_end = stop, vr_offset = start * h, vr_height = total\<rparr>)"

definition needs_more_rows :: "int \<Rightarrow> int \<Rightarrow> bool \<Rightarrow> int \<Rightarrow> bool" where
  "needs_more_rows visible_end loaded truncated threshold \<longleftrightarrow>
     truncated \<and> loaded > 0 \<and> visible_end \<ge> loaded - threshold"

section \<open>The pager\<close>

record pager_input =
  pi_offset :: int
  pi_rows :: int
  pi_size :: int
  pi_total :: "int option"
  pi_more :: bool
  pi_paused :: bool

record pager_view =
  pv_from :: int
  pv_to :: int
  pv_page :: int
  pv_pages :: "int option"
  pv_first :: bool
  pv_prev :: bool
  pv_next :: bool
  pv_last :: bool
  pv_last_offset :: "int option"

definition pager_view_of :: "pager_input \<Rightarrow> pager_view" where
  "pager_view_of p =
     (let psize = max 1 (pi_size p); off = max 0 (pi_offset p); page = off div psize + 1;
          pages = map_option (\<lambda>t. max 1 (ceil_div t psize)) (pi_total p);
          last = map_option (\<lambda>n. (n - 1) * psize) pages;
          more = (case pi_total p of None \<Rightarrow> pi_more p | Some t \<Rightarrow> off + pi_rows p < t)
      in \<lparr>pv_from = (if pi_rows p > 0 then off + 1 else off), pv_to = off + pi_rows p, pv_page = page, pv_pages = pages,
          pv_first = (\<not> pi_paused p \<and> off \<noteq> 0), pv_prev = (\<not> pi_paused p \<and> off \<noteq> 0),
          pv_next = (\<not> pi_paused p \<and> more),
          pv_last = (\<not> pi_paused p \<and> (case last of None \<Rightarrow> False | Some l \<Rightarrow> off < l)),
          pv_last_offset = last\<rparr>)"

definition PAGE_SIZES :: "int list" where "PAGE_SIZES = [100, 500, 1000, 5000]"
definition DEFAULT_PAGE_SIZE :: int where "DEFAULT_PAGE_SIZE = 1000"

text \<open>A whole number, or nothing.\<close>

definition whole_number :: "js_number \<Rightarrow> int option" where
  "whole_number x = (case x of Num q \<Rightarrow> if of_int \<lfloor>q\<rfloor> = q then Some \<lfloor>q\<rfloor> else None | _ \<Rightarrow> None)"

definition parse_page_size :: "string option \<Rightarrow> int" where
  "parse_page_size raw =
     (case Option.bind raw (\<lambda>s. whole_number (js_Number s)) of
        None \<Rightarrow> DEFAULT_PAGE_SIZE | Some n \<Rightarrow> if n \<in> set PAGE_SIZES then n else DEFAULT_PAGE_SIZE)"

definition offset_for_page_size :: "int \<Rightarrow> int \<Rightarrow> int" where
  "offset_for_page_size off psize = (let s = max 1 psize in max 0 off div s * s)"

definition offset_for_page :: "string \<Rightarrow> int \<Rightarrow> int option \<Rightarrow> int option" where
  "offset_for_page text psize pages =
     (case whole_number (js_Number (trim text)) of None \<Rightarrow> None
      | Some page \<Rightarrow> if page < 1 then None
          else if (case pages of None \<Rightarrow> False | Some n \<Rightarrow> page > n) then None
          else Some ((page - 1) * max 1 psize))"

section \<open>Lists\<close>

definition LIST_PAGE :: int where "LIST_PAGE = 10"

definition enabled_at :: "int \<Rightarrow> (int \<Rightarrow> bool) \<Rightarrow> int \<Rightarrow> bool" where
  "enabled_at cnt disabled i \<longleftrightarrow> 0 \<le> i \<and> i < cnt \<and> \<not> disabled i"

text \<open>The first argument counts the steps left.\<close>

fun scan_list :: "nat \<Rightarrow> int \<Rightarrow> (int \<Rightarrow> bool) \<Rightarrow> int \<Rightarrow> bool \<Rightarrow> int \<Rightarrow> int option" where
  "scan_list 0 cnt disabled dir wrap i = None"
| "scan_list (Suc n) cnt disabled dir wrap i =
     (let j = (if wrap then (i + cnt) mod cnt else i) in
      if \<not> wrap \<and> (i < 0 \<or> i \<ge> cnt) then None
      else if enabled_at cnt disabled j then Some j
      else scan_list n cnt disabled dir wrap (j + dir))"

definition step_index :: "int \<Rightarrow> int \<Rightarrow> string \<Rightarrow> (int \<Rightarrow> bool) \<Rightarrow> int" where
  "step_index cnt current key disabled =
     (if cnt \<le> 0 then - 1
      else let scan = (\<lambda>from dir wrap. case scan_list (nat cnt) cnt disabled dir wrap from of
               Some i \<Rightarrow> i | None \<Rightarrow> if enabled_at cnt disabled current then current else - 1) in
        if key = ''ArrowDown'' then scan (current + 1) 1 True
        else if key = ''ArrowUp'' then scan (if current < 0 then cnt - 1 else current - 1) (- 1) True
        else if key = ''Home'' then scan 0 1 False
        else if key = ''End'' then scan (cnt - 1) (- 1) False
        else if key = ''PageDown'' then scan (min (cnt - 1) (max current 0 + LIST_PAGE)) (- 1) False
        else if key = ''PageUp'' then scan (max 0 (current - LIST_PAGE)) 1 False
        else current)"

definition type_ahead :: "string list \<Rightarrow> int \<Rightarrow> string \<Rightarrow> (int \<Rightarrow> bool) \<Rightarrow> int" where
  "type_ahead labels current typed disabled =
     (if typed = [] \<or> labels = [] then - 1
      else let q = to_lower typed; cycling = length q > 1 \<and> list_all (\<lambda>c. c = hd q) q;
             needle = (if cycling then [hd q] else q);
             start = (if cycling \<or> length q = 1 then current + 1 else max current 0);
             n = int (length labels)
        in default (- 1) (List.find (\<lambda>i. \<not> disabled i \<and> starts_with needle (to_lower (labels ! nat i)))
             (map (\<lambda>k. (start + k + n) mod n) [0..n - 1])))"

definition is_context_menu_key :: "string \<Rightarrow> bool \<Rightarrow> bool" where
  "is_context_menu_key key shift \<longleftrightarrow> key = ''ContextMenu'' \<or> (key = ''F10'' \<and> shift)"


section \<open>Facts\<close>

definition in_grid :: "int \<Rightarrow> int \<Rightarrow> cell_pos \<Rightarrow> bool" where
  "in_grid rows cols p \<longleftrightarrow> 0 \<le> cp_row p \<and> cp_row p < rows \<and> 0 \<le> cp_col p \<and> cp_col p < cols"

lemma clamp_to_bounds: "0 < n \<Longrightarrow> 0 \<le> clamp_to x (n - 1) \<and> clamp_to x (n - 1) < n"
  by (auto simp: clamp_to_def)

lemma move_in_grid:
  "pred_option (in_grid rows cols) sel \<Longrightarrow> pred_option (in_grid rows cols) (move_selection rows cols k sel)"
  by (auto simp: move_selection_def in_grid_def clamp_to_bounds split: option.splits)

lemma ceil_div_bounds: "0 < b \<Longrightarrow> a \<le> ceil_div a b * b \<and> ceil_div a b * b < a + b"
proof -
  assume b: "0 < b"
  have "(- a) div b * b \<le> - a" "- a - (- a) div b * b < b"
    using b by (simp_all add: minus_mod_eq_div_mult [symmetric] minus_div_mult_eq_mod)
  then show ?thesis by (simp add: ceil_div_def)
qed

lemma div_bounds: "(0::int) < b \<Longrightarrow> a div b * b \<le> a \<and> a < a div b * b + b"
  using pos_mod_bound [of b a] pos_mod_sign [of b a] div_mult_mod_eq [of a b] by linarith

lemma rows_drawn:
  assumes "0 < h" and "0 \<le> r" and "r < n" and "1 \<le> over" and "r * h < scroll + viewport" and "scroll < (r + 1) * h"
  shows "vr_start (visible_range_of scroll viewport h n (Some over)) \<le> r \<and> r < vr_end (visible_range_of scroll viewport h n (Some over))"
proof -
  define safe where "safe = max 0 (min scroll (n * h))"
  define first where "first = safe div h"
  define shown where "shown = ceil_div (max 0 viewport) h"
  have e: "visible_range_of scroll viewport h n (Some over) =
      \<lparr>vr_start = max 0 (first - over), vr_end = min n (first + shown + over), vr_offset = max 0 (first - over) * h, vr_height = n * h\<rparr>"
    using assms by (simp add: visible_range_of_def Let_def default_def safe_def first_def shown_def)
  have "(r + 1) * h \<le> n * h" using assms by (intro mult_right_mono) auto
  then have s: "scroll \<le> n * h" using assms(6) by linarith
  have f: "first * h \<le> safe" "safe < first * h + h" using div_bounds [OF assms(1)] by (auto simp: first_def)
  have 1: "first \<le> r"
  proof (cases "safe = 0")
    case False
    then have "first * h < (r + 1) * h" using f(1) s assms(6) by (auto simp: safe_def)
    then show ?thesis using assms(1) by (simp add: mult_less_cancel_right)
  qed (use assms(2) in \<open>simp add: first_def\<close>)
  have "max 0 viewport \<le> shown * h" using ceil_div_bounds [OF assms(1)] by (simp add: shown_def)
  moreover have "r * h < safe + max 0 viewport" using assms(5) s by (auto simp: safe_def)
  ultimately have "r * h < (first + 1 + shown) * h" using f(2) unfolding distrib_right mult_1 by linarith
  then have "r < first + 1 + shown" using assms(1) by (simp add: mult_less_cancel_right)
  with 1 assms(2-4) show ?thesis unfolding e by simp
qed

text \<open>Copying a block.\<close>

lemma tsv_field_csv: "tsv_field v = csv_field TAB (default [] v)"
  by (auto simp: tsv_field_def csv_field_def default_def split: option.split)

lemma tsv_lines: "range_to_tsv rows = join [NL] (map (\<lambda>row. csv_line TAB (map (default []) row)) rows)"
proof -
  have "tsv_field = (\<lambda>v. csv_field TAB (default [] v))" by (rule ext) (rule tsv_field_csv)
  then show ?thesis by (simp add: range_to_tsv_def csv_line_def o_def)
qed

lemma good_tab: "good_delimiter TAB"
  by (simp add: good_delimiter_def TAB_def QUOTE_def NL_def CR_def)

text \<open>Moving a column.\<close>

lemma take_drop_remove: "i < length xs \<Longrightarrow> mset (take i xs @ drop (Suc i) xs) + {#xs ! i#} = mset xs"
  by (metis add.commute add_mset_add_single id_take_nth_drop mset.simps(2) mset_append union_mset_add_mset_right)

lemma move_column_mset: "mset (move_column from to ord) = mset ord"
proof (cases "from = to \<or> from < 0 \<or> to < 0 \<or> from \<ge> int (length ord) \<or> to \<ge> int (length ord)")
  case False
  define rest where "rest = take (nat from) ord @ drop (Suc (nat from)) ord"
  have "move_column from to ord = take (nat to) rest @ ord ! nat from # drop (nat to) rest"
    using False by (simp add: move_column_def rest_def Let_def)
  moreover have "mset (take (nat to) rest @ ord ! nat from # drop (nat to) rest) = mset rest + {#ord ! nat from#}"
    by (metis add_mset_add_single append_take_drop_id mset.simps(2) mset_append union_mset_add_mset_right)
  moreover have "nat from < length ord" using False by auto
  from take_drop_remove [OF this] have "mset rest + {#ord ! nat from#} = mset ord" unfolding rest_def .
  ultimately show ?thesis by argo
qed (auto simp: move_column_def)

lemma move_column_at:
  assumes "0 \<le> from" and "from < int (length ord)" and "0 \<le> to" and "to < int (length ord)"
  shows "move_column from to ord ! nat to = ord ! nat from"
  using assms by (auto simp: move_column_def Let_def nth_append min_def)

text \<open>The scan of a list.\<close>

lemma scan_list_enabled: "scan_list n cnt disabled dir wrap i = Some j \<Longrightarrow> enabled_at cnt disabled j"
  by (induction n arbitrary: i) (auto simp: Let_def split: if_splits)


lemma scan_list_wraps:
  "0 < cnt \<Longrightarrow> scan_list n cnt disabled dir True i =
     List.find (enabled_at cnt disabled) (map (\<lambda>t. (i + int t * dir) mod cnt) [0..<n])"
proof (induction n arbitrary: i)
  case (Suc n)
  have step: "(i mod cnt + dir + int t * dir) mod cnt = (i + int (Suc t) * dir) mod cnt" for t
    unfolding of_nat_Suc distrib_right mult_1 add.assoc by (rule mod_add_left_eq)
  have "map (\<lambda>t. (i + int t * dir) mod cnt) [0..<Suc n]
      = i mod cnt # map (\<lambda>t. (i mod cnt + dir + int t * dir) mod cnt) [0..<n]"
    unfolding step by (simp add: upt_conv_Cons map_Suc_upt [symmetric] o_def del: upt_Suc map_Suc_upt)
  with Suc show ?case by (simp add: Let_def del: upt_Suc)
qed simp

lemma wraps_around:
  assumes "0 < cnt" and "0 \<le> k" and "k < cnt" and "dir = 1 \<or> dir = - 1"
  shows "k \<in> set (map (\<lambda>t. (i + int t * dir) mod cnt) [0..<nat cnt])"
proof -
  define t where "t = nat ((k - i) * dir mod cnt)"
  have t: "int t = (k - i) * dir mod cnt" "t < nat cnt" using assms(1) by (auto simp: t_def)
  have "(i + int t * dir) mod cnt = (i + (k - i) * dir * dir) mod cnt"
    unfolding t(1) by (metis mod_add_right_eq mod_mult_left_eq)
  also have "\<dots> = k" using assms by auto
  finally show ?thesis using t(2) by force
qed


lemma scan_wrap_finds:
  assumes "enabled_at cnt disabled k" and "dir = 1 \<or> dir = - 1"
  shows "scan_list (nat cnt) cnt disabled dir True i \<noteq> None"
proof -
  have c: "0 < cnt" "0 \<le> k" "k < cnt" using assms(1) by (auto simp: enabled_at_def)
  have "k \<in> set (map (\<lambda>t. (i + int t * dir) mod cnt) [0..<nat cnt])" by (rule wraps_around [OF c assms(2)])
  then show ?thesis unfolding scan_list_wraps [OF c(1)] using assms(1) by (auto simp: find_None_iff simp del: set_map)
qed

lemma scan_down_finds: "enabled_at cnt disabled k \<Longrightarrow> i \<le> k \<Longrightarrow> k < i + int n \<Longrightarrow> 0 \<le> i \<Longrightarrow>
    scan_list n cnt disabled 1 False i \<noteq> None"
proof (induction n arbitrary: i)
  case (Suc n)
  show ?case
  proof (cases "k = i")
    case False
    with Suc.prems have "scan_list n cnt disabled 1 False (i + 1) \<noteq> None" by (intro Suc.IH) auto
    with Suc.prems show ?thesis by (auto simp: Let_def enabled_at_def)
  qed (use Suc.prems in \<open>auto simp: enabled_at_def Let_def\<close>)
qed simp

lemma scan_up_finds: "enabled_at cnt disabled k \<Longrightarrow> k \<le> i \<Longrightarrow> i < k + int n \<Longrightarrow> i < cnt \<Longrightarrow>
    scan_list n cnt disabled (- 1) False i \<noteq> None"
proof (induction n arbitrary: i)
  case (Suc n)
  show ?case
  proof (cases "k = i")
    case False
    with Suc.prems have "scan_list n cnt disabled (- 1) False (i - 1) \<noteq> None" by (intro Suc.IH) auto
    with Suc.prems show ?thesis by (auto simp: Let_def enabled_at_def)
  qed (use Suc.prems in \<open>auto simp: enabled_at_def Let_def\<close>)
qed simp

section \<open>Properties\<close>

text \<open>Whatever keys are pressed the selected cell stays in the grid, and a row that fits the
  viewport is whole on screen after scrolling to it.\<close>

theorem selection_stays_visible:
  assumes "pred_option (in_grid rows cols) sel" and "0 < h" and "h \<le> viewport"
  shows "pred_option (\<lambda>p. in_grid rows cols p \<and>
      (let s = default scroll (scroll_row_into_view (cp_row p) h scroll viewport)
       in s \<le> cp_row p * h \<and> (cp_row p + 1) * h \<le> s + viewport)) (fold (move_selection rows cols) keys sel)"
proof -
  have "pred_option (in_grid rows cols) (fold (move_selection rows cols) keys sel)"
    using assms(1) by (induction keys arbitrary: sel) (simp_all add: move_in_grid)
  moreover have "let s = default scroll (scroll_row_into_view r h scroll viewport)
      in s \<le> r * h \<and> (r + 1) * h \<le> s + viewport" for r
    using assms(2,3) by (simp add: scroll_row_into_view_def default_def Let_def distrib_right)
  ultimately show ?thesis by (cases "fold (move_selection rows cols) keys sel") simp_all
qed

theorem selection_stays_visible_witness:
  "pred_option (\<lambda>p. in_grid 3 2 p \<and>
      (let s = default 0 (scroll_row_into_view (cp_row p) 20 0 50)
       in s \<le> cp_row p * 20 \<and> (cp_row p + 1) * 20 \<le> s + 50)) (fold (move_selection 3 2) [''PageDown'', ''End''] None)"
  by (rule selection_stays_visible) simp_all

text \<open>Every row that shows in the viewport is drawn: with at least one row of overscan, a row whose
  pixels meet the viewport is among those rendered, wherever the grid is scrolled.\<close>

theorem shown_rows_are_drawn:
  assumes "0 < h" and "0 \<le> r" and "r < n" and "1 \<le> over" and "r * h < scroll + viewport" and "scroll < (r + 1) * h"
  shows "vr_start (visible_range_of scroll viewport h n (Some over)) \<le> r \<and> r < vr_end (visible_range_of scroll viewport h n (Some over))"
  using assms by (rule rows_drawn)

theorem shown_rows_are_drawn_witness:
  "vr_start (visible_range_of 95 40 20 100 (Some 1)) \<le> 6 \<and> 6 < vr_end (visible_range_of 95 40 20 100 (Some 1))"
  by (rule shown_rows_are_drawn) simp_all



text \<open>However columns are dragged, every column is drawn once, its values under it: the order stays
  a permutation and the dragged column lands where it was dropped.\<close>

theorem columns_drawn_once:
  "mset (fold (\<lambda>(a, b). move_column a b) drags (default_order (length items))) = mset [0..<length items]
   \<and> mset (apply_order (fold (\<lambda>(a, b). move_column a b) drags (default_order (length items))) items) = mset items"
proof -
  have m: "mset (fold (\<lambda>(a, b). move_column a b) drags ord) = mset ord" for ord
    by (induction drags arbitrary: ord) (auto simp: move_column_mset)
  define ord where "ord = fold (\<lambda>(a, b). move_column a b) drags (default_order (length items))"
  have o: "mset ord = mset [0..<length items]" using m by (simp add: ord_def default_order_def)
  then have "length ord = length items" by (metis diff_zero length_upt size_mset)
  moreover have "mset (map ((!) items) ord) = image_mset ((!) items) (mset [0..<length items])"
    using o by (simp del: mset_upt)
  moreover have "\<dots> = mset items" by (metis map_nth mset_map)
  ultimately show ?thesis using o by (simp add: ord_def [symmetric] apply_order_def)
qed

text \<open>The arrow keys, Home and End of a list reach an enabled item whenever there is one, and
  nothing otherwise.\<close>

theorem step_reaches_enabled:
  assumes "key \<in> {''ArrowDown'', ''ArrowUp'', ''Home'', ''End''}"
  shows "if list_ex (enabled_at cnt disabled) [0..cnt - 1]
    then enabled_at cnt disabled (step_index cnt current key disabled)
    else step_index cnt current key disabled = - 1"
proof -
  have none: "scan_list n cnt disabled dir wrap i = None" if "\<not> list_ex (enabled_at cnt disabled) [0..cnt - 1]" for n dir wrap i
    using scan_list_enabled [of n cnt disabled dir wrap i] that
    by (cases "scan_list n cnt disabled dir wrap i") (auto simp: list_ex_iff enabled_at_def)
  show ?thesis
  proof (cases "list_ex (enabled_at cnt disabled) [0..cnt - 1]")
    case False
    then have "\<not> enabled_at cnt disabled current" by (auto simp: list_ex_iff enabled_at_def)
    with False none assms show ?thesis by (auto simp: step_index_def Let_def)
  next
    case True
    then obtain k where k: "enabled_at cnt disabled k" by (auto simp: list_ex_iff)
    then have c: "0 \<le> k" "k < cnt" by (auto simp: enabled_at_def)
    have e: "enabled_at cnt disabled (case scan_list n cnt disabled dir wrap i of Some i \<Rightarrow> i | None \<Rightarrow> z)"
      if "scan_list n cnt disabled dir wrap i \<noteq> None" for n dir wrap i z
      using that scan_list_enabled by (auto split: option.split)
    have w: "scan_list (nat cnt) cnt disabled 1 True i \<noteq> None" "scan_list (nat cnt) cnt disabled (- 1) True i \<noteq> None" for i
      using scan_wrap_finds [OF k] by auto
    have h: "scan_list (nat cnt) cnt disabled 1 False 0 \<noteq> None" "scan_list (nat cnt) cnt disabled (- 1) False (cnt - 1) \<noteq> None"
      using scan_down_finds [OF k, of 0 "nat cnt"] scan_up_finds [OF k, of "cnt - 1" "nat cnt"] c by auto
    from assms have "enabled_at cnt disabled (step_index cnt current key disabled)"
      unfolding step_index_def Let_def using c e [OF w(1)] e [OF w(2)] e [OF h(1)] e [OF h(2)] by auto
    with True show ?thesis by simp
  qed
qed

theorem step_reaches_enabled_witness:
  "enabled_at 3 (\<lambda>i. i = 1) (step_index 3 0 ''ArrowDown'' (\<lambda>i. i = 1))"
  using step_reaches_enabled [of "''ArrowDown''" 3 "\<lambda>i. i = 1" 0] by (simp add: enabled_at_def upto.simps)

text \<open>A page typed into the pager is a page of the table: of a counted, non-empty table it starts at
  one of its rows, the pager then shows that page number, and the jump to the last page is offered
  exactly on the pages before it. The pages cover the table: every row is on the page that changing
  the page size goes to.\<close>

theorem pager_pages:
  assumes "1 \<le> psize" and "1 \<le> t"
    and p: "pager_view_of \<lparr>pi_offset = off, pi_rows = n, pi_size = psize, pi_total = Some t, pi_more = m, pi_paused = False\<rparr> = v"
    and "offset_for_page text psize (pv_pages v) = Some off"
  shows "0 \<le> off \<and> off < t \<and> whole_number (js_Number (trim text)) = Some (pv_page v) \<and>
    (pv_last v \<longleftrightarrow> pv_pages v \<noteq> Some (pv_page v)) \<and>
    (0 \<le> r \<and> r < t \<longrightarrow> offset_for_page_size r psize \<le> r \<and> r < offset_for_page_size r psize + psize \<and>
      pv_last_offset v \<noteq> None \<and> offset_for_page_size r psize \<le> the (pv_last_offset v))"
proof -
  define c where "c = ceil_div t psize"
  have s: "max 1 psize = psize" using assms(1) by simp
  have cb: "t \<le> c * psize" "c * psize < t + psize" using ceil_div_bounds [of psize t] assms(1) by (auto simp: c_def)
  have "0 < c * psize" using cb(1) assms(2) by linarith
  then have c1: "1 \<le> c" using assms(1) by (auto simp: zero_less_mult_iff)
  have v: "pv_pages v = Some c" "pv_page v = max 0 off div psize + 1" "pv_last v = (max 0 off < (c - 1) * psize)"
    "pv_last_offset v = Some ((c - 1) * psize)"
    using p c1 s by (auto simp: pager_view_of_def Let_def c_def)
  obtain page where page: "whole_number (js_Number (trim text)) = Some page" "1 \<le> page" "page \<le> c" "off = (page - 1) * psize"
    using assms(4) s by (auto simp: offset_for_page_def v(1) split: option.splits if_splits)
  have off: "0 \<le> off" "off \<le> (c - 1) * psize"
    using page assms(1) by (auto simp: mult_right_mono)
  moreover have "(c - 1) * psize < t" using cb(2) by (simp add: left_diff_distrib)
  moreover have "off div psize = page - 1" using page(4) assms(1) by simp
  moreover have "off < (c - 1) * psize \<longleftrightarrow> page \<noteq> c" using page assms(1) by auto
  moreover have "offset_for_page_size r psize \<le> r \<and> r < offset_for_page_size r psize + psize \<and> offset_for_page_size r psize \<le> (c - 1) * psize"
    if "0 \<le> r" "r < t"
  proof -
    have o: "offset_for_page_size r psize = r div psize * psize" using that s by (simp add: offset_for_page_size_def)
    have d: "r div psize * psize \<le> r" "r < r div psize * psize + psize" using div_bounds [of psize r] assms(1) by auto
    then have "r div psize * psize < c * psize" using that cb(1) by linarith
    then have "r div psize < c" using assms(1) by simp
    then have "r div psize * psize \<le> (c - 1) * psize" using assms(1) by (intro mult_right_mono) auto
    with d show ?thesis unfolding o by simp
  qed
  ultimately show ?thesis using page v by auto
qed


definition third_page :: pager_view where
  "third_page = pager_view_of \<lparr>pi_offset = 200, pi_rows = 50, pi_size = 100, pi_total = Some 250, pi_more = False, pi_paused = False\<rparr>"

theorem pager_pages_witness: "pv_page third_page = 3 \<and> \<not> pv_last third_page \<and> offset_for_page_size 230 100 \<le> the (pv_last_offset third_page)"
proof -
  have o: "offset_for_page ''3'' 100 (pv_pages third_page) = Some 200" by code_simp
  have w: "whole_number (js_Number (trim ''3'')) = Some 3" by code_simp
  have "pv_pages third_page = Some 3" by code_simp
  with pager_pages [of 100 250 200 50 False third_page "''3''" 230] o w show ?thesis by (simp add: third_page_def)
qed

end
