(* ===== verification/Shortcuts.thy ===== *)
theory Shortcuts
  imports KvStore RegexOps History
begin

text \<open>
  Keyboard shortcuts (\<open>shortcuts.ts\<close>, \<open>shortcutStore.ts\<close>): the table of actions, labels of keys and
  their parser, matching events, conflicts, and the user's overrides with their storage and
  migration. A stored text is the JSON value it denotes. The two entries of the table whose keys are
  arrows (never matched by the application) are left out: their characters are outside Latin-1, as
  are the symbols of the notation shown to the user, which is not modelled. Labels and keys are not
  names of members that every object has (\<open>constructor\<close>).
\<close>

section \<open>The table\<close>

record shortcut =
  sc_id :: string
  sc_keys :: string
  sc_description :: string
  sc_global :: bool
  sc_aliases :: "string list"
  sc_also :: "(string \<times> string) list"

definition shortcut_row :: "string \<Rightarrow> string \<Rightarrow> bool \<Rightarrow> (string \<times> string) list \<Rightarrow> shortcut" where
  "shortcut_row i k g also = \<lparr>sc_id = i, sc_keys = k, sc_description = ''sc.'' @ i, sc_global = g, sc_aliases = [], sc_also = also\<rparr>"

definition SHORTCUTS :: "shortcut list" where
  "SHORTCUTS =
    [shortcut_row ''run-query'' ''Mod+Enter'' False [],
     shortcut_row ''run-script'' ''Mod+Shift+Enter'' False [],
     shortcut_row ''explain'' ''Mod+Shift+E'' False [],
     shortcut_row ''format-sql'' ''Mod+Shift+F'' False [],
     shortcut_row ''new-tab'' ''Mod+T'' True [],
     shortcut_row ''close-tab'' ''Mod+W'' True [],
     shortcut_row ''close-all-tabs'' ''Mod+Shift+W'' True [],
     shortcut_row ''reopen-tab'' ''Mod+Shift+T'' True [],
     shortcut_row ''next-tab'' ''Ctrl+PageDown'' True [],
     shortcut_row ''prev-tab'' ''Ctrl+PageUp'' True [],
     shortcut_row ''refresh'' ''F5'' True [],
     shortcut_row ''toggle-theme'' '''' True [],
     shortcut_row ''open-settings'' ''Mod+,'' True [],
     shortcut_row ''toggle-sidebar'' ''Mod+B'' True [],
     shortcut_row ''focus-explorer'' ''Mod+Shift+E'' True [],
     shortcut_row ''toggle-history'' ''Mod+Shift+H'' True [],
     shortcut_row ''connect'' ''Mod+Shift+K'' True [],
     shortcut_row ''open-file'' ''Mod+O'' True [],
     shortcut_row ''toggle-help'' ''F1'' True [],
     shortcut_row ''command-palette'' ''Mod+K'' True [],
     shortcut_row ''object-palette'' ''Mod+P'' True [],
     shortcut_row ''snippet-palette'' ''Mod+J'' True [],
     shortcut_row ''save-snippet'' ''Mod+Shift+S'' True [],
     shortcut_row ''save-edits'' ''Mod+S'' True [],
     shortcut_row ''editor-find'' ''Mod+F'' True [],
     shortcut_row ''editor-definition'' ''F12'' False [(''mod'', ''Mod'')],
     shortcut_row ''editor-usages'' ''Shift+F12'' False [(''keys'', ''Alt+F7'')],
     shortcut_row ''editor-rename'' ''F2'' False [(''keys'', ''Shift+F6'')],
     shortcut_row ''select-rows'' ''Mod+A'' False [],
     shortcut_row ''copy-rows'' ''Mod+C'' False [],
     shortcut_row ''duplicate-rows'' ''Mod+D'' False [],
     shortcut_row ''paste-rows'' ''Mod+V'' False [],
     shortcut_row ''unmark-rows'' ''Esc'' False [],
     shortcut_row ''delete-rows'' ''Delete'' False [],
     shortcut_row ''related-row'' ''Mod+B'' False [],
     shortcut_row ''edit-cell'' ''F2'' False [],
     shortcut_row ''set-null'' ''Mod+Shift+N'' False [],
     shortcut_row ''row-detail'' ''Space'' False [],
     shortcut_row ''copy-with-headers'' ''Mod+Shift+C'' False [],
     shortcut_row ''pin-result'' ''Mod+Shift+P'' True [],
     shortcut_row ''view-data'' ''Alt+1'' True [],
     shortcut_row ''view-structure'' ''Alt+2'' True [],
     shortcut_row ''view-indexes'' ''Alt+3'' True [],
     shortcut_row ''view-ddl'' ''Alt+4'' True [],
     shortcut_row ''add-condition'' ''Shift+Enter'' False [],
     shortcut_row ''filter-add-condition'' ''Mod+Shift+L'' True [],
     shortcut_row ''filter-add-sort'' ''Mod+Shift+O'' True [],
     shortcut_row ''select-next-occurrence'' ''Mod+D'' False [],
     shortcut_row ''select-all-occurrences'' ''Mod+Shift+L'' False [],
     shortcut_row ''expand-template'' ''Tab'' False [],
     shortcut_row ''tx-commit'' ''Alt+Shift+C'' True [],
     shortcut_row ''tx-rollback'' ''Alt+Shift+R'' True [],
     shortcut_row ''cancel-query'' ''Mod+Pause'' True [],
     shortcut_row ''zoom-in'' ''Mod++'' True [],
     shortcut_row ''zoom-out'' ''Mod+-'' True [],
     shortcut_row ''zoom-reset'' ''Mod+0'' True []]"

section \<open>Labels of keys\<close>

record combo =
  cb_mod :: bool
  cb_alt :: bool
  cb_shift :: bool
  cb_key :: string

datatype modifier_flag = Mod_Flag | Alt_Flag | Shift_Flag

definition MODIFIER_TOKENS :: "(string \<times> modifier_flag) list" where
  "MODIFIER_TOKENS = [(''mod'', Mod_Flag), (''ctrl'', Mod_Flag), (''control'', Mod_Flag), (''meta'', Mod_Flag), (''cmd'', Mod_Flag),
     (''command'', Mod_Flag), (''alt'', Alt_Flag), (''option'', Alt_Flag), (''shift'', Shift_Flag)]"

definition KEY_NAMES :: "(string \<times> string) list" where
  "KEY_NAMES = [(''escape'', ''Esc''), (''esc'', ''Esc''), ('' '', ''Space''), (''spacebar'', ''Space''), (''cancel'', ''Pause''), (''break'', ''Pause'')]"

definition normalize_key :: "string \<Rightarrow> string" where
  "normalize_key k =
     (case map_of KEY_NAMES (to_lower k) of Some n \<Rightarrow> n | None \<Rightarrow> if length k = 1 then to_upper k else k)"

definition is_character :: "string \<Rightarrow> bool" where
  "is_character k \<longleftrightarrow> length k = 1"

definition is_alphanumeric :: "string \<Rightarrow> bool" where
  "is_alphanumeric k \<longleftrightarrow> length k = 1 \<and> (is_upper_az (hd k) \<or> is_lower_az (hd k) \<or> is_digit (hd k))"

definition set_flag :: "modifier_flag \<Rightarrow> combo \<Rightarrow> combo" where
  "set_flag f c = (case f of Mod_Flag \<Rightarrow> c\<lparr>cb_mod := True\<rparr> | Alt_Flag \<Rightarrow> c\<lparr>cb_alt := True\<rparr> | Shift_Flag \<Rightarrow> c\<lparr>cb_shift := True\<rparr>)"

fun set_flags :: "string list \<Rightarrow> combo \<Rightarrow> combo option" where
  "set_flags [] c = Some c"
| "set_flags (p # ps) c =
     (case map_of MODIFIER_TOKENS (to_lower (trim p)) of None \<Rightarrow> None | Some f \<Rightarrow> set_flags ps (set_flag f c))"

text \<open>The key of the parts of a label and the parts before it: a trailing plus is the plus key.\<close>

definition label_parts :: "string \<Rightarrow> string \<times> string list" where
  "label_parts keys =
     (let all = split_on (CHR ''+'') keys; key = last all; parts = butlast all in
      if key = [] \<and> parts \<noteq> [] \<and> last parts = [] then (''+'', butlast parts) else (key, parts))"

definition parse_combo :: "string \<Rightarrow> combo option" where
  "parse_combo keys =
     (case label_parts keys of (k, parts) \<Rightarrow>
        (let key = trim k in
         if key = [] then None
         else map_option (\<lambda>c. if is_character (cb_key c) \<and> \<not> is_alphanumeric (cb_key c) then c\<lparr>cb_shift := False\<rparr> else c)
           (set_flags parts \<lparr>cb_mod = False, cb_alt = False, cb_shift = False, cb_key = normalize_key key\<rparr>)))"

definition format_combo :: "combo \<Rightarrow> string" where
  "format_combo c = join ''+''
     ((if cb_mod c then [''Mod''] else []) @ (if cb_alt c then [''Alt''] else []) @ (if cb_shift c then [''Shift''] else []) @ [cb_key c])"

definition normalize_keys :: "string \<Rightarrow> string option" where
  "normalize_keys keys = map_option format_combo (parse_combo keys)"

section \<open>Events\<close>

record key_event =
  ke_key :: string
  ke_ctrl :: bool
  ke_meta :: bool
  ke_shift :: bool
  ke_alt :: bool
  ke_code :: "string option"

text \<open>\<open>/^(?:Key|Digit)([A-Z0-9])$/\<close>.\<close>

definition code_char :: "string option \<Rightarrow> string option" where
  "code_char cd =
     (let s = default [] cd; one_of = (\<lambda>r. if length r = 1 \<and> (is_upper_az (hd r) \<or> is_digit (hd r)) then Some r else None) in
      if starts_with ''Key'' s then one_of (drop 3 s) else if starts_with ''Digit'' s then one_of (drop 5 s) else None)"

definition event_key :: "key_event \<Rightarrow> string" where
  "event_key e =
     (let key = normalize_key (ke_key e) in
      if \<not> ke_alt e \<or> is_alphanumeric key then key else default key (code_char (ke_code e)))"

definition matches_combo :: "combo \<Rightarrow> key_event \<Rightarrow> bool" where
  "matches_combo c e \<longleftrightarrow>
     (let key = event_key e in
      if cb_mod c \<noteq> (ke_ctrl e \<or> ke_meta e) \<or> cb_alt c \<noteq> ke_alt e then False
      else if is_character (cb_key c) \<and> \<not> is_alphanumeric (cb_key c)
      then cb_key c = key \<or> (cb_key c = ''+'' \<and> key = ''='')
      else if cb_shift c \<noteq> ke_shift e then False
      else if is_character (cb_key c) then cb_key c = key else to_lower (cb_key c) = to_lower key)"

definition MODIFIER_KEYS :: "string list" where
  "MODIFIER_KEYS = [''control'', ''shift'', ''alt'', ''meta'', ''os'', ''altgraph'', ''dead'', ''unidentified'', ''process'']"

definition event_combo :: "key_event \<Rightarrow> combo" where
  "event_combo e = \<lparr>cb_mod = ke_ctrl e \<or> ke_meta e, cb_alt = ke_alt e, cb_shift = ke_shift e, cb_key = event_key e\<rparr>"

definition combo_from_event :: "key_event \<Rightarrow> string option" where
  "combo_from_event e =
     (if ke_key e = [] \<or> to_lower (ke_key e) \<in> set MODIFIER_KEYS then None
      else normalize_keys (format_combo (event_combo e)))"

datatype combo_error = Unparsable | Bare_Key

definition validate_combo :: "string \<Rightarrow> combo_error option" where
  "validate_combo keys =
     (case parse_combo keys of None \<Rightarrow> Some Unparsable
      | Some c \<Rightarrow> if is_character (cb_key c) \<and> \<not> cb_mod c \<and> \<not> cb_alt c then Some Bare_Key else None)"

definition labels_of :: "shortcut \<Rightarrow> string list" where
  "labels_of sc = List.map_filter normalize_keys (sc_keys sc # sc_aliases sc)"

definition find_key_conflicts :: "string \<Rightarrow> string \<Rightarrow> shortcut list \<Rightarrow> shortcut list" where
  "find_key_conflicts keys i table =
     (case normalize_keys keys of None \<Rightarrow> []
      | Some wanted \<Rightarrow> filter (\<lambda>sc. sc_id sc \<noteq> i \<and> wanted \<in> set (labels_of sc)) table)"

section \<open>Overrides\<close>

type_synonym overrides = "string obj"

definition shortcut_by_id :: "string \<Rightarrow> shortcut option" where
  "shortcut_by_id i = List.find (\<lambda>sc. sc_id sc = i) SHORTCUTS"

definition is_rebindable :: "shortcut \<Rightarrow> bool" where
  "is_rebindable sc \<longleftrightarrow> sc_global sc"

definition set_override :: "string \<Rightarrow> string \<Rightarrow> overrides \<Rightarrow> overrides" where
  "set_override i keys ov =
     (case shortcut_by_id i of None \<Rightarrow> obj_del i ov
      | Some base \<Rightarrow>
          if \<not> is_rebindable base then obj_del i ov
          else if keys = [] \<and> sc_keys base \<noteq> [] then obj_set i [] ov
          else (case normalize_keys keys of None \<Rightarrow> obj_del i ov
            | Some canon \<Rightarrow>
                if validate_combo keys \<noteq> None \<or> Some canon = normalize_keys (sc_keys base) then obj_del i ov
                else obj_set i canon ov))"

definition parse_member :: "string \<times> json \<Rightarrow> overrides \<Rightarrow> overrides" where
  "parse_member m ov =
     (case snd m of JStr keys \<Rightarrow> if shortcut_by_id (fst m) \<noteq> None then set_override (fst m) keys ov else ov | _ \<Rightarrow> ov)"

definition parse_overrides :: "json option \<Rightarrow> overrides" where
  "parse_overrides raw =
     (case raw of Some (JObj members) \<Rightarrow> fold parse_member members []
      | _ \<Rightarrow> [])"

definition serialize_overrides :: "overrides \<Rightarrow> json" where
  "serialize_overrides ov = JObj (map (\<lambda>(i, k). (i, JStr k)) ov)"

definition SHORTCUTS_VERSION :: int where "SHORTCUTS_VERSION = 2"

definition V1_CHANGED :: "(string \<times> string) list" where
  "V1_CHANGED = [(''tx-commit'', ''Mod+Alt+C''), (''tx-rollback'', ''Mod+Alt+R''), (''toggle-theme'', ''Mod+Alt+L''), (''open-file'', []),
     (''open-settings'', []), (''toggle-sidebar'', []), (''focus-explorer'', []), (''toggle-history'', []), (''connect'', []),
     (''reopen-tab'', []), (''close-all-tabs'', [])]"

definition default_keys :: "string \<Rightarrow> string option" where
  "default_keys i = normalize_keys (case shortcut_by_id i of None \<Rightarrow> [] | Some sc \<Rightarrow> sc_keys sc)"

definition migrate_step :: "string set \<Rightarrow> string \<Rightarrow> overrides \<Rightarrow> overrides" where
  "migrate_step taken i ov =
     (case default_keys i of None \<Rightarrow> ov
      | Some keys \<Rightarrow> if \<not> has_key ov i \<and> keys \<in> taken then set_override i [] ov else ov)"

definition taken_keys :: "overrides \<Rightarrow> string set" where
  "taken_keys ov = set (List.map_filter (\<lambda>(i, k). normalize_keys k) ov)"

definition migrate_overrides :: "overrides \<Rightarrow> int \<Rightarrow> overrides" where
  "migrate_overrides ov from =
     (if from \<ge> SHORTCUTS_VERSION then ov else fold (migrate_step (taken_keys ov)) (map fst V1_CHANGED) ov)"

definition clear_override :: "string \<Rightarrow> overrides \<Rightarrow> overrides" where
  "clear_override i ov = obj_del i ov"

definition effective_shortcuts :: "overrides \<Rightarrow> shortcut list \<Rightarrow> shortcut list" where
  "effective_shortcuts ov base =
     map (\<lambda>sc. case map_of ov (sc_id sc) of None \<Rightarrow> sc
       | Some keys \<Rightarrow> if \<not> is_rebindable sc then sc else sc\<lparr>sc_keys := keys, sc_aliases := []\<rparr>) base"

definition match_shortcut :: "key_event \<Rightarrow> shortcut list \<Rightarrow> string option" where
  "match_shortcut e table =
     map_option sc_id (List.find (\<lambda>sc. sc_global sc \<and>
       list_ex (\<lambda>l. case parse_combo l of None \<Rightarrow> False | Some c \<Rightarrow> matches_combo c e) (sc_keys sc # sc_aliases sc)) table)"

section \<open>Storage\<close>

definition SHORTCUTS_KEY :: string where "SHORTCUTS_KEY = ''quaero.shortcuts''"
definition VERSION_KEY :: string where "VERSION_KEY = ''quaero.shortcuts.version''"

text \<open>One \<open>try\<close> around both writes.\<close>

definition save_shortcuts :: "('k, json) kv_ops \<Rightarrow> overrides \<Rightarrow> 'k \<Rightarrow> 'k" where
  "save_shortcuts kv ov s =
     (case kv_set kv SHORTCUTS_KEY (serialize_overrides ov) s of None \<Rightarrow> s
      | Some s1 \<Rightarrow> default s1 (kv_set kv VERSION_KEY (JNum SHORTCUTS_VERSION) s1))"

text \<open>\<open>Number\<close> of what is stored as the version: the text of a whole number, or not a number.\<close>

definition stored_version :: "json option \<Rightarrow> int option" where
  "stored_version raw = (case raw of None \<Rightarrow> Some 1 | Some j \<Rightarrow> json_num (Some j))"

definition load_shortcuts :: "('k, json) kv_ops \<Rightarrow> 'k \<Rightarrow> overrides \<times> 'k" where
  "load_shortcuts kv s =
     (case (kv_get kv s SHORTCUTS_KEY, kv_get kv s VERSION_KEY) of
        (Some raw, Some ver) \<Rightarrow>
          (let parsed = parse_overrides raw in
           if raw = None \<or> (case stored_version ver of None \<Rightarrow> False | Some n \<Rightarrow> n \<ge> SHORTCUTS_VERSION) then (parsed, s)
           else let migrated = (case stored_version ver of None \<Rightarrow> migrate_overrides parsed 1 | Some n \<Rightarrow> migrate_overrides parsed n)
             in (migrated, save_shortcuts kv migrated s))
      | _ \<Rightarrow> ([], s))"

section \<open>Keys in their canonical spelling\<close>

definition key_ok :: "string \<Rightarrow> bool" where
  "key_ok k \<longleftrightarrow> k \<noteq> [] \<and> trim k = k \<and> normalize_key k = k \<and> (CHR ''+'' \<notin> set k \<or> k = ''+'')"

text \<open>A key before it is spelled canonically.\<close>

definition plain_key :: "string \<Rightarrow> bool" where
  "plain_key k \<longleftrightarrow> k \<noteq> [] \<and> trim k = k \<and> (CHR ''+'' \<notin> set k \<or> k = ''+'')"

lemma code_char [simp]: "n < 256 \<Longrightarrow> code (char_of n) = n"
  by (simp add: of_char_of)

lemma upper_letter:
  assumes "upper_char c = [d]"
  shows "upper_char d = [d] \<and> (is_space d \<longrightarrow> d = c)"
proof (cases "is_lower_az c \<or> (224 \<le> code c \<and> code c \<le> 254 \<and> code c \<noteq> 247)")
  case True
  then have n: "d = char_of (code c - 32)" "code c \<le> 254" "97 \<le> code c" "code c \<le> 122 \<or> 224 \<le> code c" "code c \<noteq> 247"
    using assms by (auto simp: upper_char_def is_lower_az_def split: if_splits)
  then have d: "code d = code c - 32" by simp
  show ?thesis unfolding upper_char_def is_lower_az_def is_space_def d using n by auto
next
  case False
  then show ?thesis using assms by (auto simp: upper_char_def split: if_splits)
qed

lemma lower_space: "lower_char c = CHR '' '' \<longleftrightarrow> c = CHR '' ''"
proof
  assume l: "lower_char c = CHR '' ''"
  show "c = CHR '' ''"
  proof (rule ccontr)
    assume n: "c \<noteq> CHR '' ''"
    then have u: "is_upper_az c \<or> (192 \<le> code c \<and> code c \<le> 222 \<and> code c \<noteq> 215)"
      using l by (auto simp: lower_char_def split: if_splits)
    then have "lower_char c = char_of (code c + 32)" "97 \<le> code c + 32" "code c + 32 < 256"
      by (auto simp: lower_char_def is_upper_az_def)
    then have "97 \<le> code (lower_char c)" by simp
    then show False unfolding l by simp
  qed
next
  show "c = CHR '' '' \<Longrightarrow> lower_char c = CHR '' ''" by (simp only:, code_simp)
qed

lemma key_name_single: "map_of KEY_NAMES (to_lower [c]) = (if c = CHR '' '' then Some ''Space'' else None)"
  using lower_space [of c] by (simp add: KEY_NAMES_def to_lower_def)

lemma single_key_ok:
  assumes "\<not> is_space c"
  shows "key_ok (normalize_key [c])"
proof -
  have c: "c \<noteq> CHR '' ''" using assms by (auto simp: is_space_def)
  then have n: "normalize_key [c] = upper_char c" by (simp add: normalize_key_def key_name_single to_upper_def)
  show ?thesis
  proof (cases "code c = 223")
    case True
    then have "upper_char c = ''SS''" by (simp add: upper_char_def)
    moreover have "key_ok ''SS''" by code_simp
    ultimately show ?thesis unfolding n by simp
  next
    case False
    then have "\<exists>d. upper_char c = [d]" by (simp add: upper_char_def)
    then obtain d where d: "upper_char c = [d]" ..
    from upper_letter [OF d] assms have u: "upper_char d = [d]" "\<not> is_space d" by auto
    then have "d \<noteq> CHR '' ''" by (auto simp: is_space_def)
    with u show ?thesis unfolding n d
      by (auto simp: key_ok_def normalize_key_def key_name_single to_upper_def trim_def trim_start_def trim_end_def)
  qed
qed

lemma named_keys_ok: "map_of KEY_NAMES k = Some n \<Longrightarrow> key_ok n"
proof -
  have "list_all (\<lambda>(k, n). n \<noteq> [] \<and> trim n = n \<and> normalize_key n = n \<and> (CHR ''+'' \<notin> set n \<or> n = ''+'')) KEY_NAMES" by code_simp
  then show "map_of KEY_NAMES k = Some n \<Longrightarrow> key_ok n"
    by (auto simp: list_all_iff key_ok_def dest!: map_of_SomeD)
qed

lemma normalized_key_ok: "plain_key k \<Longrightarrow> key_ok (normalize_key k)"
proof -
  assume k: "plain_key k"
  consider n where "map_of KEY_NAMES (to_lower k) = Some n" | c where "k = [c]" "map_of KEY_NAMES (to_lower k) = None"
    | "length k \<noteq> 1" "map_of KEY_NAMES (to_lower k) = None"
    by (cases "map_of KEY_NAMES (to_lower k)"; cases "length k = 1") (auto simp: length_Suc_conv)
  then show ?thesis
  proof cases
    case 1
    then show ?thesis using named_keys_ok by (simp add: normalize_key_def)
  next
    case 2
    have "\<not> is_space c" using k by (auto simp: plain_key_def 2(1) trim_def trim_start_def trim_end_def)
    then show ?thesis using single_key_ok unfolding 2(1) by simp
  next
    case 3
    then have "normalize_key k = k" by (simp add: normalize_key_def)
    then show ?thesis using k by (simp add: key_ok_def plain_key_def)
  qed
qed

definition drop_shift :: "combo \<Rightarrow> combo" where
  "drop_shift c = (if is_character (cb_key c) \<and> \<not> is_alphanumeric (cb_key c) then c\<lparr>cb_shift := False\<rparr> else c)"

lemma drop_shift_simps [simp]: "cb_key (drop_shift c) = cb_key c" "cb_mod (drop_shift c) = cb_mod c"
  "cb_alt (drop_shift c) = cb_alt c" "drop_shift (drop_shift c) = drop_shift c"
  by (simp_all add: drop_shift_def)

definition modifier_names :: "combo \<Rightarrow> string list" where
  "modifier_names c = (if cb_mod c then [''Mod''] else []) @ (if cb_alt c then [''Alt''] else []) @ (if cb_shift c then [''Shift''] else [])"

lemma label_parts_join:
  assumes "CHR ''+'' \<notin> set k \<and> k \<noteq> [] \<or> k = ''+''" and "\<forall>x \<in> set ms. CHR ''+'' \<notin> set x \<and> x \<noteq> []"
  shows "label_parts (join ''+'' (ms @ [k])) = (k, ms)"
proof (cases "k = ''+''")
  case False
  then have "split_on (CHR ''+'') (join ''+'' (ms @ [k])) = ms @ [k]"
    using assms by (intro split_on_join) auto
  then show ?thesis using False assms by (simp add: label_parts_def Let_def)
next
  case True
  have "join ''+'' (ms @ [''+'']) = join ''+'' (ms @ [[], []])" by (induction ms rule: induct_list012) auto
  moreover have "split_on (CHR ''+'') (join ''+'' (ms @ [[], []])) = ms @ [[], []]"
    using assms by (intro split_on_join) auto
  ultimately show ?thesis using True by (simp add: label_parts_def Let_def butlast_append)
qed

lemma set_flags_names:
  "set_flags (modifier_names c) \<lparr>cb_mod = False, cb_alt = False, cb_shift = False, cb_key = cb_key c\<rparr> = Some c"
proof -
  have "map_of MODIFIER_TOKENS (to_lower (trim ''Mod'')) = Some Mod_Flag"
    "map_of MODIFIER_TOKENS (to_lower (trim ''Alt'')) = Some Alt_Flag"
    "map_of MODIFIER_TOKENS (to_lower (trim ''Shift'')) = Some Shift_Flag" by code_simp+
  then show ?thesis by (cases c) (simp add: modifier_names_def set_flag_def)
qed

lemma parse_format: "key_ok (cb_key c) \<Longrightarrow> parse_combo (format_combo c) = Some (drop_shift c)"
proof -
  assume k: "key_ok (cb_key c)"
  have "label_parts (format_combo c) = (cb_key c, modifier_names c)"
    using label_parts_join [of "cb_key c" "modifier_names c"] k
    by (auto simp: format_combo_def modifier_names_def key_ok_def)
  then show ?thesis
    using k set_flags_names [of c] by (auto simp: parse_combo_def key_ok_def Let_def drop_shift_def)
qed

lemma set_flags_key: "set_flags ps c = Some c' \<Longrightarrow> cb_key c' = cb_key c"
  by (induction ps arbitrary: c) (auto simp: set_flag_def split: option.splits modifier_flag.splits)

lemma parsed_key_ok:
  assumes "parse_combo keys = Some c"
  shows "key_ok (cb_key c) \<and> drop_shift c = c"
proof -
  obtain k parts where p: "label_parts keys = (k, parts)" by (cases "label_parts keys")
  have "k = ''+'' \<or> CHR ''+'' \<notin> set k"
    using p split_on_no_sep [of "last (split_on (CHR ''+'') keys)" "CHR ''+''" keys]
    by (auto simp: label_parts_def Let_def split: if_splits)
  then have "trim k = ''+'' \<or> CHR ''+'' \<notin> set (trim k)"
  proof
    assume "k = ''+''"
    moreover have "trim ''+'' = ''+''" by code_simp
    ultimately show ?thesis by simp
  next
    assume "CHR ''+'' \<notin> set k"
    moreover obtain u w where "k = u @ trim k @ w" using trim_decomp by blast
    ultimately show ?thesis by (metis Un_iff set_append)
  qed
  then have "trim k \<noteq> [] \<Longrightarrow> plain_key (trim k)" using trim_trim [of k] by (auto simp: plain_key_def)
  then show ?thesis
    using assms p normalized_key_ok [of "trim k"] set_flags_key
    by (auto simp: parse_combo_def Let_def drop_shift_def split: if_splits)
qed


lemma event_key_ok: "plain_key (ke_key e) \<or> ke_key e = '' '' \<Longrightarrow> key_ok (event_key e)"
proof -
  assume e: "plain_key (ke_key e) \<or> ke_key e = '' ''"
  have "key_ok (normalize_key '' '')" by code_simp
  then have n: "key_ok (normalize_key (ke_key e))" using e normalized_key_ok by auto
  have "key_ok k" if "code_char cd = Some k" for cd k
  proof -
    have "length k = 1" "is_upper_az (hd k) \<or> is_digit (hd k)"
      using that by (auto simp: code_char_def Let_def split: if_splits)
    then obtain c where c: "k = [c]" "is_upper_az c \<or> is_digit c" by (cases k) auto
    then have "upper_char c = [c]" "\<not> is_space c" by (auto simp: upper_char_def is_upper_az_def is_digit_def is_lower_az_def is_space_def)
    moreover from this have "c \<noteq> CHR '' ''" by (auto simp: is_space_def)
    ultimately show ?thesis
      by (auto simp: c(1) key_ok_def normalize_key_def key_name_single to_upper_def trim_def trim_start_def trim_end_def)
  qed
  with n show ?thesis by (cases "code_char (ke_code e)") (auto simp: event_key_def Let_def)
qed

section \<open>Overrides that are real changes\<close>

definition real_override :: "string \<times> string \<Rightarrow> bool" where
  "real_override ik \<longleftrightarrow> (case shortcut_by_id (fst ik) of None \<Rightarrow> False
     | Some base \<Rightarrow> is_rebindable base \<and>
         (if snd ik = [] then sc_keys base \<noteq> []
          else normalize_keys (snd ik) = Some (snd ik) \<and> validate_combo (snd ik) = None \<and>
            Some (snd ik) \<noteq> normalize_keys (sc_keys base)))"

definition wf_overrides :: "overrides \<Rightarrow> bool" where
  "wf_overrides ov \<longleftrightarrow> wf_obj ov \<and> list_all real_override ov"

lemma normalize_twice: "normalize_keys keys = Some k \<Longrightarrow> normalize_keys k = Some k \<and> parse_combo k = parse_combo keys"
  using parsed_key_ok parse_format by (auto simp: normalize_keys_def)

lemma format_not_Nil: "cb_key c \<noteq> [] \<Longrightarrow> format_combo c \<noteq> []"
  by (auto simp: format_combo_def)

lemma normalized_not_Nil: "normalize_keys keys = Some k \<Longrightarrow> k \<noteq> []"
  using parsed_key_ok format_not_Nil by (fastforce simp: normalize_keys_def key_ok_def)

lemma validate_normalized: "normalize_keys keys = Some k \<Longrightarrow> validate_combo k = validate_combo keys"
  using normalize_twice by (simp add: validate_combo_def)

lemma in_obj_set: "wf_obj ov \<Longrightarrow> p \<in> set (obj_set i v ov) \<Longrightarrow> p = (i, v) \<or> p \<in> set ov \<and> fst p \<noteq> i"
proof -
  assume w: "wf_obj ov" and p: "p \<in> set (obj_set i v ov)"
  have "wf_obj (obj_set i v ov)" using w by simp
  then have "map_of (obj_set i v ov) (fst p) = Some (snd p)"
    using p unfolding wf_obj_def by (metis map_of_is_SomeI prod.collapse)
  then show ?thesis by (cases p) (auto split: if_splits dest: map_of_SomeD)
qed

lemma wf_set_entry: "wf_overrides ov \<Longrightarrow> real_override (i, k) \<Longrightarrow> wf_overrides (obj_set i k ov)"
  using in_obj_set by (fastforce simp: wf_overrides_def list_all_iff)

lemma wf_drop_entry: "wf_overrides ov \<Longrightarrow> wf_overrides (obj_del i ov)"
  by (auto simp: wf_overrides_def list_all_iff obj_del_def wf_obj_def) (metis distinct_map_filter)

lemma wf_set_override: "wf_overrides ov \<Longrightarrow> wf_overrides (set_override i keys ov)"
proof (cases "shortcut_by_id i")
  case None
  then show "wf_overrides ov \<Longrightarrow> ?thesis" by (simp add: set_override_def wf_drop_entry)
next
  case (Some base)
  assume w: "wf_overrides ov"
  show ?thesis
  proof (cases "normalize_keys keys")
    case None
    then show ?thesis using w Some by (auto simp: set_override_def real_override_def intro!: wf_drop_entry wf_set_entry)
  next
    case k: (Some k)
    have "k \<noteq> []" "normalize_keys k = Some k" "validate_combo k = validate_combo keys"
      using normalized_not_Nil [OF k] normalize_twice [OF k] validate_normalized [OF k] by auto
    then show ?thesis using w Some k by (auto simp: set_override_def real_override_def intro!: wf_drop_entry wf_set_entry)
  qed
qed

lemma wf_parse: "wf_overrides (parse_overrides raw)"
proof -
  have "wf_overrides (fold parse_member ms ov)"
    if "wf_overrides ov" for ms ov
    using that by (induction ms arbitrary: ov) (auto simp: parse_member_def wf_set_override split: json.split)
  then show ?thesis by (auto simp: parse_overrides_def wf_overrides_def split: option.split json.split)
qed

text \<open>Reading back: an override that is a real change is set as it is.\<close>

lemma set_real: "real_override (i, k) \<Longrightarrow> set_override i k ov = obj_set i k ov"
  by (auto simp: real_override_def set_override_def split: option.splits if_splits dest: normalized_not_Nil)

lemma ids_not_numbers: "shortcut_by_id i \<noteq> None \<Longrightarrow> array_index i = None"
proof -
  have "list_all (\<lambda>sc. array_index (sc_id sc) = None) SHORTCUTS" by code_simp
  then show "shortcut_by_id i \<noteq> None \<Longrightarrow> array_index i = None"
    by (auto simp: shortcut_by_id_def list_all_iff find_Some_iff)
qed

lemma obj_insert_end: "array_index k = None \<Longrightarrow> obj_insert k v ob = ob @ [(k, v)]"
  by (induction ob) (auto simp: key_before_def)

lemma read_back_step:
  "wf_obj (seen @ ov) \<Longrightarrow> list_all real_override ov \<Longrightarrow>
     fold parse_member (map (\<lambda>(i, k). (i, JStr k)) ov) seen = seen @ ov"
proof (induction ov arbitrary: seen)
  case (Cons ik ov)
  obtain i k where ik: "ik = (i, k)" by (cases ik)
  have r: "real_override (i, k)" using Cons.prems(2) ik by simp
  then have s: "shortcut_by_id i \<noteq> None" by (auto simp: real_override_def split: option.splits)
  have "\<not> has_key seen i" using Cons.prems(1) ik by (auto simp: wf_obj_def has_key_def)
  then have "parse_member (i, JStr k) seen = seen @ [(i, k)]"
    using s set_real [OF r] obj_insert_end [OF ids_not_numbers [OF s]] by (simp add: parse_member_def obj_set_def)
  then show ?case using Cons.IH [of "seen @ [(i, k)]"] Cons.prems ik by simp
qed simp

lemma read_back: "wf_overrides ov \<Longrightarrow> parse_overrides (Some (serialize_overrides ov)) = ov"
  using read_back_step [of "[]" ov] by (simp add: parse_overrides_def serialize_overrides_def wf_overrides_def)

section \<open>Migration\<close>

lemma migrate_step_kept:
  "has_key ov j \<Longrightarrow> map_of (migrate_step taken i ov) j = map_of ov j"
  by (auto simp: migrate_step_def set_override_def default_keys_def normalize_keys_def has_key_def
      split: option.split dest: weak_map_of_SomeI)

lemma migrate_step_other: "j \<noteq> i \<Longrightarrow> map_of (migrate_step taken i ov) j = map_of ov j"
  by (auto simp: migrate_step_def set_override_def split: option.split)

lemma changed_rebindable: "i \<in> set (map fst V1_CHANGED) \<Longrightarrow> default_keys i = Some d \<Longrightarrow> set_override i [] ov = obj_set i [] ov"
proof -
  assume i: "i \<in> set (map fst V1_CHANGED)" and d: "default_keys i = Some d"
  have "list_all (\<lambda>i. case shortcut_by_id i of None \<Rightarrow> False | Some b \<Rightarrow> is_rebindable b) (map fst V1_CHANGED)" by code_simp
  then obtain b where b: "shortcut_by_id i = Some b" "is_rebindable b"
    using i by (auto simp: list_all_iff split: option.splits)
  have "normalize_keys [] = None" by code_simp
  then have "sc_keys b \<noteq> []" using d b(1) by (auto simp: default_keys_def)
  with b show ?thesis by (simp add: set_override_def)
qed

lemma migrate_fold_kept: "has_key ov j \<Longrightarrow> map_of (fold (migrate_step taken) is ov) j = map_of ov j"
proof (induction "is" arbitrary: ov)
  case (Cons i "is")
  then have "map_of (migrate_step taken i ov) j = map_of ov j" by (intro migrate_step_kept)
  with Cons show ?case by (simp add: has_key_map_of)
qed simp

lemma migrate_fold_unbound:
  assumes "i \<in> set is" and "map_of ov i = None" and "default_keys i = Some d" and "d \<in> taken" and "i \<in> set (map fst V1_CHANGED)"
  shows "map_of (fold (migrate_step taken) is ov) i = Some []"
  using assms(1,2)
proof (induction "is" arbitrary: ov)
  case (Cons j "is")
  show ?case
  proof (cases "j = i")
    case True
    have "migrate_step taken i ov = obj_set i [] ov"
      using Cons.prems(2) assms(3-5) changed_rebindable by (simp add: migrate_step_def has_key_map_of)
    then show ?thesis using migrate_fold_kept [of "obj_set i [] ov" i taken "is"] True by (simp add: has_key_map_of)
  next
    case False
    then have "map_of (migrate_step taken j ov) i = None" using Cons.prems(2) migrate_step_other by metis
    with Cons False show ?thesis by simp
  qed
qed simp

lemma wf_migrate: "wf_overrides ov \<Longrightarrow> wf_overrides (migrate_overrides ov from)"
proof -
  have "wf_overrides (fold (migrate_step taken) is ov)" if "wf_overrides ov" for taken "is" ov
    using that by (induction "is" arbitrary: ov) (auto simp: migrate_step_def wf_set_override split: option.split)
  then show "wf_overrides ov \<Longrightarrow> ?thesis" by (simp add: migrate_overrides_def)
qed

section \<open>Properties\<close>

text \<open>A key press captured for a binding is matched by that binding: whatever modifiers are down, the
  label stored for the event reads as keys that the same event matches.\<close>

theorem captured_keys_match:
  assumes "plain_key (ke_key e) \<or> ke_key e = '' ''" and "combo_from_event e = Some k"
  shows "\<exists>c. parse_combo k = Some c \<and> matches_combo c e"
proof -
  have ok: "key_ok (cb_key (event_combo e))" using event_key_ok [OF assms(1)] by (simp add: event_combo_def)
  have "normalize_keys (format_combo (event_combo e)) = Some k"
    using assms(2) by (simp add: combo_from_event_def split: if_splits)
  then have "parse_combo k = Some (drop_shift (event_combo e))"
    using normalize_twice parse_format [OF ok] by metis
  moreover have "matches_combo (drop_shift (event_combo e)) e"
    by (auto simp: matches_combo_def drop_shift_def event_combo_def Let_def)
  ultimately show ?thesis by blast
qed

definition ctrl_key :: "string \<Rightarrow> bool \<Rightarrow> key_event" where
  "ctrl_key k shift = \<lparr>ke_key = k, ke_ctrl = True, ke_meta = False, ke_shift = shift, ke_alt = False, ke_code = None\<rparr>"

theorem captured_keys_match_witness: "\<exists>c. parse_combo ''Mod+Shift+F'' = Some c \<and> matches_combo c (ctrl_key ''f'' True)"
  by (rule captured_keys_match; code_simp)

text \<open>C38. What is kept of the user's shortcuts are real changes and nothing else, whatever is stored: a
  rebindable action, keys in their canonical spelling that may be global and are not the default, or
  no key for an action that has one. Binding, unbinding, clearing and migrating keep it so, and what
  is written is what is read.\<close>

theorem overrides_stay_real:
  assumes "wf_overrides ov"
  shows "wf_overrides (parse_overrides raw) \<and> wf_overrides (set_override i keys ov) \<and> wf_overrides (clear_override i ov) \<and>
    wf_overrides (migrate_overrides ov from) \<and> parse_overrides (Some (serialize_overrides ov)) = ov"
  using assms wf_parse wf_set_override wf_migrate wf_drop_entry read_back by (simp add: clear_override_def)

theorem overrides_stay_real_witness:
  "parse_overrides (Some (serialize_overrides [(''new-tab'', ''Mod+Y''), (''refresh'', [])])) = [(''new-tab'', ''Mod+Y''), (''refresh'', [])]"
proof -
  have "wf_overrides [(''new-tab'', ''Mod+Y''), (''refresh'', [])]" by code_simp
  from overrides_stay_real [OF this, of None "''refresh''" "[]" 1] show ?thesis by blast
qed

text \<open>Migrating the overrides of an older version loses nothing the user set, and where a new default
  takes keys the user gave to another action, the new default is unbound.\<close>

theorem migration_keeps_bindings:
  assumes "map_of ov j = Some k" and "from < SHORTCUTS_VERSION"
    and "i \<in> set (map fst V1_CHANGED)" and "map_of ov i = None" and "default_keys i \<noteq> None"
    and "default_keys i = normalize_keys k"
  shows "map_of (migrate_overrides ov from) j = Some k \<and> map_of (migrate_overrides ov from) i = Some []"
proof -
  obtain d where d: "default_keys i = Some d" using assms(5) by blast
  have "(j, k) \<in> set ov" using assms(1) by (rule map_of_SomeD)
  moreover have "normalize_keys k = Some d" using assms(6) d by simp
  ultimately have "d \<in> taken_keys ov"
    unfolding taken_keys_def List.map_filter_def by (auto intro!: image_eqI [of _ _ "(j, k)"])
  then have "map_of (migrate_overrides ov from) i = Some []"
    using migrate_fold_unbound [OF assms(3,4) d] assms(2,3) by (simp add: migrate_overrides_def)
  moreover have "map_of (migrate_overrides ov from) j = map_of ov j"
    using migrate_fold_kept [of ov j] assms(1,2) by (simp add: migrate_overrides_def has_key_map_of)
  ultimately show ?thesis using assms(1) by simp
qed

theorem migration_keeps_bindings_witness:
  "map_of (migrate_overrides [(''new-tab'', ''Mod+O'')] 1) ''new-tab'' = Some ''Mod+O'' \<and>
   map_of (migrate_overrides [(''new-tab'', ''Mod+O'')] 1) ''open-file'' = Some []"
  by (rule migration_keeps_bindings; code_simp)

text \<open>The search for conflicts does not see the keys an event matches beside its label: Ctrl and the
  equals sign, given to an action without a conflict being found, fires the zoom instead.\<close>

lemma no_conflict_with_equals: "find_key_conflicts ''Mod+='' ''zoom-reset'' SHORTCUTS = []"
  by code_simp

lemma equals_fires_zoom:
  "match_shortcut (ctrl_key ''='' False) (effective_shortcuts (set_override ''zoom-reset'' ''Mod+='' []) SHORTCUTS) = Some ''zoom-in''"
  by code_simp

theorem conflict_not_found:
  "find_key_conflicts ''Mod+='' ''zoom-reset'' SHORTCUTS = [] \<and>
   match_shortcut (ctrl_key ''='' False) (effective_shortcuts (set_override ''zoom-reset'' ''Mod+='' []) SHORTCUTS) = Some ''zoom-in''"
  using no_conflict_with_equals equals_fires_zoom by blast

end
