(* ===== verification/TableDesign.thy ===== *)
theory TableDesign
  imports QueryTarget Results
begin

text \<open>
  The table designer (\<open>tableDesign.ts\<close>): the CREATE TABLE of a form, and the ALTER statements that turn
  a table as it was read into the table as it was edited. What is emitted is modelled as a list of
  elements (of a created table) or steps (of a change), each with the SQL it is rendered to; the
  specification is what those steps do to the columns of a table, in the order they run.
\<close>

section \<open>Forms\<close>

record column_def =
  cd_name :: string
  cd_type :: string
  cd_nullable :: bool
  cd_key :: bool
  cd_auto :: bool
  cd_default :: string

record table_def =
  td_name :: string
  td_columns :: "column_def list"
  td_container :: "string option"

definition quote_id :: "string \<Rightarrow> string \<Rightarrow> string" where
  "quote_id engine i = (if engine = ''informix'' then i else quote_identifier i engine)"

definition qualify_name :: "string \<Rightarrow> string option \<Rightarrow> string \<Rightarrow> string" where
  "qualify_name engine container name =
     (case truthy container of Some c \<Rightarrow> quote_id engine c @ ''.'' @ quote_id engine name | None \<Rightarrow> quote_id engine name)"

definition trimmed :: "'a column_def_scheme \<Rightarrow> 'a column_def_scheme" where
  "trimmed c = c\<lparr>cd_name := trim (cd_name c), cd_type := trim (cd_type c), cd_default := trim (cd_default c)\<rparr>"

definition column_text :: "string \<Rightarrow> string \<Rightarrow> string" where
  "column_text name rest = ''La columna '' @ DQ # name @ DQ # rest"

text \<open>The loop over the columns, and the comparison of their names without case.\<close>

fun column_error :: "'a column_def_scheme list \<Rightarrow> string option" where
  "column_error [] = None"
| "column_error (c # cs) =
     (if cd_name c = [] then Some ''Toda columna necesita un nombre.''
      else if cd_type c = [] then Some (column_text (cd_name c) '' necesita un tipo.'')
      else column_error cs)"

definition same_names :: "'a column_def_scheme list \<Rightarrow> bool" where
  "same_names cols \<longleftrightarrow> \<not> distinct (map (\<lambda>c. to_lower (cd_name c)) cols)"

definition is_mysql :: "string \<Rightarrow> bool" where
  "is_mysql e \<longleftrightarrow> e = ''mysql'' \<or> e = ''mariadb''"

definition is_serial :: "string \<Rightarrow> bool" where
  "is_serial e \<longleftrightarrow> e = ''informix'' \<or> e = ''postgres'' \<or> e = ''postgresql''"

section \<open>CREATE TABLE\<close>

datatype table_element =
    Inline_Key string
  | Column_Line string string bool string bool
  | Key_Clause "string list"

definition inline_key :: "string \<Rightarrow> column_def list \<Rightarrow> bool" where
  "inline_key e cols \<longleftrightarrow> e = ''sqlite'' \<and> length (filter cd_auto cols) = 1 \<and> length (filter cd_key cols) = 1"

definition column_element :: "string \<Rightarrow> bool \<Rightarrow> column_def \<Rightarrow> table_element" where
  "column_element e inline c =
     (if inline \<and> cd_key c then Inline_Key (cd_name c)
      else Column_Line (cd_name c) (if cd_auto c \<and> is_serial e then ''SERIAL'' else cd_type c)
             (cd_nullable c) (cd_default c) (cd_auto c \<and> is_mysql e))"

definition create_elements :: "string \<Rightarrow> column_def list \<Rightarrow> table_element list" where
  "create_elements e cols =
     map (column_element e (inline_key e cols)) cols @
     (if \<not> inline_key e cols \<and> filter cd_key cols \<noteq> [] then [Key_Clause (map cd_name (filter cd_key cols))] else [])"

primrec element_sql :: "string \<Rightarrow> table_element \<Rightarrow> string" where
  "element_sql e (Inline_Key n) = ''  '' @ quote_id e n @ '' INTEGER PRIMARY KEY AUTOINCREMENT''"
| "element_sql e (Column_Line n t nullable d auto) =
     ''  '' @ quote_id e n @ '' '' @ t @ (if nullable then [] else '' NOT NULL'') @
     (if d \<noteq> [] then '' DEFAULT '' @ d else []) @ (if auto then '' AUTO_INCREMENT'' else [])"
| "element_sql e (Key_Clause ns) = ''  PRIMARY KEY ('' @ join '', '' (map (quote_id e) ns) @ '')''"

definition create_error :: "string \<Rightarrow> column_def list \<Rightarrow> string option" where
  "create_error e cols =
     (if cols = [] then Some ''Agrega al menos una columna.''
      else case column_error cols of Some m \<Rightarrow> Some m
      | None \<Rightarrow>
          if same_names cols then Some ''Hay nombres de columna duplicados.''
          else case List.find (\<lambda>c. \<not> cd_key c) (filter cd_auto cols) of
            Some c \<Rightarrow> Some (column_text (cd_name c) '' es autoincremental y debe ser clave primaria.'')
          | None \<Rightarrow>
              if is_mysql e \<and> length (filter cd_auto cols) > 1 then Some ''MySQL permite solo una columna AUTO_INCREMENT.''
              else if e = ''sqlite'' \<and> filter cd_auto cols \<noteq> [] \<and> length (filter cd_key cols) > 1
              then Some (''En SQLite la columna autoincremental debe ser la '' @ CHR 0xFA # ''nica clave primaria.'')
              else None)"

definition build_create_table :: "string \<Rightarrow> table_def \<Rightarrow> (string, string) result" where
  "build_create_table engine def =
     (let e = to_lower engine; name = trim (td_name def); cols = map trimmed (td_columns def) in
      if name = [] then Inl ''El nombre de la tabla es obligatorio.''
      else case create_error e cols of Some m \<Rightarrow> Inl m
      | None \<Rightarrow> Inr (''CREATE TABLE '' @ qualify_name e (td_container def) name @ '' ('' @ CHR 0x0A #
          join ('','' @ [CHR 0x0A]) (map (element_sql e) (create_elements e cols)) @ CHR 0x0A # '')''))"

definition empty_column :: column_def where
  "empty_column = \<lparr>cd_name = [], cd_type = [], cd_nullable = True, cd_key = False, cd_auto = False, cd_default = []\<rparr>"

definition type_suggestions :: "string \<Rightarrow> string list" where
  "type_suggestions engine =
     (let e = to_lower engine in
      if e = ''sqlite'' then [''INTEGER'', ''TEXT'', ''REAL'', ''BLOB'', ''NUMERIC'']
      else if e = ''informix''
      then [''INTEGER'', ''SERIAL'', ''VARCHAR(255)'', ''CHAR(10)'', ''DECIMAL(10,2)'', ''DATE'', ''DATETIME YEAR TO SECOND'']
      else [''INT'', ''BIGINT'', ''VARCHAR(255)'', ''TEXT'', ''DECIMAL(10,2)'', ''BOOLEAN'', ''DATE'', ''TIMESTAMP''])"

section \<open>ALTER TABLE\<close>

record alter_column = column_def +
  ac_orig :: "string option"

record alter_table_def =
  atd_name :: string
  atd_columns :: "alter_column list"
  atd_container :: "string option"

record original_column =
  oc_name :: string
  oc_type :: string
  oc_nullable :: bool
  oc_default :: string

record original_table =
  ot_name :: string
  ot_columns :: "original_column list"

definition original_of_row :: "result_set \<Rightarrow> nat \<Rightarrow> cell list \<Rightarrow> original_column list" where
  "original_of_row d ni row =
     (let member = (\<lambda>n. case col_index (rs_columns d) n of None \<Rightarrow> None | Some i \<Rightarrow> cell_at row i) in
      case cell_at row ni of None \<Rightarrow> []
      | Some name \<Rightarrow>
          if name = [] then []
          else [\<lparr>oc_name = name, oc_type = default [] (member ''type''),
                 oc_nullable = (case member ''notnull'' of None \<Rightarrow> True | Some v \<Rightarrow> v = [] \<or> v = ''0''),
                 oc_default = default [] (member ''dflt_value'')\<rparr>])"

definition columns_from_describe :: "result_set \<Rightarrow> original_column list" where
  "columns_from_describe d =
     (case col_index (rs_columns d) ''name'' of None \<Rightarrow> []
      | Some ni \<Rightarrow> concat (map (original_of_row d ni) (rs_rows d)))"

datatype alter_step =
    Add_Col original_column
  | Drop_Col string
  | Change_Col string original_column
  | Modify_Col original_column
  | Informix_Modify_Col original_column
  | Rename_Col string string
  | Informix_Rename_Col string string
  | Set_Type string string
  | Set_Null string bool
  | Set_Default string string
  | Rename_To string
  | Informix_Rename_To string

text \<open>\<open>alterColumnClause\<close>; the key and the auto-increment are not part of it.\<close>

definition column_clause :: "string \<Rightarrow> original_column \<Rightarrow> string" where
  "column_clause e c =
     quote_id e (oc_name c) @ '' '' @ oc_type c @ (if oc_nullable c then [] else '' NOT NULL'') @
     (if oc_default c \<noteq> [] then '' DEFAULT '' @ oc_default c else [])"

definition clause_of :: "alter_column \<Rightarrow> original_column" where
  "clause_of c = \<lparr>oc_name = trim (cd_name c), oc_type = trim (cd_type c), oc_nullable = cd_nullable c, oc_default = trim (cd_default c)\<rparr>"

fun step_sql :: "string \<Rightarrow> string \<Rightarrow> string \<Rightarrow> alter_step \<Rightarrow> string" where
  "step_sql e qt tname (Add_Col c) = ''ALTER TABLE '' @ qt @ '' '' @ (if e = ''informix'' then ''ADD '' else ''ADD COLUMN '') @ column_clause e c"
| "step_sql e qt tname (Drop_Col n) = ''ALTER TABLE '' @ qt @ '' '' @ (if e = ''informix'' then ''DROP '' else ''DROP COLUMN '') @ quote_id e n"
| "step_sql e qt tname (Change_Col n c) = ''ALTER TABLE '' @ qt @ '' CHANGE COLUMN '' @ quote_id e n @ '' '' @ column_clause e c"
| "step_sql e qt tname (Modify_Col c) = ''ALTER TABLE '' @ qt @ '' MODIFY COLUMN '' @ column_clause e c"
| "step_sql e qt tname (Informix_Modify_Col c) = ''ALTER TABLE '' @ qt @ '' MODIFY ('' @ column_clause e c @ '')''"
| "step_sql e qt tname (Rename_Col a b) = ''ALTER TABLE '' @ qt @ '' RENAME COLUMN '' @ quote_id e a @ '' TO '' @ quote_id e b"
| "step_sql e qt tname (Informix_Rename_Col a b) = ''RENAME COLUMN '' @ quote_id e tname @ ''.'' @ quote_id e a @ '' TO '' @ quote_id e b"
| "step_sql e qt tname (Set_Type n t) = ''ALTER TABLE '' @ qt @ '' ALTER COLUMN '' @ quote_id e n @ '' TYPE '' @ t"
| "step_sql e qt tname (Set_Null n b) = ''ALTER TABLE '' @ qt @ '' ALTER COLUMN '' @ quote_id e n @ '' '' @ (if b then ''DROP NOT NULL'' else ''SET NOT NULL'')"
| "step_sql e qt tname (Set_Default n d) = ''ALTER TABLE '' @ qt @ '' ALTER COLUMN '' @ quote_id e n @ '' '' @ (if d \<noteq> [] then ''SET DEFAULT '' @ d else ''DROP DEFAULT'')"
| "step_sql e qt tname (Rename_To n) = ''ALTER TABLE '' @ qt @ '' RENAME TO '' @ quote_id e n"
| "step_sql e qt tname (Informix_Rename_To n) = ''RENAME TABLE '' @ quote_id e tname @ '' TO '' @ quote_id e n"

definition attrs_changed :: "original_column \<Rightarrow> alter_column \<Rightarrow> bool" where
  "attrs_changed old c \<longleftrightarrow> cd_type c \<noteq> oc_type old \<or> cd_nullable c \<noteq> oc_nullable old \<or> cd_default c \<noteq> oc_default old"

definition column_change :: "string \<Rightarrow> original_column \<Rightarrow> alter_column \<Rightarrow> bool \<Rightarrow> bool \<Rightarrow> (string, alter_step list) result" where
  "column_change e old c renamed changed =
     (if is_mysql e then Inr [if renamed then Change_Col (oc_name old) (clause_of c) else Modify_Col (clause_of c)]
      else if e = ''sqlite'' then
        (if changed then Inl (''SQLite no puede modificar el tipo, nulabilidad o default de la columna '' @ DQ # oc_name old @ DQ # ''; '' @ ''requiere recrear la tabla.'')
         else Inr [Rename_Col (oc_name old) (cd_name c)])
      else if e = ''informix'' then
        Inr ((if renamed then [Informix_Rename_Col (oc_name old) (cd_name c)] else []) @
             (if changed then [Informix_Modify_Col (clause_of c)] else []))
      else
        Inr ((if renamed then [Rename_Col (oc_name old) (cd_name c)] else []) @
             (if oc_type old \<noteq> cd_type c then [Set_Type (cd_name c) (cd_type c)] else []) @
             (if oc_nullable old \<noteq> cd_nullable c then [Set_Null (cd_name c) (cd_nullable c)] else []) @
             (if oc_default old \<noteq> cd_default c then [Set_Default (cd_name c) (cd_default c)] else [])))"

text \<open>\<open>new Map(original.columns.map(...))\<close>: of two columns of one name, the last.\<close>

definition original_named :: "original_column list \<Rightarrow> string \<Rightarrow> original_column option" where
  "original_named cols n = List.find (\<lambda>c. oc_name c = n) (rev cols)"

definition column_steps :: "string \<Rightarrow> original_column list \<Rightarrow> alter_column \<Rightarrow> (string, alter_step list) result" where
  "column_steps e original c =
     (case truthy (ac_orig c) of None \<Rightarrow> Inr [Add_Col (clause_of c)]
      | Some n \<Rightarrow>
          (case original_named original n of
             None \<Rightarrow> Inl (''La columna original '' @ DQ # n @ DQ # '' ya no existe.'')
           | Some old \<Rightarrow>
               if cd_name c = oc_name old \<and> \<not> attrs_changed old c then Inr []
               else column_change e old c (cd_name c \<noteq> oc_name old) (attrs_changed old c)))"

fun columns_steps :: "string \<Rightarrow> original_column list \<Rightarrow> alter_column list \<Rightarrow> (string, alter_step list) result" where
  "columns_steps e original [] = Inr []"
| "columns_steps e original (c # cs) =
     (case column_steps e original c of Inl m \<Rightarrow> Inl m
      | Inr ss \<Rightarrow> (case columns_steps e original cs of Inl m \<Rightarrow> Inl m | Inr ts \<Rightarrow> Inr (ss @ ts)))"

definition kept_names :: "alter_column list \<Rightarrow> string list" where
  "kept_names cols = List.map_filter (\<lambda>c. truthy (ac_orig c)) cols"

definition drop_steps :: "original_column list \<Rightarrow> alter_column list \<Rightarrow> alter_step list" where
  "drop_steps original cols =
     map (\<lambda>c. Drop_Col (oc_name c)) (filter (\<lambda>c. oc_name c \<notin> set (kept_names cols)) original)"

definition rename_steps :: "string \<Rightarrow> string \<Rightarrow> string \<Rightarrow> alter_step list" where
  "rename_steps e old name =
     (if name \<noteq> old then [if e = ''informix'' then Informix_Rename_To name else Rename_To name] else [])"

definition alter_steps :: "string \<Rightarrow> original_table \<Rightarrow> alter_table_def \<Rightarrow> (string, alter_step list) result" where
  "alter_steps e original edited =
     (let cols = map trimmed (atd_columns edited); name = trim (atd_name edited) in
      if cols = [] then Inl ''La tabla debe conservar al menos una columna.''
      else case column_error cols of Some m \<Rightarrow> Inl m
      | None \<Rightarrow>
          if same_names cols then Inl ''Hay nombres de columna duplicados.''
          else if name = [] then Inl ''El nombre de la tabla es obligatorio.''
          else (case columns_steps e (ot_columns original) cols of Inl m \<Rightarrow> Inl m
            | Inr ss \<Rightarrow> Inr (ss @ drop_steps (ot_columns original) cols @ rename_steps e (ot_name original) name)))"

definition build_alter_table :: "string \<Rightarrow> original_table \<Rightarrow> alter_table_def \<Rightarrow> (string, string list) result" where
  "build_alter_table engine original edited =
     (let e = to_lower engine in
      map_sum (\<lambda>m. m) (map (step_sql e (qualify_name e (atd_container edited) (ot_name original)) (ot_name original)))
        (alter_steps e original edited))"

datatype column_status = Added | Changed

definition column_state :: "alter_column \<Rightarrow> original_table option \<Rightarrow> column_status option" where
  "column_state c original =
     (case original of None \<Rightarrow> None
      | Some t \<Rightarrow>
          (case ac_orig c of None \<Rightarrow> Some Added
           | Some n \<Rightarrow>
               (case List.find (\<lambda>old. oc_name old = n) (ot_columns t) of None \<Rightarrow> Some Added
                | Some old \<Rightarrow>
                    if cd_name c = oc_name old \<and> to_lower (trim (cd_type c)) = to_lower (trim (oc_type old)) \<and>
                       cd_nullable c = oc_nullable old \<and> trim (cd_default c) = trim (oc_default old)
                    then None else Some Changed)))"

section \<open>What the steps do\<close>

text \<open>The columns of a table, each with the original column its data is from.\<close>

type_synonym table_state = "(original_column option \<times> original_column) list"

definition state_names :: "table_state \<Rightarrow> string list" where
  "state_names s = map (\<lambda>x. oc_name (snd x)) s"

definition edit_col :: "string \<Rightarrow> string \<Rightarrow> (original_column \<Rightarrow> original_column) \<Rightarrow> table_state \<Rightarrow> table_state option" where
  "edit_col n m f s =
     (if n \<notin> set (state_names s) \<or> (m \<noteq> n \<and> m \<in> set (state_names s)) then None
      else Some (map (\<lambda>(d, c). if oc_name c = n then (d, f c) else (d, c)) s))"

fun exec_step :: "alter_step \<Rightarrow> table_state \<Rightarrow> table_state option" where
  "exec_step (Add_Col c) s = (if oc_name c \<in> set (state_names s) then None else Some (s @ [(None, c)]))"
| "exec_step (Drop_Col n) s = (if n \<in> set (state_names s) then Some (filter (\<lambda>x. oc_name (snd x) \<noteq> n) s) else None)"
| "exec_step (Change_Col n c) s = edit_col n (oc_name c) (\<lambda>_. c) s"
| "exec_step (Modify_Col c) s = edit_col (oc_name c) (oc_name c) (\<lambda>_. c) s"
| "exec_step (Informix_Modify_Col c) s = edit_col (oc_name c) (oc_name c) (\<lambda>_. c) s"
| "exec_step (Rename_Col a b) s = edit_col a b (\<lambda>c. c\<lparr>oc_name := b\<rparr>) s"
| "exec_step (Informix_Rename_Col a b) s = edit_col a b (\<lambda>c. c\<lparr>oc_name := b\<rparr>) s"
| "exec_step (Set_Type n t) s = edit_col n n (\<lambda>c. c\<lparr>oc_type := t\<rparr>) s"
| "exec_step (Set_Null n b) s = edit_col n n (\<lambda>c. c\<lparr>oc_nullable := b\<rparr>) s"
| "exec_step (Set_Default n d) s = edit_col n n (\<lambda>c. c\<lparr>oc_default := d\<rparr>) s"
| "exec_step (Rename_To n) s = Some s"
| "exec_step (Informix_Rename_To n) s = Some s"

fun exec_steps :: "alter_step list \<Rightarrow> table_state \<Rightarrow> table_state option" where
  "exec_steps [] s = Some s"
| "exec_steps (x # xs) s = (case exec_step x s of None \<Rightarrow> None | Some s' \<Rightarrow> exec_steps xs s')"

definition initial_state :: "original_column list \<Rightarrow> table_state" where
  "initial_state cols = map (\<lambda>c. (Some c, c)) cols"

lemma exec_append:
  "exec_steps (xs @ ys) s = (case exec_steps xs s of None \<Rightarrow> None | Some s' \<Rightarrow> exec_steps ys s')"
  by (induction xs arbitrary: s) (auto split: option.split)

lemma state_names_append [simp]: "state_names (a @ b) = state_names a @ state_names b"
  by (simp add: state_names_def)

lemma state_names_Cons [simp]: "state_names (x # b) = oc_name (snd x) # state_names b"
  by (simp add: state_names_def)

lemma edit_col_at:
  assumes "oc_name x = n" "n \<notin> set (state_names (a @ b))" "m \<notin> set (state_names (a @ b))"
  shows "edit_col n m f (a @ (d, x) # b) = Some (a @ (d, f x) # b)"
proof -
  have m: "map (\<lambda>(d, c). if oc_name c = n then (d, f c) else (d, c)) l = l" if "n \<notin> set (state_names l)" for l
    using that by (intro map_idI) (force simp: state_names_def)
  show ?thesis using assms m [of a] m [of b] by (auto simp: edit_col_def)
qed

text \<open>A change of one column, wherever it stands, makes it what the form says and touches no other.\<close>

definition form_trimmed :: "alter_column \<Rightarrow> bool" where
  "form_trimmed c \<longleftrightarrow> trim (cd_name c) = cd_name c \<and> trim (cd_type c) = cd_type c \<and> trim (cd_default c) = cd_default c"

lemma change_exec:
  assumes "column_change e old c (cd_name c \<noteq> oc_name old) (attrs_changed old c) = Inr ss"
    and "form_trimmed c"
    and "oc_name old \<notin> set (state_names (a @ b))" "cd_name c \<notin> set (state_names (a @ b))"
    and "cd_name c \<noteq> oc_name old \<or> attrs_changed old c"
  shows "exec_steps ss (a @ (d, old) # b) = Some (a @ (d, clause_of c) # b)"
proof -
  have cl: "clause_of c = \<lparr>oc_name = cd_name c, oc_type = cd_type c, oc_nullable = cd_nullable c, oc_default = cd_default c\<rparr>"
    using assms(2) by (simp add: clause_of_def form_trimmed_def)
  have ed: "edit_col n m f (a @ (d, x) # b) = Some (a @ (d, f x) # b)"
    if "oc_name x = n" "n \<in> {oc_name old, cd_name c}" "m \<in> {oc_name old, cd_name c}" for n m f x
    using that assms(3,4) by (intro edit_col_at) auto
  consider "is_mysql e" | "\<not> is_mysql e" "e = ''sqlite''" | "\<not> is_mysql e" "e \<noteq> ''sqlite''" "e = ''informix''"
    | "\<not> is_mysql e" "e \<noteq> ''sqlite''" "e \<noteq> ''informix''" by blast
  then show ?thesis
  proof cases
    case 1
    with assms(1) show ?thesis by (cases "cd_name c = oc_name old") (auto simp: column_change_def ed cl)
  next
    case 2
    with assms(1,5) have "ss = [Rename_Col (oc_name old) (cd_name c)]" "\<not> attrs_changed old c"
      by (auto simp: column_change_def split: if_splits)
    then show ?thesis by (cases old) (simp add: ed cl attrs_changed_def)
  next
    case 3
    with assms(1) show ?thesis
      by (cases old; cases "cd_name c = oc_name old"; cases "attrs_changed old c") (auto simp: column_change_def ed cl attrs_changed_def)
  next
    case 4
    with assms(1) have ss: "ss = (if cd_name c \<noteq> oc_name old then [Rename_Col (oc_name old) (cd_name c)] else []) @
             (if oc_type old \<noteq> cd_type c then [Set_Type (cd_name c) (cd_type c)] else []) @
             (if oc_nullable old \<noteq> cd_nullable c then [Set_Null (cd_name c) (cd_nullable c)] else []) @
             (if oc_default old \<noteq> cd_default c then [Set_Default (cd_name c) (cd_default c)] else [])"
      by (simp add: column_change_def)
    have 1: "exec_steps (if cd_name c \<noteq> oc_name old then [Rename_Col (oc_name old) (cd_name c)] else []) (a @ (d, old) # b) =
        Some (a @ (d, old\<lparr>oc_name := cd_name c\<rparr>) # b)" by (cases old) (simp add: ed)
    have 2: "exec_steps (if oc_type old \<noteq> cd_type c then [Set_Type (cd_name c) (cd_type c)] else []) (a @ (d, old\<lparr>oc_name := cd_name c\<rparr>) # b) =
        Some (a @ (d, old\<lparr>oc_name := cd_name c, oc_type := cd_type c\<rparr>) # b)" by (cases old) (simp add: ed)
    have 3: "exec_steps (if oc_nullable old \<noteq> cd_nullable c then [Set_Null (cd_name c) (cd_nullable c)] else [])
          (a @ (d, old\<lparr>oc_name := cd_name c, oc_type := cd_type c\<rparr>) # b) =
        Some (a @ (d, old\<lparr>oc_name := cd_name c, oc_type := cd_type c, oc_nullable := cd_nullable c\<rparr>) # b)" by (cases old) (simp add: ed)
    have 4: "exec_steps (if oc_default old \<noteq> cd_default c then [Set_Default (cd_name c) (cd_default c)] else [])
          (a @ (d, old\<lparr>oc_name := cd_name c, oc_type := cd_type c, oc_nullable := cd_nullable c\<rparr>) # b) =
        Some (a @ (d, clause_of c) # b)" by (cases old) (simp add: ed cl)
    show ?thesis unfolding ss exec_append 1 2 3 4 option.case ..
  qed
qed

section \<open>The columns, one after another\<close>

text \<open>What an original column is after the columns of the form gone through so far, and the added ones.\<close>

definition now_is :: "alter_column list \<Rightarrow> original_column \<Rightarrow> original_column" where
  "now_is cs old = (case List.find (\<lambda>c. truthy (ac_orig c) = Some (oc_name old)) cs of None \<Rightarrow> old | Some c \<Rightarrow> clause_of c)"

definition added :: "alter_column list \<Rightarrow> alter_column list" where
  "added cs = filter (\<lambda>c. truthy (ac_orig c) = None) cs"

definition after_columns :: "original_column list \<Rightarrow> alter_column list \<Rightarrow> table_state" where
  "after_columns original cs = map (\<lambda>old. (Some old, now_is cs old)) original @ map (\<lambda>c. (None, clause_of c)) (added cs)"

definition no_clash :: "original_column list \<Rightarrow> alter_column list \<Rightarrow> bool" where
  "no_clash original cs \<longleftrightarrow>
     distinct (map oc_name original) \<and> distinct (map cd_name cs) \<and> distinct (kept_names cs) \<and>
     list_all (\<lambda>c. cd_name c \<in> set (map oc_name original) \<longrightarrow> truthy (ac_orig c) = Some (cd_name c)) cs"

lemma kept_app: "kept_names (xs @ ys) = kept_names xs @ kept_names ys"
  by (simp add: kept_names_def List.map_filter_def)

lemma no_clash_prefix: "no_clash original (ds @ es) \<Longrightarrow> no_clash original ds"
  by (simp add: no_clash_def kept_app)

lemma kept_append: "kept_names (cs @ [c]) = kept_names cs @ (case truthy (ac_orig c) of None \<Rightarrow> [] | Some n \<Rightarrow> [n])"
  by (simp add: kept_names_def List.map_filter_def split: option.split)

lemma set_kept: "set (kept_names cs) = {n. \<exists>c\<in>set cs. truthy (ac_orig c) = Some n}"
  unfolding kept_names_def List.map_filter_def by (auto simp: image_iff) force

lemma find_none_kept: "n \<notin> set (kept_names cs) \<Longrightarrow> List.find (\<lambda>c. truthy (ac_orig c) = Some n) cs = None"
  by (auto simp: find_None_iff set_kept)

lemma find_append: "List.find P (xs @ ys) = (case List.find P xs of Some x \<Rightarrow> Some x | None \<Rightarrow> List.find P ys)"
  by (induction xs) auto

lemma now_is_append:
  "now_is (cs @ [c]) old =
     (if oc_name old \<notin> set (kept_names cs) \<and> truthy (ac_orig c) = Some (oc_name old) then clause_of c else now_is cs old)"
proof (cases "oc_name old \<in> set (kept_names cs)")
  case True
  then obtain x where "List.find (\<lambda>c. truthy (ac_orig c) = Some (oc_name old)) cs = Some x"
    by (cases "List.find (\<lambda>c. truthy (ac_orig c) = Some (oc_name old)) cs") (auto simp: find_None_iff set_kept)
  with True show ?thesis by (simp add: now_is_def find_append)
next
  case False
  with find_none_kept [OF False] show ?thesis by (simp add: now_is_def find_append)
qed

lemma now_is_name:
  assumes "list_all form_trimmed cs"
  shows "oc_name (now_is cs old) \<in> insert (oc_name old) (cd_name ` set cs)"
proof (cases "List.find (\<lambda>c. truthy (ac_orig c) = Some (oc_name old)) cs")
  case (Some c)
  then have "c \<in> set cs" by (auto simp: find_Some_iff)
  with assms Some show ?thesis by (auto simp: now_is_def clause_of_def form_trimmed_def list_all_iff)
qed (simp add: now_is_def)

lemma after_names:
  assumes "list_all form_trimmed cs" and "n \<notin> cd_name ` set cs" and "n \<notin> set (map oc_name original)"
  shows "n \<notin> set (state_names (after_columns original cs))"
proof -
  have "oc_name (now_is cs old) \<noteq> n" if "old \<in> set original" for old
    using now_is_name [OF assms(1), of old] assms(2,3) that by auto
  then show ?thesis
    using assms by (auto simp: state_names_def after_columns_def added_def clause_of_def form_trimmed_def list_all_iff)
qed

lemma column_exec:
  assumes "column_steps e original c = Inr ss"
    and "no_clash original (cs @ [c])" and "list_all form_trimmed (cs @ [c])"
  shows "exec_steps ss (after_columns original cs) = Some (after_columns original (cs @ [c]))"
proof (cases "truthy (ac_orig c)")
  case None
  then have "ss = [Add_Col (clause_of c)]" using assms(1) by (simp add: column_steps_def)
  moreover have "oc_name (clause_of c) = cd_name c" using assms(3) by (simp add: clause_of_def form_trimmed_def)
  moreover have "cd_name c \<notin> set (state_names (after_columns original cs))"
    using assms(2,3) None by (intro after_names) (auto simp: no_clash_def list_all_iff)
  moreover have "now_is (cs @ [c]) = now_is cs" using None by (auto simp: now_is_append fun_eq_iff)
  ultimately show ?thesis using None by (simp add: after_columns_def added_def)
next
  case (Some n)
  obtain old where old: "original_named original n = Some old" using assms(1) Some by (auto simp: column_steps_def split: option.splits)
  then have n: "oc_name old = n" "old \<in> set original" using find_Some_mem [of _ "rev original" old] by (auto simp: original_named_def)
  obtain l r where o: "original = l @ old # r" using n(2) by (meson split_list)
  have fresh: "n \<notin> set (kept_names cs)" using assms(2) Some by (simp add: no_clash_def kept_append)
  have dist: "n \<notin> set (map oc_name (l @ r))" using assms(2) n(1) unfolding o no_clash_def by auto
  have cur: "now_is cs old = old" using find_none_kept [OF fresh] n(1) by (simp add: now_is_def)
  define s1 where "s1 = map (\<lambda>x. (Some x, now_is cs x)) l"
  define s2 where "s2 = map (\<lambda>x. (Some x, now_is cs x)) r @ map (\<lambda>x. (None, clause_of x)) (added cs)"
  have before: "after_columns original cs = s1 @ (Some old, old) # s2"
    using cur by (simp add: after_columns_def o s1_def s2_def)
  have same: "now_is (cs @ [c]) x = now_is cs x" if "x \<in> set (l @ r)" for x
    using that dist Some by (auto simp: now_is_append)
  have after: "after_columns original (cs @ [c]) = s1 @ (Some old, clause_of c) # s2"
    using same fresh Some n(1) by (simp add: after_columns_def o s1_def s2_def added_def now_is_append)
  have rest: "after_columns (l @ r) cs = s1 @ s2" by (simp add: after_columns_def s1_def s2_def)
  have tr: "list_all form_trimmed cs" "form_trimmed c" using assms(3) by simp_all
  have nin: "n \<in> set (map oc_name original)" using n by auto
  have own: "cd_name x \<noteq> n" if "x \<in> set cs" for x
  proof
    assume "cd_name x = n"
    then have "truthy (ac_orig x) = Some n" using assms(2) that nin by (simp add: no_clash_def list_all_iff)
    with that fresh show False by (auto simp: set_kept)
  qed
  have n1: "n \<notin> set (state_names (s1 @ s2))"
    unfolding rest [symmetric] using tr(1) own dist by (intro after_names) auto
  have n2: "cd_name c \<notin> set (state_names (s1 @ s2))"
  proof -
    have "cd_name c \<notin> set (map oc_name (l @ r))"
    proof
      assume a: "cd_name c \<in> set (map oc_name (l @ r))"
      then have "cd_name c \<in> set (map oc_name original)" by (auto simp: o)
      then have "cd_name c = n" using assms(2) Some by (auto simp: no_clash_def)
      with a dist show False by simp
    qed
    moreover have "cd_name c \<notin> cd_name ` set cs" using assms(2) by (simp add: no_clash_def)
    ultimately show ?thesis unfolding rest [symmetric] using tr(1) by (intro after_names) auto
  qed
  show ?thesis
  proof (cases "cd_name c = oc_name old \<and> \<not> attrs_changed old c")
    case True
    then have "ss = []" using assms(1) Some old by (simp add: column_steps_def)
    moreover have "clause_of c = old" using True tr(2) by (cases old) (simp add: clause_of_def form_trimmed_def attrs_changed_def)
    ultimately show ?thesis by (simp add: before after)
  next
    case False
    then have "column_change e old c (cd_name c \<noteq> oc_name old) (attrs_changed old c) = Inr ss"
      using assms(1) Some old by (auto simp: column_steps_def)
    from change_exec [OF this tr(2)] n1 n2 n(1) False show ?thesis by (auto simp: before after)
  qed
qed

lemma columns_exec:
  assumes "columns_steps e original cs = Inr ss"
    and "no_clash original (ds @ cs)" and "list_all form_trimmed (ds @ cs)"
  shows "exec_steps ss (after_columns original ds) = Some (after_columns original (ds @ cs))"
  using assms
proof (induction cs arbitrary: ds ss)
  case (Cons c cs)
  obtain s1 s2 where s: "column_steps e original c = Inr s1" "columns_steps e original cs = Inr s2" "ss = s1 @ s2"
    using Cons.prems(1) by (auto split: sum.splits)
  have "no_clash original (ds @ [c])"
    using Cons.prems(2) no_clash_prefix [of original "ds @ [c]" cs] by simp
  then have "exec_steps s1 (after_columns original ds) = Some (after_columns original (ds @ [c]))"
    using s(1) Cons.prems(3) by (intro column_exec) auto
  moreover have "exec_steps s2 (after_columns original (ds @ [c])) = Some (after_columns original (ds @ c # cs))"
    using Cons.IH [OF s(2), of "ds @ [c]"] Cons.prems(2,3) by simp
  ultimately show ?case by (simp add: s(3) exec_append)
qed simp

section \<open>Dropping what the form left out\<close>

lemma drops_exec:
  "set ns \<subseteq> set (state_names s) \<Longrightarrow> distinct ns \<Longrightarrow>
     exec_steps (map Drop_Col ns) s = Some (filter (\<lambda>x. oc_name (snd x) \<notin> set ns) s)"
proof (induction ns arbitrary: s)
  case (Cons n ns)
  have "set ns \<subseteq> set (state_names (filter (\<lambda>x. oc_name (snd x) \<noteq> n) s))"
  proof
    fix x assume x: "x \<in> set ns"
    then obtain y where "y \<in> set s" "oc_name (snd y) = x" "x \<noteq> n" using Cons.prems by (force simp: state_names_def)
    then show "x \<in> set (state_names (filter (\<lambda>x. oc_name (snd x) \<noteq> n) s))" by (auto simp: state_names_def)
  qed
  then have "exec_steps (map Drop_Col ns) (filter (\<lambda>x. oc_name (snd x) \<noteq> n) s) =
      Some (filter (\<lambda>x. oc_name (snd x) \<notin> set ns) (filter (\<lambda>x. oc_name (snd x) \<noteq> n) s))"
    using Cons.IH Cons.prems(2) by simp
  moreover have "filter (\<lambda>x. oc_name (snd x) \<notin> set ns) (filter (\<lambda>x. oc_name (snd x) \<noteq> n) s) =
      filter (\<lambda>x. oc_name (snd x) \<notin> set (n # ns)) s" by (auto intro: filter_cong)
  ultimately show ?case using Cons.prems(1) by simp
qed simp

text \<open>The columns of the table the form describes, kept ones in their order and with their data.\<close>

definition edited_columns :: "original_column list \<Rightarrow> alter_column list \<Rightarrow> table_state" where
  "edited_columns original cs =
     map (\<lambda>old. (Some old, now_is cs old)) (filter (\<lambda>old. oc_name old \<in> set (kept_names cs)) original) @
     map (\<lambda>c. (None, clause_of c)) (added cs)"

lemma dropped_filter:
  assumes "no_clash original cs" and "list_all form_trimmed cs"
  shows "filter (\<lambda>x. oc_name (snd x) \<notin> set (map oc_name (filter (\<lambda>c. oc_name c \<notin> set (kept_names cs)) original)))
      (after_columns original cs) = edited_columns original cs"
proof -
  define gone where "gone = set (map oc_name (filter (\<lambda>c. oc_name c \<notin> set (kept_names cs)) original))"
  have gone: "n \<in> gone \<longleftrightarrow> n \<in> set (map oc_name original) \<and> n \<notin> set (kept_names cs)" for n
    by (auto simp: gone_def)
  have out: "cd_name c \<notin> gone" if "c \<in> set cs" for c
  proof
    assume "cd_name c \<in> gone"
    then have g: "cd_name c \<in> set (map oc_name original)" "cd_name c \<notin> set (kept_names cs)" unfolding gone by blast+
    then have "truthy (ac_orig c) = Some (cd_name c)" using assms(1) that by (simp add: no_clash_def list_all_iff)
    with that g(2) show False by (auto simp: set_kept)
  qed
  have name: "oc_name (clause_of c) = cd_name c" if "c \<in> set cs" for c
    using assms(2) that by (auto simp: clause_of_def form_trimmed_def list_all_iff)
  have kept: "oc_name (now_is cs old) \<notin> gone \<longleftrightarrow> oc_name old \<in> set (kept_names cs)" if "old \<in> set original" for old
  proof (cases "List.find (\<lambda>c. truthy (ac_orig c) = Some (oc_name old)) cs")
    case None
    then have "oc_name old \<notin> set (kept_names cs)" by (auto simp: find_None_iff set_kept)
    with None that show ?thesis by (auto simp: now_is_def gone)
  next
    case (Some c)
    then have c: "c \<in> set cs" "truthy (ac_orig c) = Some (oc_name old)" using find_Some_mem [of _ cs c] by auto
    then have "oc_name old \<in> set (kept_names cs)" by (auto simp: set_kept)
    with Some out [OF c(1)] name [OF c(1)] show ?thesis by (simp add: now_is_def)
  qed
  have 1: "filter (\<lambda>x. oc_name (snd x) \<notin> gone) (map (\<lambda>old. (Some old, now_is cs old)) original) =
      map (\<lambda>old. (Some old, now_is cs old)) (filter (\<lambda>old. oc_name old \<in> set (kept_names cs)) original)"
    unfolding filter_map by (intro arg_cong [of _ _ "map _"] filter_cong) (simp_all add: kept)
  have 2: "filter (\<lambda>x. oc_name (snd x) \<notin> gone) (map (\<lambda>c. (None, clause_of c)) (added cs)) = map (\<lambda>c. (None, clause_of c)) (added cs)"
    using out name by (auto simp: added_def filter_id_conv)
  show ?thesis unfolding gone_def [symmetric] after_columns_def edited_columns_def by (simp add: 1 2)
qed

lemma after_none: "after_columns original [] = initial_state original"
  by (simp add: after_columns_def initial_state_def now_is_def added_def)

lemma trimmed_form: "list_all form_trimmed (map trimmed cs)"
  by (simp add: list_all_iff form_trimmed_def trimmed_def trim_trim)

lemma steps_make_the_form:
  assumes "alter_steps e original edited = Inr ss"
    and "no_clash (ot_columns original) (map trimmed (atd_columns edited))"
  shows "exec_steps ss (initial_state (ot_columns original)) =
    Some (edited_columns (ot_columns original) (map trimmed (atd_columns edited)))"
proof -
  define cols where "cols = map trimmed (atd_columns edited)"
  have tr: "list_all form_trimmed cols" unfolding cols_def by (rule trimmed_form)
  have nc: "no_clash (ot_columns original) cols" using assms(2) by (simp only: cols_def)
  obtain cs where cs: "columns_steps e (ot_columns original) cols = Inr cs"
    "ss = cs @ drop_steps (ot_columns original) cols @ rename_steps e (ot_name original) (trim (atd_name edited))"
    using assms(1) unfolding alter_steps_def cols_def [symmetric] by (auto simp: Let_def split: if_splits option.splits sum.splits)
  define gone where "gone = map oc_name (filter (\<lambda>c. oc_name c \<notin> set (kept_names cols)) (ot_columns original))"
  have 1: "exec_steps cs (initial_state (ot_columns original)) = Some (after_columns (ot_columns original) cols)"
    using columns_exec [OF cs(1), of "[]"] nc tr by (simp add: after_none)
  have "set gone \<subseteq> set (state_names (after_columns (ot_columns original) cols))"
  proof
    fix n assume "n \<in> set gone"
    then obtain old where old: "old \<in> set (ot_columns original)" "oc_name old = n" "n \<notin> set (kept_names cols)" by (auto simp: gone_def)
    then have "now_is cols old = old" using find_none_kept [of n cols] by (simp add: now_is_def)
    with old show "n \<in> set (state_names (after_columns (ot_columns original) cols))"
      by (auto simp: state_names_def after_columns_def intro!: image_eqI [of _ _ old])
  qed
  moreover have "distinct gone" using nc by (auto simp: gone_def no_clash_def distinct_map_filter)
  ultimately have 2: "exec_steps (map Drop_Col gone) (after_columns (ot_columns original) cols) = Some (edited_columns (ot_columns original) cols)"
    using drops_exec [of gone "after_columns (ot_columns original) cols"] dropped_filter [OF nc tr] by (simp add: gone_def)
  have 3: "exec_steps (rename_steps e x y) s = Some s" for x y s by (simp add: rename_steps_def)
  have "drop_steps (ot_columns original) cols = map Drop_Col gone" by (simp add: drop_steps_def gone_def)
  then show ?thesis unfolding cols_def [symmetric] cs(2) exec_append 1 by (simp add: exec_append 2 3)
qed

text \<open>The statements each engine takes: SQL Server, which the generic branch is also used for, takes none
  of them but ADD and DROP COLUMN without the word, and is left out.\<close>

definition designer_engine :: "string \<Rightarrow> bool" where
  "designer_engine e \<longleftrightarrow> e \<in> {''mysql'', ''mariadb'', ''sqlite'', ''informix'', ''postgres'', ''postgresql''}"

definition engine_takes :: "string \<Rightarrow> alter_step \<Rightarrow> bool" where
  "engine_takes e x = (case x of
     Add_Col _ \<Rightarrow> True | Drop_Col _ \<Rightarrow> True
   | Change_Col _ _ \<Rightarrow> e \<in> {''mysql'', ''mariadb''} | Modify_Col _ \<Rightarrow> e \<in> {''mysql'', ''mariadb''}
   | Rename_Col _ _ \<Rightarrow> e \<noteq> ''informix''
   | Informix_Modify_Col _ \<Rightarrow> e = ''informix'' | Informix_Rename_Col _ _ \<Rightarrow> e = ''informix''
   | Set_Type _ _ \<Rightarrow> e \<in> {''postgres'', ''postgresql''} | Set_Null _ _ \<Rightarrow> e \<in> {''postgres'', ''postgresql''}
   | Set_Default _ _ \<Rightarrow> e \<in> {''postgres'', ''postgresql''}
   | Rename_To _ \<Rightarrow> e \<noteq> ''informix'' | Informix_Rename_To _ \<Rightarrow> e = ''informix'')"

lemma change_taken_alter:
  assumes "e = ''postgres'' \<or> e = ''postgresql''" and "column_change e old c renamed changed = Inr ss"
  shows "list_all (engine_takes e) ss"
proof -
  have ne: "\<not> is_mysql e" "e \<noteq> ''sqlite''" "e \<noteq> ''informix''"
    using assms(1) by (elim disjE; simp add: is_mysql_def)+
  have "engine_takes e (Rename_Col x y)" "engine_takes e (Set_Type x y)" "engine_takes e (Set_Null x b)"
    "engine_takes e (Set_Default x y)" for x y b
    using assms(1) by (elim disjE; simp add: engine_takes_def)+
  moreover have "ss = (if renamed then [Rename_Col (oc_name old) (cd_name c)] else []) @
           (if oc_type old \<noteq> cd_type c then [Set_Type (cd_name c) (cd_type c)] else []) @
           (if oc_nullable old \<noteq> cd_nullable c then [Set_Null (cd_name c) (cd_nullable c)] else []) @
           (if oc_default old \<noteq> cd_default c then [Set_Default (cd_name c) (cd_default c)] else [])"
    using assms(2) ne unfolding column_change_def by simp
  ultimately show ?thesis by simp
qed

lemma change_taken:
  assumes "designer_engine e" and change: "column_change e old c renamed changed = Inr ss"
  shows "list_all (engine_takes e) ss"
proof -
  have "is_mysql e \<or> e = ''sqlite'' \<or> e = ''informix'' \<or> (e = ''postgres'' \<or> e = ''postgresql'')"
    using assms(1) by (simp only: designer_engine_def is_mysql_def insert_iff empty_iff simp_thms disj_assoc)
  then show ?thesis
  proof (elim disjE [of "is_mysql e"] disjE [of "e = ''sqlite''"] disjE [of "e = ''informix''"])
    assume e: "is_mysql e"
    then have "engine_takes e (Change_Col x y)" "engine_takes e (Modify_Col y)" for x y
      by (simp_all only: engine_takes_def is_mysql_def alter_step.case insert_iff empty_iff simp_thms)
    moreover have "ss = [if renamed then Change_Col (oc_name old) (clause_of c) else Modify_Col (clause_of c)]"
      using change e by (simp add: column_change_def)
    ultimately show ?thesis by simp
  next
    assume e: "e = ''sqlite''"
    then have "ss = [Rename_Col (oc_name old) (cd_name c)]"
      using change by (simp add: column_change_def is_mysql_def split: if_splits)
    with e show ?thesis by (simp add: engine_takes_def)
  next
    assume e: "e = ''informix''"
    then have "ss = (if renamed then [Informix_Rename_Col (oc_name old) (cd_name c)] else []) @
        (if changed then [Informix_Modify_Col (clause_of c)] else [])"
      using change by (simp add: column_change_def is_mysql_def)
    with e show ?thesis by (simp add: engine_takes_def)
  next
    assume "e = ''postgres'' \<or> e = ''postgresql''"
    then show ?thesis using change by (rule change_taken_alter)
  qed
qed

lemma column_taken:
  assumes "designer_engine e" and "column_steps e original c = Inr ss"
  shows "list_all (engine_takes e) ss"
proof -
  have "engine_takes e (Add_Col x)" for x by (simp add: engine_takes_def)
  then show ?thesis
    using assms(2) change_taken [OF assms(1)] by (auto simp: column_steps_def split: option.splits if_splits)
qed

lemma columns_taken: "designer_engine e \<Longrightarrow> columns_steps e original cs = Inr ss \<Longrightarrow> list_all (engine_takes e) ss"
  by (induction cs arbitrary: ss) (auto dest: column_taken split: sum.splits)

lemma steps_taken:
  assumes "designer_engine e" and "alter_steps e original edited = Inr ss"
  shows "list_all (engine_takes e) ss"
proof -
  obtain cs where cs: "columns_steps e (ot_columns original) (map trimmed (atd_columns edited)) = Inr cs"
    "ss = cs @ drop_steps (ot_columns original) (map trimmed (atd_columns edited)) @ rename_steps e (ot_name original) (trim (atd_name edited))"
    using assms(2) unfolding alter_steps_def by (auto simp: Let_def split: if_splits option.splits sum.splits)
  have "list_all (engine_takes e) (drop_steps original' cols)" for original' cols
    by (simp add: drop_steps_def engine_takes_def list_all_iff)
  moreover have "list_all (engine_takes e) (rename_steps e x y)" for x y
    by (auto simp: rename_steps_def engine_takes_def)
  ultimately show ?thesis using columns_taken [OF assms(1) cs(1)] by (simp add: cs(2))
qed


definition orders_table :: original_table where
  "orders_table = \<lparr>ot_name = ''orders'', ot_columns =
     [\<lparr>oc_name = ''id'', oc_type = ''INT'', oc_nullable = False, oc_default = []\<rparr>,
      \<lparr>oc_name = ''note'', oc_type = ''TEXT'', oc_nullable = True, oc_default = []\<rparr>,
      \<lparr>oc_name = ''old'', oc_type = ''TEXT'', oc_nullable = True, oc_default = []\<rparr>]\<rparr>"

definition form_column :: "string \<Rightarrow> string \<Rightarrow> string option \<Rightarrow> alter_column" where
  "form_column n t from = \<lparr>cd_name = n, cd_type = t, cd_nullable = True, cd_key = False, cd_auto = False, cd_default = [], ac_orig = from\<rparr>"

definition orders_form :: alter_table_def where
  "orders_form = \<lparr>atd_name = ''orders2'', atd_columns =
     [form_column ''id'' ''BIGINT'' (Some ''id''), form_column ''state'' ''TEXT'' None, form_column '' remark'' ''TEXT'' (Some ''note'')],
     atd_container = None\<rparr>"


text \<open>MySQL's MODIFY restates the column whole, and the clause leaves the numbering out: changing the
  type of a column the engine numbers takes its AUTO_INCREMENT away.\<close>

theorem mysql_numbering_lost:
  "build_alter_table ''mysql'' orders_table \<lparr>atd_name = ''orders'', atd_columns =
     [(form_column ''id'' ''BIGINT'' (Some ''id''))\<lparr>cd_nullable := False, cd_key := True, cd_auto := True\<rparr>,
      form_column ''note'' ''TEXT'' (Some ''note''), form_column ''old'' ''TEXT'' (Some ''old'')], atd_container = None\<rparr>
   = Inr [''ALTER TABLE '' @ [BT] @ ''orders'' @ [BT] @ '' MODIFY COLUMN '' @ [BT] @ ''id'' @ [BT] @ '' BIGINT NOT NULL'']"
  by code_simp

text \<open>On Informix the designer qualifies a table with a dot, where every other statement of the client
  writes the database and a colon.\<close>

theorem informix_container_dotted:
  "qualify_name ''informix'' (Some ''stores'') ''orders'' = ''stores.orders'' \<and>
   qualified_name \<lparr>np_db = Some ''stores'', np_schema = None, np_name = ''orders''\<rparr> ''informix'' = ''stores:orders''"
  by code_simp

text \<open>The names that clash are not only exchanged ones: a column added or renamed to the name of one that is
  dropped meets it, for the drops come last.\<close>

definition clashing_form :: "alter_column \<Rightarrow> alter_table_def" where
  "clashing_form c = \<lparr>atd_name = ''orders'', atd_columns =
     [\<lparr>cd_name = ''id'', cd_type = ''INT'', cd_nullable = False, cd_key = True, cd_auto = False, cd_default = [], ac_orig = Some ''id''\<rparr>,
      c], atd_container = None\<rparr>"

lemma dropped_name_taken:
  "alter_steps ''postgres'' orders_table (clashing_form (form_column ''old'' ''TEXT'' (Some ''note''))) =
     Inr [Rename_Col ''note'' ''old'', Drop_Col ''old'']"
  "exec_steps [Rename_Col ''note'' ''old'', Drop_Col ''old''] (initial_state (ot_columns orders_table)) = None"
  by code_simp+

section \<open>Nothing changed, and how the form shows it\<close>

lemma list_all_steps_nil:
  "list_all (\<lambda>c. column_steps e original c = Inr []) cs \<Longrightarrow> columns_steps e original cs = Inr []"
  by (induction cs) auto

text \<open>The form compares types without case and the statements with it: a type written in another case is shown as
  unchanged and altered.\<close>

lemma shown_unchanged_altered:
  "column_state (form_column ''note'' ''text'' (Some ''note'')) (Some orders_table) = None"
  "column_steps ''postgres'' (ot_columns orders_table) (form_column ''note'' ''text'' (Some ''note'')) = Inr [Set_Type ''note'' ''text'']"
  by code_simp+

section \<open>The created table\<close>

text \<open>What the elements of a CREATE TABLE declare: the columns with their type, whether they may be null,
  their default, and whether the engine numbers them; and the columns of the key.\<close>

definition element_columns :: "table_element \<Rightarrow> string list" where
  "element_columns el = (case el of Inline_Key n \<Rightarrow> [n] | Column_Line n _ _ _ _ \<Rightarrow> [n] | Key_Clause _ \<Rightarrow> [])"

definition element_keys :: "table_element \<Rightarrow> string list" where
  "element_keys el = (case el of Inline_Key n \<Rightarrow> [n] | Key_Clause ns \<Rightarrow> ns | Column_Line _ _ _ _ _ \<Rightarrow> [])"

definition element_numbered :: "string \<Rightarrow> table_element \<Rightarrow> string list" where
  "element_numbered e el = (case el of Inline_Key n \<Rightarrow> [n]
     | Column_Line n t _ _ auto \<Rightarrow> if auto \<or> (is_serial e \<and> t = ''SERIAL'') then [n] else [] | Key_Clause _ \<Rightarrow> [])"

definition numbers_columns :: "string \<Rightarrow> bool" where
  "numbers_columns e \<longleftrightarrow> is_mysql e \<or> is_serial e \<or> e = ''sqlite''"

lemma accepted_form:
  assumes "create_error e cols = None"
  shows "cols \<noteq> []" "distinct (map cd_name cols)" "list_all (\<lambda>c. cd_name c \<noteq> [] \<and> cd_type c \<noteq> []) cols"
    "list_all (\<lambda>c. cd_auto c \<longrightarrow> cd_key c) cols" "is_mysql e \<longrightarrow> length (filter cd_auto cols) \<le> 1"
    "e = ''sqlite'' \<and> filter cd_auto cols \<noteq> [] \<longrightarrow> length (filter cd_key cols) \<le> 1"
proof -
  have err: "column_error cols = None" "\<not> same_names cols" "List.find (\<lambda>c. \<not> cd_key c) (filter cd_auto cols) = None"
    using assms by (auto simp: create_error_def split: if_splits option.splits)
  show "cols \<noteq> []" "is_mysql e \<longrightarrow> length (filter cd_auto cols) \<le> 1"
    "e = ''sqlite'' \<and> filter cd_auto cols \<noteq> [] \<longrightarrow> length (filter cd_key cols) \<le> 1"
    using assms err by (auto simp: create_error_def split: if_splits)
  show "list_all (\<lambda>c. cd_name c \<noteq> [] \<and> cd_type c \<noteq> []) cols"
    using err(1) by (induction cols) (auto split: if_splits)
  have "distinct (map to_lower (map cd_name cols))" using err(2) by (simp add: same_names_def comp_def)
  then show "distinct (map cd_name cols)" using distinct_map by blast
  show "list_all (\<lambda>c. cd_auto c \<longrightarrow> cd_key c) cols" using err(3) by (auto simp: find_None_iff list_all_iff)
qed

lemma one_key: "length (filter P xs) = 1 \<Longrightarrow> \<exists>x. filter P xs = [x]"
  by (cases "filter P xs") auto

lemma concat_opt: "concat (map (\<lambda>c. if P c then [f c] else []) cols) = map f (filter P cols)"
  by (induction cols) auto

lemma created_keys:
  "concat (map element_keys (create_elements e cols)) = map cd_name (filter cd_key cols)"
proof (cases "inline_key e cols")
  case True
  have "concat (map (element_keys \<circ> column_element e True) cols) = concat (map (\<lambda>c. if cd_key c then [cd_name c] else []) cols)"
    by (intro arg_cong [of _ _ concat] map_cong) (auto simp: column_element_def element_keys_def)
  with True show ?thesis by (simp add: create_elements_def concat_opt)
next
  case False
  have "concat (map (element_keys \<circ> column_element e False) cols) = []" by (simp add: column_element_def element_keys_def)
  with False show ?thesis by (simp add: create_elements_def element_keys_def)
qed

lemma created_columns: "concat (map element_columns (create_elements e cols)) = map cd_name cols"
proof -
  have "concat (map (element_columns \<circ> column_element e b) cols) = map cd_name cols" for b
    by (induction cols) (auto simp: column_element_def element_columns_def)
  then show ?thesis by (simp add: create_elements_def element_columns_def)
qed

lemma created_numbered:
  assumes "create_error e cols = None" and "numbers_columns e"
    and "list_all (\<lambda>c. cd_type c \<noteq> ''SERIAL'') cols"
  shows "concat (map (element_numbered e) (create_elements e cols)) = map cd_name (filter cd_auto cols)"
proof -
  have auto: "cd_auto c \<longrightarrow> cd_key c" if "c \<in> set cols" for c using accepted_form(4) [OF assms(1)] that by (simp add: list_all_iff)
  have each: "element_numbered e (column_element e (inline_key e cols) c) = (if cd_auto c then [cd_name c] else [])" if c: "c \<in> set cols" for c
  proof (cases "e = ''sqlite''")
    case sqlite: True
    show ?thesis
    proof (cases "filter cd_auto cols = []")
      case True
      then have "\<not> cd_auto c" "\<not> inline_key e cols" using c by (auto simp: inline_key_def filter_empty_conv)
      with sqlite show ?thesis by (simp add: column_element_def element_numbered_def is_serial_def is_mysql_def)
    next
      case False
      then obtain a where a: "a \<in> set cols" "cd_auto a" by (auto simp: filter_empty_conv)
      then have "cd_key a" using auto by blast
      have le: "length (filter cd_key cols) \<le> 1" using accepted_form(6) [OF assms(1)] sqlite False by simp
      have "a \<in> set (filter cd_key cols)" using a(1) \<open>cd_key a\<close> by simp
      with le have key: "filter cd_key cols = [a]" by (cases "filter cd_key cols") auto
      have "filter cd_auto cols = filter cd_auto (filter cd_key cols)" using auto by (auto intro: filter_cong)
      then have "filter cd_auto cols = [a]" using key a(2) by simp
      then have inl: "inline_key e cols" using key sqlite by (simp add: inline_key_def)
      have "cd_key c \<longleftrightarrow> cd_auto c"
      proof
        assume "cd_key c"
        then have "c \<in> set (filter cd_key cols)" using c by simp
        then show "cd_auto c" using key a(2) by simp
      qed (use auto c in blast)
      with inl show ?thesis by (simp add: column_element_def element_numbered_def sqlite is_serial_def is_mysql_def)
    qed
  next
    case False
    then have "\<not> inline_key e cols" "is_mysql e \<or> is_serial e" using assms(2) by (auto simp: inline_key_def numbers_columns_def)
    moreover have "cd_type c \<noteq> ''SERIAL''" using assms(3) c by (simp add: list_all_iff)
    ultimately show ?thesis by (auto simp: column_element_def element_numbered_def)
  qed
  have "concat (map (element_numbered e \<circ> column_element e (inline_key e cols)) cols) =
      concat (map (\<lambda>c. if cd_auto c then [cd_name c] else []) cols)"
    using each by (intro arg_cong [of _ _ concat] map_cong) simp_all
  then show ?thesis by (simp add: create_elements_def element_numbered_def concat_opt)
qed

text \<open>A CREATE TABLE is written from a form only when every column has a name and a type, no two the same name,
  and it declares each column once in the form's order, as its primary key the columns marked as such, and, on the engines
  it knows, as numbered by the engine the columns marked as such.\<close>

theorem created_table_is_the_form:
  assumes "create_error e cols = None" and "numbers_columns e" and "list_all (\<lambda>c. cd_type c \<noteq> ''SERIAL'') cols"
  shows "concat (map element_columns (create_elements e cols)) = map cd_name cols \<and> distinct (map cd_name cols) \<and>
    concat (map element_keys (create_elements e cols)) = map cd_name (filter cd_key cols) \<and>
    concat (map (element_numbered e) (create_elements e cols)) = map cd_name (filter cd_auto cols)"
  using created_columns created_keys created_numbered [OF assms] accepted_form(2) [OF assms(1)] by blast

definition form_key :: column_def where
  "form_key = \<lparr>cd_name = ''id'', cd_type = ''INT'', cd_nullable = False, cd_key = True, cd_auto = True, cd_default = []\<rparr>"

theorem created_table_is_the_form_witness:
  "concat (map element_keys (create_elements ''sqlite'' [form_key, empty_column\<lparr>cd_name := ''n'', cd_type := ''TEXT''\<rparr>])) = [''id'']"
proof -
  have "create_error ''sqlite'' [form_key, empty_column\<lparr>cd_name := ''n'', cd_type := ''TEXT''\<rparr>] = None" by code_simp
  moreover have "numbers_columns ''sqlite''" by code_simp
  moreover have "list_all (\<lambda>c. cd_type c \<noteq> ''SERIAL'') [form_key, empty_column\<lparr>cd_name := ''n'', cd_type := ''TEXT''\<rparr>]" by code_simp
  ultimately have "concat (map element_keys (create_elements ''sqlite'' [form_key, empty_column\<lparr>cd_name := ''n'', cd_type := ''TEXT''\<rparr>])) =
      map cd_name (filter cd_key [form_key, empty_column\<lparr>cd_name := ''n'', cd_type := ''TEXT''\<rparr>])"
    using created_table_is_the_form by blast
  moreover have "map cd_name (filter cd_key [form_key, empty_column\<lparr>cd_name := ''n'', cd_type := ''TEXT''\<rparr>]) = [''id'']" by code_simp
  ultimately show ?thesis by simp
qed

text \<open>On SQL Server, which the client connects to, the designer's auto-increment is lost without a word: the
  column is created as a plain one, though the form accepted the mark.\<close>

theorem mssql_numbering_lost:
  "create_error ''mssql'' [form_key] = None \<and>
   concat (map (element_numbered ''mssql'') (create_elements ''mssql'' [form_key])) = [] \<and> cd_auto form_key"
  by code_simp

end
